(* ===== verification/JS_Prelude.thy ===== *)
theory JS_Prelude
  imports Complex_Main "HOL-Library.Multiset" "HOL-Library.Char_ord"
    "HOL-Library.List_Lexorder" "HOL-Library.AList"
begin

text \<open>
  The prelude of the development: the JavaScript values the program handles, the parts of the
  language's library the sources call (type tests, truthiness, strict equality, string trimming
  and case, stable sorting, \<^verbatim>\<open>Map\<close> and \<^verbatim>\<open>Set\<close> in insertion order), errors as values, and the
  platform the program runs on.

  \<^item> A value is a \<^verbatim>\<open>jsval\<close>. A string is a list of code units below 256 (\<^typ>\<open>string\<close>); a finite
    number is a rational (doubles are rationals; numbers are compared and tested for integrality,
    and where a source computes with fractions its theory takes the rounding as an argument); an object is the list of its
    own entries in enumeration order (the order of \<^verbatim>\<open>Object.keys\<close>), with distinct names.
  \<^item> \<^verbatim>\<open>throw\<close> is \<open>Inl\<close> of a \<^verbatim>\<open>jserror\<close>; a verdict \<^verbatim>\<open>{ ok: false, reason }\<close> is \<open>Inl\<close> of the
    reason.
  \<^item> Whatever Node's crypto, its clock formats and its collation compute is a field of the record
    \<^verbatim>\<open>platform\<close>, an argument of every definition that uses it; the documented behaviour a theorem
    relies on is a named hypothesis of that theorem.
\<close>

named_theorems js_simps \<open>evaluation rules of the JavaScript value model\<close>
named_theorems res_simps \<open>inversion rules for results and verdicts\<close>

section \<open>Values\<close>

datatype jsval =
    JUndef
  | JNull
  | JBool bool
  | JNum rat
  | JNaN
  | JInf bool
  | JStr string
  | JArr "jsval list"
  | JObj "(string \<times> jsval) list"
  | JFun

type_synonym entries = "(string \<times> jsval) list"

datatype jserror =
    Err string
  | TypeError string
  | Coded string string
  | Fault int string

type_synonym 'a result = "jserror + 'a"
type_synonym 'a verdict = "string + 'a"

fun message :: "jserror \<Rightarrow> string" where
  "message (Err m) = m"
| "message (TypeError m) = m"
| "message (Coded c m) = m"
| "message (Fault n c) = c"

definition rbind :: "'e + 'a \<Rightarrow> ('a \<Rightarrow> 'e + 'b) \<Rightarrow> 'e + 'b" where
  "rbind m f = (case m of Inl e \<Rightarrow> Inl e | Inr x \<Rightarrow> f x)"

fun truthy :: "jsval \<Rightarrow> bool" where
  "truthy JUndef = False"
| "truthy JNull = False"
| "truthy (JBool b) = b"
| "truthy (JNum r) = (r \<noteq> 0)"
| "truthy JNaN = False"
| "truthy (JStr s) = (s \<noteq> [])"
| "truthy _ = True"

fun nullish :: "jsval \<Rightarrow> bool" where
  "nullish JUndef = True"
| "nullish JNull = True"
| "nullish _ = False"

fun typeof :: "jsval \<Rightarrow> string" where
  "typeof JUndef = ''undefined''"
| "typeof JNull = ''object''"
| "typeof (JBool _) = ''boolean''"
| "typeof (JNum _) = ''number''"
| "typeof JNaN = ''number''"
| "typeof (JInf _) = ''number''"
| "typeof (JStr _) = ''string''"
| "typeof JFun = ''function''"
| "typeof _ = ''object''"

fun is_array :: "jsval \<Rightarrow> bool" where
  "is_array (JArr _) = True"
| "is_array _ = False"

fun is_string :: "jsval \<Rightarrow> bool" where
  "is_string (JStr _) = True"
| "is_string _ = False"

fun is_function :: "jsval \<Rightarrow> bool" where
  "is_function JFun = True"
| "is_function _ = False"

text \<open>\<^verbatim>\<open>value && typeof value === 'object' && !Array.isArray(value)\<close>: a proper object.\<close>

fun is_plain_object :: "jsval \<Rightarrow> bool" where
  "is_plain_object (JObj _) = True"
| "is_plain_object _ = False"

definition rat_is_int :: "rat \<Rightarrow> bool" where
  "rat_is_int r = (of_int \<lfloor>r\<rfloor> = r)"

fun is_integer :: "jsval \<Rightarrow> bool" where
  "is_integer (JNum r) = rat_is_int r"
| "is_integer _ = False"

fun is_safe_integer :: "jsval \<Rightarrow> bool" where
  "is_safe_integer (JNum r) = (rat_is_int r \<and> \<bar>r\<bar> \<le> 9007199254740991)"
| "is_safe_integer _ = False"

fun is_finite_num :: "jsval \<Rightarrow> bool" where
  "is_finite_num (JNum _) = True"
| "is_finite_num _ = False"

text \<open>The number of a value the source has checked to be one, and its integer part.\<close>

fun num_of :: "jsval \<Rightarrow> rat" where
  "num_of (JNum r) = r"
| "num_of _ = 0"

definition int_of :: "jsval \<Rightarrow> int" where
  "int_of v = \<lfloor>num_of v\<rfloor>"

fun str_of :: "jsval \<Rightarrow> string" where
  "str_of (JStr s) = s"
| "str_of _ = []"

fun elems :: "jsval \<Rightarrow> jsval list" where
  "elems (JArr xs) = xs"
| "elems _ = []"

text \<open>
  An own property read on a value that is not nullish. \<^verbatim>\<open>oget\<close> is optional chaining; \<^verbatim>\<open>dot\<close>
  is the plain dot, which throws on \<^verbatim>\<open>null\<close> and \<^verbatim>\<open>undefined\<close>. No property the sources read by a
  fixed name is inherited from \<^verbatim>\<open>Object.prototype\<close>; the reads by a computed name go through
  \<^verbatim>\<open>table_get\<close>.
\<close>

fun get :: "jsval \<Rightarrow> string \<Rightarrow> jsval" where
  "get (JObj kvs) k = (case map_of kvs k of None \<Rightarrow> JUndef | Some v \<Rightarrow> v)"
| "get _ k = JUndef"

definition oget :: "jsval \<Rightarrow> string \<Rightarrow> jsval" where
  "oget v k = (if nullish v then JUndef else get v k)"

definition dot :: "jsval \<Rightarrow> string \<Rightarrow> jsval result" where
  "dot v k = (if nullish v then Inl (TypeError (''Cannot read properties of undefined'')) else Inr (get v k))"

fun has_own :: "jsval \<Rightarrow> string \<Rightarrow> bool" where
  "has_own (JObj kvs) k = (k \<in> fst ` set kvs)"
| "has_own _ k = False"

definition object_prototype :: "string list" where
  "object_prototype = [''constructor'', ''__proto__'', ''__defineGetter__'', ''__defineSetter__'',
     ''__lookupGetter__'', ''__lookupSetter__'', ''hasOwnProperty'', ''isPrototypeOf'',
     ''propertyIsEnumerable'', ''toLocaleString'', ''toString'', ''valueOf'']"

text \<open>
  \<^verbatim>\<open>TABLE[name]\<close> with a computed name: the own entry, else the member inherited from
  \<^verbatim>\<open>Object.prototype\<close> (a function, whose identity the sources never look at), else nothing.
\<close>

datatype 'a lookup = Own 'a | Inherited | Missing

definition table_get :: "(string \<times> 'a) list \<Rightarrow> string \<Rightarrow> 'a lookup" where
  "table_get t k = (case map_of t k of Some v \<Rightarrow> Own v
     | None \<Rightarrow> if k \<in> set object_prototype then Inherited else Missing)"

text \<open>
  \<^verbatim>\<open>===\<close>. Two objects or arrays are identical only by reference; values that reach the modelled
  comparisons come from separate parses, so they are never the same object.
\<close>

fun strict_eq :: "jsval \<Rightarrow> jsval \<Rightarrow> bool" where
  "strict_eq JNaN _ = False"
| "strict_eq (JArr _) _ = False"
| "strict_eq (JObj _) _ = False"
| "strict_eq JFun _ = False"
| "strict_eq a b = (a = b)"

section \<open>Strings\<close>

definition js_white :: "char \<Rightarrow> bool" where
  "js_white c = (c \<in> {CHR 0x09, CHR 0x0A, CHR 0x0B, CHR 0x0C, CHR 0x0D, CHR 0x20, CHR 0xA0})"

definition trim :: "string \<Rightarrow> string" where
  "trim s = rev (dropWhile js_white (rev (dropWhile js_white s)))"

definition lower_char :: "char \<Rightarrow> char" where
  "lower_char c = (let n = (of_char c :: nat) in
     if 65 \<le> n \<and> n \<le> 90 \<or> 192 \<le> n \<and> n \<le> 222 \<and> n \<noteq> 215 then char_of (n + 32) else c)"

definition to_lower :: "string \<Rightarrow> string" where
  "to_lower s = map lower_char s"

definition is_digit :: "char \<Rightarrow> bool" where
  "is_digit c = (48 \<le> (of_char c :: nat) \<and> (of_char c :: nat) \<le> 57)"

definition digit_char :: "nat \<Rightarrow> char" where
  "digit_char n = char_of (48 + n)"

definition hex_char :: "nat \<Rightarrow> char" where
  "hex_char n = (if n < 10 then char_of (48 + n) else char_of (87 + n))"

definition is_hex :: "char \<Rightarrow> bool" where
  "is_hex c = (is_digit c \<or> (97 \<le> (of_char c :: nat) \<and> (of_char c :: nat) \<le> 102))"

fun nat_text :: "nat \<Rightarrow> string" where
  "nat_text n = (if n < 10 then [digit_char n] else nat_text (n div 10) @ [digit_char (n mod 10)])"

declare nat_text.simps [simp del]

definition int_text :: "int \<Rightarrow> string" where
  "int_text i = (if i < 0 then CHR ''-'' # nat_text (nat (- i)) else nat_text (nat i))"

definition text_nat :: "string \<Rightarrow> nat" where
  "text_nat s = foldl (\<lambda>n c. 10 * n + ((of_char c :: nat) - 48)) 0 s"

fun join :: "string \<Rightarrow> string list \<Rightarrow> string" where
  "join sep [] = []"
| "join sep [x] = x"
| "join sep (x # xs) = x @ sep @ join sep xs"

text \<open>\<^verbatim>\<open>isNonEmptyString\<close> and its kin: a string with something besides white space.\<close>

definition nonblank :: "jsval \<Rightarrow> bool" where
  "nonblank v = (case v of JStr s \<Rightarrow> trim s \<noteq> [] | _ \<Rightarrow> False)"

section \<open>Sorting, \<^verbatim>\<open>Set\<close> and \<^verbatim>\<open>Map\<close>\<close>

text \<open>
  \<^verbatim>\<open>Array.prototype.sort\<close> with a comparator is stable (ES2019); on a consistent comparator its
  result is the one of insertion sort.
\<close>

fun sort_insert :: "('a \<Rightarrow> 'a \<Rightarrow> int) \<Rightarrow> 'a \<Rightarrow> 'a list \<Rightarrow> 'a list" where
  "sort_insert cmp x [] = [x]"
| "sort_insert cmp x (y # ys) = (if cmp x y \<le> 0 then x # y # ys else y # sort_insert cmp x ys)"

definition js_sort :: "('a \<Rightarrow> 'a \<Rightarrow> int) \<Rightarrow> 'a list \<Rightarrow> 'a list" where
  "js_sort cmp xs = foldr (sort_insert cmp) xs []"

text \<open>\<^verbatim>\<open>a - b || next\<close> and \<^verbatim>\<open>cmp(a, b) || next\<close>: the first comparison that is not zero decides.\<close>

definition or_else :: "int \<Rightarrow> int \<Rightarrow> int" where
  "or_else a b = (if a \<noteq> 0 then a else b)"

definition cmp_ascii :: "string \<Rightarrow> string \<Rightarrow> int" where
  "cmp_ascii a b = (if a < b then -1 else if b < a then 1 else 0)"

text \<open>\<^verbatim>\<open>[...new Set(xs)]\<close>: each element once, at its first position.\<close>

definition unique :: "'a list \<Rightarrow> 'a list" where
  "unique xs = rev (remdups (rev xs))"

text \<open>
  A \<^verbatim>\<open>Map\<close> is the association list of its entries in insertion order: \<^const>\<open>AList.update\<close> keeps
  the position of a key that is present, as \<^verbatim>\<open>Map.prototype.set\<close> does, and \<^const>\<open>AList.delete\<close> is
  \<^verbatim>\<open>delete\<close>. Every map of the model has distinct keys.
\<close>

type_synonym ('k, 'v) jsmap = "('k \<times> 'v) list"

abbreviation jmap_get :: "('k, 'v) jsmap \<Rightarrow> 'k \<Rightarrow> 'v option" where
  "jmap_get m k \<equiv> map_of m k"

abbreviation jmap_set :: "'k \<Rightarrow> 'v \<Rightarrow> ('k, 'v) jsmap \<Rightarrow> ('k, 'v) jsmap" where
  "jmap_set k v m \<equiv> AList.update k v m"

abbreviation jmap_delete :: "'k \<Rightarrow> ('k, 'v) jsmap \<Rightarrow> ('k, 'v) jsmap" where
  "jmap_delete k m \<equiv> AList.delete k m"

abbreviation jmap_ok :: "('k, 'v) jsmap \<Rightarrow> bool" where
  "jmap_ok m \<equiv> distinct (map fst m)"

section \<open>The platform\<close>

text \<open>
  What Node provides and the sources only call: SHA-256 in hexadecimal; the parsing of a public
  key into its algorithm and SPKI bytes; Ed25519 signing (a base64 text) and verification; each of
  these is \<open>Inl\<close> of a message where the call throws. Further \<^verbatim>\<open>Date.parse\<close> (\<open>None\<close> is NaN) and
  \<^verbatim>\<open>toISOString\<close>, \<^verbatim>\<open>Number\<close> of a text, the collation of \<^verbatim>\<open>localeCompare\<close>, the decimal text of a number that is not a
  safe integer, and NFKC normalisation.
\<close>

record platform =
  sha256 :: "string \<Rightarrow> string"
  spki :: "jsval \<Rightarrow> string + (string \<times> string)"
  ed_sign :: "jsval \<Rightarrow> string \<Rightarrow> string + string"
  ed_verify :: "jsval \<Rightarrow> string \<Rightarrow> jsval \<Rightarrow> string + bool"
  date_parse :: "string \<Rightarrow> int option"
  date_iso :: "int \<Rightarrow> string"
  lcmp :: "string \<Rightarrow> string \<Rightarrow> int"
  frac_text :: "rat \<Rightarrow> string"
  nfkc :: "string \<Rightarrow> string"
  num_parse :: "string \<Rightarrow> jsval"

text \<open>
  What the program relies on of SHA-256 in hexadecimal: no two texts it digests collide, and the
  digest is made of hexadecimal digits.
\<close>

definition digest_law :: "platform \<Rightarrow> bool" where
  "digest_law p \<longleftrightarrow> inj (sha256 p) \<and> (\<forall>t. list_all is_hex (sha256 p t))"

text \<open>What \<^verbatim>\<open>Date\<close> promises: the ISO text of an instant parses back to it.\<close>

definition date_law :: "platform \<Rightarrow> bool" where
  "date_law p \<longleftrightarrow> (\<forall>t. date_parse p (date_iso p t) = Some t)"

section \<open>Lemmas the components share\<close>

lemma rbind_Inr [simp]: "rbind (Inr x) f = f x"
  by (simp add: rbind_def)

lemma rbind_Inl [simp]: "rbind (Inl e) f = Inl e"
  by (simp add: rbind_def)

lemma rbind_eq_Inr [res_simps]: "rbind m f = Inr y \<longleftrightarrow> (\<exists>x. m = Inr x \<and> f x = Inr y)"
  by (cases m) auto

lemma if_Inl_eq_Inr [res_simps]: "(if c then Inl e else m) = Inr y \<longleftrightarrow> \<not> c \<and> m = Inr y"
  by simp

lemma hex_char_inj: "n < 16 \<Longrightarrow> m < 16 \<Longrightarrow> hex_char n = hex_char m \<Longrightarrow> n = m"
proof -
  assume nm: "n < 16" "m < 16" and eq: "hex_char n = hex_char m"
  have code: "(of_char (hex_char k) :: nat) = (if k < 10 then 48 + k else 87 + k)" if "k < 16" for k
    using that by (simp add: hex_char_def)
  have "(of_char (hex_char n) :: nat) = of_char (hex_char m)" by (simp only: eq)
  with nm show "n = m" by (auto simp: code split: if_splits)
qed

lemma strict_eq_prim [js_simps]:
  "strict_eq (JStr a) v \<longleftrightarrow> v = JStr a"
  "strict_eq v (JStr a) \<longleftrightarrow> v = JStr a"
  "strict_eq (JNum r) v \<longleftrightarrow> v = JNum r"
  "strict_eq v (JNum r) \<longleftrightarrow> v = JNum r"
  "strict_eq (JBool b) v \<longleftrightarrow> v = JBool b"
  "strict_eq v (JBool b) \<longleftrightarrow> v = JBool b"
  by (cases v; auto)+

lemma strict_eq_imp_eq: "strict_eq a b \<Longrightarrow> a = b"
  by (cases a) auto

lemma trim_nonempty: "trim s \<noteq> [] \<longleftrightarrow> (\<exists>c\<in>set s. \<not> js_white c)"
proof -
  have "trim s = [] \<longleftrightarrow> (\<forall>c\<in>set (dropWhile js_white s). js_white c)"
    by (simp add: trim_def dropWhile_eq_Nil_conv)
  also have "\<dots> \<longleftrightarrow> dropWhile js_white s = []"
    by (cases "dropWhile js_white s") (use hd_dropWhile[of js_white s] in \<open>auto dest: set_dropWhileD\<close>)
  finally show ?thesis by (simp add: dropWhile_eq_Nil_conv)
qed

lemma rat_is_int_of_int [simp]: "rat_is_int (of_int i)"
  by (simp add: rat_is_int_def)

lemma rat_is_int_of_nat [simp]: "rat_is_int (of_nat n)"
  by (simp add: rat_is_int_def)

lemma rat_is_int_numeral [simp]: "rat_is_int (numeral w)" "rat_is_int 0" "rat_is_int 1"
  by (simp_all add: rat_is_int_def)

lemma is_integer_obtain:
  assumes "is_integer v"
  obtains i where "v = JNum (of_int i)"
proof (cases v)
  case (JNum r)
  with assms have "v = JNum (of_int \<lfloor>r\<rfloor>)"
    by (auto simp: rat_is_int_def)
  then show thesis by (rule that)
qed (use assms in auto)

lemma int_of_JNum [simp]: "int_of (JNum (of_int i)) = i" "int_of (JNum (numeral w)) = numeral w"
  "int_of (JNum 0) = 0" "int_of (JNum 1) = 1"
  by (simp_all add: int_of_def)

lemma unique_set [simp]: "set (unique xs) = set xs"
  by (simp add: unique_def)

lemma unique_distinct [simp]: "distinct (unique xs)"
  by (simp add: unique_def)

lemma unique_length_le: "length (unique xs) \<le> length xs"
  by (metis length_remdups_leq length_rev unique_def)

lemma unique_id: "distinct xs \<Longrightarrow> unique xs = xs"
  by (simp add: unique_def distinct_remdups_id)

lemma mset_sort_insert [simp]: "mset (sort_insert cmp x ys) = add_mset x (mset ys)"
  by (induction ys) auto

lemma mset_js_sort [simp]: "mset (js_sort cmp xs) = mset xs"
  by (induction xs) (auto simp: js_sort_def)

lemma set_js_sort [simp]: "set (js_sort cmp xs) = set xs"
  by (metis mset_js_sort set_mset_mset)

lemma length_js_sort [simp]: "length (js_sort cmp xs) = length xs"
  by (metis mset_js_sort size_mset)

lemma distinct_js_sort [simp]: "distinct (js_sort cmp xs) = distinct xs"
  by (metis mset_js_sort mset_eq_imp_distinct_iff)

text \<open>A consistent comparator: what \<^verbatim>\<open>sort\<close> needs to return its list in order.\<close>

definition consistent_cmp :: "('a \<Rightarrow> 'a \<Rightarrow> int) \<Rightarrow> bool" where
  "consistent_cmp cmp \<longleftrightarrow> (\<forall>a b. cmp a b \<le> 0 \<or> cmp b a \<le> 0) \<and>
     (\<forall>a b c. cmp a b \<le> 0 \<longrightarrow> cmp b c \<le> 0 \<longrightarrow> cmp a c \<le> 0)"

lemma sorted_sort_insert:
  assumes c: "consistent_cmp cmp" and s: "sorted_wrt (\<lambda>a b. cmp a b \<le> 0) ys"
  shows "sorted_wrt (\<lambda>a b. cmp a b \<le> 0) (sort_insert cmp x ys)"
  using s
proof (induction ys)
  case Nil
  then show ?case by simp
next
  case (Cons y ys)
  have ins: "set (sort_insert cmp x ys) = insert x (set ys)"
    by (metis mset_sort_insert set_mset_add_mset_insert set_mset_mset)
  show ?case
  proof (cases "cmp x y \<le> 0")
    case True
    with Cons.prems c show ?thesis by (auto simp: consistent_cmp_def)
  next
    case False
    with c have "cmp y x \<le> 0" by (auto simp: consistent_cmp_def)
    with Cons False show ?thesis by (auto simp: ins)
  qed
qed

lemma sorted_js_sort:
  "consistent_cmp cmp \<Longrightarrow> sorted_wrt (\<lambda>a b. cmp a b \<le> 0) (js_sort cmp xs)"
  by (induction xs) (auto simp: js_sort_def sorted_sort_insert)

lemma hd_sort_insert: "hd (sort_insert cmp x ys) = (if ys = [] \<or> cmp x (hd ys) \<le> 0 then x else hd ys)"
  by (cases ys) auto

text \<open>The head of a list sorted by a falling key, whatever decides ties.\<close>

lemma hd_js_sort_max:
  assumes "distinct xs" "xs \<noteq> []"
    "\<forall>x\<in>set xs. \<forall>y\<in>set xs. x \<noteq> y \<longrightarrow> f x \<noteq> f y \<and> cmp x y = or_else (f y - f x) (g x y)"
  shows "\<forall>y\<in>set xs. f y \<le> f (hd (js_sort cmp xs))"
  using assms
proof (induction xs)
  case (Cons x xs)
  show ?case
  proof (cases "xs = []")
    case False
    let ?h = "hd (js_sort cmp xs)"
    have h: "?h \<in> set xs" using False by (metis hd_in_set length_greater_0_conv length_js_sort set_js_sort)
    with Cons.prems have cmp: "cmp x ?h = or_else (f ?h - f x) (g x ?h)" "f x \<noteq> f ?h"
      by (metis distinct.simps(2) list.set_intros)+
    have "\<forall>y\<in>set xs. f y \<le> f ?h" using Cons False by simp
    moreover have "hd (js_sort cmp (x # xs)) = (if cmp x ?h \<le> 0 then x else ?h)"
      using False by (simp add: js_sort_def hd_sort_insert) (metis js_sort_def length_0_conv length_js_sort)
    ultimately show ?thesis using cmp by (auto simp: or_else_def)
  qed (simp add: js_sort_def)
qed simp

lemma cmp_ascii_le [simp]: "cmp_ascii a b \<le> 0 \<longleftrightarrow> a \<le> b"
  by (auto simp: cmp_ascii_def)

lemma consistent_cmp_ascii: "consistent_cmp cmp_ascii"
  by (auto simp: consistent_cmp_def)

text \<open>Comparing by a key first and by another comparator on ties.\<close>

lemma consistent_cmp_lex:
  fixes f :: "'a \<Rightarrow> 'b :: linorder"
  assumes "consistent_cmp cmp" and le: "\<And>a b. cmp' a b \<le> 0 \<longleftrightarrow> f a < f b \<or> (f a = f b \<and> cmp (g a) (g b) \<le> 0)"
  shows "consistent_cmp cmp'"
  using assms(1) unfolding consistent_cmp_def le
  by (metis linorder_less_linear order_less_trans)

lemma js_sort_ascii_unique:
  "distinct xs \<Longrightarrow> distinct ys \<Longrightarrow> set xs = set ys \<Longrightarrow> js_sort cmp_ascii xs = js_sort cmp_ascii ys"
  using sorted_js_sort[OF consistent_cmp_ascii] by (intro sorted_distinct_set_unique) auto

lemma map_of_update [simp]: "map_of (AList.update k v m) = (map_of m)(k \<mapsto> v)"
  by (rule update_conv')

lemma map_of_delete [simp]: "map_of (AList.delete k m) = (map_of m)(k := None)"
  by (rule delete_conv')

lemma set_update_subset: "set (AList.update k v m) \<subseteq> insert (k, v) (set m)"
  by (induction m) auto

lemma update_new: "k \<notin> fst ` set m \<Longrightarrow> AList.update k v m = m @ [(k, v)]"
  by (induction m) auto

lemma jmap_ok_update [simp]: "jmap_ok (AList.update k v m) = jmap_ok m"
  by (simp add: update_keys)

lemma jmap_ok_delete [simp]: "jmap_ok m \<Longrightarrow> jmap_ok (AList.delete k m)"
  by (rule distinct_delete)

end
