(* ===== verification/Sample_Platform.thy ===== *)
theory Sample_Platform
  imports JS_Prelude
begin

text \<open>
  One concrete platform, on which the theorems that take a platform as an argument are applied to
  concrete inputs. It satisfies the laws those theorems assume of Node: its digest is injective,
  what it signs verifies, its clock texts parse back, its number texts are distinct. It is no
  model of cryptography and nothing is concluded about the program from it.
\<close>

definition sample_signature :: string where
  "sample_signature = replicate 86 (CHR ''A'') @ ''==''"

definition sample_now :: int where
  "sample_now = 1767225600000"

definition sample_iso :: string where
  "sample_iso = ''2026-01-01T00:00:00.000Z''"

definition sample_date_iso :: "int \<Rightarrow> string" where
  "sample_date_iso t = (if t = sample_now then sample_iso else CHR ''T'' # int_text t)"

definition text_int :: "string \<Rightarrow> int" where
  "text_int s = (if s \<noteq> [] \<and> hd s = CHR ''-'' then - int (text_nat (tl s)) else int (text_nat s))"

definition sample_date_parse :: "string \<Rightarrow> int option" where
  "sample_date_parse s = (if s = sample_iso then Some sample_now
     else if s \<noteq> [] \<and> hd s = CHR ''T'' then Some (text_int (tl s)) else None)"

definition sample_sha256 :: "string \<Rightarrow> string" where
  "sample_sha256 s = concat (map (\<lambda>c. [hex_char (of_char c div 16), hex_char (of_char c mod 16)]) s)"

definition sample_platform :: platform where
  "sample_platform = \<lparr>
     sha256 = sample_sha256,
     spki = (\<lambda>k. case k of JStr s \<Rightarrow> Inr (''ed25519'', s) | _ \<Rightarrow> Inl ''Invalid key''),
     ed_sign = (\<lambda>k t. Inr sample_signature),
     ed_verify = (\<lambda>k t s. Inr (s = JStr sample_signature)),
     date_parse = sample_date_parse,
     date_iso = sample_date_iso,
     lcmp = cmp_ascii,
     frac_text = (\<lambda>r. case quotient_of r of (n, d) \<Rightarrow> int_text n @ CHR ''e'' # int_text d),
     nfkc = (\<lambda>s. s),
     num_parse = (\<lambda>s. if list_all is_digit s then JNum (of_nat (text_nat s)) else JNaN)\<rparr>"

lemma sample_platform_sel [simp]:
  "sha256 sample_platform = sample_sha256"
  "spki sample_platform (JStr s) = Inr (''ed25519'', s)"
  "ed_sign sample_platform k t = Inr sample_signature"
  "ed_verify sample_platform k t sig = Inr (sig = JStr sample_signature)"
  "date_parse sample_platform = sample_date_parse"
  "date_iso sample_platform = sample_date_iso"
  "lcmp sample_platform = cmp_ascii"
  "frac_text sample_platform r = (case quotient_of r of (n, d) \<Rightarrow> int_text n @ CHR ''e'' # int_text d)"
  "nfkc sample_platform = (\<lambda>s. s)"
  by (simp_all add: sample_platform_def)

lemma of_char_digit_char: "n < 10 \<Longrightarrow> (of_char (digit_char n) :: nat) = 48 + n"
  by (simp add: digit_char_def)

lemma text_nat_snoc: "text_nat (s @ [c]) = 10 * text_nat s + ((of_char c :: nat) - 48)"
  by (simp add: text_nat_def)

lemma text_nat_nat_text [simp]: "text_nat (nat_text n) = n"
proof (induction n rule: nat_text.induct)
  case (1 n)
  show ?case
  proof (cases "n < 10")
    case True
    then show ?thesis by (simp add: nat_text.simps[of n] text_nat_def of_char_digit_char)
  next
    case False
    with 1 have "text_nat (nat_text (n div 10)) = n div 10" by simp
    with False show ?thesis by (subst nat_text.simps) (simp add: text_nat_snoc of_char_digit_char)
  qed
qed

lemma nat_text_digits: "nat_text n \<noteq> [] \<and> list_all is_digit (nat_text n)"
proof (induction n rule: nat_text.induct)
  case (1 n)
  have digit: "m < 10 \<Longrightarrow> is_digit (digit_char m)" for m
    by (simp add: is_digit_def of_char_digit_char)
  show ?case
  proof (cases "n < 10")
    case False
    with 1 show ?thesis by (subst (1 2) nat_text.simps) (simp add: digit)
  qed (simp add: digit nat_text.simps[of n])
qed

lemma int_text_chars: "int_text i \<noteq> [] \<and> list_all (\<lambda>c. is_digit c \<or> c = CHR ''-'') (int_text i)"
  using nat_text_digits by (auto simp: int_text_def list_all_iff)

lemma text_int_int_text [simp]: "text_int (int_text i) = i"
proof (cases "i < 0")
  case True
  then show ?thesis by (simp add: int_text_def text_int_def)
next
  case False
  have "hd (nat_text (nat i)) \<noteq> CHR ''-''"
    using nat_text_digits[of "nat i"] by (cases "nat_text (nat i)") (auto simp: is_digit_def)
  with False show ?thesis by (simp add: int_text_def text_int_def)
qed

lemma inj_int_text: "inj int_text"
  by (metis injI text_int_int_text)

lemma sample_date_roundtrip [simp]: "sample_date_parse (sample_date_iso t) = Some t"
  by (simp add: sample_date_parse_def sample_date_iso_def sample_iso_def)

lemma sample_sha256_inj: "sample_sha256 s = sample_sha256 t \<Longrightarrow> s = t"
proof (induction s arbitrary: t)
  case Nil
  then show ?case by (cases t) (auto simp: sample_sha256_def)
next
  case (Cons c s)
  then obtain d t' where t: "t = d # t'" by (cases t) (auto simp: sample_sha256_def)
  with Cons.prems have eq: "hex_char (of_char c div 16) = hex_char (of_char d div 16)"
    "hex_char (of_char c mod 16) = hex_char (of_char d mod 16)" "sample_sha256 s = sample_sha256 t'"
    by (auto simp: sample_sha256_def)
  have "(of_char c :: nat) < 256" "(of_char d :: nat) < 256" by simp_all
  then have "(of_char c :: nat) div 16 < 16" "(of_char d :: nat) div 16 < 16"
    by (simp_all only: less_mult_imp_div_less numeral_times_numeral semiring_norm num.inject)
  then have "(of_char c :: nat) div 16 = of_char d div 16" using eq(1) by (rule hex_char_inj)
  moreover have "(of_char c :: nat) mod 16 = of_char d mod 16" using eq(2) by (intro hex_char_inj) simp_all
  ultimately have "(of_char c :: nat) = of_char d" by (metis div_mult_mod_eq)
  then have "c = d" by simp
  with Cons.IH[OF eq(3)] t show ?case by simp
qed

lemma sample_digest_law: "digest_law sample_platform"
proof -
  have hex: "is_hex (hex_char n)" if "n < 16" for n
    using that by (simp add: hex_char_def is_hex_def is_digit_def)
  have "is_hex (hex_char (of_char c div 16))" "is_hex (hex_char (of_char c mod 16))" for c
    by (rule hex, simp add: less_mult_imp_div_less)+
  then have "list_all is_hex (sample_sha256 t)" for t
    by (induction t) (simp_all add: sample_sha256_def)
  then show ?thesis by (auto simp: digest_law_def inj_def dest: sample_sha256_inj)
qed

lemma sample_date_law: "date_law sample_platform"
  by (simp add: date_law_def)

end
