(* ===== verification/Canonical_Json.thy ===== *)
theory Canonical_Json
  imports Sample_Platform
begin

text \<open>
  The canonical JSON form that every signature and every content identifier of the program is
  computed over: \<^verbatim>\<open>assertCanonicalJsonValue\<close>, \<^verbatim>\<open>normalize\<close> and \<^verbatim>\<open>canonicalize\<close> of
  \<^verbatim>\<open>core/protocol/index.js\<close>, with the parts of \<^verbatim>\<open>JSON.stringify\<close> and of object construction they
  rely on. The main results: the surrogate check accepts exactly the well-formed UTF-16 texts, the
  canonical text does not depend on the order of an object's members, and it determines the value.

  A value of the model is a finite tree without holes, so the branches for cyclic values and
  sparse arrays have no counterpart.
\<close>

section \<open>Well-formed text\<close>

text \<open>The inner function \<^verbatim>\<open>checkUnicode\<close>, over the code units of a string; \<open>False\<close> where it throws.\<close>

fun check_unicode :: "nat list \<Rightarrow> bool" where
  "check_unicode [] = True"
| "check_unicode (c # cs) =
     (if 0xd800 \<le> c \<and> c \<le> 0xdbff
      then (case cs of [] \<Rightarrow> False
            | d # ds \<Rightarrow> if 0xdc00 \<le> d \<and> d \<le> 0xdfff then check_unicode ds else False)
      else if 0xdc00 \<le> c \<and> c \<le> 0xdfff then False
      else check_unicode cs)"

definition code_units :: "string \<Rightarrow> nat list" where
  "code_units s = map of_char s"

text \<open>The reference: UTF-16 encodings of Unicode scalar values.\<close>

definition scalar_value :: "nat \<Rightarrow> bool" where
  "scalar_value n \<longleftrightarrow> n < 0x110000 \<and> \<not> (0xd800 \<le> n \<and> n \<le> 0xdfff)"

definition utf16 :: "nat \<Rightarrow> nat list" where
  "utf16 n = (if n < 0x10000 then [n]
     else [0xd800 + (n - 0x10000) div 0x400, 0xdc00 + (n - 0x10000) mod 0x400])"

section \<open>Validation, normalisation and printing\<close>

definition unpaired :: "unit result" where
  "unpaired = Inl (TypeError ''TCJ1 unpaired surrogate'')"

fun assertCanonicalJsonValue :: "jsval \<Rightarrow> unit result"
  and assert_items :: "jsval list \<Rightarrow> unit result"
  and assert_members :: "entries \<Rightarrow> unit result" where
  "assertCanonicalJsonValue JNull = Inr ()"
| "assertCanonicalJsonValue (JBool b) = Inr ()"
| "assertCanonicalJsonValue (JNum r) = Inr ()"
| "assertCanonicalJsonValue JNaN = Inl (TypeError ''TCJ1 non-finite number'')"
| "assertCanonicalJsonValue (JInf s) = Inl (TypeError ''TCJ1 non-finite number'')"
| "assertCanonicalJsonValue (JStr s) = (if check_unicode (code_units s) then Inr () else unpaired)"
| "assertCanonicalJsonValue JUndef = Inl (TypeError ''TCJ1 requires JSON value'')"
| "assertCanonicalJsonValue JFun = Inl (TypeError ''TCJ1 requires JSON value'')"
| "assertCanonicalJsonValue (JArr xs) = assert_items xs"
| "assertCanonicalJsonValue (JObj kvs) = assert_members kvs"
| "assert_items [] = Inr ()"
| "assert_items (x # xs) = rbind (assertCanonicalJsonValue x) (\<lambda>_. assert_items xs)"
| "assert_members [] = Inr ()"
| "assert_members ((k, v) # kvs) =
     (if check_unicode (code_units k)
      then rbind (assertCanonicalJsonValue v) (\<lambda>_. assert_members kvs) else unpaired)"

text \<open>
  The enumeration order of a new object: names that are array indices come first, in ascending
  order, then the other names in creation order.
\<close>

definition index_key :: "string \<Rightarrow> bool" where
  "index_key s \<longleftrightarrow> s = ''0'' \<or>
     (s \<noteq> [] \<and> list_all is_digit s \<and> hd s \<noteq> CHR ''0'' \<and> text_nat s < 4294967295)"

definition own_order :: "(string \<times> 'a) list \<Rightarrow> (string \<times> 'a) list" where
  "own_order es = sort_key (text_nat \<circ> fst) (filter (index_key \<circ> fst) es)
     @ filter (Not \<circ> index_key \<circ> fst) es"

fun normalize :: "jsval \<Rightarrow> jsval" and normalize_items :: "jsval list \<Rightarrow> jsval list"
  and normalize_members :: "entries \<Rightarrow> entries" where
  "normalize (JArr xs) = JArr (normalize_items xs)"
| "normalize (JObj kvs) = JObj (own_order (sort_key fst (normalize_members kvs)))"
| "normalize JUndef = JUndef"
| "normalize JNull = JNull"
| "normalize (JBool b) = JBool b"
| "normalize (JNum r) = JNum r"
| "normalize JNaN = JNaN"
| "normalize (JInf s) = JInf s"
| "normalize (JStr s) = JStr s"
| "normalize JFun = JFun"
| "normalize_items [] = []"
| "normalize_items (x # xs) = normalize x # normalize_items xs"
| "normalize_members [] = []"
| "normalize_members ((k, v) # kvs) = (k, normalize v) # normalize_members kvs"

definition short_escapes :: "(char \<times> char) list" where
  "short_escapes = [(CHR 0x22, CHR 0x22), (CHR 0x5C, CHR 0x5C), (CHR 0x08, CHR ''b''),
     (CHR 0x0C, CHR ''f''), (CHR 0x0A, CHR ''n''), (CHR 0x0D, CHR ''r''), (CHR 0x09, CHR ''t'')]"

definition esc_char :: "char \<Rightarrow> string" where
  "esc_char c = (case map_of short_escapes c of
       Some e \<Rightarrow> [CHR 0x5C, e]
     | None \<Rightarrow> if (of_char c :: nat) < 32
         then [CHR 0x5C, CHR ''u'', CHR ''0'', CHR ''0'', hex_char (of_char c div 16), hex_char (of_char c mod 16)]
         else [c])"

fun json_body :: "string \<Rightarrow> string" where
  "json_body [] = [CHR 0x22]"
| "json_body (c # cs) = esc_char c @ json_body cs"

definition json_string :: "string \<Rightarrow> string" where
  "json_string s = CHR 0x22 # json_body s"

definition number_text :: "platform \<Rightarrow> rat \<Rightarrow> string" where
  "number_text p r = (if rat_is_int r \<and> \<bar>r\<bar> \<le> 9007199254740991 then int_text \<lfloor>r\<rfloor> else frac_text p r)"

text \<open>
  \<^verbatim>\<open>String(v)\<close>, also the property key of a computed read. A function's source text is never looked
  at; it stands for any text that is no name of the sources' tables.
\<close>

fun to_string :: "platform \<Rightarrow> jsval \<Rightarrow> string" where
  "to_string p JUndef = ''undefined''"
| "to_string p JNull = ''null''"
| "to_string p (JBool b) = (if b then ''true'' else ''false'')"
| "to_string p (JNum r) = number_text p r"
| "to_string p JNaN = ''NaN''"
| "to_string p (JInf s) = (if s then ''Infinity'' else ''-Infinity'')"
| "to_string p (JStr s) = s"
| "to_string p (JArr xs) = join '','' (map (\<lambda>x. if nullish x then [] else to_string p x) xs)"
| "to_string p (JObj kvs) = ''[object Object]''"
| "to_string p JFun = ''function () { [native code] }''"

text \<open>\<^verbatim>\<open>Number(v)\<close>, and the relational operators: two texts compare as texts, all else as numbers.\<close>

fun to_number :: "platform \<Rightarrow> jsval \<Rightarrow> jsval" where
  "to_number p JUndef = JNaN"
| "to_number p JNull = JNum 0"
| "to_number p (JBool b) = JNum (if b then 1 else 0)"
| "to_number p (JNum r) = JNum r"
| "to_number p JNaN = JNaN"
| "to_number p (JInf s) = JInf s"
| "to_number p (JStr s) = num_parse p s"
| "to_number p v = num_parse p (to_string p v)"

fun num_less :: "jsval \<Rightarrow> jsval \<Rightarrow> bool" where
  "num_less (JNum a) (JNum b) = (a < b)"
| "num_less (JInf a) (JInf b) = (\<not> a \<and> b)"
| "num_less (JInf a) (JNum b) = (\<not> a)"
| "num_less (JNum a) (JInf b) = b"
| "num_less _ _ = False"

definition js_less :: "platform \<Rightarrow> jsval \<Rightarrow> jsval \<Rightarrow> bool" where
  "js_less p a b = (if is_string a \<and> is_string b then str_of a < str_of b
     else num_less (to_number p a) (to_number p b))"

text \<open>\<^verbatim>\<open>a >= b\<close>; every comparison with NaN is false.\<close>

definition js_geq :: "platform \<Rightarrow> jsval \<Rightarrow> jsval \<Rightarrow> bool" where
  "js_geq p a b = (if is_string a \<and> is_string b then str_of b \<le> str_of a
     else to_number p a \<noteq> JNaN \<and> to_number p b \<noteq> JNaN \<and> \<not> num_less (to_number p a) (to_number p b))"

text \<open>\<^verbatim>\<open>JSON.stringify\<close>; \<open>None\<close> where it returns \<^verbatim>\<open>undefined\<close>.\<close>

fun json_text :: "platform \<Rightarrow> jsval \<Rightarrow> string option"
  and json_items :: "platform \<Rightarrow> jsval list \<Rightarrow> string list"
  and json_members :: "platform \<Rightarrow> entries \<Rightarrow> string list" where
  "json_text p JUndef = None"
| "json_text p JFun = None"
| "json_text p JNull = Some ''null''"
| "json_text p (JBool b) = Some (if b then ''true'' else ''false'')"
| "json_text p (JNum r) = Some (number_text p r)"
| "json_text p JNaN = Some ''null''"
| "json_text p (JInf s) = Some ''null''"
| "json_text p (JStr s) = Some (json_string s)"
| "json_text p (JArr xs) = Some (''['' @ join '','' (json_items p xs) @ '']'')"
| "json_text p (JObj kvs) = Some (''{'' @ join '','' (json_members p kvs) @ ''}'')"
| "json_items p [] = []"
| "json_items p (x # xs) = (case json_text p x of None \<Rightarrow> ''null'' | Some t \<Rightarrow> t) # json_items p xs"
| "json_members p [] = []"
| "json_members p ((k, v) # kvs) =
     (case json_text p v of None \<Rightarrow> [] | Some t \<Rightarrow> [json_string k @ '':'' @ t]) @ json_members p kvs"

text \<open>
  \<^verbatim>\<open>canonicalize\<close>. Where \<^verbatim>\<open>JSON.stringify\<close> gave \<^verbatim>\<open>undefined\<close>, every caller (a hash update, a buffer)
  would throw; validation excludes it.
\<close>

definition canonicalize :: "platform \<Rightarrow> jsval \<Rightarrow> string result" where
  "canonicalize p v = rbind (assertCanonicalJsonValue v) (\<lambda>_.
     case json_text p (normalize v) of
       Some t \<Rightarrow> Inr t
     | None \<Rightarrow> Inl (TypeError ''The data argument must be of type string''))"

text \<open>\<^verbatim>\<open>digest\<close>, as every module that builds content identifiers defines it.\<close>

definition digest :: "platform \<Rightarrow> jsval \<Rightarrow> string result" where
  "digest p v = rbind (canonicalize p v) (\<lambda>t. Inr (''sha256:'' @ sha256 p t))"

definition hash_value :: "platform \<Rightarrow> jsval \<Rightarrow> string result" where
  "hash_value p v = rbind (canonicalize p v) (\<lambda>t. Inr (sha256 p t))"

section \<open>Well-formed text: the check against UTF-16\<close>

lemma utf16_surrogates:
  assumes "0xd800 \<le> c" "c \<le> 0xdbff" "0xdc00 \<le> d" "d \<le> 0xdfff"
  shows "\<exists>n. scalar_value n \<and> utf16 n = [c, d]"
proof -
  from assms obtain a b where c: "c = 0xd800 + a" and d: "d = 0xdc00 + b"
    by (auto simp: le_iff_add)
  with assms have "a < 0x400" and b: "b < 0x400" by auto
  let ?n = "0x10000 + (0x400 * a + b)"
  from b have "(0x400 * a + b) div 0x400 = a" "(0x400 * a + b) mod 0x400 = b" by auto
  with c d \<open>a < 0x400\<close> b have "scalar_value ?n \<and> utf16 ?n = [c, d]"
    unfolding scalar_value_def utf16_def by simp
  then show ?thesis by blast
qed

lemma check_unicode_utf16:
  "scalar_value n \<Longrightarrow> check_unicode (utf16 n @ cs) = check_unicode cs"
proof (cases "n < 0x10000")
  case False
  assume s: "scalar_value n"
  from s False have "(n - 0x10000) div 0x400 \<le> 0x3ff"
    by (auto simp: scalar_value_def)
  moreover have "(n - 0x10000) mod 0x400 < 0x400" by simp
  then have "(n - 0x10000) mod 0x400 \<le> 0x3ff" by linarith
  ultimately show ?thesis using False by (simp add: utf16_def)
qed (auto simp: scalar_value_def utf16_def)

lemma utf16_units: "scalar_value n \<Longrightarrow> \<forall>c\<in>set (utf16 n). c < 65536"
proof (cases "n < 0x10000")
  case False
  assume "scalar_value n"
  then have "n - 0x10000 < 0x400 * 0x400" by (auto simp: scalar_value_def)
  then have "(n - 0x10000) div 0x400 < 0x400" by (rule less_mult_imp_div_less)
  moreover have "(n - 0x10000) mod 0x400 < 0x400" by simp
  ultimately show ?thesis using False by (simp add: utf16_def)
qed (simp add: utf16_def)

lemma check_unicode_sound:
  "check_unicode cs \<Longrightarrow> \<forall>c\<in>set cs. c < 65536 \<Longrightarrow>
    \<exists>ns. list_all scalar_value ns \<and> cs = concat (map utf16 ns)"
proof (induction cs rule: check_unicode.induct)
  case 1
  then show ?case by (intro exI[of _ "[]"]) simp
next
  case (2 c cs)
  show ?case
  proof (cases "0xd800 \<le> c \<and> c \<le> 0xdbff")
    case True
    with "2.prems"(1) obtain d ds where cs: "cs = d # ds" "0xdc00 \<le> d" "d \<le> 0xdfff" "check_unicode ds"
      by (auto split: list.splits if_splits)
    with True "2.IH"(1)[of d ds] "2.prems"(2) obtain ns
      where ns: "list_all scalar_value ns" "ds = concat (map utf16 ns)" by auto
    from utf16_surrogates[of c d] True cs obtain n where "scalar_value n" "utf16 n = [c, d]" by auto
    with ns cs show ?thesis by (intro exI[of _ "n # ns"]) simp
  next
    case False
    with "2.prems" have c: "scalar_value c" "utf16 c = [c]" and "check_unicode cs"
      by (auto simp: scalar_value_def utf16_def split: if_splits)
    with False "2.IH"(2) "2.prems" obtain ns
      where ns: "list_all scalar_value ns" "cs = concat (map utf16 ns)" by (auto split: if_splits)
    with c show ?thesis by (intro exI[of _ "c # ns"]) simp
  qed
qed

text \<open>
  The surrogate check of the canonical JSON validator accepts a sequence of 16-bit code units
  exactly when it is the UTF-16 encoding of some sequence of Unicode scalar values: no unpaired
  surrogate is ever signed and no well-formed text is refused.
\<close>

theorem check_unicode_wellformed:
  "(check_unicode cs \<and> (\<forall>c\<in>set cs. c < 65536)) =
     (\<exists>ns. list_all scalar_value ns \<and> cs = concat (map utf16 ns))"
proof (rule iffI)
  assume "\<exists>ns. list_all scalar_value ns \<and> cs = concat (map utf16 ns)"
  then obtain ns where ns: "list_all scalar_value ns" and cs: "cs = concat (map utf16 ns)" by blast
  from ns have "check_unicode (concat (map utf16 ns))"
    by (induction ns) (auto simp: check_unicode_utf16)
  moreover from ns have "\<forall>c\<in>set (concat (map utf16 ns)). c < 65536"
    by (induction ns) (use utf16_units in auto)
  ultimately show "check_unicode cs \<and> (\<forall>c\<in>set cs. c < 65536)" using cs by simp
qed (use check_unicode_sound in blast)

theorem check_unicode_wellformed_witness:
  "\<exists>ns. list_all scalar_value ns \<and> [0x61, 0xd83d, 0xde00] = concat (map utf16 ns)"
proof -
  have "check_unicode [0x61, 0xd83d, 0xde00] \<and> (\<forall>c\<in>set [0x61, 0xd83d, 0xde00::nat]. c < 65536)"
    by simp
  then show ?thesis by (rule check_unicode_wellformed[THEN iffD1])
qed

text \<open>The texts of the model have no surrogates, so they always pass.\<close>

lemma check_unicode_small: "\<forall>c\<in>set cs. c < 256 \<Longrightarrow> check_unicode cs"
  by (induction cs) auto

lemma check_unicode_string [simp]: "check_unicode (code_units s)"
  by (rule check_unicode_small) (simp add: code_units_def)

section \<open>Order independence\<close>

text \<open>Two values that differ only in the order of members, at any depth.\<close>

inductive reordered :: "jsval \<Rightarrow> jsval \<Rightarrow> bool" where
  reordered_refl: "reordered v v"
| reordered_trans: "reordered u v \<Longrightarrow> reordered v w \<Longrightarrow> reordered u w"
| reordered_members: "distinct (map fst kvs) \<Longrightarrow> mset kvs = mset kvs' \<Longrightarrow> reordered (JObj kvs) (JObj kvs')"
| reordered_item: "reordered v w \<Longrightarrow> reordered (JArr (xs @ v # ys)) (JArr (xs @ w # ys))"
| reordered_member: "reordered v w \<Longrightarrow> reordered (JObj (xs @ (k, v) # ys)) (JObj (xs @ (k, w) # ys))"

lemma normalize_items_map: "normalize_items xs = map normalize xs"
  by (induction xs) auto

lemma normalize_members_map: "normalize_members kvs = map (\<lambda>(k, v). (k, normalize v)) kvs"
  by (induction kvs) auto

lemma assert_items_iff: "assert_items xs = Inr () \<longleftrightarrow> (\<forall>x\<in>set xs. assertCanonicalJsonValue x = Inr ())"
  by (induction xs) (auto simp: res_simps)

lemma assert_members_iff: "assert_members kvs = Inr () \<longleftrightarrow>
    (\<forall>(k, v)\<in>set kvs. check_unicode (code_units k) \<and> assertCanonicalJsonValue v = Inr ())"
  by (induction kvs) (auto simp: res_simps unpaired_def split: if_splits)

lemma sort_key_fst_unique:
  assumes "distinct (map fst xs)" "mset xs = mset ys"
  shows "sort_key fst xs = sort_key fst ys"
proof (rule map_sorted_distinct_set_unique[of fst])
  show "inj_on fst (set (sort_key fst xs) \<union> set (sort_key fst ys))"
    using assms by (auto simp: distinct_map dest: mset_eq_setD)
  have "mset (map fst ys) = mset (map fst xs)" using assms(2) by simp
  then have "distinct (map fst ys)" using assms(1) mset_eq_imp_distinct_iff by blast
  then show "distinct (map fst (sort_key fst ys))"
    by (metis distinct_map distinct_sort set_sort)
  show "distinct (map fst (sort_key fst xs))"
    using assms(1) by (metis distinct_map distinct_sort set_sort)
qed (use assms in \<open>auto dest: mset_eq_setD\<close>)

lemma reordered_normalize: "reordered v w \<Longrightarrow> normalize v = normalize w"
proof (induction rule: reordered.induct)
  case (reordered_members kvs kvs')
  let ?f = "\<lambda>(k, v). (k, normalize v)"
  have eq: "map fst (map ?f kvs) = map fst kvs" by (induction kvs) auto
  have "distinct (map fst (map ?f kvs))" unfolding eq by (rule reordered_members(1))
  moreover have "mset (map ?f kvs) = mset (map ?f kvs')" using reordered_members(2) by simp
  ultimately have "sort_key fst (map ?f kvs) = sort_key fst (map ?f kvs')"
    by (rule sort_key_fst_unique)
  then show ?case by (simp add: normalize_members_map)
qed (auto simp: normalize_items_map normalize_members_map)

lemma reordered_assert:
  "reordered v w \<Longrightarrow> (assertCanonicalJsonValue v = Inr ()) = (assertCanonicalJsonValue w = Inr ())"
proof (induction rule: reordered.induct)
  case (reordered_members kvs kvs')
  then show ?case by (simp add: assert_members_iff) (metis mset_eq_setD)
qed (auto simp: assert_items_iff assert_members_iff)

text \<open>
  C25. The canonical text of a value does not depend on the order in which the members of its
  objects were created, at any depth, so two peers that build the same record in different orders
  sign and hash the same bytes.
\<close>

theorem canonicalize_order_independent:
  assumes "reordered v w" "canonicalize p v = Inr t"
  shows "canonicalize p w = Inr t"
proof -
  from assms(2) have "assertCanonicalJsonValue v = Inr ()"
    by (auto simp: canonicalize_def res_simps)
  moreover from this assms(1) have "assertCanonicalJsonValue w = Inr ()"
    by (simp add: reordered_assert)
  ultimately show ?thesis
    using assms reordered_normalize[OF assms(1)] by (simp add: canonicalize_def)
qed

section \<open>The canonical text determines the value\<close>

definition number_char :: "char \<Rightarrow> bool" where
  "number_char c \<longleftrightarrow> is_digit c \<or> c \<in> {CHR ''-'', CHR ''+'', CHR ''.'', CHR ''e''}"

text \<open>
  What ECMA-262 says of \<^verbatim>\<open>Number::toString\<close> on finite numbers: the text is made of digits, a sign, a
  point and an exponent mark, and distinct numbers have distinct texts.
\<close>

definition number_texts :: "platform \<Rightarrow> bool" where
  "number_texts p \<longleftrightarrow> (\<forall>r. number_text p r \<noteq> [] \<and> list_all number_char (number_text p r)) \<and>
     inj (number_text p)"

definition delimited :: "string \<Rightarrow> bool" where
  "delimited r \<longleftrightarrow> r = [] \<or> hd r \<in> {CHR '','', CHR '']'', CHR ''}''}"

text \<open>The text of a canonical value, and of the rest of an array or object after one element.\<close>

fun jt :: "platform \<Rightarrow> jsval \<Rightarrow> string" and jt_items :: "platform \<Rightarrow> jsval list \<Rightarrow> string"
  and jt_members :: "platform \<Rightarrow> entries \<Rightarrow> string" where
  "jt p (JArr []) = ''[]''"
| "jt p (JArr (x # xs)) = CHR ''['' # jt p x @ jt_items p xs"
| "jt p (JObj []) = ''{}''"
| "jt p (JObj ((k, v) # kvs)) = CHR ''{'' # json_string k @ CHR '':'' # jt p v @ jt_members p kvs"
| "jt p (JBool b) = (if b then ''true'' else ''false'')"
| "jt p (JNum r) = number_text p r"
| "jt p (JStr s) = json_string s"
| "jt p _ = ''null''"
| "jt_items p [] = '']''"
| "jt_items p (x # xs) = CHR '','' # jt p x @ jt_items p xs"
| "jt_members p [] = ''}''"
| "jt_members p ((k, v) # kvs) = CHR '','' # json_string k @ CHR '':'' # jt p v @ jt_members p kvs"

lemma join_Cons2: "ys \<noteq> [] \<Longrightarrow> join sep (x # ys) = x @ sep @ join sep ys"
  by (cases ys) auto

lemma json_text_jt:
  "assertCanonicalJsonValue v = Inr () \<Longrightarrow> json_text p v = Some (jt p v)"
  "assert_items xs = Inr () \<Longrightarrow> (xs \<noteq> [] \<longrightarrow>
     CHR '','' # join '','' (json_items p xs) @ '']'' = jt_items p xs) \<and> (json_items p xs = []) = (xs = [])"
  "assert_members kvs = Inr () \<Longrightarrow> (kvs \<noteq> [] \<longrightarrow>
     CHR '','' # join '','' (json_members p kvs) @ ''}'' = jt_members p kvs) \<and> (json_members p kvs = []) = (kvs = [])"
proof (induction v and xs and kvs rule: assertCanonicalJsonValue_assert_items_assert_members.induct)
  case (9 xs)
  then show ?case by (cases xs) (auto simp: res_simps)
next
  case (10 kvs)
  then show ?case by (cases kvs) (auto simp: res_simps split: if_splits)
next
  case (12 x xs)
  then show ?case by (cases xs) (auto simp: res_simps join_Cons2)
next
  case (14 k v kvs)
  then show ?case by (cases kvs) (auto simp: res_simps unpaired_def join_Cons2 split: if_splits)
qed (auto simp: unpaired_def split: if_splits)

lemma control_char_eq:
  assumes "hex_char (of_char c div 16) = hex_char (of_char d div 16)"
    "hex_char (of_char c mod 16) = hex_char (of_char d mod 16)"
    "(of_char c :: nat) < 32" "(of_char d :: nat) < 32"
  shows "c = d"
proof -
  from assms have "(of_char c :: nat) div 16 = of_char d div 16" by (intro hex_char_inj) auto
  moreover from assms have "(of_char c :: nat) mod 16 = of_char d mod 16" by (intro hex_char_inj) auto
  ultimately have "(of_char c :: nat) = of_char d" by (metis div_mult_mod_eq)
  then show ?thesis by simp
qed

lemma short_escapes_facts:
  "map_of short_escapes c = Some e \<Longrightarrow> e \<noteq> CHR ''u''"
  "map_of short_escapes c = Some e \<Longrightarrow> map_of short_escapes d = Some e \<Longrightarrow> c = d"
  "map_of short_escapes c = None \<Longrightarrow> c \<noteq> CHR 0x22 \<and> c \<noteq> CHR 0x5C"
  by (auto simp: short_escapes_def split: if_splits)

lemma esc_char_prefix:
  assumes "esc_char c @ x = esc_char d @ y"
  shows "c = d \<and> x = y"
proof (cases "map_of short_escapes c")
  case None
  then have c: "c \<noteq> CHR 0x5C" by (simp add: short_escapes_facts(3))
  show ?thesis
  proof (cases "map_of short_escapes d")
    case None
    then have "d \<noteq> CHR 0x5C" by (simp add: short_escapes_facts(3))
    with None \<open>map_of short_escapes c = None\<close> c assms control_char_eq[of c d] show ?thesis
      by (simp add: esc_char_def split: if_splits)
  next
    case (Some e)
    then have "e \<noteq> CHR ''u''" by (rule short_escapes_facts(1))
    with Some None c assms show ?thesis by (simp add: esc_char_def split: if_splits)
  qed
next
  case (Some e)
  then have e: "e \<noteq> CHR ''u''" by (rule short_escapes_facts(1))
  show ?thesis
  proof (cases "map_of short_escapes d")
    case None
    then have "d \<noteq> CHR 0x5C" by (simp add: short_escapes_facts(3))
    with Some None e assms show ?thesis by (simp add: esc_char_def split: if_splits)
  next
    case (Some f)
    with \<open>map_of short_escapes c = Some e\<close> assms have "e = f" "x = y" by (simp_all add: esc_char_def)
    with Some \<open>map_of short_escapes c = Some e\<close> show ?thesis using short_escapes_facts(2) by blast
  qed
qed

lemma esc_char_no_quote: "esc_char c @ x \<noteq> CHR 0x22 # y"
  using short_escapes_facts(3) by (auto simp: esc_char_def split: option.splits if_splits)

lemma json_body_prefix: "json_body s @ x = json_body t @ y \<Longrightarrow> s = t \<and> x = y"
proof (induction s arbitrary: t)
  case Nil
  show ?case
  proof (cases t)
    case (Cons d t')
    with Nil have "esc_char d @ (json_body t' @ y) = CHR 0x22 # x" by simp
    then show ?thesis by (simp only: esc_char_no_quote)
  qed (use Nil in simp)
next
  case (Cons c s)
  show ?case
  proof (cases t)
    case Nil
    with Cons.prems have "esc_char c @ (json_body s @ x) = CHR 0x22 # y" by simp
    then show ?thesis by (simp only: esc_char_no_quote)
  next
    case (Cons d t')
    with Cons.prems have "esc_char c @ (json_body s @ x) = esc_char d @ (json_body t' @ y)" by simp
    then have eq: "c = d \<and> json_body s @ x = json_body t' @ y" by (rule esc_char_prefix)
    then have "s = t' \<and> x = y" by (intro Cons.IH) simp
    with eq Cons show ?thesis by simp
  qed
qed

lemma json_string_prefix: "json_string s @ x = json_string t @ y \<Longrightarrow> s = t \<and> x = y"
  by (rule json_body_prefix) (simp add: json_string_def)

lemma number_prefix:
  assumes "list_all number_char a" "list_all number_char b" "delimited x" "delimited y" "a @ x = b @ y"
  shows "a = b \<and> x = y"
proof -
  have span: "takeWhile number_char (a @ x) = a" if "list_all number_char a" "delimited x" for a x
    using that by (cases x) (auto simp: delimited_def list_all_iff number_char_def is_digit_def
        takeWhile_append2)
  have "a = takeWhile number_char (a @ x)" using assms(1,3) by (simp add: span)
  also have "\<dots> = takeWhile number_char (b @ y)" by (simp only: assms(5))
  also have "\<dots> = b" using assms(2,4) by (simp add: span)
  finally show ?thesis using assms(5) by simp
qed

definition decodes :: "platform \<Rightarrow> jsval \<Rightarrow> bool" where
  "decodes p v \<longleftrightarrow> (\<forall>w r r'. assertCanonicalJsonValue w = Inr () \<longrightarrow> delimited r \<longrightarrow> delimited r' \<longrightarrow>
     jt p v @ r = jt p w @ r' \<longrightarrow> v = w \<and> r = r')"

lemma delimited_items: "delimited (jt_items p xs @ r)" "delimited (jt_members p kvs @ r)"
proof -
  show "delimited (jt_items p xs @ r)" by (cases xs) (auto simp: delimited_def)
  show "delimited (jt_members p kvs @ r)" by (cases kvs) (auto simp: delimited_def)
qed

lemma decodesD:
  assumes "decodes p v" "assertCanonicalJsonValue w = Inr ()" "delimited r" "delimited r'"
    "jt p v @ r = jt p w @ r'"
  shows "v = w \<and> r = r'"
  using assms by (auto simp: decodes_def)

lemma decode_items:
  assumes "\<forall>x\<in>set xs. decodes p x" "assert_items ys = Inr ()" "jt_items p xs @ r = jt_items p ys @ r'"
  shows "xs = ys \<and> r = r'"
  using assms
proof (induction xs arbitrary: ys)
  case Nil
  then show ?case by (cases ys) auto
next
  case (Cons x xs)
  from Cons.prems(3) obtain y ys' where ys: "ys = y # ys'" by (cases ys) auto
  have "x = y \<and> jt_items p xs @ r = jt_items p ys' @ r'"
    by (rule decodesD[of p]) (use Cons.prems ys delimited_items in \<open>auto simp: res_simps\<close>)
  moreover have "xs = ys' \<and> r = r'"
    by (rule Cons.IH) (use Cons.prems ys calculation in \<open>auto simp: res_simps\<close>)
  ultimately show ?case using ys by simp
qed

lemma decode_member:
  assumes "decodes p v" "assertCanonicalJsonValue w = Inr ()" "delimited x" "delimited y"
    "json_string k @ CHR '':'' # jt p v @ x = json_string l @ CHR '':'' # jt p w @ y"
  shows "k = l \<and> v = w \<and> x = y"
proof -
  from json_string_prefix[OF assms(5)] have "k = l" "jt p v @ x = jt p w @ y" by simp_all
  with decodesD[OF assms(1-4)] show ?thesis by simp
qed

lemma decode_members:
  assumes "\<forall>(k, v)\<in>set xs. decodes p v" "assert_members ys = Inr ()" "jt_members p xs @ r = jt_members p ys @ r'"
  shows "xs = ys \<and> r = r'"
  using assms
proof (induction xs arbitrary: ys)
  case Nil
  then show ?case by (cases ys) auto
next
  case (Cons x xs)
  obtain k v where x: "x = (k, v)" by (cases x)
  with Cons.prems(3) obtain l w ys' where ys: "ys = (l, w) # ys'" by (cases ys) auto
  with Cons.prems(2) have w: "assertCanonicalJsonValue w = Inr ()" "assert_members ys' = Inr ()"
    by (auto simp: res_simps unpaired_def split: if_splits)
  have "k = l \<and> v = w \<and> jt_members p xs @ r = jt_members p ys' @ r'"
    by (rule decode_member[of p]) (use Cons.prems x ys w delimited_items in auto)
  moreover have "xs = ys' \<and> r = r'"
    by (rule Cons.IH) (use Cons.prems x w calculation in auto)
  ultimately show ?case using x ys by simp
qed

text \<open>The first character of a text tells which kind of value it is.\<close>

fun text_kind :: "jsval \<Rightarrow> nat" where
  "text_kind (JArr _) = 1"
| "text_kind (JObj _) = 2"
| "text_kind (JBool b) = (if b then 3 else 4)"
| "text_kind (JNum _) = 5"
| "text_kind (JStr _) = 6"
| "text_kind _ = 0"

definition first_kind :: "string \<Rightarrow> nat" where
  "first_kind t = (if hd t = CHR ''['' then 1 else if hd t = CHR ''{'' then 2
     else if hd t = CHR ''t'' then 3 else if hd t = CHR ''f'' then 4
     else if hd t = CHR 0x22 then 6 else if hd t = CHR ''n'' then 0 else 5)"

lemma number_text_hd:
  "number_texts p \<Longrightarrow> number_text p x \<noteq> [] \<and> number_char (hd (number_text p x))"
  by (metis hd_in_set list_all_iff number_texts_def)

lemma jt_first_kind:
  assumes "number_texts p"
  shows "jt p v \<noteq> [] \<and> first_kind (jt p v @ r) = text_kind v"
proof (cases v)
  case (JNum x)
  from number_text_hd[OF assms] have "number_text p x \<noteq> []" "number_char (hd (number_text p x))"
    by simp_all
  with JNum show ?thesis by (auto simp: first_kind_def number_char_def is_digit_def)
next
  case (JArr xs)
  then show ?thesis by (cases xs) (auto simp: first_kind_def)
next
  case (JObj kvs)
  then show ?thesis by (cases kvs) (auto simp: first_kind_def)
qed (auto simp: first_kind_def json_string_def)

lemma jt_no_close: "number_texts p \<Longrightarrow> jt p x @ z \<noteq> CHR '']'' # u"
proof
  assume p: "number_texts p" and eq: "jt p x @ z = CHR '']'' # u"
  from jt_first_kind[OF p, of x z] eq have "text_kind x = 5" and hd: "hd (jt p x) = CHR '']''"
    by (cases "jt p x"; simp add: first_kind_def)+
  then obtain n where "x = JNum n" by (cases x) (auto split: if_splits)
  with number_text_hd[OF p, of n] hd show False by (simp add: number_char_def is_digit_def)
qed

lemma kind_eq:
  assumes "number_texts p" "jt p v @ r = jt p w @ r'"
  shows "text_kind v = text_kind w"
  using jt_first_kind[OF assms(1), of v r] jt_first_kind[OF assms(1), of w r'] assms(2) by simp

lemma decodes_arr:
  assumes p: "number_texts p" and IH: "\<forall>x\<in>set xs. decodes p x"
  shows "decodes p (JArr xs)"
  unfolding decodes_def
proof (intro allI impI)
  fix w r r'
  assume w: "assertCanonicalJsonValue w = Inr ()" and eq: "jt p (JArr xs) @ r = jt p w @ r'"
  from kind_eq[OF p eq] obtain ys where ys: "w = JArr ys" by (cases w) (auto split: if_splits)
  have "jt_items p xs @ r = jt_items p ys @ r'"
    using eq ys jt_no_close[OF p] jt_no_close[OF p, symmetric]
    by (cases xs; cases ys) auto
  with decode_items[OF IH] w ys show "JArr xs = w \<and> r = r'" by auto
qed

lemma decodes_obj:
  assumes p: "number_texts p" and IH: "\<forall>(k, v)\<in>set xs. decodes p v"
  shows "decodes p (JObj xs)"
  unfolding decodes_def
proof (intro allI impI)
  fix w r r'
  assume w: "assertCanonicalJsonValue w = Inr ()" and eq: "jt p (JObj xs) @ r = jt p w @ r'"
  from kind_eq[OF p eq] obtain ys where ys: "w = JObj ys" by (cases w) (auto split: if_splits)
  have "jt_members p xs @ r = jt_members p ys @ r'"
    using eq ys by (cases xs rule: list.exhaust[case_product list.exhaust[of ys]])
      (auto simp: json_string_def)
  with decode_members[OF IH] w ys show "JObj xs = w \<and> r = r'" by auto
qed

lemma canonical_decodes:
  "assertCanonicalJsonValue v = Inr () \<Longrightarrow> number_texts p \<Longrightarrow> decodes p v"
  "assert_items xs = Inr () \<Longrightarrow> number_texts p \<Longrightarrow> \<forall>x\<in>set xs. decodes p x"
  "assert_members kvs = Inr () \<Longrightarrow> number_texts p \<Longrightarrow> \<forall>(k, v)\<in>set kvs. decodes p v"
proof (induction v and xs and kvs rule: assertCanonicalJsonValue_assert_items_assert_members.induct)
  case 1
  show ?case unfolding decodes_def
  proof (intro allI impI)
    fix w r r'
    assume "assertCanonicalJsonValue w = Inr ()" and eq: "jt p JNull @ r = jt p w @ r'"
    with kind_eq[OF \<open>number_texts p\<close> eq] show "JNull = w \<and> r = r'" by (cases w) (auto split: if_splits)
  qed
next
  case (2 b)
  show ?case unfolding decodes_def
  proof (intro allI impI)
    fix w r r'
    assume eq: "jt p (JBool b) @ r = jt p w @ r'"
    with kind_eq[OF \<open>number_texts p\<close> eq] show "JBool b = w \<and> r = r'" by (cases w) (auto split: if_splits)
  qed
next
  case (3 n)
  show ?case unfolding decodes_def
  proof (intro allI impI)
    fix w r r'
    assume d: "delimited r" "delimited r'" and eq: "jt p (JNum n) @ r = jt p w @ r'"
    from kind_eq[OF \<open>number_texts p\<close> eq] obtain m where w: "w = JNum m" by (cases w) (auto split: if_splits)
    with eq d \<open>number_texts p\<close> have "number_text p n = number_text p m \<and> r = r'"
      by (intro number_prefix) (auto simp: number_texts_def)
    with w \<open>number_texts p\<close> show "JNum n = w \<and> r = r'" by (auto simp: number_texts_def dest: injD)
  qed
next
  case (6 s)
  show ?case unfolding decodes_def
  proof (intro allI impI)
    fix w r r'
    assume eq: "jt p (JStr s) @ r = jt p w @ r'"
    from kind_eq[OF \<open>number_texts p\<close> eq] obtain t where w: "w = JStr t" by (cases w) (auto split: if_splits)
    with eq json_string_prefix[of s r t r'] show "JStr s = w \<and> r = r'" by simp
  qed
next
  case (9 xs)
  then show ?case by (auto intro: decodes_arr)
next
  case (10 kvs)
  then show ?case by (auto intro: decodes_obj)
qed (auto simp: res_simps unpaired_def split: if_splits)

lemma normalize_canonical:
  "assertCanonicalJsonValue v = Inr () \<Longrightarrow> assertCanonicalJsonValue (normalize v) = Inr ()"
  "assert_items xs = Inr () \<Longrightarrow> assert_items (normalize_items xs) = Inr ()"
  "assert_members kvs = Inr () \<Longrightarrow> assert_members (normalize_members kvs) = Inr ()"
proof (induction v and xs and kvs rule: assertCanonicalJsonValue_assert_items_assert_members.induct)
  case (10 kvs)
  then show ?case by (auto simp: assert_members_iff own_order_def)
qed (auto simp: res_simps unpaired_def split: if_splits)

lemma canonicalize_eq:
  "canonicalize p v = Inr t \<longleftrightarrow> assertCanonicalJsonValue v = Inr () \<and> t = jt p (normalize v)"
  using json_text_jt(1)[OF normalize_canonical(1)]
  by (auto simp: canonicalize_def res_simps split: option.splits)

lemma canonicalize_inj:
  assumes "number_texts p" "canonicalize p v = Inr t" "canonicalize p w = Inr t"
  shows "normalize v = normalize w"
proof -
  from assms(2,3) have "jt p (normalize v) @ [] = jt p (normalize w) @ []"
    by (simp add: canonicalize_eq)
  moreover have "decodes p (normalize v)" "assertCanonicalJsonValue (normalize w) = Inr ()"
    using assms by (auto simp: canonicalize_eq intro: canonical_decodes(1) normalize_canonical(1))
  ultimately show ?thesis
    using decodesD[of p "normalize v" "normalize w" "[]" "[]"] by (simp add: delimited_def)
qed

lemma canonicalize_total:
  "assertCanonicalJsonValue v = Inr () \<longleftrightarrow> (\<exists>t. canonicalize p v = Inr t)"
  by (simp add: canonicalize_eq)

text \<open>Every object of the language has distinct member names; this says so of a value's tree.\<close>

fun distinct_names :: "jsval \<Rightarrow> bool" where
  "distinct_names (JArr xs) = list_all distinct_names xs"
| "distinct_names (JObj kvs) = (distinct (map fst kvs) \<and> list_all (\<lambda>(k, v). distinct_names v) kvs)"
| "distinct_names _ = True"

lemma reordered_sym: "reordered v w \<Longrightarrow> reordered w v"
proof (induction rule: reordered.induct)
  case (reordered_members kvs kvs')
  then show ?case by (metis mset_eq_imp_distinct_iff mset_map reordered.reordered_members)
qed (auto intro: reordered.intros)

lemma reordered_items:
  "list_all2 reordered xs ys \<Longrightarrow> reordered (JArr (zs @ xs)) (JArr (zs @ ys))"
proof (induction arbitrary: zs rule: list_all2_induct)
  case (Cons x xs y ys)
  from Cons(1) have "reordered (JArr (zs @ x # xs)) (JArr (zs @ y # xs))" by (rule reordered_item)
  with Cons.IH[of "zs @ [y]"] show ?case by (auto intro: reordered_trans)
qed (rule reordered_refl)

lemma reordered_all_members:
  "\<forall>(k, v)\<in>set xs. reordered v (f v) \<Longrightarrow>
     reordered (JObj (zs @ xs)) (JObj (zs @ map (\<lambda>(k, v). (k, f v)) xs))"
proof (induction xs arbitrary: zs)
  case (Cons x xs)
  obtain k v where x: "x = (k, v)" by (cases x)
  with Cons.prems have "reordered (JObj (zs @ (k, v) # xs)) (JObj (zs @ (k, f v) # xs))"
    by (auto intro: reordered_member)
  with Cons.IH[of "zs @ [(k, f v)]"] Cons.prems x show ?case by (auto intro: reordered_trans)
qed (simp add: reordered_refl)

lemma mset_own_order [simp]: "mset (own_order es) = mset es"
proof -
  have "filter_mset (Not \<circ> index_key \<circ> fst) (mset es) = filter_mset (\<lambda>x. \<not> (index_key \<circ> fst) x) (mset es)"
    by (simp add: comp_def)
  then show ?thesis by (simp add: own_order_def flip: multiset_partition)
qed

lemma reordered_normalize_self: "distinct_names v \<Longrightarrow> reordered v (normalize v)"
proof (induction v rule: distinct_names.induct)
  case (1 xs)
  then have "list_all2 reordered xs (map normalize xs)"
    by (auto simp: list_all_iff list_all2_map2 intro!: list_all2_same[THEN iffD2])
  from reordered_items[OF this, of "[]"] show ?case by (simp add: normalize_items_map)
next
  case (2 kvs)
  let ?m = "map (\<lambda>(k, v). (k, normalize v)) kvs"
  have "reordered (JObj kvs) (JObj ?m)"
    using reordered_all_members[of kvs normalize "[]"] 2 by (fastforce simp: list_all_iff)
  moreover have eq: "map fst ?m = map fst kvs" by (induction kvs) auto
  have "distinct (map fst ?m)" unfolding eq using 2 by simp
  then have "reordered (JObj ?m) (JObj (own_order (sort_key fst ?m)))"
    by (rule reordered_members) simp
  ultimately show ?case by (auto simp: normalize_members_map intro: reordered_trans)
qed (auto intro: reordered_refl)

lemma sample_number_texts: "number_texts sample_platform"
proof -
  have chars: "list_all number_char (int_text i)" "CHR ''e'' \<notin> set (int_text i)" "int_text i \<noteq> []" for i
    using int_text_chars[of i] by (auto simp: list_all_iff number_char_def is_digit_def)
  have split: "a = b \<and> x = y"
    if "a @ CHR ''e'' # x = b @ CHR ''e'' # y" "CHR ''e'' \<notin> set a" "CHR ''e'' \<notin> set b" for a b x y
    using that by (auto simp: append_eq_append_conv2 Cons_eq_append_conv append_eq_Cons_conv)
  have "inj (number_text sample_platform)"
  proof (rule injI)
    fix r s
    assume eq: "number_text sample_platform r = number_text sample_platform s"
    obtain a b c d where q: "quotient_of r = (a, b)" "quotient_of s = (c, d)" by fastforce
    let ?safe = "\<lambda>r::rat. rat_is_int r \<and> \<bar>r\<bar> \<le> 9007199254740991"
    have mixed: "\<not> (?safe u \<and> \<not> ?safe w \<and> number_text sample_platform u = number_text sample_platform w)" for u w
      using chars(2)[of "\<lfloor>u\<rfloor>"] by (auto simp: number_text_def split: prod.splits)
    from mixed[of r s] mixed[of s r] eq consider "?safe r" "?safe s" | "\<not> ?safe r" "\<not> ?safe s"
      by metis
    then show "r = s"
    proof cases
      case 1
      with eq have "\<lfloor>r\<rfloor> = \<lfloor>s\<rfloor>" by (simp add: number_text_def inj_int_text[THEN inj_eq])
      with 1 show ?thesis by (metis rat_is_int_def)
    next
      case 2
      with eq q have "int_text a @ CHR ''e'' # int_text b = int_text c @ CHR ''e'' # int_text d"
        by (auto simp: number_text_def)
      then have "int_text a = int_text c \<and> int_text b = int_text d" by (rule split) (simp_all add: chars)
      then have "quotient_of r = quotient_of s" using q by (simp add: inj_int_text[THEN inj_eq])
      then show ?thesis by (rule quotient_of_inject)
    qed
  qed
  moreover have "number_text sample_platform r \<noteq> [] \<and> list_all number_char (number_text sample_platform r)" for r
    using chars by (auto simp: number_text_def number_char_def split: prod.splits)
  ultimately show ?thesis by (simp add: number_texts_def)
qed

text \<open>
  C11. The canonical text determines the value it was made from: two values with the same canonical
  text are the same up to the order of members, at any depth. So a signature or a content
  identifier over the canonical text binds every field of the record. Assumed of the platform:
  distinct finite numbers print as distinct texts made of the characters of numerals.
\<close>

theorem canonicalize_injective:
  assumes "number_texts p" "distinct_names v" "distinct_names w"
    "canonicalize p v = Inr t" "canonicalize p w = Inr t"
  shows "reordered v w"
  using canonicalize_inj[OF assms(1,4,5)] reordered_normalize_self[OF assms(2)]
    reordered_normalize_self[OF assms(3)]
  by (metis reordered_sym reordered_trans)

definition sample_value :: "bool \<Rightarrow> jsval" where
  "sample_value swapped = JObj (if swapped then [(''b'', JNull), (''a'', JArr [JNum 1, JStr ''x''])]
     else [(''a'', JArr [JNum 1, JStr ''x'']), (''b'', JNull)])"

lemma sample_value_text:
  "canonicalize sample_platform (sample_value b) = canonicalize sample_platform (sample_value False)"
  "\<exists>t. canonicalize sample_platform (sample_value b) = Inr t"
proof -
  have ok: "assertCanonicalJsonValue (sample_value b) = Inr ()" for b
    by (cases b) (simp_all add: sample_value_def code_units_def)
  have "normalize (sample_value b) = normalize (sample_value False)"
    by (cases b) (simp_all add: sample_value_def)
  with ok show "canonicalize sample_platform (sample_value b) = canonicalize sample_platform (sample_value False)"
    by (simp add: canonicalize_def)
  from ok show "\<exists>t. canonicalize sample_platform (sample_value b) = Inr t"
    by (simp flip: canonicalize_total)
qed

theorem canonicalize_injective_witness: "reordered (sample_value True) (sample_value False)"
proof -
  obtain t where "canonicalize sample_platform (sample_value False) = Inr t"
    using sample_value_text(2) by blast
  then show ?thesis
    by (intro canonicalize_injective[OF sample_number_texts, of _ _ t])
      (simp_all add: sample_value_text(1)[of True], simp_all add: sample_value_def)
qed

theorem canonicalize_order_independent_witness:
  "\<exists>t. canonicalize sample_platform (sample_value True) = Inr t"
proof -
  obtain t where "canonicalize sample_platform (sample_value False) = Inr t"
    using sample_value_text(2) by blast
  moreover have "reordered (sample_value False) (sample_value True)"
    unfolding sample_value_def by (simp, rule reordered_members) simp_all
  ultimately show ?thesis using canonicalize_order_independent by blast
qed

end
