(* ===== verification/Protocol.thy ===== *)
theory Protocol
  imports Canonical_Json
begin

text \<open>
  The TRUYN/1 message layer, \<^verbatim>\<open>core/protocol/index.js\<close> and \<^verbatim>\<open>core/identity/index.js\<close>: key
  fingerprints and node identifiers with their bounded memo, the signed envelope and the compact
  frame, each with its constructor and its verifier. Shown: a verified envelope is bound to the key
  its sender identifier is made of and its signature covers every field; what \<^verbatim>\<open>createEnvelope\<close>
  returns verifies; the memo never changes a result and never grows past its limit.
\<close>

section \<open>Keys, identifiers, signatures\<close>

definition platform_call :: "string + 'a \<Rightarrow> 'a result" where
  "platform_call r = (case r of Inl m \<Rightarrow> Inl (Err m) | Inr x \<Rightarrow> Inr x)"

text \<open>The body of \<^verbatim>\<open>publicKeyFingerprint\<close> behind its memo.\<close>

definition fingerprint_of :: "platform \<Rightarrow> jsval \<Rightarrow> string result" where
  "fingerprint_of p pem = rbind (platform_call (spki p pem)) (\<lambda>(kind, der).
     if kind \<noteq> ''ed25519'' then Inl (TypeError ''TRUYN/1 requires Ed25519 public keys'')
     else Inr (sha256 p der))"

definition FINGERPRINT_CACHE_LIMIT :: nat where
  "FINGERPRINT_CACHE_LIMIT = 8192"

text \<open>
  The bounded memo of the program: a \<^verbatim>\<open>Map\<close> from texts to results in front of a pure
  computation; when it is full the oldest key makes room, and a call that throws stores nothing.
\<close>

definition memo_put :: "nat \<Rightarrow> ('k, 'v) jsmap \<Rightarrow> 'k \<Rightarrow> 'v \<Rightarrow> ('k, 'v) jsmap" where
  "memo_put limit cache k v =
     jmap_set k v (if length cache \<ge> limit then drop 1 cache else cache)"

definition memo_call ::
  "nat \<Rightarrow> ('k \<Rightarrow> 'e + 'v) \<Rightarrow> ('k, 'v) jsmap \<Rightarrow> 'k \<Rightarrow> ('e + 'v) \<times> ('k, 'v) jsmap" where
  "memo_call limit compute cache k = (case jmap_get cache k of
       Some v \<Rightarrow> (Inr v, cache)
     | None \<Rightarrow> (case compute k of
           Inl e \<Rightarrow> (Inl e, cache)
         | Inr v \<Rightarrow> (Inr v, memo_put limit cache k v)))"

definition publicKeyFingerprint ::
  "platform \<Rightarrow> (string, string) jsmap \<Rightarrow> jsval \<Rightarrow> string result \<times> (string, string) jsmap" where
  "publicKeyFingerprint p cache pem = (case pem of
       JStr s \<Rightarrow> memo_call FINGERPRINT_CACHE_LIMIT (\<lambda>s. fingerprint_of p (JStr s)) cache s
     | _ \<Rightarrow> (fingerprint_of p pem, cache))"

text \<open>A sequence of calls on the module's one cache.\<close>

fun fingerprint_calls ::
  "platform \<Rightarrow> (string, string) jsmap \<Rightarrow> jsval list \<Rightarrow> string result list \<times> (string, string) jsmap" where
  "fingerprint_calls p cache [] = ([], cache)"
| "fingerprint_calls p cache (k # ks) =
     (let (r, cache') = publicKeyFingerprint p cache k; (rs, cache'') = fingerprint_calls p cache' ks
      in (r # rs, cache''))"

text \<open>
  The identifier of a key. The memo never changes a result (\<^verbatim>\<open>fingerprint_memo_transparent\<close> below), so
  the rest of the model calls the computation itself.
\<close>

definition nodeIdFromPublicKey :: "platform \<Rightarrow> jsval \<Rightarrow> string result" where
  "nodeIdFromPublicKey p pem = rbind (fingerprint_of p pem) (\<lambda>f. Inr (''truyn:node:'' @ f))"

definition signValue :: "platform \<Rightarrow> jsval \<Rightarrow> jsval \<Rightarrow> string result" where
  "signValue p v key = rbind (canonicalize p v) (\<lambda>t. platform_call (ed_sign p key t))"

definition verifyValue :: "platform \<Rightarrow> jsval \<Rightarrow> jsval \<Rightarrow> jsval \<Rightarrow> bool result" where
  "verifyValue p v sig key = rbind (canonicalize p v) (\<lambda>t. platform_call (ed_verify p key t sig))"

record identity =
  nodeId :: jsval
  publicKeyPem :: jsval
  privateKeyPem :: jsval

text \<open>
  \<^verbatim>\<open>requiredIdentity\<close>, \<^verbatim>\<open>requireIdentity\<close>, \<^verbatim>\<open>assertIdentity\<close>: every module that signs checks its
  identity with these two tests, under messages of its own.
\<close>

definition require_identity :: "platform \<Rightarrow> string \<Rightarrow> string \<Rightarrow> identity \<Rightarrow> unit result" where
  "require_identity p missing mismatch i =
     (if \<not> truthy (nodeId i) \<or> \<not> truthy (publicKeyPem i) \<or> \<not> truthy (privateKeyPem i) then Inl (Err missing)
      else rbind (nodeIdFromPublicKey p (publicKeyPem i)) (\<lambda>n.
        if JStr n \<noteq> nodeId i then Inl (Err mismatch) else Inr ()))"

section \<open>Envelopes\<close>

definition PROTOCOL :: string where
  "PROTOCOL = ''TRUYN/1''"

definition MVP_TYPES :: "string list" where
  "MVP_TYPES = [''IDENTITY'', ''OFFER'', ''NEED'', ''RESULT'', ''REVOKE'']"

text \<open>\<^verbatim>\<open>const { a, b, ...rest } = value\<close>.\<close>

fun without :: "string list \<Rightarrow> jsval \<Rightarrow> jsval" where
  "without ks (JObj kvs) = JObj (filter (\<lambda>(k, v). k \<notin> set ks) kvs)"
| "without ks v = v"

definition unsignedEnvelope :: "jsval \<Rightarrow> jsval" where
  "unsignedEnvelope e = without [''signature''] e"

text \<open>A text against a pattern in which \<^verbatim>\<open>d\<close> stands for a digit.\<close>

definition matches :: "string \<Rightarrow> string \<Rightarrow> bool" where
  "matches pat s = list_all2 (\<lambda>q c. if q = CHR ''d'' then is_digit c else q = c) pat s"

definition zone_ok :: "string \<Rightarrow> bool" where
  "zone_ok z \<longleftrightarrow> z = ''Z'' \<or> (z \<noteq> [] \<and> hd z \<in> {CHR ''+'', CHR ''-''} \<and> matches ''dd:dd'' (tl z))"

text \<open>The regular expression of \<^verbatim>\<open>isRfc3339Timestamp\<close>: its zone group, or no match.\<close>

definition rfc3339_zone :: "string \<Rightarrow> string option" where
  "rfc3339_zone s =
     (if \<not> matches ''dddd-dd-ddTdd:dd:dd'' (take 19 s) then None
      else let rest = drop 19 s;
               frac = takeWhile is_digit (tl rest);
               z = (if rest \<noteq> [] \<and> hd rest = CHR ''.'' then dropWhile is_digit (tl rest) else rest)
           in if rest \<noteq> [] \<and> hd rest = CHR ''.'' \<and> frac = [] then None
              else if zone_ok z then Some z else None)"

definition zone_minutes :: "string \<Rightarrow> int \<times> int" where
  "zone_minutes z = (if z = ''Z'' then (0, 0)
     else (int (text_nat (take 2 (drop 1 z))), int (text_nat (take 2 (drop 4 z)))))"

definition isRfc3339Timestamp :: "platform \<Rightarrow> jsval \<Rightarrow> bool" where
  "isRfc3339Timestamp p v =
     (nonblank v \<and>
      (case rfc3339_zone (str_of v) of None \<Rightarrow> False
       | Some z \<Rightarrow> (case date_parse p (str_of v) of None \<Rightarrow> False
           | Some utc \<Rightarrow>
               (let (hours, minutes) = zone_minutes z in
                hours \<le> 23 \<and> minutes \<le> 59 \<and>
                (let offset = (if z = ''Z'' then 0 else (if hd z = CHR ''+'' then 1 else -1) * (hours * 60 + minutes))
                 in take 19 (date_iso p (utc + offset * 60000)) = take 19 (str_of v))))))"

record envelope_args =
  ea_type :: jsval
  ea_from :: jsval
  ea_payload :: jsval
  ea_privateKeyPem :: jsval
  ea_publicKeyPem :: jsval
  ea_to :: jsval
  ea_id :: jsval
  ea_createdAt :: jsval

definition unsigned_fields :: "envelope_args \<Rightarrow> entries" where
  "unsigned_fields a = [(''protocol'', JStr PROTOCOL), (''type'', ea_type a), (''id'', ea_id a),
     (''from'', ea_from a), (''to'', ea_to a), (''createdAt'', ea_createdAt a),
     (''publicKey'', ea_publicKeyPem a), (''payload'', ea_payload a)]"

definition createEnvelope :: "platform \<Rightarrow> envelope_args \<Rightarrow> jsval result" where
  "createEnvelope p a =
     (if ea_type a \<notin> set (map JStr MVP_TYPES) then Inl (Err (''Unsupported MVP message type: '' @ to_string p (ea_type a)))
      else if \<not> nonblank (ea_from a) \<or> \<not> is_plain_object (ea_payload a) \<or>
              \<not> nonblank (ea_privateKeyPem a) \<or> \<not> nonblank (ea_publicKeyPem a)
        then Inl (Err ''from, payload object, privateKeyPem and publicKeyPem are required'')
      else if \<not> nonblank (ea_id a) \<or> \<not> nonblank (ea_createdAt a) then Inl (Err ''id and createdAt are required'')
      else if \<not> isRfc3339Timestamp p (ea_createdAt a) then Inl (Err ''createdAt must be a valid RFC 3339 timestamp'')
      else if ea_to a \<noteq> JNull \<and> \<not> nonblank (ea_to a) then Inl (Err ''to must be null or a non-empty node ID'')
      else rbind (nodeIdFromPublicKey p (ea_publicKeyPem a)) (\<lambda>expected.
        if JStr expected \<noteq> ea_from a then Inl (Err ''Sender node ID does not match the supplied public key'')
        else rbind (signValue p (JObj (unsigned_fields a)) (ea_privateKeyPem a)) (\<lambda>sig.
          Inr (JObj (unsigned_fields a @ [(''signature'', JStr sig)])))))"

text \<open>Base64 as \<^verbatim>\<open>Buffer\<close> decodes and prints it, on texts of the alphabet with trailing padding.\<close>

definition b64_alphabet :: string where
  "b64_alphabet = ''ABCDEFGHIJKLMNOPQRSTUVWXYZabcdefghijklmnopqrstuvwxyz0123456789+/''"

fun index_of :: "'a \<Rightarrow> 'a list \<Rightarrow> nat" where
  "index_of x [] = 0"
| "index_of x (y # ys) = (if x = y then 0 else Suc (index_of x ys))"

fun b64_bytes :: "nat list \<Rightarrow> nat list" where
  "b64_bytes (a # b # c # d # xs) =
     [a * 4 + b div 16, (b mod 16) * 16 + c div 4, (c mod 4) * 64 + d] @ b64_bytes xs"
| "b64_bytes [a, b, c] = [a * 4 + b div 16, (b mod 16) * 16 + c div 4]"
| "b64_bytes [a, b] = [a * 4 + b div 16]"
| "b64_bytes _ = []"

definition b64_char :: "nat \<Rightarrow> char" where
  "b64_char n = b64_alphabet ! (n mod 64)"

fun b64_text :: "nat list \<Rightarrow> string" where
  "b64_text (x # y # z # bs) =
     [b64_char (x div 4), b64_char ((x mod 4) * 16 + y div 16), b64_char ((y mod 16) * 4 + z div 64), b64_char z] @ b64_text bs"
| "b64_text [x, y] = [b64_char (x div 4), b64_char ((x mod 4) * 16 + y div 16), b64_char ((y mod 16) * 4), CHR ''='']"
| "b64_text [x] = [b64_char (x div 4), b64_char ((x mod 4) * 16), CHR ''='', CHR ''='']"
| "b64_text [] = []"

definition b64_shape :: "string \<Rightarrow> bool" where
  "b64_shape s \<longleftrightarrow> (let body = takeWhile (\<lambda>c. c \<in> set b64_alphabet) s; pad = dropWhile (\<lambda>c. c \<in> set b64_alphabet) s
     in body \<noteq> [] \<and> length pad \<le> 2 \<and> list_all (\<lambda>c. c = CHR ''='') pad)"

definition b64_decode :: "string \<Rightarrow> nat list" where
  "b64_decode s = b64_bytes (map (\<lambda>c. index_of c b64_alphabet) (takeWhile (\<lambda>c. c \<noteq> CHR ''='') s))"

definition signature_text :: "string \<Rightarrow> bool" where
  "signature_text s \<longleftrightarrow> b64_shape s \<and> length (b64_decode s) = 64 \<and> b64_text (b64_decode s) = s"

definition verifyEnvelope :: "platform \<Rightarrow> string list \<Rightarrow> jsval \<Rightarrow> unit verdict" where
  "verifyEnvelope p allowedTypes e =
     (if \<not> truthy e \<or> get e ''protocol'' \<noteq> JStr PROTOCOL then Inl ''unsupported_protocol''
      else if get e ''type'' \<notin> set (map JStr allowedTypes) then Inl ''unsupported_type''
      else if \<not> nonblank (get e ''id'') \<or> \<not> nonblank (get e ''from'') \<or> \<not> nonblank (get e ''createdAt'') \<or>
              \<not> nonblank (get e ''publicKey'') \<or> \<not> is_plain_object (get e ''payload'') \<or> \<not> nonblank (get e ''signature'')
        then Inl ''missing_required_field''
      else if get e ''to'' \<noteq> JUndef \<and> get e ''to'' \<noteq> JNull \<and> \<not> nonblank (get e ''to'') then Inl ''invalid_optional_field''
      else if \<not> isRfc3339Timestamp p (get e ''createdAt'') then Inl ''invalid_timestamp''
      else if \<not> signature_text (str_of (get e ''signature'')) then Inl ''invalid_signature''
      else (case nodeIdFromPublicKey p (get e ''publicKey'') of
          Inl _ \<Rightarrow> Inl ''invalid_signature''
        | Inr n \<Rightarrow> if JStr n \<noteq> get e ''from'' then Inl ''node_id_key_mismatch''
            else (case verifyValue p (unsignedEnvelope e) (get e ''signature'') (get e ''publicKey'') of
                Inr True \<Rightarrow> Inr ()
              | _ \<Rightarrow> Inl ''invalid_signature'')))"

section \<open>Compact frames\<close>

definition COMPACT_TYPE_CODES :: "(string \<times> string) list" where
  "COMPACT_TYPE_CODES = [(''NEED'', ''N''), (''RESULT'', ''R''), (''PARTIAL'', ''T''), (''CHAIN'', ''C''),
     (''CONTEXT_PUT'', ''P''), (''CONTEXT_DELTA'', ''D'')]"

definition COMPACT_CODE_TYPES :: "(string \<times> string) list" where
  "COMPACT_CODE_TYPES = [(''N'', ''NEED''), (''R'', ''RESULT''), (''T'', ''PARTIAL''), (''C'', ''CHAIN''),
     (''P'', ''CONTEXT_PUT''), (''D'', ''CONTEXT_DELTA'')]"

definition COMPACT_TYPES :: "string list" where
  "COMPACT_TYPES = [''NEED'', ''RESULT'', ''PARTIAL'', ''CHAIN'', ''CONTEXT_PUT'', ''CONTEXT_DELTA'']"

definition compactStageRequestId :: "jsval \<Rightarrow> jsval \<Rightarrow> string result" where
  "compactStageRequestId chainId stage =
     (if \<not> truthy chainId \<or> \<not> is_string chainId then Inl (Err ''chainId is required'')
      else if \<not> is_integer stage \<or> num_of stage < 0 \<or> num_of stage > 35
        then Inl (Err ''stageIndex must be an integer between 0 and 35'')
      else Inr (take 15 (str_of chainId) @ [hex_char (nat (int_of stage))]))"

text \<open>The read is by a computed name, so an inherited member can come back; it is no type.\<close>

definition compactType :: "platform \<Rightarrow> jsval \<Rightarrow> string lookup" where
  "compactType p frame = table_get COMPACT_CODE_TYPES (to_string p (oget frame ''t''))"

definition compactSigningValue :: "string \<Rightarrow> jsval \<Rightarrow> jsval \<Rightarrow> jsval result" where
  "compactSigningValue type rid payload = (case table_get COMPACT_TYPE_CODES type of
       Own code \<Rightarrow> Inr (JArr [JStr code, rid, payload])
     | Inherited \<Rightarrow> Inr (JArr [JFun, rid, payload])
     | Missing \<Rightarrow> Inl (Err (''Unsupported compact message type: '' @ type)))"

definition base64url :: "string \<Rightarrow> string" where
  "base64url s = map (\<lambda>c. if c = CHR ''+'' then CHR ''-'' else if c = CHR ''/'' then CHR ''_'' else c)
     (takeWhile (\<lambda>c. c \<noteq> CHR ''='') s)"

definition createCompactFrame :: "platform \<Rightarrow> string \<Rightarrow> jsval \<Rightarrow> jsval \<Rightarrow> jsval \<Rightarrow> jsval result" where
  "createCompactFrame p type payload key rid =
     (if type \<notin> set COMPACT_TYPES then Inl (Err (''Unsupported compact message type: '' @ type))
      else if \<not> truthy rid \<or> \<not> is_string rid \<or> \<not> truthy payload \<or> \<not> truthy key
        then Inl (Err ''id, payload and privateKeyPem are required for compact frames'')
      else rbind (compactSigningValue type rid payload) (\<lambda>v.
        rbind (signValue p v key) (\<lambda>sig.
          Inr (JObj [(''t'', case map_of COMPACT_TYPE_CODES type of Some c \<Rightarrow> JStr c | None \<Rightarrow> JUndef),
                     (''i'', rid), (''s'', JStr (base64url sig))]))))"

text \<open>
  The verifier decodes the signature with \<^verbatim>\<open>Buffer.from(frame.s, 'base64url')\<close>, which Node defines on
  more than texts; it is the argument \<^verbatim>\<open>buffer_from\<close>, the bytes or the error it throws.
\<close>

definition verifyCompactFrame ::
  "platform \<Rightarrow> (jsval \<Rightarrow> nat list result) \<Rightarrow> string list \<Rightarrow> jsval \<Rightarrow> jsval \<Rightarrow> jsval \<Rightarrow> string verdict result" where
  "verifyCompactFrame p buffer_from allowedTypes frame payload key =
     (if \<not> truthy frame \<or> \<not> truthy (get frame ''t'') \<or> \<not> truthy (get frame ''i'') \<or> \<not> truthy (get frame ''s'') \<or>
         \<not> truthy payload \<or> \<not> truthy key then Inr (Inl ''missing_required_field'')
      else (case compactType p frame of
          Own type \<Rightarrow>
            (if type \<notin> set allowedTypes then Inr (Inl ''unsupported_type'')
             else (case buffer_from (get frame ''s'') of
                 Inl _ \<Rightarrow> Inr (Inl ''invalid_signature_encoding'')
               | Inr sig \<Rightarrow> if length sig \<noteq> 64 then Inr (Inl ''invalid_signature_encoding'')
                   else rbind (compactSigningValue type (get frame ''i'') payload) (\<lambda>v.
                     rbind (verifyValue p v (JStr (b64_text sig)) key) (\<lambda>ok.
                       Inr (if ok then Inr type else Inl ''invalid_signature'')))))
        | _ \<Rightarrow> Inr (Inl ''unsupported_type'')))"

section \<open>The memo\<close>

text \<open>
  The contract of a bounded memo: in front of a pure computation, with room for at least one
  entry, it answers as the computation does, for ever.
\<close>

locale bounded_memo =
  fixes limit :: nat and compute :: "'k \<Rightarrow> 'e + 'v"
  assumes room: "0 < limit"
begin

definition memo_ok :: "('k, 'v) jsmap \<Rightarrow> bool" where
  "memo_ok cache \<longleftrightarrow> jmap_ok cache \<and> length cache \<le> limit \<and>
     (\<forall>(k, v)\<in>set cache. compute k = Inr v)"

lemma memo_ok_Nil: "memo_ok []"
  by (simp add: memo_ok_def)

lemma memo_put_ok:
  assumes ok: "memo_ok cache" and new: "k \<notin> fst ` set cache" and v: "compute k = Inr v"
  shows "memo_ok (memo_put limit cache k v)"
proof -
  let ?c = "if length cache \<ge> limit then drop 1 cache else cache"
  have "jmap_ok ?c" using ok by (simp add: memo_ok_def flip: drop_map)
  moreover have sub: "set ?c \<subseteq> set cache" by (auto dest: in_set_dropD)
  moreover have "length ?c < limit" using ok room by (auto simp: memo_ok_def)
  moreover have "AList.update k v ?c = ?c @ [(k, v)]"
    using new sub by (intro update_new) auto
  ultimately show ?thesis
    using ok v new unfolding memo_ok_def memo_put_def by (auto simp: Let_def split: if_splits)
qed

lemma memo_call_ok:
  assumes ok: "memo_ok cache" and call: "memo_call limit compute cache k = (r, cache')"
  shows "r = compute k \<and> memo_ok cache'"
proof (cases "map_of cache k")
  case None
  then have "k \<notin> fst ` set cache" by (simp add: map_of_eq_None_iff)
  with None ok call show ?thesis
    by (auto simp: memo_call_def intro: memo_put_ok split: sum.splits)
next
  case (Some v)
  then have "(k, v) \<in> set cache" by (rule map_of_SomeD)
  with Some ok call show ?thesis by (auto simp: memo_call_def memo_ok_def)
qed

end

interpretation fingerprints: bounded_memo FINGERPRINT_CACHE_LIMIT "\<lambda>s. fingerprint_of p (JStr s)" for p
  by unfold_locales (simp add: FINGERPRINT_CACHE_LIMIT_def)

lemma publicKeyFingerprint_ok:
  assumes "fingerprints.memo_ok p cache" "publicKeyFingerprint p cache k = (r, cache')"
  shows "r = fingerprint_of p k \<and> fingerprints.memo_ok p cache'"
proof (cases k)
  case (JStr s)
  with assms(2) have "memo_call FINGERPRINT_CACHE_LIMIT (\<lambda>s. fingerprint_of p (JStr s)) cache s = (r, cache')"
    by (simp add: publicKeyFingerprint_def)
  with fingerprints.memo_call_ok[OF assms(1)] JStr show ?thesis by blast
qed (use assms in \<open>auto simp: publicKeyFingerprint_def\<close>)

lemma fingerprint_calls_ok:
  "fingerprints.memo_ok p cache \<Longrightarrow> fingerprint_calls p cache ks = (rs, cache') \<Longrightarrow>
     rs = map (fingerprint_of p) ks \<and> fingerprints.memo_ok p cache'"
proof (induction ks arbitrary: cache rs)
  case (Cons k ks)
  obtain r c rs' where k: "publicKeyFingerprint p cache k = (r, c)"
    and ks: "fingerprint_calls p c ks = (rs', cache')" and rs: "rs = r # rs'"
    using Cons.prems(2) by (auto simp: Let_def split: prod.splits)
  from publicKeyFingerprint_ok[OF Cons.prems(1) k] have "r = fingerprint_of p k" "fingerprints.memo_ok p c"
    by simp_all
  with Cons.IH[OF _ ks] rs show ?case by simp
qed simp

text \<open>
  The fingerprint memo is transparent and bounded: over any sequence of calls on the module's
  cache, whatever the keys (malformed ones included), each call returns what the key's own
  computation returns, and the cache never holds more than 8192 entries nor a key twice.
\<close>

theorem fingerprint_memo_transparent:
  "fst (fingerprint_calls p [] ks) = map (fingerprint_of p) ks \<and>
   length (snd (fingerprint_calls p [] ks)) \<le> 8192 \<and> jmap_ok (snd (fingerprint_calls p [] ks))"
  using fingerprint_calls_ok[OF fingerprints.memo_ok_Nil, of p ks]
  by (cases "fingerprint_calls p [] ks") (auto simp: fingerprints.memo_ok_def, simp add: FINGERPRINT_CACHE_LIMIT_def)

section \<open>Base64\<close>

lemma b64_alphabet_facts:
  "length b64_alphabet = 64" "distinct b64_alphabet" "CHR ''='' \<notin> set b64_alphabet"
  by (simp_all add: b64_alphabet_def)

lemma index_of_nth: "distinct xs \<Longrightarrow> n < length xs \<Longrightarrow> index_of (xs ! n) xs = n"
proof (induction xs arbitrary: n)
  case (Cons x xs)
  then show ?case by (cases n) (auto simp: nth_eq_iff_index_eq)
qed simp

lemma b64_char_facts [simp]:
  "index_of (b64_char n) b64_alphabet = n mod 64" "b64_char n \<in> set b64_alphabet" "b64_char n \<noteq> CHR ''=''"
proof -
  have "n mod 64 < length b64_alphabet" by (simp add: b64_alphabet_facts)
  then show "index_of (b64_char n) b64_alphabet = n mod 64" "b64_char n \<in> set b64_alphabet"
    by (simp_all add: b64_char_def index_of_nth b64_alphabet_facts)
  then show "b64_char n \<noteq> CHR ''=''" using b64_alphabet_facts(3) by metis
qed

text \<open>The text of some bytes: its characters and its padding.\<close>

fun b64_codes :: "nat list \<Rightarrow> nat list" where
  "b64_codes (x # y # z # bs) =
     [x div 4, (x mod 4) * 16 + y div 16, (y mod 16) * 4 + z div 64, z mod 64] @ b64_codes bs"
| "b64_codes [x, y] = [x div 4, (x mod 4) * 16 + y div 16, (y mod 16) * 4]"
| "b64_codes [x] = [x div 4, (x mod 4) * 16]"
| "b64_codes [] = []"

fun b64_pad :: "nat list \<Rightarrow> string" where
  "b64_pad (x # y # z # bs) = b64_pad bs"
| "b64_pad [x, y] = ''=''"
| "b64_pad [x] = ''==''"
| "b64_pad [] = []"

definition bytes :: "nat list \<Rightarrow> bool" where
  "bytes bs \<longleftrightarrow> list_all (\<lambda>b. b < 256) bs"

lemma split_parts:
  "q < n \<Longrightarrow> (a * n + q) div n = a" "q < n \<Longrightarrow> (a * n + q) mod n = q" for a n q :: nat
  by simp_all

lemma byte_halves:
  "x < 256 \<Longrightarrow> x div 4 < 64" "y < 256 \<Longrightarrow> y div 16 < 16" "z < 256 \<Longrightarrow> z div 64 < 4"
  "x mod 4 < 4" "y mod 16 < (16 :: nat)" for x y z :: nat
  by (simp_all add: less_mult_imp_div_less)

lemma byte_parts:
  "y < 256 \<Longrightarrow> (x mod 4) * 16 + y div 16 < 64" "z < 256 \<Longrightarrow> (y mod 16) * 4 + z div 64 < 64"
  "(x mod 4) * 16 < 64" "(y mod 16) * 4 < (64 :: nat)" for x y z :: nat
  using byte_halves(2)[of y] byte_halves(3)[of z] byte_halves(4)[of x] byte_halves(5)[of y] by linarith+

lemma b64_text_codes: "bytes bs \<Longrightarrow> b64_text bs = map b64_char (b64_codes bs) @ b64_pad bs"
  by (induction bs rule: b64_text.induct) (auto simp: bytes_def b64_char_def)

lemma b64_codes_small: "bytes bs \<Longrightarrow> \<forall>c\<in>set (b64_codes bs). c < 64"
  by (induction bs rule: b64_codes.induct) (auto simp: bytes_def byte_parts byte_halves)

lemma b64_bytes_codes: "bytes bs \<Longrightarrow> b64_bytes (b64_codes bs) = bs"
  by (induction bs rule: b64_codes.induct)
    (simp_all add: bytes_def split_parts byte_halves del: div_mult_self3 mod_mult_self3)

lemma b64_pad_facts: "list_all (\<lambda>c. c = CHR ''='') (b64_pad bs) \<and> length (b64_pad bs) \<le> 2"
  by (induction bs rule: b64_pad.induct) auto

lemma takeWhile_pad:
  "(\<forall>c\<in>set xs. P c) \<Longrightarrow> (\<forall>c\<in>set ys. \<not> P c) \<Longrightarrow> takeWhile P (xs @ ys) = xs \<and> dropWhile P (xs @ ys) = ys"
  by (cases ys) (simp_all add: takeWhile_append2 dropWhile_append2)

lemma b64_text_parts:
  assumes "bytes bs" "P = (\<lambda>c. c \<in> set b64_alphabet) \<or> P = (\<lambda>c. c \<noteq> CHR ''='')"
  shows "takeWhile P (b64_text bs) = map b64_char (b64_codes bs) \<and> dropWhile P (b64_text bs) = b64_pad bs"
proof -
  have eq: "c = CHR ''=''" if "c \<in> set (b64_pad bs)" for c
    using that b64_pad_facts[of bs] by (simp add: list_all_iff)
  have "\<not> P (CHR ''='')" using assms(2) by (rule disjE) (simp_all add: b64_alphabet_facts(3))
  with eq have "\<forall>c\<in>set (b64_pad bs). \<not> P c" by blast
  moreover have "\<forall>c\<in>set (map b64_char (b64_codes bs)). P c" using assms(2) by auto
  ultimately show ?thesis using takeWhile_pad by (simp only: b64_text_codes[OF assms(1)])
qed

lemma b64_decode_text: "bytes bs \<Longrightarrow> b64_decode (b64_text bs) = bs"
proof -
  assume bs: "bytes bs"
  then have "map (\<lambda>c. index_of c b64_alphabet) (map b64_char (b64_codes bs)) = b64_codes bs"
    using b64_codes_small by (auto intro: map_idI)
  with bs b64_bytes_codes show ?thesis by (simp add: b64_decode_def b64_text_parts del: map_map)
qed

lemma signature_text_b64: "bytes bs \<Longrightarrow> length bs = 64 \<Longrightarrow> signature_text (b64_text bs)"
proof -
  assume bs: "bytes bs" and len: "length bs = 64"
  then have "b64_codes bs \<noteq> []" by (cases bs rule: b64_codes.cases) auto
  with bs len b64_pad_facts[of bs] show ?thesis
    by (simp add: signature_text_def b64_shape_def b64_text_parts b64_decode_text Let_def)
qed

text \<open>
  The base64 text of any bytes decodes to those bytes, so requiring that a signature's text be
  the one its bytes print as leaves every signature exactly one accepted text: two accepted texts
  with the same 64 bytes are equal.
\<close>

theorem signature_text_unique:
  "(bytes bs \<longrightarrow> b64_decode (b64_text bs) = bs) \<and>
   (signature_text s \<longrightarrow> signature_text t \<longrightarrow> b64_decode s = b64_decode t \<longrightarrow> s = t)"
  using b64_decode_text by (metis signature_text_def)

theorem signature_text_unique_witness: "b64_decode (b64_text [77, 97]) = [77, 97]"
  using signature_text_unique[of "[77, 97]"] by (simp add: bytes_def)

section \<open>Envelopes: what creation and verification promise each other\<close>

text \<open>
  What Ed25519 promises of a key pair: signing returns 64 bytes, printed in base64, and they verify
  under the public key over the same text.
\<close>

definition key_pair :: "platform \<Rightarrow> jsval \<Rightarrow> jsval \<Rightarrow> bool" where
  "key_pair p sk pk \<longleftrightarrow> (\<forall>t. \<exists>bs. bytes bs \<and> length bs = 64 \<and>
     ed_sign p sk t = Inr (b64_text bs) \<and> ed_verify p pk t (JStr (b64_text bs)) = Inr True)"

lemma platform_call_eq [res_simps]: "platform_call r = Inr x \<longleftrightarrow> r = Inr x"
  by (cases r) (auto simp: platform_call_def)

lemma signValue_verifies:
  assumes "key_pair p sk pk" "signValue p v sk = Inr s"
  obtains bs where "bytes bs" "length bs = 64" "s = b64_text bs" "verifyValue p v (JStr s) pk = Inr True"
proof -
  from assms(2) obtain t where t: "canonicalize p v = Inr t" "ed_sign p sk t = Inr s"
    by (auto simp: signValue_def res_simps)
  from assms(1) obtain bs where "bytes bs" "length bs = 64" "ed_sign p sk t = Inr (b64_text bs)"
    "ed_verify p pk t (JStr (b64_text bs)) = Inr True"
    unfolding key_pair_def by blast
  with t that show thesis by (simp add: verifyValue_def platform_call_def)
qed

lemma signValue_total:
  "key_pair p sk pk \<Longrightarrow> assertCanonicalJsonValue v = Inr () \<Longrightarrow> \<exists>s. signValue p v sk = Inr s"
  unfolding key_pair_def signValue_def canonicalize_total[of v p]
  by (metis platform_call_eq rbind_Inr)

lemma signature_text_nonblank: "signature_text s \<Longrightarrow> nonblank (JStr s)"
proof -
  assume "signature_text s"
  then have "takeWhile (\<lambda>c. c \<in> set b64_alphabet) s \<noteq> []"
    by (simp add: signature_text_def b64_shape_def Let_def)
  then obtain c where "c \<in> set s" "c \<in> set b64_alphabet"
    by (cases s) (auto split: if_splits)
  moreover have "\<forall>c\<in>set b64_alphabet. \<not> js_white c"
    unfolding b64_alphabet_def js_white_def by simp
  ultimately show ?thesis by (auto simp: nonblank_def trim_nonempty)
qed

lemma unsignedEnvelope_created:
  "unsignedEnvelope (JObj (unsigned_fields a @ [(''signature'', s)])) = JObj (unsigned_fields a)"
  by (simp add: unsignedEnvelope_def unsigned_fields_def)

lemma created_fields:
  assumes "e = JObj (unsigned_fields a @ [(''signature'', s)])"
  shows "get e ''protocol'' = JStr PROTOCOL" "get e ''type'' = ea_type a" "get e ''id'' = ea_id a"
    "get e ''from'' = ea_from a" "get e ''to'' = ea_to a" "get e ''createdAt'' = ea_createdAt a"
    "get e ''publicKey'' = ea_publicKeyPem a" "get e ''payload'' = ea_payload a" "get e ''signature'' = s"
    "truthy e"
  using assms by (simp_all add: unsigned_fields_def)

lemma createEnvelope_cases:
  assumes "createEnvelope p a = Inr e"
  obtains s where "ea_type a \<in> set (map JStr MVP_TYPES)" "nonblank (ea_from a)" "is_plain_object (ea_payload a)"
    "nonblank (ea_publicKeyPem a)" "nonblank (ea_id a)" "nonblank (ea_createdAt a)"
    "isRfc3339Timestamp p (ea_createdAt a)" "ea_to a = JNull \<or> nonblank (ea_to a)"
    "rbind (nodeIdFromPublicKey p (ea_publicKeyPem a)) (\<lambda>n. Inr (JStr n)) = Inr (ea_from a)"
    "signValue p (JObj (unsigned_fields a)) (ea_privateKeyPem a) = Inr s"
    "e = JObj (unsigned_fields a @ [(''signature'', JStr s)])"
  using assms unfolding createEnvelope_def by (auto simp: res_simps)

lemma created_verifies:
  assumes keys: "key_pair p (ea_privateKeyPem a) (ea_publicKeyPem a)" and e: "createEnvelope p a = Inr e"
  shows "verifyEnvelope p MVP_TYPES e = Inr ()"
  using e
proof (rule createEnvelope_cases)
  fix s
  assume checks: "ea_type a \<in> set (map JStr MVP_TYPES)" "nonblank (ea_from a)" "is_plain_object (ea_payload a)"
      "nonblank (ea_publicKeyPem a)" "nonblank (ea_id a)" "nonblank (ea_createdAt a)"
      "isRfc3339Timestamp p (ea_createdAt a)" "ea_to a = JNull \<or> nonblank (ea_to a)"
    and sender: "rbind (nodeIdFromPublicKey p (ea_publicKeyPem a)) (\<lambda>n. Inr (JStr n)) = Inr (ea_from a)"
    and s: "signValue p (JObj (unsigned_fields a)) (ea_privateKeyPem a) = Inr s"
    and e: "e = JObj (unsigned_fields a @ [(''signature'', JStr s)])"
  from keys s obtain bs where "bytes bs" "length bs = 64" "s = b64_text bs"
    and ok: "verifyValue p (JObj (unsigned_fields a)) (JStr s) (ea_publicKeyPem a) = Inr True"
    by (rule signValue_verifies)
  then have sig: "signature_text s" by (simp add: signature_text_b64)
  then have "nonblank (JStr s)" by (rule signature_text_nonblank)
  with checks sig ok sender e show ?thesis
    unfolding verifyEnvelope_def created_fields[OF e] by (auto simp: res_simps unsignedEnvelope_created)
qed

text \<open>
  C27. Whatever \<^verbatim>\<open>createEnvelope\<close> returns, \<^verbatim>\<open>verifyEnvelope\<close> accepts: every check of the verifier
  (protocol, type, required fields, timestamp, the canonical base64 text of the signature, the
  sender's key binding, the signature over the canonical text) passes on it, and it carries the
  type, sender, recipient and payload it was asked for. Assumed of the platform: the two keys are
  an Ed25519 pair.
\<close>

theorem createEnvelope_verifies:
  assumes "key_pair p (ea_privateKeyPem a) (ea_publicKeyPem a)" and "createEnvelope p a = Inr e"
  shows "verifyEnvelope p MVP_TYPES e = Inr () \<and> get e ''type'' = ea_type a \<and>
    get e ''from'' = ea_from a \<and> get e ''to'' = ea_to a \<and> get e ''payload'' = ea_payload a"
  using created_verifies[OF assms] createEnvelope_cases[OF assms(2)] created_fields by metis

text \<open>
  C1. An accepted envelope is bound to its sender: its \<^verbatim>\<open>from\<close> is the identifier made of the digest
  of its own Ed25519 key, the signature verifies under that key over the canonical text of all its
  other fields, and no other content has that text: an envelope with the same signed text agrees
  with it on every field but the signature, up to the order of members.
\<close>

theorem verifyEnvelope_binds:
  assumes ok: "verifyEnvelope p types e = Inr ()" and p: "number_texts p"
  shows "\<exists>der t. spki p (get e ''publicKey'') = Inr (''ed25519'', der) \<and>
      get e ''from'' = JStr (''truyn:node:'' @ sha256 p der) \<and>
      canonicalize p (unsignedEnvelope e) = Inr t \<and>
      ed_verify p (get e ''publicKey'') t (get e ''signature'') = Inr True \<and>
      (\<forall>e'. canonicalize p (unsignedEnvelope e') = Inr t \<longrightarrow>
        normalize (unsignedEnvelope e') = normalize (unsignedEnvelope e))"
proof -
  from ok obtain n where n: "nodeIdFromPublicKey p (get e ''publicKey'') = Inr n" "get e ''from'' = JStr n"
    and v: "verifyValue p (unsignedEnvelope e) (get e ''signature'') (get e ''publicKey'') = Inr True"
    unfolding verifyEnvelope_def by (auto split: if_splits sum.splits bool.splits)
  from n obtain der where "spki p (get e ''publicKey'') = Inr (''ed25519'', der)" "n = ''truyn:node:'' @ sha256 p der"
    by (auto simp: nodeIdFromPublicKey_def fingerprint_of_def res_simps)
  moreover from v obtain t where t: "canonicalize p (unsignedEnvelope e) = Inr t"
    "ed_verify p (get e ''publicKey'') t (get e ''signature'') = Inr True"
    by (auto simp: verifyValue_def res_simps)
  ultimately show ?thesis using n(2) canonicalize_inj[OF p _ t(1)] by blast
qed

definition sample_args :: envelope_args where
  "sample_args = \<lparr>ea_type = JStr ''NEED'', ea_from = JStr ''truyn:node:4b'',
     ea_payload = JObj [(''capability'', JStr ''echo'')], ea_privateKeyPem = JStr ''S'', ea_publicKeyPem = JStr ''K'',
     ea_to = JNull, ea_id = JStr ''1'', ea_createdAt = JStr sample_iso\<rparr>"

lemma sample_key_pair: "key_pair sample_platform sk pk"
proof -
  have "sample_signature = b64_text (replicate 64 0)" by code_simp
  then show ?thesis
    by (auto simp: key_pair_def bytes_def list_all_iff intro!: exI[of _ "replicate 64 0"])
qed

lemma sample_isRfc3339: "isRfc3339Timestamp sample_platform (JStr sample_iso)"
  by code_simp

lemma sample_envelope: "\<exists>e. createEnvelope sample_platform sample_args = Inr e"
proof -
  have "assertCanonicalJsonValue (JObj (unsigned_fields sample_args)) = Inr ()"
    by (simp add: unsigned_fields_def sample_args_def)
  then obtain s where "signValue sample_platform (JObj (unsigned_fields sample_args)) (JStr ''S'') = Inr s"
    using signValue_total[OF sample_key_pair] by blast
  moreover have "nodeIdFromPublicKey sample_platform (JStr ''K'') = Inr ''truyn:node:4b''"
    by code_simp
  moreover have "nonblank (JStr sample_iso)" by code_simp
  ultimately show ?thesis using sample_isRfc3339
    by (simp add: createEnvelope_def sample_args_def MVP_TYPES_def nonblank_def trim_def js_white_def)
qed

theorem createEnvelope_verifies_witness:
  "\<exists>e. createEnvelope sample_platform sample_args = Inr e \<and> verifyEnvelope sample_platform MVP_TYPES e = Inr ()"
  using sample_envelope createEnvelope_verifies[OF sample_key_pair] by blast

theorem verifyEnvelope_binds_witness:
  "\<exists>e t. verifyEnvelope sample_platform MVP_TYPES e = Inr () \<and>
     canonicalize sample_platform (unsignedEnvelope e) = Inr t"
  using sample_envelope created_verifies[OF sample_key_pair] verifyEnvelope_binds[OF _ sample_number_texts] by blast

section \<open>Compact frames: the round trip\<close>

lemma compact_tables:
  "type \<in> set COMPACT_TYPES \<Longrightarrow> \<exists>c. c \<noteq> [] \<and> map_of COMPACT_TYPE_CODES type = Some c \<and>
     map_of COMPACT_CODE_TYPES c = Some type"
  by (auto simp: COMPACT_TYPES_def COMPACT_TYPE_CODES_def COMPACT_CODE_TYPES_def)

text \<open>
  A frame made by \<^verbatim>\<open>createCompactFrame\<close> verifies, with the payload it was made for and under the
  matching key, as the type it was made with. Assumed of the platform: the keys are an Ed25519 pair,
  and \<^verbatim>\<open>Buffer\<close> decodes the unpadded URL-safe base64 text of some bytes to those bytes.
\<close>

theorem createCompactFrame_verifies:
  assumes keys: "key_pair p sk pk" and pk: "truthy pk"
    and buffer: "\<forall>bs. bytes bs \<longrightarrow> buffer_from (JStr (base64url (b64_text bs))) = Inr bs"
    and frame: "createCompactFrame p type payload sk rid = Inr frame"
  shows "verifyCompactFrame p buffer_from COMPACT_TYPES frame payload pk = Inr (Inr type)"
proof -
  from frame have type: "type \<in> set COMPACT_TYPES" and args: "truthy rid" "truthy payload"
    by (auto simp: createCompactFrame_def res_simps)
  from compact_tables[OF type] obtain c where c: "c \<noteq> []" "map_of COMPACT_TYPE_CODES type = Some c"
    "map_of COMPACT_CODE_TYPES c = Some type" by blast
  then have signing: "compactSigningValue type rid payload = Inr (JArr [JStr c, rid, payload])"
    by (simp add: compactSigningValue_def table_get_def)
  with frame c obtain s where s: "signValue p (JArr [JStr c, rid, payload]) sk = Inr s"
    and f: "frame = JObj [(''t'', JStr c), (''i'', rid), (''s'', JStr (base64url s))]"
    by (auto simp: createCompactFrame_def res_simps)
  from keys s obtain bs where bs: "bytes bs" "length bs = 64" "s = b64_text bs"
    and ok: "verifyValue p (JArr [JStr c, rid, payload]) (JStr s) pk = Inr True"
    by (rule signValue_verifies)
  have "base64url s \<noteq> []"
    using bs b64_text_parts[OF bs(1), of "\<lambda>c. c \<noteq> CHR ''=''"] by (cases bs rule: b64_codes.cases) (auto simp: base64url_def)
  moreover have "compactType p frame = Own type"
    using f c by (simp add: compactType_def oget_def table_get_def)
  ultimately show ?thesis
    using f c args pk type buffer bs signing ok by (simp add: verifyCompactFrame_def)
qed

text \<open>A decoder with the property assumed of \<^verbatim>\<open>Buffer.from(text, 'base64url')\<close>.\<close>

definition url_code :: "char \<Rightarrow> nat" where
  "url_code c = index_of (if c = CHR ''-'' then CHR ''+'' else if c = CHR ''_'' then CHR ''/'' else c) b64_alphabet"

definition sample_buffer_from :: "jsval \<Rightarrow> nat list result" where
  "sample_buffer_from v = (case v of JStr s \<Rightarrow> Inr (b64_bytes (map url_code s))
     | _ \<Rightarrow> Inl (TypeError ''The first argument must be of type string''))"

lemma sample_buffer_from_ok:
  assumes "bytes bs"
  shows "sample_buffer_from (JStr (base64url (b64_text bs))) = Inr bs"
proof -
  have alpha: "c \<in> set b64_alphabet \<Longrightarrow> c \<noteq> CHR ''-'' \<and> c \<noteq> CHR ''_''" for c
    by (auto simp: b64_alphabet_def)
  let ?url = "\<lambda>c. if c = CHR ''+'' then CHR ''-'' else if c = CHR ''/'' then CHR ''_'' else c"
  have "c \<in> set b64_alphabet \<Longrightarrow> url_code (?url c) = index_of c b64_alphabet" for c
    using alpha[of c] by (simp add: url_code_def)
  then have "map (url_code \<circ> ?url) (map b64_char (b64_codes bs)) = map (\<lambda>n. n mod 64) (b64_codes bs)"
    by simp
  also have "\<dots> = b64_codes bs" using b64_codes_small[OF assms] by (auto intro: map_idI)
  finally show ?thesis
    using b64_text_parts[OF assms, of "\<lambda>c. c \<noteq> CHR ''=''"] b64_bytes_codes[OF assms]
    by (simp add: sample_buffer_from_def base64url_def comp_assoc)
qed

theorem createCompactFrame_verifies_witness:
  "\<exists>f. createCompactFrame sample_platform ''NEED'' (JObj []) (JStr ''S'') (JStr ''r'') = Inr f \<and>
     verifyCompactFrame sample_platform sample_buffer_from COMPACT_TYPES f (JObj []) (JStr ''K'') = Inr (Inr ''NEED'')"
proof -
  have "assertCanonicalJsonValue (JArr [JStr ''N'', JStr ''r'', JObj []]) = Inr ()" by simp
  with signValue_total[OF sample_key_pair] obtain s
    where "signValue sample_platform (JArr [JStr ''N'', JStr ''r'', JObj []]) (JStr ''S'') = Inr s" by blast
  then obtain f where f: "createCompactFrame sample_platform ''NEED'' (JObj []) (JStr ''S'') (JStr ''r'') = Inr f"
    by (simp add: createCompactFrame_def COMPACT_TYPES_def compactSigningValue_def table_get_def COMPACT_TYPE_CODES_def)
  moreover have "verifyCompactFrame sample_platform sample_buffer_from COMPACT_TYPES f (JObj []) (JStr ''K'') = Inr (Inr ''NEED'')"
    by (rule createCompactFrame_verifies[OF sample_key_pair _ _ f]) (simp_all add: sample_buffer_from_ok)
  ultimately show ?thesis by blast
qed

lemma stage_ids_distinct:
  assumes "compactStageRequestId c i = Inr a" "compactStageRequestId c j = Inr b" "i \<noteq> j"
  shows "a \<noteq> b"
proof
  assume "a = b"
  from assms obtain m n where ij: "i = JNum (of_int m)" "j = JNum (of_int n)"
    unfolding compactStageRequestId_def by (auto simp: res_simps elim!: is_integer_obtain)
  with assms \<open>a = b\<close> have r: "0 \<le> m" "m \<le> 35" "0 \<le> n" "n \<le> 35" and eq: "hex_char (nat m) = hex_char (nat n)"
    unfolding compactStageRequestId_def by (auto simp: res_simps)
  have code: "(of_char (hex_char k) :: nat) = (if k < 10 then 48 + k else 87 + k)" if "k \<le> 35" for k
    using that by (simp add: hex_char_def)
  have "(of_char (hex_char (nat m)) :: nat) = of_char (hex_char (nat n))" by (simp only: eq)
  with r have "m = n" by (auto simp: code split: if_splits)
  with ij assms(3) show False by simp
qed

section \<open>Reading fields of normalised values\<close>

lemma get_without [simp]: "k \<notin> set ks \<Longrightarrow> get (without ks v) k = get v k"
proof (cases v)
  case (JObj kvs)
  assume "k \<notin> set ks"
  then have "map_of (filter (\<lambda>(k, v). k \<notin> set ks) kvs) k = map_of kvs k" by (induction kvs) auto
  with JObj show ?thesis by simp
qed simp_all

lemma map_of_mset_eq: "distinct (map fst a) \<Longrightarrow> mset a = mset b \<Longrightarrow> map_of a = map_of b"
proof -
  assume d: "distinct (map fst a)" and m: "mset a = mset b"
  have "mset (map fst a) = mset (map fst b)" using m by simp
  with d have "distinct (map fst b)" using mset_eq_imp_distinct_iff by blast
  with d m show ?thesis by (intro map_of_inject_set[THEN iffD2]) (auto dest: mset_eq_setD)
qed

lemma get_normalize_top:
  assumes "distinct (map fst kvs)"
  shows "get (normalize (JObj kvs)) k = normalize (get (JObj kvs) k)"
proof -
  let ?m = "map (\<lambda>(k, v). (k, normalize v)) kvs"
  have keys: "map fst ?m = map fst kvs" by (induction kvs) auto
  have "distinct (map fst ?m)" unfolding keys using assms by simp
  then have "map_of (own_order (sort_key fst ?m)) = map_of ?m"
    by (intro map_of_mset_eq[symmetric]) simp_all
  moreover have "map_of ?m k = map_option normalize (map_of kvs k)" by (induction kvs) auto
  ultimately show ?thesis by (simp add: normalize_members_map split: option.splits)
qed

lemma get_normalize: "distinct_names v \<Longrightarrow> get (normalize v) k = normalize (get v k)"
  by (cases v) (simp_all add: get_normalize_top del: normalize.simps get.simps, simp_all)

lemma normalize_eq_JStr [simp]: "normalize v = JStr s \<longleftrightarrow> v = JStr s"
  by (cases v) auto

lemma distinct_names_without: "distinct_names v \<Longrightarrow> distinct_names (without ks v)"
  by (cases v) (auto simp: list_all_iff distinct_map_filter)

end
