(* ===== verification/Negotiation.thy ===== *)
theory Negotiation
  imports Protocol
begin

text \<open>
  Agreement on a protocol generation and its semantics (\<^verbatim>\<open>core/protocol/negotiation.js\<close>), the public
  error classes (\<^verbatim>\<open>core/protocol/normalized-errors.js\<close>) and the acceptance window of a NEED
  (\<^verbatim>\<open>core/protocol/need-admission.js\<close>). Shown: both ends agree on the same highest common
  generation and the same semantics, whatever junk the other end advertises; the classifier is
  closed over its thirteen classes; the window is inclusive at both ends.
\<close>

section \<open>Negotiation\<close>

definition uniqueStrings :: "jsval \<Rightarrow> string list" where
  "uniqueStrings v = unique (map (trim \<circ> str_of) (filter nonblank (elems v)))"

definition protocolGeneration :: "string \<Rightarrow> int" where
  "protocolGeneration s =
     (if take 6 s = ''TRUYN/'' \<and> drop 6 s \<noteq> [] \<and> list_all is_digit (drop 6 s) \<and> hd (drop 6 s) \<noteq> CHR ''0'' \<and>
         int (text_nat (drop 6 s)) \<le> 9007199254740991
      then int (text_nat (drop 6 s)) else -1)"

datatype negotiation =
    Refused string
  | Lacking string "string list"
  | Agreed string "string list"

record offer_side =
  protocols :: jsval
  semantics :: jsval
  semanticsByProtocol :: jsval

definition validMap :: "jsval \<Rightarrow> bool" where
  "validMap m = (case m of
       JObj kvs \<Rightarrow> list_all (\<lambda>(k, vs). protocolGeneration k > 0 \<and> is_array vs \<and> list_all nonblank (elems vs)) kvs
     | _ \<Rightarrow> False)"

definition common_protocols :: "platform \<Rightarrow> string list \<Rightarrow> string list \<Rightarrow> string list" where
  "common_protocols p local remote =
     js_sort (\<lambda>l r. or_else (protocolGeneration r - protocolGeneration l) (lcmp p l r))
       (filter (\<lambda>x. protocolGeneration x > 0 \<and> x \<in> set remote) local)"

definition negotiateProtocol :: "platform \<Rightarrow> offer_side \<Rightarrow> offer_side \<Rightarrow> jsval \<Rightarrow> negotiation" where
  "negotiateProtocol p l r requiredSemantics =
     (let common = common_protocols p (uniqueStrings (protocols l)) (uniqueStrings (protocols r)) in
      case common of [] \<Rightarrow> Refused ''no_protocol_overlap''
      | selected # _ \<Rightarrow>
        (let lm = semanticsByProtocol l; rm = semanticsByProtocol r;
             scoped = (lm \<noteq> JUndef \<or> rm \<noteq> JUndef) in
         if scoped \<and> (\<not> validMap lm \<or> \<not> validMap rm \<or> \<not> has_own lm selected \<or> \<not> has_own rm selected)
         then Refused ''invalid_semantic_advertisement''
         else let ls = uniqueStrings (if scoped then get lm selected else semantics l);
                  rs = uniqueStrings (if scoped then get rm selected else semantics r);
                  required = js_sort cmp_ascii (uniqueStrings requiredSemantics);
                  missing = filter (\<lambda>x. x \<notin> set ls \<or> x \<notin> set rs) required in
              if missing \<noteq> [] then Lacking selected missing
              else Agreed selected (js_sort cmp_ascii (filter (\<lambda>x. x \<in> set rs) ls))))"

section \<open>Public error classes\<close>

definition TRUYN_ERROR_CODES :: "string list" where
  "TRUYN_ERROR_CODES = [''version_mismatch'', ''unauthenticated'', ''permission_denied'', ''deadline_exceeded'',
     ''invalid_argument'', ''unimplemented'', ''cancelled'', ''transport_error'',
     ''invalid_response'', ''not_found'', ''conflict'', ''resource_exhausted'', ''internal_error'']"

definition ALIASES :: "(string \<times> string) list" where
  "ALIASES = [(''unauthorized'', ''unauthenticated''), (''authorization_denied'', ''permission_denied''),
     (''provider_access_denied'', ''permission_denied''), (''invalid_request'', ''invalid_argument''),
     (''validation_error'', ''invalid_argument''), (''invalid_capability'', ''invalid_argument''),
     (''payload_too_large'', ''resource_exhausted''), (''request_too_large'', ''resource_exhausted''),
     (''offer_capacity_reached'', ''resource_exhausted''), (''node_capacity_reached'', ''resource_exhausted''),
     (''cancellation_backpressure'', ''resource_exhausted''), (''partial_backpressure'', ''resource_exhausted''),
     (''result_wait_timeout'', ''deadline_exceeded''), (''no_matching_provider'', ''not_found''),
     (''duplicate_request'', ''conflict''), (''unsupported_protocol'', ''version_mismatch''),
     (''no_protocol_overlap'', ''version_mismatch''), (''required_semantic_unavailable'', ''version_mismatch'')]"

definition RETRYABLE_SOURCE :: "string list" where
  "RETRYABLE_SOURCE = [''offer_capacity_reached'', ''node_capacity_reached'',
     ''cancellation_backpressure'', ''partial_backpressure'', ''result_wait_timeout'']"

definition status_class :: "jsval \<Rightarrow> string" where
  "status_class status =
     (if status = JNum 401 then ''unauthenticated''
      else if status = JNum 403 then ''permission_denied''
      else if status = JNum 404 then ''not_found''
      else if status = JNum 408 \<or> status = JNum 504 then ''deadline_exceeded''
      else if status = JNum 409 then ''conflict''
      else if status = JNum 413 \<or> status = JNum 429 then ''resource_exhausted''
      else if status = JNum 501 then ''unimplemented''
      else if is_finite_num status \<and> num_of status \<ge> 400 \<and> num_of status < 500 then ''invalid_argument''
      else ''internal_error'')"

record error_class =
  ec_code :: string
  ec_retryable :: bool

definition classifyTruynError :: "jsval \<Rightarrow> jsval \<Rightarrow> jsval \<Rightarrow> error_class" where
  "classifyTruynError sourceCode status clientKind =
     (let raw = str_of sourceCode;
          code = (if clientKind = JStr ''transport'' then ''transport_error''
                  else if clientKind = JStr ''invalid_response'' then ''invalid_response''
                  else if clientKind = JStr ''cancelled'' then ''cancelled''
                  else if raw \<in> set TRUYN_ERROR_CODES then raw
                  else (case map_of ALIASES raw of Some c \<Rightarrow> c | None \<Rightarrow> status_class status))
      in \<lparr>ec_code = code,
          ec_retryable = (code = ''transport_error'' \<or>
            (code = ''deadline_exceeded'' \<and> (raw = [] \<or> raw = ''result_wait_timeout'')) \<or>
            raw \<in> set RETRYABLE_SOURCE)\<rparr>)"

definition known_token :: "jsval \<Rightarrow> bool" where
  "known_token v = (is_string v \<and> (str_of v \<in> set TRUYN_ERROR_CODES \<or> map_of ALIASES (str_of v) \<noteq> None))"

definition classifyTruynException :: "jsval \<Rightarrow> error_class" where
  "classifyTruynException err =
     (let bodyCode = oget (oget err ''body'') ''error'';
          first = (if is_string bodyCode then bodyCode
                   else if is_string (oget bodyCode ''code'') then oget bodyCode ''code'' else JNull);
          second = (if is_string (oget err ''code'') then oget err ''code'' else JNull);
          third = (if known_token (oget err ''message'') then oget err ''message'' else JStr []);
          sourceCode = (if truthy first then first else if truthy second then second else third)
      in classifyTruynError sourceCode
           (if is_integer (oget err ''status'') then oget err ''status'' else oget err ''httpStatus'') JUndef)"

section \<open>The acceptance window of a NEED\<close>

definition NEED_MAX_AGE_MS :: int where "NEED_MAX_AGE_MS = 300000"
definition NEED_MAX_FUTURE_MS :: int where "NEED_MAX_FUTURE_MS = 30000"

definition assertNeedAdmissionWindow :: "platform \<Rightarrow> jsval \<Rightarrow> jsval \<Rightarrow> unit result" where
  "assertNeedAdmissionWindow p envelope now =
     (case (is_safe_integer now, date_parse p (to_string p (oget envelope ''createdAt''))) of
        (True, Some createdAt) \<Rightarrow>
          (if createdAt > int_of now + NEED_MAX_FUTURE_MS \<or> int_of now - createdAt > NEED_MAX_AGE_MS
           then Inl (Fault 400 ''need_outside_acceptance_window'') else Inr ())
      | _ \<Rightarrow> Inl (Fault 400 ''need_outside_acceptance_window''))"

section \<open>Both ends agree\<close>

text \<open>A canonical generation name is determined by its number.\<close>

lemma digit_eq: "is_digit c \<Longrightarrow> is_digit d \<Longrightarrow> (of_char c :: nat) - 48 = of_char d - 48 \<Longrightarrow> c = d"
proof -
  assume "is_digit c" "is_digit d" "(of_char c :: nat) - 48 = of_char d - 48"
  then have "(of_char c :: nat) = of_char d" unfolding is_digit_def by linarith
  then show "c = d" by simp
qed

lemma digit_small: "is_digit c \<Longrightarrow> (of_char c :: nat) - 48 < 10"
  unfolding is_digit_def by linarith

lemma decimal_eq: "10 * a + x = 10 * b + y \<Longrightarrow> x < 10 \<Longrightarrow> y < 10 \<Longrightarrow> a = b \<and> x = y" for a b x y :: nat
  by presburger

lemma text_nat_pos: "s \<noteq> [] \<Longrightarrow> list_all is_digit s \<Longrightarrow> hd s \<noteq> CHR ''0'' \<Longrightarrow> 0 < text_nat s"
proof (induction s rule: rev_induct)
  case (snoc c s)
  show ?case
  proof (cases "s = []")
    case True
    have "(of_char c :: nat) \<noteq> of_char (CHR ''0'')"
      using snoc.prems(3) True by (simp only: of_char_eq_iff) simp
    with snoc.prems(2) True show ?thesis by (auto simp: text_nat_snoc text_nat_def is_digit_def)
  next
    case False
    with snoc show ?thesis by (simp add: text_nat_snoc)
  qed
qed simp

lemma text_nat_inj:
  assumes "list_all is_digit s" "list_all is_digit t" "s \<noteq> []" "t \<noteq> []" "hd s \<noteq> CHR ''0''" "hd t \<noteq> CHR ''0''"
    "text_nat s = text_nat t"
  shows "s = t"
  using assms
proof (induction s arbitrary: t rule: rev_induct)
  case (snoc c s)
  obtain d t' where t: "t = t' @ [d]" using snoc.prems(4) by (metis rev_exhaust)
  have dig: "is_digit c" "is_digit d" using snoc.prems(1,2) t by auto
  from snoc.prems(7) t have eq: "10 * text_nat s + ((of_char c :: nat) - 48) = 10 * text_nat t' + (of_char d - 48)"
    by (simp add: text_nat_snoc)
  from decimal_eq[OF eq digit_small[OF dig(1)] digit_small[OF dig(2)]] have
    cd: "c = d" and st: "text_nat s = text_nat t'" using dig digit_eq by blast+
  have "s = t'"
  proof (cases "s = [] \<or> t' = []")
    case True
    then show ?thesis
      using st snoc.prems text_nat_pos[of s] text_nat_pos[of t'] t
      by (cases "s = []"; cases "t' = []") (auto simp: text_nat_def)
  next
    case False
    with snoc.prems t st show ?thesis by (intro snoc.IH) auto
  qed
  with t cd show ?case by simp
qed simp

lemma protocolGeneration_inj:
  assumes "protocolGeneration a > 0" "protocolGeneration a = protocolGeneration b"
  shows "a = b"
proof -
  let ?ok = "\<lambda>s. take 6 s = ''TRUYN/'' \<and> drop 6 s \<noteq> [] \<and> list_all is_digit (drop 6 s) \<and> hd (drop 6 s) \<noteq> CHR ''0''"
  have ok: "?ok s \<and> protocolGeneration s = int (text_nat (drop 6 s))" if "protocolGeneration s > 0" for s
    using that by (auto simp: protocolGeneration_def simp del: drop_eq_Nil split: if_splits)
  from ok[of a] ok[of b] assms have "text_nat (drop 6 a) = text_nat (drop 6 b)" "?ok a" "?ok b" by simp_all
  then have "drop 6 a = drop 6 b" "take 6 a = take 6 b" by (simp_all add: text_nat_inj del: drop_eq_Nil)
  then show ?thesis by (metis append_take_drop_id)
qed

lemma uniqueStrings_distinct [simp]: "distinct (uniqueStrings v)"
  by (simp add: uniqueStrings_def)

lemma common_protocols_set:
  "set (common_protocols p ls rs) = {x \<in> set ls. protocolGeneration x > 0 \<and> x \<in> set rs}"
  by (auto simp: common_protocols_def)

lemma common_protocols_max:
  assumes "distinct ls" "common_protocols p ls rs = s # ss"
  shows "s \<in> set ls \<and> s \<in> set rs \<and> protocolGeneration s > 0 \<and>
    (\<forall>x. x \<in> set ls \<and> x \<in> set rs \<longrightarrow> protocolGeneration x \<le> protocolGeneration s)"
proof -
  let ?xs = "filter (\<lambda>x. protocolGeneration x > 0 \<and> x \<in> set rs) ls"
  have "?xs \<noteq> []" using assms(2) by (auto simp: common_protocols_def js_sort_def)
  moreover have "\<forall>x\<in>set ?xs. \<forall>y\<in>set ?xs. x \<noteq> y \<longrightarrow> protocolGeneration x \<noteq> protocolGeneration y \<and>
      or_else (protocolGeneration y - protocolGeneration x) (lcmp p x y) =
      or_else (protocolGeneration y - protocolGeneration x) (lcmp p x y)"
    using protocolGeneration_inj by fastforce
  ultimately have "\<forall>y\<in>set ?xs. protocolGeneration y \<le> protocolGeneration (hd (common_protocols p ls rs))"
    unfolding common_protocols_def using assms(1) by (intro hd_js_sort_max) auto
  moreover have "s \<in> set (common_protocols p ls rs)" using assms(2) by simp
  ultimately show ?thesis
    unfolding common_protocols_set using assms(2) by (auto simp: not_less)
qed

lemma common_protocols_sym:
  assumes "distinct ls" "distinct rs"
  shows "(case common_protocols p ls rs of [] \<Rightarrow> a | x # _ \<Rightarrow> f x) =
    (case common_protocols p rs ls of [] \<Rightarrow> a | x # _ \<Rightarrow> f x)"
proof -
  have empty: "common_protocols p ls rs = [] \<longleftrightarrow> common_protocols p rs ls = []"
    using common_protocols_set[of p ls rs] common_protocols_set[of p rs ls]
    by (auto simp flip: set_empty)
  have "s = t" if s: "common_protocols p ls rs = s # ss" and t: "common_protocols p rs ls = t # ts" for s ss t ts
    using common_protocols_max[OF assms(1) s] common_protocols_max[OF assms(2) t]
    by (meson antisym protocolGeneration_inj)
  with empty show ?thesis by (auto split: list.splits)
qed

text \<open>
  Negotiation is symmetric: the two ends, each running the code on its own view (itself local,
  the other remote) with the same required semantics, come to the same result, the refusals and the
  list of missing semantics included, whatever either end advertises.
\<close>

theorem negotiation_symmetric:
  "negotiateProtocol p l r required = negotiateProtocol p r l required"
proof -
  have agreed: "js_sort cmp_ascii (filter (\<lambda>x. x \<in> set (uniqueStrings b)) (uniqueStrings a)) =
      js_sort cmp_ascii (filter (\<lambda>x. x \<in> set (uniqueStrings a)) (uniqueStrings b))" for a b
    by (rule js_sort_ascii_unique) auto
  show ?thesis
    unfolding negotiateProtocol_def Let_def
    by (subst common_protocols_sym[of "uniqueStrings (protocols l)"])
      (auto split: list.splits simp: agreed disj_commute conj_commute intro!: arg_cong[where f = "Lacking _"] filter_cong)
qed

text \<open>
  An agreement is a canonical TRUYN generation that both ends advertise, the highest of those,
  with exactly the semantics both advertise for it, and these include all that was required.
\<close>

theorem negotiation_agreement:
  assumes "negotiateProtocol p l r required = Agreed s xs"
  shows "protocolGeneration s > 0 \<and>
    s \<in> set (uniqueStrings (protocols l)) \<inter> set (uniqueStrings (protocols r)) \<and>
    (\<forall>t. t \<in> set (uniqueStrings (protocols l)) \<inter> set (uniqueStrings (protocols r)) \<longrightarrow>
      protocolGeneration t \<le> protocolGeneration s) \<and>
    (let scoped = (semanticsByProtocol l \<noteq> JUndef \<or> semanticsByProtocol r \<noteq> JUndef);
         sem = (\<lambda>side. set (uniqueStrings (if scoped then get (semanticsByProtocol side) s else semantics side)))
     in set xs = sem l \<inter> sem r \<and> set (uniqueStrings required) \<subseteq> set xs)"
proof -
  from assms obtain ss where common: "common_protocols p (uniqueStrings (protocols l)) (uniqueStrings (protocols r)) = s # ss"
    by (auto simp: negotiateProtocol_def Let_def split: list.splits if_splits)
  from common_protocols_max[OF _ common] have "protocolGeneration s > 0"
    "s \<in> set (uniqueStrings (protocols l)) \<inter> set (uniqueStrings (protocols r))"
    "\<forall>t. t \<in> set (uniqueStrings (protocols l)) \<inter> set (uniqueStrings (protocols r)) \<longrightarrow>
      protocolGeneration t \<le> protocolGeneration s" by simp_all
  moreover have "let scoped = (semanticsByProtocol l \<noteq> JUndef \<or> semanticsByProtocol r \<noteq> JUndef);
         sem = (\<lambda>side. set (uniqueStrings (if scoped then get (semanticsByProtocol side) s else semantics side)))
     in set xs = sem l \<inter> sem r \<and> set (uniqueStrings required) \<subseteq> set xs"
    using assms common unfolding negotiateProtocol_def Let_def
    by (auto simp: filter_empty_conv split: if_splits)
  ultimately show ?thesis by simp
qed

definition sample_side :: "jsval list \<Rightarrow> offer_side" where
  "sample_side ps = \<lparr>protocols = JArr ps, semantics = JArr [JStr ''needs''], semanticsByProtocol = JUndef\<rparr>"

theorem negotiation_agreement_witness:
  "protocolGeneration ''TRUYN/2'' > 0 \<and> negotiateProtocol sample_platform
     (sample_side [JStr ''TRUYN/1'', JStr ''TRUYN/2'']) (sample_side [JNull, JStr ''TRUYN/2'', JStr ''TRUYN/1'', JStr ''TRUYN/03''])
     (JArr []) = Agreed ''TRUYN/2'' [''needs'']"
proof -
  have "negotiateProtocol sample_platform
     (sample_side [JStr ''TRUYN/1'', JStr ''TRUYN/2'']) (sample_side [JNull, JStr ''TRUYN/2'', JStr ''TRUYN/1'', JStr ''TRUYN/03''])
     (JArr []) = Agreed ''TRUYN/2'' [''needs'']" by code_simp
  then show ?thesis using negotiation_agreement by blast
qed

section \<open>The classifier is closed\<close>

lemma alias_class: "map_of ALIASES raw = Some c \<Longrightarrow> c \<in> set TRUYN_ERROR_CODES"
  by (drule map_of_SomeD) (auto simp: ALIASES_def TRUYN_ERROR_CODES_def)

lemma status_class_closed: "status_class st \<in> set TRUYN_ERROR_CODES"
  by (simp add: status_class_def TRUYN_ERROR_CODES_def)

lemma classifyTruynError_closed: "ec_code (classifyTruynError raw st ck) \<in> set TRUYN_ERROR_CODES"
proof -
  have "{''transport_error'', ''invalid_response'', ''cancelled''} \<subseteq> set TRUYN_ERROR_CODES"
    by (simp add: TRUYN_ERROR_CODES_def)
  then show ?thesis
    by (auto simp: classifyTruynError_def Let_def status_class_closed alias_class split: option.splits)
qed

lemma classify_message_ignored:
  assumes "\<not> known_token (oget a ''message'')" "\<not> known_token (oget b ''message'')"
    "oget a ''body'' = oget b ''body''" "oget a ''code'' = oget b ''code''"
    "oget a ''status'' = oget b ''status''" "oget a ''httpStatus'' = oget b ''httpStatus''"
  shows "classifyTruynException a = classifyTruynException b"
  using assms(1,2) unfolding classifyTruynException_def Let_def assms(3-6) by (simp only: if_False)

text \<open>
  The classification of any thrown value is one of the thirteen public classes, whatever its
  body, code, message and status hold; and a message that is not itself one of the enumerated
  tokens has no influence: the class is the one of the same exception without its message.
\<close>

theorem classifyTruynException_closed:
  "ec_code (classifyTruynException err) \<in> set TRUYN_ERROR_CODES \<and>
   (known_token (get (JObj kvs) ''message'') \<or>
     classifyTruynException (JObj kvs) = classifyTruynException (without [''message''] (JObj kvs)))"
proof -
  let ?e = "without [''message''] (JObj kvs)"
  have "map_of (filter (\<lambda>(k, v). k \<notin> {''message''}) kvs) k = map_of kvs k" if "k \<noteq> ''message''" for k
    using that by (induction kvs) auto
  then have same: "oget (JObj kvs) k = oget ?e k" if "k \<noteq> ''message''" for k
    using that by (simp add: oget_def)
  have "map_of (filter (\<lambda>(k, v). k \<noteq> ''message'') kvs) ''message'' = None"
    by (induction kvs) auto
  then have "\<not> known_token (oget ?e ''message'')" by (simp add: oget_def known_token_def)
  moreover have "get (JObj kvs) ''message'' = oget (JObj kvs) ''message''" by (simp add: oget_def)
  ultimately have "known_token (get (JObj kvs) ''message'') \<or>
     classifyTruynException (JObj kvs) = classifyTruynException ?e"
    using classify_message_ignored[of "JObj kvs" ?e, OF _ _ same same same same] by auto
  moreover have "ec_code (classifyTruynException err) \<in> set TRUYN_ERROR_CODES"
    unfolding classifyTruynException_def Let_def by (rule classifyTruynError_closed)
  ultimately show ?thesis by simp
qed

lemma assertNeedAdmissionWindow_iff:
  "assertNeedAdmissionWindow p e (JNum (of_int now)) = Inr () \<longleftrightarrow> \<bar>now\<bar> \<le> 9007199254740991 \<and>
     (\<exists>t. date_parse p (to_string p (oget e ''createdAt'')) = Some t \<and> now - 300000 \<le> t \<and> t \<le> now + 30000)"
proof -
  have "\<bar>of_int now\<bar> \<le> (9007199254740991 :: rat) \<longleftrightarrow> \<bar>now\<bar> \<le> 9007199254740991"
    by (metis of_int_abs of_int_le_numeral_iff)
  then show ?thesis
    by (auto simp: assertNeedAdmissionWindow_def NEED_MAX_AGE_MS_def NEED_MAX_FUTURE_MS_def
        split: option.splits bool.splits)
qed

end
