(* ===== verification/Kademlia.thy ===== *)
theory Kademlia
  imports Protocol "HOL-Library.Word"
begin

text \<open>
  The Kademlia routing table of \<^verbatim>\<open>network/dht/kademlia.js\<close>: 256 buckets of at most \<^verbatim>\<open>k\<close> peers, the
  member set beside them, least-recently-seen eviction and the closest-peer query. Shown: every
  sequence of operations keeps each peer in the bucket of its distance, each bucket within \<^verbatim>\<open>k\<close> and
  the member set equal to what the buckets hold; an upsert loses at most the oldest peer of the
  bucket it fills; the query returns the peers nearest to its target, in order.

  A DHT key is the 256-bit word of a SHA-256 digest. The memos of \<^verbatim>\<open>dhtId\<close> and \<^verbatim>\<open>dhtKey\<close> are
  bounded memos in front of pure functions, transparent by the contract of \<^verbatim>\<open>Protocol\<close>.
\<close>

unbundle bit_operations_syntax

section \<open>Keys and distances\<close>

definition KADEMLIA_ID_BITS :: nat where
  "KADEMLIA_ID_BITS = 256"

definition DHT_KEY_CACHE_LIMIT :: nat where
  "DHT_KEY_CACHE_LIMIT = 16384"

definition hex_digit :: "char \<Rightarrow> nat" where
  "hex_digit c = (if is_digit c then of_char c - 48 else of_char c - 87)"

definition hex_value :: "string \<Rightarrow> nat" where
  "hex_value s = foldl (\<lambda>n c. 16 * n + hex_digit c) 0 s"

definition dhtId :: "platform \<Rightarrow> string \<Rightarrow> string" where
  "dhtId p s = sha256 p s"

definition dhtKey :: "platform \<Rightarrow> string \<Rightarrow> 256 word" where
  "dhtKey p s = of_nat (hex_value (dhtId p s))"

text \<open>The two memos, as the module calls them.\<close>

definition dhtId_cached :: "platform \<Rightarrow> (string, string) jsmap \<Rightarrow> string \<Rightarrow> string result \<times> (string, string) jsmap" where
  "dhtId_cached p cache key = memo_call DHT_KEY_CACHE_LIMIT (\<lambda>s. Inr (dhtId p s)) cache key"

definition dhtKey_cached ::
  "platform \<Rightarrow> (string, 256 word) jsmap \<Rightarrow> string \<Rightarrow> 256 word result \<times> (string, 256 word) jsmap" where
  "dhtKey_cached p cache key = memo_call DHT_KEY_CACHE_LIMIT (\<lambda>s. Inr (dhtKey p s)) cache key"

definition xorDistance :: "platform \<Rightarrow> string \<Rightarrow> string \<Rightarrow> 256 word" where
  "xorDistance p l r = dhtKey p l XOR dhtKey p r"

text \<open>\<^verbatim>\<open>n.toString(2).length\<close>.\<close>

fun binary_length :: "nat \<Rightarrow> nat" where
  "binary_length n = (if n < 2 then 1 else Suc (binary_length (n div 2)))"

declare binary_length.simps [simp del]

text \<open>\<open>None\<close> is the source's -1.\<close>

definition bucketIndex :: "platform \<Rightarrow> string \<Rightarrow> string \<Rightarrow> nat option" where
  "bucketIndex p l r = (let d = xorDistance p l r in
     if d = 0 then None else Some (binary_length (unat d) - 1))"

section \<open>The routing table\<close>

record dht_peer =
  peer_id :: string
  peer_endpoints :: jsval
  peer_lastSeenAt :: string
  peer_extra :: entries

record routing_table =
  rt_local :: string
  rt_k :: nat
  rt_buckets :: "dht_peer list list"
  rt_members :: "string list"

definition routing_table_new :: "string \<Rightarrow> jsval \<Rightarrow> routing_table result" where
  "routing_table_new localNodeId k =
     (if localNodeId = [] then Inl (Err ''localNodeId is required'')
      else if \<not> is_integer k \<or> num_of k < 1 then Inl (Err ''k must be >= 1'')
      else Inr \<lparr>rt_local = localNodeId, rt_k = nat (int_of k),
        rt_buckets = replicate KADEMLIA_ID_BITS [], rt_members = []\<rparr>)"

definition rt_has :: "routing_table \<Rightarrow> string \<Rightarrow> bool" where
  "rt_has t n = (n \<in> set (rt_members t))"

fun splice_first :: "('a \<Rightarrow> bool) \<Rightarrow> 'a list \<Rightarrow> 'a list" where
  "splice_first P [] = []"
| "splice_first P (x # xs) = (if P x then xs else x # splice_first P xs)"

definition set_add :: "'a \<Rightarrow> 'a list \<Rightarrow> 'a list" where
  "set_add x xs = (if x \<in> set xs then xs else xs @ [x])"

definition upsert :: "platform \<Rightarrow> string \<Rightarrow> dht_peer \<Rightarrow> routing_table \<Rightarrow> bool \<times> routing_table" where
  "upsert p now peer t =
     (if peer_id peer = [] \<or> peer_id peer = rt_local t then (False, t)
      else case bucketIndex p (rt_local t) (peer_id peer) of
        None \<Rightarrow> (False, t)
      | Some i \<Rightarrow>
         (let seen = peer\<lparr>peer_lastSeenAt := (if peer_lastSeenAt peer = [] then now else peer_lastSeenAt peer)\<rparr>;
              bucket = splice_first (\<lambda>q. peer_id q = peer_id peer) (rt_buckets t ! i) @ [seen];
              members = set_add (peer_id peer) (rt_members t)
          in if length bucket > rt_k t
             then (True, t\<lparr>rt_buckets := (rt_buckets t)[i := tl bucket],
                           rt_members := removeAll (peer_id (hd bucket)) members\<rparr>)
             else (True, t\<lparr>rt_buckets := (rt_buckets t)[i := bucket], rt_members := members\<rparr>)))"

definition rt_remove :: "platform \<Rightarrow> string \<Rightarrow> routing_table \<Rightarrow> bool \<times> routing_table" where
  "rt_remove p n t = (case bucketIndex p (rt_local t) n of
       None \<Rightarrow> (False, t)
     | Some i \<Rightarrow>
        (let bucket = filter (\<lambda>q. peer_id q \<noteq> n) (rt_buckets t ! i);
             removed = (length bucket \<noteq> length (rt_buckets t ! i));
             t' = t\<lparr>rt_buckets := (rt_buckets t)[i := bucket]\<rparr>
         in (removed, if removed then t'\<lparr>rt_members := removeAll n (rt_members t)\<rparr> else t')))"

definition snapshot_peers :: "routing_table \<Rightarrow> dht_peer list" where
  "snapshot_peers t = concat (rt_buckets t)"

definition closest_cmp :: "platform \<Rightarrow> string \<Rightarrow> dht_peer \<Rightarrow> dht_peer \<Rightarrow> int" where
  "closest_cmp p target a b =
     (let da = xorDistance p (peer_id a) target; db = xorDistance p (peer_id b) target in
      if da < db then -1 else if db < da then 1 else lcmp p (peer_id a) (peer_id b))"

definition closest :: "platform \<Rightarrow> string \<Rightarrow> nat \<Rightarrow> routing_table \<Rightarrow> dht_peer list" where
  "closest p target n t =
     (if n = 0 then [] else take n (js_sort (closest_cmp p target) (concat (rt_buckets t))))"

definition restore_peers :: "platform \<Rightarrow> string \<Rightarrow> dht_peer list \<Rightarrow> routing_table \<Rightarrow> routing_table" where
  "restore_peers p now peers t = fold (\<lambda>q t. snd (upsert p now q t)) peers t"

definition rt_size :: "routing_table \<Rightarrow> nat" where
  "rt_size t = length (rt_members t)"

record routing_snapshot =
  rs_routingSize :: nat
  rs_validPeers :: nat
  rs_populatedBuckets :: nat
  rs_occupancy :: "nat list"

definition routingSnapshot :: "routing_table \<Rightarrow> routing_snapshot" where
  "routingSnapshot t = \<lparr>rs_routingSize = length (concat (rt_buckets t)),
     rs_validPeers = length (filter (\<lambda>q. peer_id q \<noteq> [] \<and> peer_id q \<noteq> rt_local t \<and>
        is_array (peer_endpoints q) \<and> elems (peer_endpoints q) \<noteq> []) (concat (rt_buckets t))),
     rs_populatedBuckets = length (filter (\<lambda>n. n > 0) (map length (rt_buckets t))),
     rs_occupancy = map length (rt_buckets t)\<rparr>"

text \<open>The operations that change a table, as the runtime calls them.\<close>

datatype rt_op = Upsert string dht_peer | Remove string

fun rt_step :: "platform \<Rightarrow> rt_op \<Rightarrow> routing_table \<Rightarrow> routing_table" where
  "rt_step p (Upsert now q) t = snd (upsert p now q t)"
| "rt_step p (Remove n) t = snd (rt_remove p n t)"

section \<open>The invariant\<close>

definition bucket_ok :: "platform \<Rightarrow> routing_table \<Rightarrow> nat \<Rightarrow> bool" where
  "bucket_ok p t i \<longleftrightarrow> (let b = rt_buckets t ! i in length b \<le> rt_k t \<and> distinct (map peer_id b) \<and>
     (\<forall>q\<in>set b. peer_id q \<noteq> rt_local t \<and> bucketIndex p (rt_local t) (peer_id q) = Some i))"

definition table_ok :: "platform \<Rightarrow> routing_table \<Rightarrow> bool" where
  "table_ok p t \<longleftrightarrow> 1 \<le> rt_k t \<and> length (rt_buckets t) = KADEMLIA_ID_BITS \<and>
     (\<forall>i < KADEMLIA_ID_BITS. bucket_ok p t i) \<and> distinct (rt_members t) \<and>
     set (rt_members t) = peer_id ` set (concat (rt_buckets t))"

interpretation ids: bounded_memo DHT_KEY_CACHE_LIMIT "\<lambda>s. (Inr (dhtId p s) :: string result)" for p
  by unfold_locales (simp add: DHT_KEY_CACHE_LIMIT_def)

interpretation keys: bounded_memo DHT_KEY_CACHE_LIMIT "\<lambda>s. (Inr (dhtKey p s) :: 256 word result)" for p
  by unfold_locales (simp add: DHT_KEY_CACHE_LIMIT_def)

lemma binary_length_bounds: "0 < n \<Longrightarrow> 2 ^ (binary_length n - 1) \<le> n \<and> n < 2 ^ binary_length n"
proof (induction n rule: binary_length.induct)
  case (1 n)
  show ?case
  proof (cases "n < 2")
    case False
    then have IH: "2 ^ (binary_length (n div 2) - 1) \<le> n div 2 \<and> n div 2 < 2 ^ binary_length (n div 2)"
      using 1 by simp
    have "binary_length (n div 2) \<ge> 1" by (subst binary_length.simps) simp
    then obtain m where m: "binary_length (n div 2) = Suc m" by (cases "binary_length (n div 2)") auto
    with IH have "2 ^ m \<le> n div 2" "n div 2 < 2 * 2 ^ m" by simp_all
    then have "2 * 2 ^ m \<le> n" "n < 4 * 2 ^ m" by linarith+
    moreover have "binary_length n = Suc (Suc m)" using False m by (subst binary_length.simps) simp
    ultimately show ?thesis by simp
  qed (use 1 in \<open>simp add: binary_length.simps\<close>)
qed

text \<open>
  The bucket of a peer is the position of the highest bit in which its key differs from the local
  one, and there is always such a bucket.
\<close>

lemma bucketIndex_bounds:
  assumes "bucketIndex p l r = Some i"
  shows "2 ^ i \<le> unat (xorDistance p l r) \<and> unat (xorDistance p l r) < 2 ^ Suc i \<and> i < KADEMLIA_ID_BITS"
proof -
  let ?d = "unat (xorDistance p l r)"
  from assms have d: "0 < ?d" and i: "i = binary_length ?d - 1"
    by (auto simp: bucketIndex_def Let_def unat_gt_0 split: if_splits)
  have pos: "1 \<le> binary_length ?d" by (subst binary_length.simps) simp
  have b: "2 ^ i \<le> ?d" "?d < 2 ^ Suc i"
    using binary_length_bounds[OF d] i pos by simp_all
  have "(2::nat) ^ i < 2 ^ LENGTH(256)" using b(1) unsigned_less by (rule le_less_trans)
  then have "i < LENGTH(256)" by (rule power_less_imp_less_exp[rotated]) simp
  with b show ?thesis by (simp add: KADEMLIA_ID_BITS_def)
qed

definition ids_at :: "routing_table \<Rightarrow> nat \<Rightarrow> string set" where
  "ids_at t i = peer_id ` set (rt_buckets t ! i)"

lemma set_concat_nth: "set (concat xs) = (\<Union>i<length xs. set (xs ! i))"
proof -
  have "set xs = (!) xs ` {..<length xs}" by (auto simp: set_conv_nth)
  then show ?thesis by simp
qed

lemma all_ids: "length (rt_buckets t) = KADEMLIA_ID_BITS \<Longrightarrow>
    peer_id ` set (concat (rt_buckets t)) = (\<Union>i<KADEMLIA_ID_BITS. ids_at t i)"
  unfolding set_concat_nth ids_at_def by auto

lemma ids_at_index:
  "table_ok p t \<Longrightarrow> i < KADEMLIA_ID_BITS \<Longrightarrow> n \<in> ids_at t i \<Longrightarrow> bucketIndex p (rt_local t) n = Some i"
  by (auto simp: table_ok_def bucket_ok_def ids_at_def Let_def)

lemma distinct_concat_nth:
  assumes "\<forall>i<length xs. distinct (map f (xs ! i))"
    "\<forall>i<length xs. \<forall>j<length xs. i \<noteq> j \<longrightarrow> f ` set (xs ! i) \<inter> f ` set (xs ! j) = {}"
  shows "distinct (map f (concat xs))"
  using assms
proof (induction xs)
  case (Cons x xs)
  have disj: "f ` set x \<inter> f ` set (xs ! j) = {}" if "j < length xs" for j
    using Cons.prems(2)[rule_format, of 0 "Suc j"] that by simp
  have "f ` set x \<inter> f ` set (concat xs) = {}"
    unfolding set_concat_nth using disj by blast
  moreover have "distinct (map f (concat xs))"
  proof (rule Cons.IH)
    show "\<forall>i<length xs. distinct (map f (xs ! i))" using Cons.prems(1) by fastforce
    show "\<forall>i<length xs. \<forall>j<length xs. i \<noteq> j \<longrightarrow> f ` set (xs ! i) \<inter> f ` set (xs ! j) = {}"
      using Cons.prems(2)[rule_format, of "Suc _" "Suc _"] by simp
  qed
  ultimately show ?case using Cons.prems(1)[rule_format, of 0] by simp
qed simp

lemma table_ok_distinct:
  assumes "table_ok p t"
  shows "distinct (map peer_id (concat (rt_buckets t)))"
proof (rule distinct_concat_nth)
  have len: "length (rt_buckets t) = KADEMLIA_ID_BITS" using assms by (simp add: table_ok_def)
  with assms show "\<forall>i<length (rt_buckets t). distinct (map peer_id (rt_buckets t ! i))"
    by (simp add: table_ok_def bucket_ok_def Let_def)
  show "\<forall>i<length (rt_buckets t). \<forall>j<length (rt_buckets t). i \<noteq> j \<longrightarrow>
      peer_id ` set (rt_buckets t ! i) \<inter> peer_id ` set (rt_buckets t ! j) = {}"
    unfolding len ids_at_def[symmetric] using ids_at_index[OF assms] by (metis Int_emptyI option.inject)
qed

lemma table_ok_size:
  assumes "table_ok p t"
  shows "rt_size t = length (concat (rt_buckets t)) \<and> rt_size t \<le> 256 * rt_k t"
proof -
  have len: "length (rt_buckets t) = 256" and le: "\<forall>b\<in>set (rt_buckets t). length b \<le> rt_k t"
    using assms by (auto simp: table_ok_def bucket_ok_def Let_def KADEMLIA_ID_BITS_def in_set_conv_nth)
  have "length (rt_members t) = card (set (map peer_id (concat (rt_buckets t))))"
    using assms by (simp add: table_ok_def distinct_card[symmetric])
  also have "\<dots> = length (concat (rt_buckets t))"
    using distinct_card[OF table_ok_distinct[OF assms]] by simp
  finally have "rt_size t = length (concat (rt_buckets t))" by (simp add: rt_size_def)
  moreover have "sum_list (map length (rt_buckets t)) \<le> sum_list (map (\<lambda>_. rt_k t) (rt_buckets t))"
    using le by (intro sum_list_mono) auto
  ultimately show ?thesis using len by (simp add: length_concat sum_list_triv)
qed

lemma splice_first_filter:
  "distinct (map f xs) \<Longrightarrow> splice_first (\<lambda>q. f q = n) xs = filter (\<lambda>q. f q \<noteq> n) xs"
proof (induction xs)
  case (Cons x xs)
  have "filter (\<lambda>q. f q \<noteq> f x) xs = xs" using Cons.prems by (intro filter_True) (simp add: image_iff, metis)
  with Cons show ?case by auto
qed simp

text \<open>
  Replacing one bucket by peers of the same index keeps the table well formed, when the member set
  follows: this is the step every operation takes.
\<close>

lemma table_ok_bucket:
  assumes ok: "table_ok p t" and i: "i < KADEMLIA_ID_BITS"
    and b: "length b \<le> rt_k t" "distinct (map peer_id b)"
      "\<forall>q\<in>set b. peer_id q \<noteq> rt_local t \<and> bucketIndex p (rt_local t) (peer_id q) = Some i"
    and m: "distinct m" "set m = (set (rt_members t) - ids_at t i) \<union> peer_id ` set b"
  shows "table_ok p (t\<lparr>rt_buckets := (rt_buckets t)[i := b], rt_members := m\<rparr>)" (is "table_ok p ?t")
proof -
  have len: "length (rt_buckets t) = KADEMLIA_ID_BITS" using ok by (simp add: table_ok_def)
  have ids: "ids_at ?t j = (if j = i then peer_id ` set b else ids_at t j)" if "j < KADEMLIA_ID_BITS" for j
    using that i len by (simp add: ids_at_def)
  have "bucket_ok p ?t j" if "j < KADEMLIA_ID_BITS" for j
  proof (cases "j = i")
    case True
    with b i len show ?thesis by (simp add: bucket_ok_def Let_def)
  next
    case False
    with ok that len show ?thesis by (simp add: table_ok_def bucket_ok_def Let_def)
  qed
  moreover have "set m = (\<Union>j<KADEMLIA_ID_BITS. ids_at ?t j)"
  proof -
    have mem: "set (rt_members t) = (\<Union>j<KADEMLIA_ID_BITS. ids_at t j)"
      using ok all_ids[OF len] by (simp add: table_ok_def)
    have disj: "n \<notin> ids_at t j" if "n \<in> ids_at t i" "j < KADEMLIA_ID_BITS" "j \<noteq> i" for n j
      using ids_at_index[OF ok i that(1)] ids_at_index[OF ok that(2), of n] that(3) by auto
    show ?thesis unfolding m(2) mem using i ids disj by (auto split: if_splits)
  qed
  then have "set m = peer_id ` set (concat (rt_buckets ?t))" using all_ids[of ?t] len by simp
  ultimately show ?thesis using ok m(1) len by (simp add: table_ok_def)
qed

lemma upsert_cases:
  assumes "table_ok p t"
  obtains (ignored) "upsert p now q t = (False, t)"
  | (kept) i seen b where "bucketIndex p (rt_local t) (peer_id q) = Some i" "i < KADEMLIA_ID_BITS"
      "peer_id seen = peer_id q" "peer_id q \<noteq> rt_local t"
      "b = filter (\<lambda>r. peer_id r \<noteq> peer_id q) (rt_buckets t ! i) @ [seen]" "length b \<le> rt_k t"
      "upsert p now q t = (True, t\<lparr>rt_buckets := (rt_buckets t)[i := b], rt_members := set_add (peer_id q) (rt_members t)\<rparr>)"
  | (evicted) i seen old b where "bucketIndex p (rt_local t) (peer_id q) = Some i" "i < KADEMLIA_ID_BITS"
      "peer_id seen = peer_id q" "peer_id q \<noteq> rt_local t" "peer_id q \<notin> ids_at t i"
      "rt_buckets t ! i = old # b" "length (rt_buckets t ! i) = rt_k t"
      "upsert p now q t = (True, t\<lparr>rt_buckets := (rt_buckets t)[i := b @ [seen]],
         rt_members := removeAll (peer_id old) (set_add (peer_id q) (rt_members t))\<rparr>)"
proof (cases "peer_id q = [] \<or> peer_id q = rt_local t \<or> bucketIndex p (rt_local t) (peer_id q) = None")
  case True
  then show thesis by (intro ignored) (auto simp: upsert_def)
next
  case False
  then obtain i where i: "bucketIndex p (rt_local t) (peer_id q) = Some i" and loc: "peer_id q \<noteq> [] " "peer_id q \<noteq> rt_local t"
    by auto
  have i256: "i < KADEMLIA_ID_BITS" using bucketIndex_bounds[OF i] by simp
  let ?seen = "q\<lparr>peer_lastSeenAt := (if peer_lastSeenAt q = [] then now else peer_lastSeenAt q)\<rparr>"
  let ?old = "filter (\<lambda>r. peer_id r \<noteq> peer_id q) (rt_buckets t ! i)"
  have bk: "length (rt_buckets t ! i) \<le> rt_k t" "distinct (map peer_id (rt_buckets t ! i))" "1 \<le> rt_k t"
    using assms i256 by (auto simp: table_ok_def bucket_ok_def Let_def)
  show thesis
  proof (cases "length (?old @ [?seen]) > rt_k t")
    case True
    then have "rt_k t \<le> length ?old" by simp
    with bk(1) length_filter_le[of "\<lambda>r. peer_id r \<noteq> peer_id q" "rt_buckets t ! i"]
    have "length ?old = length (rt_buckets t ! i)" and len: "length (rt_buckets t ! i) = rt_k t" by linarith+
    then have all: "\<forall>r\<in>set (rt_buckets t ! i). peer_id r \<noteq> peer_id q"
      using length_filter_less[of _ "rt_buckets t ! i" "\<lambda>r. peer_id r \<noteq> peer_id q"] by auto
    then have old: "?old = rt_buckets t ! i" and new: "peer_id q \<notin> ids_at t i"
      by (auto simp: ids_at_def)
    from len bk(3) obtain o1 b where "rt_buckets t ! i = o1 # b" by (cases "rt_buckets t ! i") auto
    moreover have "upsert p now q t = (True, t\<lparr>rt_buckets := (rt_buckets t)[i := tl (rt_buckets t ! i @ [?seen])],
         rt_members := removeAll (peer_id (hd (rt_buckets t ! i @ [?seen]))) (set_add (peer_id q) (rt_members t))\<rparr>)"
      using i loc len old splice_first_filter[OF bk(2), of "peer_id q"] by (simp add: upsert_def Let_def)
    ultimately show thesis
      using i loc len new i256 by (intro evicted[of i ?seen o1 b]) simp_all
  next
    case False
    with i loc i256 bk(2) show thesis
      by (intro kept[of i ?seen]) (simp_all add: upsert_def Let_def splice_first_filter)
  qed
qed

lemma upsert_ok: "table_ok p t \<Longrightarrow> table_ok p (snd (upsert p now q t))"
proof -
  assume ok: "table_ok p t"
  have bk: "length (rt_buckets t ! i) \<le> rt_k t" "distinct (map peer_id (rt_buckets t ! i))"
    "\<forall>r\<in>set (rt_buckets t ! i). peer_id r \<noteq> rt_local t \<and> bucketIndex p (rt_local t) (peer_id r) = Some i"
    if "i < KADEMLIA_ID_BITS" for i
    using ok that by (auto simp: table_ok_def bucket_ok_def Let_def)
  have mem: "distinct (rt_members t)" "ids_at t i \<subseteq> set (rt_members t)" if "i < KADEMLIA_ID_BITS" for i
    using ok that all_ids[of t] by (auto simp: table_ok_def)
  from ok show ?thesis
  proof (cases rule: upsert_cases[where q = q and now = now])
    case (kept i seen b)
    have "table_ok p (t\<lparr>rt_buckets := (rt_buckets t)[i := b], rt_members := set_add (peer_id q) (rt_members t)\<rparr>)"
      by (rule table_ok_bucket[OF ok \<open>i < KADEMLIA_ID_BITS\<close>])
        (use kept bk[of i] mem[of i] in \<open>auto simp: set_add_def ids_at_def distinct_map intro: inj_on_subset\<close>)
    with kept show ?thesis by simp
  next
    case (evicted i seen old b)
    have "table_ok p (t\<lparr>rt_buckets := (rt_buckets t)[i := b @ [seen]],
         rt_members := removeAll (peer_id old) (set_add (peer_id q) (rt_members t))\<rparr>)"
      by (rule table_ok_bucket[OF ok \<open>i < KADEMLIA_ID_BITS\<close>])
        (use evicted bk[of i] mem[of i] in \<open>auto simp: set_add_def ids_at_def distinct_removeAll\<close>)
    with evicted show ?thesis by simp
  qed (use ok in simp)
qed

lemma remove_ok: "table_ok p t \<Longrightarrow> table_ok p (snd (rt_remove p n t))"
proof -
  assume ok: "table_ok p t"
  show ?thesis
  proof (cases "bucketIndex p (rt_local t) n")
    case (Some i)
    then have i: "i < KADEMLIA_ID_BITS" using bucketIndex_bounds by blast
    let ?b = "filter (\<lambda>q. peer_id q \<noteq> n) (rt_buckets t ! i)"
    let ?m = "if length ?b \<noteq> length (rt_buckets t ! i) then removeAll n (rt_members t) else rt_members t"
    have bk: "length (rt_buckets t ! i) \<le> rt_k t" "distinct (map peer_id (rt_buckets t ! i))"
      "\<forall>r\<in>set (rt_buckets t ! i). peer_id r \<noteq> rt_local t \<and> bucketIndex p (rt_local t) (peer_id r) = Some i"
      using ok i by (auto simp: table_ok_def bucket_ok_def Let_def)
    have mem: "distinct (rt_members t)" "ids_at t i \<subseteq> set (rt_members t)" using ok i all_ids[of t] by (auto simp: table_ok_def)
    have elsewhere: "n \<in> set (rt_members t) \<Longrightarrow> n \<in> ids_at t i"
      using ok all_ids[of t] ids_at_index[OF ok, of _ n] Some by (auto simp: table_ok_def)
    have same: "length ?b = length (rt_buckets t ! i) \<Longrightarrow> n \<notin> ids_at t i"
      using length_filter_less[of _ "rt_buckets t ! i" "\<lambda>q. peer_id q \<noteq> n"] by (auto simp: ids_at_def)
    have "table_ok p (t\<lparr>rt_buckets := (rt_buckets t)[i := ?b], rt_members := ?m\<rparr>)"
    proof (rule table_ok_bucket[OF ok i])
      show "length ?b \<le> rt_k t" using bk(1) length_filter_le le_trans by blast
      show "distinct (map peer_id ?b)" using bk(2) by (rule distinct_map_filter)
      show "set ?m = (set (rt_members t) - ids_at t i) \<union> peer_id ` set ?b"
        using mem(2) elsewhere same by (auto simp: ids_at_def)
    qed (use bk mem in \<open>auto simp: distinct_removeAll\<close>)
    moreover have "snd (rt_remove p n t) = t\<lparr>rt_buckets := (rt_buckets t)[i := ?b], rt_members := ?m\<rparr>"
      using Some by (simp add: rt_remove_def Let_def)
    ultimately show ?thesis by simp
  qed (use ok in \<open>simp add: rt_remove_def\<close>)
qed

lemma routing_table_new_ok: "routing_table_new l k = Inr t \<Longrightarrow> table_ok p t"
  by (auto simp: routing_table_new_def res_simps table_ok_def bucket_ok_def int_of_def le_nat_iff le_floor_iff)

text \<open>
  C19. From a table just made, any sequence of upserts and removals leaves a table in which every
  bucket holds at most \<^verbatim>\<open>k\<close> peers, each exactly in the bucket of its XOR distance from the local node
  and only once, never the local node itself, and in which the member set answers exactly what the
  buckets hold, so \<^verbatim>\<open>size\<close> is the number of peers and stays within 256 times \<^verbatim>\<open>k\<close>.
\<close>

theorem routing_table_invariant:
  assumes "routing_table_new l k = Inr t0" and t: "t = fold (rt_step p) ops t0"
  shows "table_ok p t \<and> (rt_has t n \<longleftrightarrow> (\<exists>q\<in>set (snapshot_peers t). peer_id q = n)) \<and>
    rt_size t = rs_routingSize (routingSnapshot t) \<and> rt_size t \<le> 256 * rt_k t"
proof -
  have step: "table_ok p u \<Longrightarrow> table_ok p (rt_step p a u)" for a u
    by (cases a) (simp_all add: upsert_ok remove_ok)
  have "table_ok p t0 \<Longrightarrow> table_ok p (fold (rt_step p) ops t0)"
    by (induction ops arbitrary: t0) (simp_all add: step)
  with assms routing_table_new_ok have ok: "table_ok p t" by blast
  have "rt_has t n \<longleftrightarrow> (\<exists>q\<in>set (snapshot_peers t). peer_id q = n)"
    using ok by (auto simp: rt_has_def snapshot_peers_def table_ok_def)
  with ok table_ok_size[OF ok] show ?thesis by (simp add: routingSnapshot_def)
qed

theorem routing_table_invariant_witness:
  "\<exists>t0. routing_table_new ''me'' (JNum 20) = Inr t0 \<and>
     table_ok sample_platform (fold (rt_step sample_platform)
       [Upsert ''t'' \<lparr>peer_id = ''a'', peer_endpoints = JArr [], peer_lastSeenAt = [], peer_extra = []\<rparr>, Remove ''b''] t0)"
proof -
  obtain t0 where t0: "routing_table_new ''me'' (JNum 20) = Inr t0"
    by (simp add: routing_table_new_def)
  with routing_table_invariant[OF t0 refl] show ?thesis by blast
qed

text \<open>
  An accepted upsert makes the peer a member and loses at most one other: nothing is lost unless
  the peer is new and its bucket was full, and then exactly the peer that was at the front of that
  bucket, the one seen least recently, leaves the member set.
\<close>

theorem upsert_effect:
  assumes ok: "table_ok p t" and up: "upsert p now q t = (True, t')"
  shows "rt_has t' (peer_id q) \<and>
    (\<exists>lost. set (rt_members t') = (set (rt_members t) \<union> {peer_id q}) - lost \<and>
      (lost = {} \<or> (\<exists>i. bucketIndex p (rt_local t) (peer_id q) = Some i \<and> \<not> rt_has t (peer_id q) \<and>
         length (rt_buckets t ! i) = rt_k t \<and> lost = {peer_id (hd (rt_buckets t ! i))})))"
  using ok
proof (cases rule: upsert_cases[where q = q and now = now])
  case (kept i seen b)
  with up show ?thesis by (auto simp: rt_has_def set_add_def)
next
  case (evicted i seen old b)
  have "\<not> rt_has t (peer_id q)"
    using ok evicted all_ids[of t] ids_at_index[OF ok, of _ "peer_id q"]
    by (auto simp: rt_has_def table_ok_def)
  moreover have "peer_id old \<noteq> peer_id q" using evicted by (auto simp: ids_at_def)
  ultimately show ?thesis using up evicted by (auto simp: rt_has_def set_add_def)
qed (use up in simp)

theorem upsert_effect_witness:
  "rt_has (snd (upsert sample_platform ''t'' \<lparr>peer_id = ''a'', peer_endpoints = JArr [], peer_lastSeenAt = [], peer_extra = []\<rparr>
     \<lparr>rt_local = ''b'', rt_k = 20, rt_buckets = replicate KADEMLIA_ID_BITS [], rt_members = []\<rparr>)) ''a''"
proof -
  let ?q = "\<lparr>peer_id = ''a'', peer_endpoints = JArr [], peer_lastSeenAt = [], peer_extra = []\<rparr> :: dht_peer"
  let ?t = "\<lparr>rt_local = ''b'', rt_k = 20, rt_buckets = replicate KADEMLIA_ID_BITS [], rt_members = []\<rparr> :: routing_table"
  have ok: "table_ok sample_platform ?t" by (simp add: table_ok_def bucket_ok_def)
  have "xorDistance sample_platform ''b'' ''a'' \<noteq> 0" by code_simp
  then have "fst (upsert sample_platform ''t'' ?q ?t)"
    by (simp add: upsert_def bucketIndex_def Let_def)
  then obtain t' where up: "upsert sample_platform ''t'' ?q ?t = (True, t')"
    by (cases "upsert sample_platform ''t'' ?q ?t") auto
  from upsert_effect[OF ok this] up show ?thesis by simp
qed

section \<open>The closest peers\<close>

lemma consistent_closest_cmp: "consistent_cmp (lcmp p) \<Longrightarrow> consistent_cmp (closest_cmp p target)"
  by (rule consistent_cmp_lex[where f = "\<lambda>a. xorDistance p (peer_id a) target" and g = peer_id])
    (auto simp: closest_cmp_def Let_def)

text \<open>
  The closest-peer query answers with the peers nearest to its target by XOR distance: as many
  as asked for, or all there are; in order of distance; and no peer of the table that was left out
  is nearer than one that was returned. Assumed of the platform: \<^verbatim>\<open>localeCompare\<close>, which breaks ties,
  is a consistent comparator.
\<close>

theorem closest_nearest:
  assumes "consistent_cmp (lcmp p)"
  shows "length (closest p target n t) = min n (length (snapshot_peers t)) \<and>
    (\<exists>rest. mset (snapshot_peers t) = mset (closest p target n t @ rest) \<and>
      sorted_wrt (\<lambda>a b. xorDistance p (peer_id a) target \<le> xorDistance p (peer_id b) target)
        (closest p target n t @ rest))"
proof -
  let ?s = "js_sort (closest_cmp p target) (concat (rt_buckets t))"
  have "sorted_wrt (\<lambda>a b. closest_cmp p target a b \<le> 0) ?s"
    by (rule sorted_js_sort[OF consistent_closest_cmp[OF assms]])
  then have "sorted_wrt (\<lambda>a b. xorDistance p (peer_id a) target \<le> xorDistance p (peer_id b) target) ?s"
    by (rule sorted_wrt_mono_rel[rotated]) (auto simp: closest_cmp_def Let_def split: if_splits)
  moreover have c: "closest p target n t = take n ?s" by (simp add: closest_def)
  ultimately show ?thesis
    unfolding c snapshot_peers_def
    by (intro conjI exI[of _ "drop n ?s"]) (simp_all only: append_take_drop_id length_take length_js_sort mset_js_sort min.commute)
qed

theorem closest_nearest_witness:
  "length (closest sample_platform ''x'' 1
     \<lparr>rt_local = ''b'', rt_k = 20, rt_buckets = [[\<lparr>peer_id = ''a'', peer_endpoints = JNull, peer_lastSeenAt = [], peer_extra = []\<rparr>]],
       rt_members = [''a'']\<rparr>) = 1"
  using closest_nearest[of sample_platform] by (simp add: consistent_cmp_ascii snapshot_peers_def)

end
