(* ===== verification/Dht_Records.thy ===== *)
theory Dht_Records
  imports Kademlia
begin

text \<open>
  Signed DHT records and the record store of \<^verbatim>\<open>network/dht/kademlia.js\<close>: creation, verification
  with the module's memo of verified signatures, and the store's \<^verbatim>\<open>put\<close>, \<^verbatim>\<open>get\<close>, \<^verbatim>\<open>snapshot\<close>,
  \<^verbatim>\<open>restore\<close> and \<^verbatim>\<open>sweep\<close>. Shown: a created record verifies; whatever the memo lets through was
  signed by the publisher's key over the same content; a slot never goes back to an older sequence
  nor to another record of the same sequence; a sweep leaves only records that verify.
\<close>

section \<open>Records\<close>

definition KADEMLIA_PROTOCOL :: string where
  "KADEMLIA_PROTOCOL = ''truyn-kademlia-v1''"

definition record_key_text :: "platform \<Rightarrow> jsval \<Rightarrow> jsval \<Rightarrow> string" where
  "record_key_text p ns key = to_string p ns @ '':'' @ to_string p key"

definition createDhtRecord ::
  "platform \<Rightarrow> identity \<Rightarrow> jsval \<Rightarrow> jsval \<Rightarrow> jsval \<Rightarrow> jsval \<Rightarrow> jsval \<Rightarrow> jsval \<Rightarrow> jsval result" where
  "createDhtRecord p i ns key val sequence ttlMs issuedAt =
     rbind (require_identity p ''DHT publisher identity is required'' ''DHT publisher identity mismatch'' i) (\<lambda>_.
     if \<not> truthy ns \<or> \<not> truthy key then Inl (Err ''DHT namespace and key are required'')
     else if \<not> is_integer sequence \<or> num_of sequence < 1 then Inl (Err ''DHT sequence must be >= 1'')
     else if \<not> is_integer ttlMs \<or> num_of ttlMs < 1 then Inl (Err ''DHT ttlMs must be >= 1'')
     else (case date_parse p (to_string p issuedAt) of
         None \<Rightarrow> Inl (Err ''Invalid time value'')
       | Some t \<Rightarrow>
           rbind (digest p val) (\<lambda>valueDigest.
           let body = [(''protocol'', JStr KADEMLIA_PROTOCOL), (''namespace'', ns), (''key'', key),
                 (''keyHash'', JStr (dhtId p (record_key_text p ns key))), (''value'', val),
                 (''valueDigest'', JStr valueDigest), (''publisherNodeId'', nodeId i), (''sequence'', sequence),
                 (''issuedAt'', issuedAt), (''expiresAt'', JStr (date_iso p (t + int_of ttlMs)))]
           in rbind (hash_value p (JObj body)) (\<lambda>h.
              let signed = (''recordId'', JStr (''truyn:dht:'' @ h)) # body in
              rbind (signValue p (JObj signed) (privateKeyPem i)) (\<lambda>s.
                Inr (JObj (signed @ [(''publicKey'', publicKeyPem i), (''signature'', JStr s)])))))))"

definition VERIFIED_DHT_SIGNATURE_LIMIT :: nat where
  "VERIFIED_DHT_SIGNATURE_LIMIT = 8192"

definition dht_signed :: "jsval \<Rightarrow> jsval" where
  "dht_signed r = without [''publicKey'', ''signature''] r"

definition dht_body :: "jsval \<Rightarrow> jsval" where
  "dht_body r = without [''recordId''] (dht_signed r)"

definition signatureKey :: "platform \<Rightarrow> jsval \<Rightarrow> string" where
  "signatureKey p r = to_string p (get r ''recordId'') @ [CHR 0x0A] @ to_string p (get r ''publicKey'') @
     [CHR 0x0A] @ to_string p (get r ''signature'')"

text \<open>The checks of \<^verbatim>\<open>verifyDhtRecord\<close> up to the signature; a thrown error's message is the reason.\<close>

definition dht_content :: "platform \<Rightarrow> jsval \<Rightarrow> unit verdict" where
  "dht_content p r =
     (if \<not> truthy (oget r ''recordId'') \<or> get r ''protocol'' \<noteq> JStr KADEMLIA_PROTOCOL \<or>
         \<not> truthy (get r ''publicKey'') \<or> \<not> truthy (get r ''signature'') then Inl ''dht_record_missing''
      else (case nodeIdFromPublicKey p (get r ''publicKey'') of Inl e \<Rightarrow> Inl (message e)
      | Inr n \<Rightarrow> if JStr n \<noteq> get r ''publisherNodeId'' then Inl ''dht_publisher_key_mismatch''
      else if get r ''keyHash'' \<noteq> JStr (dhtId p (record_key_text p (get r ''namespace'') (get r ''key'')))
        then Inl ''dht_key_hash_mismatch''
      else (case digest p (get r ''value'') of Inl e \<Rightarrow> Inl (message e)
      | Inr d \<Rightarrow> if JStr d \<noteq> get r ''valueDigest'' then Inl ''dht_value_digest_mismatch''
      else (case hash_value p (dht_body r) of Inl e \<Rightarrow> Inl (message e)
      | Inr h \<Rightarrow> if get r ''recordId'' \<noteq> JStr (''truyn:dht:'' @ h) then Inl ''dht_record_id_mismatch''
      else Inr ()))))"

definition dht_times :: "platform \<Rightarrow> int \<Rightarrow> bool \<Rightarrow> jsval \<Rightarrow> string verdict" where
  "dht_times p now allowExpired r =
     (case (date_parse p (to_string p (get r ''issuedAt'')), date_parse p (to_string p (get r ''expiresAt''))) of
        (Some issued, Some expires) \<Rightarrow>
          (if expires \<le> issued then Inl ''dht_record_time''
           else if \<not> allowExpired \<and> now \<ge> expires then Inl ''dht_record_expired''
           else Inr (str_of (get r ''recordId'')))
      | _ \<Rightarrow> Inl ''dht_record_time'')"

definition verifyDhtRecord :: "platform \<Rightarrow> int \<Rightarrow> bool \<Rightarrow> string list \<Rightarrow> jsval \<Rightarrow> string verdict \<times> string list" where
  "verifyDhtRecord p now allowExpired seen r =
     (case dht_content p r of Inl e \<Rightarrow> (Inl e, seen)
      | Inr _ \<Rightarrow>
         if signatureKey p r \<in> set seen then (dht_times p now allowExpired r, seen)
         else (case verifyValue p (dht_signed r) (get r ''signature'') (get r ''publicKey'') of
             Inl e \<Rightarrow> (Inl (message e), seen)
           | Inr False \<Rightarrow> (Inl ''dht_record_signature'', seen)
           | Inr True \<Rightarrow> (dht_times p now allowExpired r,
               (if length seen \<ge> VERIFIED_DHT_SIGNATURE_LIMIT then drop 1 seen else seen) @ [signatureKey p r])))"

section \<open>The record store\<close>

text \<open>The store, the module's signature memo, and how often \<^verbatim>\<open>onChange\<close> was called.\<close>

record dht_store =
  ds_records :: "(string, jsval) jsmap"
  ds_seen :: "string list"
  ds_changes :: nat

definition slot_key :: "platform \<Rightarrow> jsval \<Rightarrow> string" where
  "slot_key p r = to_string p (get r ''namespace'') @ '':'' @ to_string p (get r ''key'') @ '':'' @
     to_string p (get r ''publisherNodeId'')"

definition dht_put ::
  "platform \<Rightarrow> int \<Rightarrow> bool \<Rightarrow> bool \<Rightarrow> jsval \<Rightarrow> dht_store \<Rightarrow> string verdict \<times> dht_store" where
  "dht_put p now allowExpired notify r st =
     (case verifyDhtRecord p now allowExpired (ds_seen st) r of
        (Inl e, seen) \<Rightarrow> (Inl e, st\<lparr>ds_seen := seen\<rparr>)
      | (Inr rid, seen) \<Rightarrow>
         (let st' = st\<lparr>ds_seen := seen\<rparr>; key = slot_key p r;
              accept = (Inr rid, st'\<lparr>ds_records := jmap_set key r (ds_records st'),
                 ds_changes := ds_changes st' + (if notify then 1 else 0)\<rparr>)
          in case jmap_get (ds_records st') key of
               None \<Rightarrow> accept
             | Some existing \<Rightarrow>
                 if js_less p (get r ''sequence'') (get existing ''sequence'') then (Inl ''dht_older_sequence'', st')
                 else if strict_eq (get existing ''sequence'') (get r ''sequence'') \<and>
                         get existing ''recordId'' \<noteq> get r ''recordId'' then (Inl ''dht_equivocation'', st')
                 else accept))"

text \<open>A \<^verbatim>\<open>filter\<close> whose predicate verifies, threading the memo.\<close>

fun verified_records :: "platform \<Rightarrow> int \<Rightarrow> string list \<Rightarrow> jsval list \<Rightarrow> jsval list \<times> string list" where
  "verified_records p now seen [] = ([], seen)"
| "verified_records p now seen (r # rs) =
     (let (v, seen') = verifyDhtRecord p now False seen r; (out, seen'') = verified_records p now seen' rs
      in (case v of Inr _ \<Rightarrow> r # out | Inl _ \<Rightarrow> out, seen''))"

definition seq_cmp :: "platform \<Rightarrow> jsval \<Rightarrow> jsval \<Rightarrow> int" where
  "seq_cmp p a b = or_else
     (let x = to_number p (get a ''sequence''); y = to_number p (get b ''sequence'') in
      if num_less x y then 1 else if num_less y x then -1 else 0)
     (lcmp p (str_of (get a ''publisherNodeId'')) (str_of (get b ''publisherNodeId'')))"

definition dht_get :: "platform \<Rightarrow> jsval \<Rightarrow> jsval \<Rightarrow> int \<Rightarrow> dht_store \<Rightarrow> jsval list \<times> dht_store" where
  "dht_get p ns key now st =
     (let (rs, seen) = verified_records p now (ds_seen st)
        (filter (\<lambda>r. strict_eq (get r ''namespace'') ns \<and> strict_eq (get r ''key'') key) (map snd (ds_records st)))
      in (js_sort (seq_cmp p) rs, st\<lparr>ds_seen := seen\<rparr>))"

definition dht_snapshot :: "platform \<Rightarrow> int \<Rightarrow> dht_store \<Rightarrow> jsval list \<times> dht_store" where
  "dht_snapshot p now st =
     (let (rs, seen) = verified_records p now (ds_seen st) (map snd (ds_records st)) in (rs, st\<lparr>ds_seen := seen\<rparr>))"

fun dht_restore :: "platform \<Rightarrow> int \<Rightarrow> bool \<Rightarrow> jsval list \<Rightarrow> dht_store \<Rightarrow> nat \<times> dht_store" where
  "dht_restore p now allowExpired [] st = (0, st)"
| "dht_restore p now allowExpired (r # rs) st =
     (let (v, st') = dht_put p now allowExpired False r st; (n, st'') = dht_restore p now allowExpired rs st'
      in (n + (case v of Inr _ \<Rightarrow> 1 | Inl _ \<Rightarrow> 0), st''))"

fun sweep_entries :: "platform \<Rightarrow> int \<Rightarrow> string list \<Rightarrow> (string, jsval) jsmap \<Rightarrow> (string, jsval) jsmap \<times> string list" where
  "sweep_entries p now seen [] = ([], seen)"
| "sweep_entries p now seen ((k, r) # m) =
     (let (v, seen') = verifyDhtRecord p now False seen r; (kept, seen'') = sweep_entries p now seen' m
      in (case v of Inr _ \<Rightarrow> (k, r) # kept | Inl _ \<Rightarrow> kept, seen''))"

definition dht_sweep :: "platform \<Rightarrow> int \<Rightarrow> bool \<Rightarrow> dht_store \<Rightarrow> nat \<times> dht_store" where
  "dht_sweep p now notify st =
     (let (kept, seen) = sweep_entries p now (ds_seen st) (ds_records st);
          removed = length (ds_records st) - length kept
      in (removed, st\<lparr>ds_records := kept, ds_seen := seen,
           ds_changes := ds_changes st + (if removed > 0 \<and> notify then 1 else 0)\<rparr>))"

section \<open>What the signature memo lets through\<close>

definition signed_content :: "platform \<Rightarrow> jsval \<Rightarrow> bool" where
  "signed_content p r \<longleftrightarrow> dht_content p r = Inr () \<and>
     verifyValue p (dht_signed r) (get r ''signature'') (get r ''publicKey'') = Inr True"

definition seen_ok :: "platform \<Rightarrow> string list \<Rightarrow> bool" where
  "seen_ok p seen \<longleftrightarrow> (\<forall>s\<in>set seen. \<exists>r. s = signatureKey p r \<and> signed_content p r \<and> distinct_names r)"

lemma dht_content_id:
  assumes "dht_content p r = Inr ()"
  obtains h t n where "get r ''recordId'' = JStr (''truyn:dht:'' @ sha256 p t)" "canonicalize p (dht_body r) = Inr t"
    "nodeIdFromPublicKey p (get r ''publicKey'') = Inr n" "get r ''publisherNodeId'' = JStr n"
  using assms unfolding dht_content_def hash_value_def
  by (auto simp: res_simps split: if_splits sum.splits)

lemma signatureKey_id:
  assumes "digest_law p" "get r ''recordId'' = JStr (''truyn:dht:'' @ sha256 p t)"
  shows "takeWhile (\<lambda>c. c \<noteq> CHR 0x0A) (signatureKey p r) = ''truyn:dht:'' @ sha256 p t"
proof -
  have "\<not> is_hex (CHR 0x0A)" by (simp add: is_hex_def is_digit_def)
  then have "\<forall>c\<in>set (sha256 p t). c \<noteq> CHR 0x0A"
    using assms(1) by (auto simp: digest_law_def list_all_iff)
  then show ?thesis using assms(2) by (simp add: signatureKey_def takeWhile_append2)
qed

lemma same_key_same_content:
  assumes laws: "digest_law p" "number_texts p" and d: "distinct_names r" "distinct_names r'"
    and c: "dht_content p r = Inr ()" "dht_content p r' = Inr ()" and k: "signatureKey p r = signatureKey p r'"
  shows "get r' ''recordId'' = get r ''recordId'' \<and> get r' ''publisherNodeId'' = get r ''publisherNodeId'' \<and>
    normalize (dht_body r') = normalize (dht_body r)"
proof -
  from c obtain t t' n where t: "get r ''recordId'' = JStr (''truyn:dht:'' @ sha256 p t)" "canonicalize p (dht_body r) = Inr t"
    and t': "get r' ''recordId'' = JStr (''truyn:dht:'' @ sha256 p t')" "canonicalize p (dht_body r') = Inr t'"
    and n: "get r ''publisherNodeId'' = JStr n"
    by (metis dht_content_id)
  from signatureKey_id[OF laws(1) t(1)] signatureKey_id[OF laws(1) t'(1)] k have "sha256 p t = sha256 p t'" by simp
  then have "t = t'" using laws(1) by (auto simp: digest_law_def dest: injD)
  with canonicalize_inj[OF laws(2) t(2)] t'(2) have eq: "normalize (dht_body r) = normalize (dht_body r')" by simp
  have field: "get (normalize (dht_body x)) ''publisherNodeId'' = normalize (get x ''publisherNodeId'')"
    if "distinct_names x" for x
    using that by (simp add: get_normalize dht_body_def dht_signed_def distinct_names_without)
  have "normalize (get r' ''publisherNodeId'') = JStr n"
    using field[OF d(1)] field[OF d(2)] eq n by simp
  then show ?thesis using n t t' \<open>t = t'\<close> eq by simp
qed

lemma verifyDhtRecord_authentic:
  assumes laws: "digest_law p" "number_texts p" and ok: "seen_ok p seen" and d: "distinct_names r"
    and v: "verifyDhtRecord p now allow seen r = (v, seen')"
  shows "seen_ok p seen'"
    and "v = Inr rid \<Longrightarrow> \<exists>r'. signed_content p r' \<and> get r' ''recordId'' = get r ''recordId'' \<and>
      get r' ''publisherNodeId'' = get r ''publisherNodeId'' \<and> normalize (dht_body r') = normalize (dht_body r)"
proof -
  show "seen_ok p seen'"
    using ok v d unfolding verifyDhtRecord_def seen_ok_def
    by (fastforce simp: signed_content_def dest: in_set_dropD split: sum.splits if_splits bool.splits)
  assume acc: "v = Inr rid"
  with v have c: "dht_content p r = Inr ()" by (auto simp: verifyDhtRecord_def split: sum.splits)
  show "\<exists>r'. signed_content p r' \<and> get r' ''recordId'' = get r ''recordId'' \<and>
      get r' ''publisherNodeId'' = get r ''publisherNodeId'' \<and> normalize (dht_body r') = normalize (dht_body r)"
  proof (cases "signatureKey p r \<in> set seen")
    case True
    with ok obtain r' where r': "signatureKey p r = signatureKey p r'" "signed_content p r'" "distinct_names r'"
      unfolding seen_ok_def by blast
    with same_key_same_content[OF laws d r'(3) c] show ?thesis by (auto simp: signed_content_def)
  next
    case False
    with v acc c have "signed_content p r"
      by (auto simp: verifyDhtRecord_def signed_content_def split: sum.splits bool.splits)
    then show ?thesis by blast
  qed
qed

text \<open>The memo after a sequence of verifications.\<close>

fun dht_memo_run :: "platform \<Rightarrow> (int \<times> bool \<times> jsval) list \<Rightarrow> string list \<Rightarrow> string list" where
  "dht_memo_run p [] seen = seen"
| "dht_memo_run p ((now, allow, r) # qs) seen = dht_memo_run p qs (snd (verifyDhtRecord p now allow seen r))"

lemma dht_memo_run_ok:
  "digest_law p \<Longrightarrow> number_texts p \<Longrightarrow> \<forall>(now, allow, r)\<in>set qs. distinct_names r \<Longrightarrow> seen_ok p seen \<Longrightarrow>
     seen_ok p (dht_memo_run p qs seen)"
proof (induction qs arbitrary: seen)
  case (Cons q qs)
  obtain now allow r where q: "q = (now, allow, r)" by (cases q)
  obtain v s where v: "verifyDhtRecord p now allow seen r = (v, s)" by fastforce
  have "seen_ok p s"
    by (rule verifyDhtRecord_authentic(1)[OF _ _ _ _ v]) (use Cons.prems q in auto)
  with Cons q v show ?case by simp
qed simp

text \<open>
  The signature memo is sound. After any sequence of verifications on the module's memo, a
  record the verifier accepts, from the memo or by checking, has a content (identifier, publisher
  and every other signed field, up to the order of members) that was signed with a key of the
  publisher it names. A record whose identifier, key or content was changed cannot ride on an
  earlier verification. Assumed of the platform: digests do not collide and are hexadecimal.
\<close>

theorem dht_memo_sound:
  assumes laws: "digest_law p" "number_texts p" and names: "\<forall>(now, allow, r)\<in>set qs. distinct_names r" "distinct_names r"
    and acc: "verifyDhtRecord p now allow (dht_memo_run p qs []) r = (Inr rid, seen')"
  shows "\<exists>r' n. verifyValue p (dht_signed r') (get r' ''signature'') (get r' ''publicKey'') = Inr True \<and>
    nodeIdFromPublicKey p (get r' ''publicKey'') = Inr n \<and> get r ''publisherNodeId'' = JStr n \<and>
    get r' ''recordId'' = get r ''recordId'' \<and> normalize (dht_body r') = normalize (dht_body r)"
proof -
  have "seen_ok p (dht_memo_run p qs [])"
    by (rule dht_memo_run_ok[OF laws names(1)]) (simp add: seen_ok_def)
  from verifyDhtRecord_authentic(2)[OF laws this names(2) acc refl]
  obtain r' where r': "signed_content p r'" "get r' ''recordId'' = get r ''recordId''"
    "get r' ''publisherNodeId'' = get r ''publisherNodeId''" "normalize (dht_body r') = normalize (dht_body r)" by blast
  then have "dht_content p r' = Inr ()" by (simp add: signed_content_def)
  then show ?thesis using r' by (elim dht_content_id) (auto simp: signed_content_def)
qed

section \<open>Creation\<close>

lemma created_record_accepted:
  assumes date: "date_law p" and keys: "key_pair p (privateKeyPem i) (publicKeyPem i)"
    and r: "createDhtRecord p i ns key val sequence ttlMs issuedAt = Inr r"
    and fresh: "date_parse p (to_string p issuedAt) = Some t" "now < t + int_of ttlMs"
  shows "\<exists>rid seen'. verifyDhtRecord p now False [] r = (Inr rid, seen')"
proof -
  from r obtain n where i: "nodeIdFromPublicKey p (publicKeyPem i) = Inr n" "nodeId i = JStr n" "truthy (publicKeyPem i)"
    by (auto simp: createDhtRecord_def require_identity_def res_simps)
  from r have ttl: "is_integer ttlMs" "num_of ttlMs \<ge> 1" by (auto simp: createDhtRecord_def res_simps)
  then obtain m where m: "ttlMs = JNum (of_int m)" "1 \<le> m" by (elim is_integer_obtain) simp
  let ?body = "\<lambda>vd. [(''protocol'', JStr KADEMLIA_PROTOCOL), (''namespace'', ns), (''key'', key),
       (''keyHash'', JStr (dhtId p (record_key_text p ns key))), (''value'', val),
       (''valueDigest'', JStr vd), (''publisherNodeId'', nodeId i), (''sequence'', sequence),
       (''issuedAt'', issuedAt), (''expiresAt'', JStr (date_iso p (t + int_of ttlMs)))]"
  from r fresh(1) obtain vd h s where vd: "digest p val = Inr vd" and h: "hash_value p (JObj (?body vd)) = Inr h"
    and s: "signValue p (JObj ((''recordId'', JStr (''truyn:dht:'' @ h)) # ?body vd)) (privateKeyPem i) = Inr s"
    and rr: "r = JObj ((''recordId'', JStr (''truyn:dht:'' @ h)) # ?body vd @ [(''publicKey'', publicKeyPem i), (''signature'', JStr s)])"
    by (auto simp: createDhtRecord_def res_simps Let_def)
  from keys s obtain bs where bs: "bytes bs" "length bs = 64" "s = b64_text bs"
    and ok: "verifyValue p (JObj ((''recordId'', JStr (''truyn:dht:'' @ h)) # ?body vd)) (JStr s) (publicKeyPem i) = Inr True"
    by (rule signValue_verifies)
  have "s \<noteq> []" using signature_text_nonblank[of s] signature_text_b64 bs by (auto simp: nonblank_def trim_def)
  then have content: "dht_content p r = Inr ()"
    using i vd h unfolding dht_content_def rr by (simp add: oget_def dht_body_def dht_signed_def)
  have "verifyValue p (dht_signed r) (get r ''signature'') (get r ''publicKey'') = Inr True"
    using ok unfolding rr by (simp add: dht_signed_def)
  moreover have "dht_times p now False r = Inr (str_of (get r ''recordId''))"
    using date fresh m unfolding rr by (simp add: dht_times_def date_law_def)
  ultimately show ?thesis using content by (simp add: verifyDhtRecord_def)
qed

text \<open>
  A record made by \<^verbatim>\<open>createDhtRecord\<close> is accepted by a verifier with an empty memo at every instant
  before it expires, and refused as expired from that instant on. Assumed of the platform: ISO texts
  parse back, the publisher's keys are an Ed25519 pair.
\<close>

theorem createDhtRecord_verifies:
  assumes "date_law p" "key_pair p (privateKeyPem i) (publicKeyPem i)"
    "createDhtRecord p i ns key val sequence ttlMs issuedAt = Inr r"
    "date_parse p (to_string p issuedAt) = Some t"
  shows "(now < t + int_of ttlMs \<longleftrightarrow> (\<exists>rid. fst (verifyDhtRecord p now False [] r) = Inr rid)) \<and>
    (now \<ge> t + int_of ttlMs \<longleftrightarrow> fst (verifyDhtRecord p now False [] r) = Inl ''dht_record_expired'')"
proof -
  have fresh: "\<exists>rid. fst (verifyDhtRecord p now False [] r) = Inr rid" if "now < t + int_of ttlMs" for now
    using created_record_accepted[OF assms that] by fastforce
  let ?past = "t + int_of ttlMs - 1"
  from fresh[of ?past] have c: "dht_content p r = Inr ()"
    and v: "verifyValue p (dht_signed r) (get r ''signature'') (get r ''publicKey'') = Inr True"
    and iss: "\<exists>a. date_parse p (to_string p (get r ''issuedAt'')) = Some a"
    and late: "\<And>a. dht_times p ?past False r = Inl a \<Longrightarrow> False"
    by (auto simp: verifyDhtRecord_def dht_times_def split: sum.splits bool.splits option.splits)
  from assms(3,4) obtain h vd s where "get r ''expiresAt'' = JStr (date_iso p (t + int_of ttlMs))"
    by (auto simp: createDhtRecord_def res_simps Let_def)
  with assms(1) have exp: "date_parse p (to_string p (get r ''expiresAt'')) = Some (t + int_of ttlMs)"
    by (simp add: date_law_def)
  have "fst (verifyDhtRecord p now False [] r) = Inl ''dht_record_expired''" if "now \<ge> t + int_of ttlMs"
    using c v iss late exp that by (auto simp: verifyDhtRecord_def dht_times_def split: if_splits)
  with fresh[of now] show ?thesis by (cases "now < t + int_of ttlMs") auto
qed

definition sample_identity :: identity where
  "sample_identity = \<lparr>nodeId = JStr ''truyn:node:4b'', publicKeyPem = JStr ''K'', privateKeyPem = JStr ''S''\<rparr>"

lemma sample_identity_sel [simp]:
  "nodeId sample_identity = JStr ''truyn:node:4b''" "publicKeyPem sample_identity = JStr ''K''"
  "privateKeyPem sample_identity = JStr ''S''"
  by (simp_all add: sample_identity_def)

lemma sample_node_id: "nodeIdFromPublicKey sample_platform (JStr ''K'') = Inr ''truyn:node:4b''"
  by code_simp

lemma sample_require_identity: "require_identity sample_platform a b sample_identity = Inr ()"
  by (simp add: require_identity_def sample_node_id)

lemma sample_keys: "key_pair sample_platform (privateKeyPem sample_identity) (publicKeyPem sample_identity)"
  by (rule sample_key_pair)

lemma sample_record:
  obtains r where "createDhtRecord sample_platform sample_identity (JStr ''n'') (JStr ''k'') JNull (JNum 1) (JNum 5)
      (JStr sample_iso) = Inr r" "distinct_names r"
proof -
  let ?canon = "\<lambda>v. assertCanonicalJsonValue v = Inr ()"
  obtain vd where vd: "digest sample_platform JNull = Inr vd"
    using canonicalize_total[of JNull sample_platform] by (auto simp: digest_def)
  let ?body = "[(''protocol'', JStr KADEMLIA_PROTOCOL), (''namespace'', JStr ''n''), (''key'', JStr ''k''),
       (''keyHash'', JStr (dhtId sample_platform (record_key_text sample_platform (JStr ''n'') (JStr ''k'')))), (''value'', JNull),
       (''valueDigest'', JStr vd), (''publisherNodeId'', nodeId sample_identity), (''sequence'', JNum 1),
       (''issuedAt'', JStr sample_iso), (''expiresAt'', JStr (sample_date_iso (sample_now + 5)))]"
  have b: "?canon (JObj ?body)" by simp
  then obtain h where h: "hash_value sample_platform (JObj ?body) = Inr h"
    using canonicalize_total[of "JObj ?body" sample_platform] by (auto simp: hash_value_def)
  have "?canon (JObj ((''recordId'', JStr (''truyn:dht:'' @ h)) # ?body))" using b by simp
  then obtain s where s: "signValue sample_platform (JObj ((''recordId'', JStr (''truyn:dht:'' @ h)) # ?body))
      (privateKeyPem sample_identity) = Inr s"
    using signValue_total[OF sample_keys] by blast
  have "date_parse sample_platform sample_iso = Some sample_now" by (simp add: sample_date_parse_def)
  with vd h s show thesis
    by (intro that) (auto simp: createDhtRecord_def sample_require_identity Let_def)
qed

lemmas sample_laws = sample_digest_law sample_number_texts sample_date_law

theorem createDhtRecord_verifies_witness:
  "\<exists>r. fst (verifyDhtRecord sample_platform (sample_now + 5) False [] r) = Inl ''dht_record_expired''"
proof -
  obtain r where r: "createDhtRecord sample_platform sample_identity (JStr ''n'') (JStr ''k'') JNull (JNum 1) (JNum 5)
      (JStr sample_iso) = Inr r" by (rule sample_record)
  have "date_parse sample_platform (to_string sample_platform (JStr sample_iso)) = Some sample_now"
    by (simp add: sample_date_parse_def)
  from createDhtRecord_verifies[OF sample_date_law sample_keys r this, of "sample_now + 5"] show ?thesis by auto
qed

theorem dht_memo_sound_witness:
  "\<exists>r r' rid seen'. verifyDhtRecord sample_platform sample_now False [] r = (Inr rid, seen') \<and>
     verifyValue sample_platform (dht_signed r') (get r' ''signature'') (get r' ''publicKey'') = Inr True \<and>
     normalize (dht_body r') = normalize (dht_body r)"
proof -
  obtain r where r: "createDhtRecord sample_platform sample_identity (JStr ''n'') (JStr ''k'') JNull (JNum 1) (JNum 5)
      (JStr sample_iso) = Inr r" and d: "distinct_names r" by (rule sample_record)
  have t: "date_parse sample_platform (to_string sample_platform (JStr sample_iso)) = Some sample_now"
    by (simp add: sample_date_parse_def)
  have "sample_now < sample_now + int_of (JNum 5)" by (simp add: sample_now_def)
  from created_record_accepted[OF sample_date_law sample_keys r t this] obtain rid seen'
    where "verifyDhtRecord sample_platform sample_now False [] r = (Inr rid, seen')" by blast
  moreover from this have "verifyDhtRecord sample_platform sample_now False (dht_memo_run sample_platform [] []) r = (Inr rid, seen')"
    by simp
  from dht_memo_sound[OF sample_digest_law sample_number_texts _ d this] obtain r'
    where "verifyValue sample_platform (dht_signed r') (get r' ''signature'') (get r' ''publicKey'') = Inr True"
      "normalize (dht_body r') = normalize (dht_body r)" by auto
  ultimately show ?thesis by blast
qed

section \<open>Slots never go back\<close>

text \<open>A record that may follow another in its slot: not an older sequence, and not a rival of the same.\<close>

definition may_follow :: "platform \<Rightarrow> jsval \<Rightarrow> jsval \<Rightarrow> bool" where
  "may_follow p r r' \<longleftrightarrow> \<not> js_less p (get r' ''sequence'') (get r ''sequence'') \<and>
     (strict_eq (get r ''sequence'') (get r' ''sequence'') \<longrightarrow> get r ''recordId'' = get r' ''recordId'')"

lemma dht_put_slots:
  assumes "dht_put p now a n r st = (v, st')" "jmap_get (ds_records st) k = Some old"
  shows "\<exists>new. jmap_get (ds_records st') k = Some new \<and> (new = old \<or> (new = r \<and> k = slot_key p r \<and> may_follow p old r))"
  using assms by (auto simp: dht_put_def Let_def may_follow_def split: prod.splits sum.splits option.splits if_splits)

fun dht_puts :: "platform \<Rightarrow> (int \<times> bool \<times> bool \<times> jsval) list \<Rightarrow> dht_store \<Rightarrow> dht_store" where
  "dht_puts p [] st = st"
| "dht_puts p ((now, a, n, r) # qs) st = dht_puts p qs (snd (dht_put p now a n r st))"

definition numbered :: "jsval \<Rightarrow> rat \<Rightarrow> bool" where
  "numbered r n \<longleftrightarrow> get r ''sequence'' = JNum n"

lemma may_follow_numbered:
  "numbered r n \<Longrightarrow> numbered r' m \<Longrightarrow> may_follow p r r' \<longleftrightarrow> n \<le> m \<and> (n = m \<longrightarrow> get r ''recordId'' = get r' ''recordId'')"
  by (auto simp: may_follow_def numbered_def js_less_def)

text \<open>
  Over any sequence of puts of records with numeric sequences, accepted or refused, whatever a
  slot held is still there or has been followed by a record with a higher sequence; a record with
  the same sequence and another identifier never takes its place, so a publisher's equivocation is
  never adopted and no slot is rolled back or emptied.
\<close>

theorem dht_puts_monotone:
  assumes "\<forall>(now, a, n, r)\<in>set qs. \<exists>m. numbered r m" "jmap_get (ds_records st) k = Some old" "numbered old m"
  shows "\<exists>new m'. jmap_get (ds_records (dht_puts p qs st)) k = Some new \<and> numbered new m' \<and> m \<le> m' \<and>
    (m = m' \<longrightarrow> get old ''recordId'' = get new ''recordId'')"
  using assms
proof (induction qs arbitrary: st old m)
  case (Cons q qs)
  obtain now a n r where q: "q = (now, a, n, r)" by (cases q)
  with Cons.prems obtain l where l: "numbered r l" by auto
  obtain v st' where put: "dht_put p now a n r st = (v, st')" by fastforce
  from dht_put_slots[OF put Cons.prems(2)] obtain new where new: "jmap_get (ds_records st') k = Some new"
    "new = old \<or> (new = r \<and> may_follow p old r)" by blast
  then obtain m' where m': "numbered new m'" "m \<le> m'" "m = m' \<longrightarrow> get old ''recordId'' = get new ''recordId''"
    using Cons.prems(3) l may_follow_numbered by blast
  have IH: "\<exists>new2 m2. jmap_get (ds_records (dht_puts p qs st')) k = Some new2 \<and> numbered new2 m2 \<and> m' \<le> m2 \<and>
      (m' = m2 \<longrightarrow> get new ''recordId'' = get new2 ''recordId'')"
    by (rule Cons.IH[OF _ new(1) m'(1)]) (use Cons.prems(1) in simp)
  then obtain new2 m2 where n2: "jmap_get (ds_records (dht_puts p qs st')) k = Some new2" "numbered new2 m2" "m' \<le> m2"
      "m' = m2 \<longrightarrow> get new ''recordId'' = get new2 ''recordId''" by blast
  have "m \<le> m2" "m = m2 \<longrightarrow> get old ''recordId'' = get new2 ''recordId''" using m'(2,3) n2(3,4) by auto
  with n2 show ?case using q put by auto
qed auto

theorem dht_puts_monotone_witness:
  "\<exists>new m. jmap_get (ds_records (dht_puts sample_platform [(0, False, True, JObj [(''sequence'', JNum 0)])]
     \<lparr>ds_records = [(''s'', JObj [(''sequence'', JNum 4)])], ds_seen = [], ds_changes = 0\<rparr>)) ''s'' = Some new \<and>
     numbered new m \<and> 4 \<le> m"
  using dht_puts_monotone[of "[(0, False, True, JObj [(''sequence'', JNum 0)])]"
    "\<lparr>ds_records = [(''s'', JObj [(''sequence'', JNum 4)])], ds_seen = [], ds_changes = 0\<rparr>" "''s''"
    "JObj [(''sequence'', JNum 4)]" 4 sample_platform]
  by (auto simp: numbered_def)

lemma sweep_entries_fresh:
  "sweep_entries p now seen m = (kept, seen') \<Longrightarrow>
     set kept \<subseteq> set m \<and> (\<forall>(k, r)\<in>set kept. dht_content p r = Inr () \<and> (\<exists>rid. dht_times p now False r = Inr rid))"
  by (induction m arbitrary: seen kept)
    (fastforce simp: verifyDhtRecord_def Let_def split: prod.splits sum.splits if_splits bool.splits)+

end
