(* ===== verification/Admission_Queue.thy ===== *)
theory Admission_Queue
  imports JS_Prelude
begin

text \<open>
  The admission queue of \<^verbatim>\<open>network/admission/bounded-queue.js\<close> and the load monitor of
  \<^verbatim>\<open>network/admission/load-monitor.js\<close>. The body of \<^verbatim>\<open>run\<close> is cut at its \<^verbatim>\<open>await\<close>s into the three
  steps the event loop interleaves: the call, the resumption of a waiter whose promise was
  resolved, and the end of a task. Shown: the queue bound, conservation of tasks, first-come
  first-served waking, and that no waiter is left behind while capacity is free; the in-flight bound
  holds when no call falls between a waiter's wake-up and its resumption, and fails otherwise.
\<close>

section \<open>The queue\<close>

record admission_queue =
  aq_maxInFlight :: nat
  aq_maxQueued :: nat
  aq_inFlight :: nat
  aq_queue :: "nat list"
  aq_admitted :: nat
  aq_rejected :: nat
  aq_completed :: nat
  aq_failed :: nat
  aq_woken :: "nat list"

text \<open>
  A waiter is the number of its call. \<^verbatim>\<open>aq_woken\<close> holds the waiters whose promise is resolved and
  whose continuation the event loop has not run yet; the source has no name for it.
\<close>

definition admission_new :: "jsval \<Rightarrow> jsval \<Rightarrow> admission_queue result" where
  "admission_new maxInFlight maxQueued =
     (if \<not> is_integer maxInFlight \<or> num_of maxInFlight < 1 then Inl (Err ''maxInFlight must be a positive integer'')
      else if \<not> is_integer maxQueued \<or> num_of maxQueued < 0 then Inl (Err ''maxQueued must be a non-negative integer'')
      else Inr \<lparr>aq_maxInFlight = nat (int_of maxInFlight), aq_maxQueued = nat (int_of maxQueued), aq_inFlight = 0,
        aq_queue = [], aq_admitted = 0, aq_rejected = 0, aq_completed = 0, aq_failed = 0, aq_woken = []\<rparr>)"

datatype call_outcome = Started | Waiting | Rejected jserror

text \<open>The synchronous part of \<^verbatim>\<open>run\<close>, up to its first \<^verbatim>\<open>await\<close>.\<close>

definition aq_call :: "bool \<Rightarrow> nat \<Rightarrow> admission_queue \<Rightarrow> call_outcome \<times> admission_queue" where
  "aq_call callable n q =
     (if \<not> callable then (Rejected (Err ''admission task must be a function''), q)
      else if aq_inFlight q \<ge> aq_maxInFlight q then
        (if length (aq_queue q) \<ge> aq_maxQueued q
         then (Rejected (Coded ''TRUYN_BACKPRESSURE'' ''backpressure''), q\<lparr>aq_rejected := aq_rejected q + 1\<rparr>)
         else (Waiting, q\<lparr>aq_admitted := aq_admitted q + 1, aq_queue := aq_queue q @ [n]\<rparr>))
      else (Started, q\<lparr>aq_admitted := aq_admitted q + 1, aq_inFlight := aq_inFlight q + 1\<rparr>))"

text \<open>The continuation of a waiter.\<close>

definition aq_resume :: "admission_queue \<Rightarrow> admission_queue" where
  "aq_resume q = q\<lparr>aq_woken := tl (aq_woken q), aq_inFlight := aq_inFlight q + 1\<rparr>"

text \<open>The end of a task: the counter, then the \<^verbatim>\<open>finally\<close> block.\<close>

definition aq_finish :: "bool \<Rightarrow> admission_queue \<Rightarrow> admission_queue" where
  "aq_finish ok q =
     (let q' = (if ok then q\<lparr>aq_completed := aq_completed q + 1\<rparr> else q\<lparr>aq_failed := aq_failed q + 1\<rparr>);
          q'' = q'\<lparr>aq_inFlight := aq_inFlight q' - 1\<rparr>
      in case aq_queue q'' of [] \<Rightarrow> q''
         | next # rest \<Rightarrow> q''\<lparr>aq_queue := rest, aq_woken := aq_woken q'' @ [next]\<rparr>)"

text \<open>What the event loop may do next. A waiter's continuation runs in wake-up order.\<close>

inductive aq_step :: "admission_queue \<Rightarrow> admission_queue \<Rightarrow> bool" where
  call: "aq_step q (snd (aq_call f n q))"
| resume: "aq_woken q \<noteq> [] \<Longrightarrow> aq_step q (aq_resume q)"
| finish: "0 < aq_inFlight q \<Longrightarrow> aq_step q (aq_finish ok q)"

text \<open>The schedules in which no call falls between a wake-up and the resumption.\<close>

inductive aq_prompt_step :: "admission_queue \<Rightarrow> admission_queue \<Rightarrow> bool" where
  prompt_call: "aq_woken q = [] \<Longrightarrow> aq_prompt_step q (snd (aq_call f n q))"
| prompt_resume: "aq_woken q \<noteq> [] \<Longrightarrow> aq_prompt_step q (aq_resume q)"
| prompt_finish: "0 < aq_inFlight q \<Longrightarrow> aq_prompt_step q (aq_finish ok q)"

inductive_cases aq_stepE: "aq_step q q'"

record admission_snapshot =
  as_maxInFlight :: nat
  as_maxQueued :: nat
  as_inFlight :: nat
  as_queued :: nat
  as_admitted :: nat
  as_rejected :: nat
  as_completed :: nat
  as_failed :: nat

definition aq_snapshot :: "admission_queue \<Rightarrow> admission_snapshot" where
  "aq_snapshot q = \<lparr>as_maxInFlight = aq_maxInFlight q, as_maxQueued = aq_maxQueued q, as_inFlight = aq_inFlight q,
     as_queued = length (aq_queue q), as_admitted = aq_admitted q, as_rejected = aq_rejected q,
     as_completed = aq_completed q, as_failed = aq_failed q\<rparr>"

section \<open>The load monitor\<close>

text \<open>The timer's body is a step; the histogram and the timer handles are Node's.\<close>

record load_monitor =
  lm_sampleIntervalMs :: int
  lm_ewmaAlpha :: rat
  lm_lagEwmaMs :: rat
  lm_lastLagMs :: int
  lm_maxLagMs :: int
  lm_running :: bool
  lm_expectedAt :: int

definition load_monitor_new :: "jsval \<Rightarrow> jsval \<Rightarrow> load_monitor result" where
  "load_monitor_new sampleIntervalMs ewmaAlpha =
     (if \<not> is_integer sampleIntervalMs \<or> num_of sampleIntervalMs < 10 then Inl (Err ''sampleIntervalMs must be >= 10'')
      else if \<not> (is_finite_num ewmaAlpha \<and> num_of ewmaAlpha > 0 \<and> num_of ewmaAlpha \<le> 1)
        then Inl (Err ''ewmaAlpha must be in (0, 1]'')
      else Inr \<lparr>lm_sampleIntervalMs = int_of sampleIntervalMs, lm_ewmaAlpha = num_of ewmaAlpha, lm_lagEwmaMs = 0,
        lm_lastLagMs = 0, lm_maxLagMs = 0, lm_running = False, lm_expectedAt = 0\<rparr>)"

definition lm_start :: "int \<Rightarrow> load_monitor \<Rightarrow> load_monitor" where
  "lm_start now m = (if lm_running m then m
     else m\<lparr>lm_expectedAt := now + lm_sampleIntervalMs m, lm_running := True\<rparr>)"

definition lm_tick :: "int \<Rightarrow> load_monitor \<Rightarrow> load_monitor" where
  "lm_tick now m =
     (let lag = max 0 (now - lm_expectedAt m) in
      m\<lparr>lm_expectedAt := now + lm_sampleIntervalMs m, lm_lastLagMs := lag,
        lm_maxLagMs := (if lag > lm_maxLagMs m then lag else lm_maxLagMs m),
        lm_lagEwmaMs := lm_lagEwmaMs m + lm_ewmaAlpha m * (of_int lag - lm_lagEwmaMs m)\<rparr>)"

definition lm_stop :: "load_monitor \<Rightarrow> load_monitor" where
  "lm_stop m = m\<lparr>lm_running := False\<rparr>"

definition lagMs :: "load_monitor \<Rightarrow> rat" where
  "lagMs m = max (lm_lagEwmaMs m) (of_int (lm_lastLagMs m) * (1 / 2))"

definition is_overloaded :: "rat \<Rightarrow> load_monitor \<Rightarrow> bool" where
  "is_overloaded threshold m \<longleftrightarrow> lm_running m \<and> lagMs m \<ge> threshold"

datatype lm_op = LStart int | LTick int | LStop

fun lm_apply :: "lm_op \<Rightarrow> load_monitor \<Rightarrow> load_monitor" where
  "lm_apply (LStart now) m = lm_start now m"
| "lm_apply (LTick now) m = lm_tick now m"
| "lm_apply LStop m = lm_stop m"

section \<open>What the queue keeps\<close>

definition aq_ok :: "admission_queue \<Rightarrow> bool" where
  "aq_ok q \<longleftrightarrow> 0 < aq_maxInFlight q \<and> length (aq_queue q) \<le> aq_maxQueued q \<and>
     aq_admitted q = aq_inFlight q + length (aq_woken q) + length (aq_queue q) + aq_completed q + aq_failed q \<and>
     (aq_queue q \<noteq> [] \<longrightarrow> aq_maxInFlight q \<le> aq_inFlight q + length (aq_woken q))"

lemma admission_new_ok:
  assumes "admission_new m n = Inr q"
  shows "aq_ok q" "aq_inFlight q = 0" "aq_woken q = []"
proof -
  from assms obtain i where i: "m = JNum (of_int i)" "1 \<le> i"
    by (auto simp: admission_new_def res_simps elim!: is_integer_obtain)
  with assms show "aq_ok q" "aq_inFlight q = 0" "aq_woken q = []"
    by (auto simp: admission_new_def aq_ok_def res_simps)
qed

lemma aq_call_ok: "aq_ok q \<Longrightarrow> aq_ok (snd (aq_call f n q))"
  by (auto simp: aq_call_def aq_ok_def)

lemma aq_resume_ok: "aq_ok q \<Longrightarrow> aq_woken q \<noteq> [] \<Longrightarrow> aq_ok (aq_resume q)"
  by (cases "aq_woken q") (auto simp: aq_resume_def aq_ok_def)

lemma aq_finish_ok: "aq_ok q \<Longrightarrow> 0 < aq_inFlight q \<Longrightarrow> aq_ok (aq_finish ok q)"
  by (cases "aq_queue q") (auto simp: aq_finish_def aq_ok_def Let_def)

lemma aq_steps_ok: "aq_step\<^sup>*\<^sup>* q q' \<Longrightarrow> aq_ok q \<Longrightarrow> aq_ok q'"
  by (induction rule: rtranclp_induct) (auto elim!: aq_stepE intro: aq_call_ok aq_resume_ok aq_finish_ok)

text \<open>
  C32. Whatever the event loop interleaves, the queue never holds more than \<^verbatim>\<open>maxQueued\<close> waiters;
  every admitted call is in flight, woken, queued, completed or failed, none lost or counted twice;
  and while a call waits, at least \<^verbatim>\<open>maxInFlight\<close> calls are running or about to, so a waiter is never
  stranded beside free capacity and a running task will wake it.
\<close>

theorem admission_conservation:
  assumes "admission_new m n = Inr q0" "aq_step\<^sup>*\<^sup>* q0 q"
  shows "length (aq_queue q) \<le> aq_maxQueued q \<and>
    aq_admitted q = aq_inFlight q + length (aq_woken q) + length (aq_queue q) + aq_completed q + aq_failed q \<and>
    (aq_queue q = [] \<or> aq_maxInFlight q \<le> aq_inFlight q + length (aq_woken q))"
  using aq_steps_ok[OF assms(2) admission_new_ok(1)[OF assms(1)]] by (auto simp: aq_ok_def)

definition sample_queue :: admission_queue where
  "sample_queue = \<lparr>aq_maxInFlight = 1, aq_maxQueued = 1, aq_inFlight = 0,
     aq_queue = [], aq_admitted = 0, aq_rejected = 0, aq_completed = 0, aq_failed = 0, aq_woken = []\<rparr>"

lemma sample_queue_new: "admission_new (JNum 1) (JNum 1) = Inr sample_queue"
  by (simp add: admission_new_def sample_queue_def int_of_def)

theorem admission_conservation_witness:
  "length (aq_queue (snd (aq_call True 7 sample_queue))) \<le> 1"
  using admission_conservation[OF sample_queue_new r_into_rtranclp[of aq_step, OF aq_step.call[of sample_queue True 7]]]
  by (simp add: aq_call_def sample_queue_def)

text \<open>
  The in-flight bound. When no new call falls between the wake-up of a waiter and its
  resumption, at most \<^verbatim>\<open>maxInFlight\<close> tasks are ever in flight, woken waiters included.
\<close>

theorem admission_bound_prompt:
  assumes "admission_new m n = Inr q0" "aq_prompt_step\<^sup>*\<^sup>* q0 q"
  shows "aq_inFlight q + length (aq_woken q) \<le> aq_maxInFlight q"
  using assms(2)
proof (induction rule: rtranclp_induct)
  case base
  then show ?case using admission_new_ok[OF assms(1)] by simp
next
  case (step q q')
  from step(2) show ?case
  proof (cases rule: aq_prompt_step.cases)
    case (prompt_call f n)
    with step show ?thesis by (auto simp: aq_call_def)
  next
    case prompt_resume
    with step show ?thesis by (cases "aq_woken q") (auto simp: aq_resume_def)
  next
    case (prompt_finish ok)
    with step show ?thesis by (cases "aq_queue q") (auto simp: aq_finish_def Let_def)
  qed
qed

theorem admission_bound_prompt_witness:
  "aq_inFlight (snd (aq_call True 7 sample_queue)) \<le> 1"
  using admission_bound_prompt[OF sample_queue_new
      r_into_rtranclp[of aq_prompt_step, OF prompt_call[of sample_queue True 7]]]
  by (simp add: aq_call_def sample_queue_def)

text \<open>
  The in-flight bound does not hold on every schedule: the end of a task frees its slot before
  the waiter it wakes has taken it, and a call that arrives in between takes the slot too. With
  \<^verbatim>\<open>maxInFlight\<close> 1 two tasks then run at once.
\<close>

theorem admission_bound_race:
  "\<exists>q0 q. admission_new (JNum 1) (JNum 1) = Inr q0 \<and> aq_step\<^sup>*\<^sup>* q0 q \<and> aq_inFlight q = 2 \<and> aq_maxInFlight q = 1"
proof -
  let ?q1 = "snd (aq_call True 0 sample_queue)"
  let ?q2 = "snd (aq_call True 1 ?q1)"
  let ?q3 = "aq_finish True ?q2"
  let ?q4 = "snd (aq_call True 2 ?q3)"
  have "aq_step sample_queue ?q1" "aq_step ?q1 ?q2" "aq_step ?q3 ?q4" by (rule aq_step.call)+
  moreover have "aq_step ?q2 ?q3" by (rule aq_step.finish) (simp add: aq_call_def sample_queue_def)
  moreover have "aq_step ?q4 (aq_resume ?q4)"
    by (rule aq_step.resume) (simp add: aq_call_def aq_finish_def sample_queue_def)
  ultimately have "aq_step\<^sup>*\<^sup>* sample_queue (aq_resume ?q4)"
    by (meson converse_rtranclp_into_rtranclp rtranclp.rtrancl_refl)
  moreover have "aq_inFlight (aq_resume ?q4) = 2" "aq_maxInFlight (aq_resume ?q4) = 1"
    by (simp_all add: aq_call_def aq_finish_def aq_resume_def sample_queue_def)
  ultimately show ?thesis using sample_queue_new by blast
qed

lemma aq_finish_fifo:
  "aq_queue q = n # rest \<Longrightarrow> aq_woken (aq_finish ok q) = aq_woken q @ [n] \<and> aq_queue (aq_finish ok q) = rest"
  by (simp add: aq_finish_def Let_def)

section \<open>What the monitor keeps\<close>

definition lm_ok :: "load_monitor \<Rightarrow> bool" where
  "lm_ok m \<longleftrightarrow> 0 < lm_ewmaAlpha m \<and> lm_ewmaAlpha m \<le> 1 \<and> 0 \<le> lm_lastLagMs m \<and> lm_lastLagMs m \<le> lm_maxLagMs m \<and>
     0 \<le> lm_lagEwmaMs m \<and> lm_lagEwmaMs m \<le> of_int (lm_maxLagMs m)"

lemma ewma_between:
  fixes a e x hi :: rat
  assumes "0 < a" "a \<le> 1" "0 \<le> e" "e \<le> hi" "0 \<le> x" "x \<le> hi"
  shows "0 \<le> e + a * (x - e)" "e + a * (x - e) \<le> hi"
proof -
  have eq: "e + a * (x - e) = (1 - a) * e + a * x" by (simp add: algebra_simps)
  show "0 \<le> e + a * (x - e)" unfolding eq using assms by simp
  have "(1 - a) * e \<le> (1 - a) * hi" "a * x \<le> a * hi" using assms by (simp_all add: mult_left_mono)
  then show "e + a * (x - e) \<le> hi" unfolding eq by (simp add: algebra_simps)
qed

lemma lm_tick_ok: "lm_ok m \<Longrightarrow> lm_ok (lm_tick now m)"
proof -
  assume ok: "lm_ok m"
  let ?lag = "max 0 (now - lm_expectedAt m)"
  let ?hi = "if ?lag > lm_maxLagMs m then ?lag else lm_maxLagMs m"
  have hi: "lm_maxLagMs m \<le> ?hi" "?lag \<le> ?hi" by auto
  then have "lm_lagEwmaMs m \<le> of_int ?hi" using ok by (meson lm_ok_def of_int_le_iff order_trans)
  moreover have "of_int ?lag \<le> (of_int ?hi :: rat)" "(0 :: rat) \<le> of_int ?lag" using hi(2) by (simp_all only: of_int_le_iff of_int_0_le_iff max.cobounded1)
  ultimately show ?thesis
    using ok hi ewma_between[of "lm_ewmaAlpha m" "lm_lagEwmaMs m" "of_int ?hi" "of_int ?lag"]
    by (auto simp: lm_ok_def lm_tick_def Let_def)
qed

text \<open>
  Over any sequence of starts, timer ticks and stops, with any clock readings, the load figure
  lies between zero and the largest lag seen, so the overload test can only fire at a threshold some
  real lag has reached.
\<close>

theorem load_monitor_bounds:
  assumes "load_monitor_new i a = Inr m0" and m: "m = fold lm_apply ops m0"
  shows "0 \<le> lagMs m \<and> lagMs m \<le> of_int (lm_maxLagMs m)"
proof -
  from assms have "lm_ok m0" by (auto simp: load_monitor_new_def lm_ok_def res_simps)
  moreover have "lm_ok u \<Longrightarrow> lm_ok (lm_apply x u)" for x u
    by (cases x) (auto simp: lm_tick_ok, auto simp: lm_ok_def lm_start_def lm_stop_def)
  ultimately have ok: "lm_ok m" unfolding m by (induction ops arbitrary: m0) auto
  have "of_int (lm_lastLagMs m) * (1 / 2) \<le> (of_int (lm_lastLagMs m) :: rat)" using ok by (simp add: lm_ok_def)
  also have "\<dots> \<le> of_int (lm_maxLagMs m)" using ok by (simp add: lm_ok_def)
  finally show ?thesis using ok by (auto simp: lagMs_def lm_ok_def)
qed

theorem load_monitor_bounds_witness:
  "\<exists>m0. load_monitor_new (JNum 100) (JNum (1 / 5)) = Inr m0 \<and>
     lagMs (fold lm_apply [LStart 0, LTick 150, LTick 251] m0) \<le> of_int (lm_maxLagMs (fold lm_apply [LStart 0, LTick 150, LTick 251] m0))"
proof -
  obtain m0 where m0: "load_monitor_new (JNum 100) (JNum (1 / 5)) = Inr m0" by (simp add: load_monitor_new_def)
  with load_monitor_bounds[OF m0 refl] show ?thesis by blast
qed

end
