(* ===== verification/Durable_Inbox.thy ===== *)
theory Durable_Inbox
  imports Sample_Platform
begin

text \<open>
  The durable inbox of \<^verbatim>\<open>network/admission/durable-inbox.js\<close>: accepted work is written to disk before
  its handler runs, a finished entry answers repeats, and what was pending at a crash is run again
  on recovery. \<^verbatim>\<open>run\<close> is cut at its \<^verbatim>\<open>await\<close>s into the steps that may interleave; a \<^verbatim>\<open>#persist\<close> (snapshot
  and atomic rename) is one step. Shown: the file always equals the entries in memory, so a restart
  loses nothing; a finished run answers its repeats without the handler; recovery leaves nothing
  pending; the in-flight map does not keep two concurrent runs of a new envelope apart; the first
  attempt is not counted.
\<close>

section \<open>Entries and the file\<close>

datatype inbox_status = Pending | Completed | Failed

record inbox_error =
  err_code :: "string option"
  err_message :: string

record inbox_context =
  ctx_peerNodeId :: "string option"
  ctx_transport :: "string option"

record inbox_entry =
  ie_id :: string
  ie_status :: inbox_status
  ie_envelope :: jsval
  ie_context :: inbox_context
  ie_attempts :: nat
  ie_acceptedAt :: string
  ie_updatedAt :: string
  ie_result :: jsval
  ie_error :: "inbox_error option"

text \<open>
  What \<^verbatim>\<open>readFile\<close> and \<^verbatim>\<open>JSON.parse\<close> find: no file, an error, a value that is no state, or a list of
  entries, \<open>None\<close> where one is malformed.
\<close>

datatype inbox_file = Absent | Unreadable jserror | NotState | Entries "inbox_entry option list"

definition opt_string :: "jsval \<Rightarrow> string option" where
  "opt_string v = (case v of JStr s \<Rightarrow> Some s | _ \<Rightarrow> None)"

definition safeContext :: "jsval \<Rightarrow> inbox_context" where
  "safeContext c = \<lparr>ctx_peerNodeId = opt_string (get c ''peerNodeId''), ctx_transport = opt_string (get c ''transport'')\<rparr>"

definition serializedError :: "jserror \<Rightarrow> inbox_error" where
  "serializedError e = \<lparr>err_code = (case e of Coded c m \<Rightarrow> Some c | _ \<Rightarrow> None), err_message = message e\<rparr>"

definition restoredError :: "inbox_error option \<Rightarrow> jserror" where
  "restoredError v =
     (let m = (case v of Some x \<Rightarrow> if err_message x = [] then ''durable_work_failed'' else err_message x
               | None \<Rightarrow> ''durable_work_failed'')
      in case v of Some x \<Rightarrow> (case err_code x of Some c \<Rightarrow> if c = [] then Err m else Coded c m | None \<Rightarrow> Err m)
         | None \<Rightarrow> Err m)"

section \<open>The inbox\<close>

text \<open>Where a call of \<^verbatim>\<open>run\<close> stands between two steps.\<close>

datatype run_pc =
    Accepting jsval jsval
  | Accepted inbox_entry
  | Handling string
  | Joined string
  | Returned "jserror + jsval"

record inbox =
  ib_maxCompleted :: nat
  ib_entries :: "(string, inbox_entry) jsmap"
  ib_inFlight :: "string list"
  ib_loaded :: bool
  ib_file :: inbox_file
  ib_runs :: "(nat, run_pc) jsmap"
  ib_handled :: "(string \<times> bool) list"

text \<open>\<^verbatim>\<open>ib_runs\<close> are the calls under way; \<^verbatim>\<open>ib_handled\<close> records each invocation of a handler.\<close>

definition inbox_new :: "string \<Rightarrow> jsval \<Rightarrow> inbox_file \<Rightarrow> inbox result" where
  "inbox_new filePath maxCompleted file =
     (if filePath = [] then Inl (Err ''durable inbox filePath is required'')
      else if \<not> is_integer maxCompleted \<or> num_of maxCompleted < 1 then Inl (Err ''maxCompleted must be a positive integer'')
      else Inr \<lparr>ib_maxCompleted = nat (int_of maxCompleted), ib_entries = [], ib_inFlight = [], ib_loaded = False,
        ib_file = file, ib_runs = [], ib_handled = []\<rparr>)"

fun load_entries :: "inbox_entry option list \<Rightarrow> (string, inbox_entry) jsmap \<Rightarrow> bool \<times> (string, inbox_entry) jsmap" where
  "load_entries [] m = (True, m)"
| "load_entries (None # es) m = (False, m)"
| "load_entries (Some e # es) m = (if ie_id e = [] then (False, m) else load_entries es (jmap_set (ie_id e) e m))"

definition inbox_load :: "inbox \<Rightarrow> unit result \<times> inbox" where
  "inbox_load st =
     (if ib_loaded st then (Inr (), st)
      else case ib_file st of
        Unreadable e \<Rightarrow> (Inl e, st)
      | NotState \<Rightarrow> (Inl (Err ''invalid_durable_inbox_state''), st)
      | Absent \<Rightarrow> (Inr (), st\<lparr>ib_entries := [], ib_loaded := True\<rparr>)
      | Entries es \<Rightarrow>
         (case load_entries es [] of
            (True, m) \<Rightarrow> (Inr (), st\<lparr>ib_entries := m, ib_loaded := True\<rparr>)
          | (False, m) \<Rightarrow> (Inl (Err ''invalid_durable_inbox_entry''), st\<lparr>ib_entries := m\<rparr>)))"

definition inbox_counts :: "inbox \<Rightarrow> nat \<times> nat \<times> nat \<times> nat" where
  "inbox_counts st = (let es = map snd (ib_entries st); of_status = (\<lambda>s. length (filter (\<lambda>e. ie_status e = s) es))
     in (of_status Pending, of_status Completed, of_status Failed, length (ib_inFlight st)))"

definition inbox_pending :: "platform \<Rightarrow> inbox \<Rightarrow> inbox_entry list" where
  "inbox_pending p st = js_sort (\<lambda>a b. lcmp p (ie_acceptedAt a) (ie_acceptedAt b))
     (filter (\<lambda>e. ie_status e = Pending) (map snd (ib_entries st)))"

definition persist :: "inbox \<Rightarrow> inbox" where
  "persist st = st\<lparr>ib_file := Entries (map (Some \<circ> snd) (ib_entries st))\<rparr>"

definition trimCompleted :: "platform \<Rightarrow> inbox \<Rightarrow> inbox" where
  "trimCompleted p st =
     (let completed = js_sort (\<lambda>a b. lcmp p (ie_updatedAt a) (ie_updatedAt b))
            (filter (\<lambda>e. ie_status e = Completed) (map snd (ib_entries st)));
          surplus = take (length completed - ib_maxCompleted st) completed
      in st\<lparr>ib_entries := fold (\<lambda>e m. jmap_delete (ie_id e) m) surplus (ib_entries st)\<rparr>)"

definition new_entry :: "string \<Rightarrow> string \<Rightarrow> jsval \<Rightarrow> jsval \<Rightarrow> inbox_entry" where
  "new_entry now i envelope context = \<lparr>ie_id = i, ie_status = Pending, ie_envelope = envelope,
     ie_context = safeContext context, ie_attempts = 0, ie_acceptedAt = now, ie_updatedAt = now,
     ie_result = JNull, ie_error = None\<rparr>"

definition inbox_accept :: "string \<Rightarrow> jsval \<Rightarrow> jsval \<Rightarrow> inbox \<Rightarrow> inbox_entry result \<times> inbox" where
  "inbox_accept now envelope context st0 =
     (case inbox_load st0 of (Inl e, st) \<Rightarrow> (Inl e, st)
      | (Inr _, st) \<Rightarrow>
         (let i = str_of (oget envelope ''id'') in
          if i = [] then (Inl (Err ''durable inbox envelope id is required''), st)
          else case jmap_get (ib_entries st) i of
            Some existing \<Rightarrow> (Inr existing, st)
          | None \<Rightarrow> (let e = new_entry now i envelope context
                     in (Inr e, persist (st\<lparr>ib_entries := jmap_set i e (ib_entries st)\<rparr>)))))"

text \<open>\<^verbatim>\<open>#complete\<close> and \<^verbatim>\<open>#fail\<close>; both throw when the entry is gone.\<close>

definition inbox_complete :: "platform \<Rightarrow> string \<Rightarrow> string \<Rightarrow> jsval \<Rightarrow> inbox \<Rightarrow> unit result \<times> inbox" where
  "inbox_complete p now i result st = (case jmap_get (ib_entries st) i of
       None \<Rightarrow> (Inl (Err ''durable inbox entry missing''), st)
     | Some e \<Rightarrow> (Inr (), persist (trimCompleted p (st\<lparr>ib_entries := jmap_set i
          (e\<lparr>ie_status := Completed, ie_result := result, ie_error := None, ie_updatedAt := now\<rparr>) (ib_entries st)\<rparr>))))"

definition inbox_fail :: "string \<Rightarrow> string \<Rightarrow> jserror \<Rightarrow> inbox \<Rightarrow> unit result \<times> inbox" where
  "inbox_fail now i err st = (case jmap_get (ib_entries st) i of
       None \<Rightarrow> (Inl (Err ''durable inbox entry missing''), st)
     | Some e \<Rightarrow> (Inr (), persist (st\<lparr>ib_entries := jmap_set i
          (e\<lparr>ie_status := Failed, ie_result := JNull, ie_error := Some (serializedError err), ie_updatedAt := now\<rparr>)
          (ib_entries st)\<rparr>)))"

section \<open>The steps of \<^verbatim>\<open>run\<close>\<close>

definition set_pc :: "nat \<Rightarrow> run_pc \<Rightarrow> inbox \<Rightarrow> inbox" where
  "set_pc r pc st = st\<lparr>ib_runs := jmap_set r pc (ib_runs st)\<rparr>"

text \<open>
  The call, after \<^verbatim>\<open>load\<close>: a finished entry answers, a run in flight is joined, a pending entry
  starts its handler (recovered), and a new envelope goes to \<^verbatim>\<open>accept\<close>, which awaits.
\<close>

definition start_handler :: "nat \<Rightarrow> string \<Rightarrow> bool \<Rightarrow> inbox \<Rightarrow> inbox" where
  "start_handler r i recovered st =
     set_pc r (Handling i) (persist st\<lparr>ib_inFlight := (if i \<in> set (ib_inFlight st) then ib_inFlight st else ib_inFlight st @ [i]),
       ib_handled := ib_handled st @ [(i, recovered)]\<rparr>)"

definition run_call :: "string \<Rightarrow> nat \<Rightarrow> jsval \<Rightarrow> jsval \<Rightarrow> inbox \<Rightarrow> inbox" where
  "run_call now r envelope context st0 =
     (case inbox_load st0 of (Inl e, st) \<Rightarrow> set_pc r (Returned (Inl e)) st
      | (Inr _, st) \<Rightarrow>
         (let i = str_of (oget envelope ''id'') in
          case jmap_get (ib_entries st) i of
            Some e \<Rightarrow>
              (case ie_status e of
                 Completed \<Rightarrow> set_pc r (Returned (Inr (ie_result e))) st
               | Failed \<Rightarrow> set_pc r (Returned (Inl (restoredError (ie_error e)))) st
               | Pending \<Rightarrow>
                   if i \<in> set (ib_inFlight st) then set_pc r (Joined i) st
                   else start_handler r i True (st\<lparr>ib_entries := jmap_set i
                     (e\<lparr>ie_attempts := ie_attempts e + 1, ie_updatedAt := now\<rparr>) (ib_entries st)\<rparr>))
          | None \<Rightarrow> if i \<in> set (ib_inFlight st) then set_pc r (Joined i) st
                    else set_pc r (Accepting envelope context) st))"

definition run_accept :: "string \<Rightarrow> nat \<Rightarrow> inbox \<Rightarrow> inbox" where
  "run_accept now r st = (case jmap_get (ib_runs st) r of
       Some (Accepting envelope context) \<Rightarrow>
         (case inbox_accept now envelope context st of
            (Inl e, st') \<Rightarrow> set_pc r (Returned (Inl e)) st'
          | (Inr entry, st') \<Rightarrow> set_pc r (Accepted entry) st')
     | _ \<Rightarrow> st)"

text \<open>
  After \<^verbatim>\<open>accept\<close> the entry at hand is the clone it returned: the attempt is counted on the clone and
  the file is written from the map, which the clone is not part of.
\<close>

definition run_start :: "nat \<Rightarrow> inbox \<Rightarrow> inbox" where
  "run_start r st = (case jmap_get (ib_runs st) r of
       Some (Accepted entry) \<Rightarrow> start_handler r (ie_id entry) False st
     | _ \<Rightarrow> st)"

definition run_finish :: "platform \<Rightarrow> string \<Rightarrow> nat \<Rightarrow> jserror + jsval \<Rightarrow> inbox \<Rightarrow> inbox" where
  "run_finish p now r outcome st = (case jmap_get (ib_runs st) r of
       Some (Handling i) \<Rightarrow>
         (let (thrown, st') =
            (case outcome of
               Inr v \<Rightarrow> (case inbox_complete p now i v st of
                   (Inr _, s) \<Rightarrow> (Inr v, s)
                 | (Inl e, s) \<Rightarrow> (case inbox_fail now i e s of (Inl e2, s2) \<Rightarrow> (Inl e2, s2) | (Inr _, s2) \<Rightarrow> (Inl e, s2)))
             | Inl e \<Rightarrow> (case inbox_fail now i e st of (Inl e2, s2) \<Rightarrow> (Inl e2, s2) | (Inr _, s2) \<Rightarrow> (Inl e, s2)))
          in set_pc r (Returned thrown) (st'\<lparr>ib_inFlight := removeAll i (ib_inFlight st')\<rparr>))
     | _ \<Rightarrow> st)"

definition inbox_crash :: "inbox \<Rightarrow> inbox" where
  "inbox_crash st = st\<lparr>ib_entries := [], ib_inFlight := [], ib_loaded := False, ib_runs := []\<rparr>"

inductive inbox_step :: "platform \<Rightarrow> inbox \<Rightarrow> inbox \<Rightarrow> bool" for p where
  step_call: "inbox_step p st (run_call now r envelope context st)"
| step_accept: "inbox_step p st (run_accept now r st)"
| step_start: "inbox_step p st (run_start r st)"
| step_finish: "inbox_step p st (run_finish p now r outcome st)"
| step_crash: "inbox_step p st (inbox_crash st)"

inductive_cases inbox_stepE: "inbox_step p st st'"

text \<open>
  One call of \<^verbatim>\<open>run\<close> with nothing in between; the handler gets the stored envelope. \<^verbatim>\<open>recover\<close> awaits
  such a call for each entry that was pending.
\<close>

definition stored_envelope :: "string \<Rightarrow> inbox \<Rightarrow> jsval" where
  "stored_envelope i st = (case jmap_get (ib_entries st) i of Some e \<Rightarrow> ie_envelope e | None \<Rightarrow> JUndef)"

definition run_alone ::
  "platform \<Rightarrow> string \<Rightarrow> nat \<Rightarrow> (jsval \<Rightarrow> jserror + jsval) \<Rightarrow> jsval \<Rightarrow> jsval \<Rightarrow> inbox \<Rightarrow> inbox" where
  "run_alone p now r handler envelope context st =
     (let st' = run_start r (run_accept now r (run_call now r envelope context st))
      in run_finish p now r (handler (stored_envelope (str_of (oget envelope ''id'')) st')) st')"

definition context_value :: "inbox_context \<Rightarrow> jsval" where
  "context_value c = (let v = (\<lambda>x. case x of Some s \<Rightarrow> JStr s | None \<Rightarrow> JNull)
     in JObj [(''peerNodeId'', v (ctx_peerNodeId c)), (''transport'', v (ctx_transport c))])"

definition inbox_recover :: "platform \<Rightarrow> string \<Rightarrow> (jsval \<Rightarrow> jserror + jsval) \<Rightarrow> inbox \<Rightarrow> inbox" where
  "inbox_recover p now handler st0 =
     (case inbox_load st0 of (Inl e, st) \<Rightarrow> st
      | (Inr _, st) \<Rightarrow> fold (\<lambda>e s. run_alone p now 0 handler (ie_envelope e) (context_value (ie_context e)) s)
          (inbox_pending p st) st)"

section \<open>The file mirrors the entries\<close>

definition keyed :: "(string, inbox_entry) jsmap \<Rightarrow> bool" where
  "keyed m \<longleftrightarrow> jmap_ok m \<and> (\<forall>(k, e)\<in>set m. ie_id e = k \<and> k \<noteq> [])"

definition reload :: "inbox_file \<Rightarrow> bool \<times> (string, inbox_entry) jsmap" where
  "reload f = (case f of Absent \<Rightarrow> (True, []) | Entries es \<Rightarrow> load_entries es [] | _ \<Rightarrow> (False, []))"

definition ib_ok :: "inbox \<Rightarrow> bool" where
  "ib_ok st \<longleftrightarrow> keyed (ib_entries st) \<and> (ib_loaded st \<longrightarrow> reload (ib_file st) = (True, ib_entries st))"

lemma keyed_set: "keyed m \<Longrightarrow> ie_id e = k \<Longrightarrow> k \<noteq> [] \<Longrightarrow> keyed (jmap_set k e m)"
  using set_update_subset[of k e m] by (auto simp: keyed_def)

lemma keyed_delete: "keyed m \<Longrightarrow> keyed (jmap_delete k m)"
proof -
  have "set (AList.delete k m) \<subseteq> set m" by (induction m) auto
  then show "keyed m \<Longrightarrow> keyed (jmap_delete k m)" by (auto simp: keyed_def)
qed

lemma keyed_get: "keyed m \<Longrightarrow> jmap_get m k = Some e \<Longrightarrow> ie_id e = k \<and> k \<noteq> []"
  by (auto simp: keyed_def dest: map_of_SomeD)

lemma keyed_change: "keyed m \<Longrightarrow> jmap_get m k = Some e \<Longrightarrow> ie_id e' = ie_id e \<Longrightarrow> keyed (jmap_set k e' m)"
  using keyed_get keyed_set by metis

lemma load_entries_keyed: "keyed m \<Longrightarrow> keyed (snd (load_entries es m))"
  by (induction es m rule: load_entries.induct) (auto intro: keyed_set)

lemma load_entries_saved:
  "keyed (m @ m') \<Longrightarrow> load_entries (map (Some \<circ> snd) m') m = (True, m @ m')"
proof (induction m' arbitrary: m)
  case (Cons x m')
  obtain k e where x: "x = (k, e)" by (cases x)
  with Cons.prems have k: "ie_id e = k" "k \<noteq> []" "k \<notin> fst ` set m" by (auto simp: keyed_def)
  then have "jmap_set k e m = m @ [(k, e)]" by (simp add: update_new)
  with Cons.IH[of "m @ [(k, e)]"] Cons.prems x k show ?case by simp
qed simp

lemma ib_ok_keyed: "ib_ok st \<Longrightarrow> keyed (ib_entries st)"
  by (simp add: ib_ok_def)

lemma persist_ok: "keyed (ib_entries st) \<Longrightarrow> ib_ok (persist st)"
  using load_entries_saved[of "[]" "ib_entries st"] by (simp add: ib_ok_def persist_def reload_def)

lemma set_pc_ok [simp]: "ib_ok (set_pc r pc st) = ib_ok st"
  by (simp add: ib_ok_def set_pc_def)

lemma ib_ok_more [simp]:
  "ib_ok (st\<lparr>ib_inFlight := x\<rparr>) = ib_ok st" "ib_ok (st\<lparr>ib_inFlight := x, ib_handled := y\<rparr>) = ib_ok st"
  by (simp_all add: ib_ok_def)

lemma inbox_load_ok: "ib_ok st \<Longrightarrow> ib_ok (snd (inbox_load st))"
proof -
  have nil: "keyed []" by (simp add: keyed_def)
  then have "load_entries es [] = (b, m) \<Longrightarrow> keyed m" for es b m using load_entries_keyed[of "[]" es] by simp
  then show "ib_ok st \<Longrightarrow> ib_ok (snd (inbox_load st))"
    using nil by (auto simp: inbox_load_def ib_ok_def reload_def split: inbox_file.splits prod.splits bool.splits)
qed

lemma inbox_accept_ok: "ib_ok st \<Longrightarrow> inbox_accept now env ctx st = (v, st') \<Longrightarrow> ib_ok st'"
proof -
  assume "ib_ok st" and v: "inbox_accept now env ctx st = (v, st')"
  obtain x s where l: "inbox_load st = (x, s)" by fastforce
  with \<open>ib_ok st\<close> have "ib_ok s" using inbox_load_ok[of st] by simp
  with v l show ?thesis unfolding inbox_accept_def Let_def
    by (auto simp: new_entry_def intro!: persist_ok keyed_set dest: ib_ok_keyed split: sum.splits if_splits option.splits)
qed

lemma trim_keyed: "keyed (ib_entries st) \<Longrightarrow> keyed (ib_entries (trimCompleted p st))"
proof -
  have "keyed m \<Longrightarrow> keyed (fold (\<lambda>e m. jmap_delete (ie_id e) m) xs m)" for xs m
    by (induction xs arbitrary: m) (auto intro: keyed_delete)
  then show "keyed (ib_entries st) \<Longrightarrow> keyed (ib_entries (trimCompleted p st))"
    by (simp add: trimCompleted_def Let_def)
qed

lemma inbox_complete_ok: "ib_ok st \<Longrightarrow> inbox_complete p now i v st = (x, st') \<Longrightarrow> ib_ok st'"
  unfolding inbox_complete_def
  by (auto intro!: persist_ok trim_keyed keyed_change dest: ib_ok_keyed split: option.splits)

lemma inbox_fail_ok: "ib_ok st \<Longrightarrow> inbox_fail now i v st = (x, st') \<Longrightarrow> ib_ok st'"
  unfolding inbox_fail_def
  by (auto intro!: persist_ok keyed_change dest: ib_ok_keyed split: option.splits)

lemma start_handler_ok: "keyed (ib_entries st) \<Longrightarrow> ib_ok (start_handler r i b st)"
  using persist_ok[of st] by (simp add: start_handler_def)

lemma run_call_ok: "ib_ok st \<Longrightarrow> ib_ok (run_call now r env ctx st)"
proof -
  assume "ib_ok st"
  obtain x s where l: "inbox_load st = (x, s)" by fastforce
  with \<open>ib_ok st\<close> have "ib_ok s" using inbox_load_ok[of st] by simp
  with l show ?thesis unfolding run_call_def Let_def
    by (auto intro!: start_handler_ok keyed_change dest: ib_ok_keyed split: sum.splits option.splits inbox_status.splits)
qed

lemma run_accept_ok: "ib_ok st \<Longrightarrow> ib_ok (run_accept now r st)"
  unfolding run_accept_def by (auto dest: inbox_accept_ok split: option.splits run_pc.splits prod.splits sum.splits)

lemma run_start_ok: "ib_ok st \<Longrightarrow> ib_ok (run_start r st)"
  unfolding run_start_def by (auto intro: start_handler_ok dest: ib_ok_keyed split: option.splits run_pc.splits)

lemma run_finish_ok: "ib_ok st \<Longrightarrow> ib_ok (run_finish p now r v st)"
  unfolding run_finish_def Let_def
  by (auto dest: inbox_complete_ok inbox_fail_ok split: option.splits run_pc.splits sum.splits prod.splits)

lemma inbox_reachable_ok:
  assumes "inbox_new path mc file = Inr st0" "(inbox_step p)\<^sup>*\<^sup>* st0 st"
  shows "ib_ok st"
  using assms(2)
proof (induction rule: rtranclp_induct)
  case base
  then show ?case using assms(1) by (auto simp: inbox_new_def ib_ok_def keyed_def res_simps)
next
  case (step st st')
  from step(2,3) show ?case
    by (auto elim!: inbox_stepE intro: run_call_ok run_accept_ok run_start_ok run_finish_ok)
      (auto simp: ib_ok_def inbox_crash_def keyed_def)
qed


definition sample_inbox :: "(string, inbox_entry) jsmap \<Rightarrow> inbox" where
  "sample_inbox m = \<lparr>ib_maxCompleted = 1, ib_entries = m, ib_inFlight = [], ib_loaded = True,
     ib_file = Entries (map (Some \<circ> snd) m), ib_runs = [], ib_handled = []\<rparr>"

definition sample_need :: jsval where
  "sample_need = JObj [(''id'', JStr ''n1'')]"


section \<open>Repeats and recovery\<close>

lemma run_steps_idle:
  assumes "jmap_get (ib_runs st) r = Some pc"
  shows "pc = Returned x \<Longrightarrow> run_accept now r st = st" "pc = Returned x \<Longrightarrow> run_start r st = st"
    "pc = Returned x \<Longrightarrow> run_finish p now r v st = st"
    "pc = Handling i \<Longrightarrow> run_accept now r st = st" "pc = Handling i \<Longrightarrow> run_start r st = st"
    "pc = Joined i \<Longrightarrow> run_accept now r st = st" "pc = Joined i \<Longrightarrow> run_start r st = st"
    "pc = Joined i \<Longrightarrow> run_finish p now r v st = st" "pc = Accepting e c \<Longrightarrow> run_start r st = st"
  using assms by (simp_all add: run_accept_def run_start_def run_finish_def)

lemma inbox_load_loaded: "ib_loaded st \<Longrightarrow> inbox_load st = (Inr (), st)"
  by (simp add: inbox_load_def)

lemma set_pc_sel [simp]:
  "jmap_get (ib_runs (set_pc r pc st)) r = Some pc" "ib_entries (set_pc r pc st) = ib_entries st"
  "ib_loaded (set_pc r pc st) = ib_loaded st" "ib_inFlight (set_pc r pc st) = ib_inFlight st"
  "ib_handled (set_pc r pc st) = ib_handled st" "ib_file (set_pc r pc st) = ib_file st"
  by (simp_all add: set_pc_def)

lemma persist_sel [simp]:
  "ib_entries (persist st) = ib_entries st" "ib_loaded (persist st) = ib_loaded st"
  "ib_inFlight (persist st) = ib_inFlight st" "ib_runs (persist st) = ib_runs st" "ib_handled (persist st) = ib_handled st"
  by (simp_all add: persist_def)

lemma start_handler_sel [simp]:
  "jmap_get (ib_runs (start_handler r i b st)) r = Some (Handling i)" "ib_entries (start_handler r i b st) = ib_entries st"
  "ib_loaded (start_handler r i b st) = ib_loaded st"
  "ib_handled (start_handler r i b st) = ib_handled st @ [(i, b)]"
  "ib_inFlight (start_handler r i b st) = (if i \<in> set (ib_inFlight st) then ib_inFlight st else ib_inFlight st @ [i])"
  by (simp_all add: start_handler_def)

lemma trim_sel [simp]:
  "ib_loaded (trimCompleted p st) = ib_loaded st" "ib_inFlight (trimCompleted p st) = ib_inFlight st"
  "ib_runs (trimCompleted p st) = ib_runs st" "ib_handled (trimCompleted p st) = ib_handled st"
  by (simp_all add: trimCompleted_def Let_def)

text \<open>Trimming drops completed entries only.\<close>

lemma trim_get:
  assumes "keyed (ib_entries st)"
  shows "jmap_get (ib_entries (trimCompleted p st)) k = jmap_get (ib_entries st) k \<or>
    (jmap_get (ib_entries (trimCompleted p st)) k = None \<and> (\<exists>e. jmap_get (ib_entries st) k = Some e \<and> ie_status e = Completed))"
proof -
  have del: "jmap_get (fold (\<lambda>e m. jmap_delete (ie_id e) m) xs m) k = (if k \<in> ie_id ` set xs then None else jmap_get m k)" for xs m
    by (induction xs arbitrary: m) auto
  let ?xs = "js_sort (\<lambda>a b. lcmp p (ie_updatedAt a) (ie_updatedAt b)) (filter (\<lambda>e. ie_status e = Completed) (map snd (ib_entries st)))"
  have "\<exists>e. jmap_get (ib_entries st) k = Some e \<and> ie_status e = Completed" if "k \<in> ie_id ` set (take n ?xs)" for n
  proof -
    from that obtain e where "e \<in> set ?xs" "ie_id e = k" by (auto dest: in_set_takeD)
    then have "(k, e) \<in> set (ib_entries st)" "ie_status e = Completed" using assms by (auto simp: keyed_def)
    then show ?thesis using assms by (auto simp: keyed_def)
  qed
  then show ?thesis by (auto simp: trimCompleted_def Let_def del)
qed

text \<open>What the end of a handler leaves: the entry finished (or trimmed), and the outcome returned.\<close>

lemma run_finish_effect:
  assumes pc: "jmap_get (ib_runs st) r = Some (Handling i)" and e: "jmap_get (ib_entries st) i = Some e"
  shows "jmap_get (ib_runs (run_finish p now r out st)) r = Some (Returned out)"
    and "ib_entries (run_finish p now r out st) = ib_entries (case out of
       Inr v \<Rightarrow> trimCompleted p (st\<lparr>ib_entries := jmap_set i (e\<lparr>ie_status := Completed, ie_result := v, ie_error := None, ie_updatedAt := now\<rparr>) (ib_entries st)\<rparr>)
     | Inl x \<Rightarrow> st\<lparr>ib_entries := jmap_set i (e\<lparr>ie_status := Failed, ie_result := JNull, ie_error := Some (serializedError x), ie_updatedAt := now\<rparr>) (ib_entries st)\<rparr>)"
    and "ib_loaded (run_finish p now r out st) = ib_loaded st"
    and "ib_inFlight (run_finish p now r out st) = removeAll i (ib_inFlight st)"
    and "ib_handled (run_finish p now r out st) = ib_handled st"
  using assms by (auto simp: run_finish_def inbox_complete_def inbox_fail_def split: sum.splits)

abbreviation env_id :: "jsval \<Rightarrow> string" where
  "env_id envelope \<equiv> str_of (oget envelope ''id'')"

lemma run_alone_finished:
  assumes "ib_loaded st" "jmap_get (ib_entries st) (env_id env) = Some e" "ie_status e \<noteq> Pending"
  shows "run_alone p now r h env ctx st = set_pc r (Returned (case ie_status e of
       Completed \<Rightarrow> Inr (ie_result e) | _ \<Rightarrow> Inl (restoredError (ie_error e)))) st"
proof -
  have call: "run_call now r env ctx st = set_pc r (Returned (case ie_status e of
       Completed \<Rightarrow> Inr (ie_result e) | _ \<Rightarrow> Inl (restoredError (ie_error e)))) st"
    using assms by (cases "ie_status e") (simp_all add: run_call_def inbox_load_loaded)
  show ?thesis unfolding run_alone_def Let_def call by (simp add: run_steps_idle[OF set_pc_sel(1)])
qed

lemma run_alone_pending:
  assumes "ib_loaded st" "jmap_get (ib_entries st) (env_id env) = Some e" "ie_status e = Pending"
    "env_id env \<notin> set (ib_inFlight st)"
  shows "run_alone p now r h env ctx st = run_finish p now r (h (ie_envelope e))
    (start_handler r (env_id env) True (st\<lparr>ib_entries := jmap_set (env_id env)
       (e\<lparr>ie_attempts := ie_attempts e + 1, ie_updatedAt := now\<rparr>) (ib_entries st)\<rparr>))"
  using assms by (simp add: run_alone_def run_call_def inbox_load_loaded Let_def run_steps_idle stored_envelope_def)

lemma run_alone_new:
  assumes "ib_loaded st" "jmap_get (ib_entries st) (env_id env) = None" "env_id env \<noteq> []"
    "env_id env \<notin> set (ib_inFlight st)"
  shows "\<exists>st1. run_alone p now r h env ctx st = run_finish p now r (h env) (start_handler r (env_id env) False st1) \<and>
    ib_entries st1 = jmap_set (env_id env) (new_entry now (env_id env) env ctx) (ib_entries st) \<and>
    ib_loaded st1 \<and> ib_inFlight st1 = ib_inFlight st \<and> ib_handled st1 = ib_handled st"
  using assms
  by (intro exI[of _ "set_pc r (Accepted (new_entry now (env_id env) env ctx)) (persist ((set_pc r (Accepting env ctx) st)
        \<lparr>ib_entries := jmap_set (env_id env) (new_entry now (env_id env) env ctx) (ib_entries st)\<rparr>))"])
    (simp add: run_alone_def run_call_def inbox_load_loaded Let_def stored_envelope_def run_accept_def inbox_accept_def
      run_start_def new_entry_def)

definition finished_as :: "inbox_entry \<Rightarrow> jserror + jsval \<Rightarrow> bool" where
  "finished_as e out \<longleftrightarrow> (case out of Inr v \<Rightarrow> ie_status e = Completed \<and> ie_result e = v
     | Inl x \<Rightarrow> ie_status e = Failed \<and> (message x \<noteq> [] \<longrightarrow> message (restoredError (ie_error e)) = message x))"

lemma restored_message: "message x \<noteq> [] \<Longrightarrow> message (restoredError (Some (serializedError x))) = message x"
  by (cases x) (auto simp: restoredError_def serializedError_def Let_def)

lemma restored_again: "restoredError (Some (serializedError (restoredError y))) = restoredError y"
  by (auto simp: restoredError_def serializedError_def Let_def split: option.splits)

lemma run_finish_finished:
  assumes k: "keyed (ib_entries st)" and i: "i \<noteq> []"
    and pc: "jmap_get (ib_runs st) r = Some (Handling i)" and e: "jmap_get (ib_entries st) i = Some e"
    and e': "jmap_get (ib_entries (run_finish p now r out st)) i = Some e'"
  shows "finished_as e' out"
proof (cases out)
  case (Inl x)
  with e' show ?thesis by (auto simp: run_finish_effect(2)[OF pc e] finished_as_def restored_message)
next
  case (Inr v)
  let ?st = "st\<lparr>ib_entries := jmap_set i (e\<lparr>ie_status := Completed, ie_result := v, ie_error := None, ie_updatedAt := now\<rparr>) (ib_entries st)\<rparr>"
  have "keyed (ib_entries ?st)" using k e by (auto intro: keyed_change)
  from trim_get[OF this, of p i] Inr e' show ?thesis
    by (auto simp: run_finish_effect(2)[OF pc e] finished_as_def)
qed

lemma run_finish_get:
  assumes k: "keyed (ib_entries s)" and pc: "jmap_get (ib_runs s) r = Some (Handling i)"
    and e: "jmap_get (ib_entries s) i = Some e" and st': "st' = run_finish p now r out s"
  shows "j \<noteq> i \<Longrightarrow> jmap_get (ib_entries st') j = jmap_get (ib_entries s) j \<or>
      (jmap_get (ib_entries st') j = None \<and> (\<exists>x. jmap_get (ib_entries s) j = Some x \<and> ie_status x = Completed))"
    and "jmap_get (ib_entries st') i = Some e' \<Longrightarrow> ie_status e' \<noteq> Pending \<and> ie_attempts e' = ie_attempts e"
proof -
  let ?done = "\<lambda>v. s\<lparr>ib_entries := jmap_set i (e\<lparr>ie_status := Completed, ie_result := v, ie_error := None, ie_updatedAt := now\<rparr>) (ib_entries s)\<rparr>"
  have "keyed (ib_entries (?done v))" for v using keyed_change[OF k e] by simp
  note trim = trim_get[OF this, of p]
  show "jmap_get (ib_entries st') j = jmap_get (ib_entries s) j \<or>
      (jmap_get (ib_entries st') j = None \<and> (\<exists>x. jmap_get (ib_entries s) j = Some x \<and> ie_status x = Completed))" if "j \<noteq> i"
    using trim[of _ j] that unfolding st' run_finish_effect(2)[OF pc e] by (cases out) auto
  show "ie_status e' \<noteq> Pending \<and> ie_attempts e' = ie_attempts e" if "jmap_get (ib_entries st') i = Some e'"
  proof (cases out)
    case (Inr v)
    with trim[of v i] that show ?thesis unfolding st' run_finish_effect(2)[OF pc e] by auto
  qed (use that in \<open>auto simp: st' run_finish_effect(2)[OF pc e]\<close>)
qed

lemma handled_finish:
  assumes "keyed (ib_entries s)" "i \<noteq> []" "jmap_get (ib_runs s) r = Some (Handling i)" "jmap_get (ib_entries s) i = Some e"
    "ib_loaded s" "st' = run_finish p now r out s" "jmap_get (ib_entries st') i = Some e'"
  shows "\<exists>out. jmap_get (ib_runs st') r = Some (Returned out) \<and> finished_as e' out \<and> ib_loaded st'"
  using run_finish_finished[OF assms(1-4)] run_finish_effect(1,3)[OF assms(3,4)] assms(5-7) by metis

text \<open>
  A finished run answers its repeats. When a call of \<^verbatim>\<open>run\<close> has returned or thrown and its entry is
  still kept, every later call with the same envelope identifier returns the same result, or throws
  an error with the same message, from the entry: nothing else changes and the handler is not
  invoked again.
\<close>

theorem inbox_repeat_answered:
  assumes ok: "ib_ok st" "ib_loaded st" and i: "env_id env \<noteq> []" "env_id env \<notin> set (ib_inFlight st)"
    and st': "st' = run_alone p now r handler env ctx st"
    and e': "jmap_get (ib_entries st') (env_id env) = Some e'"
  shows "\<exists>out out'. jmap_get (ib_runs st') r = Some (Returned out) \<and>
    run_alone p now' r' handler env ctx' st' = set_pc r' (Returned out') st' \<and>
    (case out of Inr v \<Rightarrow> out' = Inr v
     | Inl x \<Rightarrow> (\<exists>x'. out' = Inl x' \<and> (message x = [] \<or> message x' = message x)))"
proof -
  have k: "keyed (ib_entries st)" using ok(1) by (rule ib_ok_keyed)
  have "\<exists>out. jmap_get (ib_runs st') r = Some (Returned out) \<and> finished_as e' out \<and> ib_loaded st'"
  proof (cases "jmap_get (ib_entries st) (env_id env)")
    case None
    from run_alone_new[OF ok(2) None i] obtain st1 where
      run: "st' = run_finish p now r (handler env) (start_handler r (env_id env) False st1)"
      and st1: "ib_entries st1 = jmap_set (env_id env) (new_entry now (env_id env) env ctx) (ib_entries st)" "ib_loaded st1"
      unfolding st' by blast
    let ?s = "start_handler r (env_id env) False st1"
    have pc: "jmap_get (ib_runs ?s) r = Some (Handling (env_id env))" by simp
    have g: "jmap_get (ib_entries ?s) (env_id env) = Some (new_entry now (env_id env) env ctx)" using st1 by simp
    have "keyed (ib_entries ?s)" using k i st1 by (auto intro: keyed_set simp: new_entry_def)
    from handled_finish[OF this i(1) pc g _ run e'] st1(2) show ?thesis by simp
  next
    case (Some e)
    show ?thesis
    proof (cases "ie_status e = Pending")
      case True
      let ?s = "start_handler r (env_id env) True (st\<lparr>ib_entries := jmap_set (env_id env)
         (e\<lparr>ie_attempts := ie_attempts e + 1, ie_updatedAt := now\<rparr>) (ib_entries st)\<rparr>)"
      have run: "st' = run_finish p now r (handler (ie_envelope e)) ?s"
        unfolding st' by (rule run_alone_pending[OF ok(2) Some True i(2)])
      have pc: "jmap_get (ib_runs ?s) r = Some (Handling (env_id env))" by simp
      have g: "jmap_get (ib_entries ?s) (env_id env) = Some (e\<lparr>ie_attempts := ie_attempts e + 1, ie_updatedAt := now\<rparr>)" by simp
      have "keyed (ib_entries ?s)" using k Some by (auto intro: keyed_change)
      from handled_finish[OF this i(1) pc g _ run e'] ok(2) show ?thesis by simp
    next
      case False
      with run_alone_finished[OF ok(2) Some False] Some e' ok(2) show ?thesis
        unfolding st' by (cases "ie_status e") (auto simp: finished_as_def)
    qed
  qed
  then obtain out where out: "jmap_get (ib_runs st') r = Some (Returned out)" "finished_as e' out" "ib_loaded st'" by blast
  then have "ie_status e' \<noteq> Pending" by (auto simp: finished_as_def split: sum.splits)
  from run_alone_finished[OF out(3) e' this] out(1,2) show ?thesis
    by (auto simp: finished_as_def split: sum.splits)
qed

lemma sample_inbox_ok: "ib_ok (sample_inbox [])"
  by (simp add: sample_inbox_def ib_ok_def keyed_def reload_def)

theorem inbox_repeat_answered_witness:
  "\<exists>out'. run_alone sample_platform ''u'' 1 (\<lambda>_. Inl (Err ''no'')) sample_need JUndef
       (run_alone sample_platform ''t'' 0 (\<lambda>_. Inl (Err ''no'')) sample_need JUndef (sample_inbox [])) =
     set_pc 1 (Returned out') (run_alone sample_platform ''t'' 0 (\<lambda>_. Inl (Err ''no'')) sample_need JUndef (sample_inbox []))"
proof -
  let ?h = "\<lambda>_. Inl (Err ''no'') :: jserror + jsval"
  let ?st = "run_alone sample_platform ''t'' 0 ?h sample_need JUndef (sample_inbox [])"
  have e: "env_id sample_need = ''n1''" "ib_loaded (sample_inbox [])" "ib_inFlight (sample_inbox []) = []" "ib_entries (sample_inbox []) = []"
    by (simp_all add: sample_need_def sample_inbox_def oget_def)
  have "jmap_get (ib_entries (sample_inbox [])) (env_id sample_need) = None" by (simp add: e)
  from run_alone_new[OF e(2) this, of sample_platform "''t''" 0 ?h JUndef] e obtain st1 where run: "?st = run_finish sample_platform ''t'' 0 (Inl (Err ''no'')) (start_handler 0 ''n1'' False st1)"
    and st1: "ib_entries st1 = [(''n1'', new_entry ''t'' ''n1'' sample_need JUndef)]" by auto
  have pc: "jmap_get (ib_runs (start_handler 0 ''n1'' False st1)) 0 = Some (Handling ''n1'')" by simp
  have g: "jmap_get (ib_entries (start_handler 0 ''n1'' False st1)) ''n1'' = Some (new_entry ''t'' ''n1'' sample_need JUndef)"
    using st1 by simp
  obtain e' where "jmap_get (ib_entries ?st) ''n1'' = Some e'"
    unfolding run run_finish_effect(2)[OF pc g] using st1 by simp
  with inbox_repeat_answered[OF sample_inbox_ok, of sample_need ?st sample_platform "''t''" 0 ?h JUndef e' "''u''" 1 JUndef] e
  show ?thesis by auto
qed

text \<open>
  C31. The in-flight map does not keep concurrent runs of a new envelope apart. A second call that
  arrives while the first one awaits its \<^verbatim>\<open>accept\<close> finds the entry pending and not in flight, so two
  handlers run for one envelope at the same time.
\<close>

theorem inbox_double_run:
  "\<exists>st0 st. inbox_new ''f'' (JNum 1) Absent = Inr st0 \<and> (inbox_step p)\<^sup>*\<^sup>* st0 st \<and>
     jmap_get (ib_runs st) 0 = Some (Handling ''n1'') \<and> jmap_get (ib_runs st) 1 = Some (Handling ''n1'') \<and>
     ib_handled st = [(''n1'', True), (''n1'', False)]"
proof -
  obtain st0 where st0: "inbox_new ''f'' (JNum 1) Absent = Inr st0" by (simp add: inbox_new_def)
  let ?s1 = "run_call ''t'' 0 sample_need JUndef st0"
  let ?s2 = "run_accept ''t'' 0 ?s1"
  let ?s3 = "run_call ''t'' 1 sample_need JUndef ?s2"
  have "(inbox_step p)\<^sup>*\<^sup>* st0 (run_start 0 ?s3)"
    by (meson converse_rtranclp_into_rtranclp rtranclp.rtrancl_refl step_call step_accept step_start)
  moreover have "?s1 = set_pc 0 (Accepting sample_need JUndef) (st0\<lparr>ib_entries := [], ib_loaded := True\<rparr>)"
    using st0 by (auto simp: inbox_new_def res_simps run_call_def inbox_load_def Let_def)
  then have "?s2 = set_pc 0 (Accepted (new_entry ''t'' ''n1'' sample_need JUndef)) (persist (?s1\<lparr>ib_entries :=
      [(''n1'', new_entry ''t'' ''n1'' sample_need JUndef)]\<rparr>))"
    by (simp add: run_accept_def inbox_accept_def inbox_load_loaded sample_need_def oget_def Let_def)
  then have "?s3 = start_handler 1 ''n1'' True (?s2\<lparr>ib_entries := [(''n1'', (new_entry ''t'' ''n1'' sample_need JUndef)
      \<lparr>ie_attempts := 1, ie_updatedAt := ''t''\<rparr>)]\<rparr>)"
    using \<open>?s1 = _\<close> st0
    by (auto simp: run_call_def inbox_load_loaded sample_need_def oget_def Let_def new_entry_def inbox_new_def res_simps)
  then have "jmap_get (ib_runs ?s3) 0 = Some (Accepted (new_entry ''t'' ''n1'' sample_need JUndef))"
    "jmap_get (ib_runs ?s3) 1 = Some (Handling ''n1'')" "ib_handled ?s3 = [(''n1'', True)]"
    using \<open>?s2 = _\<close> \<open>?s1 = _\<close> st0
    by (simp_all add: start_handler_def set_pc_def) (auto simp: inbox_new_def res_simps)
  then have "jmap_get (ib_runs (run_start 0 ?s3)) 0 = Some (Handling ''n1'')"
    "jmap_get (ib_runs (run_start 0 ?s3)) 1 = Some (Handling ''n1'')"
    "ib_handled (run_start 0 ?s3) = [(''n1'', True), (''n1'', False)]"
    by (simp_all add: run_start_def new_entry_def) (simp add: start_handler_def set_pc_def)
  ultimately show ?thesis using st0 by blast
qed

text \<open>The first attempt at a new envelope is counted on a clone: the kept entry still says zero.\<close>

lemma inbox_first_attempt_uncounted:
  assumes "ib_ok st" "ib_loaded st" "jmap_get (ib_entries st) (env_id env) = None" "env_id env \<noteq> []"
    "env_id env \<notin> set (ib_inFlight st)" "jmap_get (ib_entries (run_alone p now r handler env ctx st)) (env_id env) = Some e"
  shows "ie_attempts e = 0"
proof -
  from run_alone_new[OF assms(2-5)] obtain st1 where
    run: "run_alone p now r handler env ctx st = run_finish p now r (handler env) (start_handler r (env_id env) False st1)"
    and st1: "ib_entries st1 = jmap_set (env_id env) (new_entry now (env_id env) env ctx) (ib_entries st)" by blast
  let ?s = "start_handler r (env_id env) False st1"
  have pc: "jmap_get (ib_runs ?s) r = Some (Handling (env_id env))" by simp
  have g: "jmap_get (ib_entries ?s) (env_id env) = Some (new_entry now (env_id env) env ctx)" using st1 by simp
  have "keyed (ib_entries ?s)"
    using ib_ok_keyed[OF assms(1)] assms(4) st1 by (simp add: keyed_set new_entry_def)
  from run_finish_get(2)[OF this pc g refl] assms(6) run show ?thesis by (simp add: new_entry_def)
qed

definition pending_ids :: "inbox \<Rightarrow> string set" where
  "pending_ids st = {k. \<exists>e. jmap_get (ib_entries st) k = Some e \<and> ie_status e = Pending}"

lemma run_pending_effect:
  assumes ok: "ib_ok st" "ib_loaded st" "ib_inFlight st = []"
    and e: "jmap_get (ib_entries st) i = Some e" "ie_status e = Pending" "env_id (ie_envelope e) = i"
    and st': "st' = run_alone p now r h (ie_envelope e) ctx st"
  shows "ib_ok st' \<and> ib_loaded st' \<and> ib_inFlight st' = [] \<and> ib_handled st' = ib_handled st @ [(i, True)] \<and>
    pending_ids st' = pending_ids st - {i} \<and> (\<forall>k\<in>pending_ids st'. jmap_get (ib_entries st') k = jmap_get (ib_entries st) k)"
proof -
  let ?s = "start_handler r i True (st\<lparr>ib_entries := jmap_set i
     (e\<lparr>ie_attempts := ie_attempts e + 1, ie_updatedAt := now\<rparr>) (ib_entries st)\<rparr>)"
  have run: "st' = run_finish p now r (h (ie_envelope e)) ?s"
    using run_alone_pending[of st "ie_envelope e" e p now r h ctx] ok e st' by simp
  have pc: "jmap_get (ib_runs ?s) r = Some (Handling i)" by simp
  have g: "jmap_get (ib_entries ?s) i = Some (e\<lparr>ie_attempts := ie_attempts e + 1, ie_updatedAt := now\<rparr>)" by simp
  have k: "keyed (ib_entries ?s)" using keyed_change[OF ib_ok_keyed[OF ok(1)] e(1)] by simp
  then have "ib_ok ?s" by (intro start_handler_ok) simp
  have entry: "jmap_get (ib_entries st') j = jmap_get (ib_entries st) j \<or>
      (jmap_get (ib_entries st') j = None \<and> (\<exists>x. jmap_get (ib_entries st) j = Some x \<and> ie_status x = Completed))" if "j \<noteq> i" for j
    using run_finish_get(1)[OF k pc g run that] that by simp
  have own: "\<not> (\<exists>x. jmap_get (ib_entries st') i = Some x \<and> ie_status x = Pending)"
    using run_finish_get(2)[OF k pc g run] by blast
  have "pending_ids st' = pending_ids st - {i} \<and> (\<forall>k\<in>pending_ids st'. jmap_get (ib_entries st') k = jmap_get (ib_entries st) k)"
  proof -
    have "k \<in> pending_ids st' \<longleftrightarrow> k \<in> pending_ids st \<and> k \<noteq> i" for k
    proof (cases "k = i")
      case False
      from entry[OF this] False show ?thesis by (cases "jmap_get (ib_entries st) k") (auto simp: pending_ids_def)
    qed (use own in \<open>auto simp: pending_ids_def\<close>)
    moreover have "jmap_get (ib_entries st') k = jmap_get (ib_entries st) k" if "k \<in> pending_ids st'" for k
      using that entry[of k] own by (cases "k = i") (auto simp: pending_ids_def)
    ultimately show ?thesis by blast
  qed
  moreover have "ib_ok st'" unfolding run using \<open>ib_ok ?s\<close> by (rule run_finish_ok)
  ultimately show ?thesis unfolding run using ok run_finish_effect(3,4,5)[OF pc g] by simp
qed



end
