(* ===== verification/Lifecycle_Ledger.thy ===== *)
theory Lifecycle_Ledger
  imports Canonical_Json
begin

text \<open>
  The durable lifecycle ledger of \<^verbatim>\<open>network/relay/durable-lifecycle-ledger.js\<close>. Its four SQLite tables
  are maps in row order; a statement's text is its effect on the map; \<^verbatim>\<open>BEGIN IMMEDIATE\<close> /
  \<^verbatim>\<open>COMMIT\<close> / \<^verbatim>\<open>ROLLBACK\<close> is all-or-nothing. Shown: rows are never lost, identities never change and a
  terminal state is final; the outbox never contradicts the needs (a RESULT only for a completed
  need, a REVOKE only for a cancelled one, a PARTIAL only below the next sequence); tables stay
  within their capacity; an effect is acquired at most once.

  File checks, the schema migration and the database's own availability are not modelled.
\<close>

section \<open>Tables\<close>

datatype need_status = Matched | NCompleted | NCancelled | NFailed

record need_row =
  nr_requester :: string
  nr_provider :: string
  nr_fingerprint :: string
  nr_capability :: string
  nr_mode :: string
  nr_status :: need_status
  nr_created_at :: string
  nr_terminal_at :: "string option"
  nr_partial_sequence :: int
  nr_partial_digest :: "string option"

record outbox_row =
  or_request_id :: string
  or_recipient :: string
  or_kind :: string
  or_event_json :: string
  or_created_at :: string
  or_acknowledged_at :: "string option"

record offer_row =
  of_owner :: string
  of_fingerprint :: string
  of_revoked :: bool

datatype effect_status = EStarted | ECompleted | EFailed | EUnknown

record effect_row =
  ef_provider :: string
  ef_requester :: string
  ef_fingerprint :: string
  ef_status :: effect_status
  ef_created_at :: string
  ef_finished_at :: "string option"

record ledger =
  lg_maxRecords :: nat
  lg_needs :: "(string, need_row) jsmap"
  lg_outbox :: "(string, outbox_row) jsmap"
  lg_offers :: "(string, offer_row) jsmap"
  lg_effects :: "(string, effect_row) jsmap"

record delivery =
  dl_recipient :: string
  dl_kind :: string
  dl_event :: jsval

definition lifecycleFingerprint :: "platform \<Rightarrow> jsval \<Rightarrow> string result" where
  "lifecycleFingerprint p v = (case json_text p v of Some t \<Rightarrow> Inr (sha256 p t)
     | None \<Rightarrow> Inl (TypeError ''The data argument must be of type string''))"

definition ledger_new :: "string \<Rightarrow> jsval \<Rightarrow> ledger result" where
  "ledger_new filePath maxRecords =
     (if filePath = [] then Inl (Err ''durable lifecycle filePath is required'')
      else if \<not> is_safe_integer maxRecords \<or> num_of maxRecords < 1 then Inl (Err ''maxRecords must be a positive safe integer'')
      else Inr \<lparr>lg_maxRecords = nat (int_of maxRecords), lg_needs = [], lg_outbox = [], lg_offers = [], lg_effects = []\<rparr>)"

section \<open>Transactions\<close>

definition unavailable :: jserror where
  "unavailable = Fault 503 ''lifecycle_ledger_unavailable''"

fun as_fault :: "jserror \<Rightarrow> jserror" where
  "as_fault (Fault s c) = Fault s c"
| "as_fault _ = unavailable"

definition transaction :: "(ledger \<Rightarrow> ('a \<times> ledger) result) \<Rightarrow> ledger \<Rightarrow> 'a result \<times> ledger" where
  "transaction operation l = (case operation l of Inl e \<Rightarrow> (Inl (as_fault e), l) | Inr (v, l') \<Rightarrow> (Inr v, l'))"

text \<open>\<^verbatim>\<open>INSERT\<close> of a row whose primary key is taken throws.\<close>

definition insert_row :: "string \<Rightarrow> 'r \<Rightarrow> (string, 'r) jsmap \<Rightarrow> (string, 'r) jsmap result" where
  "insert_row k r t = (if jmap_get t k \<noteq> None then Inl (Err ''UNIQUE constraint failed'') else Inr (t @ [(k, r)]))"

definition event_id :: "platform \<Rightarrow> string \<Rightarrow> string \<Rightarrow> jsval \<Rightarrow> string" where
  "event_id p kind requestId event =
     (if kind = ''PARTIAL'' then ''partial:'' @ requestId @ '':'' @ to_string p (get event ''sequence'')
      else to_lower kind @ '':'' @ requestId)"

definition persistOutbox ::
  "platform \<Rightarrow> string \<Rightarrow> string \<Rightarrow> string \<Rightarrow> string \<Rightarrow> delivery option \<Rightarrow> ledger \<Rightarrow> ledger result" where
  "persistOutbox p now requestId expectedRecipient expectedKind delivery l =
     (case delivery of None \<Rightarrow> Inr l
      | Some d \<Rightarrow>
        (if dl_recipient d \<noteq> expectedRecipient \<or> dl_kind d \<noteq> expectedKind \<or> \<not> truthy (dl_event d) \<or>
            get (dl_event d) ''kind'' \<noteq> JStr (dl_kind d) then Inl (Fault 400 ''invalid_lifecycle_delivery'')
         else (case json_text p (dl_event d) of None \<Rightarrow> Inl (TypeError ''Cannot read properties of undefined'')
         | Some body \<Rightarrow>
           if length body > 1024 * 1024 then Inl (Fault 413 ''lifecycle_delivery_too_large'')
           else if length (lg_outbox l) \<ge> lg_maxRecords l * 8 then Inl (Fault 503 ''lifecycle_outbox_capacity_reached'')
           else rbind (insert_row (event_id p (dl_kind d) requestId (dl_event d))
               \<lparr>or_request_id = requestId, or_recipient = dl_recipient d, or_kind = dl_kind d, or_event_json = body,
                 or_created_at = now, or_acknowledged_at = None\<rparr> (lg_outbox l)) (\<lambda>t. Inr (l\<lparr>lg_outbox := t\<rparr>)))))"

section \<open>Operations\<close>

definition getNeed :: "string \<Rightarrow> ledger \<Rightarrow> need_row option" where
  "getNeed i l = jmap_get (lg_needs l) i"

definition getOffer :: "string \<Rightarrow> ledger \<Rightarrow> offer_row option" where
  "getOffer i l = jmap_get (lg_offers l) i"

definition getEffect :: "string \<Rightarrow> ledger \<Rightarrow> effect_row option" where
  "getEffect i l = jmap_get (lg_effects l) i"

definition pendingDeliveries :: "string \<Rightarrow> jsval \<Rightarrow> ledger \<Rightarrow> (string \<times> outbox_row) list result" where
  "pendingDeliveries recipient limit l =
     (if recipient = [] \<or> \<not> is_safe_integer limit \<or> num_of limit < 1 \<or> num_of limit > 100
      then Inl (Fault 400 ''invalid_delivery_query'')
      else Inr (take (nat (int_of limit)) (filter (\<lambda>(k, r). or_recipient r = recipient \<and> or_acknowledged_at r = None \<and>
        (case jmap_get (lg_needs l) (or_request_id r) of Some n \<Rightarrow> or_kind r \<noteq> ''NEED'' \<or> nr_status n = Matched | None \<Rightarrow> False))
        (lg_outbox l))))"

text \<open>The result of an acknowledgement is its \<^verbatim>\<open>idempotent\<close> flag.\<close>

definition acknowledgeDelivery :: "string \<Rightarrow> string \<Rightarrow> string \<Rightarrow> ledger \<Rightarrow> bool result \<times> ledger" where
  "acknowledgeDelivery now eventId recipient l =
     (if eventId = [] \<or> recipient = [] then (Inl (Fault 400 ''invalid_delivery_ack''), l)
      else transaction (\<lambda>l. case jmap_get (lg_outbox l) eventId of
          None \<Rightarrow> Inl (Fault 404 ''delivery_not_found'')
        | Some row \<Rightarrow>
           if or_recipient row \<noteq> recipient then Inl (Fault 404 ''delivery_not_found'')
           else if or_acknowledged_at row \<noteq> None then Inr (True, l)
           else Inr (False, l\<lparr>lg_outbox := jmap_set eventId (row\<lparr>or_acknowledged_at := Some now\<rparr>) (lg_outbox l)\<rparr>)) l)"

definition reserveNeed ::
  "platform \<Rightarrow> string \<Rightarrow> string \<Rightarrow> string \<Rightarrow> string \<Rightarrow> string \<Rightarrow> string \<Rightarrow> string \<Rightarrow> delivery option \<Rightarrow> ledger \<Rightarrow>
     need_row result \<times> ledger" where
  "reserveNeed p now i requester provider fingerprint capability mode delivery l =
     (if [] \<in> {i, requester, provider, fingerprint, capability, mode}
      then (Inl (Fault 400 ''invalid_lifecycle_reservation''), l)
      else transaction (\<lambda>l.
        if jmap_get (lg_needs l) i \<noteq> None then Inl (Fault 409 ''duplicate_request'')
        else if length (lg_needs l) \<ge> lg_maxRecords l then Inl (Fault 503 ''need_idempotency_capacity_reached'')
        else (let row = \<lparr>nr_requester = requester, nr_provider = provider, nr_fingerprint = fingerprint,
                nr_capability = capability, nr_mode = mode, nr_status = Matched, nr_created_at = now, nr_terminal_at = None,
                nr_partial_sequence = 0, nr_partial_digest = None\<rparr>
              in rbind (persistOutbox p now i provider ''NEED'' delivery (l\<lparr>lg_needs := lg_needs l @ [(i, row)]\<rparr>)) (\<lambda>l'.
                   Inr (row, l')))) l)"

definition reserveOffer :: "string \<Rightarrow> string \<Rightarrow> string \<Rightarrow> ledger \<Rightarrow> offer_row result \<times> ledger" where
  "reserveOffer i owner fingerprint l =
     (if [] \<in> {i, owner, fingerprint} then (Inl (Fault 400 ''invalid_offer_reservation''), l)
      else transaction (\<lambda>l.
        if jmap_get (lg_offers l) i \<noteq> None then Inl (Fault 409 ''duplicate_offer'')
        else if length (lg_offers l) \<ge> lg_maxRecords l then Inl (Fault 503 ''offer_idempotency_capacity_reached'')
        else (let row = \<lparr>of_owner = owner, of_fingerprint = fingerprint, of_revoked = False\<rparr>
              in Inr (row, l\<lparr>lg_offers := lg_offers l @ [(i, row)]\<rparr>))) l)"

definition revokeOffer :: "string \<Rightarrow> string \<Rightarrow> ledger \<Rightarrow> offer_row result \<times> ledger" where
  "revokeOffer i owner = transaction (\<lambda>l. case jmap_get (lg_offers l) i of
       None \<Rightarrow> Inl (Fault 404 ''target_not_found'')
     | Some row \<Rightarrow> if of_owner row \<noteq> owner then Inl (Fault 403 ''not_target_owner'')
         else Inr (row\<lparr>of_revoked := True\<rparr>, l\<lparr>lg_offers := jmap_set i (row\<lparr>of_revoked := True\<rparr>) (lg_offers l)\<rparr>))"

fun closed_reason :: "need_status \<Rightarrow> string" where
  "closed_reason NCancelled = ''request_cancelled''"
| "closed_reason NFailed = ''request_failed''"
| "closed_reason _ = ''request_already_completed''"

text \<open>\<^verbatim>\<open>to\<close> is \<open>None\<close> where it is none of the three terminal states.\<close>

definition transitionNeed ::
  "platform \<Rightarrow> string \<Rightarrow> string \<Rightarrow> string \<Rightarrow> string \<Rightarrow> need_status option \<Rightarrow> delivery option \<Rightarrow> ledger \<Rightarrow>
     (bool \<times> need_row) result \<times> ledger" where
  "transitionNeed p now i requester provider target delivery l =
     (if target \<notin> {Some NCancelled, Some NCompleted, Some NFailed} then (Inl (Fault 400 ''invalid_lifecycle_transition''), l)
      else transaction (\<lambda>l. case jmap_get (lg_needs l) i of
          None \<Rightarrow> Inl (Fault 404 ''request_not_found'')
        | Some row \<Rightarrow>
           if requester \<noteq> [] \<and> nr_requester row \<noteq> requester then Inl (Fault 403 ''not_request_owner'')
           else if provider \<noteq> [] \<and> nr_provider row \<noteq> provider then Inl (Fault 403 ''provider_mismatch'')
           else if nr_status row \<noteq> Matched then
             (if target = Some NCancelled \<and> nr_status row = NCancelled then Inr ((False, row), l)
              else Inl (Fault 409 (closed_reason (nr_status row))))
           else (let s = (case target of Some s \<Rightarrow> s | None \<Rightarrow> Matched);
                     row' = row\<lparr>nr_status := s, nr_terminal_at := Some now\<rparr>;
                     l' = l\<lparr>lg_needs := jmap_set i row' (lg_needs l)\<rparr>
                 in rbind (if s = NCompleted then persistOutbox p now i (nr_requester row) ''RESULT'' delivery l'
                           else if s = NCancelled then persistOutbox p now i (nr_provider row) ''REVOKE'' delivery l'
                           else if delivery \<noteq> None then Inl (Fault 400 ''invalid_lifecycle_delivery'')
                           else Inr l') (\<lambda>l''. Inr ((True, row'), l'')))) l)"

text \<open>The result is \<open>Inl\<close> for an idempotent repeat, \<open>Inr\<close> of the previous digest otherwise.\<close>

definition acceptPartial ::
  "platform \<Rightarrow> string \<Rightarrow> string \<Rightarrow> string \<Rightarrow> jsval \<Rightarrow> string \<Rightarrow> delivery option \<Rightarrow> ledger \<Rightarrow>
     (unit + string option) result \<times> ledger" where
  "acceptPartial p now i provider sequence dig delivery l =
     (if \<not> is_safe_integer sequence \<or> num_of sequence < 0 then (Inl (Fault 400 ''invalid_partial_sequence''), l)
      else transaction (\<lambda>l. case jmap_get (lg_needs l) i of
          None \<Rightarrow> Inl (Fault 404 ''request_not_found'')
        | Some row \<Rightarrow>
           if nr_provider row \<noteq> provider then Inl (Fault 403 ''provider_mismatch'')
           else if nr_status row \<noteq> Matched then Inl (Fault 409 (closed_reason (nr_status row)))
           else if int_of sequence = nr_partial_sequence row - 1 \<and> nr_partial_digest row = Some dig then Inr (Inl (), l)
           else if int_of sequence \<noteq> nr_partial_sequence row then Inl (Fault 409 ''partial_sequence_mismatch'')
           else (let l' = l\<lparr>lg_needs := jmap_set i (row\<lparr>nr_partial_sequence := int_of sequence + 1, nr_partial_digest := Some dig\<rparr>) (lg_needs l)\<rparr>
                 in rbind (case delivery of None \<Rightarrow> Inr l'
                     | Some d \<Rightarrow> if oget (dl_event d) ''sequence'' \<noteq> sequence \<or> oget (dl_event d) ''requestId'' \<noteq> JStr i
                         then Inl (Fault 400 ''invalid_partial_delivery'')
                         else persistOutbox p now i (nr_requester row) ''PARTIAL'' delivery l')
                   (\<lambda>l''. Inr (Inr (nr_partial_digest row), l'')))) l)"

definition partial_key :: "string \<Rightarrow> int \<Rightarrow> string" where
  "partial_key i n = ''partial:'' @ i @ '':'' @ int_text n"

definition rollbackPartial :: "string \<Rightarrow> int \<Rightarrow> string \<Rightarrow> string option \<Rightarrow> ledger \<Rightarrow> bool result \<times> ledger" where
  "rollbackPartial i sequence dig previousDigest = transaction (\<lambda>l.
     if jmap_get (lg_outbox l) (partial_key i sequence) \<noteq> None then Inr (False, l)
     else (case jmap_get (lg_needs l) i of
         Some row \<Rightarrow>
           if nr_status row = Matched \<and> nr_partial_sequence row = sequence + 1 \<and> nr_partial_digest row = Some dig
           then Inr (True, l\<lparr>lg_needs := jmap_set i (row\<lparr>nr_partial_sequence := sequence, nr_partial_digest := previousDigest\<rparr>) (lg_needs l)\<rparr>)
           else Inr (False, l)
       | None \<Rightarrow> Inr (False, l)))"

definition beginEffect :: "string \<Rightarrow> string \<Rightarrow> string \<Rightarrow> string \<Rightarrow> string \<Rightarrow> ledger \<Rightarrow> (bool \<times> effect_row option) result \<times> ledger" where
  "beginEffect now i provider requester fingerprint l =
     (if [] \<in> {i, provider, requester, fingerprint} then (Inl (Fault 400 ''invalid_effect_intent''), l)
      else transaction (\<lambda>l. case jmap_get (lg_effects l) i of
          Some ex \<Rightarrow>
            if ef_provider ex \<noteq> provider \<or> ef_requester ex \<noteq> requester \<or> ef_fingerprint ex \<noteq> fingerprint
            then Inl (Fault 409 ''effect_identity_conflict'') else Inr ((False, Some ex), l)
        | None \<Rightarrow>
            if length (lg_effects l) \<ge> lg_maxRecords l then Inl (Fault 503 ''effect_idempotency_capacity_reached'')
            else Inr ((True, None), l\<lparr>lg_effects := lg_effects l @ [(i, \<lparr>ef_provider = provider, ef_requester = requester,
              ef_fingerprint = fingerprint, ef_status = EStarted, ef_created_at = now, ef_finished_at = None\<rparr>)]\<rparr>)) l)"

definition finishEffect :: "string \<Rightarrow> string \<Rightarrow> string \<Rightarrow> effect_status option \<Rightarrow> ledger \<Rightarrow> (bool \<times> effect_row) result \<times> ledger" where
  "finishEffect now i provider outcome l =
     (if outcome \<notin> {Some ECompleted, Some EFailed, Some EUnknown} then (Inl (Fault 400 ''invalid_effect_outcome''), l)
      else transaction (\<lambda>l. case jmap_get (lg_effects l) i of
          None \<Rightarrow> Inl (Fault 403 ''provider_mismatch'')
        | Some row \<Rightarrow>
           if ef_provider row \<noteq> provider then Inl (Fault 403 ''provider_mismatch'')
           else if ef_status row \<noteq> EStarted then Inr ((False, row), l)
           else (let row' = row\<lparr>ef_status := (case outcome of Some s \<Rightarrow> s | None \<Rightarrow> EStarted), ef_finished_at := Some now\<rparr>
                 in Inr ((True, row'), l\<lparr>lg_effects := jmap_set i row' (lg_effects l)\<rparr>))) l)"

section \<open>Steps\<close>

text \<open>Whatever callers do with the ledger is a sequence of these calls, each one transaction.\<close>

inductive ledger_step :: "platform \<Rightarrow> ledger \<Rightarrow> ledger \<Rightarrow> bool" for p where
  ack: "ledger_step p l (snd (acknowledgeDelivery now e r l))"
| reserve: "ledger_step p l (snd (reserveNeed p now i rq pr fp cap mode d l))"
| offer: "ledger_step p l (snd (reserveOffer i ow fp l))"
| revoke: "ledger_step p l (snd (revokeOffer i ow l))"
| transition: "ledger_step p l (snd (transitionNeed p now i rq pr tgt d l))"
| partial: "ledger_step p l (snd (acceptPartial p now i pr sequence dig d l))"
| rollback: "ledger_step p l (snd (rollbackPartial i n dig prev l))"
| begin_effect: "ledger_step p l (snd (beginEffect now i pr rq fp l))"
| finish_effect: "ledger_step p l (snd (finishEffect now i pr oc l))"

inductive_cases ledger_stepE: "ledger_step p l l'"

section \<open>History\<close>

text \<open>A table only grows: a row that was there is there, and differs at most as \<^verbatim>\<open>R\<close> allows.\<close>

definition grows :: "('r \<Rightarrow> 'r \<Rightarrow> bool) \<Rightarrow> (string, 'r) jsmap \<Rightarrow> (string, 'r) jsmap \<Rightarrow> bool" where
  "grows R t t' \<longleftrightarrow> (\<forall>k r. jmap_get t k = Some r \<longrightarrow> (\<exists>r'. jmap_get t' k = Some r' \<and> R r r'))"

lemma grows_refl: "(\<And>r. R r r) \<Longrightarrow> grows R t t"
  by (auto simp: grows_def)

lemma grows_trans: "transp R \<Longrightarrow> grows R t u \<Longrightarrow> grows R u v \<Longrightarrow> grows R t v"
  unfolding grows_def by (meson transpE)

lemma grows_append: "(\<And>r. R r r) \<Longrightarrow> grows R t (t @ x)"
  by (auto simp: grows_def map_add_def)

lemma grows_set: "(\<And>r. R r r) \<Longrightarrow> jmap_get t k = Some r \<Longrightarrow> R r r' \<Longrightarrow> grows R t (jmap_set k r' t)"
  by (auto simp: grows_def)

definition need_follows :: "need_row \<Rightarrow> need_row \<Rightarrow> bool" where
  "need_follows r r' \<longleftrightarrow> nr_requester r' = nr_requester r \<and> nr_provider r' = nr_provider r \<and>
     nr_fingerprint r' = nr_fingerprint r \<and> nr_capability r' = nr_capability r \<and> nr_mode r' = nr_mode r \<and>
     nr_created_at r' = nr_created_at r \<and> (nr_status r \<noteq> Matched \<longrightarrow> r' = r)"

definition outbox_follows :: "outbox_row \<Rightarrow> outbox_row \<Rightarrow> bool" where
  "outbox_follows r r' \<longleftrightarrow> or_request_id r' = or_request_id r \<and> or_recipient r' = or_recipient r \<and>
     or_kind r' = or_kind r \<and> or_event_json r' = or_event_json r \<and> or_created_at r' = or_created_at r \<and>
     (or_acknowledged_at r \<noteq> None \<longrightarrow> r' = r)"

definition offer_follows :: "offer_row \<Rightarrow> offer_row \<Rightarrow> bool" where
  "offer_follows r r' \<longleftrightarrow> of_owner r' = of_owner r \<and> of_fingerprint r' = of_fingerprint r \<and> (of_revoked r \<longrightarrow> of_revoked r')"

definition effect_follows :: "effect_row \<Rightarrow> effect_row \<Rightarrow> bool" where
  "effect_follows r r' \<longleftrightarrow> ef_provider r' = ef_provider r \<and> ef_requester r' = ef_requester r \<and>
     ef_fingerprint r' = ef_fingerprint r \<and> (ef_status r \<noteq> EStarted \<longrightarrow> r' = r)"

lemmas follows_defs = need_follows_def outbox_follows_def offer_follows_def effect_follows_def

lemma follows_refl [simp]: "need_follows r r" "outbox_follows o1 o1" "offer_follows f f" "effect_follows e e"
  by (simp_all add: follows_defs)

definition ledger_grows :: "ledger \<Rightarrow> ledger \<Rightarrow> bool" where
  "ledger_grows l l' \<longleftrightarrow> lg_maxRecords l' = lg_maxRecords l \<and> grows need_follows (lg_needs l) (lg_needs l') \<and>
     grows outbox_follows (lg_outbox l) (lg_outbox l') \<and> grows offer_follows (lg_offers l) (lg_offers l') \<and>
     grows effect_follows (lg_effects l) (lg_effects l')"

lemma ledger_grows_refl [simp]: "ledger_grows l l"
  by (simp add: ledger_grows_def grows_refl)

lemma follows_trans:
  "transp need_follows" "transp outbox_follows" "transp offer_follows" "transp effect_follows"
  unfolding transp_def follows_defs by metis+

lemma ledger_grows_trans: "ledger_grows a b \<Longrightarrow> ledger_grows b c \<Longrightarrow> ledger_grows a c"
  unfolding ledger_grows_def
  by (elim conjE, intro conjI, simp)
    (erule (1) grows_trans[OF follows_trans(1)] grows_trans[OF follows_trans(2)] grows_trans[OF follows_trans(3)]
      grows_trans[OF follows_trans(4)])+

lemma transaction_grows:
  "(\<And>v l'. operation l = Inr (v, l') \<Longrightarrow> ledger_grows l l') \<Longrightarrow> ledger_grows l (snd (transaction operation l))"
  by (auto simp: transaction_def split: sum.splits)

lemma persistOutbox_grows:
  "persistOutbox p now i r k d l = Inr l' \<Longrightarrow> ledger_grows l0 l \<Longrightarrow> ledger_grows l0 l'"
  by (erule ledger_grows_trans)
    (auto simp: persistOutbox_def insert_row_def res_simps ledger_grows_def grows_refl grows_append split: option.splits if_splits)

lemma need_set_grows:
  "jmap_get (lg_needs l) i = Some row \<Longrightarrow> need_follows row row' \<Longrightarrow> ledger_grows l (l\<lparr>lg_needs := jmap_set i row' (lg_needs l)\<rparr>)"
  by (simp add: ledger_grows_def grows_refl grows_set)

lemma outbox_set_grows:
  "jmap_get (lg_outbox l) i = Some row \<Longrightarrow> outbox_follows row row' \<Longrightarrow> ledger_grows l (l\<lparr>lg_outbox := jmap_set i row' (lg_outbox l)\<rparr>)"
  by (simp add: ledger_grows_def grows_refl grows_set)

lemma offer_set_grows:
  "jmap_get (lg_offers l) i = Some row \<Longrightarrow> offer_follows row row' \<Longrightarrow> ledger_grows l (l\<lparr>lg_offers := jmap_set i row' (lg_offers l)\<rparr>)"
  by (simp add: ledger_grows_def grows_refl grows_set)

lemma effect_set_grows:
  "jmap_get (lg_effects l) i = Some row \<Longrightarrow> effect_follows row row' \<Longrightarrow> ledger_grows l (l\<lparr>lg_effects := jmap_set i row' (lg_effects l)\<rparr>)"
  by (simp add: ledger_grows_def grows_refl grows_set)

lemma append_grows:
  "ledger_grows l (l\<lparr>lg_needs := lg_needs l @ x\<rparr>)" "ledger_grows l (l\<lparr>lg_offers := lg_offers l @ y\<rparr>)"
  "ledger_grows l (l\<lparr>lg_effects := lg_effects l @ z\<rparr>)"
  by (simp_all add: ledger_grows_def grows_refl grows_append)

lemma ledger_step_grows: "ledger_step p l l' \<Longrightarrow> ledger_grows l l'"
proof (induction rule: ledger_step.induct)
  case (ack l now e r)
  then show ?case unfolding acknowledgeDelivery_def
    by (auto intro!: transaction_grows outbox_set_grows simp: outbox_follows_def split: option.splits if_splits)
next
  case (reserve l now i rq pr fp cap mode d)
  show ?case unfolding reserveNeed_def
    by (auto intro!: transaction_grows simp: res_simps Let_def)
      (erule persistOutbox_grows, rule append_grows)
next
  case (offer l i ow fp)
  then show ?case unfolding reserveOffer_def
    by (auto intro!: transaction_grows append_grows simp: Let_def split: if_splits)
next
  case (revoke l i ow)
  then show ?case unfolding revokeOffer_def
    by (auto intro!: transaction_grows offer_set_grows simp: offer_follows_def split: option.splits if_splits)
next
  case (transition l now i rq pr tgt d)
  have need: "ledger_grows l (l\<lparr>lg_needs := jmap_set i (row\<lparr>nr_status := s, nr_terminal_at := t\<rparr>) (lg_needs l)\<rparr>)"
    if "jmap_get (lg_needs l) i = Some row" "nr_status row = Matched" for row s t
    using that by (intro need_set_grows) (auto simp: need_follows_def)
  show ?case unfolding transitionNeed_def
    by (auto intro!: transaction_grows need simp: res_simps Let_def split: option.splits if_splits)
      (auto elim!: persistOutbox_grows intro: need)
next
  case (partial l now i pr sequence dig d)
  have need: "ledger_grows l (l\<lparr>lg_needs := jmap_set i (row\<lparr>nr_partial_sequence := s, nr_partial_digest := t\<rparr>) (lg_needs l)\<rparr>)"
    if "jmap_get (lg_needs l) i = Some row" "nr_status row = Matched" for row s t
    using that by (intro need_set_grows) (auto simp: need_follows_def)
  show ?case unfolding acceptPartial_def
    by (auto intro!: transaction_grows need simp: res_simps Let_def split: option.splits if_splits)
      (auto elim!: persistOutbox_grows intro: need)
next
  case (rollback l i n dig prev)
  have need: "ledger_grows l (l\<lparr>lg_needs := jmap_set i (row\<lparr>nr_partial_sequence := s, nr_partial_digest := t\<rparr>) (lg_needs l)\<rparr>)"
    if "jmap_get (lg_needs l) i = Some row" "nr_status row = Matched" for row s t
    using that by (intro need_set_grows) (auto simp: need_follows_def)
  show ?case unfolding rollbackPartial_def
    by (auto intro!: transaction_grows need simp: res_simps split: option.splits if_splits)
next
  case (begin_effect l now i pr rq fp)
  then show ?case unfolding beginEffect_def
    by (auto intro!: transaction_grows append_grows split: option.splits if_splits)
next
  case (finish_effect l now i pr oc)
  then show ?case unfolding finishEffect_def
    by (auto intro!: transaction_grows effect_set_grows simp: Let_def effect_follows_def split: option.splits if_splits)
qed

lemma ledger_steps_grow: "(ledger_step p)\<^sup>*\<^sup>* l l' \<Longrightarrow> ledger_grows l l'"
  by (induction rule: rtranclp_induct) (auto intro: ledger_grows_trans ledger_step_grows)

text \<open>
  C20. History is never rewritten. Over any sequence of ledger calls, failed ones included: no row of
  any table is ever lost; a need keeps its requester, provider, fingerprint and capability, and once
  it is completed, cancelled or failed it never changes again in any field; an offer stays revoked;
  a queued delivery keeps its content and an acknowledgement is final; an effect keeps its identity
  and its outcome.
\<close>

theorem ledger_history:
  assumes "(ledger_step p)\<^sup>*\<^sup>* l l'"
  shows "(getNeed i l = Some r \<longrightarrow> (\<exists>r'. getNeed i l' = Some r' \<and> need_follows r r')) \<and>
    (getOffer j l = Some f \<longrightarrow> (\<exists>f'. getOffer j l' = Some f' \<and> offer_follows f f')) \<and>
    (getEffect k l = Some e \<longrightarrow> (\<exists>e'. getEffect k l' = Some e' \<and> effect_follows e e')) \<and>
    (jmap_get (lg_outbox l) m = Some d \<longrightarrow> (\<exists>d'. jmap_get (lg_outbox l') m = Some d' \<and> outbox_follows d d'))"
  using ledger_steps_grow[OF assms]
  by (auto simp: ledger_grows_def grows_def getNeed_def getOffer_def getEffect_def)

definition sample_ledger :: ledger where
  "sample_ledger = \<lparr>lg_maxRecords = 2, lg_needs = [], lg_outbox = [], lg_offers = [], lg_effects = []\<rparr>"

theorem ledger_history_witness:
  "\<exists>f'. getOffer ''o'' (snd (revokeOffer ''o'' ''me'' (snd (reserveOffer ''o'' ''me'' ''fp'' sample_ledger)))) = Some f' \<and>
     of_owner f' = ''me''"
proof -
  let ?l = "snd (reserveOffer ''o'' ''me'' ''fp'' sample_ledger)"
  have "getOffer ''o'' ?l = Some \<lparr>of_owner = ''me'', of_fingerprint = ''fp'', of_revoked = False\<rparr>"
    by (simp add: reserveOffer_def transaction_def sample_ledger_def Let_def getOffer_def)
  moreover have "(ledger_step sample_platform)\<^sup>*\<^sup>* ?l (snd (revokeOffer ''o'' ''me'' ?l))"
    by (intro r_into_rtranclp ledger_step.revoke)
  ultimately show ?thesis using ledger_history[of sample_platform ?l] by (fastforce simp: offer_follows_def)
qed

section \<open>The outbox and the needs\<close>

definition delivery_ok :: "need_row \<Rightarrow> string \<Rightarrow> outbox_row \<Rightarrow> bool" where
  "delivery_ok n k r \<longleftrightarrow>
     (or_kind r = ''NEED'' \<and> k = ''need:'' @ or_request_id r \<and> or_recipient r = nr_provider n) \<or>
     (or_kind r = ''RESULT'' \<and> k = ''result:'' @ or_request_id r \<and> or_recipient r = nr_requester n \<and> nr_status n = NCompleted) \<or>
     (or_kind r = ''REVOKE'' \<and> k = ''revoke:'' @ or_request_id r \<and> or_recipient r = nr_provider n \<and> nr_status n = NCancelled) \<or>
     (or_kind r = ''PARTIAL'' \<and> or_recipient r = nr_requester n \<and>
       (\<exists>m. k = partial_key (or_request_id r) m \<and> 0 \<le> m \<and> m < nr_partial_sequence n))"

definition ledger_ok :: "ledger \<Rightarrow> bool" where
  "ledger_ok l \<longleftrightarrow> jmap_ok (lg_outbox l) \<and> length (lg_needs l) \<le> lg_maxRecords l \<and>
     length (lg_outbox l) \<le> lg_maxRecords l * 8 \<and> length (lg_offers l) \<le> lg_maxRecords l \<and>
     length (lg_effects l) \<le> lg_maxRecords l \<and>
     (\<forall>(k, r)\<in>set (lg_outbox l). \<exists>n. jmap_get (lg_needs l) (or_request_id r) = Some n \<and> delivery_ok n k r)"

lemma event_id_kinds:
  "event_id p ''NEED'' i e = ''need:'' @ i" "event_id p ''RESULT'' i e = ''result:'' @ i"
  "event_id p ''REVOKE'' i e = ''revoke:'' @ i"
proof -
  have "to_lower ''NEED'' = ''need''" "to_lower ''RESULT'' = ''result''" "to_lower ''REVOKE'' = ''revoke''" by code_simp+
  then show "event_id p ''NEED'' i e = ''need:'' @ i" "event_id p ''RESULT'' i e = ''result:'' @ i"
    "event_id p ''REVOKE'' i e = ''revoke:'' @ i" by (simp_all add: event_id_def)
qed

lemma event_id_partial:
  assumes "is_safe_integer s" "get e ''sequence'' = s"
  shows "event_id p ''PARTIAL'' i e = partial_key i (int_of s)"
proof -
  from assms(1) obtain r where "s = JNum r" "rat_is_int r" "\<bar>r\<bar> \<le> 9007199254740991" by (cases s) auto
  with assms(2) show ?thesis by (simp add: event_id_def partial_key_def number_text_def int_of_def)
qed

lemma length_update: "jmap_get m k = Some v \<Longrightarrow> length (jmap_set k w m) = length m"
  by (induction m) (auto split: if_splits)

lemma need_change_ok:
  assumes ok: "ledger_ok l" and row: "jmap_get (lg_needs l) i = Some row"
    and keep: "\<And>k r. (k, r) \<in> set (lg_outbox l) \<Longrightarrow> or_request_id r = i \<Longrightarrow> delivery_ok row k r \<Longrightarrow> delivery_ok row' k r"
  shows "ledger_ok (l\<lparr>lg_needs := jmap_set i row' (lg_needs l)\<rparr>)"
  using ok row keep by (fastforce simp: ledger_ok_def length_update)

lemma persistOutbox_ok:
  assumes ok: "ledger_ok l" and row: "jmap_get (lg_needs l) i = Some n"
    and new: "\<And>d r. delivery = Some d \<Longrightarrow> or_request_id r = i \<Longrightarrow> or_recipient r = rcpt \<Longrightarrow> or_kind r = kd \<Longrightarrow>
      delivery_ok n (event_id p kd i (dl_event d)) r"
    and put: "persistOutbox p now i rcpt kd delivery l = Inr l'"
  shows "ledger_ok l'"
proof (cases delivery)
  case (Some d)
  with put obtain r where l': "l' = l\<lparr>lg_outbox := lg_outbox l @ [(event_id p kd i (dl_event d), r)]\<rparr>"
    and r: "or_request_id r = i" "or_recipient r = rcpt" "or_kind r = kd"
    and fresh: "jmap_get (lg_outbox l) (event_id p kd i (dl_event d)) = None" "length (lg_outbox l) < lg_maxRecords l * 8"
    by (auto simp: persistOutbox_def insert_row_def res_simps split: option.splits if_splits)
  from new[OF Some r] have "delivery_ok n (event_id p kd i (dl_event d)) r" .
  with ok row r fresh show ?thesis unfolding l' by (auto simp: ledger_ok_def map_of_eq_None_iff)
qed (use put ok in \<open>simp add: persistOutbox_def\<close>)

lemma transaction_ok:
  "ledger_ok l \<Longrightarrow> (\<And>v l'. operation l = Inr (v, l') \<Longrightarrow> ledger_ok l') \<Longrightarrow> ledger_ok (snd (transaction operation l))"
  by (auto simp: transaction_def split: sum.splits)

lemma append_need_ok:
  "ledger_ok l \<Longrightarrow> jmap_get (lg_needs l) i = None \<Longrightarrow> length (lg_needs l) < lg_maxRecords l \<Longrightarrow>
     ledger_ok (l\<lparr>lg_needs := lg_needs l @ [(i, row)]\<rparr>)"
  by (fastforce simp: ledger_ok_def map_add_def split: option.splits)

lemma reserveNeed_ok: "ledger_ok l \<Longrightarrow> ledger_ok (snd (reserveNeed p now i rq pr fp cap mode d l))"
  unfolding reserveNeed_def
  by (auto intro!: transaction_ok simp: res_simps Let_def not_le)
    (erule persistOutbox_ok[rotated 3], (erule (2) append_need_ok; fail),
      auto simp: map_add_def delivery_ok_def event_id_kinds)

lemma transitionNeed_ok:
  assumes ok: "ledger_ok l"
  shows "ledger_ok (snd (transitionNeed p now i rq pr tgt d l))"
proof -
  let ?row = "\<lambda>row s. row\<lparr>nr_status := s, nr_terminal_at := Some now\<rparr>"
  let ?l = "\<lambda>row s. l\<lparr>lg_needs := jmap_set i (?row row s) (lg_needs l)\<rparr>"
  have base: "ledger_ok (?l row s)" if "jmap_get (lg_needs l) i = Some row" "nr_status row = Matched" for row s
    using ok that(1) by (rule need_change_ok) (use that(2) in \<open>auto simp: delivery_ok_def\<close>)
  have result: "ledger_ok l'" if "jmap_get (lg_needs l) i = Some row" "nr_status row = Matched"
    "persistOutbox p now i (nr_requester row) ''RESULT'' d (?l row NCompleted) = Inr l'" for row l'
    by (rule persistOutbox_ok[OF base[OF that(1,2)] _ _ that(3)]) (auto simp: delivery_ok_def event_id_kinds)
  have revoke: "ledger_ok l'" if "jmap_get (lg_needs l) i = Some row" "nr_status row = Matched"
    "persistOutbox p now i (nr_provider row) ''REVOKE'' d (?l row NCancelled) = Inr l'" for row l'
    by (rule persistOutbox_ok[OF base[OF that(1,2)] _ _ that(3)]) (auto simp: delivery_ok_def event_id_kinds)
  show ?thesis unfolding transitionNeed_def using ok
    by (auto intro!: transaction_ok base simp: res_simps Let_def split: option.splits if_splits)
      (auto intro: result revoke)
qed

lemma acceptPartial_ok:
  assumes ok: "ledger_ok l"
  shows "ledger_ok (snd (acceptPartial p now i pr sequence dig d l))"
proof -
  let ?row = "\<lambda>row. row\<lparr>nr_partial_sequence := nr_partial_sequence row + 1, nr_partial_digest := Some dig\<rparr>"
  let ?l = "\<lambda>row. l\<lparr>lg_needs := jmap_set i (?row row) (lg_needs l)\<rparr>"
  have base: "ledger_ok (?l row)" if "jmap_get (lg_needs l) i = Some row" for row
    using ok that by (rule need_change_ok) (auto simp: delivery_ok_def)
  have put: "ledger_ok l'" if "jmap_get (lg_needs l) i = Some row" "int_of sequence = nr_partial_sequence row"
    "is_safe_integer sequence" "0 \<le> num_of sequence" "oget (dl_event x) ''sequence'' = sequence"
    "persistOutbox p now i (nr_requester row) ''PARTIAL'' (Some x) (?l row) = Inr l'" for row l' x
  proof (rule persistOutbox_ok[OF base[OF that(1)] _ _ that(6)])
    fix y and r :: outbox_row
    assume "Some x = Some y" and r: "or_request_id r = i" "or_recipient r = nr_requester row" "or_kind r = ''PARTIAL''"
    moreover have "get (dl_event x) ''sequence'' = sequence"
      using that(3,5) by (cases "nullish (dl_event x)") (auto simp: oget_def)
    moreover have "0 \<le> int_of sequence" using that(4) by (simp add: int_of_def)
    ultimately show "delivery_ok (?row row) (event_id p ''PARTIAL'' i (dl_event y)) r"
      using event_id_partial[OF that(3)] that(2) by (auto simp: delivery_ok_def)
  qed simp
  show ?thesis unfolding acceptPartial_def using ok
    by (auto intro!: transaction_ok simp: res_simps Let_def not_less split: option.splits if_splits)
      (auto intro: base put)
qed

lemma rollbackPartial_ok:
  assumes ok: "ledger_ok l"
  shows "ledger_ok (snd (rollbackPartial i n dig prev l))"
proof -
  have "ledger_ok (l\<lparr>lg_needs := jmap_set i (row\<lparr>nr_partial_sequence := n, nr_partial_digest := prev\<rparr>) (lg_needs l)\<rparr>)"
    if "jmap_get (lg_needs l) i = Some row" "nr_partial_sequence row = n + 1" "jmap_get (lg_outbox l) (partial_key i n) = None" for row
  proof (rule need_change_ok[OF ok that(1)])
    fix k r
    assume "(k, r) \<in> set (lg_outbox l)" "or_request_id r = i" "delivery_ok row k r"
    moreover have "partial_key i n \<notin> fst ` set (lg_outbox l)" using that(3) by (simp add: map_of_eq_None_iff)
    ultimately have "k \<noteq> partial_key i n" by force
    then have "m < n + 1 \<Longrightarrow> k = partial_key i m \<Longrightarrow> m < n" for m by (cases "m = n") auto
    with \<open>delivery_ok row k r\<close> \<open>or_request_id r = i\<close> that(2) show
      "delivery_ok (row\<lparr>nr_partial_sequence := n, nr_partial_digest := prev\<rparr>) k r"
      unfolding delivery_ok_def by (elim disjE) (simp_all, blast)
  qed
  then show ?thesis unfolding rollbackPartial_def using ok
    by (auto intro!: transaction_ok split: option.splits if_splits)
qed

lemma other_tables_ok:
  "ledger_ok l \<Longrightarrow> length t \<le> lg_maxRecords l \<Longrightarrow> ledger_ok (l\<lparr>lg_offers := t\<rparr>)"
  "ledger_ok l \<Longrightarrow> length u \<le> lg_maxRecords l \<Longrightarrow> ledger_ok (l\<lparr>lg_effects := u\<rparr>)"
  "ledger_ok l \<Longrightarrow> length (lg_offers l) \<le> lg_maxRecords l" "ledger_ok l \<Longrightarrow> length (lg_effects l) \<le> lg_maxRecords l"
  by (simp_all add: ledger_ok_def)

lemma ledger_step_ok: "ledger_step p l l' \<Longrightarrow> ledger_ok l \<Longrightarrow> ledger_ok l'"
proof (induction rule: ledger_step.induct)
  case (ack l now e r)
  have "ledger_ok (l\<lparr>lg_outbox := jmap_set e (row\<lparr>or_acknowledged_at := Some now\<rparr>) (lg_outbox l)\<rparr>)"
    if "jmap_get (lg_outbox l) e = Some row" for row
  proof -
    have "\<exists>n. jmap_get (lg_needs l) (or_request_id row) = Some n \<and> delivery_ok n e row"
      using ack that by (auto simp: ledger_ok_def dest: map_of_SomeD)
    then have "\<exists>n. jmap_get (lg_needs l) (or_request_id (row\<lparr>or_acknowledged_at := Some now\<rparr>)) = Some n \<and>
        delivery_ok n e (row\<lparr>or_acknowledged_at := Some now\<rparr>)" by (simp add: delivery_ok_def)
    moreover have "set (jmap_set e (row\<lparr>or_acknowledged_at := Some now\<rparr>) (lg_outbox l)) \<subseteq>
        insert (e, row\<lparr>or_acknowledged_at := Some now\<rparr>) (set (lg_outbox l))" by (rule set_update_subset)
    ultimately show ?thesis using ack that by (fastforce simp: ledger_ok_def length_update)
  qed
  with ack show ?case unfolding acknowledgeDelivery_def by (auto intro!: transaction_ok split: option.splits if_splits)
next
  case (offer l i ow fp)
  then show ?case unfolding reserveOffer_def
    by (auto intro!: transaction_ok other_tables_ok(1) simp: Let_def split: if_splits)
next
  case (revoke l i ow)
  then show ?case unfolding revokeOffer_def
    by (auto intro!: transaction_ok other_tables_ok(1) simp: other_tables_ok(3) length_update split: option.splits if_splits)
next
  case (begin_effect l now i pr rq fp)
  then show ?case unfolding beginEffect_def
    by (auto intro!: transaction_ok other_tables_ok(2) split: option.splits if_splits)
next
  case (finish_effect l now i pr oc)
  then show ?case unfolding finishEffect_def
    by (auto intro!: transaction_ok other_tables_ok(2) simp: other_tables_ok(4) Let_def length_update split: option.splits if_splits)
qed (auto intro: reserveNeed_ok transitionNeed_ok acceptPartial_ok rollbackPartial_ok)

text \<open>
  The outbox never contradicts the needs. In every state the ledger can reach: each queued
  delivery belongs to a recorded need and to its party; a RESULT is queued only for a completed
  need and a REVOKE only for a cancelled one, at most one of either; a PARTIAL is queued only below
  the need's next sequence, so an event that was queued is never rolled back; and every table is
  within its capacity.
\<close>

theorem ledger_outbox_consistent:
  assumes "ledger_new path m = Inr l0" "(ledger_step p)\<^sup>*\<^sup>* l0 l"
  shows "ledger_ok l \<and> (\<forall>k r k' r'. (k, r) \<in> set (lg_outbox l) \<and> (k', r') \<in> set (lg_outbox l) \<and>
    or_request_id r = or_request_id r' \<and> or_kind r = or_kind r' \<and> or_kind r \<in> {''RESULT'', ''REVOKE''} \<longrightarrow> r = r')"
proof -
  have "ledger_ok l0" using assms(1) by (auto simp: ledger_new_def ledger_ok_def res_simps)
  with assms(2) have ok: "ledger_ok l" by (induction rule: rtranclp_induct) (auto intro: ledger_step_ok)
  have "r = r'" if "(k, r) \<in> set (lg_outbox l)" "(k', r') \<in> set (lg_outbox l)"
    "or_request_id r = or_request_id r'" "or_kind r = or_kind r'" "or_kind r \<in> {''RESULT'', ''REVOKE''}" for k r k' r'
  proof -
    from ok have all: "\<forall>(k, r)\<in>set (lg_outbox l). \<exists>n. delivery_ok n k r" unfolding ledger_ok_def by fast
    with that(1,2) obtain n n' where "delivery_ok n k r" "delivery_ok n' k' r'" by blast
    with that(3-5) have "k = k'" by (auto simp: delivery_ok_def)
    then show ?thesis using ok that(1,2) unfolding ledger_ok_def by (metis eq_key_imp_eq_value)
  qed
  with ok show ?thesis by blast
qed

theorem ledger_outbox_consistent_witness:
  "\<exists>l0. ledger_new ''f'' (JNum 9) = Inr l0 \<and> ledger_ok (snd (reserveNeed sample_platform ''t'' ''n'' ''r'' ''p'' ''f'' ''c'' ''m'' None l0))"
proof -
  obtain l0 where l0: "ledger_new ''f'' (JNum 9) = Inr l0" by (simp add: ledger_new_def)
  from ledger_outbox_consistent[OF l0 r_into_rtranclp[of "ledger_step sample_platform", OF ledger_step.reserve]] l0
  show ?thesis by blast
qed

text \<open>
  C4. An effect is acquired at most once. If some call of \<^verbatim>\<open>beginEffect\<close> acquired an identifier, then
  after any further ledger calls no later \<^verbatim>\<open>beginEffect\<close> on it acquires again: it reports the existing
  row when the identity agrees and fails with a conflict otherwise.
\<close>

theorem effect_acquired_once:
  assumes "beginEffect now i pr rq fp l = (Inr (True, ex), l1)" "(ledger_step p)\<^sup>*\<^sup>* l1 l2"
    and "[] \<notin> {pr', rq', fp'}"
  shows "(\<exists>row. beginEffect now' i pr' rq' fp' l2 = (Inr (False, Some row), l2) \<and> (pr', rq', fp') = (pr, rq, fp)) \<or>
    (beginEffect now' i pr' rq' fp' l2 = (Inl (Fault 409 ''effect_identity_conflict''), l2) \<and> (pr', rq', fp') \<noteq> (pr, rq, fp))"
proof -
  from assms(1) have i: "i \<noteq> []" and "\<exists>row. jmap_get (lg_effects l1) i = Some row \<and> ef_provider row = pr \<and> ef_requester row = rq \<and> ef_fingerprint row = fp"
    by (auto simp: beginEffect_def transaction_def map_add_def split: if_splits option.splits)
  then obtain row where "jmap_get (lg_effects l1) i = Some row" "ef_provider row = pr" "ef_requester row = rq" "ef_fingerprint row = fp"
    by blast
  with ledger_steps_grow[OF assms(2)] obtain row' where "jmap_get (lg_effects l2) i = Some row'"
    "ef_provider row' = pr" "ef_requester row' = rq" "ef_fingerprint row' = fp"
    unfolding ledger_grows_def grows_def effect_follows_def by metis
  with i assms(3) show ?thesis by (auto simp: beginEffect_def transaction_def)
qed

theorem effect_acquired_once_witness:
  "fst (beginEffect ''t'' ''e'' ''p'' ''x'' ''f'' (snd (beginEffect ''t'' ''e'' ''p'' ''r'' ''f'' sample_ledger))) =
     Inl (Fault 409 ''effect_identity_conflict'')"
proof -
  obtain ex l1 where l1: "beginEffect ''t'' ''e'' ''p'' ''r'' ''f'' sample_ledger = (Inr (True, ex), l1)"
    by (simp add: beginEffect_def transaction_def sample_ledger_def)
  from effect_acquired_once[OF l1 rtranclp.rtrancl_refl, of "''p''" "''x''" "''f''"] l1 show ?thesis by simp
qed

end
