(* ===== verification/Need_Replay.thy ===== *)
theory Need_Replay
  imports Negotiation Lifecycle_Ledger
begin

text \<open>
  The replay guard of \<^verbatim>\<open>network/admission/need-replay.js\<close> in its two modes: before a lifecycle ledger,
  and with a set in memory. What the guard needs of either is one contract, a registry that reserves
  an identifier at most once; the ledger of \<^verbatim>\<open>Lifecycle_Ledger\<close> and the set both keep it. Shown: no
  NEED is admitted twice, whatever runs between a check and its reservation.
\<close>

section \<open>The guard\<close>

definition guard_checks :: "string \<Rightarrow> jsval \<Rightarrow> jsval \<Rightarrow> unit result" where
  "guard_checks provider maxSeenNeedIds ledger =
     (if provider = [] then Inl (Err ''need replay provider is required'')
      else if \<not> is_safe_integer maxSeenNeedIds \<or> num_of maxSeenNeedIds < 1
        then Inl (Err ''maxSeenNeedIds must be a positive safe integer'')
      else if truthy ledger \<and> (\<not> is_function (get ledger ''getNeed'') \<or> \<not> is_function (get ledger ''reserveNeed''))
        then Inl (Err ''lifecycleLedger must implement getNeed and reserveNeed'')
      else Inr ())"

definition need_capability :: "jsval \<Rightarrow> jsval" where
  "need_capability envelope = (let c = oget (get envelope ''payload'') ''capability'' in
     if truthy (oget c ''name'') then oget c ''name'' else c)"

text \<open>The checks of \<^verbatim>\<open>admit\<close> before anything is stored; \<^verbatim>\<open>known\<close> is what the registry answered.\<close>

definition admit_checks :: "platform \<Rightarrow> string \<Rightarrow> jsval \<Rightarrow> bool \<Rightarrow> jsval \<Rightarrow> unit result" where
  "admit_checks p provider now known envelope =
     (if \<not> nullish (get envelope ''to'') \<and> get envelope ''to'' \<noteq> JStr provider then Inl (Fault 403 ''need_recipient_mismatch'')
      else if \<not> nonblank (need_capability envelope) then Inl (Fault 400 ''invalid_capability'')
      else if known then Inl (Fault 409 ''duplicate_request'')
      else assertNeedAdmissionWindow p envelope now)"

text \<open>
  \<^verbatim>\<open>admit\<close> before a ledger: the lookup sees the ledger \<^verbatim>\<open>seen\<close>, the reservation happens an \<^verbatim>\<open>await\<close>
  later in the ledger \<^verbatim>\<open>l\<close>.
\<close>

definition admit_ledger :: "platform \<Rightarrow> string \<Rightarrow> jsval \<Rightarrow> string \<Rightarrow> ledger \<Rightarrow> jsval \<Rightarrow> ledger \<Rightarrow> unit result \<times> ledger" where
  "admit_ledger p provider now isonow seen envelope l =
     (if get envelope ''type'' \<noteq> JStr ''NEED'' then (Inr (), l)
      else case admit_checks p provider now (getNeed (str_of (get envelope ''id'')) seen \<noteq> None) envelope of
        Inl e \<Rightarrow> (Inl e, l)
      | Inr _ \<Rightarrow>
         (case rbind (hash_value p envelope) (\<lambda>fp.
            rbind (hash_value p (let pol = get (get envelope ''payload'') ''policy'' in if nullish pol then JObj [] else pol)) (\<lambda>_. Inr fp)) of
            Inl e \<Rightarrow> (Inl e, l)
          | Inr fp \<Rightarrow>
             (case reserveNeed p isonow (str_of (get envelope ''id'')) (str_of (get envelope ''from'')) provider fp
                (str_of (need_capability envelope)) ''quic'' None l of
                (Inl e, l') \<Rightarrow> (Inl e, l')
              | (Inr _, l') \<Rightarrow> (Inr (), l'))))"

definition seen_reserve :: "nat \<Rightarrow> string \<Rightarrow> string list \<Rightarrow> unit result \<times> string list" where
  "seen_reserve maxSeenNeedIds i seen =
     (if i \<in> set seen then (Inl (Fault 409 ''duplicate_request''), seen)
      else if length seen \<ge> maxSeenNeedIds then (Inl (Fault 503 ''need_idempotency_capacity_reached''), seen)
      else (Inr (), seen @ [i]))"

definition admit_memory :: "platform \<Rightarrow> string \<Rightarrow> nat \<Rightarrow> jsval \<Rightarrow> jsval \<Rightarrow> string list \<Rightarrow> unit result \<times> string list" where
  "admit_memory p provider maxSeenNeedIds now envelope seen =
     (if get envelope ''type'' \<noteq> JStr ''NEED'' then (Inr (), seen)
      else case admit_checks p provider now (str_of (get envelope ''id'') \<in> set seen) envelope of
        Inl e \<Rightarrow> (Inl e, seen)
      | Inr _ \<Rightarrow> seen_reserve maxSeenNeedIds (str_of (get envelope ''id'')) seen)"

section \<open>The contract of a registry\<close>

text \<open>The identifiers reserved over a run in which reservations and other steps interleave.\<close>

inductive reservations ::
  "('a \<Rightarrow> string \<Rightarrow> 's \<Rightarrow> unit result \<times> 's) \<Rightarrow> ('s \<Rightarrow> 's \<Rightarrow> bool) \<Rightarrow> 's \<Rightarrow> string list \<Rightarrow> 's \<Rightarrow> bool"
  for reserve other where
  res_nil: "reservations reserve other s [] s"
| res_done: "reservations reserve other s is s' \<Longrightarrow> reserve a i s' = (Inr (), s'') \<Longrightarrow> reservations reserve other s (is @ [i]) s''"
| res_refused: "reservations reserve other s is s' \<Longrightarrow> reserve a i s' = (Inl e, s'') \<Longrightarrow> reservations reserve other s is s''"
| res_other: "reservations reserve other s is s' \<Longrightarrow> other s' s'' \<Longrightarrow> reservations reserve other s is s''"

locale need_registry =
  fixes known :: "'s \<Rightarrow> string \<Rightarrow> bool"
    and reserve :: "'a \<Rightarrow> string \<Rightarrow> 's \<Rightarrow> unit result \<times> 's"
    and other :: "'s \<Rightarrow> 's \<Rightarrow> bool"
  assumes reserve_new: "reserve a i s = (Inr (), s') \<Longrightarrow> \<not> known s i \<and> known s' i"
    and reserve_keeps: "known s j \<Longrightarrow> reserve a i s = (r, s') \<Longrightarrow> known s' j"
    and other_keeps: "known s j \<Longrightarrow> other s s' \<Longrightarrow> known s' j"
begin

lemma reserved_once:
  "reservations reserve other s is s' \<Longrightarrow>
     distinct is \<and> (\<forall>i\<in>set is. \<not> known s i \<and> known s' i) \<and> (\<forall>j. known s j \<longrightarrow> known s' j)"
proof (induction rule: reservations.induct)
  case (res_done s "is" s' a i s'')
  then show ?case using reserve_new reserve_keeps by (auto; metis)
next
  case (res_refused s "is" s' a i e s'')
  then show ?case using reserve_keeps by blast
next
  case (res_other s "is" s' s'')
  then show ?case using other_keeps by blast
qed simp

end

section \<open>The two registries\<close>

record reservation =
  rv_now :: string
  rv_requester :: string
  rv_provider :: string
  rv_fingerprint :: string
  rv_capability :: string
  rv_mode :: string
  rv_delivery :: "delivery option"

definition ledger_reserve :: "platform \<Rightarrow> reservation \<Rightarrow> string \<Rightarrow> ledger \<Rightarrow> unit result \<times> ledger" where
  "ledger_reserve p a i l = (case reserveNeed p (rv_now a) i (rv_requester a) (rv_provider a) (rv_fingerprint a)
       (rv_capability a) (rv_mode a) (rv_delivery a) l of (Inl e, l') \<Rightarrow> (Inl e, l') | (Inr _, l') \<Rightarrow> (Inr (), l'))"

lemma persistOutbox_needs: "persistOutbox p now i r k d l = Inr l' \<Longrightarrow> lg_needs l' = lg_needs l"
  by (auto simp: persistOutbox_def res_simps split: option.splits if_splits)

lemma reserveNeed_new:
  assumes "reserveNeed p now i rq pr fp cap mode d l = (Inr row, l')"
  shows "getNeed i l = None \<and> getNeed i l' = Some row"
  using assms by (auto simp: reserveNeed_def transaction_def getNeed_def Let_def res_simps map_add_def
      dest!: persistOutbox_needs split: if_splits sum.splits)

interpretation ledger_registry: need_registry "\<lambda>l i. getNeed i l \<noteq> None" "ledger_reserve p" "ledger_step p" for p
proof
  show "\<not> getNeed i s \<noteq> None \<and> getNeed i s' \<noteq> None" if "ledger_reserve p a i s = (Inr (), s')" for a i s s'
    using that reserveNeed_new by (auto simp: ledger_reserve_def split: prod.splits sum.splits)
  have keeps: "getNeed j s' \<noteq> None" if "getNeed j s \<noteq> None" "ledger_step p s s'" for j s s'
    using ledger_step_grows[OF that(2)] that(1) unfolding ledger_grows_def grows_def getNeed_def by blast
  then show "getNeed j s' \<noteq> None" if "getNeed j s \<noteq> None" "ledger_step p s s'" for j s s' using that by blast
  show "getNeed j s' \<noteq> None" if "getNeed j s \<noteq> None" "ledger_reserve p a i s = (r, s')" for a i j r s s'
  proof (rule keeps[OF that(1)])
    have "s' = snd (reserveNeed p (rv_now a) i (rv_requester a) (rv_provider a) (rv_fingerprint a) (rv_capability a) (rv_mode a) (rv_delivery a) s)"
      using that(2) by (auto simp: ledger_reserve_def split: prod.splits sum.splits)
    then show "ledger_step p s s'" by (simp add: ledger_step.reserve)
  qed
qed

interpretation memory_registry: need_registry "\<lambda>seen i. i \<in> set seen" "\<lambda>_ :: unit. seen_reserve m" "(=)" for m
  by unfold_locales (auto simp: seen_reserve_def split: if_splits)

section \<open>No NEED is admitted twice\<close>

text \<open>The identifiers admitted before a ledger that other callers use too.\<close>

inductive ledger_admissions :: "platform \<Rightarrow> string \<Rightarrow> ledger \<Rightarrow> string list \<Rightarrow> ledger \<Rightarrow> bool" for p provider where
  adm_nil: "ledger_admissions p provider l [] l"
| adm_need: "ledger_admissions p provider l is l' \<Longrightarrow> get env ''type'' = JStr ''NEED'' \<Longrightarrow>
    admit_ledger p provider now isonow seen env l' = (Inr (), l'') \<Longrightarrow>
    ledger_admissions p provider l (is @ [str_of (get env ''id'')]) l''"
| adm_refused: "ledger_admissions p provider l is l' \<Longrightarrow>
    admit_ledger p provider now isonow seen env l' = (Inl e, l'') \<Longrightarrow> ledger_admissions p provider l is l''"
| adm_other: "ledger_admissions p provider l is l' \<Longrightarrow> ledger_step p l' l'' \<Longrightarrow> ledger_admissions p provider l is l''"

lemma admit_ledger_reserves:
  assumes "admit_ledger p provider now isonow seen env l = (r, l')" "get env ''type'' = JStr ''NEED'' \<or> r \<noteq> Inr ()"
  shows "(r \<noteq> Inr () \<and> l' = l) \<or> (\<exists>a. ledger_reserve p a (str_of (get env ''id'')) l = (r, l'))"
proof (cases "get env ''type'' = JStr ''NEED'' \<and> admit_checks p provider now (getNeed (str_of (get env ''id'')) seen \<noteq> None) env = Inr ()")
  case True
  let ?h = "rbind (hash_value p env) (\<lambda>fp. rbind (hash_value p (let pol = get (get env ''payload'') ''policy'' in
      if nullish pol then JObj [] else pol)) (\<lambda>_. Inr fp))"
  show ?thesis
  proof (cases ?h)
    case (Inl e)
    with True assms have "r = Inl e \<and> l' = l" by (simp add: admit_ledger_def)
    then show ?thesis by simp
  next
    case (Inr fp)
    let ?a = "\<lparr>rv_now = isonow, rv_requester = str_of (get env ''from''), rv_provider = provider, rv_fingerprint = fp,
      rv_capability = str_of (need_capability env), rv_mode = ''quic'', rv_delivery = None\<rparr>"
    have "ledger_reserve p ?a (str_of (get env ''id'')) l = (r, l')"
      using True Inr assms(1) by (simp add: admit_ledger_def ledger_reserve_def)
    then show ?thesis by blast
  qed
next
  case False
  with assms show ?thesis by (auto simp: admit_ledger_def split: if_splits sum.splits)
qed

lemma ledger_admissions_reserve:
  "ledger_admissions p provider l is l' \<Longrightarrow> reservations (ledger_reserve p) (ledger_step p) l is l'"
proof (induction rule: ledger_admissions.induct)
  case (adm_need l "is" l' env now isonow seen l'')
  then show ?case using admit_ledger_reserves[OF adm_need(3)] by (auto intro: res_done)
next
  case (adm_refused l "is" l' now isonow seen env e l'')
  then show ?case using admit_ledger_reserves[OF adm_refused(2)] by (auto intro: res_refused)
qed (auto intro: res_nil res_other)

text \<open>
  Before a lifecycle ledger no NEED is admitted twice. Over any run in which admissions, with
  lookups that may be stale by the time they reserve, and arbitrary other ledger calls interleave,
  the admitted identifiers are distinct, none was recorded before the run and all are recorded
  after it.
\<close>

theorem replay_guard_ledger:
  assumes "ledger_admissions p provider l is l'"
  shows "distinct is \<and> (\<forall>i\<in>set is. getNeed i l = None \<and> getNeed i l' \<noteq> None)"
  using ledger_registry.reserved_once[OF ledger_admissions_reserve[OF assms]] by auto

definition sample_need_envelope :: jsval where
  "sample_need_envelope = JObj [(''type'', JStr ''NEED''), (''id'', JStr ''n1''), (''from'', JStr ''me''), (''to'', JStr ''p''),
     (''createdAt'', JStr sample_iso), (''payload'', JObj [(''capability'', JStr ''echo'')])]"

lemma sample_need_envelope_get [simp]:
  "get sample_need_envelope ''type'' = JStr ''NEED''" "get sample_need_envelope ''id'' = JStr ''n1''"
  "get sample_need_envelope ''from'' = JStr ''me''" "get sample_need_envelope ''to'' = JStr ''p''"
  "get sample_need_envelope ''payload'' = JObj [(''capability'', JStr ''echo'')]"
  "need_capability sample_need_envelope = JStr ''echo''"
  by (simp_all add: sample_need_envelope_def need_capability_def oget_def)

lemma sample_admitted:
  "\<exists>l'. admit_ledger sample_platform ''p'' (JNum (of_int sample_now)) ''t'' sample_ledger sample_need_envelope sample_ledger = (Inr (), l')"
proof -
  have w: "assertNeedAdmissionWindow sample_platform sample_need_envelope (JNum (of_int sample_now)) = Inr ()"
    unfolding assertNeedAdmissionWindow_iff by (simp add: sample_need_envelope_def oget_def sample_date_parse_def sample_now_def)
  then have "admit_checks sample_platform ''p'' (JNum (of_int sample_now)) (getNeed ''n1'' sample_ledger \<noteq> None) sample_need_envelope = Inr ()"
    unfolding admit_checks_def
    by (simp add: getNeed_def sample_ledger_def nonblank_def trim_def js_white_def)
  moreover have "assertCanonicalJsonValue sample_need_envelope = Inr ()" "assertCanonicalJsonValue (JObj []) = Inr ()"
    by (simp_all add: sample_need_envelope_def)
  then obtain a b where h: "canonicalize sample_platform sample_need_envelope = Inr a" "canonicalize sample_platform (JObj []) = Inr b"
    unfolding canonicalize_total[of _ sample_platform] by blast
  moreover have "a \<noteq> []" using h jt_first_kind[OF sample_number_texts] by (simp add: canonicalize_eq)
  then have "sample_sha256 a \<noteq> []" by (cases a) (auto simp: sample_sha256_def)
  ultimately show ?thesis
    by (simp add: admit_ledger_def hash_value_def Let_def reserveNeed_def transaction_def persistOutbox_def)
      (simp add: sample_ledger_def)
qed

theorem replay_guard_ledger_witness:
  "\<exists>l'. ledger_admissions sample_platform ''p'' sample_ledger [''n1''] l' \<and> getNeed ''n1'' l' \<noteq> None"
proof -
  obtain l' where "admit_ledger sample_platform ''p'' (JNum (of_int sample_now)) ''t'' sample_ledger sample_need_envelope sample_ledger = (Inr (), l')"
    using sample_admitted by blast
  then have "ledger_admissions sample_platform ''p'' sample_ledger ([] @ [str_of (get sample_need_envelope ''id'')]) l'"
    by (intro adm_need[OF adm_nil]) auto
  then have run: "ledger_admissions sample_platform ''p'' sample_ledger [''n1''] l'" by simp
  from replay_guard_ledger[OF run] run show ?thesis by auto
qed

lemma replay_guard_memory:
  assumes "reservations (\<lambda>_ :: unit. seen_reserve m) (=) s is s'" "length s \<le> m"
  shows "distinct is \<and> length s' \<le> m"
proof -
  from assms have "length s' \<le> m"
    by (induction rule: reservations.induct) (auto simp: seen_reserve_def split: if_splits)
  with memory_registry.reserved_once[OF assms(1)] show ?thesis by simp
qed

end
