(* ===== verification/Provider_Security.thy ===== *)
theory Provider_Security
  imports Need_Replay
begin

text \<open>
  Who may use a provider and who pays: \<^verbatim>\<open>core/security/node-backchannel.js\<close>, \<^verbatim>\<open>provider-access.js\<close>,
  \<^verbatim>\<open>provider-billing.js\<close>, \<^verbatim>\<open>relay-provider-policy.js\<close>, \<^verbatim>\<open>paid-need-admission.js\<close> and the contract checks
  of \<^verbatim>\<open>platform-contracts.js\<close>. The account and grant authorities are services the program only calls;
  they are records of functions, arguments of the definitions. Shown: a paid NEED verified at the
  provider was authorised for exactly these parties with the provider as payer, and what the relay
  authorises the provider accepts; a durable authority alone decides, whatever an OFFER claims;
  owner-paid access never leaves the allow-list.
\<close>

section \<open>Identifier lists\<close>

fun split_on :: "char \<Rightarrow> string \<Rightarrow> string list" where
  "split_on c [] = [[]]"
| "split_on c (x # xs) = (if x = c then [] # split_on c xs
     else case split_on c xs of [] \<Rightarrow> [[x]] | w # ws \<Rightarrow> (x # w) # ws)"

definition parseIds :: "platform \<Rightarrow> jsval \<Rightarrow> string list" where
  "parseIds p v = (case v of
       JArr xs \<Rightarrow> filter (\<lambda>s. s \<noteq> []) (map (\<lambda>x. trim (to_string p x)) xs)
     | JStr s \<Rightarrow> filter (\<lambda>s. s \<noteq> []) (map trim (split_on (CHR '','') s))
     | _ \<Rightarrow> [])"

definition normalizeIds :: "jsval \<Rightarrow> string list" where
  "normalizeIds v = unique (filter (\<lambda>s. s \<noteq> []) (map (trim \<circ> str_of) (filter is_string (elems v))))"

section \<open>The provider backchannel\<close>

record backchannel =
  bc_protected :: "string list"
  bc_token :: string

text \<open>\<^verbatim>\<open>String(v || '')\<close>.\<close>

definition text_or_empty :: "platform \<Rightarrow> jsval \<Rightarrow> string" where
  "text_or_empty p v = (if truthy v then to_string p v else [])"

definition createNodeBackchannelPolicy :: "platform \<Rightarrow> jsval \<Rightarrow> jsval \<Rightarrow> backchannel result" where
  "createNodeBackchannelPolicy p protectedNodeIds token =
     (let nodes = unique (parseIds p protectedNodeIds); expected = trim (text_or_empty p token) in
      if nodes \<noteq> [] \<and> expected = [] then Inl (Err ''Protected provider node IDs require a backchannel token'')
      else if nodes = [] \<and> expected \<noteq> [] then Inl (Err ''Provider backchannel token requires protected provider node IDs'')
      else Inr \<lparr>bc_protected = nodes, bc_token = expected\<rparr>)"

definition constantTimeEqual :: "platform \<Rightarrow> jsval \<Rightarrow> string \<Rightarrow> bool" where
  "constantTimeEqual p l r = (let a = text_or_empty p l in
     if length a \<noteq> length r \<or> length a = 0 then False else a = r)"

definition bc_requiresProof :: "backchannel \<Rightarrow> string \<Rightarrow> bool" where
  "bc_requiresProof b n = (n \<noteq> [] \<and> n \<in> set (bc_protected b))"

text \<open>\<open>Inr\<close> of whether the node is protected, or the reason of the refusal.\<close>

definition bc_authorize :: "platform \<Rightarrow> backchannel \<Rightarrow> string \<Rightarrow> jsval \<Rightarrow> bool verdict" where
  "bc_authorize p b n presented =
     (if n = [] then Inl ''missing_node_identity''
      else if \<not> bc_requiresProof b n then Inr False
      else if \<not> constantTimeEqual p presented (bc_token b) then Inl ''provider_backchannel_denied''
      else Inr True)"

section \<open>Provider access and billing\<close>

record access_policy =
  ap_mode :: string
  ap_allowed :: "string list"

definition createProviderAccessPolicy :: "platform \<Rightarrow> jsval \<Rightarrow> jsval \<Rightarrow> access_policy result" where
  "createProviderAccessPolicy p mode allowedRequesterIds =
     (let m = to_lower (trim (to_string p mode)) in
      if m \<notin> {''public'', ''owner-only''} then Inl (Err (''Unsupported provider access mode: '' @ to_string p mode))
      else Inr \<lparr>ap_mode = m, ap_allowed = unique (parseIds p allowedRequesterIds)\<rparr>)"

definition access_authorize :: "access_policy \<Rightarrow> jsval \<Rightarrow> jsval verdict" where
  "access_authorize a need =
     (if ap_mode a = ''public'' then Inr JUndef
      else let r = oget need ''from'' in
        if \<not> truthy r then Inl ''missing_requester_identity''
        else if ap_allowed a = [] then Inl ''no_allowed_requesters''
        else if r \<notin> set (map JStr (ap_allowed a)) then Inl ''requester_not_allowed''
        else Inr r)"

definition createProviderBillingPolicy :: "platform \<Rightarrow> jsval \<Rightarrow> string result" where
  "createProviderBillingPolicy p mode =
     (let m = to_lower (trim (to_string p mode)) in
      if m \<notin> {''byok'', ''owner-funded''} then Inl (Err (''Unsupported public provider billing mode: '' @ to_string p mode @
          ''; non-public commercial modes require a compatible managed platform''))
      else Inr m)"

definition billing_authorize :: "string \<Rightarrow> jsval \<Rightarrow> access_policy option \<Rightarrow> jsval verdict" where
  "billing_authorize mode need accessPolicy =
     (let r = oget need ''from'' in
      if \<not> truthy r then Inl ''missing_requester_identity''
      else case accessPolicy of None \<Rightarrow> Inl ''missing_access_policy''
      | Some a \<Rightarrow>
         (case access_authorize a need of Inl _ \<Rightarrow> Inl ''provider_access_denied''
          | Inr _ \<Rightarrow>
             if mode = ''byok'' \<and> ap_mode a \<noteq> ''owner-only'' then Inl ''byok_provider_must_be_private''
             else if mode = ''owner-funded'' \<and> ap_mode a \<noteq> ''owner-only'' then Inl ''owner_paid_external_access_disabled''
             else Inr r))"

section \<open>Authorities\<close>

text \<open>
  A service as the program sees it: each method is \<open>None\<close> where it is not a function, and a call
  returns a value or throws.
\<close>

record tenant_authority =
  ta_resolveRequester :: "(string \<Rightarrow> jsval result) option"
  ta_resolveProvider :: "(string \<Rightarrow> jsval result) option"

record grant_authority =
  ga_durable :: jsval
  ga_authorize :: "(string \<Rightarrow> string \<Rightarrow> jsval \<Rightarrow> jsval result) option"
  ga_getProviderPolicy :: "(string \<Rightarrow> jsval result) option"
  ga_visibleToRequester :: "(string \<Rightarrow> jsval result) option"
  ga_revision :: jsval

definition call1 :: "('a \<Rightarrow> jsval result) option \<Rightarrow> 'a \<Rightarrow> jsval result" where
  "call1 f x = (case f of None \<Rightarrow> Inl (TypeError ''not a function'') | Some g \<Rightarrow> g x)"

definition requiredFunction :: "'f option \<Rightarrow> string \<Rightarrow> string \<Rightarrow> unit result" where
  "requiredFunction f name label = (if f = None then Inl (Err (label @ '' requires '' @ name @ ''()'')) else Inr ())"

definition assertAccountTenantAuthority :: "tenant_authority \<Rightarrow> unit result" where
  "assertAccountTenantAuthority a =
     rbind (requiredFunction (ta_resolveRequester a) ''resolveRequester'' ''account/tenant authority'') (\<lambda>_.
     requiredFunction (ta_resolveProvider a) ''resolveProvider'' ''account/tenant authority'')"

definition assertProviderGrantAuthority :: "grant_authority \<Rightarrow> unit result" where
  "assertProviderGrantAuthority a =
     rbind (requiredFunction (ga_authorize a) ''authorize'' ''provider grant authority'') (\<lambda>_.
     rbind (requiredFunction (ga_visibleToRequester a) ''visibleToRequester'' ''provider grant authority'') (\<lambda>_.
     requiredFunction (ga_getProviderPolicy a) ''getProviderPolicy'' ''provider grant authority''))"

definition put_field :: "string \<Rightarrow> jsval \<Rightarrow> jsval \<Rightarrow> jsval" where
  "put_field k v obj = (case obj of JObj kvs \<Rightarrow> JObj (AList.update k v kvs) | _ \<Rightarrow> JObj [(k, v)])"

definition normalizeAuthorityDecision :: "string \<Rightarrow> jsval \<Rightarrow> jsval" where
  "normalizeAuthorityDecision defaultReason v =
     (if \<not> truthy v \<or> typeof v \<noteq> ''object'' then JObj [(''ok'', JBool False), (''reason'', JStr defaultReason)]
      else if get v ''ok'' = JBool True then put_field ''ok'' (JBool True) v
      else put_field ''reason'' (if nonblank (get v ''reason'') then get v ''reason'' else JStr defaultReason)
             (put_field ''ok'' (JBool False) v))"

definition adapter_status :: "jsval \<Rightarrow> jsval" where
  "adapter_status current =
     (if \<not> truthy current \<or> get current ''ready'' \<noteq> JBool True
      then JObj [(''ready'', JBool False),
        (''reason'', if truthy (oget current ''reason'') then oget current ''reason'' else JStr ''authority_not_ready'')]
      else put_field ''ready'' (JBool True) current)"

section \<open>Relay provider policy\<close>

record relay_config =
  rc_tenant :: "tenant_authority option"
  rc_grant :: "grant_authority option"

text \<open>Both setters return the previous authority.\<close>

definition configureRelayAccountTenantAuthority ::
  "tenant_authority option \<Rightarrow> relay_config \<Rightarrow> tenant_authority option result \<times> relay_config" where
  "configureRelayAccountTenantAuthority authority c =
     (if (case authority of None \<Rightarrow> False | Some a \<Rightarrow> ta_resolveRequester a = None \<or> ta_resolveProvider a = None)
      then (Inl (Err ''account tenant authority must expose resolveRequester() and resolveProvider()''), c)
      else (Inr (rc_tenant c), c\<lparr>rc_tenant := authority\<rparr>))"

definition configureRelayProviderGrantAuthority ::
  "grant_authority option \<Rightarrow> relay_config \<Rightarrow> grant_authority option result \<times> relay_config" where
  "configureRelayProviderGrantAuthority authority c =
     (if (case authority of None \<Rightarrow> False
          | Some a \<Rightarrow> ga_durable a \<noteq> JBool True \<or> ga_authorize a = None \<or> ga_getProviderPolicy a = None)
      then (Inl (Err ''provider grant authority must be durable and expose authorize() / getProviderPolicy()''), c)
      else (Inr (rc_grant c), c\<lparr>rc_grant := authority\<rparr>))"

record relay_policy =
  rp_providerNodeId :: string
  rp_ownerNodeId :: string
  rp_capability :: jsval
  rp_accessMode :: string
  rp_visibility :: string
  rp_allowedRequesterIds :: "string list"
  rp_tenant :: "tenant_authority option"
  rp_grant :: "grant_authority option"

definition normalizedAccessMode :: "platform \<Rightarrow> jsval \<Rightarrow> string" where
  "normalizedAccessMode p v =
     (if to_lower (trim (if truthy v then to_string p v else ''owner-only'')) = ''public'' then ''public'' else ''owner-only'')"

definition providerPolicyFromOffer :: "platform \<Rightarrow> relay_config \<Rightarrow> jsval \<Rightarrow> relay_policy result" where
  "providerPolicyFromOffer p c envelope =
     (let from_id = oget envelope ''from'' in
      if \<not> is_string from_id \<or> str_of from_id = [] then Inl (Err ''Provider OFFER requires a signed provider identity'')
      else
        let payload = oget envelope ''payload''; m = oget payload ''metadata'';
            metadata = (if truthy m \<and> typeof m = ''object'' then m else JObj []);
            cap = oget payload ''capability'';
            capability = (if truthy (oget cap ''name'') then oget cap ''name'' else if truthy cap then cap else JStr ''*'');
            durable = (rc_grant c \<noteq> None);
            legacy = normalizedAccessMode p (get metadata ''accessMode'')
        in Inr \<lparr>rp_providerNodeId = str_of from_id, rp_ownerNodeId = str_of from_id, rp_capability = capability,
             rp_accessMode = (if durable then ''authority'' else legacy),
             rp_visibility = (if durable then ''authority'' else if legacy = ''public'' then ''network'' else ''private''),
             rp_allowedRequesterIds = (if durable then [] else if legacy = ''owner-only''
               then normalizeIds (get metadata ''allowedRequesterIds'') else []),
             rp_tenant = rc_tenant c, rp_grant = rc_grant c\<rparr>)"

definition authoritativeContexts :: "relay_policy \<Rightarrow> string \<Rightarrow> bool option" where
  "authoritativeContexts policy requester = (case rp_tenant policy of None \<Rightarrow> None
     | Some a \<Rightarrow>
        (case (call1 (ta_resolveRequester a) requester, call1 (ta_resolveProvider a) (rp_providerNodeId policy)) of
           (Inr r, Inr v) \<Rightarrow> Some (truthy (oget r ''ok'') \<and> truthy (oget v ''ok''))
         | _ \<Rightarrow> Some False))"

definition providerPolicyAllowsRequester :: "relay_policy option \<Rightarrow> string \<Rightarrow> jsval \<Rightarrow> bool" where
  "providerPolicyAllowsRequester policy requester trusted =
     (case policy of None \<Rightarrow> False
      | Some q \<Rightarrow>
        if requester = [] then False
        else (case rp_grant q of
          Some a \<Rightarrow> (case ga_authorize a of None \<Rightarrow> False
             | Some f \<Rightarrow> (case f (rp_providerNodeId q) requester
                 (if truthy (rp_capability q) then rp_capability q else JStr ''*'') of
                 Inl _ \<Rightarrow> False | Inr d \<Rightarrow> oget d ''ok'' = JBool True))
        | None \<Rightarrow>
            if authoritativeContexts q requester = Some False then False
            else if rp_accessMode q = ''public'' then True
            else if rp_accessMode q \<noteq> ''owner-only'' then False
            else requester \<in> set (normalizeIds (JArr (map JStr (rp_allowedRequesterIds q)))) \<or> requester \<in> set (normalizeIds trusted)))"

definition publicProviderPolicy :: "relay_policy option \<Rightarrow> jsval" where
  "publicProviderPolicy policy = (case policy of None \<Rightarrow> JNull
     | Some q \<Rightarrow>
        (case rp_grant q of
           Some a \<Rightarrow>
             (case call1 (ga_getProviderPolicy a) (rp_providerNodeId q) of
                Inl _ \<Rightarrow> JObj [(''accessMode'', JStr ''authority''), (''visibility'', JStr ''unavailable'')]
              | Inr d \<Rightarrow>
                  if \<not> truthy d then JObj [(''accessMode'', JStr ''authority''), (''visibility'', JStr ''unconfigured'')]
                  else JObj [(''accessMode'', get d ''mode''), (''visibility'', get d ''mode''), (''authorityRevision'', ga_revision a)])
         | None \<Rightarrow> JObj [(''accessMode'', JStr (rp_accessMode q)), (''visibility'', JStr (rp_visibility q))]))"

section \<open>Paid NEEDs\<close>

definition validId :: "jsval \<Rightarrow> bool" where
  "validId v = (is_string v \<and> length (str_of v) > 0 \<and> length (str_of v) \<le> 4096)"

definition PAID_NEED_CONTRACT :: string where
  "PAID_NEED_CONTRACT = ''truyn.paid.need/1''"

definition paidModes :: "jsval set" where
  "paidModes = {JStr ''self'', JStr ''private'', JStr ''shared''}"

definition paid_commitment :: "string \<Rightarrow> jsval \<Rightarrow> jsval \<Rightarrow> jsval \<Rightarrow> jsval \<Rightarrow> jsval" where
  "paid_commitment providerNodeId requesterNodeId capability revision grantId =
     JObj [(''contract'', JStr PAID_NEED_CONTRACT), (''status'', JStr ''authorized''),
       (''requesterNodeId'', requesterNodeId), (''providerNodeId'', JStr providerNodeId), (''capability'', capability),
       (''payerNodeId'', JStr providerNodeId), (''billingResponsibility'', JStr ''provider-owner''),
       (''authorityRevision'', revision), (''grantId'', grantId)]"

text \<open>A policy without a grant authority, and no policy, are refused alike.\<close>

definition authorizePaidNeedAtRelay :: "relay_policy option \<Rightarrow> jsval \<Rightarrow> jsval \<Rightarrow> jsval result" where
  "authorizePaidNeedAtRelay policy requesterNodeId capability =
     (case policy of None \<Rightarrow> Inl (Fault 403 ''paid_need_authority_required'')
      | Some q \<Rightarrow> (case rp_grant q of None \<Rightarrow> Inl (Fault 403 ''paid_need_authority_required'')
      | Some a \<Rightarrow>
        let providerNodeId = rp_providerNodeId q in
        if \<not> validId (JStr providerNodeId) \<or> \<not> validId requesterNodeId \<or> \<not> validId capability \<or>
           ga_durable a \<noteq> JBool True \<or> ga_authorize a = None \<or> ga_getProviderPolicy a = None
        then Inl (Fault 403 ''paid_need_authority_required'')
        else
          (case (the (ga_authorize a) providerNodeId (str_of requesterNodeId) capability, call1 (ga_getProviderPolicy a) providerNodeId) of
             (Inr decision, Inr pol) \<Rightarrow>
               if oget decision ''ok'' \<noteq> JBool True \<or> oget pol ''status'' \<noteq> JStr ''active'' \<or>
                  get decision ''mode'' \<notin> paidModes \<or> get pol ''mode'' \<noteq> get decision ''mode'' \<or>
                  (get decision ''mode'' = JStr ''shared'' \<and> \<not> validId (get decision ''grantId''))
               then Inl (Fault 403 ''paid_need_denied'')
               else if \<not> is_safe_integer (ga_revision a) \<or> num_of (ga_revision a) < 0
                 then Inl (Fault 503 ''paid_need_authority_unconfirmed'')
               else Inr (paid_commitment providerNodeId requesterNodeId capability (ga_revision a)
                 (if validId (get decision ''grantId'') then get decision ''grantId'' else JNull))
           | _ \<Rightarrow> Inl (Fault 503 ''paid_need_authority_unavailable''))))"

text \<open>The shared ledger the provider reads: its kind, its methods, and the lookup.\<close>

record shared_ledger =
  sl_kind :: jsval
  sl_methods :: bool
  sl_getNeed :: "string \<Rightarrow> jsval result"

text \<open>The record and the commitment in it are those of this NEED, this requester and this provider.\<close>

definition paid_record_matches :: "platform \<Rightarrow> jsval \<Rightarrow> jsval \<Rightarrow> jsval \<Rightarrow> bool" where
  "paid_record_matches p row need providerNodeId =
     (let a = oget row ''paidAuthorization''; capability = need_capability need;
          paid = get need ''paidFingerprint'' in
      truthy row \<and> get row ''status'' = JStr ''matched'' \<and>
      strict_eq (get row ''requester'') (get need ''from'') \<and> strict_eq (get row ''provider'') providerNodeId \<and>
      strict_eq (get row ''capability'') capability \<and>
      length (text_or_empty p paid) = 64 \<and> list_all is_hex (text_or_empty p paid) \<and>
      strict_eq (get row ''fingerprint'') paid \<and>
      oget a ''contract'' = JStr PAID_NEED_CONTRACT \<and> get a ''status'' = JStr ''authorized'' \<and>
      strict_eq (get a ''requesterNodeId'') (get need ''from'') \<and> strict_eq (get a ''providerNodeId'') providerNodeId \<and>
      strict_eq (get a ''capability'') capability \<and> strict_eq (get a ''payerNodeId'') providerNodeId \<and>
      get a ''billingResponsibility'' = JStr ''provider-owner'' \<and>
      is_safe_integer (get a ''authorityRevision'') \<and> num_of (get a ''authorityRevision'') \<ge> 0)"

definition verifyPaidNeedAtProvider :: "platform \<Rightarrow> shared_ledger \<Rightarrow> jsval \<Rightarrow> jsval \<Rightarrow> jsval \<Rightarrow> int \<Rightarrow> jsval result" where
  "verifyPaidNeedAtProvider p ledger need providerNodeId maxAgeMs now =
     (if sl_kind ledger \<noteq> JStr ''cosmos-multi-host-v1'' \<or> \<not> sl_methods ledger
        then Inl (Fault 503 ''paid_need_shared_ledger_required'')
      else if \<not> validId (oget need ''id'') \<or> \<not> validId (oget need ''from'') \<or> \<not> validId providerNodeId \<or> truthy (get need ''chain'')
        then Inl (Fault 403 ''paid_need_unverified'')
      else (case sl_getNeed ledger (str_of (get need ''id'')) of
          Inl _ \<Rightarrow> Inl (Fault 503 ''paid_need_ledger_unavailable'')
        | Inr row \<Rightarrow>
           if \<not> paid_record_matches p row need providerNodeId then Inl (Fault 403 ''paid_need_unverified'')
           else (case date_parse p (to_string p (get row ''createdAt'')) of
               None \<Rightarrow> Inl (Fault 403 ''paid_need_authorization_expired'')
             | Some created \<Rightarrow>
                if \<not> is_safe_integer maxAgeMs \<or> num_of maxAgeMs < 1 \<or> now < created \<or> now - created > int_of maxAgeMs
                then Inl (Fault 403 ''paid_need_authorization_expired'') else Inr (get row ''paidAuthorization''))))"

section \<open>Paid NEEDs: what a verification shows\<close>

lemma oget_truthy: "truthy v \<Longrightarrow> oget v k = get v k"
  by (cases v) (auto simp: oget_def)

lemma oget_JObj [simp]: "oget (JObj kvs) k = get (JObj kvs) k"
  by (simp add: oget_def)

lemma oget_str: "oget v k = JStr s \<Longrightarrow> get v k = JStr s"
  by (auto simp: oget_def split: if_splits)

lemma verifyPaidNeed_elim:
  assumes "verifyPaidNeedAtProvider p ledger need prov maxAgeMs now = Inr a"
  obtains row created where "sl_getNeed ledger (str_of (get need ''id'')) = Inr row"
    "a = get row ''paidAuthorization''" "paid_record_matches p row need prov" "\<not> truthy (get need ''chain'')"
    "date_parse p (to_string p (get row ''createdAt'')) = Some created" "created \<le> now" "now \<le> created + int_of maxAgeMs"
  using assms unfolding verifyPaidNeedAtProvider_def
  by (fastforce split: if_splits sum.splits option.splits)

lemma paid_record_parties:
  assumes "paid_record_matches p row need prov"
  shows "get row ''requester'' = get need ''from''" "get row ''provider'' = prov"
    "get row ''fingerprint'' = get need ''paidFingerprint''"
    "get (get row ''paidAuthorization'') ''requesterNodeId'' = get need ''from''"
    "get (get row ''paidAuthorization'') ''providerNodeId'' = prov"
    "get (get row ''paidAuthorization'') ''payerNodeId'' = prov"
    "get (get row ''paidAuthorization'') ''capability'' = need_capability need"
    "get (get row ''paidAuthorization'') ''contract'' = JStr PAID_NEED_CONTRACT"
proof -
  have "truthy row" using assms by (simp add: paid_record_matches_def Let_def)
  note m = assms[unfolded paid_record_matches_def Let_def oget_truthy[OF this]]
  show "get row ''requester'' = get need ''from''" "get row ''provider'' = prov"
    "get row ''fingerprint'' = get need ''paidFingerprint''"
    "get (get row ''paidAuthorization'') ''requesterNodeId'' = get need ''from''"
    "get (get row ''paidAuthorization'') ''providerNodeId'' = prov"
    "get (get row ''paidAuthorization'') ''payerNodeId'' = prov"
    "get (get row ''paidAuthorization'') ''capability'' = need_capability need"
    using m by (meson strict_eq_imp_eq)+
  show "get (get row ''paidAuthorization'') ''contract'' = JStr PAID_NEED_CONTRACT"
    using m oget_str by blast
qed

text \<open>
  C5. A paid NEED is served only for what the shared ledger says: when the provider's verification
  returns, the ledger holds a record of this very NEED, its requester, fingerprint and provider are
  those of the NEED at hand, the commitment returned is the one in that record, it names the
  provider itself as the payer and this requester and capability as the beneficiary, the NEED is no
  link of a chain, and the record is neither from the future nor older than the allowed age.
\<close>

theorem paid_need_verified:
  assumes "verifyPaidNeedAtProvider p ledger need prov maxAgeMs now = Inr a"
  shows "\<exists>row created. sl_getNeed ledger (str_of (get need ''id'')) = Inr row \<and> get row ''paidAuthorization'' = a \<and>
    get row ''requester'' = get need ''from'' \<and> get row ''provider'' = prov \<and>
    get row ''fingerprint'' = get need ''paidFingerprint'' \<and>
    get a ''requesterNodeId'' = get need ''from'' \<and> get a ''payerNodeId'' = prov \<and> get a ''providerNodeId'' = prov \<and>
    get a ''capability'' = need_capability need \<and> get a ''contract'' = JStr PAID_NEED_CONTRACT \<and> \<not> truthy (get need ''chain'') \<and>
    date_parse p (to_string p (get row ''createdAt'')) = Some created \<and> created \<le> now \<and> now \<le> created + int_of maxAgeMs"
proof -
  obtain row created where row: "sl_getNeed ledger (str_of (get need ''id'')) = Inr row" "a = get row ''paidAuthorization''"
    "paid_record_matches p row need prov" and "\<not> truthy (get need ''chain'')"
    "date_parse p (to_string p (get row ''createdAt'')) = Some created" "created \<le> now" "now \<le> created + int_of maxAgeMs"
    using assms by (rule verifyPaidNeed_elim)
  with paid_record_parties[OF row(3)] show ?thesis by (intro exI[of _ row] exI[of _ created]) simp
qed

lemma authorizePaidNeed_elim:
  assumes "authorizePaidNeedAtRelay (Some q) requester capability = Inr a"
  obtains g grantId where "rp_grant q = Some g" "ga_durable g = JBool True"
    "a = paid_commitment (rp_providerNodeId q) requester capability (ga_revision g) grantId"
    "validId (JStr (rp_providerNodeId q))" "validId requester" "validId capability"
    "is_safe_integer (ga_revision g)" "0 \<le> num_of (ga_revision g)"
    "\<exists>f d pol. ga_authorize g = Some f \<and> f (rp_providerNodeId q) (str_of requester) capability = Inr d \<and>
       get d ''ok'' = JBool True \<and> get d ''mode'' \<in> paidModes \<and>
       call1 (ga_getProviderPolicy g) (rp_providerNodeId q) = Inr pol \<and> get pol ''status'' = JStr ''active'' \<and>
       get pol ''mode'' = get d ''mode''"
proof -
  have ok: "oget d k = JBool b \<Longrightarrow> get d k = JBool b" for d k b
    by (auto simp: oget_def split: if_splits)
  have st: "oget d k = JStr b \<Longrightarrow> get d k = JStr b" for d k b by (rule oget_str)
  show thesis
    using assms unfolding authorizePaidNeedAtRelay_def Let_def
    by (force split: if_splits sum.splits option.splits intro!: that dest!: ok st)
qed

lemma strict_eq_validId: "validId v \<Longrightarrow> strict_eq v v" "validId v \<Longrightarrow> strict_eq (JStr (str_of v)) v"
  by (cases v; simp add: validId_def)+

lemma paid_commitment_get [simp]:
  "get (paid_commitment prov req cap rv g) ''contract'' = JStr PAID_NEED_CONTRACT"
  "get (paid_commitment prov req cap rv g) ''status'' = JStr ''authorized''"
  "get (paid_commitment prov req cap rv g) ''requesterNodeId'' = req"
  "get (paid_commitment prov req cap rv g) ''providerNodeId'' = JStr prov"
  "get (paid_commitment prov req cap rv g) ''capability'' = cap"
  "get (paid_commitment prov req cap rv g) ''payerNodeId'' = JStr prov"
  "get (paid_commitment prov req cap rv g) ''billingResponsibility'' = JStr ''provider-owner''"
  "get (paid_commitment prov req cap rv g) ''authorityRevision'' = rv"
  "oget (paid_commitment prov req cap rv g) ''contract'' = JStr PAID_NEED_CONTRACT"
  by (simp_all add: paid_commitment_def)

text \<open>The row the relay stores for a matched paid NEED.\<close>

definition paid_row :: "string \<Rightarrow> string \<Rightarrow> jsval \<Rightarrow> string \<Rightarrow> string \<Rightarrow> jsval \<Rightarrow> jsval" where
  "paid_row requester provider capability fingerprint createdAt a =
     JObj [(''status'', JStr ''matched''), (''requester'', JStr requester), (''provider'', JStr provider),
       (''capability'', capability), (''fingerprint'', JStr fingerprint), (''createdAt'', JStr createdAt), (''paidAuthorization'', a)]"

lemma paid_row_get [simp]:
  "get (paid_row r v c f t a) ''status'' = JStr ''matched''" "get (paid_row r v c f t a) ''requester'' = JStr r"
  "get (paid_row r v c f t a) ''provider'' = JStr v" "get (paid_row r v c f t a) ''capability'' = c"
  "get (paid_row r v c f t a) ''fingerprint'' = JStr f" "get (paid_row r v c f t a) ''createdAt'' = JStr t"
  "get (paid_row r v c f t a) ''paidAuthorization'' = a" "oget (paid_row r v c f t a) ''paidAuthorization'' = a"
  "truthy (paid_row r v c f t a)"
  by (simp_all add: paid_row_def)

text \<open>
  The relay and the provider agree. Whatever commitment the relay issues, which it only does
  under a durable authority that answers yes in a paid mode for an active policy, the provider
  accepts and returns unchanged when the shared ledger holds it in the matched record of the NEED
  and the record is not older than the allowed age.
\<close>

theorem paid_need_roundtrip:
  assumes "authorizePaidNeedAtRelay (Some q) (get need ''from'') (need_capability need) = Inr a"
    and "validId (get need ''id'')" "\<not> truthy (get need ''chain'')" "get need ''paidFingerprint'' = JStr fp"
    and "length fp = 64" "list_all is_hex fp"
    and "sl_kind ledger = JStr ''cosmos-multi-host-v1''" "sl_methods ledger"
    and "sl_getNeed ledger (str_of (get need ''id'')) =
      Inr (paid_row (str_of (get need ''from'')) (rp_providerNodeId q) (need_capability need) fp createdAt a)"
    and "date_parse p createdAt = Some created" "created \<le> now" "now - created \<le> int_of maxAgeMs"
    and "is_safe_integer maxAgeMs" "num_of maxAgeMs \<ge> 1"
  shows "verifyPaidNeedAtProvider p ledger need (JStr (rp_providerNodeId q)) maxAgeMs now = Inr a \<and>
    (\<exists>g f d. rp_grant q = Some g \<and> ga_durable g = JBool True \<and> ga_authorize g = Some f \<and>
       f (rp_providerNodeId q) (str_of (get need ''from'')) (need_capability need) = Inr d \<and>
       get d ''ok'' = JBool True \<and> get d ''mode'' \<in> paidModes)"
  using assms(1)
proof (elim authorizePaidNeed_elim)
  fix g grantId
  assume g: "rp_grant q = Some g" "ga_durable g = JBool True"
    and a: "a = paid_commitment (rp_providerNodeId q) (get need ''from'') (need_capability need) (ga_revision g) grantId"
    and v: "validId (JStr (rp_providerNodeId q))" "validId (get need ''from'')" "validId (need_capability need)"
    and rev: "is_safe_integer (ga_revision g)" "0 \<le> num_of (ga_revision g)"
    and auth: "\<exists>f d pol. ga_authorize g = Some f \<and> f (rp_providerNodeId q) (str_of (get need ''from'')) (need_capability need) = Inr d \<and>
       get d ''ok'' = JBool True \<and> get d ''mode'' \<in> paidModes \<and>
       call1 (ga_getProviderPolicy g) (rp_providerNodeId q) = Inr pol \<and> get pol ''status'' = JStr ''active'' \<and>
       get pol ''mode'' = get d ''mode''"
  have need: "oget need k = get need k" for k by (cases need) (auto simp: oget_def)
  have fp: "text_or_empty p (JStr fp) = fp" by (simp add: text_or_empty_def)
  have self: "strict_eq (get need ''from'') (get need ''from'')" "strict_eq (need_capability need) (need_capability need)"
    using v by (simp_all add: strict_eq_validId)
  have from_eq: "strict_eq (JStr (str_of (get need ''from''))) (get need ''from'')"
    by (rule strict_eq_validId(2)[OF v(2)])
  have match: "paid_record_matches p (paid_row (str_of (get need ''from'')) (rp_providerNodeId q) (need_capability need) fp createdAt a)
      need (JStr (rp_providerNodeId q))"
    using rev assms(4-6) self from_eq by (simp add: paid_record_matches_def Let_def a fp)
  have "verifyPaidNeedAtProvider p ledger need (JStr (rp_providerNodeId q)) maxAgeMs now = Inr a"
    using assms(2,3,7-) v match unfolding verifyPaidNeedAtProvider_def by (simp add: need)
  with g auth show ?thesis by blast
qed

section \<open>Relay policy: what decides\<close>

lemma providerPolicyFromOffer_fields:
  assumes "providerPolicyFromOffer p c envelope = Inr q"
  shows "JStr (rp_providerNodeId q) = oget envelope ''from''" "rp_providerNodeId q \<noteq> []" "rp_grant q = rc_grant c"
    "rp_tenant q = rc_tenant c" "truthy (rp_capability q)"
    "rc_grant c = None \<Longrightarrow> rp_accessMode q = normalizedAccessMode p (get (oget (oget envelope ''payload'') ''metadata'') ''accessMode'')"
proof -
  let ?f = "oget envelope ''from''"
  have s: "is_string ?f" "str_of ?f \<noteq> []" using assms by (auto simp: providerPolicyFromOffer_def Let_def split: if_splits)
  have "rp_providerNodeId q = str_of ?f" using assms s by (auto simp: providerPolicyFromOffer_def Let_def split: if_splits)
  with s(1) show "JStr (rp_providerNodeId q) = ?f" by (cases ?f) auto
  show "rp_providerNodeId q \<noteq> []" "rp_grant q = rc_grant c" "rp_tenant q = rc_tenant c"
    "truthy (rp_capability q)"
    using assms s by (auto simp: providerPolicyFromOffer_def Let_def split: if_splits)
  have "get (if truthy m \<and> typeof m = ''object'' then m else JObj []) k = get m k" for m k
    by (cases m) auto
  then show "rc_grant c = None \<Longrightarrow> rp_accessMode q = normalizedAccessMode p (get (oget (oget envelope ''payload'') ''metadata'') ''accessMode'')"
    using assms s by (auto simp: providerPolicyFromOffer_def Let_def split: if_splits)
qed

text \<open>
  Once a durable grant authority is configured, it alone decides who may use a provider: for
  every OFFER the relay turns into a policy, a requester is allowed exactly when the authority
  answers \<^verbatim>\<open>ok: true\<close> for the signer of the OFFER, this requester and the policy's capability. No
  access mode, allow-list or other metadata of the OFFER and no list of trusted nodes can widen or
  narrow the answer; an authority that throws denies.
\<close>

theorem relay_policy_authority:
  assumes "rc_grant c = Some g" and "ga_authorize g = Some f" and "providerPolicyFromOffer p c envelope = Inr q"
  shows "providerPolicyAllowsRequester (Some q) requester trusted \<longleftrightarrow>
    requester \<noteq> [] \<and> (\<exists>d. f (str_of (oget envelope ''from'')) requester (rp_capability q) = Inr d \<and> oget d ''ok'' = JBool True)"
proof -
  note q = providerPolicyFromOffer_fields[OF assms(3)]
  have "str_of (oget envelope ''from'') = rp_providerNodeId q" by (simp add: q(1)[symmetric])
  with q assms(1,2) show ?thesis by (auto simp: providerPolicyAllowsRequester_def split: sum.splits)
qed

definition sample_grants :: grant_authority where
  "sample_grants = \<lparr>ga_durable = JBool True,
     ga_authorize = Some (\<lambda>v r c. Inr (JObj [(''ok'', JBool (r = ''alice'')), (''mode'', JStr ''private'')])),
     ga_getProviderPolicy = Some (\<lambda>v. Inr (JObj [(''status'', JStr ''active''), (''mode'', JStr ''private'')])),
     ga_visibleToRequester = None, ga_revision = JNum 3\<rparr>"

definition sample_offer :: jsval where
  "sample_offer = JObj [(''from'', JStr ''bob''), (''payload'', JObj [(''capability'', JStr ''chat''),
     (''metadata'', JObj [(''accessMode'', JStr ''public'')])])]"

definition sample_policy :: relay_policy where
  "sample_policy = \<lparr>rp_providerNodeId = ''bob'', rp_ownerNodeId = ''bob'', rp_capability = JStr ''chat'', rp_accessMode = ''authority'',
     rp_visibility = ''authority'', rp_allowedRequesterIds = [], rp_tenant = None, rp_grant = Some sample_grants\<rparr>"

lemma sample_policy_of_offer:
  "providerPolicyFromOffer sample_platform \<lparr>rc_tenant = None, rc_grant = Some sample_grants\<rparr> sample_offer = Inr sample_policy"
  by (simp add: providerPolicyFromOffer_def Let_def sample_offer_def sample_policy_def oget_def)

text \<open>The authority refuses mallory although the OFFER of bob claims to be public.\<close>

theorem relay_policy_authority_witness:
  "\<not> providerPolicyAllowsRequester (Some sample_policy) ''mallory'' (JArr [JStr ''mallory''])"
  using relay_policy_authority[of "\<lparr>rc_tenant = None, rc_grant = Some sample_grants\<rparr>" sample_grants
      "\<lambda>v r c. Inr (JObj [(''ok'', JBool (r = ''alice'')), (''mode'', JStr ''private'')])" sample_platform sample_offer sample_policy
      "''mallory''" "JArr [JStr ''mallory'']"] sample_policy_of_offer
  by (simp add: sample_grants_def)

definition sample_fp :: string where
  "sample_fp = replicate 64 (CHR ''a'')"

definition sample_paid_need :: jsval where
  "sample_paid_need = JObj [(''id'', JStr ''n1''), (''from'', JStr ''alice''), (''payload'', JObj [(''capability'', JStr ''chat'')]),
     (''paidFingerprint'', JStr sample_fp)]"

definition sample_commitment :: jsval where
  "sample_commitment = paid_commitment ''bob'' (JStr ''alice'') (JStr ''chat'') (JNum 3) JNull"

definition sample_shared_ledger :: shared_ledger where
  "sample_shared_ledger = \<lparr>sl_kind = JStr ''cosmos-multi-host-v1'', sl_methods = True,
     sl_getNeed = (\<lambda>i. if i = ''n1'' then Inr (paid_row ''alice'' ''bob'' (JStr ''chat'') sample_fp sample_iso sample_commitment) else Inr JNull)\<rparr>"

lemma sample_paid_need_get:
  "get sample_paid_need ''id'' = JStr ''n1''" "get sample_paid_need ''from'' = JStr ''alice''"
  "get sample_paid_need ''chain'' = JUndef" "get sample_paid_need ''paidFingerprint'' = JStr sample_fp"
  "need_capability sample_paid_need = JStr ''chat''"
  by (simp_all add: sample_paid_need_def need_capability_def oget_def Let_def)

lemma sample_authorized:
  "authorizePaidNeedAtRelay (Some sample_policy) (get sample_paid_need ''from'') (need_capability sample_paid_need) = Inr sample_commitment"
  by (simp add: authorizePaidNeedAtRelay_def sample_policy_def sample_grants_def sample_paid_need_get Let_def validId_def call1_def
      paidModes_def sample_commitment_def)

lemma sample_iso_parse: "sample_date_parse sample_iso = Some sample_now"
  by (simp add: sample_date_parse_def)

theorem paid_need_roundtrip_witness:
  "verifyPaidNeedAtProvider sample_platform sample_shared_ledger sample_paid_need (JStr ''bob'') (JNum 1000) (sample_now + 500) = Inr sample_commitment"
  using paid_need_roundtrip[of sample_policy sample_paid_need sample_commitment sample_fp sample_shared_ledger sample_iso sample_platform
      sample_now "sample_now + 500" "JNum 1000"] sample_authorized sample_iso_parse
  by (simp add: sample_paid_need_get validId_def sample_shared_ledger_def sample_policy_def sample_fp_def is_hex_def is_digit_def list_all_iff)

lemma sample_verified:
  "verifyPaidNeedAtProvider sample_platform sample_shared_ledger sample_paid_need (JStr ''bob'') (JNum 1000) sample_now = Inr sample_commitment"
proof -
  have "oget sample_paid_need k = get sample_paid_need k" for k by (simp add: sample_paid_need_def)
  moreover have "paid_record_matches sample_platform (paid_row ''alice'' ''bob'' (JStr ''chat'') sample_fp sample_iso sample_commitment)
      sample_paid_need (JStr ''bob'')"
    by (simp add: paid_record_matches_def sample_paid_need_get Let_def sample_commitment_def text_or_empty_def
        sample_fp_def list_all_iff is_hex_def is_digit_def)
  ultimately show ?thesis
    by (simp add: verifyPaidNeedAtProvider_def sample_shared_ledger_def sample_paid_need_get validId_def sample_iso_parse)
qed

theorem paid_need_verified_witness:
  "get sample_commitment ''payerNodeId'' = JStr ''bob'' \<and> get sample_commitment ''requesterNodeId'' = JStr ''alice''"
  using paid_need_verified[OF sample_verified] by (auto simp: sample_paid_need_get)

section \<open>Owner-paid access\<close>

lemma createProviderBillingPolicy_modes: "createProviderBillingPolicy p v = Inr m \<Longrightarrow> m \<in> {''byok'', ''owner-funded''}"
  by (auto simp: createProviderBillingPolicy_def Let_def split: if_splits)

text \<open>
  Under every billing mode the public build offers, the owner pays only for requesters on an
  explicit allow-list of an owner-only provider; a public provider never spends.
\<close>

lemma billing_owner_only:
  assumes "createProviderBillingPolicy p v = Inr m"
  shows "billing_authorize m need (Some a) = Inr r \<longleftrightarrow>
    ap_mode a = ''owner-only'' \<and> r = oget need ''from'' \<and> truthy r \<and> r \<in> JStr ` set (ap_allowed a)"
  using createProviderBillingPolicy_modes[OF assms]
  by (auto simp: billing_authorize_def access_authorize_def Let_def split: sum.splits if_splits)

text \<open>A protected provider node is only reached with the exact token; other nodes need none.\<close>

lemma backchannel_protected:
  assumes "createNodeBackchannelPolicy p nodes tok = Inr b" "n \<in> set (bc_protected b)"
  shows "bc_authorize p b n presented = Inr prot \<Longrightarrow> prot \<and> text_or_empty p presented = bc_token b \<and> bc_token b \<noteq> []"
  using assms
  by (auto simp: bc_authorize_def bc_requiresProof_def constantTimeEqual_def Let_def split: if_splits)

end
