(* ===== verification/Json_Store.thy ===== *)
theory Json_Store
  imports Sample_Platform
begin

text \<open>
  The durable JSON store of \<^verbatim>\<open>core/security/durable-json-store.js\<close>: a state file that processes of one
  host share, guarded by a lock file created with \<^verbatim>\<open>wx\<close> and taken over once it is old and its
  process is gone. A transaction runs synchronously, so calls interleave only between processes, at
  the file system calls; a schedule is a list of events, and every definition is executable.
  Shown: as long as no lock file reaches the takeover age, transactions are serialised and none is
  lost, through crashes and failed writes; a takeover that two processes attempt at once loses an
  update.
\<close>

section \<open>Files and processes\<close>

text \<open>The state file: absent, not JSON of an object, or the members of an object.\<close>

datatype state_file = Absent | Corrupt | Content entries

text \<open>
  The lock file: whose \<^verbatim>\<open>open\<close> created it (the identity of the file), its modification time, and the
  process and owner token written into it, once they are.
\<close>

record lock_file =
  lf_creator :: nat
  lf_mtime :: int
  lf_record :: "(nat \<times> nat) option"

text \<open>
  Where a transaction stands. \<^verbatim>\<open>Waiting\<close>, \<^verbatim>\<open>SawLock\<close>, \<^verbatim>\<open>Stale\<close> and \<^verbatim>\<open>Steal\<close> are inside \<^verbatim>\<open>acquireLock\<close>: before
  \<^verbatim>\<open>openSync\<close>, before \<^verbatim>\<open>statSync\<close>, before \<^verbatim>\<open>readLockRecord\<close>, before \<^verbatim>\<open>unlinkSync\<close>, each with the time the
  wait started; \<^verbatim>\<open>Created\<close> is before the record is written. \<^verbatim>\<open>Finished\<close> and \<^verbatim>\<open>Releasing\<close> are inside
  \<^verbatim>\<open>releaseLock\<close> with the outcome that is about to be returned.
\<close>

datatype pc =
    Idle
  | Waiting int
  | SawLock int
  | Stale int
  | Steal int
  | Created
  | Holding
  | Loaded entries
  | Finished "(jsval \<times> entries) result"
  | Releasing "(jsval \<times> entries) result"
  | Done "(jsval \<times> entries) result"
  | Crashed

record json_store =
  st_clock :: int
  st_lock :: "lock_file option"
  st_data :: state_file
  st_pc :: "nat \<Rightarrow> pc"
  st_dead :: "nat set"

text \<open>
  The arguments: the default state, the two limits, and for each transaction its process and its
  mutator, which returns a result and the draft it changed, or throws. A transaction number serves
  as its random owner token.
\<close>

record store_config =
  sc_default :: entries
  sc_lockTimeoutMs :: int
  sc_staleLockMs :: int
  sc_pid :: "nat \<Rightarrow> nat"
  sc_mutator :: "nat \<Rightarrow> entries \<Rightarrow> (jsval \<times> entries) result"
  sc_iso :: "int \<Rightarrow> string"

definition createDurableJsonStore :: "jsval \<Rightarrow> jsval \<Rightarrow> jsval \<Rightarrow> unit result" where
  "createDurableJsonStore filePath lockTimeoutMs staleLockMs =
     (if \<not> nonblank filePath then Inl (Err ''durable store filePath is required'')
      else if \<not> is_finite_num lockTimeoutMs \<or> num_of lockTimeoutMs < 1 then Inl (Err ''lockTimeoutMs must be positive'')
      else if \<not> is_finite_num staleLockMs \<or> num_of staleLockMs < num_of lockTimeoutMs
        then Inl (Err ''staleLockMs must be >= lockTimeoutMs'')
      else Inr ())"

definition durableStateError :: "string \<Rightarrow> jserror" where
  "durableStateError code = Coded code code"

definition readUnlocked :: "store_config \<Rightarrow> state_file \<Rightarrow> entries result" where
  "readUnlocked c f = (case f of Absent \<Rightarrow> Inr (sc_default c) | Corrupt \<Rightarrow> Inl (durableStateError ''durable_state_corrupt'')
     | Content e \<Rightarrow> Inr e)"

text \<open>What reading back \<^verbatim>\<open>JSON.stringify\<close> of a value gives, and whether \<^verbatim>\<open>structuredClone\<close> copies it.\<close>

definition json_kept :: "jsval \<Rightarrow> bool" where
  "json_kept v = (v \<noteq> JUndef \<and> v \<noteq> JFun)"

fun json_image :: "jsval \<Rightarrow> jsval" where
  "json_image (JArr xs) = JArr (map json_image xs)"
| "json_image (JObj kvs) = JObj (map (\<lambda>kv. (fst kv, json_image (snd kv))) (filter (\<lambda>kv. json_kept (snd kv)) kvs))"
| "json_image JUndef = JNull"
| "json_image JFun = JNull"
| "json_image JNaN = JNull"
| "json_image (JInf b) = JNull"
| "json_image v = v"

definition json_entries :: "entries \<Rightarrow> entries" where
  "json_entries kvs = map (\<lambda>kv. (fst kv, json_image (snd kv))) (filter (\<lambda>kv. json_kept (snd kv)) kvs)"

fun clonable :: "jsval \<Rightarrow> bool" where
  "clonable (JArr xs) = list_all clonable xs"
| "clonable (JObj kvs) = list_all (\<lambda>kv. clonable (snd kv)) kvs"
| "clonable JFun = False"
| "clonable v = True"

definition currentRevision :: "entries \<Rightarrow> rat" where
  "currentRevision e = (let r = get (JObj e) ''revision'' in if is_safe_integer r \<and> num_of r \<ge> 0 then num_of r else 0)"

text \<open>The draft a transaction persists: the mutator's, with the next revision and the time.\<close>

definition next_draft :: "store_config \<Rightarrow> nat \<Rightarrow> int \<Rightarrow> entries \<Rightarrow> (jsval \<times> entries) result" where
  "next_draft c t now current = (case sc_mutator c t current of Inl e \<Rightarrow> Inl e
     | Inr (r, draft) \<Rightarrow> Inr (r, AList.update ''updatedAt'' (JStr (sc_iso c now))
         (AList.update ''revision'' (JNum (currentRevision current + 1)) draft)))"

text \<open>What \<^verbatim>\<open>transaction\<close> returns after a successful write.\<close>

definition returned :: "jsval \<Rightarrow> entries \<Rightarrow> (jsval \<times> entries) result" where
  "returned r draft = (if clonable r \<and> clonable (JObj draft) then Inr (r, draft) else Inl (Err ''DataCloneError''))"

section \<open>Steps\<close>

text \<open>How the write of a draft ends: it succeeds, fails before the rename, or fails after it.\<close>

datatype write_end = WriteOk | FailBefore | FailAfter

abbreviation goto :: "nat \<Rightarrow> pc \<Rightarrow> json_store \<Rightarrow> json_store" where
  "goto t l s \<equiv> s\<lparr>st_pc := (st_pc s)(t := l)\<rparr>"

text \<open>After a look at a lock that is not taken over: time out, or sleep and try again.\<close>

definition wait_or_timeout :: "store_config \<Rightarrow> nat \<Rightarrow> int \<Rightarrow> json_store \<Rightarrow> json_store" where
  "wait_or_timeout c t started s =
     (if st_clock s - started \<ge> sc_lockTimeoutMs c then goto t (Done (Inl (durableStateError ''durable_lock_timeout''))) s
      else goto t (Waiting started) s)"

definition acquireLock_step :: "store_config \<Rightarrow> nat \<Rightarrow> json_store \<Rightarrow> json_store" where
  "acquireLock_step c t s = (case st_pc s t of
       Waiting started \<Rightarrow>
         (case st_lock s of
            None \<Rightarrow> goto t Created s\<lparr>st_lock := Some \<lparr>lf_creator = t, lf_mtime = st_clock s, lf_record = None\<rparr>\<rparr>
          | Some _ \<Rightarrow> goto t (SawLock started) s)
     | SawLock started \<Rightarrow>
         (case st_lock s of
            None \<Rightarrow> goto t (Waiting started) s
          | Some f \<Rightarrow> if st_clock s - lf_mtime f \<ge> sc_staleLockMs c then goto t (Stale started) s
              else wait_or_timeout c t started s)
     | Stale started \<Rightarrow>
         (case st_lock s of
            None \<Rightarrow> goto t (Steal started) s
          | Some f \<Rightarrow> (case lf_record f of
              None \<Rightarrow> goto t (Steal started) s
            | Some (pid, _) \<Rightarrow> if pid \<in> st_dead s then goto t (Steal started) s else wait_or_timeout c t started s))
     | Steal started \<Rightarrow> goto t (Waiting started) s\<lparr>st_lock := None\<rparr>
     | Created \<Rightarrow>
         goto t Holding s\<lparr>st_lock := (case st_lock s of None \<Rightarrow> None
           | Some f \<Rightarrow> if lf_creator f = t then Some (f\<lparr>lf_mtime := st_clock s, lf_record := Some (sc_pid c t, t)\<rparr>) else Some f)\<rparr>
     | _ \<Rightarrow> s)"

definition persistUnlocked :: "write_end \<Rightarrow> entries \<Rightarrow> state_file \<Rightarrow> unit result \<times> state_file" where
  "persistUnlocked w draft f = (case w of
       WriteOk \<Rightarrow> (Inr (), Content (json_entries draft))
     | FailBefore \<Rightarrow> (Inl (durableStateError ''durable_write_failed''), f)
     | FailAfter \<Rightarrow> (Inl (durableStateError ''durable_write_failed''), Content (json_entries draft)))"

definition releaseLock_step :: "nat \<Rightarrow> json_store \<Rightarrow> json_store" where
  "releaseLock_step t s = (case st_pc s t of
       Finished r \<Rightarrow>
         (case st_lock s of None \<Rightarrow> goto t (Done r) s
          | Some f \<Rightarrow> (case lf_record f of None \<Rightarrow> goto t (Done r) s
             | Some (_, owner) \<Rightarrow> if owner \<noteq> t then goto t (Done r) s else goto t (Releasing r) s))
     | Releasing r \<Rightarrow> goto t (Done r) s\<lparr>st_lock := None\<rparr>
     | _ \<Rightarrow> s)"

text \<open>The next step of transaction \<^verbatim>\<open>t\<close>; \<^verbatim>\<open>w\<close> is how its write ends, if this step is the write.\<close>

definition transaction_step :: "store_config \<Rightarrow> nat \<Rightarrow> write_end \<Rightarrow> json_store \<Rightarrow> json_store" where
  "transaction_step c t w s = (case st_pc s t of
       Idle \<Rightarrow> goto t (Waiting (st_clock s)) s
     | Holding \<Rightarrow> (case readUnlocked c (st_data s) of Inl e \<Rightarrow> goto t (Finished (Inl e)) s | Inr e \<Rightarrow> goto t (Loaded e) s)
     | Loaded current \<Rightarrow>
         (case next_draft c t (st_clock s) current of Inl e \<Rightarrow> goto t (Finished (Inl e)) s
          | Inr (r, draft) \<Rightarrow>
             (case persistUnlocked w draft (st_data s) of
                (Inl e, f) \<Rightarrow> goto t (Finished (Inl e)) s\<lparr>st_data := f\<rparr>
              | (Inr _, f) \<Rightarrow> goto t (Finished (returned r draft)) s\<lparr>st_data := f\<rparr>))
     | Finished _ \<Rightarrow> releaseLock_step t s
     | Releasing _ \<Rightarrow> releaseLock_step t s
     | _ \<Rightarrow> acquireLock_step c t s)"

datatype event = Step nat write_end | Tick nat | Crash nat

text \<open>The transactions of a process that dies stop where they are; only finished ones are over.\<close>

definition crash_pc :: "pc \<Rightarrow> pc" where
  "crash_pc l = (case l of Done r \<Rightarrow> Done r | _ \<Rightarrow> Crashed)"

definition event_step :: "store_config \<Rightarrow> json_store \<Rightarrow> event \<Rightarrow> json_store" where
  "event_step c s e = (case e of
       Step t w \<Rightarrow> transaction_step c t w s
     | Tick n \<Rightarrow> s\<lparr>st_clock := st_clock s + int n\<rparr>
     | Crash pid \<Rightarrow> s\<lparr>st_dead := insert pid (st_dead s),
         st_pc := (\<lambda>t. if sc_pid c t = pid then crash_pc (st_pc s t) else st_pc s t)\<rparr>)"

definition schedule :: "store_config \<Rightarrow> event list \<Rightarrow> json_store \<Rightarrow> json_store" where
  "schedule c es s = foldl (event_step c) s es"

definition store_start :: "state_file \<Rightarrow> json_store" where
  "store_start f = \<lparr>st_clock = 0, st_lock = None, st_data = f, st_pc = (\<lambda>_. Idle), st_dead = {}\<rparr>"

section \<open>What a schedule commits\<close>

text \<open>Whether an event replaces the state file, and by which transaction at which time.\<close>

definition committed :: "store_config \<Rightarrow> json_store \<Rightarrow> event \<Rightarrow> (nat \<times> int) list" where
  "committed c s e = (case e of
       Step t w \<Rightarrow> (case st_pc s t of Loaded current \<Rightarrow>
           (case next_draft c t (st_clock s) current of Inl _ \<Rightarrow> []
            | Inr _ \<Rightarrow> if w = FailBefore then [] else [(t, st_clock s)])
         | _ \<Rightarrow> [])
     | _ \<Rightarrow> [])"

fun commit_log :: "store_config \<Rightarrow> event list \<Rightarrow> json_store \<Rightarrow> (nat \<times> int) list" where
  "commit_log c [] s = []"
| "commit_log c (e # es) s = committed c s e @ commit_log c es (event_step c s e)"

text \<open>The transactions of a log, one after the other.\<close>

definition commit_one :: "store_config \<Rightarrow> state_file \<Rightarrow> nat \<times> int \<Rightarrow> state_file" where
  "commit_one c f tn = (case readUnlocked c f of Inl _ \<Rightarrow> f
     | Inr current \<Rightarrow> (case next_draft c (fst tn) (snd tn) current of Inl _ \<Rightarrow> f | Inr (_, d) \<Rightarrow> Content (json_entries d)))"

definition commit_all :: "store_config \<Rightarrow> state_file \<Rightarrow> (nat \<times> int) list \<Rightarrow> state_file" where
  "commit_all c f ts = foldl (commit_one c) f ts"

text \<open>No lock file is as old as the takeover limit when a waiting transaction looks at it.\<close>

definition timely_event :: "store_config \<Rightarrow> json_store \<Rightarrow> event \<Rightarrow> bool" where
  "timely_event c s e = (case e of
       Step t _ \<Rightarrow> (case (st_pc s t, st_lock s) of (SawLock _, Some f) \<Rightarrow> st_clock s - lf_mtime f < sc_staleLockMs c | _ \<Rightarrow> True)
     | _ \<Rightarrow> True)"

fun timely :: "store_config \<Rightarrow> event list \<Rightarrow> json_store \<Rightarrow> bool" where
  "timely c [] s = True"
| "timely c (e # es) s = (timely_event c s e \<and> timely c es (event_step c s e))"

definition in_critical :: "pc \<Rightarrow> bool" where
  "in_critical l = (case l of Created \<Rightarrow> True | Holding \<Rightarrow> True | Loaded _ \<Rightarrow> True | Finished _ \<Rightarrow> True | Releasing _ \<Rightarrow> True | _ \<Rightarrow> False)"

section \<open>The invariant of timely schedules\<close>

definition owns :: "store_config \<Rightarrow> json_store \<Rightarrow> nat \<Rightarrow> bool" where
  "owns c s t = (case st_lock s of None \<Rightarrow> False
     | Some f \<Rightarrow> lf_creator f = t \<and> (st_pc s t \<noteq> Created \<longrightarrow> lf_record f = Some (sc_pid c t, t)))"

definition store_inv :: "store_config \<Rightarrow> json_store \<Rightarrow> bool" where
  "store_inv c s \<longleftrightarrow> (\<forall>t. in_critical (st_pc s t) \<longrightarrow> owns c s t) \<and>
     (\<forall>t x. st_pc s t \<noteq> Stale x \<and> st_pc s t \<noteq> Steal x) \<and>
     (\<forall>t e. st_pc s t = Loaded e \<longrightarrow> readUnlocked c (st_data s) = Inr e)"

lemma in_critical_simps [simp]:
  "in_critical Created" "in_critical Holding" "in_critical (Loaded e)" "in_critical (Finished r)" "in_critical (Releasing r)"
  "\<not> in_critical Idle" "\<not> in_critical (Waiting x)" "\<not> in_critical (SawLock x)" "\<not> in_critical (Done r)" "\<not> in_critical Crashed"
  by (simp_all add: in_critical_def)

lemma owns_unique: "owns c s t \<Longrightarrow> owns c s u \<Longrightarrow> t = u"
  by (auto simp: owns_def split: option.splits)

lemma store_inv_start: "store_inv c (store_start f)"
  by (simp add: store_inv_def store_start_def)

text \<open>In a critical section a transaction is alone, so a step of it leaves no other one to check.\<close>

lemma store_inv_alone:
  assumes "store_inv c s" "in_critical (st_pc s t)" "u \<noteq> t"
  shows "\<not> in_critical (st_pc s u)"
  using assms owns_unique by (metis store_inv_def)

lemma store_inv_critical_step:
  assumes inv: "store_inv c s" and t: "in_critical (st_pc s t)"
    and pc: "st_pc s' = (st_pc s)(t := l)" and l: "\<forall>x. l \<noteq> Stale x \<and> l \<noteq> Steal x"
    and own: "in_critical l \<longrightarrow> owns c s' t" and ld: "\<forall>e. l = Loaded e \<longrightarrow> readUnlocked c (st_data s') = Inr e"
  shows "store_inv c s'"
proof -
  have "\<not> in_critical (st_pc s u)" if "u \<noteq> t" for u using store_inv_alone[OF inv t that] .
  then have only: "u = t" if "in_critical (st_pc s' u)" for u using that by (cases "u = t") (auto simp: pc)
  have at: "st_pc s' t = l" by (simp add: pc)
  have "readUnlocked c (st_data s') = Inr e" if "st_pc s' u = Loaded e" for u e
  proof -
    have "u = t" by (rule only) (simp add: that)
    with that at ld show ?thesis by blast
  qed
  moreover have "owns c s' u" if "in_critical (st_pc s' u)" for u
    using only[OF that] that at own by blast
  moreover have "\<forall>u x. st_pc s' u \<noteq> Stale x \<and> st_pc s' u \<noteq> Steal x"
    using inv l by (simp add: pc store_inv_def)
  ultimately show ?thesis unfolding store_inv_def by blast
qed

text \<open>A step of a transaction outside its critical section that leaves files alone.\<close>

lemma store_inv_outside_step:
  assumes "store_inv c s" "\<not> in_critical (st_pc s t)" "\<not> in_critical l" "\<forall>x. l \<noteq> Stale x \<and> l \<noteq> Steal x"
  shows "store_inv c (goto t l s)"
  using assms by (auto simp: store_inv_def owns_def split: option.splits)

lemma store_inv_create:
  assumes "store_inv c s" "st_pc s t = Waiting x" "st_lock s = None"
  shows "store_inv c (goto t Created s\<lparr>st_lock := Some \<lparr>lf_creator = t, lf_mtime = n, lf_record = None\<rparr>\<rparr>)"
  using assms by (auto simp: store_inv_def owns_def)

lemma acquire_inv:
  assumes inv: "store_inv c s" and tm: "timely_event c s (Step t w)"
  shows "store_inv c (acquireLock_step c t s)"
proof (cases "st_pc s t")
  case (Waiting x)
  with inv show ?thesis
    by (cases "st_lock s") (auto simp: acquireLock_step_def intro: store_inv_create store_inv_outside_step)
next
  case (SawLock x)
  have w: "store_inv c (wait_or_timeout c t x s)"
    using inv SawLock by (auto simp: wait_or_timeout_def intro: store_inv_outside_step)
  show ?thesis
  proof (cases "st_lock s")
    case None
    with inv SawLock show ?thesis by (simp add: acquireLock_step_def store_inv_outside_step)
  next
    case (Some f)
    with tm SawLock w show ?thesis by (simp add: acquireLock_step_def timely_event_def)
  qed
next
  case Created
  from inv have "owns c s t" by (simp add: store_inv_def Created)
  then obtain f where f: "st_lock s = Some f" "lf_creator f = t" by (auto simp: owns_def split: option.splits)
  have "acquireLock_step c t s = goto t Holding s\<lparr>st_lock := Some (f\<lparr>lf_mtime := st_clock s, lf_record := Some (sc_pid c t, t)\<rparr>)\<rparr>"
    using f by (simp add: acquireLock_step_def Created)
  then show ?thesis
    using f Created by (intro store_inv_critical_step[OF inv, of t]) (auto simp: owns_def)
next
  case (Stale x)
  with inv show ?thesis by (auto simp: store_inv_def)
next
  case (Steal x)
  with inv show ?thesis by (auto simp: store_inv_def)
qed (use inv in \<open>simp_all add: acquireLock_step_def\<close>)

lemma release_inv:
  assumes inv: "store_inv c s"
  shows "store_inv c (releaseLock_step t s)"
proof (cases "st_pc s t")
  case (Finished r)
  with inv have "owns c s t" by (simp add: store_inv_def)
  then obtain f where f: "st_lock s = Some f" "lf_creator f = t" "lf_record f = Some (sc_pid c t, t)"
    using Finished by (auto simp: owns_def split: option.splits)
  then have "releaseLock_step t s = goto t (Releasing r) s" by (simp add: releaseLock_step_def Finished)
  then show ?thesis using Finished f by (intro store_inv_critical_step[OF inv, of t]) (auto simp: owns_def)
next
  case (Releasing r)
  then have "releaseLock_step t s = goto t (Done r) s\<lparr>st_lock := None\<rparr>" by (simp add: releaseLock_step_def)
  then show ?thesis using Releasing by (intro store_inv_critical_step[OF inv, of t]) auto
qed (use inv in \<open>simp_all add: releaseLock_step_def\<close>)

lemma owns_keep: "owns c s t \<Longrightarrow> st_pc s t \<noteq> Created \<Longrightarrow> st_lock s' = st_lock s \<Longrightarrow> owns c s' t"
  by (auto simp: owns_def split: option.splits)

text \<open>Reading, mutating and writing keep the lock, so only the transaction's own position changes.\<close>

lemma critical_goto_inv:
  assumes inv: "store_inv c s" and t: "in_critical (st_pc s t)" "st_pc s t \<noteq> Created"
    and l: "in_critical l" and ld: "\<forall>e. l = Loaded e \<longrightarrow> readUnlocked c f = Inr e"
  shows "store_inv c (goto t l s\<lparr>st_data := f\<rparr>)"
proof (rule store_inv_critical_step[OF inv t(1)])
  have "owns c s t" using inv t(1) by (simp add: store_inv_def)
  then show "in_critical l \<longrightarrow> owns c (goto t l s\<lparr>st_data := f\<rparr>) t"
    using t(2) by (auto simp: owns_def split: option.splits)
qed (use l ld in \<open>auto simp: in_critical_def\<close>)

lemma transaction_inv:
  assumes inv: "store_inv c s" and tm: "timely_event c s (Step t w)"
  shows "store_inv c (transaction_step c t w s)"
proof (cases "st_pc s t")
  case Idle
  with inv show ?thesis by (simp add: transaction_step_def store_inv_outside_step)
next
  case Holding
  have same: "goto t l s = goto t l s\<lparr>st_data := st_data s\<rparr>" for l by simp
  show ?thesis
  proof (cases "readUnlocked c (st_data s)")
    case (Inl e)
    with Holding show ?thesis
      by (simp add: transaction_step_def) (subst same, rule critical_goto_inv[OF inv], auto)
  next
    case (Inr e)
    with Holding show ?thesis
      by (simp add: transaction_step_def) (subst same, rule critical_goto_inv[OF inv], auto)
  qed
next
  case (Loaded e)
  have "\<exists>r f. transaction_step c t w s = goto t (Finished r) s\<lparr>st_data := f\<rparr>"
    using Loaded by (auto simp: transaction_step_def split: sum.splits prod.splits intro: exI[of _ "st_data s"])
      (metis json_store.surjective json_store.update_convs(3))
  then show ?thesis using critical_goto_inv[OF inv, of t] Loaded by fastforce
qed (use inv acquire_inv[OF inv tm] release_inv[OF inv, of t] in \<open>simp_all add: transaction_step_def\<close>)

lemma crash_inv:
  assumes "store_inv c s"
  shows "store_inv c (event_step c s (Crash pid))"
proof -
  let ?s = "event_step c s (Crash pid)"
  have pc: "st_pc ?s t = (if sc_pid c t = pid then crash_pc (st_pc s t) else st_pc s t)" for t
    by (simp add: event_step_def)
  have crash: "\<not> in_critical (crash_pc l)" "crash_pc l \<noteq> Stale x" "crash_pc l \<noteq> Steal x" "crash_pc l \<noteq> Loaded e" for l x e
    by (auto simp: crash_pc_def split: pc.splits)
  have files: "st_lock ?s = st_lock s" "st_data ?s = st_data s" by (simp_all add: event_step_def)
  show ?thesis using assms crash by (auto simp: store_inv_def owns_def files pc split: if_splits option.splits)
qed

lemma event_inv: "store_inv c s \<Longrightarrow> timely_event c s e \<Longrightarrow> store_inv c (event_step c s e)"
proof (cases e)
  case (Tick n)
  assume "store_inv c s"
  then show ?thesis by (auto simp: Tick event_step_def store_inv_def owns_def split: option.splits)
qed (auto simp: crash_inv transaction_inv event_step_def[of _ _ "Step _ _"])

lemma event_commits:
  assumes "store_inv c s"
  shows "st_data (event_step c s e) = commit_all c (st_data s) (committed c s e)"
proof (cases e)
  case (Step t w)
  have quiet: "st_data (acquireLock_step c t s) = st_data s" "st_data (releaseLock_step t s) = st_data s"
    by (simp_all add: acquireLock_step_def releaseLock_step_def wait_or_timeout_def split: pc.splits option.splits)
  show ?thesis
  proof (cases "st_pc s t")
    case (Loaded cur)
    then have "readUnlocked c (st_data s) = Inr cur" using assms by (simp add: store_inv_def)
    with Loaded Step show ?thesis
      by (cases w) (auto simp: event_step_def transaction_step_def committed_def commit_all_def commit_one_def persistUnlocked_def
          split: sum.splits prod.splits)
  qed (use Step quiet in \<open>auto simp: event_step_def transaction_step_def committed_def commit_all_def split: sum.splits\<close>)
qed (simp_all add: event_step_def committed_def commit_all_def)

lemma schedule_inv:
  "store_inv c s \<Longrightarrow> timely c es s \<Longrightarrow>
     store_inv c (schedule c es s) \<and> st_data (schedule c es s) = commit_all c (st_data s) (commit_log c es s)"
proof (induction es arbitrary: s)
  case Nil
  then show ?case by (simp add: schedule_def commit_all_def)
next
  case (Cons e es)
  then have "store_inv c (event_step c s e)" "timely c es (event_step c s e)" by (simp_all add: event_inv)
  with Cons.IH event_commits[OF Cons.prems(1), of e] show ?case
    by (simp add: schedule_def commit_all_def)
qed

section \<open>Committed once, and reported truthfully\<close>

definition after_write :: "pc \<Rightarrow> bool" where
  "after_write l = (case l of Finished _ \<Rightarrow> True | Releasing _ \<Rightarrow> True | Done _ \<Rightarrow> True | Crashed \<Rightarrow> True | _ \<Rightarrow> False)"

definition succeeds :: "pc \<Rightarrow> bool" where
  "succeeds l = (case l of Finished (Inr _) \<Rightarrow> True | Releasing (Inr _) \<Rightarrow> True | Done (Inr _) \<Rightarrow> True | _ \<Rightarrow> False)"

lemma crash_pc_classes: "after_write l \<Longrightarrow> after_write (crash_pc l)" "succeeds (crash_pc l) \<Longrightarrow> succeeds l"
  by (auto simp: after_write_def succeeds_def crash_pc_def split: pc.splits sum.splits)

lemma step_other: "u \<noteq> t \<Longrightarrow> st_pc (transaction_step c t w s) u = st_pc s u"
  by (simp add: transaction_step_def acquireLock_step_def releaseLock_step_def wait_or_timeout_def split: pc.splits option.splits sum.splits prod.splits)

lemma step_after_write: "after_write (st_pc s t) \<Longrightarrow> after_write (st_pc (transaction_step c t w s) t)"
  by (cases "st_pc s t")
    (auto simp: after_write_def transaction_step_def acquireLock_step_def releaseLock_step_def split: option.splits)

lemma step_commit_after_write: "committed c s (Step t w) \<noteq> [] \<Longrightarrow> after_write (st_pc (transaction_step c t w s) t)"
  by (cases "st_pc s t")
    (auto simp: committed_def after_write_def transaction_step_def split: sum.splits prod.splits)

lemma step_succeeds:
  assumes "succeeds (st_pc (transaction_step c t w s) t)"
  shows "succeeds (st_pc s t) \<or> t \<in> fst ` set (committed c s (Step t w))"
proof (cases "st_pc s t")
  case (Loaded e)
  with assms show ?thesis
    by (cases w) (auto simp: succeeds_def transaction_step_def committed_def persistUnlocked_def split: sum.splits prod.splits)
qed (use assms in \<open>auto simp: succeeds_def transaction_step_def acquireLock_step_def releaseLock_step_def wait_or_timeout_def
    split: sum.splits option.splits if_splits\<close>)

lemma event_succeeds:
  "succeeds (st_pc (event_step c s e) t) \<Longrightarrow> succeeds (st_pc s t) \<or> t \<in> fst ` set (committed c s e)"
proof (cases e)
  case (Step u w)
  assume "succeeds (st_pc (event_step c s e) t)"
  then show ?thesis using step_succeeds[of c u w s] step_other[of t u c w s]
    by (cases "t = u") (auto simp: Step event_step_def)
qed (auto simp: event_step_def committed_def crash_pc_classes split: if_splits)

lemma event_after_write: "after_write (st_pc s t) \<Longrightarrow> after_write (st_pc (event_step c s e) t)"
proof (cases e)
  case (Step u w)
  assume "after_write (st_pc s t)"
  then show ?thesis using step_after_write[of s u c w] step_other[of t u c w s]
    by (cases "t = u") (auto simp: Step event_step_def)
qed (auto simp: event_step_def crash_pc_classes)

lemma committed_cases:
  "committed c s e = [] \<or> (\<exists>t w n. e = Step t w \<and> committed c s e = [(t, n)] \<and> \<not> after_write (st_pc s t) \<and>
     after_write (st_pc (event_step c s e) t))"
proof (cases e)
  case (Step t w)
  then show ?thesis
    using step_commit_after_write[of c s t w]
    by (cases "st_pc s t") (auto simp: committed_def event_step_def after_write_def split: sum.splits)
qed (simp_all add: committed_def)

lemma log_succeeds:
  "succeeds (st_pc (schedule c es s) t) \<Longrightarrow> succeeds (st_pc s t) \<or> t \<in> fst ` set (commit_log c es s)"
  by (induction es arbitrary: s) (auto simp: schedule_def dest: event_succeeds)

lemma log_after_write: "after_write (st_pc s t) \<Longrightarrow> t \<notin> fst ` set (commit_log c es s)"
proof (induction es arbitrary: s)
  case (Cons e es)
  then have "t \<notin> fst ` set (commit_log c es (event_step c s e))" using event_after_write by blast
  moreover have "t \<notin> fst ` set (committed c s e)" using committed_cases[of c s e] Cons.prems by auto
  ultimately show ?case by auto
qed simp

lemma log_distinct: "distinct (map fst (commit_log c es s))"
proof (induction es arbitrary: s)
  case (Cons e es)
  have "t \<notin> fst ` set (commit_log c es (event_step c s e))" if "after_write (st_pc (event_step c s e) t)" for t
    using that by (rule log_after_write)
  with Cons.IH show ?case using committed_cases[of c s e] by fastforce
qed simp

section \<open>Serialisation\<close>

text \<open>
  C12. Transactions on the durable JSON store are serialised and none is lost. On every schedule of
  any number of processes, with crashes and failed writes at any point, on which no waiting
  transaction finds a lock file as old as the takeover limit: at most one transaction is between
  creating the lock and removing it; the state file is the result of the committed mutators applied
  one after the other to the initial state; no transaction commits twice; and one that reports
  success has committed.
\<close>

theorem json_store_serialised:
  assumes "timely c es (store_start f)"
  defines "s \<equiv> schedule c es (store_start f)" and "ts \<equiv> commit_log c es (store_start f)"
  shows "(\<forall>t u. in_critical (st_pc s t) \<and> in_critical (st_pc s u) \<longrightarrow> t = u) \<and>
    st_data s = commit_all c f ts \<and> distinct (map fst ts) \<and>
    (\<forall>t r d. st_pc s t = Done (Inr (r, d)) \<longrightarrow> t \<in> fst ` set ts)"
proof -
  have inv: "store_inv c s" and data: "st_data s = commit_all c f ts"
    using schedule_inv[OF store_inv_start assms(1)] by (simp_all add: s_def ts_def store_start_def)
  have "t = u" if "in_critical (st_pc s t)" "in_critical (st_pc s u)" for t u
    using store_inv_alone[OF inv] that by blast
  moreover have "t \<in> fst ` set ts" if "st_pc s t = Done (Inr (r, d))" for t r d
    using log_succeeds[of c es "store_start f" t] that by (simp add: s_def ts_def succeeds_def store_start_def)
  ultimately show ?thesis using data log_distinct by (auto simp: ts_def)
qed

text \<open>Two processes that count: each adds one to a member of the shared state.\<close>

definition bump :: "entries \<Rightarrow> (jsval \<times> entries) result" where
  "bump e = Inr (JNull, AList.update ''n'' (JNum (num_of (get (JObj e) ''n'') + 1)) e)"

definition sample_store :: store_config where
  "sample_store = \<lparr>sc_default = [(''n'', JNum 0), (''revision'', JNum 0)], sc_lockTimeoutMs = 5, sc_staleLockMs = 30,
     sc_pid = (\<lambda>t. t), sc_mutator = (\<lambda>_. bump), sc_iso = (\<lambda>_. ''T'')\<rparr>"

definition steps :: "nat list \<Rightarrow> event list" where
  "steps ts = map (\<lambda>t. Step t WriteOk) ts"

definition sample_schedule :: "event list" where
  "sample_schedule = steps [1, 2, 1, 2, 2, 1, 2, 1, 1, 1, 1, 2, 2, 2, 2, 2, 2]"

theorem json_store_serialised_witness:
  "timely sample_store sample_schedule (store_start Absent) \<and>
   st_data (schedule sample_store sample_schedule (store_start Absent)) =
     Content [(''n'', JNum 2), (''revision'', JNum 2), (''updatedAt'', JStr ''T'')] \<and>
   distinct (map fst (commit_log sample_store sample_schedule (store_start Absent)))"
proof -
  have "timely sample_store sample_schedule (store_start Absent)" by code_simp
  note ok = json_store_serialised[OF this]
  have "commit_all sample_store Absent (commit_log sample_store sample_schedule (store_start Absent)) =
     Content [(''n'', JNum 2), (''revision'', JNum 2), (''updatedAt'', JStr ''T'')]" by code_simp
  with ok \<open>timely _ _ _\<close> show ?thesis by simp
qed

section \<open>Takeover\<close>

text \<open>
  A crashed holder does not block the store for ever: alone, a transaction that finds the lock of a
  dead process, or one with no record, older than the limit removes it, commits and releases.
\<close>

lemma json_store_takeover:
  assumes "st_pc s t = Idle" "st_lock s = Some f" "sc_staleLockMs c \<le> st_clock s - lf_mtime f"
    "case lf_record f of None \<Rightarrow> True | Some (pid, _) \<Rightarrow> pid \<in> st_dead s"
    "readUnlocked c (st_data s) = Inr cur" "next_draft c t (st_clock s) cur = Inr (r, d)"
  defines "s' \<equiv> schedule c (replicate 11 (Step t WriteOk)) s"
  shows "st_pc s' t = Done (returned r d)" "st_lock s' = None" "st_data s' = Content (json_entries d)"
proof -
  let ?next = "\<lambda>s. event_step c s (Step t WriteOk)"
  let ?at = "\<lambda>s' l lk dt. st_pc s' t = l \<and> st_lock s' = lk \<and> st_data s' = dt \<and> st_clock s' = st_clock s \<and> st_dead s' = st_dead s"
  let ?new = "\<lparr>lf_creator = t, lf_mtime = st_clock s, lf_record = None\<rparr>"
  let ?mine = "\<lparr>lf_creator = t, lf_mtime = st_clock s, lf_record = Some (sc_pid c t, t)\<rparr>"
  note step = event_step_def transaction_step_def acquireLock_step_def
  have 1: "?at (?next s) (Waiting (st_clock s)) (Some f) (st_data s)" using assms(1,2) by (simp add: step)
  have 2: "?at (?next u) (SawLock x) (Some f) dt" if "?at u (Waiting x) (Some f) dt" for u x dt using that by (simp add: step)
  have 3: "?at (?next u) (Stale x) (Some f) dt" if "?at u (SawLock x) (Some f) dt" for u x dt using that assms(3) by (simp add: step)
  have 4: "?at (?next u) (Steal x) (Some f) dt" if "?at u (Stale x) (Some f) dt" for u x dt
    using that assms(4) by (auto simp: step split: option.splits)
  have 5: "?at (?next u) (Waiting x) None dt" if "?at u (Steal x) lk dt" for u x lk dt using that by (simp add: step)
  have 6: "?at (?next u) Created (Some ?new) dt" if "?at u (Waiting x) None dt" for u x dt using that by (simp add: step)
  have 7: "?at (?next u) Holding (Some ?mine) dt" if "?at u Created (Some ?new) dt" for u dt using that by (simp add: step)
  have 8: "?at (?next u) (Loaded cur) lk (st_data s)" if "?at u Holding lk (st_data s)" for u lk using that assms(5) by (simp add: step)
  have 9: "?at (?next u) (Finished (returned r d)) lk (Content (json_entries d))" if "?at u (Loaded cur) lk dt" for u lk dt
    using that assms(6) by (simp add: step persistUnlocked_def)
  have 10: "?at (?next u) (Releasing x) (Some ?mine) dt" if "?at u (Finished x) (Some ?mine) dt" for u x dt
    using that by (simp add: step releaseLock_step_def)
  have 11: "?at (?next u) (Done x) None dt" if "?at u (Releasing x) lk dt" for u x lk dt using that by (simp add: step releaseLock_step_def)
  have "?at s' (Done (returned r d)) None (Content (json_entries d))"
    using 11[OF 10[OF 9[OF 8[OF 7[OF 6[OF 5[OF 4[OF 3[OF 2[OF 1]]]]]]]]]] by (simp add: s'_def schedule_def numeral_eq_Suc)
  then show "st_pc s' t = Done (returned r d)" "st_lock s' = None" "st_data s' = Content (json_entries d)" by simp_all
qed

text \<open>
  Two transactions meet the lock of a crashed process. Both find it old and its process dead; the
  first removes it and takes the lock; the second, already past its check, removes the new lock of
  the first and takes the lock as well.
\<close>

definition race_schedule :: "event list" where
  "race_schedule = steps [0, 0, 0] @ [Crash 0, Tick 30] @ steps [1, 1, 1, 1, 2, 2, 2, 2] @
     steps [1, 1, 1, 1, 2, 2, 2, 2, 1, 2, 1, 2, 1, 2]"

text \<open>
  C33. The takeover of an old lock loses an update. There is a schedule of one crash and two
  transactions on which both transactions are in their critical sections at once, both report
  success with the same revision, and the state file holds the effect of only one of them.
\<close>

theorem json_store_takeover_race:
  "(let s = schedule sample_store race_schedule (store_start Absent) in
     map fst (commit_log sample_store race_schedule (store_start Absent)) = [1, 2] \<and>
     succeeds (st_pc s 1) \<and> succeeds (st_pc s 2) \<and>
     st_data s = Content [(''n'', JNum 1), (''revision'', JNum 1), (''updatedAt'', JStr ''T'')]) \<and>
   (let s = schedule sample_store (take 21 race_schedule) (store_start Absent) in
     in_critical (st_pc s 1) \<and> in_critical (st_pc s 2))"
  by code_simp

section \<open>Revisions\<close>

lemma json_entries_get:
  "map_of kvs k = Some v \<Longrightarrow> json_kept v \<Longrightarrow> map_of (json_entries kvs) k = Some (json_image v)"
  by (induction kvs) (auto simp: json_entries_def split: if_splits)

text \<open>Each commit counts the revision up by one, as long as it is a safe integer.\<close>

lemma revision_advances:
  assumes "next_draft c t now cur = Inr (r, d)" "currentRevision cur < 9007199254740991"
  shows "currentRevision (json_entries d) = currentRevision cur + 1"
proof -
  have cur: "0 \<le> currentRevision cur" "rat_is_int (currentRevision cur)"
  proof -
    let ?r = "get (JObj cur) ''revision''"
    show "0 \<le> currentRevision cur" by (simp add: currentRevision_def Let_def)
    show "rat_is_int (currentRevision cur)"
      by (cases ?r) (auto simp: currentRevision_def Let_def simp del: get.simps)
  qed
  then have "rat_is_int (currentRevision cur + 1)" by (simp add: rat_is_int_def)
  moreover have "currentRevision cur + 1 \<le> 9007199254740991"
  proof -
    obtain i where i: "currentRevision cur = of_int i" using cur(2) by (metis rat_is_int_def)
    with assms(2) have "i < 9007199254740991" by simp
    then have "of_int (i + 1) \<le> (9007199254740991 :: rat)" by (metis add1_zle_eq of_int_le_iff of_int_numeral)
    with i show ?thesis by simp
  qed
  moreover have "map_of d ''revision'' = Some (JNum (currentRevision cur + 1))"
    using assms(1) by (auto simp: next_draft_def split: sum.splits prod.splits)
  then have "map_of (json_entries d) ''revision'' = Some (JNum (currentRevision cur + 1))"
    using json_entries_get[of d "''revision''"] by (simp add: json_kept_def)
  ultimately show ?thesis using cur by (simp add: currentRevision_def[of "json_entries d"] Let_def abs_of_nonneg)
qed

end
