(* ===== verification/Transparency_Log.thy ===== *)
theory Transparency_Log
  imports Protocol
begin

text \<open>
  The transparency log of a source owner: \<^verbatim>\<open>core/trust/transparency-log.js\<close> (entries, verification, the
  durable log) and \<^verbatim>\<open>network/replication/transparency-replication.js\<close> (the request handler, the
  synchronisation with a peer and with the network). A log is its entries in memory and the lines of
  its file. A peer is an arbitrary state machine that answers requests, so what is shown of a
  synchronisation holds for hostile peers. Shown: whatever is appended, ingested or pulled, the log
  stays a verified hash chain and only log_grows; two chains with the same head hash agree entry by
  entry; a synchronisation that succeeds with an honest replica ends with equal logs; a failed write
  followed by a successful one leaves a file that cannot be opened.
\<close>

section \<open>Entries\<close>

definition TRANSPARENCY_ENTRY_PROTOCOL :: string where
  "TRANSPARENCY_ENTRY_PROTOCOL = ''truyn-transparency-entry-v2''"

definition TRANSPARENCY_EVENT_TYPES :: "string list" where
  "TRANSPARENCY_EVENT_TYPES = [''ROOT'', ''DELEGATE'', ''LIFECYCLE'', ''REVOKE'', ''ROTATE'']"

definition ZERO_HASH :: string where
  "ZERO_HASH = ''sha256:'' @ replicate 64 (CHR ''0'')"

definition transparencyLogId :: "platform \<Rightarrow> jsval \<Rightarrow> string result" where
  "transparencyLogId p sourceOwnerId =
     (if \<not> nonblank sourceOwnerId then Inl (Err ''sourceOwnerId is required'')
      else rbind (digest p (JObj [(''sourceOwnerId'', JStr (trim (str_of sourceOwnerId)))])) (\<lambda>d.
        Inr (''truyn:transparency:'' @ drop 7 d)))"

definition unsignedEntry :: "jsval \<Rightarrow> jsval" where
  "unsignedEntry e = without [''signature'', ''publicKey'', ''entryHash''] e"

text \<open>The expected log and owner are texts; the empty text stands for none. A thrown error is its message.\<close>

definition verifyTransparencyEntry :: "platform \<Rightarrow> string \<Rightarrow> string \<Rightarrow> jsval \<Rightarrow> jsval verdict" where
  "verifyTransparencyEntry p expectedLogId expectedSourceOwnerId e =
     (if \<exists>k\<in>set [''protocol'', ''logId'', ''sourceOwnerId'', ''sequence'', ''eventType'', ''signerNodeId'', ''publicKey'',
           ''signature'', ''entryHash'']. \<not> truthy (oget e k) then Inl ''transparency_entry_missing_field''
      else if get e ''protocol'' \<noteq> JStr TRANSPARENCY_ENTRY_PROTOCOL \<or> get e ''version'' \<noteq> JNum 2
        then Inl ''transparency_entry_protocol_mismatch''
      else if get e ''eventType'' \<notin> set (map JStr TRANSPARENCY_EVENT_TYPES) then Inl ''transparency_entry_event_type_invalid''
      else if expectedLogId \<noteq> [] \<and> get e ''logId'' \<noteq> JStr expectedLogId then Inl ''transparency_entry_log_mismatch''
      else if expectedSourceOwnerId \<noteq> [] \<and> get e ''sourceOwnerId'' \<noteq> JStr expectedSourceOwnerId
        then Inl ''transparency_entry_owner_mismatch''
      else (case nodeIdFromPublicKey p (get e ''publicKey'') of Inl x \<Rightarrow> Inl (message x)
      | Inr n \<Rightarrow> if JStr n \<noteq> get e ''signerNodeId'' then Inl ''transparency_entry_signer_key_mismatch''
      else (case digest p (unsignedEntry e) of Inl x \<Rightarrow> Inl (message x)
      | Inr d \<Rightarrow> if JStr d \<noteq> get e ''entryHash'' then Inl ''transparency_entry_hash_mismatch''
      else (case verifyValue p (unsignedEntry e) (get e ''signature'') (get e ''publicKey'') of Inl x \<Rightarrow> Inl (message x)
      | Inr ok \<Rightarrow> if ok then Inr (get e ''entryHash'') else Inl ''transparency_entry_signature_invalid''))))"

section \<open>The durable log\<close>

text \<open>The lines of the file are the values they parse to; a line that is not JSON is \<open>None\<close>.\<close>

record tlog =
  tl_owner :: string
  tl_id :: string
  tl_entries :: "jsval list"
  tl_file :: "jsval option list"
  tl_opened :: bool

definition tlog_new :: "platform \<Rightarrow> jsval \<Rightarrow> jsval option list \<Rightarrow> tlog result" where
  "tlog_new p sourceOwnerId lines =
     (if \<not> truthy sourceOwnerId then Inl (Err ''transparency log sourceOwnerId is required'')
      else rbind (transparencyLogId p sourceOwnerId) (\<lambda>i.
        Inr \<lparr>tl_owner = str_of sourceOwnerId, tl_id = i, tl_entries = [], tl_file = lines, tl_opened = False\<rparr>))"

text \<open>\<^verbatim>\<open>this._entries[sequence - 1]\<close>: an index that is no position of the list reads nothing.\<close>

definition entry_at :: "platform \<Rightarrow> jsval list \<Rightarrow> jsval \<Rightarrow> jsval option" where
  "entry_at p es sequence = (case to_number p sequence of
       JNum r \<Rightarrow> if rat_is_int r \<and> 1 \<le> r \<and> r \<le> of_nat (length es) then Some (es ! nat (\<lfloor>r\<rfloor> - 1)) else None
     | _ \<Rightarrow> None)"

definition last_sequence :: "jsval list \<Rightarrow> rat" where
  "last_sequence es = (if es = [] then 0 else num_of (get (last es) ''sequence''))"

definition last_hash :: "jsval list \<Rightarrow> jsval" where
  "last_hash es = (if es = [] \<or> \<not> truthy (get (last es) ''entryHash'') then JStr ZERO_HASH else get (last es) ''entryHash'')"

text \<open>
  One round of the loop of \<^verbatim>\<open>ingest\<close>; \<^verbatim>\<open>io\<close> says whether the disk takes the line of an entry. The entry
  is in memory before its line is written.
\<close>

definition ingest_entry :: "platform \<Rightarrow> (jsval \<Rightarrow> bool) \<Rightarrow> bool \<Rightarrow> jsval \<Rightarrow> tlog \<Rightarrow> unit result \<times> tlog" where
  "ingest_entry p io persist e lg =
     (case verifyTransparencyEntry p (tl_id lg) (tl_owner lg) e of Inl r \<Rightarrow> (Inl (Err r), lg)
      | Inr _ \<Rightarrow>
         (case entry_at p (tl_entries lg) (get e ''sequence'') of
            Some existing \<Rightarrow>
              if get existing ''entryHash'' \<noteq> get e ''entryHash''
              then (Inl (Coded ''transparency_fork_detected'' ''transparency_fork_detected''), lg) else (Inr (), lg)
          | None \<Rightarrow>
              if get e ''sequence'' \<noteq> JNum (last_sequence (tl_entries lg) + 1) \<or> get e ''previousHash'' \<noteq> last_hash (tl_entries lg)
              then (Inl (Err ''transparency_log_gap_or_chain_mismatch''), lg)
              else let lg' = lg\<lparr>tl_entries := tl_entries lg @ [e]\<rparr> in
                if \<not> persist then (Inr (), lg')
                else if io e then (Inr (), lg'\<lparr>tl_file := tl_file lg' @ [Some e]\<rparr>)
                else (Inl (Coded ''EIO'' ''write failed''), lg')))"

fun ingest_all :: "platform \<Rightarrow> (jsval \<Rightarrow> bool) \<Rightarrow> bool \<Rightarrow> jsval list \<Rightarrow> tlog \<Rightarrow> unit result \<times> tlog" where
  "ingest_all p io persist [] lg = (Inr (), lg)"
| "ingest_all p io persist (e # es) lg = (case ingest_entry p io persist e lg of
       (Inl x, lg') \<Rightarrow> (Inl x, lg')
     | (Inr _, lg') \<Rightarrow> ingest_all p io persist es lg')"

definition tl_open :: "platform \<Rightarrow> tlog \<Rightarrow> unit result \<times> tlog" where
  "tl_open p lg =
     (if tl_opened lg then (Inr (), lg)
      else if None \<in> set (tl_file lg) then (Inl (Err ''Unexpected token in JSON''), lg)
      else if tl_file lg = [] then (Inr (), lg\<lparr>tl_opened := True\<rparr>)
      else (case ingest_all p (\<lambda>_. True) False (map the (tl_file lg)) (lg\<lparr>tl_entries := []\<rparr>) of
          (Inl x, lg') \<Rightarrow> (Inl x, lg')
        | (Inr _, lg') \<Rightarrow> (Inr (), lg'\<lparr>tl_opened := True\<rparr>)))"

text \<open>\<^verbatim>\<open>v + 1\<close>.\<close>

definition plus_one :: "platform \<Rightarrow> jsval \<Rightarrow> jsval" where
  "plus_one p v = (if is_string v \<or> is_array v \<or> is_plain_object v \<or> is_function v then JStr (to_string p v @ ''1'')
     else case to_number p v of JNum r \<Rightarrow> JNum (r + 1) | x \<Rightarrow> x)"

definition tl_entries_from :: "platform \<Rightarrow> jsval \<Rightarrow> tlog \<Rightarrow> jsval list" where
  "tl_entries_from p fromSequence lg =
     filter (\<lambda>e. js_geq p (get e ''sequence'') fromSequence) (tl_entries lg)"

definition isRevoked :: "jsval \<Rightarrow> tlog \<Rightarrow> bool" where
  "isRevoked targetId lg = (\<exists>e\<in>set (tl_entries lg). get e ''eventType'' = JStr ''REVOKE'' \<and> strict_eq (get e ''targetId'') targetId)"

text \<open>
  The revocations, sorted by target and then by sequence. A comparison reads \<^verbatim>\<open>targetId.localeCompare\<close>, so
  a target that is not a text throws as soon as there is something to compare.
\<close>

definition revocation_cmp :: "platform \<Rightarrow> jsval \<Rightarrow> jsval \<Rightarrow> int" where
  "revocation_cmp p a b = or_else (lcmp p (str_of (get a ''targetId'')) (str_of (get b ''targetId'')))
     (let d = num_of (get a ''sequence'') - num_of (get b ''sequence'') in if d < 0 then -1 else if d > 0 then 1 else 0)"

definition revocations :: "platform \<Rightarrow> tlog \<Rightarrow> jsval list result" where
  "revocations p lg =
     (let rs = map (\<lambda>e. JObj [(''targetId'', get e ''targetId''), (''entryHash'', get e ''entryHash''), (''sequence'', get e ''sequence'')])
        (filter (\<lambda>e. get e ''eventType'' = JStr ''REVOKE'') (tl_entries lg))
      in if length rs > 1 \<and> (\<exists>r\<in>set rs. \<not> is_string (get r ''targetId'')) then Inl (TypeError ''localeCompare is not a function'')
         else Inr (js_sort (revocation_cmp p) rs))"

definition relevant_state :: "jsval list \<Rightarrow> string \<Rightarrow> jsval" where
  "relevant_state rs t = (let ms = filter (\<lambda>r. get r ''targetId'' = JStr t) rs in
     JObj [(''targetId'', JStr t), (''revoked'', JBool (ms \<noteq> [])),
       (''revocationEntryHash'', if ms = [] then JNull else get (last ms) ''entryHash''),
       (''revocationSequence'', if ms = [] then JNull else get (last ms) ''sequence'')])"

definition revocationState :: "platform \<Rightarrow> string list \<Rightarrow> tlog \<Rightarrow> jsval result" where
  "revocationState p relevantTargetIds lg = rbind (revocations p lg) (\<lambda>rs.
     rbind (digest p (JObj [(''logId'', JStr (tl_id lg)), (''sequence'', JNum (last_sequence (tl_entries lg))), (''revocations'', JArr rs)])) (\<lambda>d.
     Inr (JObj [(''protocol'', JStr ''truyn-revocation-state-v2''), (''version'', JNum 2), (''logId'', JStr (tl_id lg)),
       (''sourceOwnerId'', JStr (tl_owner lg)), (''sequence'', JNum (last_sequence (tl_entries lg))),
       (''headHash'', last_hash (tl_entries lg)), (''stateDigest'', JStr d),
       (''relevant'', JArr (map (relevant_state rs) (js_sort cmp_ascii (unique relevantTargetIds))))])))"

definition tl_head :: "platform \<Rightarrow> tlog \<Rightarrow> jsval result" where
  "tl_head p lg = rbind (revocationState p [] lg) (\<lambda>st.
     Inr (JObj [(''protocol'', JStr ''truyn-transparency-head-v2''), (''version'', JNum 2), (''logId'', JStr (tl_id lg)),
       (''sourceOwnerId'', JStr (tl_owner lg)), (''sequence'', JNum (last_sequence (tl_entries lg))),
       (''headHash'', last_hash (tl_entries lg)), (''revocationStateDigest'', get st ''stateDigest'')]))"

definition tl_ingest :: "platform \<Rightarrow> (jsval \<Rightarrow> bool) \<Rightarrow> bool \<Rightarrow> jsval \<Rightarrow> tlog \<Rightarrow> jsval result \<times> tlog" where
  "tl_ingest p io persist entries lg =
     (if \<not> is_array entries then (Inl (Err ''transparency entries must be an array''), lg)
      else (case ingest_all p io persist (elems entries) lg of
          (Inl x, lg') \<Rightarrow> (Inl x, lg')
        | (Inr _, lg') \<Rightarrow> (tl_head p lg', lg')))"

text \<open>The entry \<^verbatim>\<open>append\<close> builds on the log it finds.\<close>

definition next_entry :: "platform \<Rightarrow> identity \<Rightarrow> jsval \<Rightarrow> jsval \<Rightarrow> jsval \<Rightarrow> jsval \<Rightarrow> tlog \<Rightarrow> jsval result" where
  "next_entry p i eventType targetId payload createdAt lg =
     rbind (if nullish payload then Inr JNull else rbind (digest p payload) (\<lambda>d. Inr (JStr d))) (\<lambda>payloadDigest.
     (case date_parse p (to_string p createdAt) of None \<Rightarrow> Inl (Err ''Invalid time value'')
      | Some t \<Rightarrow>
         let unsigned = [(''protocol'', JStr TRANSPARENCY_ENTRY_PROTOCOL), (''version'', JNum 2), (''logId'', JStr (tl_id lg)),
           (''sourceOwnerId'', JStr (tl_owner lg)), (''sequence'', JNum (last_sequence (tl_entries lg) + 1)),
           (''previousHash'', last_hash (tl_entries lg)), (''eventType'', eventType), (''targetId'', targetId),
           (''payloadDigest'', payloadDigest), (''payload'', payload), (''signerNodeId'', nodeId i), (''createdAt'', JStr (date_iso p t))]
         in rbind (digest p (JObj unsigned)) (\<lambda>h. rbind (signValue p (JObj unsigned) (privateKeyPem i)) (\<lambda>s.
              Inr (JObj (unsigned @ [(''entryHash'', JStr h), (''publicKey'', publicKeyPem i), (''signature'', JStr s)]))))))"

definition tl_append ::
  "platform \<Rightarrow> (jsval \<Rightarrow> bool) \<Rightarrow> identity \<Rightarrow> jsval \<Rightarrow> jsval \<Rightarrow> jsval \<Rightarrow> jsval \<Rightarrow> tlog \<Rightarrow> jsval result \<times> tlog" where
  "tl_append p io i eventType targetId payload createdAt lg0 =
     (case (if tl_opened lg0 then (Inr (), lg0) else tl_open p lg0) of
        (Inl x, lg) \<Rightarrow> (Inl x, lg)
      | (Inr _, lg) \<Rightarrow>
         (case rbind (require_identity p ''transparency entry signer identity is invalid'' ''transparency entry signer identity is invalid'' i) (\<lambda>_.
             if eventType \<notin> set (map JStr TRANSPARENCY_EVENT_TYPES) then Inl (Err ''transparency event type is invalid'')
             else if eventType = JStr ''REVOKE'' \<and> (\<not> truthy targetId \<or> \<not> is_string targetId)
               then Inl (Err ''revocation targetId is required'')
             else next_entry p i eventType targetId payload createdAt lg) of
            Inl x \<Rightarrow> (Inl x, lg)
          | Inr e \<Rightarrow> (case ingest_all p io True [e] lg of
              (Inl x, lg') \<Rightarrow> (Inl x, lg')
            | (Inr _, lg') \<Rightarrow> (case tl_head p lg' of Inl x \<Rightarrow> (Inl x, lg') | Inr _ \<Rightarrow> (Inr e, lg')))))"

section \<open>Replication\<close>

definition error_text :: "jserror \<Rightarrow> string" where
  "error_text e = (case e of Coded c m \<Rightarrow> (if c = [] then m else c) | _ \<Rightarrow> message e)"

definition failure :: "string \<Rightarrow> jsval" where
  "failure e = JObj [(''ok'', JBool False), (''error'', JStr e)]"

definition with_head :: "platform \<Rightarrow> (jsval \<Rightarrow> jsval) \<Rightarrow> tlog \<Rightarrow> jsval" where
  "with_head p answer lg = (case tl_head p lg of Inl x \<Rightarrow> failure (error_text x) | Inr h \<Rightarrow> answer h)"

text \<open>The handler of the replication protocol.\<close>

definition handle_request :: "platform \<Rightarrow> (jsval \<Rightarrow> bool) \<Rightarrow> jsval \<Rightarrow> tlog \<Rightarrow> jsval \<times> tlog" where
  "handle_request p io request lg =
     (if oget request ''logId'' \<noteq> JStr (tl_id lg) then (failure ''transparency_log_not_found'', lg)
      else if get request ''type'' = JStr ''HEAD'' then (with_head p (\<lambda>h. JObj [(''ok'', JBool True), (''head'', h)]) lg, lg)
      else if get request ''type'' = JStr ''PULL'' then
        let f = get request ''fromSequence''; fromSequence = (if is_integer f \<and> num_of f > 0 then f else JNum 1) in
        (with_head p (\<lambda>h. JObj [(''ok'', JBool True), (''head'', h), (''entries'', JArr (tl_entries_from p fromSequence lg))]) lg, lg)
      else if get request ''type'' = JStr ''PUSH'' then
        (case tl_ingest p io True (if truthy (get request ''entries'') then get request ''entries'' else JArr []) lg of
           (Inl x, lg') \<Rightarrow> (failure (error_text x), lg')
         | (Inr _, lg') \<Rightarrow> (with_head p (\<lambda>h. JObj [(''ok'', JBool True), (''head'', h)]) lg', lg'))
      else (failure ''transparency_operation_unsupported'', lg))"

text \<open>
  The service: its log and whether it advertises. \<^verbatim>\<open>provide\<close> is how an advertisement in the content
  routing ends; a peer answers a request or the transport throws.
\<close>

record tservice =
  ts_log :: tlog
  ts_advertising :: bool

type_synonym 's peer = "jsval \<Rightarrow> 's \<Rightarrow> jsval result \<times> 's"

definition advertise :: "unit result \<Rightarrow> tservice \<Rightarrow> unit result \<times> tservice" where
  "advertise provide sv = (case provide of Inl x \<Rightarrow> (Inl x, sv) | Inr _ \<Rightarrow> (Inr (), sv\<lparr>ts_advertising := True\<rparr>))"

definition response_error :: "platform \<Rightarrow> jsval \<Rightarrow> string \<Rightarrow> jserror" where
  "response_error p r dflt = Err (if truthy (oget r ''error'') then to_string p (oget r ''error'') else dflt)"

definition headFor :: "platform \<Rightarrow> 's peer \<Rightarrow> tlog \<Rightarrow> 's \<Rightarrow> jsval result \<times> 's" where
  "headFor p peer lg s = (case peer (JObj [(''type'', JStr ''HEAD''), (''logId'', JStr (tl_id lg))]) s of
       (Inl x, s') \<Rightarrow> (Inl x, s')
     | (Inr r, s') \<Rightarrow> if \<not> truthy (oget r ''ok'') \<or> \<not> truthy (get r ''head'')
         then (Inl (response_error p r ''transparency_peer_head_failed''), s') else (Inr (get r ''head''), s'))"

text \<open>After a pull was ingested: the peer's claim is checked, and the log is advertised.\<close>

definition pull_done :: "platform \<Rightarrow> unit result \<Rightarrow> jsval \<Rightarrow> tservice \<Rightarrow> string result \<times> tservice" where
  "pull_done p provide r sv = (case tl_head p (ts_log sv) of Inl x \<Rightarrow> (Inl x, sv)
     | Inr local \<Rightarrow>
        if oget (get r ''head'') ''headHash'' \<noteq> get local ''headHash'' then (Inl (Err ''transparency_pull_head_mismatch''), sv)
        else if \<not> ts_advertising sv \<and> num_of (get local ''sequence'') > 0
          then (case advertise provide sv of (Inl x, sv') \<Rightarrow> (Inl x, sv') | (Inr _, sv') \<Rightarrow> (Inr ''pull'', sv'))
        else (Inr ''pull'', sv))"

definition pull_from :: "platform \<Rightarrow> (jsval \<Rightarrow> bool) \<Rightarrow> unit result \<Rightarrow> 's peer \<Rightarrow> tservice \<Rightarrow> 's \<Rightarrow> string result \<times> tservice \<times> 's" where
  "pull_from p io provide peer sv s =
     (case peer (JObj [(''type'', JStr ''PULL''), (''logId'', JStr (tl_id (ts_log sv))),
          (''fromSequence'', JNum (last_sequence (tl_entries (ts_log sv)) + 1))]) s of
        (Inl x, s') \<Rightarrow> (Inl x, sv, s')
      | (Inr r, s') \<Rightarrow>
         if \<not> truthy (oget r ''ok'') then (Inl (response_error p r ''transparency_pull_failed''), sv, s')
         else (case tl_ingest p io True (if truthy (get r ''entries'') then get r ''entries'' else JArr []) (ts_log sv) of
             (Inl x, lg) \<Rightarrow> (Inl x, sv\<lparr>ts_log := lg\<rparr>, s')
           | (Inr _, lg) \<Rightarrow> (case pull_done p provide r (sv\<lparr>ts_log := lg\<rparr>) of (d, sv') \<Rightarrow> (d, sv', s'))))"

definition push_to :: "platform \<Rightarrow> 's peer \<Rightarrow> jsval \<Rightarrow> jsval \<Rightarrow> tservice \<Rightarrow> 's \<Rightarrow> string result \<times> tservice \<times> 's" where
  "push_to p peer remote local sv s =
     (case peer (JObj [(''type'', JStr ''PUSH''), (''logId'', JStr (tl_id (ts_log sv))),
          (''entries'', JArr (tl_entries_from p (plus_one p (get remote ''sequence'')) (ts_log sv)))]) s of
        (Inl x, s') \<Rightarrow> (Inl x, sv, s')
      | (Inr r, s') \<Rightarrow>
         if \<not> truthy (oget r ''ok'') then (Inl (response_error p r ''transparency_push_failed''), sv, s')
         else if oget (get r ''head'') ''headHash'' \<noteq> get local ''headHash'' then (Inl (Err ''transparency_push_head_mismatch''), sv, s')
         else (Inr ''push'', sv, s'))"

definition syncWithPeer :: "platform \<Rightarrow> (jsval \<Rightarrow> bool) \<Rightarrow> unit result \<Rightarrow> 's peer \<Rightarrow> tservice \<Rightarrow> 's \<Rightarrow> string result \<times> tservice \<times> 's" where
  "syncWithPeer p io provide peer sv s =
     (case headFor p peer (ts_log sv) s of (Inl x, s1) \<Rightarrow> (Inl x, sv, s1)
      | (Inr remote, s1) \<Rightarrow>
         (case tl_head p (ts_log sv) of Inl x \<Rightarrow> (Inl x, sv, s1)
          | Inr local \<Rightarrow>
             if get remote ''sequence'' = get local ''sequence'' \<and> get remote ''headHash'' \<noteq> get local ''headHash''
               then (Inl (Coded ''transparency_fork_detected'' ''transparency_fork_detected''), sv, s1)
             else if js_less p (get local ''sequence'') (get remote ''sequence'') then pull_from p io provide peer sv s1
             else if js_less p (get remote ''sequence'') (get local ''sequence'') then push_to p peer remote local sv s1
             else (Inr ''equal'', sv, s1)))"

text \<open>The providers the routing finds, without this node and repetitions, up to the limit.\<close>

fun discover_peers :: "string \<Rightarrow> nat \<Rightarrow> string list \<Rightarrow> string list \<Rightarrow> string list" where
  "discover_peers self limit peers [] = peers"
| "discover_peers self limit peers (x # xs) =
     (if x = self \<or> x \<in> set peers then discover_peers self limit peers xs
      else if length peers + 1 \<ge> limit then peers @ [x]
      else discover_peers self limit (peers @ [x]) xs)"

text \<open>One synchronisation after the other; a failure is recorded and the next peer tried.\<close>

fun sync_peers ::
  "platform \<Rightarrow> (jsval \<Rightarrow> bool) \<Rightarrow> unit result \<Rightarrow> (string \<Rightarrow> 's peer) \<Rightarrow> string list \<Rightarrow> tservice \<Rightarrow> 's \<Rightarrow> string result list \<times> tservice \<times> 's" where
  "sync_peers p io provide peer [] sv s = ([], sv, s)"
| "sync_peers p io provide peer (x # xs) sv s =
     (case syncWithPeer p io provide (peer x) sv s of (r, sv', s') \<Rightarrow>
        (case sync_peers p io provide peer xs sv' s' of (rs, sv'', s'') \<Rightarrow> (r # rs, sv'', s'')))"

definition successful :: "string result list \<Rightarrow> nat" where
  "successful rs = length (filter (\<lambda>r. case r of Inr _ \<Rightarrow> True | Inl _ \<Rightarrow> False) rs)"

definition syncNetwork ::
  "platform \<Rightarrow> (jsval \<Rightarrow> bool) \<Rightarrow> unit result \<Rightarrow> (string \<Rightarrow> 's peer) \<Rightarrow> string list \<Rightarrow> tservice \<Rightarrow> 's \<Rightarrow> string result list result \<times> tservice \<times> 's" where
  "syncNetwork p io provide peer peers sv s = (case sync_peers p io provide peer peers sv s of (rs, sv', s') \<Rightarrow>
     (rbind (tl_head p (ts_log sv')) (\<lambda>_. Inr rs), sv', s'))"

definition replicate_log ::
  "platform \<Rightarrow> (jsval \<Rightarrow> bool) \<Rightarrow> unit result \<Rightarrow> (string \<Rightarrow> 's peer) \<Rightarrow> string list \<Rightarrow> nat \<Rightarrow> tservice \<Rightarrow> 's \<Rightarrow> nat result \<times> tservice \<times> 's" where
  "replicate_log p io provide peer peers minAcks sv s =
     (case advertise provide sv of (Inl x, sv1) \<Rightarrow> (Inl x, sv1, s)
      | (Inr _, sv1) \<Rightarrow> (case syncNetwork p io provide peer peers sv1 s of
          (Inl x, sv2, s') \<Rightarrow> (Inl x, sv2, s')
        | (Inr rs, sv2, s') \<Rightarrow>
            (if successful rs < minAcks then Inl (Coded ''transparency_replication_quorum_not_met'' ''transparency_replication_quorum_not_met'')
             else Inr (successful rs), sv2, s')))"

definition recoverAndAdvertise ::
  "platform \<Rightarrow> (jsval \<Rightarrow> bool) \<Rightarrow> unit result \<Rightarrow> (string \<Rightarrow> 's peer) \<Rightarrow> string list \<Rightarrow> tservice \<Rightarrow> 's \<Rightarrow> nat result \<times> tservice \<times> 's" where
  "recoverAndAdvertise p io provide peer peers sv s =
     (case syncNetwork p io provide peer peers sv s of
        (Inl x, sv1, s') \<Rightarrow> (Inl x, sv1, s')
      | (Inr rs, sv1, s') \<Rightarrow>
          if last_sequence (tl_entries (ts_log sv1)) = 0 \<or> successful rs = 0
          then (Inl (Coded ''transparency_recovery_source_not_found'' ''transparency_recovery_source_not_found''), sv1, s')
          else if ts_advertising sv1 then (Inr (successful rs), sv1, s')
          else (case advertise provide sv1 of (Inl x, sv2) \<Rightarrow> (Inl x, sv2, s') | (Inr _, sv2) \<Rightarrow> (Inr (successful rs), sv2, s')))"

section \<open>The chain\<close>

definition entry_hash :: "jsval \<Rightarrow> string" where
  "entry_hash e = str_of (get e ''entryHash'')"

definition chain_ok :: "platform \<Rightarrow> string \<Rightarrow> string \<Rightarrow> jsval list \<Rightarrow> bool" where
  "chain_ok p lid owner es \<longleftrightarrow> (\<forall>i<length es.
     verifyTransparencyEntry p lid owner (es ! i) = Inr (JStr (entry_hash (es ! i))) \<and>
     get (es ! i) ''sequence'' = JNum (of_nat (Suc i)) \<and>
     get (es ! i) ''previousHash'' = JStr (if i = 0 then ZERO_HASH else entry_hash (es ! (i - 1))))"

lemma verifyTransparencyEntry_elim:
  assumes "verifyTransparencyEntry p lid owner e = Inr h"
  obtains d n where "digest p (unsignedEntry e) = Inr d" "get e ''entryHash'' = JStr d" "h = JStr d"
    "nodeIdFromPublicKey p (get e ''publicKey'') = Inr n" "get e ''signerNodeId'' = JStr n"
    "verifyValue p (unsignedEntry e) (get e ''signature'') (get e ''publicKey'') = Inr True"
    "lid \<noteq> [] \<Longrightarrow> get e ''logId'' = JStr lid" "owner \<noteq> [] \<Longrightarrow> get e ''sourceOwnerId'' = JStr owner"
  using assms unfolding verifyTransparencyEntry_def
  by (auto simp: res_simps split: if_splits sum.splits)

lemma verified_hash: "verifyTransparencyEntry p lid owner e = Inr h \<Longrightarrow> h = JStr (entry_hash e) \<and> get e ''entryHash'' = JStr (entry_hash e)"
  by (elim verifyTransparencyEntry_elim) (simp add: entry_hash_def)

lemma chain_last_sequence: "chain_ok p lid owner es \<Longrightarrow> last_sequence es = of_nat (length es)"
  by (cases es rule: rev_cases) (auto simp: last_sequence_def chain_ok_def nth_append)

lemma chain_last_entry: "chain_ok p lid owner es \<Longrightarrow> es \<noteq> [] \<Longrightarrow>
    get (last es) ''sequence'' = JNum (of_nat (length es)) \<and> verifyTransparencyEntry p lid owner (last es) = Inr (JStr (entry_hash (last es)))"
  by (cases es rule: rev_cases) (auto simp: chain_ok_def nth_append)

lemma verified_hash_nonempty:
  assumes "verifyTransparencyEntry p lid owner e = Inr h"
  shows "entry_hash e \<noteq> []"
  using assms by (elim verifyTransparencyEntry_elim) (auto simp: entry_hash_def digest_def res_simps)

lemma chain_last_hash:
  assumes "chain_ok p lid owner es"
  shows "last_hash es = JStr (if es = [] then ZERO_HASH else entry_hash (last es))"
proof (cases es rule: rev_cases)
  case (snoc xs x)
  with assms have v: "verifyTransparencyEntry p lid owner x = Inr (JStr (entry_hash x))" by (auto simp: chain_ok_def nth_append)
  then show ?thesis using verified_hash[OF v] verified_hash_nonempty[OF v] by (simp add: snoc last_hash_def)
qed (simp add: last_hash_def)

lemma chain_snoc:
  assumes "chain_ok p lid owner es" "verifyTransparencyEntry p lid owner e = Inr h"
    "get e ''sequence'' = JNum (last_sequence es + 1)" "get e ''previousHash'' = last_hash es"
  shows "chain_ok p lid owner (es @ [e])"
proof -
  have "get e ''sequence'' = JNum (of_nat (Suc (length es)))" using assms chain_last_sequence[OF assms(1)] by simp
  moreover have "get e ''previousHash'' = JStr (if length es = 0 then ZERO_HASH else entry_hash (es ! (length es - 1)))"
    using assms(4) chain_last_hash[OF assms(1)] by (auto simp: last_conv_nth)
  ultimately show ?thesis using assms(1,2) verified_hash[OF assms(2)]
    by (auto simp: chain_ok_def nth_append less_Suc_eq)
qed

text \<open>What every operation keeps: the chain, the identity of the log, and every entry it had.\<close>

definition tl_ok :: "platform \<Rightarrow> tlog \<Rightarrow> bool" where
  "tl_ok p lg \<longleftrightarrow> chain_ok p (tl_id lg) (tl_owner lg) (tl_entries lg)"

definition log_grows :: "platform \<Rightarrow> tlog \<Rightarrow> tlog \<Rightarrow> bool" where
  "log_grows p lg lg' \<longleftrightarrow> tl_ok p lg' \<and> tl_id lg' = tl_id lg \<and> tl_owner lg' = tl_owner lg \<and> tl_opened lg' = tl_opened lg \<and>
     (\<exists>xs. tl_entries lg' = tl_entries lg @ xs)"

lemma log_grows_refl: "tl_ok p lg \<Longrightarrow> log_grows p lg lg"
  by (simp add: log_grows_def)

lemma log_grows_trans: "log_grows p a b \<Longrightarrow> log_grows p b c \<Longrightarrow> log_grows p a c"
  by (auto simp: log_grows_def)

lemma log_grows_ok: "log_grows p lg lg' \<Longrightarrow> tl_ok p lg'"
  by (simp add: log_grows_def)

lemma ingest_entry_grows:
  assumes "tl_ok p lg" "ingest_entry p io persist e lg = (r, lg')"
  shows "log_grows p lg lg'"
proof (cases "verifyTransparencyEntry p (tl_id lg) (tl_owner lg) e")
  case (Inl x)
  with assms show ?thesis by (simp add: ingest_entry_def log_grows_refl)
next
  case (Inr h)
  note v = this
  show ?thesis
  proof (cases "lg' = lg")
    case True
    with assms show ?thesis by (simp add: log_grows_refl)
  next
    case False
    with assms v have new: "get e ''sequence'' = JNum (last_sequence (tl_entries lg) + 1)"
      "get e ''previousHash'' = last_hash (tl_entries lg)" and
      lg': "tl_entries lg' = tl_entries lg @ [e]" "tl_id lg' = tl_id lg" "tl_owner lg' = tl_owner lg" "tl_opened lg' = tl_opened lg"
      by (auto simp: ingest_entry_def Let_def split: option.splits if_splits)
    from assms(1) have "chain_ok p (tl_id lg) (tl_owner lg) (tl_entries lg @ [e])"
      unfolding tl_ok_def by (rule chain_snoc[OF _ v new])
    with lg' show ?thesis by (simp add: log_grows_def tl_ok_def)
  qed
qed

lemma ingest_all_grows: "tl_ok p lg \<Longrightarrow> ingest_all p io persist es lg = (r, lg') \<Longrightarrow> log_grows p lg lg'"
proof (induction es arbitrary: lg)
  case Nil
  then show ?case by (simp add: log_grows_refl)
next
  case (Cons e es)
  obtain r1 lg1 where 1: "ingest_entry p io persist e lg = (r1, lg1)" by fastforce
  have g: "log_grows p lg lg1" using ingest_entry_grows[OF Cons.prems(1) 1] .
  show ?case
  proof (cases r1)
    case (Inl x)
    with Cons.prems 1 g show ?thesis by simp
  next
    case (Inr u)
    with Cons.prems 1 have "ingest_all p io persist es lg1 = (r, lg')" by simp
    moreover have "tl_ok p lg1" using g by (simp add: log_grows_def)
    ultimately show ?thesis using Cons.IH log_grows_trans[OF g] by blast
  qed
qed

lemma tl_ingest_grows: "tl_ok p lg \<Longrightarrow> tl_ingest p io persist es lg = (r, lg') \<Longrightarrow> log_grows p lg lg'"
  using ingest_all_grows log_grows_refl by (fastforce simp: tl_ingest_def split: if_splits prod.splits sum.splits)

lemma handle_request_grows: "tl_ok p lg \<Longrightarrow> handle_request p io q lg = (r, lg') \<Longrightarrow> log_grows p lg lg'"
  using tl_ingest_grows log_grows_refl
  by (fastforce simp: handle_request_def Let_def split: if_splits prod.splits sum.splits)

lemma tl_append_grows:
  assumes ok: "tl_ok p lg" "tl_opened lg" and a: "tl_append p io i ty tgt pl ca lg = (r, lg')"
  shows "log_grows p lg lg'"
proof -
  have "lg' = lg \<or> (\<exists>e r. ingest_all p io True [e] lg = (r, lg'))"
    using a ok(2) by (auto simp: tl_append_def simp del: ingest_all.simps split: sum.splits prod.splits)
  then show ?thesis using ingest_all_grows[OF ok(1)] log_grows_refl[OF ok(1)] by blast
qed

lemma pull_done_log: "pull_done p provide r sv = (d, sv') \<Longrightarrow> ts_log sv' = ts_log sv"
  by (auto simp: pull_done_def advertise_def split: sum.splits if_splits)

lemma pull_from_grows:
  assumes "tl_ok p (ts_log sv)" "pull_from p io provide peer sv s = (r, sv', s')"
  shows "log_grows p (ts_log sv) (ts_log sv')"
proof (cases "ts_log sv' = ts_log sv")
  case True
  with assms(1) show ?thesis by (simp add: log_grows_refl)
next
  case False
  with assms(2) obtain x y where "tl_ingest p io True x (ts_log sv) = (y, ts_log sv')"
    by (auto simp: pull_from_def split: prod.splits sum.splits if_splits dest!: pull_done_log)
  with assms(1) show ?thesis by (rule tl_ingest_grows)
qed

lemma syncWithPeer_grows:
  assumes "tl_ok p (ts_log sv)" "syncWithPeer p io provide peer sv s = (r, sv', s')"
  shows "log_grows p (ts_log sv) (ts_log sv')"
  using assms pull_from_grows[OF assms(1)] log_grows_refl[OF assms(1)]
  by (auto simp: syncWithPeer_def push_to_def split: prod.splits sum.splits if_splits)

lemma sync_peers_grows:
  "tl_ok p (ts_log sv) \<Longrightarrow> sync_peers p io provide peer xs sv s = (rs, sv', s') \<Longrightarrow> log_grows p (ts_log sv) (ts_log sv')"
proof (induction xs arbitrary: sv s rs sv' s')
  case (Cons x xs)
  obtain r sv1 s1 where 1: "syncWithPeer p io provide (peer x) sv s = (r, sv1, s1)" by (cases "syncWithPeer p io provide (peer x) sv s")
  obtain rs1 sv2 s2 where 2: "sync_peers p io provide peer xs sv1 s1 = (rs1, sv2, s2)" by (cases "sync_peers p io provide peer xs sv1 s1")
  have g: "log_grows p (ts_log sv) (ts_log sv1)" by (rule syncWithPeer_grows[OF Cons.prems(1) 1])
  then have "tl_ok p (ts_log sv1)" by (simp add: log_grows_def)
  from Cons.IH[OF this 2] log_grows_trans[OF g] Cons.prems(2) 1 2 show ?case by auto
qed (auto simp: log_grows_refl)

lemma tl_open_ok:
  assumes "\<not> tl_opened lg" "tl_entries lg = []" "tl_open p lg = (Inr u, lg')"
  shows "tl_ok p lg' \<and> tl_opened lg' \<and> tl_id lg' = tl_id lg \<and> tl_owner lg' = tl_owner lg \<and> tl_file lg' = tl_file lg"
proof -
  have ok: "tl_ok p lg" using assms(2) by (simp add: tl_ok_def chain_ok_def)
  have kept: "tl_file l' = tl_file l" if "ingest_all p io False es l = (r, l')" for io es l r l'
    using that
  proof (induction es arbitrary: l)
    case (Cons e es)
    obtain r1 l1 where 1: "ingest_entry p io False e l = (r1, l1)" by fastforce
    then have "tl_file l1 = tl_file l" by (auto simp: ingest_entry_def Let_def split: sum.splits option.splits if_splits)
    with Cons 1 show ?case by (cases r1) auto
  qed simp
  show ?thesis
  proof (cases "tl_file lg = []")
    case True
    with assms ok show ?thesis by (auto simp: tl_open_def tl_ok_def)
  next
    case False
    with assms obtain l1 where l1: "ingest_all p (\<lambda>_. True) False (map the (tl_file lg)) (lg\<lparr>tl_entries := []\<rparr>) = (Inr (), l1)"
      "lg' = l1\<lparr>tl_opened := True\<rparr>"
      by (auto simp: tl_open_def split: prod.splits sum.splits if_splits)
    have "tl_ok p (lg\<lparr>tl_entries := []\<rparr>)" by (simp add: tl_ok_def chain_ok_def)
    from ingest_all_grows[OF this l1(1)] kept[OF l1(1)] l1(2) assms(1) show ?thesis by (auto simp: log_grows_def tl_ok_def)
  qed
qed

section \<open>Append only\<close>

text \<open>
  What can happen to an open log: its owner appends, entries are ingested, a request of any kind is
  served, or a synchronisation is run against a peer that behaves in any way, as a function of what
  it has been asked so far.
\<close>

inductive tl_step :: "platform \<Rightarrow> tservice \<Rightarrow> tservice \<Rightarrow> bool" for p where
  step_append: "tl_append p io i ty tgt pl ca (ts_log sv) = (r, lg) \<Longrightarrow> tl_step p sv (sv\<lparr>ts_log := lg\<rparr>)"
| step_ingest: "tl_ingest p io True es (ts_log sv) = (r, lg) \<Longrightarrow> tl_step p sv (sv\<lparr>ts_log := lg\<rparr>)"
| step_serve: "handle_request p io q (ts_log sv) = (a, lg) \<Longrightarrow> tl_step p sv (sv\<lparr>ts_log := lg\<rparr>)"
| step_sync: "sync_peers p io provide (peer :: string \<Rightarrow> jsval list peer) xs sv s = (rs, sv', s') \<Longrightarrow> tl_step p sv sv'"

lemma tl_step_grows:
  assumes "tl_step p sv sv'" "tl_ok p (ts_log sv)" "tl_opened (ts_log sv)"
  shows "log_grows p (ts_log sv) (ts_log sv')"
  using assms
  by (cases rule: tl_step.cases)
    (auto intro: tl_append_grows tl_ingest_grows handle_request_grows sync_peers_grows)

lemma tl_steps_grow:
  assumes "(tl_step p)\<^sup>*\<^sup>* sv sv'" "tl_ok p (ts_log sv)" "tl_opened (ts_log sv)"
  shows "log_grows p (ts_log sv) (ts_log sv')"
  using assms
proof (induction rule: rtranclp_induct)
  case base
  then show ?case by (simp add: log_grows_refl)
next
  case (step y z)
  then have g: "log_grows p (ts_log sv) (ts_log y)" by simp
  with step.prems have "tl_ok p (ts_log y)" "tl_opened (ts_log y)" by (simp_all add: log_grows_def)
  from log_grows_trans[OF g tl_step_grows[OF step.hyps(2) this]] show ?case .
qed

lemma revoked_grows: "log_grows p lg lg' \<Longrightarrow> isRevoked t lg \<Longrightarrow> isRevoked t lg'"
  by (auto simp: log_grows_def isRevoked_def)

text \<open>
  C13. A transparency log is an append-only verified chain. From a log opened on any file, over any
  sequence of appends, ingests, served requests and synchronisations with peers that answer
  anything: every entry carries a valid signature of the key of its signer for this log and owner,
  entry number \<open>i\<close> has sequence \<open>i + 1\<close> and the hash of its predecessor; no entry that was ever in the
  log is changed, moved or removed; and what was revoked stays revoked.
\<close>

theorem transparency_append_only:
  assumes "tlog_new p owner lines = Inr lg0" and "tl_open p lg0 = (Inr u, ts_log sv)" and "(tl_step p)\<^sup>*\<^sup>* sv sv'"
  shows "chain_ok p (tl_id lg0) (tl_owner lg0) (tl_entries (ts_log sv')) \<and>
    take (length (tl_entries (ts_log sv))) (tl_entries (ts_log sv')) = tl_entries (ts_log sv) \<and>
    (isRevoked t (ts_log sv) \<longrightarrow> isRevoked t (ts_log sv'))"
proof -
  have new: "\<not> tl_opened lg0" "tl_entries lg0 = []" using assms(1) by (auto simp: tlog_new_def res_simps split: if_splits)
  have g: "log_grows p (ts_log sv) (ts_log sv')" by (rule tl_steps_grow[OF assms(3)]) (use tl_open_ok[OF new assms(2)] in auto)
  then show ?thesis using tl_open_ok[OF new assms(2)] revoked_grows[OF g] by (auto simp: log_grows_def tl_ok_def)
qed

section \<open>Equal heads, equal logs\<close>

lemma same_hash_same_entry:
  assumes laws: "digest_law p" "number_texts p"
    and v: "verifyTransparencyEntry p lid owner a = Inr h" "verifyTransparencyEntry p lid' owner' b = Inr h'"
    and eq: "entry_hash a = entry_hash b"
  shows "normalize (unsignedEntry a) = normalize (unsignedEntry b)"
proof -
  have *: "\<exists>t. canonicalize p (unsignedEntry e) = Inr t \<and> entry_hash e = ''sha256:'' @ sha256 p t"
    if "verifyTransparencyEntry p l w e = Inr k" for e l w k
    using that by (elim verifyTransparencyEntry_elim) (auto simp: digest_def res_simps entry_hash_def)
  from *[OF v(1)] *[OF v(2)] obtain t t' where t: "canonicalize p (unsignedEntry a) = Inr t" "entry_hash a = ''sha256:'' @ sha256 p t"
    "canonicalize p (unsignedEntry b) = Inr t'" "entry_hash b = ''sha256:'' @ sha256 p t'" by blast
  with eq have "sha256 p t = sha256 p t'" by simp
  then have "t = t'" using laws(1) by (auto simp: digest_law_def dest: injD)
  with t show ?thesis using canonicalize_inj[OF laws(2)] by blast
qed

lemma same_entry_fields:
  assumes "normalize (unsignedEntry a) = normalize (unsignedEntry b)" "distinct_names a" "distinct_names b"
    and k: "k \<in> {''sequence'', ''previousHash''}"
  shows "normalize (get a k) = normalize (get b k)"
proof -
  have "get (normalize (unsignedEntry e)) k = normalize (get e k)" if "distinct_names e" for e
    using that k by (auto simp: unsignedEntry_def get_normalize distinct_names_without)
  with assms show ?thesis by metis
qed

lemma chain_agree:
  assumes laws: "digest_law p" "number_texts p"
    and c: "chain_ok p lid owner es" "chain_ok p lid' owner' fs"
    and d: "\<forall>e\<in>set es \<union> set fs. distinct_names e"
    and i: "i < length es" "i < length fs" "entry_hash (es ! i) = entry_hash (fs ! i)"
  shows "j \<le> i \<Longrightarrow> entry_hash (es ! j) = entry_hash (fs ! j) \<and> normalize (unsignedEntry (es ! j)) = normalize (unsignedEntry (fs ! j))"
  using i
proof (induction i)
  case 0
  then show ?case using same_hash_same_entry[OF laws] c by (fastforce simp: chain_ok_def)
next
  case (Suc i)
  have same: "normalize (unsignedEntry (es ! Suc i)) = normalize (unsignedEntry (fs ! Suc i))"
    using same_hash_same_entry[OF laws] c Suc.prems by (meson chain_ok_def)
  have "normalize (get (es ! Suc i) ''previousHash'') = normalize (get (fs ! Suc i) ''previousHash'')"
    by (rule same_entry_fields[OF same]) (use d Suc.prems in auto)
  then have "entry_hash (es ! i) = entry_hash (fs ! i)" using c Suc.prems by (auto simp: chain_ok_def)
  with Suc same show ?case by (cases "j = Suc i") auto
qed

lemma same_head_same_length:
  assumes laws: "digest_law p" "number_texts p"
    and c: "chain_ok p lid owner es" "chain_ok p lid' owner' fs"
    and d: "\<forall>e\<in>set es \<union> set fs. distinct_names e"
    and ne: "es \<noteq> []" "fs \<noteq> []" and h: "entry_hash (last es) = entry_hash (last fs)"
  shows "length es = length fs"
proof -
  note l = chain_last_entry[OF c(1) ne(1)] chain_last_entry[OF c(2) ne(2)]
  from same_hash_same_entry[OF laws l(1)[THEN conjunct2] l(2)[THEN conjunct2] h]
  have "normalize (get (last es) ''sequence'') = normalize (get (last fs) ''sequence'')"
    by (rule same_entry_fields) (use d ne in auto)
  with l show ?thesis by simp
qed

lemma same_head_same_log:
  assumes "digest_law p" "number_texts p" and "chain_ok p lid owner es" "chain_ok p lid' owner' fs"
    and "\<forall>e\<in>set es \<union> set fs. distinct_names e" and "es \<noteq> []" "fs \<noteq> []"
    and "entry_hash (last es) = entry_hash (last fs)"
  shows "length es = length fs \<and> (\<forall>j<length es. normalize (unsignedEntry (es ! j)) = normalize (unsignedEntry (fs ! j)))"
proof -
  note len = same_head_same_length[OF assms]
  have i: "length es - 1 < length es" "length es - 1 < length fs" using assms(6,7) len by (cases es; cases fs; simp)+
  have h: "entry_hash (es ! (length es - 1)) = entry_hash (fs ! (length es - 1))" using assms(6-8) len by (simp add: last_conv_nth)
  from chain_agree[OF assms(1-5) i h] len show ?thesis by force
qed

text \<open>
  The head hash commits to the whole log. Two chains, however they came about, whose last
  entries have the same hash have the same length, and entry by entry the same signed content up to
  the order of members. So a relay or a replica cannot show two different histories under one head.
  Assumed of the platform: digests do not collide.
\<close>

theorem transparency_head_commits:
  assumes "digest_law p" "number_texts p" and "chain_ok p lid owner es" "chain_ok p lid' owner' fs"
    and "\<forall>e\<in>set es \<union> set fs. distinct_names e" and "es \<noteq> []" "fs \<noteq> []"
    and "entry_hash (last es) = entry_hash (last fs)"
  shows "length es = length fs \<and> (\<forall>j<length es. normalize (unsignedEntry (es ! j)) = normalize (unsignedEntry (fs ! j)))"
  using assms by (rule same_head_same_log)

section \<open>Synchronisation with an honest replica\<close>

definition honest :: "platform \<Rightarrow> (jsval \<Rightarrow> bool) \<Rightarrow> tlog peer" where
  "honest p io q lg = (case handle_request p io q lg of (a, lg') \<Rightarrow> (Inr a, lg'))"

lemma ingest_all_nonempty:
  "ingest_all p io persist es lg = (Inr u, lg') \<Longrightarrow> es \<noteq> [] \<or> tl_entries lg \<noteq> [] \<Longrightarrow> tl_entries lg' \<noteq> []"
proof (induction es arbitrary: lg)
  case (Cons e es)
  obtain r1 lg1 where 1: "ingest_entry p io persist e lg = (r1, lg1)" by fastforce
  with Cons.prems obtain v where v: "r1 = Inr v" by (cases r1) auto
  from 1 v have "tl_entries lg1 \<noteq> []"
    by (auto simp: ingest_entry_def entry_at_def Let_def split: sum.splits option.splits if_splits jsval.splits)
  with Cons 1 v show ?case by auto
qed simp

lemma tl_ingest_success:
  assumes "tl_ingest p io persist es lg = (Inr h, lg')"
  shows "ingest_all p io persist (elems es) lg = (Inr (), lg')" "tl_head p lg' = Inr h"
  using assms by (auto simp: tl_ingest_def split: if_splits prod.splits sum.splits)

lemma tl_head_fields:
  assumes "tl_head p lg = Inr h"
  shows "get h ''headHash'' = last_hash (tl_entries lg)" "get h ''sequence'' = JNum (last_sequence (tl_entries lg))" "truthy h"
    "nullish h = False"
  using assms by (auto simp: tl_head_def res_simps)

lemma failure_get [simp]: "get (failure e) ''ok'' = JBool False" "oget (failure e) ''ok'' = JBool False"
  by (simp_all add: failure_def oget_def)

lemma with_head_ok:
  assumes "truthy (oget (with_head p f lg) ''ok'')"
  obtains h where "tl_head p lg = Inr h" "with_head p f lg = f h"
  using assms by (cases "tl_head p lg") (auto simp: with_head_def)

lemma honest_head:
  assumes "headFor p (honest p io) lg r = (Inr remote, r1)"
  shows "r1 = r \<and> tl_head p r = Inr remote"
proof -
  let ?q = "JObj [(''type'', JStr ''HEAD''), (''logId'', JStr (tl_id lg))]"
  have q: "handle_request p io ?q r = (if tl_id lg \<noteq> tl_id r then (failure ''transparency_log_not_found'', r)
      else (with_head p (\<lambda>h. JObj [(''ok'', JBool True), (''head'', h)]) r, r))"
    by (simp add: handle_request_def oget_def)
  show ?thesis
    using assms by (cases "tl_head p r") (auto simp: headFor_def honest_def q with_head_def split: if_splits)
qed

lemma pull_done_ok:
  assumes "pull_done p provide r sv = (Inr d, sv')"
  shows "ts_log sv' = ts_log sv \<and> oget (get r ''head'') ''headHash'' = last_hash (tl_entries (ts_log sv))"
  using assms tl_head_fields(1) pull_done_log[OF assms]
  by (auto simp: pull_done_def split: sum.splits if_splits)

lemma honest_pull:
  assumes "pull_from p io provide (honest p io') sv r = (Inr d, sv', r')"
    and n: "last_sequence (tl_entries (ts_log sv)) = of_nat n"
  shows "r' = r \<and> last_hash (tl_entries (ts_log sv')) = last_hash (tl_entries r) \<and>
    (tl_entries_from p (JNum (of_nat n + 1)) r \<noteq> [] \<longrightarrow> tl_entries (ts_log sv') \<noteq> [])"
proof -
  let ?q = "JObj [(''type'', JStr ''PULL''), (''logId'', JStr (tl_id (ts_log sv))), (''fromSequence'', JNum (of_nat n + 1))]"
  let ?a = "\<lambda>h. JObj [(''ok'', JBool True), (''head'', h), (''entries'', JArr (tl_entries_from p (JNum (of_nat n + 1)) r))]"
  have int: "rat_is_int (of_nat n + 1)" using rat_is_int_of_nat[of "Suc n"] by (simp add: add.commute)
  have q: "handle_request p io' ?q r = (if tl_id (ts_log sv) \<noteq> tl_id r then (failure ''transparency_log_not_found'', r)
      else (with_head p ?a r, r))"
    by (simp add: handle_request_def oget_def Let_def int add_nonneg_pos)
  obtain h where h: "tl_head p r = Inr h" "tl_id (ts_log sv) = tl_id r"
    using assms(1) by (cases "tl_head p r") (auto simp: pull_from_def n honest_def q with_head_def split: if_splits)
  have ans: "honest p io' ?q r = (Inr (?a h), r)" unfolding honest_def q by (simp add: h with_head_def)
  obtain x lg where x: "tl_ingest p io True (JArr (tl_entries_from p (JNum (of_nat n + 1)) r)) (ts_log sv) = (Inr x, lg)"
    and pd: "pull_done p provide (?a h) (sv\<lparr>ts_log := lg\<rparr>) = (Inr d, sv')" "r' = r"
    using assms(1) unfolding pull_from_def n ans by (auto simp: oget_def split: prod.splits sum.splits)
  have "oget h ''headHash'' = last_hash (tl_entries r)" using tl_head_fields[OF h(1)] by (simp add: oget_def)
  with pull_done_ok[OF pd(1)] have "last_hash (tl_entries (ts_log sv')) = last_hash (tl_entries r)" "ts_log sv' = lg" by simp_all
  with ingest_all_nonempty[OF tl_ingest_success(1)[OF x]] pd(2) show ?thesis by simp
qed

lemma honest_push:
  assumes "push_to p (honest p io') remote local sv r = (Inr d, sv', r')"
    and k: "get remote ''sequence'' = JNum k"
  shows "sv' = sv \<and> last_hash (tl_entries r') = get local ''headHash'' \<and>
    (tl_entries_from p (JNum (k + 1)) (ts_log sv) \<noteq> [] \<longrightarrow> tl_entries r' \<noteq> [])"
proof -
  let ?es = "JArr (tl_entries_from p (JNum (k + 1)) (ts_log sv))"
  let ?q = "JObj [(''type'', JStr ''PUSH''), (''logId'', JStr (tl_id (ts_log sv))), (''entries'', ?es)]"
  let ?a = "\<lambda>h. JObj [(''ok'', JBool True), (''head'', h)]"
  have p1: "plus_one p (get remote ''sequence'') = JNum (k + 1)" by (simp add: k plus_one_def)
  have q: "handle_request p io' ?q r = (if tl_id (ts_log sv) \<noteq> tl_id r then (failure ''transparency_log_not_found'', r)
      else (case tl_ingest p io' True ?es r of (Inl x, lg') \<Rightarrow> (failure (error_text x), lg') | (Inr _, lg') \<Rightarrow> (with_head p ?a lg', lg')))"
    by (simp add: handle_request_def oget_def)
  have idt: "tl_id (ts_log sv) = tl_id r" using assms(1) unfolding push_to_def p1 honest_def q by (auto split: if_splits)
  obtain x lg where x: "tl_ingest p io' True ?es r = (Inr x, lg)"
    using assms(1) idt unfolding push_to_def p1 honest_def q
    by (cases "tl_ingest p io' True ?es r"; cases "fst (tl_ingest p io' True ?es r)") auto
  note ok = tl_ingest_success[OF x]
  have ans: "honest p io' ?q r = (Inr (?a x), lg)" unfolding honest_def q by (simp add: idt x with_head_def ok)
  have "sv' = sv" "r' = lg" "oget x ''headHash'' = get local ''headHash''"
    using assms(1) unfolding push_to_def p1 ans by (auto simp: oget_def split: if_splits)
  with tl_head_fields[OF ok(2)] ingest_all_nonempty[OF ok(1)] show ?thesis by (simp add: oget_def)
qed

lemma entries_from_nonempty:
  assumes "chain_ok p lid owner (tl_entries lg)" "n < length (tl_entries lg)"
  shows "tl_entries_from p (JNum (of_nat n + 1)) lg \<noteq> []"
proof -
  have ne: "tl_entries lg \<noteq> []" using assms(2) by auto
  have "of_nat n + 1 \<le> (of_nat (length (tl_entries lg)) :: rat)" using assms(2) by (metis Suc_leI of_nat_Suc of_nat_le_iff add.commute)
  with chain_last_entry[OF assms(1) ne] have "js_geq p (get (last (tl_entries lg)) ''sequence'') (JNum (of_nat n + 1))"
    by (simp add: js_geq_def)
  with ne show ?thesis unfolding tl_entries_from_def by (metis (mono_tags, lifting) empty_filter_conv last_in_set)
qed

text \<open>After a successful synchronisation both logs end in the same hash, and are both empty or not.\<close>

lemma sync_same_head:
  assumes ok: "tl_ok p (ts_log sv)" "tl_ok p r"
    and s: "syncWithPeer p io provide (honest p io') sv r = (Inr d, sv', r')"
  shows "last_hash (tl_entries (ts_log sv')) = last_hash (tl_entries r') \<and> (tl_entries (ts_log sv') = [] \<longleftrightarrow> tl_entries r' = [])"
proof -
  let ?l = "tl_entries (ts_log sv)" and ?r = "tl_entries r"
  have seq: "last_sequence ?l = of_nat (length ?l)" "last_sequence ?r = of_nat (length ?r)"
    using ok chain_last_sequence by (auto simp: tl_ok_def)
  obtain remote local where h: "headFor p (honest p io') (ts_log sv) r = (Inr remote, r)" "tl_head p r = Inr remote"
    "tl_head p (ts_log sv) = Inr local"
    using s honest_head unfolding syncWithPeer_def by (fastforce split: prod.splits sum.splits)
  have hs: "get remote ''sequence'' = JNum (of_nat (length ?r))" "get local ''sequence'' = JNum (of_nat (length ?l))"
    "get remote ''headHash'' = last_hash ?r" "get local ''headHash'' = last_hash ?l"
    using tl_head_fields[OF h(2)] tl_head_fields[OF h(3)] seq by simp_all
  note sync = s[unfolded syncWithPeer_def h, simplified]
  consider "length ?l < length ?r" | "length ?r < length ?l" | "length ?l = length ?r" by linarith
  then show ?thesis
  proof cases
    case 1
    with sync have "pull_from p io provide (honest p io') sv r = (Inr d, sv', r')" by (simp add: hs h js_less_def)
    from honest_pull[OF this seq(1)] 1 entries_from_nonempty[of p _ _ r] ok(2) show ?thesis by (auto simp: tl_ok_def)
  next
    case 2
    with sync have "push_to p (honest p io') remote local sv r = (Inr d, sv', r')" by (simp add: hs h js_less_def)
    from honest_push[OF this hs(1)] 2 entries_from_nonempty[of p _ _ "ts_log sv"] ok(1) show ?thesis by (auto simp: hs tl_ok_def)
  next
    case 3
    with sync have "sv' = sv" "r' = r" "last_hash ?r = last_hash ?l" by (auto simp: hs h js_less_def split: if_splits)
    with 3 show ?thesis by auto
  qed
qed

lemma push_to_peer:
  "push_to p peer remote local sv s = (x, sv', s') \<Longrightarrow> \<exists>q a. peer q s = (a, s')"
  by (auto simp: push_to_def split: prod.splits sum.splits if_splits)

lemma honest_grows: "tl_ok p r \<Longrightarrow> honest p io q r = (a, r') \<Longrightarrow> log_grows p r r'"
  by (cases "handle_request p io q r") (auto simp: honest_def dest: handle_request_grows)

lemma sync_peer_grows:
  assumes ok: "tl_ok p (ts_log sv)" "tl_ok p r"
    and s: "syncWithPeer p io provide (honest p io') sv r = (Inr d, sv', r')"
  shows "log_grows p r r'"
proof -
  obtain n where n: "last_sequence (tl_entries (ts_log sv)) = of_nat n" using ok(1) chain_last_sequence by (auto simp: tl_ok_def)
  obtain remote local where h: "headFor p (honest p io') (ts_log sv) r = (Inr remote, r)" "tl_head p (ts_log sv) = Inr local"
    using s honest_head unfolding syncWithPeer_def by (fastforce split: prod.splits sum.splits)
  note sync = s[unfolded syncWithPeer_def h, simplified]
  have "r' = r \<or> (\<exists>q a. honest p io' q r = (a, r'))"
    using sync[unfolded h, simplified] honest_pull[of p io provide io' sv r d sv' r', OF _ n] push_to_peer[of p "honest p io'" remote local sv r "Inr d" sv' r']
    by (auto split: if_splits)
  then show ?thesis using honest_grows[OF ok(2)] log_grows_refl[OF ok(2)] by blast
qed

text \<open>
  C22. Replicas converge. When a synchronisation between a service and an honest replica of the same
  log reports success, in whichever direction it went, both logs have grown from what they were and
  now have the same length and, entry by entry, the same signed content. A fork, a gap or a lie
  about the head never ends in success.
\<close>

theorem transparency_sync_converges:
  assumes "digest_law p" "number_texts p" and "tl_ok p (ts_log sv)" "tl_ok p r"
    and "syncWithPeer p io provide (honest p io') sv r = (Inr d, sv', r')"
    and "\<forall>e\<in>set (tl_entries (ts_log sv')) \<union> set (tl_entries r'). distinct_names e"
  shows "log_grows p (ts_log sv) (ts_log sv') \<and> log_grows p r r' \<and> length (tl_entries (ts_log sv')) = length (tl_entries r') \<and>
    (\<forall>j<length (tl_entries r'). normalize (unsignedEntry (tl_entries (ts_log sv') ! j)) = normalize (unsignedEntry (tl_entries r' ! j)))"
proof -
  have g: "log_grows p (ts_log sv) (ts_log sv')" "log_grows p r r'"
    using syncWithPeer_grows[OF assms(3,5)] sync_peer_grows[OF assms(3-5)] .
  let ?a = "tl_entries (ts_log sv')" and ?b = "tl_entries r'"
  have c: "chain_ok p (tl_id (ts_log sv')) (tl_owner (ts_log sv')) ?a" "chain_ok p (tl_id r') (tl_owner r') ?b"
    using g[THEN log_grows_ok] by (simp_all add: tl_ok_def)
  have h: "last_hash ?a = last_hash ?b" "?a = [] \<longleftrightarrow> ?b = []" using sync_same_head[OF assms(3-5)] by simp_all
  show ?thesis
  proof (cases "?b = []")
    case False
    with h have "entry_hash (last ?a) = entry_hash (last ?b)" using chain_last_hash[OF c(1)] chain_last_hash[OF c(2)] by auto
    from same_head_same_log[OF assms(1,2) c assms(6) _ False this] False h g show ?thesis by simp
  qed (use g h in auto)
qed

section \<open>A failed write\<close>

lemma ingest_entry_new:
  assumes "ingest_entry p io persist e lg = (x, lg')" "tl_entries lg' \<noteq> tl_entries lg"
  shows "verifyTransparencyEntry p (tl_id lg) (tl_owner lg) e = Inr (get e ''entryHash'') \<and>
    get e ''sequence'' = JNum (last_sequence (tl_entries lg) + 1) \<and>
    lg' = lg\<lparr>tl_entries := tl_entries lg @ [e], tl_file := tl_file lg @ (if persist \<and> io e then [Some e] else [])\<rparr>"
proof (cases "verifyTransparencyEntry p (tl_id lg) (tl_owner lg) e")
  case (Inl r)
  with assms show ?thesis by (simp add: ingest_entry_def)
next
  case (Inr h)
  with assms verified_hash[OF Inr] show ?thesis
    by (auto simp: ingest_entry_def Let_def split: option.splits if_splits)
qed

lemma tl_append_new:
  assumes "tl_opened lg" "tl_append p io i ty tgt pl ca lg = (r, lg')" "tl_entries lg' \<noteq> tl_entries lg"
  obtains e where "verifyTransparencyEntry p (tl_id lg) (tl_owner lg) e = Inr (get e ''entryHash'')"
    "get e ''sequence'' = JNum (last_sequence (tl_entries lg) + 1)"
    "lg' = lg\<lparr>tl_entries := tl_entries lg @ [e], tl_file := tl_file lg @ (if io e then [Some e] else [])\<rparr>"
proof -
  obtain e x where "ingest_entry p io True e lg = (x, lg')"
    using assms by (auto simp: tl_append_def split: prod.splits sum.splits)
  from ingest_entry_new[OF this assms(3)] show thesis by (intro that[of e]) simp_all
qed

text \<open>Ingesting a chain again, entry by entry.\<close>

lemma ingest_chain:
  "chain_ok p (tl_id lg) (tl_owner lg) (tl_entries lg @ es) \<Longrightarrow>
     ingest_all p io False (es @ fs) lg = ingest_all p io False fs (lg\<lparr>tl_entries := tl_entries lg @ es\<rparr>)"
proof (induction es arbitrary: lg)
  case (Cons e es)
  let ?n = "length (tl_entries lg)"
  have pre: "chain_ok p (tl_id lg) (tl_owner lg) (tl_entries lg)"
    unfolding chain_ok_def
  proof (intro allI impI)
    fix i assume "i < ?n"
    with Cons.prems[unfolded chain_ok_def, rule_format, of i]
    show "verifyTransparencyEntry p (tl_id lg) (tl_owner lg) (tl_entries lg ! i) = Inr (JStr (entry_hash (tl_entries lg ! i))) \<and>
      get (tl_entries lg ! i) ''sequence'' = JNum (of_nat (Suc i)) \<and>
      get (tl_entries lg ! i) ''previousHash'' = JStr (if i = 0 then ZERO_HASH else entry_hash (tl_entries lg ! (i - 1)))"
      by (auto simp: nth_append split: if_splits)
  qed
  have e: "verifyTransparencyEntry p (tl_id lg) (tl_owner lg) e = Inr (JStr (entry_hash e))"
    "get e ''sequence'' = JNum (of_nat (Suc ?n))" "get e ''previousHash'' = last_hash (tl_entries lg)"
    using Cons.prems[unfolded chain_ok_def, rule_format, of ?n] chain_last_hash[OF pre]
    by (auto simp: nth_append last_conv_nth)
  have "ingest_entry p io False e lg = (Inr (), lg\<lparr>tl_entries := tl_entries lg @ [e]\<rparr>)"
    using e chain_last_sequence[OF pre] by (simp add: ingest_entry_def entry_at_def Let_def)
  with Cons show ?case by simp
qed simp

text \<open>A restart loses nothing: a log whose file holds its entries opens with exactly them.\<close>

lemma tl_open_restores:
  assumes "tl_ok p lg" "tl_file lg = map Some (tl_entries lg)" "\<not> tl_opened lg"
  shows "tl_open p (lg\<lparr>tl_entries := []\<rparr>) = (Inr (), lg\<lparr>tl_opened := True\<rparr>)"
proof (cases "tl_entries lg = []")
  case True
  with assms show ?thesis by (cases lg) (auto simp: tl_open_def)
next
  case False
  have "ingest_all p (\<lambda>_. True) False (tl_entries lg @ []) (lg\<lparr>tl_entries := []\<rparr>) = (Inr (), lg)"
    by (subst ingest_chain) (use assms(1) in \<open>simp_all add: tl_ok_def\<close>)
  with assms False show ?thesis by (auto simp: tl_open_def comp_def)
qed

lemma ingest_gap:
  assumes "chain_ok p (tl_id lg) (tl_owner lg) (tl_entries lg)"
    "verifyTransparencyEntry p (tl_id lg) (tl_owner lg) e = Inr h" "get e ''sequence'' = JNum (of_nat (length (tl_entries lg)) + 2)"
  shows "ingest_all p io False [e] lg = (Inl (Err ''transparency_log_gap_or_chain_mismatch''), lg)"
  using assms chain_last_sequence[OF assms(1)] by (simp add: ingest_entry_def entry_at_def)

text \<open>
  A write that fails makes the log lose its file. Take an open log whose file holds exactly its
  entries. An append whose write to disk fails throws, but its entry stays in memory; the next append
  builds on that entry and its write succeeds. From then on the file has a gap: opening it throws,
  so the log is not available after a restart.
\<close>

theorem transparency_failed_write:
  assumes "tl_ok p lg" "tl_opened lg" "tl_file lg = map Some (tl_entries lg)"
    and "tl_append p (\<lambda>_. False) i ty tgt pl ca lg = (Inl x, lg1)" "tl_entries lg1 \<noteq> tl_entries lg"
    and "tl_append p (\<lambda>_. True) i' ty' tgt' pl' ca' lg1 = (r2, lg2)" "tl_entries lg2 \<noteq> tl_entries lg1"
  shows "fst (tl_open p (lg2\<lparr>tl_opened := False, tl_entries := []\<rparr>)) = Inl (Err ''transparency_log_gap_or_chain_mismatch'')"
proof -
  obtain e1 where e1: "lg1 = lg\<lparr>tl_entries := tl_entries lg @ [e1]\<rparr>"
    using assms(2,4,5) by (elim tl_append_new) auto
  have g: "tl_ok p lg1" by (rule log_grows_ok[OF tl_append_grows[OF assms(1,2,4)]])
  obtain e2 where e2: "verifyTransparencyEntry p (tl_id lg) (tl_owner lg) e2 = Inr (get e2 ''entryHash'')"
    "get e2 ''sequence'' = JNum (last_sequence (tl_entries lg1) + 1)"
    "lg2 = lg1\<lparr>tl_entries := tl_entries lg1 @ [e2], tl_file := tl_file lg @ [Some e2]\<rparr>"
    using assms(2,6,7) by (elim tl_append_new[rotated]) (auto simp: e1)
  have seq: "get e2 ''sequence'' = JNum (of_nat (length (tl_entries lg)) + 2)"
    using e2(2) chain_last_sequence[OF g[unfolded tl_ok_def]] by (simp add: e1 add.commute)
  let ?l = "lg2\<lparr>tl_opened := False, tl_entries := []\<rparr>"
  have "ingest_all p (\<lambda>_. True) False (tl_entries lg @ [e2]) ?l =
      ingest_all p (\<lambda>_. True) False [e2] (?l\<lparr>tl_entries := tl_entries lg\<rparr>)"
    by (subst ingest_chain) (use assms(1) in \<open>simp_all add: tl_ok_def e1 e2(3)\<close>)
  also have "\<dots> = (Inl (Err ''transparency_log_gap_or_chain_mismatch''), ?l\<lparr>tl_entries := tl_entries lg\<rparr>)"
    by (rule ingest_gap[where h = "get e2 ''entryHash''"]) (use assms(1) e2(1) seq in \<open>simp_all add: tl_ok_def e1 e2(3)\<close>)
  finally have "ingest_all p (\<lambda>_. True) False (tl_entries lg @ [e2]) ?l =
      (Inl (Err ''transparency_log_gap_or_chain_mismatch''), ?l\<lparr>tl_entries := tl_entries lg\<rparr>)" .
  moreover have "tl_file ?l = map Some (tl_entries lg @ [e2])" by (simp add: e2(3) e1 assms(3))
  ultimately show ?thesis by (auto simp: tl_open_def comp_def)
qed

section \<open>Appending succeeds\<close>

lemma last_hash_text:
  assumes "tl_ok p lg"
  obtains h where "last_hash (tl_entries lg) = JStr h"
  using chain_last_hash[OF assms[unfolded tl_ok_def]] by (metis that)

text \<open>
  What \<^verbatim>\<open>append\<close> builds for a matching key pair verifies and continues the chain; stated for entries
  without a payload.
\<close>

lemma next_entry_ok:
  assumes ok: "tl_ok p lg" and keys: "key_pair p (privateKeyPem i) (publicKeyPem i)"
    and i: "nodeIdFromPublicKey p (publicKeyPem i) = Inr n" "nodeId i = JStr n" "publicKeyPem i = JStr pk" "pk \<noteq> []"
    and ty: "ty \<in> set TRANSPARENCY_EVENT_TYPES" and d: "date_parse p (to_string p ca) = Some tm"
    and ids: "tl_id lg \<noteq> []" "tl_owner lg \<noteq> []"
  obtains e h where "next_entry p i (JStr ty) (JStr tgt) JNull ca lg = Inr e" "distinct_names e"
    "verifyTransparencyEntry p (tl_id lg) (tl_owner lg) e = Inr h"
    "get e ''sequence'' = JNum (last_sequence (tl_entries lg) + 1)" "get e ''previousHash'' = last_hash (tl_entries lg)"
    "get e ''eventType'' = JStr ty" "get e ''targetId'' = JStr tgt"
proof -
  obtain lh where lh: "last_hash (tl_entries lg) = JStr lh" by (rule last_hash_text[OF ok])
  define u where "u = [(''protocol'', JStr TRANSPARENCY_ENTRY_PROTOCOL), (''version'', JNum 2), (''logId'', JStr (tl_id lg)),
           (''sourceOwnerId'', JStr (tl_owner lg)), (''sequence'', JNum (last_sequence (tl_entries lg) + 1)),
           (''previousHash'', JStr lh), (''eventType'', JStr ty), (''targetId'', JStr tgt),
           (''payloadDigest'', JNull), (''payload'', JNull), (''signerNodeId'', JStr n), (''createdAt'', JStr (date_iso p tm))]"
  have canon: "assertCanonicalJsonValue (JObj u) = Inr ()" by (simp add: u_def assert_members_iff)
  then obtain t s where t: "canonicalize p (JObj u) = Inr t" and s: "signValue p (JObj u) (privateKeyPem i) = Inr s"
    using canonicalize_total signValue_total[OF keys] by blast
  then have h: "digest p (JObj u) = Inr (''sha256:'' @ sha256 p t)" by (simp add: digest_def)
  obtain bs where bs: "length bs = 64" "s = b64_text bs" "verifyValue p (JObj u) (JStr s) (publicKeyPem i) = Inr True"
    using signValue_verifies[OF keys s] by metis
  have "s \<noteq> []" using bs(1,2) by (cases bs rule: b64_text.cases) auto
  define e where "e = JObj (u @ [(''entryHash'', JStr (''sha256:'' @ sha256 p t)), (''publicKey'', publicKeyPem i), (''signature'', JStr s)])"
  have nx: "next_entry p i (JStr ty) (JStr tgt) JNull ca lg = Inr e"
    using h s by (simp add: next_entry_def d lh i(2) e_def u_def)
  have un: "unsignedEntry e = JObj u" by (simp add: unsignedEntry_def e_def u_def)
  have f: "get e ''protocol'' = JStr TRANSPARENCY_ENTRY_PROTOCOL" "get e ''version'' = JNum 2" "get e ''logId'' = JStr (tl_id lg)"
    "get e ''sourceOwnerId'' = JStr (tl_owner lg)" "get e ''sequence'' = JNum (last_sequence (tl_entries lg) + 1)"
    "get e ''previousHash'' = JStr lh" "get e ''eventType'' = JStr ty" "get e ''targetId'' = JStr tgt" "get e ''signerNodeId'' = JStr n"
    "get e ''entryHash'' = JStr (''sha256:'' @ sha256 p t)" "get e ''publicKey'' = publicKeyPem i" "get e ''signature'' = JStr s"
    by (simp_all add: e_def u_def)
  have og: "oget e k = get e k" for k by (simp add: e_def oget_def)
  have seq: "last_sequence (tl_entries lg) + 1 \<noteq> 0"
    using chain_last_sequence[OF ok[unfolded tl_ok_def]] by (metis add.commute of_nat_Suc of_nat_eq_0_iff nat.distinct(1))
  have "n \<noteq> []" "ty \<noteq> []" using i(1) ty by (auto simp: nodeIdFromPublicKey_def res_simps TRANSPARENCY_EVENT_TYPES_def)
  then have "verifyTransparencyEntry p (tl_id lg) (tl_owner lg) e = Inr (get e ''entryHash'')"
    using ids i h bs(3) ty seq \<open>s \<noteq> []\<close> by (simp add: verifyTransparencyEntry_def og f un TRANSPARENCY_ENTRY_PROTOCOL_def)
  moreover have "distinct_names e" by (simp add: e_def u_def i(3))
  ultimately show thesis using that[OF nx] f lh by simp
qed

lemma tl_append_ok:
  assumes ok: "tl_ok p lg" "tl_opened lg" and keys: "key_pair p (privateKeyPem i) (publicKeyPem i)"
    and i: "nodeIdFromPublicKey p (publicKeyPem i) = Inr n" "nodeId i = JStr n" "publicKeyPem i = JStr pk" "pk \<noteq> []" "truthy (privateKeyPem i)"
    and d: "date_parse p (to_string p ca) = Some tm" and ids: "tl_id lg \<noteq> []" "tl_owner lg \<noteq> []" and tgt: "tgt \<noteq> []"
  obtains e r where "tl_append p io i (JStr ''REVOKE'') (JStr tgt) JNull ca lg = (r, lg\<lparr>tl_entries := tl_entries lg @ [e],
      tl_file := tl_file lg @ (if io e then [Some e] else [])\<rparr>)" "\<not> io e \<Longrightarrow> r = Inl (Coded ''EIO'' ''write failed'')"
    "distinct_names e" "get e ''eventType'' = JStr ''REVOKE''" "get e ''targetId'' = JStr tgt"
proof -
  have ty: "''REVOKE'' \<in> set TRANSPARENCY_EVENT_TYPES" by (simp add: TRANSPARENCY_EVENT_TYPES_def)
  obtain e h where e: "next_entry p i (JStr ''REVOKE'') (JStr tgt) JNull ca lg = Inr e" "distinct_names e"
    "verifyTransparencyEntry p (tl_id lg) (tl_owner lg) e = Inr h"
    "get e ''sequence'' = JNum (last_sequence (tl_entries lg) + 1)" "get e ''previousHash'' = last_hash (tl_entries lg)"
    "get e ''eventType'' = JStr ''REVOKE''" "get e ''targetId'' = JStr tgt"
    by (rule next_entry_ok[OF ok(1) keys i(1-4) ty d ids])
  have nn: "n \<noteq> []" using i(1) by (auto simp: nodeIdFromPublicKey_def res_simps)
  have none: "entry_at p (tl_entries lg) (JNum (last_sequence (tl_entries lg) + 1)) = None"
    using chain_last_sequence[OF ok(1)[unfolded tl_ok_def]] by (simp add: entry_at_def)
  have ing: "ingest_all p io True [e] lg = (if io e then Inr () else Inl (Coded ''EIO'' ''write failed''),
      lg\<lparr>tl_entries := tl_entries lg @ [e], tl_file := tl_file lg @ (if io e then [Some e] else [])\<rparr>)"
    using e none by (simp add: ingest_entry_def)
  have ri: "require_identity p m m i = Inr ()" for m using i nn by (simp add: require_identity_def)
  show thesis
    by (rule that[of "fst (tl_append p io i (JStr ''REVOKE'') (JStr tgt) JNull ca lg)" e])
      (use e ri ty ok(2) tgt in \<open>auto simp: tl_append_def ing simp del: ingest_all.simps split: sum.splits\<close>)
qed

section \<open>A concrete log\<close>

definition log_signer :: identity where
  "log_signer = \<lparr>nodeId = JStr ''truyn:node:4b'', publicKeyPem = JStr ''K'', privateKeyPem = JStr ''S''\<rparr>"

definition empty_log :: tlog where
  "empty_log = \<lparr>tl_owner = ''o'', tl_id = ''l'', tl_entries = [], tl_file = [], tl_opened = True\<rparr>"

lemma log_signer_ok:
  "nodeIdFromPublicKey sample_platform (publicKeyPem log_signer) = Inr ''truyn:node:4b''" "nodeId log_signer = JStr ''truyn:node:4b''"
  "publicKeyPem log_signer = JStr ''K''" "''K'' \<noteq> []" "truthy (privateKeyPem log_signer)"
  by (simp_all add: log_signer_def) code_simp

lemma sample_iso_parses: "date_parse sample_platform (to_string sample_platform (JStr sample_iso)) = Some sample_now"
  by (simp add: sample_date_parse_def)

lemmas sample_append = tl_append_ok[OF _ _ sample_key_pair log_signer_ok sample_iso_parses]

text \<open>A log of one revocation, reached by one append.\<close>

lemma one_revocation:
  assumes "tl_ok sample_platform lg" "tl_opened lg" "tl_entries lg = []" "tl_id lg \<noteq> []" "tl_owner lg \<noteq> []"
  shows "\<exists>e r. tl_append sample_platform (\<lambda>_. io) log_signer (JStr ''REVOKE'') (JStr ''t'') JNull (JStr sample_iso) lg =
      (r, lg\<lparr>tl_entries := [e], tl_file := tl_file lg @ (if io then [Some e] else [])\<rparr>) \<and> (\<not> io \<longrightarrow> r = Inl (Coded ''EIO'' ''write failed'')) \<and>
      distinct_names e \<and> isRevoked (JStr ''t'') (lg\<lparr>tl_entries := [e], tl_file := tl_file lg @ (if io then [Some e] else [])\<rparr>)"
  by (rule sample_append[OF assms(1,2,4,5), of "''t''" "\<lambda>_. io"]) (use assms(3) in \<open>auto simp: isRevoked_def\<close>)

lemma empty_log_ok: "tl_ok sample_platform empty_log" "tl_opened empty_log" "tl_entries empty_log = []" "tl_id empty_log \<noteq> []"
  "tl_owner empty_log \<noteq> []" "tl_file empty_log = map Some (tl_entries empty_log)"
  by (simp_all add: tl_ok_def chain_ok_def empty_log_def)

theorem transparency_failed_write_witness:
  "\<exists>lg2. tl_entries lg2 \<noteq> [] \<and> fst (tl_open sample_platform (lg2\<lparr>tl_opened := False, tl_entries := []\<rparr>)) =
     Inl (Err ''transparency_log_gap_or_chain_mismatch'')"
proof -
  obtain e1 where 1: "tl_append sample_platform (\<lambda>_. False) log_signer (JStr ''REVOKE'') (JStr ''t'') JNull (JStr sample_iso) empty_log =
      (Inl (Coded ''EIO'' ''write failed''), empty_log\<lparr>tl_entries := [e1]\<rparr>)"
    using one_revocation[OF empty_log_ok(1-5), of False] by (auto simp: empty_log_def)
  let ?l1 = "empty_log\<lparr>tl_entries := [e1]\<rparr>"
  have l1: "tl_ok sample_platform ?l1" "tl_opened ?l1" "tl_id ?l1 \<noteq> []" "tl_owner ?l1 \<noteq> []" "tl_entries ?l1 \<noteq> tl_entries empty_log"
    using log_grows_ok[OF tl_append_grows[OF empty_log_ok(1,2) 1]] by (simp_all add: empty_log_def)
  obtain e2 r2 where 2: "tl_append sample_platform (\<lambda>_. True) log_signer (JStr ''REVOKE'') (JStr ''u'') JNull (JStr sample_iso) ?l1 =
      (r2, ?l1\<lparr>tl_entries := tl_entries ?l1 @ [e2], tl_file := tl_file ?l1 @ (if True then [Some e2] else [])\<rparr>)"
    by (rule sample_append[OF l1(1-4), of "''u''" "\<lambda>_. True"]) auto
  have "tl_entries (?l1\<lparr>tl_entries := tl_entries ?l1 @ [e2], tl_file := tl_file ?l1 @ (if True then [Some e2] else [])\<rparr>) \<noteq> tl_entries ?l1"
    by simp
  from transparency_failed_write[OF empty_log_ok(1,2,6) 1 l1(5) 2 this] show ?thesis
    by (intro exI[of _ "?l1\<lparr>tl_entries := tl_entries ?l1 @ [e2], tl_file := tl_file ?l1 @ (if True then [Some e2] else [])\<rparr>"]) simp
qed

theorem transparency_head_commits_witness:
  "\<exists>e. chain_ok sample_platform ''l'' ''o'' [e] \<and> distinct_names e \<and> length [e] = length [e] \<and>
     (\<forall>j<length [e]. normalize (unsignedEntry ([e] ! j)) = normalize (unsignedEntry ([e] ! j)))"
proof -
  obtain e r where e: "tl_append sample_platform (\<lambda>_. True) log_signer (JStr ''REVOKE'') (JStr ''t'') JNull (JStr sample_iso) empty_log =
      (r, empty_log\<lparr>tl_entries := [e], tl_file := [Some e]\<rparr>)" "distinct_names e"
    using one_revocation[OF empty_log_ok(1-5), of True] by (auto simp: empty_log_def)
  have c: "chain_ok sample_platform ''l'' ''o'' [e]"
    using log_grows_ok[OF tl_append_grows[OF empty_log_ok(1,2) e(1)]] by (simp add: tl_ok_def empty_log_def)
  from transparency_head_commits[OF sample_digest_law sample_number_texts c c] e(2) c show ?thesis by auto
qed

theorem transparency_append_only_witness:
  "\<exists>lg0 sv sv'. tlog_new sample_platform (JStr ''o'') [] = Inr lg0 \<and> (tl_step sample_platform)\<^sup>*\<^sup>* sv sv' \<and>
     chain_ok sample_platform (tl_id lg0) ''o'' (tl_entries (ts_log sv')) \<and> isRevoked (JStr ''t'') (ts_log sv')"
proof -
  obtain d where d: "digest sample_platform (JObj [(''sourceOwnerId'', JStr (trim ''o''))]) = Inr d"
    using canonicalize_total[of "JObj [(''sourceOwnerId'', JStr (trim ''o''))]" sample_platform] by (auto simp: digest_def)
  have nb: "nonblank (JStr ''o'')" by code_simp
  let ?l0 = "\<lparr>tl_owner = ''o'', tl_id = ''truyn:transparency:'' @ drop 7 d, tl_entries = [], tl_file = [], tl_opened = False\<rparr>"
  have new: "tlog_new sample_platform (JStr ''o'') [] = Inr ?l0" using d nb by (simp add: tlog_new_def transparencyLogId_def)
  let ?s = "\<lparr>ts_log = ?l0\<lparr>tl_opened := True\<rparr>, ts_advertising = False\<rparr>"
  have opn: "tl_open sample_platform ?l0 = (Inr (), ts_log ?s)" by (simp add: tl_open_def)
  have ok: "tl_ok sample_platform (ts_log ?s)" "tl_opened (ts_log ?s)" "tl_entries (ts_log ?s) = []" "tl_id (ts_log ?s) \<noteq> []" "tl_owner (ts_log ?s) \<noteq> []"
    by (simp_all add: tl_ok_def chain_ok_def)
  from one_revocation[OF ok, of True] obtain lg r where
    a: "tl_append sample_platform (\<lambda>_. True) log_signer (JStr ''REVOKE'') (JStr ''t'') JNull (JStr sample_iso) (ts_log ?s) = (r, lg)"
    "isRevoked (JStr ''t'') lg" by auto
  have st: "(tl_step sample_platform)\<^sup>*\<^sup>* ?s (?s\<lparr>ts_log := lg\<rparr>)" by (rule r_into_rtranclp) (rule step_append[OF a(1)])
  have "chain_ok sample_platform (tl_id ?l0) (tl_owner ?l0) (tl_entries (ts_log (?s\<lparr>ts_log := lg\<rparr>)))"
    using transparency_append_only[OF new opn st] by blast
  with new st a(2) show ?thesis
    by (intro exI[of _ ?l0] exI[of _ ?s] exI[of _ "?s\<lparr>ts_log := lg\<rparr>"]) simp
qed

lemma head_exists:
  assumes "tl_entries lg = []"
  shows "\<exists>h. tl_head p lg = Inr h"
proof -
  let ?v = "JObj [(''logId'', JStr (tl_id lg)), (''sequence'', JNum 0), (''revocations'', JArr [])]"
  obtain t where "canonicalize p ?v = Inr t" using canonicalize_total[of ?v p] by auto
  with assms show ?thesis
    by (simp add: tl_head_def revocationState_def revocations_def last_sequence_def digest_def js_sort_def)
qed

theorem transparency_sync_converges_witness:
  "\<exists>sv' r'. syncWithPeer sample_platform (\<lambda>_. True) (Inr ()) (honest sample_platform (\<lambda>_. True))
       \<lparr>ts_log = empty_log, ts_advertising = False\<rparr> empty_log = (Inr ''equal'', sv', r') \<and>
     length (tl_entries (ts_log sv')) = length (tl_entries r')"
proof -
  let ?s = "\<lparr>ts_log = empty_log, ts_advertising = False\<rparr>"
  obtain h where h: "tl_head sample_platform empty_log = Inr h" using head_exists[OF empty_log_ok(3)] by blast
  let ?q = "JObj [(''type'', JStr ''HEAD''), (''logId'', JStr (tl_id empty_log))]"
  have "handle_request sample_platform (\<lambda>_. True) ?q empty_log = (JObj [(''ok'', JBool True), (''head'', h)], empty_log)"
    by (simp add: handle_request_def oget_def with_head_def h)
  then have "headFor sample_platform (honest sample_platform (\<lambda>_. True)) empty_log empty_log = (Inr h, empty_log)"
    using tl_head_fields[OF h] by (simp add: headFor_def honest_def oget_def)
  then have sync: "syncWithPeer sample_platform (\<lambda>_. True) (Inr ()) (honest sample_platform (\<lambda>_. True)) ?s empty_log = (Inr ''equal'', ?s, empty_log)"
    using h tl_head_fields[OF h] by (simp add: syncWithPeer_def js_less_def)
  have "length (tl_entries (ts_log ?s)) = length (tl_entries empty_log)"
    using transparency_sync_converges[OF sample_digest_law sample_number_texts _ empty_log_ok(1) sync] empty_log_ok by simp
  with sync show ?thesis by blast
qed

end
