(* ===== verification/Claims.thy ===== *)
theory Claims
  imports Protocol
begin

text \<open>
  Claims and attestations of \<^verbatim>\<open>core/claims/index.js\<close>: the normal forms of their texts, lists, evidence and
  lineage, their content identifiers, creation and verification. Shown: normal forms are stable, so
  what is created verifies; a verified identifier fixes the content and, for an attestation, who
  made it.
\<close>

section \<open>Normal forms\<close>

definition CLAIM_PROTOCOL :: string where
  "CLAIM_PROTOCOL = ''truyn-claim-v1''"

definition ATTEST_PROTOCOL :: string where
  "ATTEST_PROTOCOL = ''truyn-attest-v1''"

definition ATTEST_VERDICTS :: "string list" where
  "ATTEST_VERDICTS = [''support'', ''contradict'', ''uncertain'']"

text \<open>\<^verbatim>\<open>replace(/\s+/g, ' ')\<close>; the flag says that the previous character was white space.\<close>

fun collapse :: "bool \<Rightarrow> string \<Rightarrow> string" where
  "collapse w [] = []"
| "collapse w (c # cs) = (if js_white c then (if w then collapse True cs else CHR '' '' # collapse True cs) else c # collapse False cs)"

definition normal_text :: "platform \<Rightarrow> string \<Rightarrow> string" where
  "normal_text p s = trim (collapse False (nfkc p s))"

definition normalizeText :: "platform \<Rightarrow> jsval \<Rightarrow> string \<Rightarrow> nat \<Rightarrow> string result" where
  "normalizeText p v label maxlen =
     (if \<not> nonblank v then Inl (Err (label @ '' is required''))
      else if length (normal_text p (str_of v)) > maxlen then Inl (Err (label @ '' is too long''))
      else Inr (normal_text p (str_of v)))"

definition string_items :: "jsval \<Rightarrow> string list" where
  "string_items v = filter (\<lambda>s. s \<noteq> []) (map (trim \<circ> str_of) (filter is_string (elems v)))"

definition normalizeStringList :: "jsval \<Rightarrow> nat \<Rightarrow> string list" where
  "normalizeStringList v maxlen = take maxlen (js_sort cmp_ascii (unique (string_items v)))"

abbreviation texts :: "string list \<Rightarrow> jsval" where
  "texts xs \<equiv> JArr (map JStr xs)"

text \<open>A text after \<^verbatim>\<open>typeof v === 'string' && v.trim() ? v.trim() : null\<close>.\<close>

definition trimmed_or_null :: "jsval \<Rightarrow> jsval" where
  "trimmed_or_null v = (if nonblank v then JStr (trim (str_of v)) else JNull)"

definition normalize_evidence_item :: "platform \<Rightarrow> jsval \<Rightarrow> jsval result" where
  "normalize_evidence_item p item =
     (if \<not> truthy item \<or> typeof item \<noteq> ''object'' then Inl (Err ''invalid attestation evidence'')
      else rbind (normalizeText p (if truthy (get item ''kind'') then get item ''kind'' else JStr ''source'') ''evidence kind'' 80) (\<lambda>kd.
        rbind (normalizeText p (get item ''sourceId'') ''evidence sourceId'' 512) (\<lambda>src.
        Inr (JObj [(''kind'', JStr kd), (''sourceId'', JStr src), (''contentDigest'', trimmed_or_null (get item ''contentDigest'')),
          (''parentSourceIds'', texts (normalizeStringList (get item ''parentSourceIds'') 32))]))))"

fun map_result :: "('a \<Rightarrow> 'b result) \<Rightarrow> 'a list \<Rightarrow> 'b list result" where
  "map_result f [] = Inr []"
| "map_result f (x # xs) = rbind (f x) (\<lambda>y. rbind (map_result f xs) (\<lambda>ys. Inr (y # ys)))"

definition normalizeEvidence :: "platform \<Rightarrow> jsval \<Rightarrow> jsval result" where
  "normalizeEvidence p evidence =
     (if \<not> is_array evidence then Inr (JArr [])
      else if length (elems evidence) > 64 then Inl (Err ''attestation evidence exceeds limit'')
      else rbind (map_result (normalize_evidence_item p) (elems evidence)) (\<lambda>xs. Inr (JArr xs)))"

text \<open>The default of a missing argument is the empty object; \<^verbatim>\<open>null\<close> is no object to read from.\<close>

definition normalizeLineage :: "jsval \<Rightarrow> jsval result" where
  "normalizeLineage lineage = (if lineage = JNull then Inl (TypeError ''Cannot read properties of null'') else
     Inr (JObj [(''originIds'', texts (normalizeStringList (get lineage ''originIds'') 64)),
       (''publisherIds'', texts (normalizeStringList (get lineage ''publisherIds'') 64)),
       (''generatorIds'', texts (normalizeStringList (get lineage ''generatorIds'') 64)),
       (''parentAttestationIds'', texts (normalizeStringList (get lineage ''parentAttestationIds'') 64))]))"

section \<open>Claims\<close>

definition object_or :: "jsval \<Rightarrow> jsval \<Rightarrow> jsval" where
  "object_or dflt v = (if truthy v \<and> typeof v = ''object'' then v else dflt)"

definition claim_body :: "platform \<Rightarrow> jsval \<Rightarrow> jsval result" where
  "claim_body p a =
     rbind (normalizeText p (get a ''domain'') ''claim domain'' 256) (\<lambda>domain.
     rbind (normalizeText p (get a ''statement'') ''claim statement'' 16384) (\<lambda>statement.
     rbind (if nullish (get a ''subject'') then Inr JNull
            else rbind (normalizeText p (get a ''subject'') ''claim subject'' 2048) (\<lambda>s. Inr (JStr s))) (\<lambda>subject.
     Inr (JObj [(''protocol'', JStr CLAIM_PROTOCOL), (''version'', JNum 1), (''domain'', JStr (to_lower domain)),
       (''statement'', JStr statement), (''subject'', subject), (''basis'', object_or JNull (get a ''basis'')),
       (''qualifiers'', object_or (JObj []) (get a ''qualifiers''))]))))"

definition claimContentId :: "platform \<Rightarrow> jsval \<Rightarrow> (string \<times> jsval) result" where
  "claimContentId p a = rbind (claim_body p a) (\<lambda>body. rbind (digest p body) (\<lambda>d. Inr (''truyn:claim:'' @ drop 7 d, body)))"

definition claim_signed :: "jsval \<Rightarrow> jsval \<Rightarrow> jsval \<Rightarrow> jsval \<Rightarrow> entries" where
  "claim_signed claimId body issuedBy createdAt =
     [(''claimId'', claimId), (''body'', body), (''issuedBy'', issuedBy), (''createdAt'', createdAt)]"

definition createClaim :: "platform \<Rightarrow> identity \<Rightarrow> jsval \<Rightarrow> jsval \<Rightarrow> jsval result" where
  "createClaim p i a createdAt =
     rbind (require_identity p ''claim issuer identity is required'' ''claim issuer identity key mismatch'' i) (\<lambda>_.
     rbind (claimContentId p a) (\<lambda>(claimId, body).
     let signed = claim_signed (JStr claimId) body (nodeId i) createdAt in
     rbind (signValue p (JObj signed) (privateKeyPem i)) (\<lambda>s.
       Inr (JObj (signed @ [(''publicKey'', publicKeyPem i), (''signature'', JStr s)])))))"

definition verifyClaim :: "platform \<Rightarrow> jsval \<Rightarrow> jsval verdict" where
  "verifyClaim p c =
     (if \<exists>k\<in>set [''claimId'', ''body'', ''issuedBy'', ''createdAt'', ''publicKey'', ''signature'']. \<not> truthy (oget c k)
        then Inl ''claim_missing_required_field''
      else (case nodeIdFromPublicKey p (get c ''publicKey'') of Inl x \<Rightarrow> Inl (message x)
      | Inr n \<Rightarrow> if JStr n \<noteq> get c ''issuedBy'' then Inl ''claim_issuer_key_mismatch''
      else (case claimContentId p (get c ''body'') of Inl x \<Rightarrow> Inl (message x)
      | Inr (claimId, body) \<Rightarrow>
          if JStr claimId \<noteq> get c ''claimId'' then Inl ''claim_content_id_mismatch''
          else (case (canonicalize p body, canonicalize p (get c ''body'')) of
              (Inl x, _) \<Rightarrow> Inl (message x) | (_, Inl x) \<Rightarrow> Inl (message x)
            | (Inr s, Inr t) \<Rightarrow> if s \<noteq> t then Inl ''claim_content_id_mismatch''
      else (case verifyValue p (JObj (claim_signed (get c ''claimId'') (get c ''body'') (get c ''issuedBy'') (get c ''createdAt'')))
               (get c ''signature'') (get c ''publicKey'') of Inl x \<Rightarrow> Inl (message x)
      | Inr ok \<Rightarrow> if ok then Inr (get c ''claimId'') else Inl ''claim_signature_invalid'')))))"

definition evidence_commitment :: "jsval \<Rightarrow> jsval result" where
  "evidence_commitment e = rbind (dot e ''contentCommitment'') (\<lambda>a. rbind (dot e ''holderReceiptDigest'') (\<lambda>b.
     Inr (JObj [(''contentCommitment'', a), (''holderReceiptDigest'', b)])))"

definition createClaimFromRetrievedContext ::
  "platform \<Rightarrow> identity \<Rightarrow> jsval \<Rightarrow> jsval \<Rightarrow> jsval \<Rightarrow> jsval \<Rightarrow> jsval \<Rightarrow> jsval \<Rightarrow> jsval result" where
  "createClaimFromRetrievedContext p i domain statement subject retrievalResult qualifiers createdAt =
     (let v = oget retrievalResult ''provenance'' in
      if \<not> truthy (oget v ''verified'') \<or> \<not> is_string (get v ''rootCid'') \<or> \<not> is_string (get v ''queryHash'')
        then Inl (Err ''verified retrieval provenance is required'')
      else if elems (get v ''selected'') = [] then Inl (Err ''verified retrieval selection is required'')
      else rbind (digest p v) (\<lambda>d. rbind (map_result evidence_commitment (elems (get v ''selected''))) (\<lambda>cs.
        createClaim p i (JObj [(''domain'', domain), (''statement'', statement), (''subject'', subject),
          (''basis'', JObj [(''kind'', JStr ''distributed-context''), (''rootCid'', get v ''rootCid''), (''queryHash'', get v ''queryHash''),
             (''provenanceDigest'', JStr d), (''evidenceCommitments'', JArr cs)]),
          (''qualifiers'', qualifiers)]) createdAt)))"

section \<open>Attestations\<close>

text \<open>The arguments of \<^verbatim>\<open>createAttestation\<close> besides the claim are members of one object.\<close>

definition attestation_body ::
  "platform \<Rightarrow> jsval \<Rightarrow> jsval \<Rightarrow> string \<Rightarrow> jsval \<Rightarrow> jsval \<Rightarrow> jsval \<Rightarrow> jsval \<Rightarrow> jsval result" where
  "attestation_body p claimId verdict domain meth evidence lineage rationaleDigest =
     rbind (normalizeText p meth ''attestation method'' 256) (\<lambda>m.
     rbind (normalizeEvidence p evidence) (\<lambda>ev.
     rbind (normalizeLineage lineage) (\<lambda>li.
     Inr (JObj [(''protocol'', JStr ATTEST_PROTOCOL), (''version'', JNum 1), (''claimId'', claimId), (''verdict'', verdict),
       (''domain'', JStr domain), (''method'', JStr m), (''evidence'', ev), (''lineage'', li),
       (''rationaleDigest'', trimmed_or_null rationaleDigest)]))))"

definition attestation_id :: "platform \<Rightarrow> jsval \<Rightarrow> jsval \<Rightarrow> string result" where
  "attestation_id p body attester = (case body of
       JObj kvs \<Rightarrow> rbind (digest p (JObj (kvs @ [(''attesterNodeId'', attester)]))) (\<lambda>d. Inr (''truyn:attest:'' @ drop 7 d))
     | _ \<Rightarrow> Inl (TypeError ''not an object''))"

definition attestation_signed :: "jsval \<Rightarrow> jsval \<Rightarrow> jsval \<Rightarrow> jsval \<Rightarrow> entries" where
  "attestation_signed aid body attester createdAt =
     [(''attestationId'', aid), (''body'', body), (''attesterNodeId'', attester), (''createdAt'', createdAt)]"

definition createAttestation :: "platform \<Rightarrow> identity \<Rightarrow> jsval \<Rightarrow> jsval \<Rightarrow> jsval \<Rightarrow> jsval \<Rightarrow> jsval \<Rightarrow> jsval \<Rightarrow> jsval \<Rightarrow> jsval result" where
  "createAttestation p i claim verdict evidence lineage meth rationaleDigest createdAt =
     rbind (require_identity p ''attester identity is required'' ''attester identity key mismatch'' i) (\<lambda>_.
     (case verifyClaim p claim of Inl r \<Rightarrow> Inl (Err (''cannot attest invalid claim: '' @ r))
      | Inr _ \<Rightarrow>
        if verdict \<notin> set (map JStr ATTEST_VERDICTS) then Inl (Err ''attestation verdict must be support, contradict or uncertain'')
        else rbind (attestation_body p (get claim ''claimId'') verdict (str_of (get (get claim ''body'') ''domain'')) meth evidence lineage rationaleDigest) (\<lambda>body.
          rbind (attestation_id p body (nodeId i)) (\<lambda>aid.
          let signed = attestation_signed (JStr aid) body (nodeId i) createdAt in
          rbind (signValue p (JObj signed) (privateKeyPem i)) (\<lambda>s.
            Inr (JObj (signed @ [(''publicKey'', publicKeyPem i), (''signature'', JStr s)])))))))"

definition normalized_attestation_body :: "platform \<Rightarrow> jsval \<Rightarrow> jsval result" where
  "normalized_attestation_body p b =
     rbind (normalizeText p (get b ''domain'') ''claim domain'' 256) (\<lambda>d.
     attestation_body p (get b ''claimId'') (get b ''verdict'') (to_lower d) (get b ''method'') (get b ''evidence'') (get b ''lineage'')
       (get b ''rationaleDigest''))"

text \<open>The expected claim is a text; the empty text stands for none.\<close>

definition verifyAttestation :: "platform \<Rightarrow> string \<Rightarrow> jsval \<Rightarrow> jsval verdict" where
  "verifyAttestation p expectedClaimId a =
     (let b = get a ''body'' in
      if \<exists>k\<in>set [''attestationId'', ''body'', ''attesterNodeId'', ''createdAt'', ''publicKey'', ''signature'']. \<not> truthy (oget a k)
        then Inl ''attestation_missing_required_field''
      else if expectedClaimId \<noteq> [] \<and> get b ''claimId'' \<noteq> JStr expectedClaimId then Inl ''attestation_claim_mismatch''
      else if get b ''verdict'' \<notin> set (map JStr ATTEST_VERDICTS) then Inl ''attestation_verdict_invalid''
      else (case nodeIdFromPublicKey p (get a ''publicKey'') of Inl x \<Rightarrow> Inl (message x)
      | Inr n \<Rightarrow> if JStr n \<noteq> get a ''attesterNodeId'' then Inl ''attestation_attester_key_mismatch''
      else (case normalized_attestation_body p b of Inl x \<Rightarrow> Inl (message x)
      | Inr nb \<Rightarrow>
         (case (canonicalize p nb, canonicalize p b) of
            (Inl x, _) \<Rightarrow> Inl (message x) | (_, Inl x) \<Rightarrow> Inl (message x)
          | (Inr s, Inr t) \<Rightarrow> if s \<noteq> t then Inl ''attestation_body_not_canonical''
      else (case attestation_id p nb (get a ''attesterNodeId'') of Inl x \<Rightarrow> Inl (message x)
      | Inr expected \<Rightarrow> if JStr expected \<noteq> get a ''attestationId'' then Inl ''attestation_content_id_mismatch''
      else (case verifyValue p (JObj (attestation_signed (get a ''attestationId'') b (get a ''attesterNodeId'') (get a ''createdAt'')))
               (get a ''signature'') (get a ''publicKey'') of Inl x \<Rightarrow> Inl (message x)
      | Inr ok \<Rightarrow> if ok then Inr (get a ''attestationId'') else Inl ''attestation_signature_invalid''))))))"

definition claimDigest :: "platform \<Rightarrow> jsval \<Rightarrow> string result" where
  "claimDigest p c = digest p (JObj [(''claimId'', oget c ''claimId''), (''body'', oget c ''body'')])"

section \<open>Normal forms are stable\<close>

text \<open>No white space but single spaces between other characters.\<close>

fun spaced :: "bool \<Rightarrow> string \<Rightarrow> bool" where
  "spaced w [] = True"
| "spaced w (c # cs) = (if js_white c then \<not> w \<and> c = CHR '' '' \<and> spaced True cs else spaced False cs)"

lemma spaced_collapse: "spaced w (collapse w s)"
  by (induction s arbitrary: w) (auto simp: js_white_def)

lemma collapse_spaced: "spaced w s \<Longrightarrow> collapse w s = s"
  by (induction s arbitrary: w) (auto split: if_splits)

lemma spaced_weaken: "spaced True s \<Longrightarrow> spaced False s"
  by (cases s) (auto split: if_splits)

lemma spaced_dropWhile: "spaced w s \<Longrightarrow> spaced False (dropWhile js_white s)"
  by (induction s arbitrary: w) (auto intro: spaced_weaken split: if_splits)

lemma spaced_prefix: "spaced w (s @ t) \<Longrightarrow> spaced w s"
  by (induction s arbitrary: w) (auto split: if_splits)

lemma trim_prefix: "\<exists>t. dropWhile js_white s = trim s @ t"
proof -
  let ?d = "dropWhile js_white s"
  have "?d = rev (dropWhile js_white (rev ?d)) @ rev (takeWhile js_white (rev ?d))"
    by (metis rev_append rev_rev_ident takeWhile_dropWhile_id)
  then show ?thesis by (auto simp: trim_def)
qed

lemma spaced_trim: "spaced w s \<Longrightarrow> spaced False (trim s)"
  using spaced_dropWhile spaced_prefix trim_prefix by metis

lemma dropWhile_idem: "dropWhile P (dropWhile P xs) = dropWhile P xs"
  by (induction xs) auto

lemma trim_idem [simp]: "trim (trim s) = trim s"
proof -
  let ?d = "dropWhile js_white s" and ?t = "trim s"
  have "dropWhile js_white ?t = ?t"
  proof (cases ?t)
    case (Cons c cs)
    then obtain u where "?d = c # u" using trim_prefix[of s] by auto
    then have "\<not> js_white c" using hd_dropWhile[of js_white s] by (metis list.distinct(1) list.sel(1))
    with Cons show ?thesis by simp
  qed simp
  moreover have "rev (dropWhile js_white (rev ?t)) = ?t" by (simp add: trim_def dropWhile_idem)
  ultimately show ?thesis by (simp only: trim_def[of ?t])
qed

text \<open>
  What the program relies on of NFKC: it does not make a text blank, and a text that was normalised
  and then stripped of white space, or lower-cased after that, is in normal form.
\<close>

definition nfkc_law :: "platform \<Rightarrow> bool" where
  "nfkc_law p \<longleftrightarrow> (\<forall>s. nfkc p (normal_text p s) = normal_text p s \<and> nfkc p (to_lower (normal_text p s)) = to_lower (normal_text p s) \<and>
     (trim s \<noteq> [] \<longrightarrow> normal_text p s \<noteq> []))"

lemma normal_text_trim: "trim (normal_text p s) = normal_text p s"
  by (simp add: normal_text_def)

lemma normal_text_spaced: "spaced False (normal_text p s)"
  by (simp add: normal_text_def spaced_trim[OF spaced_collapse])

lemma normal_text_idem: "nfkc_law p \<Longrightarrow> normal_text p (normal_text p s) = normal_text p s"
  using normal_text_trim[of p s] collapse_spaced[OF normal_text_spaced[of p s]]
  by (simp add: nfkc_law_def normal_text_def[of p "normal_text p s"])

lemma white_lower [simp]: "js_white (lower_char c) = js_white c"
proof -
  have "(of_char (lower_char c) :: nat) = (let n = (of_char c :: nat) in if 65 \<le> n \<and> n \<le> 90 \<or> 192 \<le> n \<and> n \<le> 222 \<and> n \<noteq> 215 then n + 32 else n)"
    by (auto simp: lower_char_def Let_def)
  moreover have "js_white d \<longleftrightarrow> (of_char d :: nat) \<in> {9, 10, 11, 12, 13, 32, 160}" for d
  proof -
    have "(of_char d :: nat) = n \<longleftrightarrow> d = char_of n" if "n < 256" for n using that by auto
    then show ?thesis by (simp add: js_white_def) (simp add: char_of_def bit_0)
  qed
  ultimately show ?thesis by (auto simp: Let_def split: if_splits)
qed

lemma spaced_lower: "spaced w s \<Longrightarrow> spaced w (to_lower s)"
proof (induction s arbitrary: w)
  case (Cons c s)
  have "lower_char (CHR '' '') = CHR '' ''" by (simp add: lower_char_def)
  with Cons show ?case by (auto simp: to_lower_def split: if_splits)
qed (simp add: to_lower_def)

lemma dropWhile_lower: "dropWhile js_white (to_lower s) = to_lower (dropWhile js_white s)"
  by (simp add: to_lower_def dropWhile_map comp_def)

lemma trim_lower: "trim (to_lower s) = to_lower (trim s)"
proof -
  have rev: "rev (to_lower s) = to_lower (rev s)" for s by (simp add: to_lower_def rev_map)
  show ?thesis unfolding trim_def by (simp only: dropWhile_lower rev)
qed

lemma to_lower_idem [simp]: "to_lower (to_lower s) = to_lower s"
proof -
  have "lower_char (lower_char c) = lower_char c" for c
  proof -
    have "(of_char (lower_char c) :: nat) = (let n = (of_char c :: nat) in if 65 \<le> n \<and> n \<le> 90 \<or> 192 \<le> n \<and> n \<le> 222 \<and> n \<noteq> 215 then n + 32 else n)"
      by (auto simp: lower_char_def Let_def)
    then show ?thesis by (auto simp: lower_char_def[of "lower_char c"] Let_def split: if_splits)
  qed
  then show ?thesis by (simp add: to_lower_def comp_def)
qed

lemma normal_text_lower: "nfkc_law p \<Longrightarrow> normal_text p (to_lower (normal_text p s)) = to_lower (normal_text p s)"
  using collapse_spaced[OF spaced_lower[OF normal_text_spaced[of p s]]] normal_text_trim[of p s]
  by (simp add: nfkc_law_def normal_text_def[of p "to_lower (normal_text p s)"] trim_lower)

lemma normalizeText_again:
  assumes "nfkc_law p" "normalizeText p v l m = Inr t"
  shows "normalizeText p (JStr t) l' m = Inr t" "normalizeText p (JStr (to_lower t)) l' m = Inr (to_lower t)" "t \<noteq> []"
proof -
  from assms(2) have t: "t = normal_text p (str_of v)" "length t \<le> m" "nonblank v"
    by (auto simp: normalizeText_def split: if_splits)
  then have "trim (str_of v) \<noteq> []" by (cases v) (auto simp: nonblank_def)
  then show ne: "t \<noteq> []" using assms(1) t(1) by (simp add: nfkc_law_def)
  have low: "to_lower t \<noteq> []" using ne by (simp add: to_lower_def)
  show "normalizeText p (JStr t) l' m = Inr t"
    using t ne normal_text_trim[of p "str_of v"] normal_text_idem[OF assms(1)] by (simp add: normalizeText_def nonblank_def)
  show "normalizeText p (JStr (to_lower t)) l' m = Inr (to_lower t)"
    using t low normal_text_trim[of p "str_of v"] normal_text_lower[OF assms(1)]
    by (simp add: normalizeText_def nonblank_def trim_lower) (simp add: to_lower_def)
qed

lemma js_sort_sorted: "sorted_wrt (\<lambda>a b. cmp a b \<le> 0) xs \<Longrightarrow> js_sort cmp xs = xs"
proof (induction xs)
  case (Cons x xs)
  then have "js_sort cmp (x # xs) = sort_insert cmp x xs" by (simp add: js_sort_def)
  with Cons.prems show ?case by (cases xs) auto
qed (simp add: js_sort_def)

lemma string_items_texts: "\<forall>x\<in>set xs. trim x = x \<and> x \<noteq> [] \<Longrightarrow> string_items (texts xs) = xs"
  by (induction xs) (auto simp: string_items_def)

lemma normalizeStringList_again: "normalizeStringList (texts (normalizeStringList v m)) m = normalizeStringList v m"
proof -
  let ?xs = "normalizeStringList v m"
  have mem: "x \<in> set ?xs \<Longrightarrow> x \<in> set (string_items v)" for x
    by (metis in_set_takeD normalizeStringList_def set_js_sort unique_set)
  have "\<forall>x\<in>set (string_items v). trim x = x \<and> x \<noteq> []" by (auto simp: string_items_def)
  with mem have "string_items (texts ?xs) = ?xs" by (intro string_items_texts) blast
  moreover have "distinct ?xs" "sorted_wrt (\<lambda>a b. cmp_ascii a b \<le> 0) ?xs"
    using sorted_js_sort[OF consistent_cmp_ascii] by (auto simp: normalizeStringList_def sorted_wrt_take simp del: cmp_ascii_le)
  ultimately show ?thesis
    by (simp add: normalizeStringList_def[of "texts ?xs"] unique_id js_sort_sorted del: cmp_ascii_le) (simp add: normalizeStringList_def)
qed

lemma trimmed_or_null_again [simp]: "trimmed_or_null (trimmed_or_null v) = trimmed_or_null v"
  by (auto simp: trimmed_or_null_def nonblank_def split: jsval.splits)

lemma normalize_evidence_item_again:
  assumes "nfkc_law p" "normalize_evidence_item p item = Inr it"
  shows "normalize_evidence_item p it = Inr it"
proof -
  from assms(2) obtain kd src v where
    kd: "normalizeText p v ''evidence kind'' 80 = Inr kd" "normalizeText p (get item ''sourceId'') ''evidence sourceId'' 512 = Inr src" and
    it: "it = JObj [(''kind'', JStr kd), (''sourceId'', JStr src), (''contentDigest'', trimmed_or_null (get item ''contentDigest'')),
          (''parentSourceIds'', texts (normalizeStringList (get item ''parentSourceIds'') 32))]"
    by (auto simp: normalize_evidence_item_def res_simps)
  then show ?thesis
    using normalizeText_again[OF assms(1) kd(1)] normalizeText_again[OF assms(1) kd(2)]
    by (simp add: normalize_evidence_item_def normalizeStringList_again)
qed

lemma map_result_length: "map_result f xs = Inr ys \<Longrightarrow> length ys = length xs"
  by (induction xs arbitrary: ys) (auto simp: res_simps)

lemma map_result_again:
  "(\<And>x y. f x = Inr y \<Longrightarrow> f y = Inr y) \<Longrightarrow> map_result f xs = Inr ys \<Longrightarrow> map_result f ys = Inr ys"
  by (induction xs arbitrary: ys) (auto simp: res_simps)

lemma normalizeEvidence_again:
  assumes "nfkc_law p" "normalizeEvidence p e = Inr e'"
  shows "normalizeEvidence p e' = Inr e'"
proof (cases "is_array e")
  case False
  with assms(2) show ?thesis by (auto simp: normalizeEvidence_def)
next
  case True
  with assms(2) obtain xs where xs: "map_result (normalize_evidence_item p) (elems e) = Inr xs" "e' = JArr xs" "length (elems e) \<le> 64"
    by (auto simp: normalizeEvidence_def res_simps split: if_splits)
  have "map_result (normalize_evidence_item p) xs = Inr xs"
    by (rule map_result_again[OF _ xs(1)]) (rule normalize_evidence_item_again[OF assms(1)])
  with xs map_result_length[OF xs(1)] show ?thesis by (simp add: normalizeEvidence_def)
qed

lemma normalizeLineage_again: "normalizeLineage l = Inr l' \<Longrightarrow> normalizeLineage l' = Inr l'"
  by (auto simp: normalizeLineage_def normalizeStringList_again split: if_splits)

lemma object_or_again [simp]: "object_or JNull (object_or JNull v) = object_or JNull v" "object_or (JObj []) (object_or (JObj []) v) = object_or (JObj []) v"
  by (auto simp: object_or_def)

lemma claim_body_again:
  assumes "nfkc_law p" "claim_body p a = Inr b"
  shows "claim_body p b = Inr b"
proof -
  from assms(2) obtain d st sub where
    d: "normalizeText p (get a ''domain'') ''claim domain'' 256 = Inr d" and
    st: "normalizeText p (get a ''statement'') ''claim statement'' 16384 = Inr st" and
    sub: "(if nullish (get a ''subject'') then Inr JNull
            else rbind (normalizeText p (get a ''subject'') ''claim subject'' 2048) (\<lambda>s. Inr (JStr s))) = Inr sub" and
    b: "b = JObj [(''protocol'', JStr CLAIM_PROTOCOL), (''version'', JNum 1), (''domain'', JStr (to_lower d)),
       (''statement'', JStr st), (''subject'', sub), (''basis'', object_or JNull (get a ''basis'')),
       (''qualifiers'', object_or (JObj []) (get a ''qualifiers''))]"
    by (auto simp: claim_body_def res_simps)
  have "(if nullish sub then Inr JNull else rbind (normalizeText p sub ''claim subject'' 2048) (\<lambda>s. Inr (JStr s))) = Inr sub"
    using sub normalizeText_again(1)[OF assms(1)] by (auto simp: res_simps split: if_splits)
  moreover have "get b ''subject'' = sub" by (simp add: b)
  ultimately show ?thesis
    using normalizeText_again[OF assms(1) d] normalizeText_again[OF assms(1) st]
    unfolding claim_body_def by (simp only: \<open>get b ''subject'' = sub\<close>) (simp add: b)
qed

section \<open>What is created verifies\<close>

lemma require_identity_ok:
  assumes "require_identity p m m' i = Inr u"
  obtains n where "nodeIdFromPublicKey p (publicKeyPem i) = Inr n" "nodeId i = JStr n" "n \<noteq> []" "truthy (publicKeyPem i)"
  using assms by (auto simp: require_identity_def res_simps nodeIdFromPublicKey_def split: if_splits)

lemma signed_nonempty:
  assumes "key_pair p sk pk" "signValue p v sk = Inr s"
  shows "s \<noteq> []" "verifyValue p v (JStr s) pk = Inr True"
proof -
  obtain bs where "length bs = 64" "s = b64_text bs" and v: "verifyValue p v (JStr s) pk = Inr True"
    using signValue_verifies[OF assms] by metis
  then show "s \<noteq> []" by (cases bs rule: b64_text.cases) auto
  show "verifyValue p v (JStr s) pk = Inr True" by (rule v)
qed

lemma createClaim_verifies:
  assumes law: "nfkc_law p" and keys: "key_pair p (privateKeyPem i) (publicKeyPem i)" and at: "truthy createdAt"
    and c: "createClaim p i a createdAt = Inr c"
  shows "verifyClaim p c = Inr (get c ''claimId'')" "claim_body p a = Inr (get c ''body'')"
proof -
  from c obtain cid body s where
    ri: "require_identity p ''claim issuer identity is required'' ''claim issuer identity key mismatch'' i = Inr ()" and
    cid: "claimContentId p a = Inr (cid, body)" and
    s: "signValue p (JObj (claim_signed (JStr cid) body (nodeId i) createdAt)) (privateKeyPem i) = Inr s" and
    cc: "c = JObj (claim_signed (JStr cid) body (nodeId i) createdAt @ [(''publicKey'', publicKeyPem i), (''signature'', JStr s)])"
    by (auto simp: createClaim_def res_simps Let_def)
  obtain n where n: "nodeIdFromPublicKey p (publicKeyPem i) = Inr n" "nodeId i = JStr n" "n \<noteq> []" "truthy (publicKeyPem i)"
    by (rule require_identity_ok[OF ri])
  have cb: "claim_body p a = Inr body" "cid \<noteq> []" using cid by (auto simp: claimContentId_def res_simps)
  have body: "claim_body p a = Inr body" "claim_body p body = Inr body" "truthy body" "cid \<noteq> []"
    using cb claim_body_again[OF law cb(1)] by (auto simp: claim_body_def[of p a] res_simps)
  then have again: "claimContentId p body = Inr (cid, body)" using cid by (simp add: claimContentId_def)
  obtain t where t: "canonicalize p body = Inr t" using cid by (auto simp: claimContentId_def digest_def res_simps)
  have f: "get c ''claimId'' = JStr cid" "get c ''body'' = body" "get c ''issuedBy'' = nodeId i" "get c ''createdAt'' = createdAt"
    "get c ''publicKey'' = publicKeyPem i" "get c ''signature'' = JStr s" "oget c k = get c k" for k
    by (simp_all add: cc claim_signed_def oget_def)
  show "verifyClaim p c = Inr (get c ''claimId'')"
    using n at body(3,4) signed_nonempty[OF keys s] by (simp add: verifyClaim_def f again t)
  show "claim_body p a = Inr (get c ''body'')" by (simp add: f body)
qed

lemma attestation_body_again:
  assumes law: "nfkc_law p" and b: "attestation_body p cid v (to_lower d) m ev li rd = Inr b"
    and d: "normalizeText p (JStr (to_lower d)) ''claim domain'' 256 = Inr (to_lower d)"
  shows "normalized_attestation_body p b = Inr b" "get b ''claimId'' = cid" "get b ''verdict'' = v" "truthy b"
proof -
  from b obtain mt e l where mt: "normalizeText p m ''attestation method'' 256 = Inr mt" and e: "normalizeEvidence p ev = Inr e" and
    l: "normalizeLineage li = Inr l" and
    bb: "b = JObj [(''protocol'', JStr ATTEST_PROTOCOL), (''version'', JNum 1), (''claimId'', cid), (''verdict'', v),
       (''domain'', JStr (to_lower d)), (''method'', JStr mt), (''evidence'', e), (''lineage'', l), (''rationaleDigest'', trimmed_or_null rd)]"
    by (auto simp: attestation_body_def res_simps)
  show "normalized_attestation_body p b = Inr b"
    using d normalizeText_again[OF law mt] normalizeEvidence_again[OF law e] normalizeLineage_again[OF l]
    by (simp add: normalized_attestation_body_def attestation_body_def bb)
  show "get b ''claimId'' = cid" "get b ''verdict'' = v" "truthy b" by (simp_all add: bb)
qed

text \<open>The domain of a verified claim is in normal form.\<close>

lemma verified_claim_domain:
  assumes law: "nfkc_law p" "number_texts p" and v: "verifyClaim p c = Inr cid" and dn: "distinct_names (get c ''body'')"
  obtains d where "get (get c ''body'') ''domain'' = JStr (to_lower d)" "normalizeText p (JStr (to_lower d)) ''claim domain'' 256 = Inr (to_lower d)"
    "is_string cid" "cid = get c ''claimId''" "truthy cid"
proof -
  let ?b = "get c ''body''"
  from v obtain e eb t where e: "claimContentId p ?b = Inr (e, eb)" "canonicalize p eb = Inr t" "canonicalize p ?b = Inr t"
    "get c ''claimId'' = JStr e" "cid = get c ''claimId''"
    unfolding verifyClaim_def by (auto split: if_splits sum.splits prod.splits)
  then have "normalize ?b = normalize eb" using canonicalize_inj[OF law(2)] by metis
  moreover from e(1) obtain d st sub where d: "normalizeText p (get ?b ''domain'') ''claim domain'' 256 = Inr d"
    and eb: "eb = JObj [(''protocol'', JStr CLAIM_PROTOCOL), (''version'', JNum 1), (''domain'', JStr (to_lower d)),
       (''statement'', JStr st), (''subject'', sub), (''basis'', object_or JNull (get ?b ''basis'')),
       (''qualifiers'', object_or (JObj []) (get ?b ''qualifiers''))]"
    by (auto simp: claimContentId_def claim_body_def res_simps)
  have "get (normalize eb) ''domain'' = JStr (to_lower d)" unfolding eb by (subst get_normalize_top) simp_all
  ultimately have "normalize (get ?b ''domain'') = JStr (to_lower d)" using get_normalize[OF dn] by metis
  moreover have "e \<noteq> []" using e(1) by (auto simp: claimContentId_def res_simps)
  ultimately show thesis using that[of d] normalizeText_again(2)[OF law(1) d] e(4,5) by simp
qed

lemma is_string_text: "is_string v \<Longrightarrow> v = JStr (str_of v)"
  by (cases v) auto

lemma createAttestation_verifies:
  assumes law: "nfkc_law p" "number_texts p" and keys: "key_pair p (privateKeyPem i) (publicKeyPem i)" and at: "truthy createdAt"
    and dn: "distinct_names (get claim ''body'')"
    and a: "createAttestation p i claim v ev li m rd createdAt = Inr a"
  shows "verifyAttestation p (str_of (get claim ''claimId'')) a = Inr (get a ''attestationId'')"
    "get (get a ''body'') ''claimId'' = get claim ''claimId''" "get (get a ''body'') ''verdict'' = v"
proof -
  from a obtain cid body aid s where
    ri: "require_identity p ''attester identity is required'' ''attester identity key mismatch'' i = Inr ()" and
    vc: "verifyClaim p claim = Inr cid" and vv: "v \<in> set (map JStr ATTEST_VERDICTS)" and
    body: "attestation_body p (get claim ''claimId'') v (str_of (get (get claim ''body'') ''domain'')) m ev li rd = Inr body" and
    aid: "attestation_id p body (nodeId i) = Inr aid" and
    s: "signValue p (JObj (attestation_signed (JStr aid) body (nodeId i) createdAt)) (privateKeyPem i) = Inr s" and
    aa: "a = JObj (attestation_signed (JStr aid) body (nodeId i) createdAt @ [(''publicKey'', publicKeyPem i), (''signature'', JStr s)])"
    by (auto simp: createAttestation_def res_simps Let_def split: sum.splits)
  obtain n where n: "nodeIdFromPublicKey p (publicKeyPem i) = Inr n" "nodeId i = JStr n" "n \<noteq> []" "truthy (publicKeyPem i)"
    by (rule require_identity_ok[OF ri])
  obtain d where d: "get (get claim ''body'') ''domain'' = JStr (to_lower d)" "normalizeText p (JStr (to_lower d)) ''claim domain'' 256 = Inr (to_lower d)"
    "is_string cid" "cid = get claim ''claimId''" "truthy cid"
    by (rule verified_claim_domain[OF law vc dn])
  then have cid: "get claim ''claimId'' = JStr (str_of (get claim ''claimId''))" using is_string_text by metis
  have body': "attestation_body p (get claim ''claimId'') v (to_lower d) m ev li rd = Inr body" using body d(1) by simp
  note b = attestation_body_again[OF law(1) body' d(2)]
  have "\<exists>t. canonicalize p body = Inr t"
  proof -
    have "\<exists>t. canonicalize p (JObj (attestation_signed (JStr aid) body (nodeId i) createdAt)) = Inr t"
      using s by (auto simp: signValue_def res_simps)
    then have "assertCanonicalJsonValue (JObj (attestation_signed (JStr aid) body (nodeId i) createdAt)) = Inr ()"
      using canonicalize_total by blast
    then have "assertCanonicalJsonValue body = Inr ()" by (auto simp: attestation_signed_def res_simps)
    then show ?thesis using canonicalize_total by blast
  qed
  then obtain t where t: "canonicalize p body = Inr t" by blast
  have f: "get a ''attestationId'' = JStr aid" "get a ''body'' = body" "get a ''attesterNodeId'' = nodeId i" "get a ''createdAt'' = createdAt"
    "get a ''publicKey'' = publicKeyPem i" "get a ''signature'' = JStr s" "oget a k = get a k" for k
    by (simp_all add: aa attestation_signed_def oget_def)
  have "aid \<noteq> []" using aid by (auto simp: attestation_id_def res_simps split: jsval.splits)
  then show "verifyAttestation p (str_of (get claim ''claimId'')) a = Inr (get a ''attestationId'')"
    using n at b aid vv signed_nonempty[OF keys s] cid by (auto simp: verifyAttestation_def f t)
  show "get (get a ''body'') ''claimId'' = get claim ''claimId''" "get (get a ''body'') ''verdict'' = v" using b f by simp_all
qed

section \<open>Identifiers fix content\<close>

lemma content_id_hash: "digest p v = Inr d \<Longrightarrow> \<exists>t. canonicalize p v = Inr t \<and> drop 7 d = sha256 p t"
  by (auto simp: digest_def res_simps)

lemma verifyAttestation_elim:
  assumes "verifyAttestation p e a = Inr h"
  obtains nb t expected n where "normalized_attestation_body p (get a ''body'') = Inr nb" "canonicalize p nb = Inr t" "canonicalize p (get a ''body'') = Inr t"
    "attestation_id p nb (get a ''attesterNodeId'') = Inr expected" "JStr expected = get a ''attestationId''" "h = get a ''attestationId''"
    "nodeIdFromPublicKey p (get a ''publicKey'') = Inr n" "JStr n = get a ''attesterNodeId''"
    "verifyValue p (JObj (attestation_signed (get a ''attestationId'') (get a ''body'') (get a ''attesterNodeId'') (get a ''createdAt'')))
       (get a ''signature'') (get a ''publicKey'') = Inr True"
    "e \<noteq> [] \<Longrightarrow> get (get a ''body'') ''claimId'' = JStr e"
proof -
  note v = assms[unfolded verifyAttestation_def Let_def]
  from v obtain n where n: "nodeIdFromPublicKey p (get a ''publicKey'') = Inr n" "JStr n = get a ''attesterNodeId''"
    by (auto split: if_split_asm sum.split_asm)
  from v n obtain nb where nb: "normalized_attestation_body p (get a ''body'') = Inr nb"
    by (auto split: if_split_asm sum.split_asm)
  from v n nb obtain t where t: "canonicalize p nb = Inr t" "canonicalize p (get a ''body'') = Inr t"
    by (auto split: if_split_asm sum.split_asm)
  from v n nb t obtain ex where ex: "attestation_id p nb (get a ''attesterNodeId'') = Inr ex" "JStr ex = get a ''attestationId''"
    by (auto split: if_split_asm sum.split_asm)
  from v n nb t ex have "verifyValue p (JObj (attestation_signed (get a ''attestationId'') (get a ''body'') (get a ''attesterNodeId'') (get a ''createdAt'')))
       (get a ''signature'') (get a ''publicKey'') = Inr True" "h = get a ''attestationId''" "e \<noteq> [] \<Longrightarrow> get (get a ''body'') ''claimId'' = JStr e"
    by (auto split: if_split_asm sum.split_asm)
  from that[OF nb t ex(1,2) this(2) n this(1,3)] show thesis .
qed

lemma attestation_body_shape:
  assumes "normalized_attestation_body p b = Inr nb"
  obtains v3 v4 v5 v6 v7 v8 v9 where "nb = JObj [(''protocol'', JStr ATTEST_PROTOCOL), (''version'', JNum 1), (''claimId'', v3), (''verdict'', v4),
    (''domain'', v5), (''method'', v6), (''evidence'', v7), (''lineage'', v8), (''rationaleDigest'', v9)]"
  using assms by (auto simp: normalized_attestation_body_def attestation_body_def res_simps)

lemma same_normal_members:
  assumes keys: "map fst kvs = map fst kvs'" "distinct (map fst kvs)"
    and g: "\<And>k. normalize (get (JObj kvs) k) = normalize (get (JObj kvs') k)"
  shows "normalize (JObj kvs) = normalize (JObj kvs')"
proof -
  have len: "length kvs = length kvs'" using keys(1) by (metis length_map)
  have "map (\<lambda>(k, v). (k, normalize v)) kvs = map (\<lambda>(k, v). (k, normalize v)) kvs'"
  proof (rule nth_equalityI)
    fix j assume "j < length (map (\<lambda>(k, v). (k, normalize v)) kvs)"
    then have j: "j < length kvs" "j < length kvs'" using len by simp_all
    have k: "fst (kvs ! j) = fst (kvs' ! j)" using keys(1) j by (metis nth_map)
    have "distinct (map fst kvs')" using keys by simp
    then have "map_of kvs (fst (kvs ! j)) = Some (snd (kvs ! j))" "map_of kvs' (fst (kvs ! j)) = Some (snd (kvs' ! j))"
      using j keys(2) k by (metis map_of_is_SomeI nth_mem prod.collapse)+
    with g[of "fst (kvs ! j)"] k j
    show "map (\<lambda>(k, v). (k, normalize v)) kvs ! j = map (\<lambda>(k, v). (k, normalize v)) kvs' ! j"
      by (simp add: case_prod_unfold)
  qed (simp add: len)
  then show ?thesis by (simp add: normalize_members_map)
qed

text \<open>
  An attestation identifier fixes who attested what. Two attestations that both verify and carry
  the same identifier have the same attester and the same body, up to the order of members: claim,
  verdict, domain, method, evidence and lineage. Assumed of the platform: digests do not collide.
\<close>

theorem attestation_id_binds:
  assumes laws: "digest_law p" "number_texts p"
    and v: "verifyAttestation p e a = Inr h" "verifyAttestation p e' a' = Inr h"
  shows "get a ''attesterNodeId'' = get a' ''attesterNodeId'' \<and> normalize (get a ''body'') = normalize (get a' ''body'')"
proof -
  obtain nb t x n where 1: "normalized_attestation_body p (get a ''body'') = Inr nb" "canonicalize p nb = Inr t" "canonicalize p (get a ''body'') = Inr t"
    "attestation_id p nb (get a ''attesterNodeId'') = Inr x" "JStr x = get a ''attestationId''" "h = get a ''attestationId''" "JStr n = get a ''attesterNodeId''"
    by (rule verifyAttestation_elim[OF v(1)])
  obtain nb' t' x' n' where 2: "normalized_attestation_body p (get a' ''body'') = Inr nb'" "canonicalize p nb' = Inr t'" "canonicalize p (get a' ''body'') = Inr t'"
    "attestation_id p nb' (get a' ''attesterNodeId'') = Inr x'" "JStr x' = get a' ''attestationId''" "h = get a' ''attestationId''" "JStr n' = get a' ''attesterNodeId''"
    by (rule verifyAttestation_elim[OF v(2)])
  have xx: "x = x'" using 1(5,6) 2(5,6) by (metis jsval.inject(4))
  obtain kvs where kvs: "nb = JObj kvs" "distinct (map fst (kvs @ [(''attesterNodeId'', JStr n)]))"
    "map fst kvs = [''protocol'', ''version'', ''claimId'', ''verdict'', ''domain'', ''method'', ''evidence'', ''lineage'', ''rationaleDigest'']"
    using 1(1) by (elim attestation_body_shape) auto
  obtain kvs' where kvs': "nb' = JObj kvs'" "distinct (map fst (kvs' @ [(''attesterNodeId'', JStr n')]))" "map fst kvs' = map fst kvs"
    using 2(1) kvs(3) by (elim attestation_body_shape) auto
  let ?w = "JObj (kvs @ [(''attesterNodeId'', JStr n)])" and ?w' = "JObj (kvs' @ [(''attesterNodeId'', JStr n')])"
  from 1(4,7) 2(4,7) kvs(1) kvs'(1) obtain u u' where u: "canonicalize p ?w = Inr u" "canonicalize p ?w' = Inr u'" "sha256 p u = sha256 p u'"
    using xx by (auto simp: attestation_id_def res_simps digest_def)
  then have "u = u'" using laws(1) by (auto simp: digest_law_def dest: injD)
  with u have eq: "normalize ?w = normalize ?w'" using canonicalize_inj[OF laws(2)] by blast
  have g: "normalize (get ?w k) = normalize (get ?w' k)" for k
    using get_normalize_top[OF kvs(2), of k] get_normalize_top[OF kvs'(2), of k] eq by simp
  have fresh: "''attesterNodeId'' \<notin> fst ` set kvs" "''attesterNodeId'' \<notin> fst ` set kvs'"
    using kvs(2) kvs'(2) by auto
  have at: "get (JObj (ks @ [(''attesterNodeId'', JStr m)])) k = (if k = ''attesterNodeId'' then JStr m else get (JObj ks) k)"
    if "''attesterNodeId'' \<notin> fst ` set ks" for ks m k
    using that by (induction ks) (auto split: if_splits)
  have "n = n'" using g[of "''attesterNodeId''"] fresh by (simp add: at del: get.simps)
  moreover have "normalize nb = normalize nb'"
    unfolding kvs(1) kvs'(1)
  proof (rule same_normal_members)
    show "map fst kvs = map fst kvs'" "distinct (map fst kvs)" using kvs(2) kvs'(3) by simp_all
    have none: "get (JObj ks) k = JUndef" if "k \<notin> fst ` set ks" for ks k
      using that by (simp add: map_of_eq_None_iff[THEN iffD2])
    show "normalize (get (JObj kvs) k) = normalize (get (JObj kvs') k)" for k
      using g[of k] fresh none by (cases "k = ''attesterNodeId''") (simp_all add: at del: get.simps)
  qed
  moreover have "normalize nb = normalize (get a ''body'')" "normalize nb' = normalize (get a' ''body'')"
    using canonicalize_inj[OF laws(2)] 1(2,3) 2(2,3) by blast+
  ultimately show ?thesis using 1(7) 2(7) by simp
qed

text \<open>
  What is created verifies. A claim made from any texts, and an attestation made of such a claim
  with any verdict, evidence and lineage the constructors accept, are accepted by their verifiers,
  the attestation for exactly this claim; the stored body is the normal form of what was given.
  Assumed of the platform: what a key signs verifies under its public key, and NFKC is stable under
  the program's own normalisation.
\<close>

theorem attestation_roundtrip:
  assumes law: "nfkc_law p" "number_texts p"
    and keys: "key_pair p (privateKeyPem i) (publicKeyPem i)" "key_pair p (privateKeyPem j) (publicKeyPem j)"
    and c: "createClaim p i a ca = Inr c" "truthy ca" "distinct_names (get c ''body'')"
    and b: "createAttestation p j c v ev li m rd ca2 = Inr b" "truthy ca2"
  shows "verifyClaim p c = Inr (get c ''claimId'') \<and> claim_body p a = Inr (get c ''body'') \<and>
    verifyAttestation p (str_of (get c ''claimId'')) b = Inr (get b ''attestationId'') \<and>
    get (get b ''body'') ''claimId'' = get c ''claimId'' \<and> get (get b ''body'') ''verdict'' = v"
  using createClaim_verifies[OF law(1) keys(1) c(2,1)] createAttestation_verifies[OF law keys(2) b(2) c(3) b(1)] by simp

section \<open>A concrete attestation\<close>

lemma spaced_blank: "trim s \<noteq> [] \<Longrightarrow> trim (collapse w s) \<noteq> []"
  unfolding trim_nonempty by (induction s arbitrary: w) auto

lemma sample_nfkc_law: "nfkc_law sample_platform"
  unfolding nfkc_law_def normal_text_def by (simp add: spaced_blank)

definition sample_issuer :: identity where
  "sample_issuer = \<lparr>nodeId = JStr ''truyn:node:4b'', publicKeyPem = JStr ''K'', privateKeyPem = JStr ''S''\<rparr>"

definition sample_claim_args :: jsval where
  "sample_claim_args = JObj [(''domain'', JStr ''Health''), (''statement'', JStr ''water  boils'')]"

lemma sample_issuer_ok: "require_identity sample_platform x y sample_issuer = Inr ()"
proof -
  have "nodeIdFromPublicKey sample_platform (publicKeyPem sample_issuer) = Inr ''truyn:node:4b''" by code_simp
  then show ?thesis by (simp add: require_identity_def sample_issuer_def)
qed

lemma sample_claim_exists:
  "\<exists>c. createClaim sample_platform sample_issuer sample_claim_args (JStr ''t'') = Inr c \<and> distinct_names (get c ''body'')"
proof -
  let ?b = "JObj [(''protocol'', JStr CLAIM_PROTOCOL), (''version'', JNum 1), (''domain'', JStr ''health''),
       (''statement'', JStr ''water boils''), (''subject'', JNull), (''basis'', JNull), (''qualifiers'', JObj [])]"
  have b: "claim_body sample_platform sample_claim_args = Inr ?b" by code_simp
  obtain t where "canonicalize sample_platform ?b = Inr t" using canonicalize_total[of ?b sample_platform] by auto
  then obtain cid where cid: "claimContentId sample_platform sample_claim_args = Inr (cid, ?b)"
    by (auto simp: claimContentId_def b digest_def)
  let ?s = "claim_signed (JStr cid) ?b (nodeId sample_issuer) (JStr ''t'')"
  have "assertCanonicalJsonValue (JObj ?s) = Inr ()" by (simp add: claim_signed_def sample_issuer_def)
  then obtain s where s: "signValue sample_platform (JObj ?s) (privateKeyPem sample_issuer) = Inr s"
    using signValue_total[OF sample_key_pair] by blast
  show ?thesis by (simp add: createClaim_def sample_issuer_ok cid s Let_def) (simp add: claim_signed_def)
qed

lemma sample_attestation_exists:
  assumes c: "verifyClaim sample_platform c = Inr cid" "get (get c ''body'') ''domain'' = JStr d" "is_string (get c ''claimId'')"
  shows "\<exists>b. createAttestation sample_platform sample_issuer c (JStr ''support'') (JArr []) (JObj []) (JStr ''review'') JNull (JStr ''t'') = Inr b"
proof -
  obtain i where i: "get c ''claimId'' = JStr i" using c(3) is_string_text by blast
  have m: "normalizeText sample_platform (JStr ''review'') ''attestation method'' 256 = Inr ''review''" by code_simp
  have l: "normalizeLineage (JObj []) = Inr (JObj [(''originIds'', JArr []), (''publisherIds'', JArr []), (''generatorIds'', JArr []), (''parentAttestationIds'', JArr [])])"
    by code_simp
  let ?b = "JObj [(''protocol'', JStr ATTEST_PROTOCOL), (''version'', JNum 1), (''claimId'', JStr i), (''verdict'', JStr ''support''),
       (''domain'', JStr d), (''method'', JStr ''review''), (''evidence'', JArr []),
       (''lineage'', JObj [(''originIds'', JArr []), (''publisherIds'', JArr []), (''generatorIds'', JArr []), (''parentAttestationIds'', JArr [])]),
       (''rationaleDigest'', JNull)]"
  have b: "attestation_body sample_platform (JStr i) (JStr ''support'') d (JStr ''review'') (JArr []) (JObj []) JNull = Inr ?b"
    by (simp add: attestation_body_def m l normalizeEvidence_def trimmed_or_null_def nonblank_def)
  obtain aid where aid: "attestation_id sample_platform ?b (nodeId sample_issuer) = Inr aid"
    using canonicalize_total[of _ sample_platform] by (fastforce simp: attestation_id_def digest_def sample_issuer_def res_simps)
  let ?s = "attestation_signed (JStr aid) ?b (nodeId sample_issuer) (JStr ''t'')"
  have "assertCanonicalJsonValue (JObj ?s) = Inr ()" by (simp add: attestation_signed_def sample_issuer_def)
  then obtain s where s: "signValue sample_platform (JObj ?s) (privateKeyPem sample_issuer) = Inr s"
    using signValue_total[OF sample_key_pair] by blast
  have "JStr ''support'' \<in> set (map JStr ATTEST_VERDICTS)" by (simp add: ATTEST_VERDICTS_def)
  then show ?thesis by (simp add: createAttestation_def sample_issuer_ok c i b aid s Let_def)
qed

theorem attestation_roundtrip_witness:
  "\<exists>c b. createClaim sample_platform sample_issuer sample_claim_args (JStr ''t'') = Inr c \<and>
     verifyAttestation sample_platform (str_of (get c ''claimId'')) b = Inr (get b ''attestationId'')"
proof -
  obtain c where c: "createClaim sample_platform sample_issuer sample_claim_args (JStr ''t'') = Inr c" "distinct_names (get c ''body'')"
    using sample_claim_exists by blast
  have v: "verifyClaim sample_platform c = Inr (get c ''claimId'')"
    by (rule createClaim_verifies(1)[OF sample_nfkc_law sample_key_pair _ c(1)]) simp
  obtain d where d: "get (get c ''body'') ''domain'' = JStr d" "is_string (get c ''claimId'')"
    using verified_claim_domain[OF sample_nfkc_law sample_number_texts v c(2)] by metis
  obtain b where b: "createAttestation sample_platform sample_issuer c (JStr ''support'') (JArr []) (JObj []) (JStr ''review'') JNull (JStr ''t'') = Inr b"
    using sample_attestation_exists[OF v d] by blast
  have "verifyAttestation sample_platform (str_of (get c ''claimId'')) b = Inr (get b ''attestationId'')"
    using attestation_roundtrip[OF sample_nfkc_law sample_number_texts sample_key_pair sample_key_pair c(1) _ c(2) b] by simp
  with c(1) show ?thesis by blast
qed

lemma sample_attestation:
  "\<exists>b. verifyAttestation sample_platform [] b = Inr (get b ''attestationId'')"
proof -
  obtain c where c: "createClaim sample_platform sample_issuer sample_claim_args (JStr ''t'') = Inr c" "distinct_names (get c ''body'')"
    using sample_claim_exists by blast
  have v: "verifyClaim sample_platform c = Inr (get c ''claimId'')"
    by (rule createClaim_verifies(1)[OF sample_nfkc_law sample_key_pair _ c(1)]) simp
  obtain d where d: "get (get c ''body'') ''domain'' = JStr d" "is_string (get c ''claimId'')"
    using verified_claim_domain[OF sample_nfkc_law sample_number_texts v c(2)] by metis
  obtain b where b: "createAttestation sample_platform sample_issuer c (JStr ''support'') (JArr []) (JObj []) (JStr ''review'') JNull (JStr ''t'') = Inr b"
    using sample_attestation_exists[OF v d] by blast
  have "verifyAttestation sample_platform (str_of (get c ''claimId'')) b = Inr (get b ''attestationId'')"
    by (rule createAttestation_verifies(1)[OF sample_nfkc_law sample_number_texts sample_key_pair _ c(2) b]) simp
  then have "verifyAttestation sample_platform [] b = Inr (get b ''attestationId'')"
    by (auto simp: verifyAttestation_def Let_def split: if_splits)
  then show ?thesis by blast
qed

theorem attestation_id_binds_witness:
  "\<exists>b. verifyAttestation sample_platform [] b = Inr (get b ''attestationId'') \<and> normalize (get b ''body'') = normalize (get b ''body'')"
  using sample_attestation attestation_id_binds[OF sample_digest_law sample_number_texts] by blast

end
