(* ===== verification/Provenance.thy ===== *)
theory Provenance
  imports Claims
begin

text \<open>
  The provenance analysis of \<^verbatim>\<open>core/provenance/index.js\<close>: a union-find with path halving, the grouping of
  attestations that share an origin, a publisher or a generator, and the provenance graph of a
  claim. Shown: every lookup in the union-find ends; two attestations are in one group exactly when
  a chain of shared lineage tokens connects them, or both have no lineage; the number of independent
  groups is the number of such classes.
\<close>

section \<open>Union-find\<close>

partial_function (option) uf_find :: "nat list \<Rightarrow> nat \<Rightarrow> (nat \<times> nat list) option" where
  "uf_find parent v = (if parent ! v = v then Some (v, parent)
     else let parent' = parent[v := parent ! (parent ! v)] in uf_find parent' (parent' ! v))"

declare uf_find.simps [code]

definition uf_new :: "nat \<Rightarrow> nat list" where
  "uf_new n = [0..<n]"

definition uf_union :: "nat \<Rightarrow> nat \<Rightarrow> nat list \<Rightarrow> nat list option" where
  "uf_union a b parent = (case uf_find parent a of None \<Rightarrow> None
     | Some (ra, p1) \<Rightarrow> (case uf_find p1 b of None \<Rightarrow> None
         | Some (rb, p2) \<Rightarrow> Some (if ra \<noteq> rb then p2[rb := ra] else p2)))"

subsection \<open>The forest and what it connects\<close>

definition edges :: "nat list \<Rightarrow> (nat \<times> nat) set" where
  "edges p = {(i, p ! i) | i. i < length p \<and> p ! i \<noteq> i}"

definition uf_ok :: "nat list \<Rightarrow> bool" where
  "uf_ok p \<longleftrightarrow> (\<forall>i<length p. p ! i < length p) \<and> acyclic (edges p)"

text \<open>The equivalence a relation generates.\<close>

definition eqcl :: "(nat \<times> nat) set \<Rightarrow> (nat \<times> nat) set" where
  "eqcl r = (r \<union> r\<inverse>)\<^sup>*"

lemma eqcl_refl [simp]: "(a, a) \<in> eqcl r"
  by (simp add: eqcl_def)

lemma eqcl_sym: "(a, b) \<in> eqcl r \<Longrightarrow> (b, a) \<in> eqcl r"
  unfolding eqcl_def by (metis converse_Un converse_converse rtrancl_converseI sup_commute)

lemma eqcl_trans: "(a, b) \<in> eqcl r \<Longrightarrow> (b, c) \<in> eqcl r \<Longrightarrow> (a, c) \<in> eqcl r"
  unfolding eqcl_def by (rule rtrancl_trans)

lemma eqcl_base: "(a, b) \<in> r \<Longrightarrow> (a, b) \<in> eqcl r"
  unfolding eqcl_def by blast

lemma eqcl_least:
  assumes "r \<subseteq> eqcl s"
  shows "eqcl r \<subseteq> eqcl s"
proof
  fix x assume "x \<in> eqcl r"
  then obtain a b where x: "x = (a, b)" and ab: "(a, b) \<in> (r \<union> r\<inverse>)\<^sup>*" unfolding eqcl_def by (cases x) auto
  from ab have "(a, b) \<in> eqcl s"
  proof (induction rule: rtrancl_induct)
    case (step y z)
    then have "(y, z) \<in> eqcl s" using assms eqcl_sym by blast
    with step.IH show ?case by (rule eqcl_trans)
  qed simp
  with x show "x \<in> eqcl s" by simp
qed

lemma eqcl_eq: "r \<subseteq> eqcl s \<Longrightarrow> s \<subseteq> eqcl r \<Longrightarrow> eqcl r = eqcl s"
  by (simp add: eqcl_least subset_antisym)

lemma edges_functional: "(a, b) \<in> edges p \<Longrightarrow> (a, c) \<in> edges p \<Longrightarrow> b = c"
  by (auto simp: edges_def)

lemma finite_edges: "finite (edges p)"
proof -
  have "edges p \<subseteq> (\<lambda>i. (i, p ! i)) ` {..<length p}" by (auto simp: edges_def)
  then show ?thesis using finite_surj by blast
qed

lemma root_no_edge: "p ! r = r \<Longrightarrow> (r, x) \<notin> edges p"
  by (auto simp: edges_def)

text \<open>Connected nodes reach the same roots, so a root is unique in its class.\<close>

lemma conn_roots:
  assumes "(a, b) \<in> eqcl (edges p)" "p ! r = r"
  shows "(a, r) \<in> (edges p)\<^sup>* \<longleftrightarrow> (b, r) \<in> (edges p)\<^sup>*"
proof -
  have edge: "(x, r) \<in> (edges p)\<^sup>* \<longleftrightarrow> (y, r) \<in> (edges p)\<^sup>*" if e: "(x, y) \<in> edges p" for x y
  proof
    assume "(x, r) \<in> (edges p)\<^sup>*"
    then show "(y, r) \<in> (edges p)\<^sup>*"
    proof (cases rule: converse_rtranclE)
      case base
      with e assms(2) show ?thesis by (auto simp: root_no_edge)
    next
      case (step z)
      with e edges_functional show ?thesis by blast
    qed
  next
    assume "(y, r) \<in> (edges p)\<^sup>*"
    with e show "(x, r) \<in> (edges p)\<^sup>*" by (rule converse_rtrancl_into_rtrancl)
  qed
  from assms(1) show ?thesis unfolding eqcl_def
    by (induction rule: rtrancl_induct) (use edge in blast)+
qed

lemma conn_root_unique:
  assumes "(a, b) \<in> eqcl (edges p)" "p ! a = a" "p ! b = b"
  shows "a = b"
proof -
  have "(a, b) \<in> (edges p)\<^sup>*" using conn_roots[OF assms(1,3)] by simp
  then show ?thesis using root_no_edge[OF assms(2)] by (metis converse_rtranclE)
qed

subsection \<open>Path halving\<close>

lemma halving:
  assumes ok: "uf_ok p" and v: "v < length p" "p ! v \<noteq> v"
  defines "p' \<equiv> p[v := p ! (p ! v)]"
  shows "uf_ok p'" "edges p' \<subseteq> (edges p)\<^sup>+" "eqcl (edges p') = eqcl (edges p)" "\<forall>i<length p. p' ! i = i \<longleftrightarrow> p ! i = i"
    "(v, p' ! v) \<in> (edges p)\<^sup>+"
proof -
  let ?u = "p ! v" and ?w = "p ! (p ! v)"
  have u: "?u < length p" and w: "?w < length p" using ok v by (auto simp: uf_ok_def)
  have vu: "(v, ?u) \<in> edges p" using v by (auto simp: edges_def)
  have uw: "?w = ?u \<or> (?u, ?w) \<in> edges p" using u by (auto simp: edges_def)
  have vw: "(v, ?w) \<in> (edges p)\<^sup>+" using vu uw by (metis r_into_trancl trancl_into_trancl)
  then have wv: "?w \<noteq> v" using ok by (auto simp: uf_ok_def acyclic_def)
  show sub: "edges p' \<subseteq> (edges p)\<^sup>+"
  proof
    fix x assume "x \<in> edges p'"
    then obtain i where i: "x = (i, p' ! i)" "i < length p" "p' ! i \<noteq> i" by (auto simp: edges_def p'_def)
    show "x \<in> (edges p)\<^sup>+"
    proof (cases "i = v")
      case True
      with i vw v show ?thesis by (simp add: p'_def)
    next
      case False
      with i have "x \<in> edges p" by (auto simp: p'_def edges_def)
      then show ?thesis by (cases x) (auto intro: r_into_trancl)
    qed
  qed
  have "acyclic ((edges p)\<^sup>+)" using ok by (simp add: uf_ok_def acyclic_def)
  then have "acyclic (edges p')" using sub by (rule acyclic_subset)
  then show "uf_ok p'" using ok w v(1) by (auto simp: uf_ok_def p'_def nth_list_update split: if_splits)
  show "\<forall>i<length p. p' ! i = i \<longleftrightarrow> p ! i = i" using v wv by (auto simp: p'_def nth_list_update)
  show "(v, p' ! v) \<in> (edges p)\<^sup>+" using vw v by (simp add: p'_def)
  show "eqcl (edges p') = eqcl (edges p)"
  proof (rule eqcl_eq)
    have "(edges p)\<^sup>+ \<subseteq> eqcl (edges p)"
      unfolding eqcl_def by (meson Un_upper1 dual_order.trans rtrancl_mono trancl_into_rtrancl subrelI subsetD)
    then show "edges p' \<subseteq> eqcl (edges p)" using sub by blast
    show "edges p \<subseteq> eqcl (edges p')"
    proof
      fix x assume "x \<in> edges p"
      then obtain i where i: "x = (i, p ! i)" "i < length p" "p ! i \<noteq> i" by (auto simp: edges_def)
      show "x \<in> eqcl (edges p')"
      proof (cases "i = v")
        case False
        with i have "x \<in> edges p'" by (auto simp: p'_def edges_def)
        then show ?thesis using eqcl_base by (cases x) blast
      next
        case True
        have "(v, ?w) \<in> edges p'" using v wv by (auto simp: p'_def edges_def)
        moreover have "?w = ?u \<or> (?u, ?w) \<in> edges p'" using u v by (auto simp: p'_def edges_def)
        ultimately have "(v, ?u) \<in> eqcl (edges p')" by (metis eqcl_base eqcl_refl eqcl_sym eqcl_trans)
        with i True show ?thesis by simp
      qed
    qed
  qed
qed

text \<open>Every lookup ends: the ancestors of the current node become fewer.\<close>

lemma uf_find_total:
  assumes "uf_ok p" "v < length p"
  shows "\<exists>r p'. uf_find p v = Some (r, p') \<and> uf_ok p' \<and> length p' = length p \<and> eqcl (edges p') = eqcl (edges p) \<and>
    (v, r) \<in> eqcl (edges p) \<and> r < length p \<and> p' ! r = r \<and> (\<forall>i<length p. p' ! i = i \<longleftrightarrow> p ! i = i)"
  using assms
proof (induction "card {x. (v, x) \<in> (edges p)\<^sup>+}" arbitrary: p v rule: less_induct)
  case less
  show ?case
  proof (cases "p ! v = v")
    case True
    then have "uf_find p v = Some (v, p)" by (subst uf_find.simps) simp
    with less.prems True show ?thesis by (intro exI[of _ v] exI[of _ p]) simp
  next
    case False
    let ?p = "p[v := p ! (p ! v)]" and ?w = "p ! (p ! v)"
    note h = halving[OF less.prems False]
    have pv: "?p ! v = ?w" using less.prems(2) by simp
    have w: "?w < length ?p" using less.prems by (simp add: uf_ok_def)
    let ?A = "\<lambda>p v. {x. (v, x) \<in> (edges p)\<^sup>+}"
    have "?A ?p ?w \<subset> ?A p v"
    proof
      have "(edges ?p)\<^sup>+ \<subseteq> (edges p)\<^sup>+" using h(2) by (metis trancl_id trancl_mono_subset trans_trancl)
      then show "?A ?p ?w \<subseteq> ?A p v" using h(5) pv by (auto intro: trancl_trans)
      have "?w \<in> ?A p v" using h(5) pv by simp
      moreover have "?w \<notin> ?A ?p ?w" using h(1) by (auto simp: uf_ok_def acyclic_def)
      ultimately show "?A ?p ?w \<noteq> ?A p v" by blast
    qed
    moreover have "finite (?A p v)"
      by (rule finite_subset[of _ "Range (edges p)"]) (auto simp: finite_edges finite_Range elim: tranclE)
    ultimately have "card (?A ?p ?w) < card (?A p v)" by (rule psubset_card_mono[rotated])
    from less.hyps[OF this h(1) w] obtain r p' where r: "uf_find ?p ?w = Some (r, p')" "uf_ok p'" "length p' = length p"
      "eqcl (edges p') = eqcl (edges ?p)" "(?w, r) \<in> eqcl (edges ?p)" "r < length p" "p' ! r = r" "\<forall>i<length p. p' ! i = i \<longleftrightarrow> ?p ! i = i" by auto
    have "uf_find p v = Some (r, p')" using r(1) False pv by (subst uf_find.simps) (simp add: Let_def)
    moreover have "(v, ?w) \<in> eqcl (edges p)"
      using h(5) pv unfolding eqcl_def by (metis Un_upper1 rtrancl_mono subsetD trancl_into_rtrancl)
    then have "(v, r) \<in> eqcl (edges p)" using r(5) h(3) eqcl_trans by metis
    ultimately show ?thesis using r h(3,4) by (intro exI[of _ r] exI[of _ p']) simp
  qed
qed

lemma uf_union_total:
  assumes ok: "uf_ok p" and a: "a < length p" "b < length p"
  shows "\<exists>p'. uf_union a b p = Some p' \<and> uf_ok p' \<and> length p' = length p \<and> eqcl (edges p') = eqcl (insert (a, b) (edges p))"
proof -
  obtain ra p1 where 1: "uf_find p a = Some (ra, p1)" "uf_ok p1" "length p1 = length p" "eqcl (edges p1) = eqcl (edges p)"
    "(a, ra) \<in> eqcl (edges p)" "ra < length p" "p1 ! ra = ra" using uf_find_total[OF ok a(1)] by blast
  obtain rb p2 where 2: "uf_find p1 b = Some (rb, p2)" "uf_ok p2" "length p2 = length p1" "eqcl (edges p2) = eqcl (edges p1)"
    "(b, rb) \<in> eqcl (edges p1)" "rb < length p1" "p2 ! rb = rb" "\<forall>i<length p1. p2 ! i = i \<longleftrightarrow> p1 ! i = i"
    using uf_find_total[OF 1(2)] a(2) 1(3) by metis
  have conn: "eqcl (edges p2) = eqcl (edges p)" using 1 2 by simp
  let ?p = "if ra \<noteq> rb then p2[rb := ra] else p2"
  have u: "uf_union a b p = Some ?p" by (simp add: uf_union_def 1(1) 2(1))
  have ab: "(a, ra) \<in> eqcl (edges p2)" "(b, rb) \<in> eqcl (edges p2)" using 1 2 conn by simp_all
  have sub: "eqcl (edges p) \<subseteq> eqcl (insert (a, b) (edges p))" by (rule eqcl_least) (auto intro: eqcl_base)
  show ?thesis
  proof (cases "ra = rb")
    case True
    then have "(a, b) \<in> eqcl (edges p)" using ab conn eqcl_sym eqcl_trans by metis
    then have "insert (a, b) (edges p) \<subseteq> eqcl (edges p)" by (auto intro: eqcl_base)
    then have "eqcl (insert (a, b) (edges p)) = eqcl (edges p)" using eqcl_least sub by blast
    with True u 1 2 conn show ?thesis by auto
  next
    case False
    have root: "p2 ! ra = ra" using 2(8) 1(3,6,7) by simp
    have e: "edges (p2[rb := ra]) = insert (rb, ra) (edges p2)"
      using 2(6,7) 2(3) False by (auto simp: edges_def nth_list_update split: if_splits)
    have "(ra, rb) \<notin> (edges p2)\<^sup>*" using root_no_edge[OF root] False by (metis converse_rtranclE)
    then have "acyclic (edges (p2[rb := ra]))" using 2(2) by (simp add: e acyclic_insert uf_ok_def)
    then have ok': "uf_ok (p2[rb := ra])" using 2(2,3,6) 1(3,6) by (auto simp: uf_ok_def nth_list_update)
    have "eqcl (insert (rb, ra) (edges p2)) = eqcl (insert (a, b) (edges p))"
    proof (rule eqcl_eq)
      have base: "edges p2 \<subseteq> eqcl (insert (a, b) (edges p))" using sub conn eqcl_base by fastforce
      have "(a, ra) \<in> eqcl (insert (a, b) (edges p))" "(b, rb) \<in> eqcl (insert (a, b) (edges p))" using ab conn sub by blast+
      then have "(rb, ra) \<in> eqcl (insert (a, b) (edges p))" by (meson eqcl_base eqcl_sym eqcl_trans insertI1)
      with base show "insert (rb, ra) (edges p2) \<subseteq> eqcl (insert (a, b) (edges p))" by simp
      have sub2: "eqcl (edges p2) \<subseteq> eqcl (insert (rb, ra) (edges p2))" by (rule eqcl_least) (auto intro: eqcl_base)
      then have "(a, b) \<in> eqcl (insert (rb, ra) (edges p2))" using ab by (meson eqcl_base eqcl_sym eqcl_trans insertI1 subsetD)
      moreover have "edges p \<subseteq> eqcl (insert (rb, ra) (edges p2))" using sub2 conn eqcl_base by fastforce
      ultimately show "insert (a, b) (edges p) \<subseteq> eqcl (insert (rb, ra) (edges p2))" by simp
    qed
    with False u ok' e 1(3) 2(3) show ?thesis by auto
  qed
qed

section \<open>Grouping by lineage\<close>

text \<open>The loop over the tokens of attestation \<^verbatim>\<open>i\<close>; \<^verbatim>\<open>owner\<close> is the map \<^verbatim>\<open>tokenOwner\<close>.\<close>

fun link_tokens :: "nat \<Rightarrow> string list \<Rightarrow> (string, nat) jsmap \<Rightarrow> nat list \<Rightarrow> ((string, nat) jsmap \<times> nat list) option" where
  "link_tokens i [] owner uf = Some (owner, uf)"
| "link_tokens i (t # ts) owner uf = (case jmap_get owner t of
       Some j \<Rightarrow> (case uf_union i j uf of None \<Rightarrow> None | Some uf' \<Rightarrow> link_tokens i ts owner uf')
     | None \<Rightarrow> link_tokens i ts (jmap_set t i owner) uf)"

fun link_all :: "nat \<Rightarrow> string list list \<Rightarrow> (string, nat) jsmap \<Rightarrow> nat list \<Rightarrow> nat list \<Rightarrow> (nat list \<times> nat list) option" where
  "link_all i [] owner uf unknown = Some (uf, unknown)"
| "link_all i (ts # tss) owner uf unknown =
     (if ts = [] then link_all (Suc i) tss owner uf (unknown @ [i])
      else case link_tokens i ts owner uf of None \<Rightarrow> None | Some (owner', uf') \<Rightarrow> link_all (Suc i) tss owner' uf' unknown)"

fun link_unknown :: "nat \<Rightarrow> nat list \<Rightarrow> nat list \<Rightarrow> nat list option" where
  "link_unknown u0 [] uf = Some uf"
| "link_unknown u0 (u # us) uf = (case uf_union u0 u uf of None \<Rightarrow> None | Some uf' \<Rightarrow> link_unknown u0 us uf')"

fun find_all :: "nat list \<Rightarrow> nat list \<Rightarrow> nat list option" where
  "find_all uf [] = Some []"
| "find_all uf (i # is) = (case uf_find uf i of None \<Rightarrow> None
     | Some (r, uf') \<Rightarrow> (case find_all uf' is of None \<Rightarrow> None | Some rs \<Rightarrow> Some (r # rs)))"

text \<open>The root of every attestation, given their token lists.\<close>

definition group_roots :: "string list list \<Rightarrow> nat list option" where
  "group_roots tss = (case link_all 0 tss [] (uf_new (length tss)) [] of None \<Rightarrow> None
     | Some (uf, unknown) \<Rightarrow>
        (case (case unknown of [] \<Rightarrow> Some uf | u0 # us \<Rightarrow> link_unknown u0 us uf) of None \<Rightarrow> None
         | Some uf' \<Rightarrow> find_all uf' [0..<length tss]))"

subsection \<open>The reference: chains of shared tokens\<close>

definition linked :: "string list list \<Rightarrow> (nat \<times> nat) set" where
  "linked tss = {(a, b). a < length tss \<and> b < length tss \<and>
     (set (tss ! a) \<inter> set (tss ! b) \<noteq> {} \<or> tss ! a = [] \<and> tss ! b = [])}"

definition owner_ok :: "string list list \<Rightarrow> (string, nat) jsmap \<Rightarrow> bool" where
  "owner_ok tss owner \<longleftrightarrow> (\<forall>t j. map_of owner t = Some j \<longrightarrow> j < length tss \<and> t \<in> set (tss ! j))"

text \<open>A forest over the attestations that connects nothing but what the reference does.\<close>

definition forest_ok :: "string list list \<Rightarrow> nat list \<Rightarrow> bool" where
  "forest_ok tss uf \<longleftrightarrow> uf_ok uf \<and> length uf = length tss \<and> edges uf \<subseteq> eqcl (linked tss)"

lemma forest_union:
  assumes "forest_ok tss uf" "(a, b) \<in> linked tss"
  obtains uf' where "uf_union a b uf = Some uf'" "forest_ok tss uf'" "eqcl (edges uf) \<subseteq> eqcl (edges uf')" "(a, b) \<in> eqcl (edges uf')"
proof -
  have ab: "a < length uf" "b < length uf" using assms by (auto simp: forest_ok_def linked_def)
  obtain uf' where u: "uf_union a b uf = Some uf'" "uf_ok uf'" "length uf' = length uf" "eqcl (edges uf') = eqcl (insert (a, b) (edges uf))"
    using uf_union_total[OF _ ab] assms(1) by (auto simp: forest_ok_def)
  have "insert (a, b) (edges uf) \<subseteq> eqcl (linked tss)" using assms eqcl_base by (auto simp: forest_ok_def)
  then have "eqcl (edges uf') \<subseteq> eqcl (linked tss)" using u(4) eqcl_least by simp
  then have "edges uf' \<subseteq> eqcl (linked tss)" using eqcl_base by fastforce
  then have "forest_ok tss uf'" using u assms(1) by (simp add: forest_ok_def)
  moreover have "eqcl (edges uf) \<subseteq> eqcl (edges uf')" unfolding u(4) by (rule eqcl_least) (auto intro: eqcl_base)
  ultimately show thesis using that u(1,4) eqcl_base by (metis insertI1)
qed

lemma link_tokens_ok:
  assumes "forest_ok tss uf" "owner_ok tss owner" "i < length tss" "set ts \<subseteq> set (tss ! i)"
  shows "\<exists>owner' uf'. link_tokens i ts owner uf = Some (owner', uf') \<and> forest_ok tss uf' \<and> owner_ok tss owner' \<and>
    eqcl (edges uf) \<subseteq> eqcl (edges uf') \<and> map_of owner \<subseteq>\<^sub>m map_of owner' \<and>
    (\<forall>t\<in>set ts. \<exists>j. map_of owner' t = Some j \<and> (i, j) \<in> eqcl (edges uf'))"
  using assms
proof (induction ts arbitrary: owner uf)
  case (Cons t ts)
  show ?case
  proof (cases "map_of owner t")
    case None
    let ?o = "AList.update t i owner"
    have oo: "owner_ok tss ?o" using Cons.prems by (auto simp: owner_ok_def)
    have ts: "set ts \<subseteq> set (tss ! i)" using Cons.prems(4) by simp
    from Cons.IH[OF Cons.prems(1) oo Cons.prems(3) ts] obtain o' uf' where r: "link_tokens i ts ?o uf = Some (o', uf')" "forest_ok tss uf'" "owner_ok tss o'"
      "eqcl (edges uf) \<subseteq> eqcl (edges uf')" "map_of ?o \<subseteq>\<^sub>m map_of o'" "\<forall>t\<in>set ts. \<exists>j. map_of o' t = Some j \<and> (i, j) \<in> eqcl (edges uf')" by blast
    have "map_of o' t = Some i" using r(5) by (auto simp: map_le_def)
    moreover have "map_of owner \<subseteq>\<^sub>m map_of o'" using r(5) None by (auto simp: map_le_def dom_def split: if_splits)
    ultimately show ?thesis using r None by auto
  next
    case (Some j)
    have "(i, j) \<in> linked tss" using Some Cons.prems by (auto simp: linked_def owner_ok_def)
    then obtain uf1 where u: "uf_union i j uf = Some uf1" "forest_ok tss uf1" "eqcl (edges uf) \<subseteq> eqcl (edges uf1)" "(i, j) \<in> eqcl (edges uf1)"
      using forest_union[OF Cons.prems(1)] by metis
    with Cons.IH[of uf1 owner] Cons.prems obtain o' uf' where r: "link_tokens i ts owner uf1 = Some (o', uf')" "forest_ok tss uf'" "owner_ok tss o'"
      "eqcl (edges uf1) \<subseteq> eqcl (edges uf')" "map_of owner \<subseteq>\<^sub>m map_of o'" "\<forall>t\<in>set ts. \<exists>j. map_of o' t = Some j \<and> (i, j) \<in> eqcl (edges uf')" by auto
    have "map_of o' t = Some j" using r(5) Some by (metis domI map_le_def)
    then show ?thesis using r u Some by auto
  qed
qed auto

text \<open>What is known after the first \<^verbatim>\<open>i\<close> attestations: each token has an owner connected to its holders.\<close>

definition linked_upto :: "string list list \<Rightarrow> nat \<Rightarrow> (string, nat) jsmap \<Rightarrow> nat list \<Rightarrow> bool" where
  "linked_upto tss i owner uf \<longleftrightarrow> (\<forall>a<i. \<forall>t\<in>set (tss ! a). \<exists>j. map_of owner t = Some j \<and> (a, j) \<in> eqcl (edges uf))"

lemma linked_upto_mono:
  "linked_upto tss i owner uf \<Longrightarrow> map_of owner \<subseteq>\<^sub>m map_of owner' \<Longrightarrow> eqcl (edges uf) \<subseteq> eqcl (edges uf') \<Longrightarrow> linked_upto tss i owner' uf'"
  unfolding linked_upto_def map_le_def by (metis domI subsetD)

lemma link_all_ok:
  assumes "forest_ok tss uf" "owner_ok tss owner" "i \<le> length tss" "linked_upto tss i owner uf" "unk = filter (\<lambda>a. tss ! a = []) [0..<i]"
  shows "\<exists>owner' uf'. link_all i (drop i tss) owner uf unk = Some (uf', filter (\<lambda>a. tss ! a = []) [0..<length tss]) \<and>
    forest_ok tss uf' \<and> linked_upto tss (length tss) owner' uf'"
  using assms
proof (induction "length tss - i" arbitrary: i owner uf unk)
  case 0
  then show ?case by auto
next
  case (Suc k)
  then have i: "i < length tss" "drop i tss = tss ! i # drop (Suc i) tss" by (simp_all add: Cons_nth_drop_Suc)
  have k: "k = length tss - Suc i" "Suc i \<le> length tss" using Suc.hyps(2) by simp_all
  have up: "linked_upto tss (Suc i) owner' uf'" if "linked_upto tss i owner' uf'"
    "\<forall>t\<in>set (tss ! i). \<exists>j. map_of owner' t = Some j \<and> (i, j) \<in> eqcl (edges uf')" for owner' uf'
    using that by (auto simp: linked_upto_def less_Suc_eq)
  show ?case
  proof (cases "tss ! i = []")
    case True
    then have "linked_upto tss (Suc i) owner uf" using up Suc.prems(4) by simp
    from Suc.hyps(1)[OF k(1) Suc.prems(1,2) k(2) this refl] True i Suc.prems(5) show ?thesis by auto
  next
    case False
    obtain o' uf' where r: "link_tokens i (tss ! i) owner uf = Some (o', uf')" "forest_ok tss uf'" "owner_ok tss o'"
      "eqcl (edges uf) \<subseteq> eqcl (edges uf')" "map_of owner \<subseteq>\<^sub>m map_of o'" "\<forall>t\<in>set (tss ! i). \<exists>j. map_of o' t = Some j \<and> (i, j) \<in> eqcl (edges uf')"
      using link_tokens_ok[OF Suc.prems(1,2) i(1) subset_refl] by blast
    have "linked_upto tss (Suc i) o' uf'" by (rule up[OF linked_upto_mono[OF Suc.prems(4) r(5,4)] r(6)])
    from Suc.hyps(1)[OF k(1) r(2,3) k(2) this refl] False i r(1) Suc.prems(5) show ?thesis by auto
  qed
qed

lemma link_unknown_ok:
  assumes "forest_ok tss uf" "u0 < length tss" "tss ! u0 = []" "\<forall>u\<in>set us. u < length tss \<and> tss ! u = []"
  shows "\<exists>uf'. link_unknown u0 us uf = Some uf' \<and> forest_ok tss uf' \<and> eqcl (edges uf) \<subseteq> eqcl (edges uf') \<and> (\<forall>u\<in>set us. (u0, u) \<in> eqcl (edges uf'))"
  using assms
proof (induction us arbitrary: uf)
  case (Cons u us)
  then have "(u0, u) \<in> linked tss" by (auto simp: linked_def)
  then obtain uf1 where u: "uf_union u0 u uf = Some uf1" "forest_ok tss uf1" "eqcl (edges uf) \<subseteq> eqcl (edges uf1)" "(u0, u) \<in> eqcl (edges uf1)"
    using forest_union[OF Cons.prems(1)] by metis
  with Cons.IH[of uf1] Cons.prems show ?case by fastforce
qed auto

lemma find_all_ok:
  assumes "uf_ok uf" "\<forall>i\<in>set is. i < length uf"
  shows "\<exists>rs. find_all uf is = Some rs \<and> length rs = length is \<and> (\<forall>k<length is. rs ! k < length uf \<and> uf ! (rs ! k) = rs ! k \<and> (is ! k, rs ! k) \<in> eqcl (edges uf))"
  using assms
proof (induction "is" arbitrary: uf)
  case (Cons i "is")
  obtain r uf' where r: "uf_find uf i = Some (r, uf')" "uf_ok uf'" "length uf' = length uf" "eqcl (edges uf') = eqcl (edges uf)"
    "(i, r) \<in> eqcl (edges uf)" "r < length uf" "uf' ! r = r" "\<forall>i<length uf. uf' ! i = i \<longleftrightarrow> uf ! i = i"
    using uf_find_total[of uf i] Cons.prems by auto
  obtain rs where rs: "find_all uf' is = Some rs" "length rs = length is"
    "\<forall>k<length is. rs ! k < length uf' \<and> uf' ! (rs ! k) = rs ! k \<and> (is ! k, rs ! k) \<in> eqcl (edges uf')"
    using Cons.IH[OF r(2)] Cons.prems(2) r(3) by auto
  show ?case using r rs by (auto simp: nth_Cons less_Suc_eq_0_disj split: nat.splits)
qed simp

lemma forest_new: "forest_ok tss (uf_new (length tss))"
proof -
  have "edges (uf_new n) = {}" for n by (auto simp: edges_def uf_new_def)
  then show ?thesis by (simp add: forest_ok_def uf_ok_def acyclic_def) (simp add: uf_new_def)
qed

lemma linked_final:
  assumes "forest_ok tss uf" "linked_upto tss (length tss) owner uf" "forest_ok tss uf'" "eqcl (edges uf) \<subseteq> eqcl (edges uf')"
    "\<forall>a<length tss. \<forall>b<length tss. tss ! a = [] \<longrightarrow> tss ! b = [] \<longrightarrow> (a, b) \<in> eqcl (edges uf')"
  shows "eqcl (edges uf') = eqcl (linked tss)"
proof (rule eqcl_eq)
  show "edges uf' \<subseteq> eqcl (linked tss)" using assms(3) by (simp add: forest_ok_def)
  show "linked tss \<subseteq> eqcl (edges uf')"
  proof
    fix x assume "x \<in> linked tss"
    then obtain a b where x: "x = (a, b)" "a < length tss" "b < length tss"
      "set (tss ! a) \<inter> set (tss ! b) \<noteq> {} \<or> tss ! a = [] \<and> tss ! b = []" by (auto simp: linked_def)
    show "x \<in> eqcl (edges uf')"
    proof (cases "tss ! a = [] \<and> tss ! b = []")
      case True
      with assms(5) x show ?thesis by simp
    next
      case False
      with x obtain t where "t \<in> set (tss ! a)" "t \<in> set (tss ! b)" by auto
      with assms(2) x obtain j where "(a, j) \<in> eqcl (edges uf)" "(b, j) \<in> eqcl (edges uf)" unfolding linked_upto_def by (metis option.inject)
      then have "(a, b) \<in> eqcl (edges uf)" using eqcl_sym eqcl_trans by blast
      with assms(4) x show ?thesis by blast
    qed
  qed
qed

lemma group_roots_ok:
  "\<exists>rs. group_roots tss = Some rs \<and> length rs = length tss \<and>
     (\<forall>i<length tss. \<forall>j<length tss. rs ! i = rs ! j \<longleftrightarrow> (i, j) \<in> eqcl (linked tss))"
proof -
  let ?unk = "filter (\<lambda>a. tss ! a = []) [0..<length tss]"
  have o0: "owner_ok tss []" "linked_upto tss 0 [] uf" for uf by (simp_all add: owner_ok_def linked_upto_def)
  obtain owner uf where 1: "link_all 0 tss [] (uf_new (length tss)) [] = Some (uf, ?unk)" "forest_ok tss uf" "linked_upto tss (length tss) owner uf"
    using link_all_ok[OF forest_new o0(1) _ o0(2)] by auto
  have mem: "u < length tss \<and> tss ! u = []" if "u \<in> set ?unk" for u using that by simp
  obtain uf' where 2: "(case ?unk of [] \<Rightarrow> Some uf | u0 # us \<Rightarrow> link_unknown u0 us uf) = Some uf'" "forest_ok tss uf'"
    "eqcl (edges uf) \<subseteq> eqcl (edges uf')" "\<forall>a\<in>set ?unk. \<forall>b\<in>set ?unk. (a, b) \<in> eqcl (edges uf')"
  proof (cases ?unk)
    case Nil
    with that[of uf] 1(2) show thesis by simp
  next
    case (Cons u0 us)
    have u: "u0 < length tss" "tss ! u0 = []" "\<forall>u\<in>set us. u < length tss \<and> tss ! u = []"
      using mem unfolding Cons by auto
    obtain uf' where r: "link_unknown u0 us uf = Some uf'" "forest_ok tss uf'" "eqcl (edges uf) \<subseteq> eqcl (edges uf')" "\<forall>u\<in>set us. (u0, u) \<in> eqcl (edges uf')"
      using link_unknown_ok[OF 1(2) u] by blast
    have "\<forall>a\<in>set ?unk. (u0, a) \<in> eqcl (edges uf')" using r(4) by (simp add: Cons)
    then have "\<forall>a\<in>set ?unk. \<forall>b\<in>set ?unk. (a, b) \<in> eqcl (edges uf')" using eqcl_sym eqcl_trans by metis
    with that[of uf'] r Cons show thesis by simp
  qed
  have conn: "eqcl (edges uf') = eqcl (linked tss)"
    by (rule linked_final[OF 1(2,3) 2(2,3)]) (use 2(4) in auto)
  have uf': "uf_ok uf'" "length uf' = length tss" using 2(2) by (simp_all add: forest_ok_def)
  obtain rs where rs: "find_all uf' [0..<length tss] = Some rs" "length rs = length tss"
    "\<forall>k<length tss. rs ! k < length uf' \<and> uf' ! (rs ! k) = rs ! k \<and> (k, rs ! k) \<in> eqcl (edges uf')"
    using find_all_ok[OF uf'(1), of "[0..<length tss]"] uf'(2) by auto
  have "rs ! i = rs ! j \<longleftrightarrow> (i, j) \<in> eqcl (linked tss)" if "i < length tss" "j < length tss" for i j
  proof
    assume "rs ! i = rs ! j"
    with rs(3) that show "(i, j) \<in> eqcl (linked tss)" unfolding conn[symmetric] by (metis eqcl_sym eqcl_trans)
  next
    assume "(i, j) \<in> eqcl (linked tss)"
    with rs(3) that have "(rs ! i, rs ! j) \<in> eqcl (edges uf')" unfolding conn[symmetric] by (metis eqcl_sym eqcl_trans)
    then show "rs ! i = rs ! j" by (rule conn_root_unique) (use rs(3) that in auto)
  qed
  with rs(1,2) 1(1) 2(1) show ?thesis by (simp add: group_roots_def)
qed

section \<open>The analysis\<close>

definition lineage_of :: "jsval \<Rightarrow> jsval" where
  "lineage_of a = (let l = oget (oget a ''body'') ''lineage'' in if truthy l then l else JObj [])"

text \<open>\<^verbatim>\<open>(lineage.k || []).map\<close>: anything but an array has no \<^verbatim>\<open>map\<close>.\<close>

definition lineage_ids :: "jsval \<Rightarrow> string \<Rightarrow> jsval list result" where
  "lineage_ids a k = (let v = get (lineage_of a) k in
     if \<not> truthy v then Inr [] else if is_array v then Inr (elems v) else Inl (TypeError ''map is not a function''))"

definition lineageTokens :: "platform \<Rightarrow> jsval \<Rightarrow> string list result" where
  "lineageTokens p a = rbind (lineage_ids a ''originIds'') (\<lambda>os. rbind (lineage_ids a ''publisherIds'') (\<lambda>ps.
     rbind (lineage_ids a ''generatorIds'') (\<lambda>gs.
     Inr (unique (map (\<lambda>v. ''origin:'' @ to_string p v) os @ map (\<lambda>v. ''publisher:'' @ to_string p v) ps @
       map (\<lambda>v. ''generator:'' @ to_string p v) gs)))))"

text \<open>The map from roots to members, in the order the roots are first met.\<close>

fun group_members :: "(nat \<times> jsval) list \<Rightarrow> (nat, jsval list) jsmap \<Rightarrow> (nat, jsval list) jsmap" where
  "group_members [] g = g"
| "group_members ((r, a) # xs) g = group_members xs (jmap_set r ((case jmap_get g r of None \<Rightarrow> [] | Some ms \<Rightarrow> ms) @ [a]) g)"

definition member_ids :: "jsval list \<Rightarrow> string \<Rightarrow> jsval list" where
  "member_ids ms k = unique (concat (map (\<lambda>m. elems (get (lineage_of m) k)) ms))"

definition text_sort :: "platform \<Rightarrow> jsval list \<Rightarrow> jsval list" where
  "text_sort p xs = js_sort (\<lambda>a b. cmp_ascii (to_string p a) (to_string p b)) xs"

definition group_verdict :: "jsval list \<Rightarrow> string" where
  "group_verdict verdicts =
     (if JStr ''support'' \<in> set verdicts \<and> JStr ''contradict'' \<in> set verdicts then ''mixed''
      else if JStr ''support'' \<in> set verdicts then ''support''
      else if JStr ''contradict'' \<in> set verdicts then ''contradict'' else ''uncertain'')"

definition known_lineage :: "jsval list \<Rightarrow> bool" where
  "known_lineage ms = (length (member_ids ms ''originIds'') + length (member_ids ms ''publisherIds'') + length (member_ids ms ''generatorIds'') > 0)"

definition normalized_group :: "platform \<Rightarrow> jsval list \<Rightarrow> jsval result" where
  "normalized_group p ms =
     rbind (map_result (\<lambda>m. dot m ''attesterNodeId'') ms) (\<lambda>attesters.
     rbind (map_result (\<lambda>m. rbind (dot m ''body'') (\<lambda>b. dot b ''verdict'')) ms) (\<lambda>verdicts.
     let os = member_ids ms ''originIds''; ps = member_ids ms ''publisherIds''; gs = member_ids ms ''generatorIds'';
         known = known_lineage ms in
     rbind (digest p (JObj [(''origins'', JArr (text_sort p os)), (''publishers'', JArr (text_sort p ps)),
       (''generators'', JArr (text_sort p gs)), (''unknown'', JBool (\<not> known))])) (\<lambda>gid.
     Inr (JObj [(''groupId'', JStr gid), (''knownLineage'', JBool known), (''verdict'', JStr (group_verdict verdicts)),
       (''memberCount'', JNum (of_nat (length ms))), (''attesterCount'', JNum (of_nat (length (unique attesters)))),
       (''originCount'', JNum (of_nat (length os))), (''publisherCount'', JNum (of_nat (length ps))), (''generatorCount'', JNum (of_nat (length gs))),
       (''attestationIds'', JArr (text_sort p (map (\<lambda>m. get m ''attestationId'') ms)))]))))"

definition count_verdict :: "jsval list \<Rightarrow> string \<Rightarrow> jsval" where
  "count_verdict gs v = JNum (of_nat (length (filter (\<lambda>g. get g ''knownLineage'' = JBool True \<and> get g ''verdict'' = JStr v) gs)))"

definition independence :: "platform \<Rightarrow> jsval list \<Rightarrow> nat \<Rightarrow> jsval" where
  "independence p gs n =
     (let sorted = js_sort (\<lambda>a b. lcmp p (str_of (get a ''groupId'')) (str_of (get b ''groupId''))) gs;
          known = filter (\<lambda>g. get g ''knownLineage'' = JBool True) sorted in
      JObj [(''groups'', JArr sorted), (''independentKnownGroups'', JNum (of_nat (length known))),
        (''supportGroups'', count_verdict sorted ''support''), (''contradictGroups'', count_verdict sorted ''contradict''),
        (''mixedGroups'', count_verdict sorted ''mixed''), (''uncertainGroups'', count_verdict sorted ''uncertain''),
        (''unknownLineageGroups'', JNum (of_nat (length (filter (\<lambda>g. get g ''knownLineage'' \<noteq> JBool True) sorted)))),
        (''rawAttestations'', JNum (of_nat n))])"

text \<open>\<open>None\<close> would be a lookup that never ends.\<close>

definition analyzeAttestationIndependence :: "platform \<Rightarrow> jsval \<Rightarrow> jsval result option" where
  "analyzeAttestationIndependence p attestations =
     (if \<not> is_array attestations then Some (Inl (Err ''attestations must be an array''))
      else (case map_result (lineageTokens p) (elems attestations) of Inl e \<Rightarrow> Some (Inl e)
      | Inr tss \<Rightarrow> (case group_roots tss of None \<Rightarrow> None
         | Some rs \<Rightarrow> Some (rbind (map_result (normalized_group p) (map snd (group_members (zip rs (elems attestations)) []))) (\<lambda>gs.
             Inr (independence p gs (length (elems attestations))))))))"

section \<open>Independent groups are lineage classes\<close>

lemma group_members_get:
  "map_of (group_members xs g) r = (let new = map snd (filter (\<lambda>x. fst x = r) xs) in
     case map_of g r of None \<Rightarrow> if new = [] then None else Some new | Some ms \<Rightarrow> Some (ms @ new))"
proof (induction xs g rule: group_members.induct)
  case (2 q a xs g)
  then show ?case by (cases "q = r") (auto simp: Let_def split: option.splits)
qed (auto simp: Let_def split: option.splits)

lemma group_members_ok: "jmap_ok g \<Longrightarrow> jmap_ok (group_members xs g)"
  by (induction xs g rule: group_members.induct) auto

lemma map_result_filter:
  "map_result f xs = Inr ys \<Longrightarrow> (\<And>x y. f x = Inr y \<Longrightarrow> P y = Q x) \<Longrightarrow> length (filter P ys) = length (filter Q xs)"
  by (induction xs arbitrary: ys) (auto simp: res_simps)

lemma map_result_nth: "map_result f xs = Inr ys \<Longrightarrow> i < length xs \<Longrightarrow> f (xs ! i) = Inr (ys ! i)"
proof (induction xs arbitrary: ys i)
  case (Cons x xs)
  then show ?case by (cases i) (auto simp: res_simps)
qed simp

lemma lineage_ids_elems: "lineage_ids a k = Inr xs \<Longrightarrow> xs = elems (get (lineage_of a) k)"
  by (cases "get (lineage_of a) k") (auto simp: lineage_ids_def Let_def split: if_splits)

lemma tokens_empty:
  assumes "lineageTokens p a = Inr ts"
  shows "ts = [] \<longleftrightarrow> (\<forall>k\<in>{''originIds'', ''publisherIds'', ''generatorIds''}. elems (get (lineage_of a) k) = [])"
proof -
  have u: "unique (xs :: string list) = [] \<longleftrightarrow> xs = []" for xs by (metis set_empty unique_set)
  from assms obtain os ps gs where "lineage_ids a ''originIds'' = Inr os" "lineage_ids a ''publisherIds'' = Inr ps" "lineage_ids a ''generatorIds'' = Inr gs"
    and ts: "ts = unique (map (\<lambda>v. ''origin:'' @ to_string p v) os @ map (\<lambda>v. ''publisher:'' @ to_string p v) ps @ map (\<lambda>v. ''generator:'' @ to_string p v) gs)"
    by (auto simp: lineageTokens_def res_simps)
  then show ?thesis by (auto simp: u dest!: lineage_ids_elems)
qed

lemma known_lineage_iff:
  "known_lineage ms \<longleftrightarrow> (\<exists>m\<in>set ms. \<exists>k\<in>{''originIds'', ''publisherIds'', ''generatorIds''}. elems (get (lineage_of m) k) \<noteq> [])"
proof -
  have "length (member_ids ms k) > 0 \<longleftrightarrow> (\<exists>m\<in>set ms. elems (get (lineage_of m) k) \<noteq> [])" for k
  proof -
    have "member_ids ms k = [] \<longleftrightarrow> concat (map (\<lambda>m. elems (get (lineage_of m) k)) ms) = []"
      unfolding member_ids_def by (metis set_empty unique_set)
    then show ?thesis by auto
  qed
  then show ?thesis by (auto simp: known_lineage_def)
qed

lemma known_group:
  assumes "map_result (lineageTokens p) as = Inr tss" "length rs = length as"
  shows "known_lineage (map snd (filter (\<lambda>x. fst x = r) (zip rs as))) \<longleftrightarrow> (\<exists>i<length as. rs ! i = r \<and> tss ! i \<noteq> [])"
proof -
  have "m \<in> set (map snd (filter (\<lambda>x. fst x = r) (zip rs as))) \<longleftrightarrow> (\<exists>i<length as. rs ! i = r \<and> as ! i = m)" for m
    using assms(2) by (auto simp: set_zip image_iff)
  moreover have "tss ! i \<noteq> [] \<longleftrightarrow> (\<exists>k\<in>{''originIds'', ''publisherIds'', ''generatorIds''}. elems (get (lineage_of (as ! i)) k) \<noteq> [])" if "i < length as" for i
    using tokens_empty[OF map_result_nth[OF assms(1) that]] by blast
  ultimately show ?thesis unfolding known_lineage_iff by (metis (no_types, lifting))
qed

lemma card_same_classes:
  assumes "finite K" "\<And>i j. i \<in> K \<Longrightarrow> j \<in> K \<Longrightarrow> f i = f j \<longleftrightarrow> h i = h j"
  shows "card (f ` K) = card (h ` K)"
proof -
  let ?g = "(\<lambda>i. (f i, h i)) ` K"
  have "inj_on fst ?g" "inj_on snd ?g" using assms(2) by (auto simp: inj_on_def)
  then have "card (fst ` ?g) = card (snd ` ?g)" by (simp add: card_image)
  then show ?thesis by (simp add: image_image)
qed

lemma count_known_groups:
  assumes "map_result (lineageTokens p) as = Inr tss" "length rs = length as"
  shows "length (filter known_lineage (map snd (group_members (zip rs as) []))) = card ((!) rs ` {i. i < length as \<and> tss ! i \<noteq> []})"
proof -
  let ?G = "group_members (zip rs as) []"
  have ok: "jmap_ok ?G" by (simp add: group_members_ok)
  have val: "map_of ?G r = (if r \<in> set rs then Some (map snd (filter (\<lambda>x. fst x = r) (zip rs as))) else None)" for r
  proof -
    have "filter (\<lambda>x. fst x = r) (zip rs as) = [] \<longleftrightarrow> r \<notin> set rs"
      using assms(2) by (auto simp: filter_empty_conv dest: set_zip_leftD) (metis fst_conv in_set_impl_in_set_zip1)
    then show ?thesis by (simp add: group_members_get Let_def)
  qed
  have "length (filter known_lineage (map snd ?G)) = length (filter (\<lambda>x. known_lineage (snd x)) ?G)"
    by (simp add: filter_map comp_def)
  also have "\<dots> = card (fst ` set (filter (\<lambda>x. known_lineage (snd x)) ?G))"
  proof -
    have "distinct (map fst (filter (\<lambda>x. known_lineage (snd x)) ?G))" using ok by (rule distinct_map_filter)
    then show ?thesis by (metis distinct_card length_map set_map)
  qed
  also have "fst ` set (filter (\<lambda>x. known_lineage (snd x)) ?G) = (!) rs ` {i. i < length as \<and> tss ! i \<noteq> []}"
  proof (intro set_eqI iffI)
    fix r assume "r \<in> fst ` set (filter (\<lambda>x. known_lineage (snd x)) ?G)"
    then obtain ms where "(r, ms) \<in> set ?G" "known_lineage ms" by auto
    then have "map_of ?G r = Some ms" using ok by simp
    with \<open>known_lineage ms\<close> known_group[OF assms] show "r \<in> (!) rs ` {i. i < length as \<and> tss ! i \<noteq> []}"
      by (auto simp: val split: if_splits)
  next
    fix r assume "r \<in> (!) rs ` {i. i < length as \<and> tss ! i \<noteq> []}"
    then obtain i where i: "i < length as" "rs ! i = r" "tss ! i \<noteq> []" by auto
    then have "r \<in> set rs" using assms(2) by auto
    then have "map_of ?G r = Some (map snd (filter (\<lambda>x. fst x = r) (zip rs as)))" by (simp add: val)
    moreover have "known_lineage (map snd (filter (\<lambda>x. fst x = r) (zip rs as)))" using known_group[OF assms] i by blast
    ultimately show "r \<in> fst ` set (filter (\<lambda>x. known_lineage (snd x)) ?G)" by (force dest: map_of_SomeD)
  qed
  finally show ?thesis .
qed

text \<open>
  C24. The analysis always returns, and what it counts as independent support is exact: two
  attestations fall into one group precisely when a chain of shared origins, publishers or
  generators connects them (all attestations without lineage forming one group), and the number of
  independent known groups is the number of such classes that have a lineage. Any number of
  attestations that copy a lineage already present adds no independent group.
\<close>

theorem provenance_independence:
  assumes "map_result (lineageTokens p) as = Inr tss"
  shows "(\<exists>rs. group_roots tss = Some rs \<and> (\<forall>i<length tss. \<forall>j<length tss. rs ! i = rs ! j \<longleftrightarrow> (i, j) \<in> eqcl (linked tss))) \<and>
    (\<exists>r. analyzeAttestationIndependence p (JArr as) = Some r \<and>
      (\<forall>g. r = Inr g \<longrightarrow> get g ''independentKnownGroups'' =
        JNum (of_nat (card ((\<lambda>i. {j. j < length as \<and> (i, j) \<in> eqcl (linked tss)}) ` {i. i < length as \<and> tss ! i \<noteq> []})))))"
proof -
  have len: "length tss = length as" using map_result_length[OF assms] .
  obtain rs where rs: "group_roots tss = Some rs" "length rs = length tss"
    "\<forall>i<length tss. \<forall>j<length tss. rs ! i = rs ! j \<longleftrightarrow> (i, j) \<in> eqcl (linked tss)" using group_roots_ok by blast
  let ?K = "{i. i < length as \<and> tss ! i \<noteq> []}" and ?c = "\<lambda>i. {j. j < length as \<and> (i, j) \<in> eqcl (linked tss)}"
  have classes: "card ((!) rs ` ?K) = card (?c ` ?K)"
  proof (rule card_same_classes)
    fix i j assume ij: "i \<in> ?K" "j \<in> ?K"
    have "?c i = ?c j \<longleftrightarrow> (i, j) \<in> eqcl (linked tss)"
    proof
      assume "?c i = ?c j"
      moreover have "j \<in> ?c j" using ij by simp
      ultimately show "(i, j) \<in> eqcl (linked tss)" by blast
    next
      assume "(i, j) \<in> eqcl (linked tss)"
      then show "?c i = ?c j" using eqcl_sym eqcl_trans by blast
    qed
    with rs(3) ij len show "rs ! i = rs ! j \<longleftrightarrow> ?c i = ?c j" by simp
  qed simp
  have counts: "length (filter (\<lambda>g. get g ''knownLineage'' = JBool True) gs) = card (?c ` ?K)"
    if "map_result (normalized_group p) (map snd (group_members (zip rs as) [])) = Inr gs" for gs
  proof -
    have "length (filter (\<lambda>g. get g ''knownLineage'' = JBool True) gs) = length (filter known_lineage (map snd (group_members (zip rs as) [])))"
      by (rule map_result_filter[OF that]) (auto simp: normalized_group_def Let_def res_simps)
    also have "\<dots> = card ((!) rs ` ?K)" using count_known_groups[OF assms] rs(2) len by simp
    finally show ?thesis using classes by simp
  qed
  have "length (filter P (js_sort cmp gs)) = length (filter P gs)" for P cmp and gs :: "jsval list"
    by (metis mset_filter mset_js_sort size_mset)
  with counts rs assms show ?thesis
    by (auto simp: analyzeAttestationIndependence_def independence_def Let_def res_simps)
qed

definition sample_lineage :: "string \<Rightarrow> jsval" where
  "sample_lineage o1 = JObj [(''attesterNodeId'', JStr ''a''), (''attestationId'', JStr ''x''),
     (''body'', JObj [(''verdict'', JStr ''support''), (''lineage'', JObj [(''originIds'', JArr [JStr o1])])])]"

text \<open>Three attestations, the first two from one origin.\<close>

theorem provenance_independence_witness:
  "let tss = [[''origin:a''], [''origin:a''], [''origin:b'']] in
     (0, 1) \<in> eqcl (linked tss) \<and> (0, 2) \<notin> eqcl (linked tss) \<and>
     (\<exists>r. analyzeAttestationIndependence sample_platform (JArr [sample_lineage ''a'', sample_lineage ''a'', sample_lineage ''b'']) = Some r)"
proof -
  let ?as = "[sample_lineage ''a'', sample_lineage ''a'', sample_lineage ''b'']"
  let ?tss = "[[''origin:a''], [''origin:a''], [''origin:b'']]"
  have t: "map_result (lineageTokens sample_platform) ?as = Inr ?tss" by code_simp
  have g: "group_roots ?tss = Some [1, 1, 2]" by code_simp
  have "\<exists>rs. group_roots ?tss = Some rs \<and> (\<forall>i<length ?tss. \<forall>j<length ?tss. rs ! i = rs ! j \<longleftrightarrow> (i, j) \<in> eqcl (linked ?tss))"
    "\<exists>r. analyzeAttestationIndependence sample_platform (JArr ?as) = Some r"
    using provenance_independence[OF t] by blast+
  moreover from this(1) g have "(0, 1) \<in> eqcl (linked ?tss)" "(0, 2) \<notin> eqcl (linked ?tss)"
    by (metis (no_types, opaque_lifting) length_Cons lessI less_Suc_eq nth_Cons_0 nth_Cons_Suc option.inject One_nat_def list.size(3) numeral_2_eq_2 n_not_Suc_n)+
  ultimately show ?thesis by (simp add: Let_def)
qed

section \<open>The provenance graph\<close>

text \<open>The graph under construction: its nodes and edges so far, and the map of source nodes.\<close>

record pgraph =
  pg_nodes :: "jsval list"
  pg_edges :: "jsval list"
  pg_sources :: "(string, jsval) jsmap"

definition graph_edge :: "jsval \<Rightarrow> jsval \<Rightarrow> string \<Rightarrow> jsval" where
  "graph_edge src dst ty = JObj [(''from'', src), (''to'', dst), (''type'', JStr ty)]"

definition source_node_id :: "platform \<Rightarrow> jsval \<Rightarrow> jsval \<Rightarrow> string result" where
  "source_node_id p sourceId contentDigest =
     rbind (digest p (JObj [(''sourceId'', sourceId), (''contentDigest'', contentDigest)])) (\<lambda>d. Inr (''source:'' @ d))"

definition add_source :: "platform \<Rightarrow> string \<Rightarrow> jsval \<Rightarrow> jsval \<Rightarrow> jsval \<Rightarrow> pgraph \<Rightarrow> pgraph result" where
  "add_source p nid knd sourceId contentDigest g =
     (if jmap_get (pg_sources g) nid \<noteq> None then Inr g
      else rbind (digest p sourceId) (\<lambda>d. Inr (g\<lparr>pg_sources := jmap_set nid
        (JObj [(''id'', JStr nid), (''type'', JStr ''SOURCE''), (''kind'', knd), (''sourceCommitment'', JStr d),
          (''contentDigest'', contentDigest)]) (pg_sources g)\<rparr>)))"

definition add_edge :: "jsval \<Rightarrow> pgraph \<Rightarrow> pgraph" where
  "add_edge e g = g\<lparr>pg_edges := pg_edges g @ [e]\<rparr>"

fun fold_result :: "('a \<Rightarrow> 'g \<Rightarrow> 'g result) \<Rightarrow> 'a list \<Rightarrow> 'g \<Rightarrow> 'g result" where
  "fold_result f [] g = Inr g"
| "fold_result f (x # xs) g = rbind (f x g) (fold_result f xs)"

definition add_parent :: "platform \<Rightarrow> string \<Rightarrow> jsval \<Rightarrow> pgraph \<Rightarrow> pgraph result" where
  "add_parent p nid parentSourceId g =
     rbind (source_node_id p parentSourceId JNull) (\<lambda>pid.
     rbind (add_source p pid (JStr ''lineage-parent'') parentSourceId JNull g) (\<lambda>g'.
     Inr (add_edge (graph_edge (JStr nid) (JStr pid) ''DERIVED_FROM'') g')))"

definition add_evidence :: "platform \<Rightarrow> jsval \<Rightarrow> jsval \<Rightarrow> pgraph \<Rightarrow> pgraph result" where
  "add_evidence p aid ev g =
     rbind (source_node_id p (get ev ''sourceId'') (get ev ''contentDigest'')) (\<lambda>nid.
     rbind (add_source p nid (get ev ''kind'') (get ev ''sourceId'') (get ev ''contentDigest'') g) (\<lambda>g'.
     fold_result (add_parent p nid) (elems (get ev ''parentSourceIds'')) (add_edge (graph_edge aid (JStr nid) ''EVIDENCED_BY'') g')))"

definition verdict_edge :: "jsval \<Rightarrow> string" where
  "verdict_edge v = (if v = JStr ''support'' then ''SUPPORTS'' else if v = JStr ''contradict'' then ''CONTRADICTS'' else ''EVALUATES'')"

definition add_attestation :: "platform \<Rightarrow> jsval \<Rightarrow> jsval \<Rightarrow> pgraph \<Rightarrow> pgraph result" where
  "add_attestation p claimId a g =
     (case verifyAttestation p (str_of claimId) a of Inl r \<Rightarrow> Inl (Err (''invalid attestation: '' @ r))
      | Inr _ \<Rightarrow>
         let aid = get a ''attestationId''; b = get a ''body'' in
         rbind (digest p b) (\<lambda>d.
         let node = JObj [(''id'', aid), (''type'', JStr ''ATTEST''), (''verdict'', get b ''verdict''),
               (''attesterNodeId'', get a ''attesterNodeId''), (''digest'', JStr d)];
             g1 = add_edge (graph_edge aid claimId (verdict_edge (get b ''verdict''))) (g\<lparr>pg_nodes := pg_nodes g @ [node]\<rparr>) in
         rbind (fold_result (add_evidence p aid) (elems (get b ''evidence'')) g1) (\<lambda>g2.
         Inr (foldl (\<lambda>g pa. add_edge (graph_edge aid pa ''DERIVED_FROM_ATTESTATION'') g) g2
           (elems (oget (get b ''lineage'') ''parentAttestationIds''))))))"

definition edge_text :: "platform \<Rightarrow> jsval \<Rightarrow> string" where
  "edge_text p e = to_string p (get e ''from'') @ '':'' @ to_string p (get e ''type'') @ '':'' @ to_string p (get e ''to'')"

definition buildProvenanceGraph :: "platform \<Rightarrow> jsval \<Rightarrow> jsval \<Rightarrow> jsval result option" where
  "buildProvenanceGraph p claim attestations =
     (case verifyClaim p claim of Inl r \<Rightarrow> Some (Inl (Err (''invalid claim: '' @ r)))
      | Inr _ \<Rightarrow>
        if \<not> is_array attestations then Some (Inl (Err ''attestations must be an array''))
        else (case rbind (digest p (get claim ''body'')) (\<lambda>d.
              fold_result (add_attestation p (get claim ''claimId'')) (elems attestations)
                \<lparr>pg_nodes = [JObj [(''id'', get claim ''claimId''), (''type'', JStr ''CLAIM''), (''digest'', JStr d)]], pg_edges = [], pg_sources = []\<rparr>) of
            Inl e \<Rightarrow> Some (Inl e)
          | Inr g \<Rightarrow> (case analyzeAttestationIndependence p attestations of None \<Rightarrow> None
             | Some r \<Rightarrow> Some (rbind r (\<lambda>ind.
                 let graph = [(''version'', JNum 1), (''claimId'', get claim ''claimId''),
                   (''nodes'', JArr (js_sort (\<lambda>a b. lcmp p (str_of (get a ''id'')) (str_of (get b ''id''))) (pg_nodes g @ map snd (pg_sources g)))),
                   (''edges'', JArr (js_sort (\<lambda>a b. lcmp p (edge_text p a) (edge_text p b)) (pg_edges g))),
                   (''independence'', ind)] in
                 rbind (digest p (JObj graph)) (\<lambda>d. Inr (JObj (graph @ [(''graphDigest'', JStr d)]))))))))"

text \<open>The graph is built from verified attestations of this claim only, and building it always returns.\<close>

lemma fold_result_all: "fold_result f xs g = Inr g' \<Longrightarrow> x \<in> set xs \<Longrightarrow> \<exists>h h'. f x h = Inr h'"
  by (induction xs arbitrary: g) (auto simp: res_simps)

lemma analysis_returns: "analyzeAttestationIndependence p v \<noteq> None"
proof -
  have "group_roots tss \<noteq> None" for tss using group_roots_ok[of tss] by auto
  then show ?thesis unfolding analyzeAttestationIndependence_def
    by (simp del: not_None_eq split: sum.splits option.splits)
qed

lemma provenance_graph_sound:
  "buildProvenanceGraph p claim attestations \<noteq> None"
  "buildProvenanceGraph p claim attestations = Some (Inr g) \<Longrightarrow> (\<exists>c. verifyClaim p claim = Inr c) \<and>
     (\<forall>a\<in>set (elems attestations). \<exists>h. verifyAttestation p (str_of (get claim ''claimId'')) a = Inr h)"
proof -
  show "buildProvenanceGraph p claim attestations \<noteq> None"
    using analysis_returns[of p attestations] unfolding buildProvenanceGraph_def
    by (simp del: not_None_eq split: sum.splits option.splits)
  assume g: "buildProvenanceGraph p claim attestations = Some (Inr g)"
  then obtain c d g' where c: "verifyClaim p claim = Inr c" and
    f: "fold_result (add_attestation p (get claim ''claimId'')) (elems attestations)
      \<lparr>pg_nodes = [JObj [(''id'', get claim ''claimId''), (''type'', JStr ''CLAIM''), (''digest'', JStr d)]], pg_edges = [], pg_sources = []\<rparr> = Inr g'"
    by (auto simp: buildProvenanceGraph_def res_simps split: sum.splits if_splits)
  have "\<exists>h. verifyAttestation p (str_of (get claim ''claimId'')) a = Inr h" if "a \<in> set (elems attestations)" for a
    using fold_result_all[OF f that]
    by (cases "verifyAttestation p (str_of (get claim ''claimId'')) a") (auto simp: add_attestation_def)
  with c show "(\<exists>c. verifyClaim p claim = Inr c) \<and> (\<forall>a\<in>set (elems attestations). \<exists>h. verifyAttestation p (str_of (get claim ''claimId'')) a = Inr h)" by blast
qed

end
