(* ===== verification/Placement.thy ===== *)
theory Placement
  imports Claims
begin

text \<open>
  Placement of distributed context partitions, \<^verbatim>\<open>core/network/placement-discovery.js\<close>: signed placement
  records and revocations, directory peers that keep the newest record and revocation of every slot
  and gossip with each other, the choice of responsible peers, and the federated resolver that
  counts how many directories list a record. Shown: a revocation is final whatever order messages
  arrive in, as long as revocation sequences are integers (the verifier does not check that, and a
  malformed one blocks later ones); gossip leaves both peers with the same records and offers; the
  resolver lists exactly the records enough directories agree on.
\<close>

section \<open>Checks and keys\<close>

definition PLACEMENT_PROTOCOL :: string where
  "PLACEMENT_PROTOCOL = ''truyn-placement-v1''"

definition PLACEMENT_REVOCATION_PROTOCOL :: string where
  "PLACEMENT_REVOCATION_PROTOCOL = ''truyn-placement-revoke-v1''"

definition DISTRIBUTED_DISCOVERY_PROTOCOL :: string where
  "DISTRIBUTED_DISCOVERY_PROTOCOL = ''truyn-distributed-context-v1''"

text \<open>A \<^verbatim>\<open>try\<close> that turns a thrown error into a verdict with its message.\<close>

definition caught :: "'a result \<Rightarrow> 'a verdict" where
  "caught r = (case r of Inl e \<Rightarrow> Inl (message e) | Inr x \<Rightarrow> Inr x)"

text \<open>\<^verbatim>\<open>new Date(value).getTime()\<close>; \<open>None\<close> is NaN.\<close>

fun date_value :: "platform \<Rightarrow> jsval \<Rightarrow> int option" where
  "date_value p (JStr s) = date_parse p s"
| "date_value p (JNum r) = (if \<bar>r\<bar> \<le> 8640000000000000 then Some (if r < 0 then \<lceil>r\<rceil> else \<lfloor>r\<rfloor>) else None)"
| "date_value p JNull = Some 0"
| "date_value p (JBool b) = Some (if b then 1 else 0)"
| "date_value p JUndef = None"
| "date_value p JNaN = None"
| "date_value p (JInf s) = None"
| "date_value p v = date_parse p (to_string p v)"

definition ctx_root :: "jsval \<Rightarrow> bool" where
  "ctx_root v \<longleftrightarrow> is_string v \<and> take 10 (str_of v) = ''truyn:ctx:''"

definition normalizeRootCid :: "jsval \<Rightarrow> string result" where
  "normalizeRootCid rootCid = (if \<not> ctx_root rootCid then Inl (Err ''placement root CID is required'') else Inr (str_of rootCid))"

definition normalizePartition :: "jsval \<Rightarrow> jsval \<Rightarrow> unit result" where
  "normalizePartition index cnt =
     (if \<not> is_integer cnt \<or> num_of cnt < 1 \<or> num_of cnt > 4096 then Inl (Err ''placement partition count must be 1..4096'')
      else if \<not> is_integer index \<or> num_of index < 0 \<or> num_of index \<ge> num_of cnt then Inl (Err ''placement partition index is invalid'')
      else Inr ())"

definition normalizeIso :: "platform \<Rightarrow> jsval \<Rightarrow> string \<Rightarrow> string result" where
  "normalizeIso p v label = (case date_value p v of None \<Rightarrow> Inl (Err (label @ '' is invalid'')) | Some t \<Rightarrow> Inr (date_iso p t))"

definition placementKey :: "platform \<Rightarrow> jsval \<Rightarrow> jsval \<Rightarrow> jsval \<Rightarrow> string result" where
  "placementKey p rootCid index holder =
     rbind (normalizeRootCid rootCid) (\<lambda>cid. Inr (cid @ ''|'' @ to_string p index @ ''|'' @ to_string p holder))"

definition distributedDiscoveryCapability :: "platform \<Rightarrow> jsval \<Rightarrow> string result" where
  "distributedDiscoveryCapability p rootCid =
     (if \<not> ctx_root rootCid then Inl (Err ''distributed root CID is required'')
      else Inr (''context.distributed.'' @ take 32 (sha256 p (str_of rootCid))))"

definition distributedRequestCapability :: "platform \<Rightarrow> jsval \<Rightarrow> jsval \<Rightarrow> jsval \<Rightarrow> string result" where
  "distributedRequestCapability p rootCid holder index =
     (if \<not> is_string holder \<or> str_of holder = [] then Inl (Err ''distributed holder node ID is required'')
      else if \<not> is_integer index \<or> num_of index < 0 then Inl (Err ''distributed partition index is required'')
      else rbind (distributedDiscoveryCapability p rootCid) (\<lambda>d.
        Inr (d @ ''.'' @ to_string p index @ ''.'' @ take 16 (sha256 p (str_of holder)))))"

section \<open>Records\<close>

definition placement_body :: "jsval \<Rightarrow> jsval \<Rightarrow> jsval \<Rightarrow> jsval \<Rightarrow> jsval \<Rightarrow> string \<Rightarrow> jsval \<Rightarrow> jsval \<Rightarrow> entries" where
  "placement_body rootCid holder index cnt blocks capability sequence domainCommitment =
     [(''protocol'', JStr PLACEMENT_PROTOCOL), (''version'', JNum 1), (''rootCid'', rootCid), (''holderNodeId'', holder),
      (''partitionIndex'', index), (''partitionCount'', cnt), (''blockCount'', blocks), (''requestCapability'', JStr capability),
      (''sequence'', sequence), (''failureDomainCommitment'', trimmed_or_null domainCommitment)]"

definition placement_id :: "platform \<Rightarrow> string \<Rightarrow> jsval \<Rightarrow> string result" where
  "placement_id p prefix body = rbind (digest p body) (\<lambda>d. Inr (prefix @ drop 7 d))"

definition placement_signed :: "jsval \<Rightarrow> jsval \<Rightarrow> jsval \<Rightarrow> jsval \<Rightarrow> entries" where
  "placement_signed rid body issued expires =
     [(''recordId'', rid), (''body'', body), (''issuedAt'', issued), (''expiresAt'', expires)]"

definition createPlacementRecord ::
  "platform \<Rightarrow> identity \<Rightarrow> jsval \<Rightarrow> jsval \<Rightarrow> jsval \<Rightarrow> jsval \<Rightarrow> jsval \<Rightarrow> jsval \<Rightarrow> jsval \<Rightarrow> jsval \<Rightarrow> jsval result" where
  "createPlacementRecord p i rootCid index cnt blocks sequence issuedAt expiresAt domainCommitment =
     rbind (require_identity p ''placement holder identity is required'' ''placement holder identity key mismatch'' i) (\<lambda>_.
     rbind (normalizeRootCid rootCid) (\<lambda>cid.
     rbind (normalizePartition index cnt) (\<lambda>_.
     if \<not> is_integer blocks \<or> num_of blocks < 0 then Inl (Err ''placement blockCount must be a non-negative integer'')
     else if \<not> is_integer sequence \<or> num_of sequence < 1 then Inl (Err ''placement sequence must be >= 1'')
     else rbind (normalizeIso p issuedAt ''placement issuedAt'') (\<lambda>issued.
     rbind (normalizeIso p expiresAt ''placement expiresAt'') (\<lambda>expires.
     if (case (date_parse p expires, date_parse p issued) of (Some e, Some s) \<Rightarrow> e \<le> s | _ \<Rightarrow> False)
       then Inl (Err ''placement expiresAt must be after issuedAt'')
     else rbind (distributedRequestCapability p (JStr cid) (nodeId i) index) (\<lambda>capability.
     let body = JObj (placement_body (JStr cid) (nodeId i) index cnt blocks capability sequence domainCommitment) in
     rbind (placement_id p ''truyn:placement:'' body) (\<lambda>rid.
     let signed = placement_signed (JStr rid) body (JStr issued) (JStr expires) in
     rbind (signValue p (JObj signed) (privateKeyPem i)) (\<lambda>s.
       Inr (JObj (signed @ [(''publicKey'', publicKeyPem i), (''signature'', JStr s)]))))))))))"

text \<open>An accepted record: its identifier and when it expires.\<close>

definition verifyPlacementRecord :: "platform \<Rightarrow> int \<Rightarrow> bool \<Rightarrow> jsval \<Rightarrow> (jsval \<times> int) verdict" where
  "verifyPlacementRecord p now allowExpired r =
     (if \<exists>k\<in>set [''recordId'', ''body'', ''issuedAt'', ''expiresAt'', ''publicKey'', ''signature'']. \<not> truthy (oget r k)
        then Inl ''placement_missing_required_field''
      else let body = get r ''body'' in
      if get body ''protocol'' \<noteq> JStr PLACEMENT_PROTOCOL \<or> get body ''version'' \<noteq> JNum 1 then Inl ''placement_protocol_mismatch''
      else rbind (caught (normalizeRootCid (get body ''rootCid''))) (\<lambda>_.
      rbind (caught (normalizePartition (get body ''partitionIndex'') (get body ''partitionCount''))) (\<lambda>_.
      if \<not> is_integer (get body ''blockCount'') \<or> num_of (get body ''blockCount'') < 0 then Inl ''placement_block_count_invalid''
      else if \<not> is_integer (get body ''sequence'') \<or> num_of (get body ''sequence'') < 1 then Inl ''placement_sequence_invalid''
      else rbind (caught (distributedRequestCapability p (get body ''rootCid'') (get body ''holderNodeId'') (get body ''partitionIndex''))) (\<lambda>capability.
      if get body ''requestCapability'' \<noteq> JStr capability then Inl ''placement_request_capability_mismatch''
      else rbind (caught (nodeIdFromPublicKey p (get r ''publicKey''))) (\<lambda>n.
      if JStr n \<noteq> get body ''holderNodeId'' then Inl ''placement_holder_key_mismatch''
      else rbind (caught (placement_id p ''truyn:placement:'' body)) (\<lambda>expected.
      if JStr expected \<noteq> get r ''recordId'' then Inl ''placement_content_id_mismatch''
      else (case (date_value p (get r ''issuedAt''), date_value p (get r ''expiresAt'')) of
        (Some issued, Some expires) \<Rightarrow>
          if expires \<le> issued then Inl ''placement_time_invalid''
          else if \<not> allowExpired \<and> now \<ge> expires then Inl ''placement_expired''
          else rbind (caught (verifyValue p (JObj (placement_signed (get r ''recordId'') body (get r ''issuedAt'') (get r ''expiresAt'')))
                 (get r ''signature'') (get r ''publicKey''))) (\<lambda>ok.
               if ok then Inr (get r ''recordId'', expires) else Inl ''placement_signature_invalid'')
      | _ \<Rightarrow> Inl ''placement_time_invalid'')))))))"

section \<open>Revocations\<close>

definition revocation_body :: "jsval \<Rightarrow> jsval \<Rightarrow> jsval \<Rightarrow> jsval \<Rightarrow> entries" where
  "revocation_body r holder sequence reasonDigest =
     [(''protocol'', JStr PLACEMENT_REVOCATION_PROTOCOL), (''version'', JNum 1), (''recordId'', get r ''recordId''),
      (''rootCid'', get (get r ''body'') ''rootCid''), (''holderNodeId'', holder),
      (''partitionIndex'', get (get r ''body'') ''partitionIndex''),
      (''sequence'', if is_integer sequence then sequence else get (get r ''body'') ''sequence''),
      (''reasonDigest'', trimmed_or_null reasonDigest)]"

definition revocation_signed :: "jsval \<Rightarrow> jsval \<Rightarrow> jsval \<Rightarrow> entries" where
  "revocation_signed rid body revokedAt = [(''revocationId'', rid), (''body'', body), (''revokedAt'', revokedAt)]"

definition createPlacementRevocation :: "platform \<Rightarrow> int \<Rightarrow> identity \<Rightarrow> jsval \<Rightarrow> jsval \<Rightarrow> jsval \<Rightarrow> jsval \<Rightarrow> jsval result" where
  "createPlacementRevocation p now i r sequence reasonDigest revokedAt =
     rbind (require_identity p ''placement revoker identity is required'' ''placement revoker identity key mismatch'' i) (\<lambda>_.
     case verifyPlacementRecord p now True r of
       Inl reason \<Rightarrow> Inl (Err (''cannot revoke invalid placement: '' @ reason))
     | Inr _ \<Rightarrow>
        if get (get r ''body'') ''holderNodeId'' \<noteq> nodeId i then Inl (Err ''placement revocation must be signed by holder'')
        else let body = JObj (revocation_body r (nodeId i) sequence reasonDigest) in
        rbind (placement_id p ''truyn:placement-revoke:'' body) (\<lambda>rid.
        rbind (normalizeIso p revokedAt ''placement revokedAt'') (\<lambda>instant.
        let signed = revocation_signed (JStr rid) body (JStr instant) in
        rbind (signValue p (JObj signed) (privateKeyPem i)) (\<lambda>s.
          Inr (JObj (signed @ [(''publicKey'', publicKeyPem i), (''signature'', JStr s)]))))))"

definition verifyPlacementRevocation :: "platform \<Rightarrow> jsval \<Rightarrow> jsval verdict" where
  "verifyPlacementRevocation p v =
     (if \<exists>k\<in>set [''revocationId'', ''body'', ''revokedAt'', ''publicKey'', ''signature'']. \<not> truthy (oget v k)
        then Inl ''placement_revocation_missing_required_field''
      else let body = get v ''body'' in
      if get body ''protocol'' \<noteq> JStr PLACEMENT_REVOCATION_PROTOCOL \<or> get body ''version'' \<noteq> JNum 1
        then Inl ''placement_revocation_protocol_mismatch''
      else rbind (caught (nodeIdFromPublicKey p (get v ''publicKey''))) (\<lambda>n.
      if JStr n \<noteq> get body ''holderNodeId'' then Inl ''placement_revocation_holder_key_mismatch''
      else rbind (caught (placement_id p ''truyn:placement-revoke:'' body)) (\<lambda>expected.
      if JStr expected \<noteq> get v ''revocationId'' then Inl ''placement_revocation_content_id_mismatch''
      else rbind (caught (verifyValue p (JObj (revocation_signed (get v ''revocationId'') body (get v ''revokedAt'')))
             (get v ''signature'') (get v ''publicKey''))) (\<lambda>ok.
           if ok then Inr (get v ''revocationId'') else Inl ''placement_revocation_signature_invalid''))))"

section \<open>Directory peers\<close>

record directory =
  peerId :: string
  dp_records :: "(string, jsval) jsmap"
  dp_revocations :: "(string, jsval) jsmap"

definition directory_new :: "jsval \<Rightarrow> directory result" where
  "directory_new pid = (if \<not> nonblank pid then Inl (Err ''placement directory peerId is required'')
     else Inr \<lparr>peerId = trim (str_of pid), dp_records = [], dp_revocations = []\<rparr>)"

abbreviation body_of :: "jsval \<Rightarrow> string \<Rightarrow> jsval" where
  "body_of r k \<equiv> get (get r ''body'') k"

definition slot_of :: "platform \<Rightarrow> jsval \<Rightarrow> string result" where
  "slot_of p r = placementKey p (body_of r ''rootCid'') (body_of r ''partitionIndex'') (body_of r ''holderNodeId'')"

text \<open>The outcome of an ingestion: what was thrown, or the verdict; and the directory after it.\<close>

definition ingestRecord :: "platform \<Rightarrow> int \<Rightarrow> jsval \<Rightarrow> directory \<Rightarrow> jsval verdict result \<times> directory" where
  "ingestRecord p now r d =
     (case verifyPlacementRecord p now False r of Inl reason \<Rightarrow> (Inr (Inl reason), d)
      | Inr _ \<Rightarrow> (case slot_of p r of Inl e \<Rightarrow> (Inl e, d)
      | Inr key \<Rightarrow>
         let accept = (Inr (Inr (get r ''recordId'')), d\<lparr>dp_records := jmap_set key r (dp_records d)\<rparr>) in
         (case jmap_get (dp_records d) key of
            None \<Rightarrow> accept
          | Some existing \<Rightarrow>
              if js_less p (body_of r ''sequence'') (body_of existing ''sequence'') then (Inr (Inl ''placement_older_sequence''), d)
              else if strict_eq (body_of existing ''sequence'') (body_of r ''sequence'') \<and> get existing ''recordId'' \<noteq> get r ''recordId''
                then (Inr (Inl ''placement_equivocation_same_sequence''), d)
              else accept)))"

definition ingestRevocation :: "platform \<Rightarrow> jsval \<Rightarrow> directory \<Rightarrow> jsval verdict result \<times> directory" where
  "ingestRevocation p v d =
     (case verifyPlacementRevocation p v of Inl reason \<Rightarrow> (Inr (Inl reason), d)
      | Inr _ \<Rightarrow> (case slot_of p v of Inl e \<Rightarrow> (Inl e, d)
      | Inr key \<Rightarrow>
         (Inr (Inr (get v ''revocationId'')),
          (case jmap_get (dp_revocations d) key of
             None \<Rightarrow> d\<lparr>dp_revocations := jmap_set key v (dp_revocations d)\<rparr>
           | Some existing \<Rightarrow>
               if js_geq p (body_of v ''sequence'') (body_of existing ''sequence'')
               then d\<lparr>dp_revocations := jmap_set key v (dp_revocations d)\<rparr> else d))))"

definition found_cmp :: "platform \<Rightarrow> jsval \<Rightarrow> jsval \<Rightarrow> int" where
  "found_cmp p l r = or_else (int_of (body_of l ''partitionIndex'') - int_of (body_of r ''partitionIndex''))
     (lcmp p (str_of (body_of l ''holderNodeId'')) (str_of (body_of r ''holderNodeId'')))"

definition offered :: "platform \<Rightarrow> int \<Rightarrow> string \<Rightarrow> (string, jsval) jsmap \<Rightarrow> string \<times> jsval \<Rightarrow> bool" where
  "offered p now cid revs = (\<lambda>(key, r). body_of r ''rootCid'' = JStr cid \<and> 
     (case verifyPlacementRecord p now False r of Inr _ \<Rightarrow> True | Inl _ \<Rightarrow> False) \<and>
     (case jmap_get revs key of None \<Rightarrow> True | Some v \<Rightarrow> \<not> js_geq p (body_of v ''sequence'') (body_of r ''sequence'')))"

definition find_placements :: "platform \<Rightarrow> jsval \<Rightarrow> int \<Rightarrow> directory \<Rightarrow> jsval list result" where
  "find_placements p rootCid now d =
     rbind (normalizeRootCid rootCid) (\<lambda>cid.
       Inr (js_sort (found_cmp p) (map snd (filter (offered p now cid (dp_revocations d)) (dp_records d)))))"

definition exportState :: "directory \<Rightarrow> jsval list \<times> jsval list" where
  "exportState d = (map snd (dp_records d), map snd (dp_revocations d))"

text \<open>A loop that counts what was accepted and stops at a thrown error.\<close>

fun ingest_each :: "(jsval \<Rightarrow> directory \<Rightarrow> jsval verdict result \<times> directory) \<Rightarrow> jsval list \<Rightarrow> directory \<Rightarrow> nat result \<times> directory" where
  "ingest_each f [] d = (Inr 0, d)"
| "ingest_each f (x # xs) d = (case f x d of
       (Inl e, d') \<Rightarrow> (Inl e, d')
     | (Inr v, d') \<Rightarrow> (let (n, d'') = ingest_each f xs d' in
         (rbind n (\<lambda>k. Inr (k + (case v of Inr _ \<Rightarrow> 1 | Inl _ \<Rightarrow> 0))), d'')))"

definition importState :: "platform \<Rightarrow> int \<Rightarrow> jsval list \<times> jsval list \<Rightarrow> directory \<Rightarrow> (nat \<times> nat) result \<times> directory" where
  "importState p now state d =
     (case ingest_each (ingestRecord p now) (fst state) d of
        (Inl e, d') \<Rightarrow> (Inl e, d')
      | (Inr n, d') \<Rightarrow> (case ingest_each (ingestRevocation p) (snd state) d' of
          (Inl e, d'') \<Rightarrow> (Inl e, d'')
        | (Inr m, d'') \<Rightarrow> (Inr (n, m), d'')))"

text \<open>Gossip between two different peers.\<close>

definition gossipWith :: "platform \<Rightarrow> int \<Rightarrow> directory \<Rightarrow> directory \<Rightarrow> ((nat \<times> nat) \<times> (nat \<times> nat)) result \<times> directory \<times> directory" where
  "gossipWith p now d e =
     (let mine = exportState d; theirs = exportState e in
      case importState p now theirs d of
        (Inl x, d') \<Rightarrow> (Inl x, d', e)
      | (Inr l, d') \<Rightarrow> (case importState p now mine e of
          (Inl x, e') \<Rightarrow> (Inl x, d', e')
        | (Inr r, e') \<Rightarrow> (Inr (l, r), d', e')))"

section \<open>Responsible peers and the resolver\<close>

text \<open>The peers of an array are objects the operations update in place: they are named by position.\<close>

definition rank_cmp :: "platform \<Rightarrow> string \<Rightarrow> directory list \<Rightarrow> nat \<Rightarrow> nat \<Rightarrow> int" where
  "rank_cmp p cid peers l r = or_else
     (lcmp p (sha256 p (cid @ ''|'' @ peerId (peers ! r))) (sha256 p (cid @ ''|'' @ peerId (peers ! l))))
     (lcmp p (peerId (peers ! l)) (peerId (peers ! r)))"

definition placementResponsiblePeers :: "platform \<Rightarrow> jsval \<Rightarrow> directory list \<Rightarrow> jsval \<Rightarrow> nat list result" where
  "placementResponsiblePeers p rootCid peers replicationFactor =
     rbind (normalizeRootCid rootCid) (\<lambda>cid.
       if peers = [] then Inl (Err ''placement peers are required'')
       else if \<not> is_integer replicationFactor \<or> num_of replicationFactor < 1 then Inl (Err ''placement replicationFactor must be >= 1'')
       else Inr (take (min (nat (int_of replicationFactor)) (length peers))
         (js_sort (rank_cmp p cid peers) [0..<length peers])))"

fun ingest_at :: "platform \<Rightarrow> int \<Rightarrow> jsval \<Rightarrow> nat list \<Rightarrow> directory list \<Rightarrow> (string \<times> jsval verdict) list result \<times> directory list" where
  "ingest_at p now r [] peers = (Inr [], peers)"
| "ingest_at p now r (i # ix) peers = (case ingestRecord p now r (peers ! i) of
       (Inl e, d) \<Rightarrow> (Inl e, peers[i := d])
     | (Inr v, d) \<Rightarrow> (let (out, peers') = ingest_at p now r ix (peers[i := d]) in
         (rbind out (\<lambda>vs. Inr ((peerId d, v) # vs)), peers')))"

definition publishPlacementDht :: "platform \<Rightarrow> jsval \<Rightarrow> directory list \<Rightarrow> jsval \<Rightarrow> int \<Rightarrow>
    (string list \<times> (string \<times> jsval verdict) list) result \<times> directory list" where
  "publishPlacementDht p r peers replicationFactor now =
     (case verifyPlacementRecord p now False r of
        Inl reason \<Rightarrow> (Inl (Err (''invalid placement record: '' @ reason)), peers)
      | Inr _ \<Rightarrow> (case placementResponsiblePeers p (body_of r ''rootCid'') peers replicationFactor of
          Inl e \<Rightarrow> (Inl e, peers)
        | Inr ix \<Rightarrow> (let (out, peers') = ingest_at p now r ix peers in
            (rbind out (\<lambda>vs. Inr (map (\<lambda>i. peerId (peers ! i)) ix, vs)), peers'))))"

record resolver =
  fr_peers :: "directory list"
  minDirectoryAgreement :: nat
  trustResolver :: "(jsval \<Rightarrow> jsval) option"
  replicationFactor :: jsval

definition resolver_new :: "directory list \<Rightarrow> jsval \<Rightarrow> (jsval \<Rightarrow> jsval) option \<Rightarrow> jsval \<Rightarrow> resolver result" where
  "resolver_new peers agreement trust factor =
     (if peers = [] then Inl (Err ''federated placement resolver requires peers'')
      else if \<not> is_integer agreement \<or> num_of agreement < 1 then Inl (Err ''minDirectoryAgreement must be >= 1'')
      else Inr \<lparr>fr_peers = peers, minDirectoryAgreement = nat (int_of agreement), trustResolver = trust, replicationFactor = factor\<rparr>)"

text \<open>The sightings: by record identifier the first record seen and the peers that listed it.\<close>

type_synonym sightings = "(jsval, jsval \<times> string list) jsmap"

definition sight :: "platform \<Rightarrow> int \<Rightarrow> string \<Rightarrow> jsval \<Rightarrow> sightings \<Rightarrow> sightings" where
  "sight p now pid r m =
     (case verifyPlacementRecord p now False r of Inl _ \<Rightarrow> m
      | Inr _ \<Rightarrow> (case jmap_get m (get r ''recordId'') of
          None \<Rightarrow> jmap_set (get r ''recordId'') (r, [pid]) m
        | Some (r', pids) \<Rightarrow> jmap_set (get r ''recordId'') (r', if pid \<in> set pids then pids else pids @ [pid]) m))"

fun collect_sightings :: "platform \<Rightarrow> jsval \<Rightarrow> int \<Rightarrow> directory list \<Rightarrow> sightings \<Rightarrow> sightings result" where
  "collect_sightings p rootCid now [] m = Inr m"
| "collect_sightings p rootCid now (d # ds) m =
     rbind (find_placements p rootCid now d) (\<lambda>rs. collect_sightings p rootCid now ds (fold (sight p now (peerId d)) rs m))"

definition findRecords :: "platform \<Rightarrow> jsval \<Rightarrow> int \<Rightarrow> resolver \<Rightarrow> (jsval \<times> nat \<times> string list) list result" where
  "findRecords p rootCid now fr =
     rbind (placementResponsiblePeers p rootCid (fr_peers fr) (replicationFactor fr)) (\<lambda>ix.
     rbind (collect_sightings p rootCid now (map (nth (fr_peers fr)) ix) []) (\<lambda>m.
       Inr (map (\<lambda>(rid, r, pids). (r, length pids, js_sort cmp_ascii pids))
         (filter (\<lambda>(rid, r, pids). length pids \<ge> minDirectoryAgreement fr) m))))"

definition placement_offer :: "resolver \<Rightarrow> jsval \<times> nat \<times> string list \<Rightarrow> jsval" where
  "placement_offer fr = (\<lambda>(r, n, pids).
     let trust = (case trustResolver fr of None \<Rightarrow> JNull | Some f \<Rightarrow> f (body_of r ''holderNodeId'')) in
     JObj [(''from'', body_of r ''holderNodeId''), (''publicKey'', get r ''publicKey''), (''trust'', if truthy trust then trust else JNull),
       (''payload'', JObj [(''metadata'', JObj [(''distributedContext'', JObj
         [(''protocol'', JStr DISTRIBUTED_DISCOVERY_PROTOCOL), (''version'', JNum 1), (''role'', JStr ''context-partition-holder''),
          (''rootCid'', body_of r ''rootCid''), (''holderNodeId'', body_of r ''holderNodeId''),
          (''partitionIndex'', body_of r ''partitionIndex''), (''partitionCount'', body_of r ''partitionCount''),
          (''requestCapability'', body_of r ''requestCapability''), (''blockCount'', body_of r ''blockCount''),
          (''placement'', JObj [(''recordId'', get r ''recordId''), (''issuedAt'', get r ''issuedAt''), (''expiresAt'', get r ''expiresAt''),
             (''directoryAgreement'', JNum (of_nat n)), (''directoryPeerIds'', texts pids),
             (''failureDomainCommitment'', body_of r ''failureDomainCommitment'')])])])])])"

definition findOffers :: "platform \<Rightarrow> jsval \<Rightarrow> int \<Rightarrow> resolver \<Rightarrow> jsval list result" where
  "findOffers p rootCid now fr = rbind (findRecords p rootCid now fr) (\<lambda>es. Inr (map (placement_offer fr) es))"


section \<open>What an accepted message carries\<close>

lemma caught_eq [res_simps]: "caught r = Inr x \<longleftrightarrow> r = Inr x"
  by (cases r) (auto simp: caught_def)

lemma js_less_ints [simp]: "js_less p (JNum a) (JNum b) \<longleftrightarrow> a < b"
  by (simp add: js_less_def)

lemma js_geq_nums [simp]: "js_geq p (JNum a) (JNum b) \<longleftrightarrow> b \<le> a"
  by (auto simp: js_geq_def)

definition seq_of :: "jsval \<Rightarrow> int" where
  "seq_of r = int_of (body_of r ''sequence'')"

lemma seq_of_integer: "is_integer (body_of r ''sequence'') \<Longrightarrow> body_of r ''sequence'' = JNum (of_int (seq_of r))"
  by (elim is_integer_obtain) (simp add: seq_of_def)

lemma placement_record_cases:
  assumes "verifyPlacementRecord p now allow r = Inr x"
  obtains cid e where "body_of r ''rootCid'' = JStr cid" "ctx_root (JStr cid)" "is_integer (body_of r ''partitionIndex'')"
    "body_of r ''sequence'' = JNum (of_int (seq_of r))" "1 \<le> seq_of r"
    "date_value p (get r ''expiresAt'') = Some e" "allow \<or> now < e" "x = (get r ''recordId'', e)"
proof -
  from assms have int: "is_integer (body_of r ''sequence'')" "1 \<le> num_of (body_of r ''sequence'')" "ctx_root (body_of r ''rootCid'')"
    "is_integer (body_of r ''partitionIndex'')"
    by (auto simp: verifyPlacementRecord_def normalizeRootCid_def normalizePartition_def Let_def res_simps simp del: Inr_not_Inl)
  moreover from assms obtain e where "date_value p (get r ''expiresAt'') = Some e" "allow \<or> now < e" "x = (get r ''recordId'', e)"
    by (auto simp: verifyPlacementRecord_def Let_def res_simps split: option.splits if_splits)
  moreover have "1 \<le> seq_of r"
    using int(2) seq_of_integer[OF int(1)] by simp
  ultimately show thesis using that seq_of_integer by (cases "body_of r ''rootCid''") (auto simp: ctx_root_def)
qed

lemma placement_record_later:
  assumes "verifyPlacementRecord p now False r = Inr x" "date_value p (get r ''expiresAt'') = Some e" "now' < e"
  shows "verifyPlacementRecord p now' False r = Inr x"
  using assms by (auto simp: verifyPlacementRecord_def Let_def res_simps split: option.splits if_splits)

lemma slot_of_record: "verifyPlacementRecord p now allow r = Inr x \<Longrightarrow> \<exists>k. slot_of p r = Inr k"
  by (erule placement_record_cases) (simp add: slot_of_def placementKey_def normalizeRootCid_def)

section \<open>Directories over any history\<close>

datatype dir_event = Ingest int jsval | Revoke jsval | Import int "jsval list" "jsval list"

definition dir_step :: "platform \<Rightarrow> dir_event \<Rightarrow> directory \<Rightarrow> directory" where
  "dir_step p ev d = (case ev of
       Ingest now r \<Rightarrow> snd (ingestRecord p now r d)
     | Revoke v \<Rightarrow> snd (ingestRevocation p v d)
     | Import now rs vs \<Rightarrow> snd (importState p now (rs, vs) d))"

definition dir_run :: "platform \<Rightarrow> dir_event list \<Rightarrow> directory \<Rightarrow> directory" where
  "dir_run p evs d = fold (dir_step p) evs d"

definition directory_ok :: "platform \<Rightarrow> directory \<Rightarrow> bool" where
  "directory_ok p d \<longleftrightarrow> jmap_ok (dp_records d) \<and> jmap_ok (dp_revocations d) \<and>
     (\<forall>(k, r)\<in>set (dp_records d). slot_of p r = Inr k \<and> (\<exists>now x. verifyPlacementRecord p now False r = Inr x)) \<and>
     (\<forall>(k, v)\<in>set (dp_revocations d). slot_of p v = Inr k \<and> (\<exists>x. verifyPlacementRevocation p v = Inr x))"

lemma ingest_each_keeps:
  assumes "\<And>x d. x \<in> set xs \<Longrightarrow> P d \<Longrightarrow> P (snd (f x d))" "P d"
  shows "P (snd (ingest_each f xs d))"
  using assms
proof (induction xs arbitrary: d)
  case (Cons x xs)
  obtain v d' where f: "f x d = (v, d')" by fastforce
  have d': "P d'" using Cons.prems(1)[of x d] Cons.prems(2) f by simp
  then have "P (snd (ingest_each f xs d'))" by (intro Cons.IH) (use Cons.prems(1) in simp_all)
  with d' show ?case using f by (cases v) (auto split: prod.splits)
qed simp

lemma importState_keeps:
  assumes "\<And>r d. r \<in> set (fst s) \<Longrightarrow> P d \<Longrightarrow> P (snd (ingestRecord p now r d))"
    "\<And>v d. v \<in> set (snd s) \<Longrightarrow> P d \<Longrightarrow> P (snd (ingestRevocation p v d))" "P d"
  shows "P (snd (importState p now s d))"
proof -
  obtain n d' where n: "ingest_each (ingestRecord p now) (fst s) d = (n, d')" by fastforce
  have "P (snd (ingest_each (ingestRecord p now) (fst s) d))" by (rule ingest_each_keeps[where P = P]) (use assms in auto)
  with n have d': "P d'" by simp
  have "P (snd (ingest_each (ingestRevocation p) (snd s) d'))" by (rule ingest_each_keeps[where P = P]) (use assms d' in auto)
  with d' n show ?thesis by (auto simp: importState_def split: sum.splits prod.splits)
qed

text \<open>The messages of a history, and an invariant that every one of them keeps.\<close>

fun event_records :: "dir_event \<Rightarrow> jsval set" and event_revocations :: "dir_event \<Rightarrow> jsval set" where
  "event_records (Ingest now r) = {r}"
| "event_records (Revoke v) = {}"
| "event_records (Import now rs vs) = set rs"
| "event_revocations (Ingest now r) = {}"
| "event_revocations (Revoke v) = {v}"
| "event_revocations (Import now rs vs) = set vs"

lemma dir_step_keeps:
  assumes "\<And>now r d. r \<in> event_records ev \<Longrightarrow> P d \<Longrightarrow> P (snd (ingestRecord p now r d))"
    "\<And>v d. v \<in> event_revocations ev \<Longrightarrow> P d \<Longrightarrow> P (snd (ingestRevocation p v d))" "P d"
  shows "P (dir_step p ev d)"
  using assms importState_keeps[where P = P and d = d] by (cases ev) (auto simp: dir_step_def)

lemma dir_run_keeps:
  assumes "\<And>now r d. r \<in> \<Union> (event_records ` set evs) \<Longrightarrow> P d \<Longrightarrow> P (snd (ingestRecord p now r d))"
    "\<And>v d. v \<in> \<Union> (event_revocations ` set evs) \<Longrightarrow> P d \<Longrightarrow> P (snd (ingestRevocation p v d))" "P d"
  shows "P (dir_run p evs d)"
  using assms
proof (induction evs arbitrary: d)
  case (Cons ev evs)
  have "P (dir_step p ev d)" by (rule dir_step_keeps[where P = P]) (use Cons.prems in auto)
  then show ?case using Cons.IH[of "dir_step p ev d"] Cons.prems by (auto simp: dir_run_def)
qed (simp add: dir_run_def)

lemma ingestRecord_ok: "directory_ok p d \<Longrightarrow> directory_ok p (snd (ingestRecord p now r d))"
  unfolding directory_ok_def ingestRecord_def Let_def
  by (auto split: sum.splits option.splits dest!: set_update_subset[THEN subsetD])

lemma ingestRevocation_ok: "directory_ok p d \<Longrightarrow> directory_ok p (snd (ingestRevocation p v d))"
  unfolding directory_ok_def ingestRevocation_def
  by (auto split: sum.splits option.splits dest!: set_update_subset[THEN subsetD])

lemma dir_run_ok: "directory_ok p d \<Longrightarrow> directory_ok p (dir_run p evs d)"
  by (rule dir_run_keeps[where P = "directory_ok p"]) (auto intro: ingestRecord_ok ingestRevocation_ok)

lemma directory_new_ok: "directory_new pid = Inr d \<Longrightarrow> directory_ok p d"
  by (auto simp: directory_new_def directory_ok_def split: if_splits)

section \<open>A revocation is final\<close>

text \<open>The slot is revoked up to a sequence, or its revocation, if any, has an integer sequence.\<close>

definition revoked_upto :: "string \<Rightarrow> int \<Rightarrow> directory \<Rightarrow> bool" where
  "revoked_upto k s d \<longleftrightarrow> (\<exists>v. jmap_get (dp_revocations d) k = Some v \<and> is_integer (body_of v ''sequence'') \<and> s \<le> seq_of v)"

definition integer_revocation :: "string \<Rightarrow> directory \<Rightarrow> bool" where
  "integer_revocation k d \<longleftrightarrow> (\<forall>v. jmap_get (dp_revocations d) k = Some v \<longrightarrow> is_integer (body_of v ''sequence''))"

definition wellformed_revocation :: "platform \<Rightarrow> string \<Rightarrow> jsval \<Rightarrow> bool" where
  "wellformed_revocation p k v \<longleftrightarrow> (slot_of p v = Inr k \<longrightarrow> is_integer (body_of v ''sequence''))"

lemma ingestRecord_revocations [simp]: "dp_revocations (snd (ingestRecord p now r d)) = dp_revocations d"
  by (simp add: ingestRecord_def Let_def split: sum.splits option.splits)

lemma ingestRecord_slots [simp]:
  "integer_revocation k (snd (ingestRecord p now r d)) = integer_revocation k d"
  "revoked_upto k s (snd (ingestRecord p now r d)) = revoked_upto k s d"
  by (simp_all add: integer_revocation_def revoked_upto_def)

lemma integer_revocation_keeps:
  "wellformed_revocation p k v \<Longrightarrow> integer_revocation k d \<Longrightarrow> integer_revocation k (snd (ingestRevocation p v d))"
  unfolding integer_revocation_def ingestRevocation_def wellformed_revocation_def
  by (auto split: sum.splits option.splits)

lemma js_geq_seq:
  "is_integer (body_of v ''sequence'') \<Longrightarrow> is_integer (body_of r ''sequence'') \<Longrightarrow>
     js_geq p (body_of v ''sequence'') (body_of r ''sequence'') \<longleftrightarrow> seq_of r \<le> seq_of v"
  using seq_of_integer[of v] seq_of_integer[of r] js_geq_nums[of p "of_int (seq_of v)" "of_int (seq_of r)"] by simp

lemma revoked_upto_keeps:
  "wellformed_revocation p k v \<Longrightarrow> revoked_upto k s d \<Longrightarrow> revoked_upto k s (snd (ingestRevocation p v d))"
  unfolding revoked_upto_def ingestRevocation_def wellformed_revocation_def
  by (auto split: sum.splits option.splits simp: js_geq_seq)

lemma revocation_takes_effect:
  assumes "verifyPlacementRevocation p v = Inr x" "slot_of p v = Inr k" "is_integer (body_of v ''sequence'')" "integer_revocation k d"
  shows "revoked_upto k (seq_of v) (snd (ingestRevocation p v d))"
  using assms unfolding revoked_upto_def ingestRevocation_def integer_revocation_def
  by (auto split: option.splits simp: js_geq_seq)

lemma dir_run_append: "dir_run p (xs @ ys) d = dir_run p ys (dir_run p xs d)"
  by (simp add: dir_run_def)

lemma not_found_when_revoked:
  assumes "directory_ok p d" "revoked_upto k s d" "find_placements p cid now d = Inr rs" "r \<in> set rs" "slot_of p r = Inr k"
  shows "s < seq_of r"
proof -
  from assms(3,4) obtain k' c where kr: "(k', r) \<in> set (dp_records d)" "offered p now c (dp_revocations d) (k', r)"
    by (auto simp: find_placements_def res_simps)
  with assms(1,5) have "k' = k" by (fastforce simp: directory_ok_def)
  with kr(2) assms(2) obtain v where v: "is_integer (body_of v ''sequence'')" "s \<le> seq_of v"
    "\<not> js_geq p (body_of v ''sequence'') (body_of r ''sequence'')" by (auto simp: offered_def revoked_upto_def)
  from kr(2) obtain x where "verifyPlacementRecord p now False r = Inr x" by (auto simp: offered_def split: sum.splits)
  then have "is_integer (body_of r ''sequence'')" by (elim placement_record_cases) simp
  with v js_geq_seq[of v r p] show ?thesis by simp
qed


section \<open>What is created verifies\<close>

lemma signature_nonempty: "bytes bs \<Longrightarrow> length bs = 64 \<Longrightarrow> b64_text bs \<noteq> []"
  using signature_text_nonblank[OF signature_text_b64, of bs] by (auto simp: nonblank_def trim_def)

lemma created_placement_verifies:
  assumes date: "date_law p" "\<forall>t. date_iso p t \<noteq> []" and keys: "key_pair p (privateKeyPem i) (publicKeyPem i)"
    and r: "createPlacementRecord p i cid index cnt blocks sequence issuedAt expiresAt dc = Inr r"
    and e: "date_value p expiresAt = Some e" "now < e"
  shows "verifyPlacementRecord p now False r = Inr (get r ''recordId'', e)"
    and "body_of r ''rootCid'' = cid" "body_of r ''partitionIndex'' = index" "body_of r ''holderNodeId'' = nodeId i" "body_of r ''sequence'' = sequence"
proof -
  from r obtain n where i: "nodeIdFromPublicKey p (publicKeyPem i) = Inr n" "nodeId i = JStr n" "truthy (publicKeyPem i)"
    by (auto simp: createPlacementRecord_def require_identity_def res_simps)
  from r have c: "ctx_root cid" "normalizePartition index cnt = Inr ()" "is_integer blocks" "0 \<le> num_of blocks"
    "is_integer sequence" "1 \<le> num_of sequence"
    by (auto simp: createPlacementRecord_def normalizeRootCid_def res_simps)
  then have cid: "JStr (str_of cid) = cid" by (cases cid) (auto simp: ctx_root_def)
  from r obtain t where t: "date_value p issuedAt = Some t"
    by (auto simp: createPlacementRecord_def normalizeIso_def res_simps split: option.splits)
  from r t e cid date(1) have te: "t < e" 
    by (auto simp: createPlacementRecord_def normalizeIso_def date_law_def res_simps)
  let ?b = "\<lambda>cp. JObj (placement_body cid (nodeId i) index cnt blocks cp sequence dc)"
  let ?s = "\<lambda>cp rid. placement_signed (JStr rid) (?b cp) (JStr (date_iso p t)) (JStr (date_iso p e))"
  from r t e cid obtain cp rid s where cp: "distributedRequestCapability p cid (nodeId i) index = Inr cp"
    and rid: "placement_id p ''truyn:placement:'' (?b cp) = Inr rid"
    and s: "signValue p (JObj (?s cp rid)) (privateKeyPem i) = Inr s"
    and rr: "r = JObj (?s cp rid @ [(''publicKey'', publicKeyPem i), (''signature'', JStr s)])"
    by (auto simp: createPlacementRecord_def normalizeIso_def normalizeRootCid_def res_simps Let_def split: if_splits)
  from keys s obtain bs where bs: "bytes bs" "length bs = 64" "s = b64_text bs"
    and ok: "verifyValue p (JObj (?s cp rid)) (JStr s) (publicKeyPem i) = Inr True" by (rule signValue_verifies)
  have body: "get r ''body'' = ?b cp" by (simp add: rr placement_signed_def)
  have b: "body_of r ''rootCid'' = cid" "body_of r ''partitionIndex'' = index" "body_of r ''holderNodeId'' = nodeId i" "body_of r ''sequence'' = sequence"
    "body_of r ''protocol'' = JStr PLACEMENT_PROTOCOL" "body_of r ''version'' = JNum 1" "body_of r ''partitionCount'' = cnt" "body_of r ''blockCount'' = blocks"
    "body_of r ''requestCapability'' = JStr cp"
    unfolding body by (simp_all add: placement_body_def)
  then show "body_of r ''rootCid'' = cid" "body_of r ''partitionIndex'' = index" "body_of r ''holderNodeId'' = nodeId i" "body_of r ''sequence'' = sequence"
    by simp_all
  have top: "get r ''recordId'' = JStr rid" "get r ''issuedAt'' = JStr (date_iso p t)" "get r ''expiresAt'' = JStr (date_iso p e)"
    "get r ''publicKey'' = publicKeyPem i" "get r ''signature'' = JStr s" "\<not> nullish r" by (simp_all add: rr placement_signed_def)
  have "rid \<noteq> []" using rid by (auto simp: placement_id_def res_simps)
  then have "\<forall>k\<in>set [''recordId'', ''body'', ''issuedAt'', ''expiresAt'', ''publicKey'', ''signature'']. truthy (oget r k)"
    using top date(2) i(3) signature_nonempty[OF bs(1,2)] bs(3) by (simp add: oget_def body)
  moreover have "date_value p (JStr (date_iso p t)) = Some t" "date_value p (JStr (date_iso p e)) = Some e" using date(1) by (simp_all add: date_law_def)
  ultimately show "verifyPlacementRecord p now False r = Inr (get r ''recordId'', e)"
    using c i cp rid[folded body] ok[folded body] te e(2)
    by (simp add: verifyPlacementRecord_def Let_def b top caught_def normalizeRootCid_def del: date_value.simps)
qed

lemma sample_signValue: "assertCanonicalJsonValue v = Inr () \<Longrightarrow> signValue sample_platform v k = Inr sample_signature"
  by (auto simp: signValue_def platform_call_def canonicalize_total[of v sample_platform])

lemma sample_verifyValue: "assertCanonicalJsonValue v = Inr () \<Longrightarrow> verifyValue sample_platform v (JStr sample_signature) k = Inr True"
  by (auto simp: verifyValue_def platform_call_def canonicalize_total[of v sample_platform])

lemma placement_id_total: "assertCanonicalJsonValue v = Inr () \<Longrightarrow> \<exists>rid. placement_id p (c # cs) v = Inr (c # rid)"
  by (auto simp: placement_id_def digest_def canonicalize_total[of v p])

definition sample_holder :: identity where
  "sample_holder = \<lparr>nodeId = JStr ''truyn:node:4b'', publicKeyPem = JStr ''K'', privateKeyPem = JStr ''S''\<rparr>"

definition sample_placement :: "int \<Rightarrow> jsval" where
  "sample_placement n = (case createPlacementRecord sample_platform sample_holder (JStr ''truyn:ctx:a'') (JNum 0) (JNum 1) (JNum 1)
     (JNum (of_int n)) (JNum 0) (JNum 9) JNull of Inr r \<Rightarrow> r | Inl _ \<Rightarrow> JNull)"

text \<open>A revocation signed by the holder with any value as its sequence.\<close>

definition sample_revocation :: "jsval \<Rightarrow> jsval" where
  "sample_revocation sq =
     (let body = JObj [(''protocol'', JStr PLACEMENT_REVOCATION_PROTOCOL), (''version'', JNum 1), (''rootCid'', JStr ''truyn:ctx:a''),
        (''holderNodeId'', JStr ''truyn:node:4b''), (''partitionIndex'', JNum 0), (''sequence'', sq)] in
      case placement_id sample_platform ''truyn:placement-revoke:'' body of
        Inr rid \<Rightarrow> JObj (revocation_signed (JStr rid) body (JStr ''T0'') @ [(''publicKey'', JStr ''K''), (''signature'', JStr sample_signature)])
      | Inl _ \<Rightarrow> JNull)"

definition sample_slot :: string where
  "sample_slot = ''truyn:ctx:a|0|truyn:node:4b''"

lemma sample_revocation_facts:
  assumes "assertCanonicalJsonValue sq = Inr ()"
  shows "\<exists>x. verifyPlacementRevocation sample_platform (sample_revocation sq) = Inr x" "slot_of sample_platform (sample_revocation sq) = Inr sample_slot"
    "body_of (sample_revocation sq) ''sequence'' = sq"
proof -
  let ?body = "JObj [(''protocol'', JStr PLACEMENT_REVOCATION_PROTOCOL), (''version'', JNum 1), (''rootCid'', JStr ''truyn:ctx:a''),
        (''holderNodeId'', JStr ''truyn:node:4b''), (''partitionIndex'', JNum 0), (''sequence'', sq)]"
  have b: "assertCanonicalJsonValue ?body = Inr ()" using assms by simp
  from placement_id_total[OF b, of sample_platform "CHR ''t''" "''ruyn:placement-revoke:''"] obtain rid where rid: "placement_id sample_platform ''truyn:placement-revoke:'' ?body = Inr (CHR ''t'' # rid)" by blast
  then have r: "sample_revocation sq = JObj (revocation_signed (JStr (CHR ''t'' # rid)) ?body (JStr ''T0'') @ [(''publicKey'', JStr ''K''), (''signature'', JStr sample_signature)])"
    by (simp add: sample_revocation_def)
  have k: "nodeIdFromPublicKey sample_platform (JStr ''K'') = Inr ''truyn:node:4b''" by code_simp
  have "number_text sample_platform 0 = ''0''" by code_simp
  then show "slot_of sample_platform (sample_revocation sq) = Inr sample_slot" "body_of (sample_revocation sq) ''sequence'' = sq"
    by (simp_all add: r revocation_signed_def slot_of_def placementKey_def normalizeRootCid_def ctx_root_def sample_slot_def)
  have sig: "sample_signature \<noteq> []" by (simp add: sample_signature_def)
  have "assertCanonicalJsonValue (JObj (revocation_signed (JStr (CHR ''t'' # rid)) ?body (JStr ''T0''))) = Inr ()"
    using b by (simp add: revocation_signed_def)
  note v = sample_verifyValue[OF this]
  have "get (sample_revocation sq) ''body'' = ?body" "\<not> nullish (sample_revocation sq)" "get (sample_revocation sq) ''revocationId'' = JStr (CHR ''t'' # rid)"
    "get (sample_revocation sq) ''revokedAt'' = JStr ''T0''" "get (sample_revocation sq) ''publicKey'' = JStr ''K''" "get (sample_revocation sq) ''signature'' = JStr sample_signature"
    by (simp_all add: r revocation_signed_def)
  then show "\<exists>x. verifyPlacementRevocation sample_platform (sample_revocation sq) = Inr x"
    using k rid v sig by (simp add: verifyPlacementRevocation_def oget_def Let_def caught_def)
qed

lemma sample_placement_facts:
  assumes "1 \<le> n"
  shows "verifyPlacementRecord sample_platform 1 False (sample_placement n) = Inr (get (sample_placement n) ''recordId'', 9)"
    "slot_of sample_platform (sample_placement n) = Inr sample_slot" "body_of (sample_placement n) ''sequence'' = JNum (of_int n)"
    "body_of (sample_placement n) ''rootCid'' = JStr ''truyn:ctx:a''"
proof -
  have k: "require_identity sample_platform a b sample_holder = Inr ()" for a b
  proof -
    have "nodeIdFromPublicKey sample_platform (JStr ''K'') = Inr ''truyn:node:4b''" by code_simp
    then show ?thesis by (simp add: require_identity_def sample_holder_def)
  qed
  have cap: "\<exists>c. distributedRequestCapability sample_platform (JStr ''truyn:ctx:a'') (nodeId sample_holder) (JNum 0) = Inr c"
    by (simp add: distributedRequestCapability_def sample_holder_def distributedDiscoveryCapability_def ctx_root_def)
  then obtain c where c: "distributedRequestCapability sample_platform (JStr ''truyn:ctx:a'') (nodeId sample_holder) (JNum 0) = Inr c" by blast
  let ?body = "JObj (placement_body (JStr ''truyn:ctx:a'') (nodeId sample_holder) (JNum 0) (JNum 1) (JNum 1) c (JNum (of_int n)) JNull)"
  have b: "assertCanonicalJsonValue ?body = Inr ()" by (simp add: placement_body_def trimmed_or_null_def nonblank_def sample_holder_def)
  from placement_id_total[OF b, of sample_platform "CHR ''t''" "''ruyn:placement:''"] obtain rid where rid: "placement_id sample_platform ''truyn:placement:'' ?body = Inr (CHR ''t'' # rid)" by blast
  have "assertCanonicalJsonValue (JObj (placement_signed (JStr (CHR ''t'' # rid)) ?body (JStr (sample_date_iso 0)) (JStr (sample_date_iso 9)))) = Inr ()"
    using b by (simp add: placement_signed_def)
  note s = sample_signValue[OF this]
  have created: "createPlacementRecord sample_platform sample_holder (JStr ''truyn:ctx:a'') (JNum 0) (JNum 1) (JNum 1)
     (JNum (of_int n)) (JNum 0) (JNum 9) JNull = Inr (sample_placement n)"
    using assms k c rid s unfolding sample_placement_def createPlacementRecord_def
    by (simp add: normalizeRootCid_def ctx_root_def normalizePartition_def normalizeIso_def Let_def)
  have iso: "\<forall>t. date_iso sample_platform t \<noteq> []" by (simp add: sample_date_iso_def sample_iso_def)
  note f = created_placement_verifies[OF sample_date_law iso sample_key_pair created, where e = 9 and now = 1, simplified]
  show "verifyPlacementRecord sample_platform 1 False (sample_placement n) = Inr (get (sample_placement n) ''recordId'', 9)"
    "body_of (sample_placement n) ''sequence'' = JNum (of_int n)" "body_of (sample_placement n) ''rootCid'' = JStr ''truyn:ctx:a''" using f by simp_all
  have "number_text sample_platform 0 = ''0''" by code_simp
  then show "slot_of sample_platform (sample_placement n) = Inr sample_slot"
    using f by (simp add: slot_of_def placementKey_def normalizeRootCid_def ctx_root_def sample_slot_def sample_holder_def)
qed

lemma sample_found:
  assumes "dp_records d = [(sample_slot, sample_placement n)]" "1 \<le> n" "dp_revocations d = [(sample_slot, v)]"
    "\<not> js_geq sample_platform (body_of v ''sequence'') (JNum (of_int n))"
  shows "find_placements sample_platform (JStr ''truyn:ctx:a'') 1 d = Inr [sample_placement n]"
proof -
  have "offered sample_platform 1 ''truyn:ctx:a'' (dp_revocations d) (sample_slot, sample_placement n)"
    using sample_placement_facts[OF assms(2)] assms(3,4) by (simp add: offered_def)
  then show ?thesis using assms(1) by (simp add: find_placements_def normalizeRootCid_def ctx_root_def js_sort_def)
qed

abbreviation sample_directory :: "(string, jsval) jsmap \<Rightarrow> (string, jsval) jsmap \<Rightarrow> directory" where
  "sample_directory rs vs \<equiv> \<lparr>peerId = ''d'', dp_records = rs, dp_revocations = vs\<rparr>"

lemma sample_ingest:
  "1 \<le> n \<Longrightarrow> snd (ingestRecord sample_platform 1 (sample_placement n) (sample_directory [] vs)) = sample_directory [(sample_slot, sample_placement n)] vs"
  "assertCanonicalJsonValue sq = Inr () \<Longrightarrow> snd (ingestRevocation sample_platform (sample_revocation sq) (sample_directory rs [])) =
     sample_directory rs [(sample_slot, sample_revocation sq)]"
  using sample_placement_facts[of n] sample_revocation_facts[of sq] by (auto simp: ingestRecord_def ingestRevocation_def Let_def)


text \<open>
  C35. The verifier does not look at a revocation's sequence, and one that is no number blocks the
  slot: after a revocation with a text as its sequence, the holder's proper revocation of the same
  record is answered as accepted and yet dropped, and the revoked record is still listed.
\<close>

theorem placement_revocation_blocked:
  "\<exists>p d bad good r. verifyPlacementRevocation p bad \<in> range Inr \<and> slot_of p bad = slot_of p r \<and> slot_of p good = slot_of p r \<and>
     seq_of good = seq_of r \<and> is_integer (body_of good ''sequence'') \<and> directory_new (JStr ''d'') = Inr d \<and>
     fst (ingestRevocation p good (dir_run p [Ingest 1 r, Revoke bad] d)) = Inr (Inr (get good ''revocationId'')) \<and>
     find_placements p (body_of r ''rootCid'') 1 (dir_run p [Ingest 1 r, Revoke bad, Revoke good] d) = Inr [r]"
proof (intro exI conjI)
  let ?p = sample_platform and ?d = "sample_directory [] []" and ?bad = "sample_revocation (JStr ''a'')"
    and ?good = "sample_revocation (JNum 1)" and ?r = "sample_placement 1"
  note b = sample_revocation_facts[of "JStr ''a''", simplified] and g = sample_revocation_facts[of "JNum 1", simplified]
    and r = sample_placement_facts[of 1, simplified]
  show "verifyPlacementRevocation ?p ?bad \<in> range Inr" using b(1) by (metis rangeI)
  show "slot_of ?p ?bad = slot_of ?p ?r" "slot_of ?p ?good = slot_of ?p ?r" using b g r by simp_all
  show "seq_of ?good = seq_of ?r" "is_integer (body_of ?good ''sequence'')" using g r by (simp_all add: seq_of_def)
  show "directory_new (JStr ''d'') = Inr ?d" by (simp add: directory_new_def nonblank_def trim_def js_white_def)
  have s: "dir_run ?p [Ingest 1 ?r, Revoke ?bad] ?d = sample_directory [(sample_slot, ?r)] [(sample_slot, ?bad)]"
    using sample_ingest(1)[of 1] sample_ingest(2)[of "JStr ''a''"] by (simp add: dir_run_def dir_step_def)
  obtain x where x: "verifyPlacementRevocation ?p ?good = Inr x" using g(1) by blast
  show "fst (ingestRevocation ?p ?good (dir_run ?p [Ingest 1 ?r, Revoke ?bad] ?d)) = Inr (Inr (get ?good ''revocationId''))"
    unfolding s using x g(2) by (simp add: ingestRevocation_def)
  have nan: "to_number ?p (JStr ''a'') = JNaN" by code_simp
  then have geq: "\<not> js_geq ?p (JNum k) (JStr ''a'')" "\<not> js_geq ?p (JStr ''a'') (JNum k)" for k by (simp_all add: js_geq_def)
  have "snd (ingestRevocation ?p ?good (sample_directory [(sample_slot, ?r)] [(sample_slot, ?bad)])) = sample_directory [(sample_slot, ?r)] [(sample_slot, ?bad)]"
    using x g b(3) geq by (simp add: ingestRevocation_def)
  then have "dir_run ?p [Ingest 1 ?r, Revoke ?bad, Revoke ?good] ?d = sample_directory [(sample_slot, ?r)] [(sample_slot, ?bad)]"
    using s by (simp add: dir_run_def dir_step_def)
  then show "find_placements ?p (body_of ?r ''rootCid'') 1 (dir_run ?p [Ingest 1 ?r, Revoke ?bad, Revoke ?good] ?d) = Inr [?r]"
    using r(4) b(3) geq sample_found[of _ 1 ?bad] by simp
qed

section \<open>Gossip converges\<close>

text \<open>What an ingestion does to a slot, as a function of its old and its new entry.\<close>

fun newer_record :: "jsval option \<Rightarrow> jsval option \<Rightarrow> jsval option" where
  "newer_record old None = old"
| "newer_record None (Some r) = Some r"
| "newer_record (Some x) (Some r) =
     (if seq_of r < seq_of x \<or> seq_of r = seq_of x \<and> get x ''recordId'' \<noteq> get r ''recordId'' then Some x else Some r)"

fun newer_revocation :: "jsval option \<Rightarrow> jsval option \<Rightarrow> jsval option" where
  "newer_revocation old None = old"
| "newer_revocation None (Some v) = Some v"
| "newer_revocation (Some x) (Some v) = (if seq_of x \<le> seq_of v then Some v else Some x)"

definition fresh_records :: "platform \<Rightarrow> int \<Rightarrow> (string, jsval) jsmap \<Rightarrow> bool" where
  "fresh_records p now m \<longleftrightarrow> jmap_ok m \<and> (\<forall>(k, r)\<in>set m. slot_of p r = Inr k \<and> (\<exists>x. verifyPlacementRecord p now False r = Inr x))"

definition integer_revocations :: "platform \<Rightarrow> (string, jsval) jsmap \<Rightarrow> bool" where
  "integer_revocations p m \<longleftrightarrow> jmap_ok m \<and>
     (\<forall>(k, v)\<in>set m. slot_of p v = Inr k \<and> (\<exists>x. verifyPlacementRevocation p v = Inr x) \<and> is_integer (body_of v ''sequence''))"

lemma strict_eq_ints: "strict_eq (JNum (of_int a)) (JNum (of_int b)) \<longleftrightarrow> a = b"
  by simp

lemma ingestRecord_slot:
  assumes m: "fresh_records p now (dp_records d)" and r: "slot_of p r = Inr k" "verifyPlacementRecord p now False r = Inr x"
  shows "\<exists>v m'. ingestRecord p now r d = (Inr v, d\<lparr>dp_records := m'\<rparr>) \<and> fresh_records p now m' \<and>
    map_of m' = (map_of (dp_records d))(k := newer_record (map_of (dp_records d) k) (Some r))"
proof -
  from r(2) have sr: "body_of r ''sequence'' = JNum (of_int (seq_of r))" by (elim placement_record_cases)
  have upd: "fresh_records p now (AList.update k r (dp_records d))"
    using m r by (auto simp: fresh_records_def dest!: set_update_subset[THEN subsetD])
  show ?thesis
  proof (cases "map_of (dp_records d) k")
    case None
    with upd r show ?thesis by (auto simp: ingestRecord_def Let_def intro!: exI[of _ "AList.update k r (dp_records d)"])
  next
    case (Some y)
    then obtain z where "verifyPlacementRecord p now False y = Inr z" using m by (fastforce simp: fresh_records_def dest: map_of_SomeD)
    then have sy: "body_of y ''sequence'' = JNum (of_int (seq_of y))" by (elim placement_record_cases)
    show ?thesis
    proof (cases "seq_of r < seq_of y \<or> seq_of r = seq_of y \<and> get y ''recordId'' \<noteq> get r ''recordId''")
      case True
      then obtain v where "ingestRecord p now r d = (Inr v, d)"
        using Some r by (auto simp: ingestRecord_def Let_def sr sy simp del: strict_eq.simps simp add: strict_eq_ints)
      moreover have "d\<lparr>dp_records := dp_records d\<rparr> = d" by simp
      ultimately show ?thesis using True m Some by (intro exI[of _ v] exI[of _ "dp_records d"]) (auto simp: fun_upd_idem)
    next
      case False
      then show ?thesis using upd Some r
        by (auto simp: ingestRecord_def Let_def sr sy simp del: strict_eq.simps simp add: strict_eq_ints intro!: exI[of _ "AList.update k r (dp_records d)"])
    qed
  qed
qed

lemma ingestRevocation_slot:
  assumes m: "integer_revocations p (dp_revocations d)"
    and v: "slot_of p v = Inr k" "verifyPlacementRevocation p v = Inr x" "is_integer (body_of v ''sequence'')"
  shows "\<exists>a m'. ingestRevocation p v d = (Inr a, d\<lparr>dp_revocations := m'\<rparr>) \<and> integer_revocations p m' \<and>
    map_of m' = (map_of (dp_revocations d))(k := newer_revocation (map_of (dp_revocations d) k) (Some v))"
proof -
  have upd: "integer_revocations p (AList.update k v (dp_revocations d))"
    using m v by (auto simp: integer_revocations_def dest!: set_update_subset[THEN subsetD])
  show ?thesis
  proof (cases "map_of (dp_revocations d) k")
    case None
    with upd v show ?thesis by (auto simp: ingestRevocation_def intro!: exI[of _ "AList.update k v (dp_revocations d)"])
  next
    case (Some y)
    then have y: "is_integer (body_of y ''sequence'')" using m by (fastforce simp: integer_revocations_def dest: map_of_SomeD)
    show ?thesis
    proof (cases "seq_of y \<le> seq_of v")
      case True
      with upd Some v y show ?thesis
        by (auto simp: ingestRevocation_def js_geq_seq intro!: exI[of _ "AList.update k v (dp_revocations d)"])
    next
      case False
      moreover have "d\<lparr>dp_revocations := dp_revocations d\<rparr> = d" by simp
      ultimately show ?thesis using Some v y m
        by (intro exI[of _ "dp_revocations d"] exI) (auto simp: ingestRevocation_def js_geq_seq fun_upd_idem)
    qed
  qed
qed

lemma ingest_records:
  "fresh_records p now m \<Longrightarrow> fresh_records p now (dp_records d) \<Longrightarrow>
     \<exists>n m'. ingest_each (ingestRecord p now) (map snd m) d = (Inr n, d\<lparr>dp_records := m'\<rparr>) \<and> fresh_records p now m' \<and>
       (\<forall>k. map_of m' k = newer_record (map_of (dp_records d) k) (map_of m k))"
proof (induction m arbitrary: d)
  case Nil
  moreover have "d\<lparr>dp_records := dp_records d\<rparr> = d" by simp
  ultimately show ?case by (intro exI[of _ 0] exI[of _ "dp_records d"]) simp
next
  case (Cons kr m)
  obtain k r where kr: "kr = (k, r)" by (cases kr)
  from Cons.prems kr obtain x where r: "slot_of p r = Inr k" "verifyPlacementRecord p now False r = Inr x" and m: "fresh_records p now m" "k \<notin> fst ` set m"
    by (auto simp: fresh_records_def)
  from ingestRecord_slot[OF Cons.prems(2) r] obtain v m1 where 1: "ingestRecord p now r d = (Inr v, d\<lparr>dp_records := m1\<rparr>)"
    "fresh_records p now m1" "map_of m1 = (map_of (dp_records d))(k := newer_record (map_of (dp_records d) k) (Some r))" by blast
  from Cons.IH[OF m(1), of "d\<lparr>dp_records := m1\<rparr>"] 1(2) obtain n m' where
    2: "ingest_each (ingestRecord p now) (map snd m) (d\<lparr>dp_records := m1\<rparr>) = (Inr n, d\<lparr>dp_records := m'\<rparr>)" "fresh_records p now m'"
    "\<forall>k. map_of m' k = newer_record (map_of m1 k) (map_of m k)" by auto
  have "map_of m k = None" using m(2) by (simp add: map_of_eq_None_iff)
  then show ?case using 1 2 kr by auto
qed

lemma ingest_revocations:
  "integer_revocations p m \<Longrightarrow> integer_revocations p (dp_revocations d) \<Longrightarrow>
     \<exists>n m'. ingest_each (ingestRevocation p) (map snd m) d = (Inr n, d\<lparr>dp_revocations := m'\<rparr>) \<and> integer_revocations p m' \<and>
       (\<forall>k. map_of m' k = newer_revocation (map_of (dp_revocations d) k) (map_of m k))"
proof (induction m arbitrary: d)
  case Nil
  moreover have "d\<lparr>dp_revocations := dp_revocations d\<rparr> = d" by simp
  ultimately show ?case by (intro exI[of _ 0] exI[of _ "dp_revocations d"]) simp
next
  case (Cons kv m)
  obtain k v where kv: "kv = (k, v)" by (cases kv)
  from Cons.prems kv obtain x where v: "slot_of p v = Inr k" "verifyPlacementRevocation p v = Inr x" "is_integer (body_of v ''sequence'')"
    and m: "integer_revocations p m" "k \<notin> fst ` set m" by (auto simp: integer_revocations_def)
  from ingestRevocation_slot[OF Cons.prems(2) v] obtain a m1 where 1: "ingestRevocation p v d = (Inr a, d\<lparr>dp_revocations := m1\<rparr>)"
    "integer_revocations p m1" "map_of m1 = (map_of (dp_revocations d))(k := newer_revocation (map_of (dp_revocations d) k) (Some v))" by blast
  from Cons.IH[OF m(1), of "d\<lparr>dp_revocations := m1\<rparr>"] 1(2) obtain n m' where
    2: "ingest_each (ingestRevocation p) (map snd m) (d\<lparr>dp_revocations := m1\<rparr>) = (Inr n, d\<lparr>dp_revocations := m'\<rparr>)" "integer_revocations p m'"
    "\<forall>k. map_of m' k = newer_revocation (map_of m1 k) (map_of m k)" by auto
  have "map_of m k = None" using m(2) by (simp add: map_of_eq_None_iff)
  then show ?case using 1 2 kv by auto
qed

lemma import_merges:
  assumes "fresh_records p now rs" "fresh_records p now (dp_records d)" "integer_revocations p vs" "integer_revocations p (dp_revocations d)"
  shows "\<exists>n d'. importState p now (map snd rs, map snd vs) d = (Inr n, d') \<and> fresh_records p now (dp_records d') \<and> integer_revocations p (dp_revocations d') \<and>
    (\<forall>k. map_of (dp_records d') k = newer_record (map_of (dp_records d) k) (map_of rs k)) \<and>
    (\<forall>k. map_of (dp_revocations d') k = newer_revocation (map_of (dp_revocations d) k) (map_of vs k))"
proof -
  from ingest_records[OF assms(1,2)] obtain n m where
    1: "ingest_each (ingestRecord p now) (map snd rs) d = (Inr n, d\<lparr>dp_records := m\<rparr>)" "fresh_records p now m"
      "\<forall>k. map_of m k = newer_record (map_of (dp_records d) k) (map_of rs k)" by blast
  from ingest_revocations[OF assms(3), of "d\<lparr>dp_records := m\<rparr>"] assms(4) obtain n' m' where
    2: "ingest_each (ingestRevocation p) (map snd vs) (d\<lparr>dp_records := m\<rparr>) = (Inr n', d\<lparr>dp_records := m, dp_revocations := m'\<rparr>)"
      "integer_revocations p m'" "\<forall>k. map_of m' k = newer_revocation (map_of (dp_revocations d) k) (map_of vs k)" by auto
  with 1 show ?thesis by (simp add: importState_def)
qed

text \<open>A slot's key determines the root, the index and the holder of the records in it.\<close>

lemma last_bar_unique:
  "a @ CHR ''|'' # s = b @ CHR ''|'' # t \<Longrightarrow> CHR ''|'' \<notin> set s \<Longrightarrow> CHR ''|'' \<notin> set t \<Longrightarrow> a = b \<and> s = t"
proof -
  assume eq: "a @ CHR ''|'' # s = b @ CHR ''|'' # t" and n: "CHR ''|'' \<notin> set s" "CHR ''|'' \<notin> set t"
  let ?f = "takeWhile (\<lambda>c. c \<noteq> CHR ''|'')"
  have r: "?f (rev (x @ CHR ''|'' # y)) = rev y" if "CHR ''|'' \<notin> set y" for x y
  proof -
    have "?f (rev y @ CHR ''|'' # rev x) = rev y @ ?f (CHR ''|'' # rev x)" by (rule takeWhile_append2) (use that in auto)
    then show ?thesis by simp
  qed
  from r[OF n(1), of a] r[OF n(2), of b] eq have "s = t" by simp
  with eq show ?thesis by simp
qed

lemma small_integer_text:
  assumes "normalizePartition v c = Inr ()"
  shows "CHR ''|'' \<notin> set (to_string p v)"
proof -
  from assms obtain i where i: "v = JNum (of_int i)" "0 \<le> i"
    by (auto simp: normalizePartition_def res_simps elim!: is_integer_obtain)
  have r: "(of_int i :: rat) \<le> 4096" using assms i by (auto simp: normalizePartition_def res_simps)
  then have "to_string p v = int_text i" using i by (simp add: number_text_def)
  then show ?thesis using int_text_chars[of i] by (auto simp: list_all_iff is_digit_def)
qed

lemma slot_injective:
  assumes "digest_law p" "verifyPlacementRecord p now a r = Inr x" "verifyPlacementRecord p now' a' r' = Inr x'" "slot_of p r = slot_of p r'"
  shows "body_of r ''rootCid'' = body_of r' ''rootCid''"
proof -
  have part: "\<exists>c n. body_of r ''rootCid'' = JStr c \<and> slot_of p r = Inr (c @ ''|'' @ to_string p (body_of r ''partitionIndex'') @ ''|'' @ n) \<and>
      CHR ''|'' \<notin> set n \<and> CHR ''|'' \<notin> set (to_string p (body_of r ''partitionIndex''))"
    if v: "verifyPlacementRecord p now a r = Inr x" for r now a x
  proof -
    from v obtain n where n: "nodeIdFromPublicKey p (get r ''publicKey'') = Inr n" "body_of r ''holderNodeId'' = JStr n"
      by (auto simp: verifyPlacementRecord_def Let_def res_simps)
    then obtain der where "n = ''truyn:node:'' @ sha256 p der" by (auto simp: nodeIdFromPublicKey_def fingerprint_of_def res_simps)
    moreover have "\<not> is_hex (CHR ''|'')" by (simp add: is_hex_def is_digit_def)
    ultimately have "CHR ''|'' \<notin> set n" using assms(1) by (auto simp: digest_law_def list_all_iff)
    moreover from v have "normalizePartition (body_of r ''partitionIndex'') (body_of r ''partitionCount'') = Inr ()"
      by (auto simp: verifyPlacementRecord_def Let_def res_simps)
    ultimately show ?thesis using v n(2) small_integer_text
      by (elim placement_record_cases) (auto simp: slot_of_def placementKey_def normalizeRootCid_def)
  qed
  obtain c n where 1: "body_of r ''rootCid'' = JStr c" "slot_of p r = Inr (c @ ''|'' @ to_string p (body_of r ''partitionIndex'') @ ''|'' @ n)"
    "CHR ''|'' \<notin> set n" "CHR ''|'' \<notin> set (to_string p (body_of r ''partitionIndex''))" using part[OF assms(2)] by blast
  obtain c' n' where 2: "body_of r' ''rootCid'' = JStr c'" "slot_of p r' = Inr (c' @ ''|'' @ to_string p (body_of r' ''partitionIndex'') @ ''|'' @ n')"
    "CHR ''|'' \<notin> set n'" "CHR ''|'' \<notin> set (to_string p (body_of r' ''partitionIndex''))" using part[OF assms(3)] by blast
  from 1(2) 2(2) assms(4) have "(c @ CHR ''|'' # to_string p (body_of r ''partitionIndex'')) @ CHR ''|'' # n =
      (c' @ CHR ''|'' # to_string p (body_of r' ''partitionIndex'')) @ CHR ''|'' # n'" by simp
  from last_bar_unique[OF this 1(3) 2(3)] have "c @ CHR ''|'' # to_string p (body_of r ''partitionIndex'') = c' @ CHR ''|'' # to_string p (body_of r' ''partitionIndex'')" ..
  from last_bar_unique[OF this 1(4) 2(4)] 1(1) 2(1) show ?thesis by simp
qed

text \<open>Two directories whose slots hold records of the same identifier and sequence list the same.\<close>

definition agree_on :: "('a \<Rightarrow> 'b) \<Rightarrow> 'a option \<Rightarrow> 'a option \<Rightarrow> bool" where
  "agree_on f a b \<longleftrightarrow> map_option f a = map_option f b"

lemma agree_on_Some: "agree_on f (Some x) b \<Longrightarrow> \<exists>y. b = Some y \<and> f y = f x" "agree_on f b (Some x) \<Longrightarrow> \<exists>y. b = Some y \<and> f y = f x"
  by (cases b; simp add: agree_on_def)+

lemma offered_agree:
  assumes laws: "digest_law p" and d: "fresh_records p now (dp_records d)" "integer_revocations p (dp_revocations d)"
    and e: "fresh_records p now (dp_records e)" "integer_revocations p (dp_revocations e)"
    and rec: "\<forall>k. agree_on (\<lambda>r. (get r ''recordId'', seq_of r)) (map_of (dp_records d) k) (map_of (dp_records e) k)"
    and rev: "\<forall>k. agree_on seq_of (map_of (dp_revocations d) k) (map_of (dp_revocations e) k)"
    and r: "(k, r) \<in> set (dp_records d)" "offered p now c (dp_revocations d) (k, r)"
  shows "\<exists>r'. (k, r') \<in> set (dp_records e) \<and> offered p now c (dp_revocations e) (k, r') \<and> get r' ''recordId'' = get r ''recordId''"
proof -
  have "map_of (dp_records d) k = Some r" using d(1) r(1) by (simp add: fresh_records_def)
  then obtain r' where r': "map_of (dp_records e) k = Some r'" "get r' ''recordId'' = get r ''recordId''" "seq_of r' = seq_of r"
    using agree_on_Some(1)[of "\<lambda>r. (get r ''recordId'', seq_of r)" r "map_of (dp_records e) k"] spec[OF rec, of k] by auto
  then have mem: "(k, r') \<in> set (dp_records e)" by (simp add: map_of_SomeD)
  from d(1) r(1) e(1) mem obtain x x' where x: "verifyPlacementRecord p now False r = Inr x" "verifyPlacementRecord p now False r' = Inr x'"
    "slot_of p r = slot_of p r'" by (fastforce simp: fresh_records_def)
  from x have s: "body_of r ''sequence'' = JNum (of_int (seq_of r))" "body_of r' ''sequence'' = JNum (of_int (seq_of r))"
    using r'(3) by (metis placement_record_cases)+
  have "case map_of (dp_revocations e) k of None \<Rightarrow> True | Some v \<Rightarrow> \<not> js_geq p (body_of v ''sequence'') (body_of r' ''sequence'')"
  proof (cases "map_of (dp_revocations e) k")
    case (Some v)
    with rev obtain w where w: "map_of (dp_revocations d) k = Some w" "seq_of v = seq_of w"
      using agree_on_Some(2)[of seq_of "map_of (dp_revocations d) k" v] by metis
    have "is_integer (body_of v ''sequence'')" "is_integer (body_of w ''sequence'')"
      using e(2) d(2) map_of_SomeD[OF Some] map_of_SomeD[OF w(1)] by (auto simp: integer_revocations_def)
    then have "body_of v ''sequence'' = body_of w ''sequence''" using w(2) seq_of_integer[of v] seq_of_integer[of w] by simp
    with r(2) Some w s show ?thesis by (simp add: offered_def)
  qed simp
  moreover have "body_of r' ''rootCid'' = JStr c" using slot_injective[OF laws x] r(2) by (simp add: offered_def)
  ultimately have "offered p now c (dp_revocations e) (k, r')" using x(2) by (simp add: offered_def)
  with mem r'(2) show ?thesis by blast
qed

lemma find_agree:
  assumes "digest_law p" "fresh_records p now (dp_records d)" "integer_revocations p (dp_revocations d)"
    "fresh_records p now (dp_records e)" "integer_revocations p (dp_revocations e)"
    and rec: "\<forall>k. agree_on (\<lambda>r. (get r ''recordId'', seq_of r)) (map_of (dp_records d) k) (map_of (dp_records e) k)"
    and rev: "\<forall>k. agree_on seq_of (map_of (dp_revocations d) k) (map_of (dp_revocations e) k)"
    and found: "find_placements p cid now d = Inr rs" "find_placements p cid now e = Inr rs'"
  shows "(\<lambda>r. get r ''recordId'') ` set rs = (\<lambda>r. get r ''recordId'') ` set rs'"
proof -
  from found obtain c where c: "normalizeRootCid cid = Inr c" by (auto simp: find_placements_def res_simps)
  have sets: "set rs = {r. \<exists>k. (k, r) \<in> set (dp_records d) \<and> offered p now c (dp_revocations d) (k, r)}"
    "set rs' = {r. \<exists>k. (k, r) \<in> set (dp_records e) \<and> offered p now c (dp_revocations e) (k, r)}"
    using found c by (force simp: find_placements_def)+
  have sym: "\<forall>k. agree_on (\<lambda>r. (get r ''recordId'', seq_of r)) (map_of (dp_records e) k) (map_of (dp_records d) k)"
    "\<forall>k. agree_on seq_of (map_of (dp_revocations e) k) (map_of (dp_revocations d) k)" using rec rev by (simp_all add: agree_on_def)
  show ?thesis
  proof (rule Set.set_eqI, rule iffI)
    fix y assume "y \<in> (\<lambda>r. get r ''recordId'') ` set rs"
    then show "y \<in> (\<lambda>r. get r ''recordId'') ` set rs'"
      using offered_agree[OF assms(1-5) rec rev, of _ _ c] unfolding sets by (fastforce simp: image_iff)
  next
    fix y assume "y \<in> (\<lambda>r. get r ''recordId'') ` set rs'"
    then show "y \<in> (\<lambda>r. get r ''recordId'') ` set rs"
      using offered_agree[OF assms(1,4,5,2,3) sym, of _ _ c] unfolding sets by (fastforce simp: image_iff)
  qed
qed

lemma newer_record_agree:
  "(\<And>x r. a = Some x \<Longrightarrow> b = Some r \<Longrightarrow> seq_of x = seq_of r \<Longrightarrow> get x ''recordId'' = get r ''recordId'') \<Longrightarrow>
     agree_on (\<lambda>r. (get r ''recordId'', seq_of r)) (newer_record a b) (newer_record b a)"
  by (cases a; cases b) (auto simp: agree_on_def)

lemma newer_revocation_agree: "agree_on seq_of (newer_revocation a b) (newer_revocation b a)"
  by (cases a; cases b) (auto simp: agree_on_def)

lemma fresh_slot: "fresh_records p now m \<Longrightarrow> (k, r) \<in> set m \<Longrightarrow> slot_of p r = Inr k"
  by (auto simp: fresh_records_def)

lemma exported_entries:
  "directory_ok p d \<Longrightarrow> \<forall>r\<in>set (fst (exportState d)). \<exists>x. verifyPlacementRecord p now False r = Inr x \<Longrightarrow> fresh_records p now (dp_records d)"
  "directory_ok p d \<Longrightarrow> \<forall>v\<in>set (snd (exportState d)). is_integer (body_of v ''sequence'') \<Longrightarrow> integer_revocations p (dp_revocations d)"
  by (auto simp: directory_ok_def fresh_records_def integer_revocations_def exportState_def)

text \<open>
  Gossip converges in one exchange. Two directories whose records are all unexpired, whose
  revocations have integer sequences and which do not hold two different records of one slot with
  the same sequence, both complete the exchange without an error, and from then on at that instant
  a lookup of any root lists the same records on both. Assumed of the platform: digests are
  hexadecimal, so a slot's key determines root, partition and holder.
\<close>

theorem placement_gossip_converges:
  assumes laws: "digest_law p"
    and new: "directory_new pid = Inr d0" "directory_new pid' = Inr e0"
    and runs: "d = dir_run p evs d0" "e = dir_run p evs' e0"
    and fresh: "\<forall>r\<in>set (fst (exportState d)) \<union> set (fst (exportState e)). \<exists>x. verifyPlacementRecord p now False r = Inr x"
    and ints: "\<forall>v\<in>set (snd (exportState d)) \<union> set (snd (exportState e)). is_integer (body_of v ''sequence'')"
    and honest: "\<forall>r\<in>set (fst (exportState d)). \<forall>r'\<in>set (fst (exportState e)).
      slot_of p r = slot_of p r' \<and> seq_of r = seq_of r' \<longrightarrow> get r ''recordId'' = get r' ''recordId''"
  shows "\<exists>n d' e'. gossipWith p now d e = (Inr n, d', e') \<and>
    (\<forall>cid. ctx_root cid \<longrightarrow> (\<exists>rs rs'. find_placements p cid now d' = Inr rs \<and> find_placements p cid now e' = Inr rs' \<and>
      (\<lambda>r. get r ''recordId'') ` set rs = (\<lambda>r. get r ''recordId'') ` set rs'))"
proof -
  have ok: "directory_ok p d" "directory_ok p e" using new runs by (auto intro: dir_run_ok directory_new_ok)
  have fr: "fresh_records p now (dp_records d)" "fresh_records p now (dp_records e)"
    and ir: "integer_revocations p (dp_revocations d)" "integer_revocations p (dp_revocations e)"
    using exported_entries[OF ok(1)] exported_entries[OF ok(2)] fresh ints by blast+
  from import_merges[OF fr(2,1) ir(2,1)] obtain n d' where
    d': "importState p now (exportState e) d = (Inr n, d')" "fresh_records p now (dp_records d')" "integer_revocations p (dp_revocations d')"
      "\<forall>k. map_of (dp_records d') k = newer_record (map_of (dp_records d) k) (map_of (dp_records e) k)"
      "\<forall>k. map_of (dp_revocations d') k = newer_revocation (map_of (dp_revocations d) k) (map_of (dp_revocations e) k)"
    unfolding exportState_def by blast
  from import_merges[OF fr ir] obtain m e' where
    e': "importState p now (exportState d) e = (Inr m, e')" "fresh_records p now (dp_records e')" "integer_revocations p (dp_revocations e')"
      "\<forall>k. map_of (dp_records e') k = newer_record (map_of (dp_records e) k) (map_of (dp_records d) k)"
      "\<forall>k. map_of (dp_revocations e') k = newer_revocation (map_of (dp_revocations e) k) (map_of (dp_revocations d) k)"
    unfolding exportState_def by blast
  have "agree_on (\<lambda>r. (get r ''recordId'', seq_of r)) (map_of (dp_records d') k) (map_of (dp_records e') k)" for k
    unfolding d'(4)[rule_format] e'(4)[rule_format]
  proof (rule newer_record_agree)
    fix x r assume xr: "map_of (dp_records d) k = Some x" "map_of (dp_records e) k = Some r" "seq_of x = seq_of r"
    then have m: "(k, x) \<in> set (dp_records d)" "(k, r) \<in> set (dp_records e)" by (simp_all add: map_of_SomeD)
    then have "slot_of p x = slot_of p r" using fresh_slot fr by simp
    with honest m xr(3) show "get x ''recordId'' = get r ''recordId''" by (force simp: exportState_def)
  qed
  moreover have "agree_on seq_of (map_of (dp_revocations d') k) (map_of (dp_revocations e') k)" for k
    by (simp add: d'(5) e'(5) newer_revocation_agree)
  ultimately have "(\<lambda>r. get r ''recordId'') ` set rs = (\<lambda>r. get r ''recordId'') ` set rs'"
    if "find_placements p cid now d' = Inr rs" "find_placements p cid now e' = Inr rs'" for cid rs rs'
    using find_agree[OF laws d'(2,3) e'(2,3) _ _ that] by blast
  moreover have "ctx_root cid \<Longrightarrow> \<exists>rs. find_placements p cid now d = Inr rs" for cid d
    by (simp add: find_placements_def normalizeRootCid_def)
  ultimately have "\<forall>cid. ctx_root cid \<longrightarrow> (\<exists>rs rs'. find_placements p cid now d' = Inr rs \<and> find_placements p cid now e' = Inr rs' \<and>
      (\<lambda>r. get r ''recordId'') ` set rs = (\<lambda>r. get r ''recordId'') ` set rs')" by meson
  moreover have "gossipWith p now d e = (Inr (n, m), d', e')" using d'(1) e'(1) by (simp add: gossipWith_def Let_def)
  ultimately show ?thesis by blast
qed

lemma sample_directory_new: "directory_new (JStr ''d'') = Inr (sample_directory [] [])"
  by (simp add: directory_new_def nonblank_def trim_def js_white_def)

theorem placement_gossip_converges_witness:
  "\<exists>n d' e'. gossipWith sample_platform 1 (sample_directory [(sample_slot, sample_placement 2)] [])
       (sample_directory [] [(sample_slot, sample_revocation (JNum 1))]) = (Inr n, d', e') \<and>
    (\<forall>cid. ctx_root cid \<longrightarrow> (\<exists>rs rs'. find_placements sample_platform cid 1 d' = Inr rs \<and> find_placements sample_platform cid 1 e' = Inr rs' \<and>
      (\<lambda>r. get r ''recordId'') ` set rs = (\<lambda>r. get r ''recordId'') ` set rs'))"
proof -
  note v = sample_revocation_facts[of "JNum 1", simplified] and r = sample_placement_facts[of 2, simplified]
  have runs: "sample_directory [(sample_slot, sample_placement 2)] [] = dir_run sample_platform [Ingest 1 (sample_placement 2)] (sample_directory [] [])"
    "sample_directory [] [(sample_slot, sample_revocation (JNum 1))] = dir_run sample_platform [Revoke (sample_revocation (JNum 1))] (sample_directory [] [])"
    using sample_ingest(1)[of 2] sample_ingest(2)[of "JNum 1"] by (simp_all add: dir_run_def dir_step_def)
  show ?thesis
    by (rule placement_gossip_converges[OF sample_digest_law sample_directory_new sample_directory_new runs])
      (use v r in \<open>simp_all add: exportState_def\<close>)
qed

section \<open>The resolver counts exactly\<close>

definition sight_inv :: "(string \<times> jsval) list \<Rightarrow> sightings \<Rightarrow> bool" where
  "sight_inv ps m \<longleftrightarrow> jmap_ok m \<and>
     (\<forall>rid r pids. map_of m rid = Some (r, pids) \<longrightarrow> get r ''recordId'' = rid \<and> distinct pids \<and> r \<in> snd ` set ps) \<and>
     (\<forall>rid. (case map_of m rid of None \<Rightarrow> {} | Some (r, pids) \<Rightarrow> set pids) = {pid. \<exists>r. (pid, r) \<in> set ps \<and> get r ''recordId'' = rid})"

lemma sight_step:
  assumes "verifyPlacementRecord p now False r = Inr x" "sight_inv ps m"
  shows "sight_inv (ps @ [(pid, r)]) (sight p now pid r m)"
proof -
  obtain r' pids where e: "(case map_of m (get r ''recordId'') of None \<Rightarrow> (r, []) | Some e \<Rightarrow> e) = (r', pids)" by fastforce
  let ?pids = "if pid \<in> set pids then pids else pids @ [pid]"
  have m: "sight p now pid r m = AList.update (get r ''recordId'') (r', ?pids) m"
    using assms(1) e by (auto simp: sight_def split: option.splits)
  have names: "(case map_of m (get r ''recordId'') of None \<Rightarrow> {} | Some (r, pids) \<Rightarrow> set pids) =
      {pid. \<exists>s. (pid, s) \<in> set ps \<and> get s ''recordId'' = get r ''recordId''}" using assms(2) unfolding sight_inv_def by blast
  have old: "get r' ''recordId'' = get r ''recordId''" "distinct pids" "r' \<in> snd ` set ps \<or> r' = r"
    "set pids = {pid. \<exists>s. (pid, s) \<in> set ps \<and> get s ''recordId'' = get r ''recordId''}"
  proof -
    have "get r' ''recordId'' = get r ''recordId'' \<and> distinct pids \<and> (r' \<in> snd ` set ps \<or> r' = r)"
      using assms(2) e unfolding sight_inv_def by (cases "map_of m (get r ''recordId'')") auto
    then show "get r' ''recordId'' = get r ''recordId''" "distinct pids" "r' \<in> snd ` set ps \<or> r' = r" by blast+
    show "set pids = {pid. \<exists>s. (pid, s) \<in> set ps \<and> get s ''recordId'' = get r ''recordId''}"
      using names e by (cases "map_of m (get r ''recordId'')") auto
  qed
  show ?thesis unfolding sight_inv_def m
  proof (intro conjI allI impI)
    show "jmap_ok (AList.update (get r ''recordId'') (r', ?pids) m)" using assms(2) by (simp add: sight_inv_def)
  next
    fix rid s qs assume "map_of (AList.update (get r ''recordId'') (r', ?pids) m) rid = Some (s, qs)"
    then show "get s ''recordId'' = rid" "distinct qs" "s \<in> snd ` set (ps @ [(pid, r)])"
      using assms(2) old unfolding sight_inv_def by (auto split: if_splits)
  next
    fix rid
    show "(case map_of (AList.update (get r ''recordId'') (r', ?pids) m) rid of None \<Rightarrow> {} | Some (r, pids) \<Rightarrow> set pids) =
      {q. \<exists>s. (q, s) \<in> set (ps @ [(pid, r)]) \<and> get s ''recordId'' = rid}"
    proof (cases "rid = get r ''recordId''")
      case True
      with old(4) show ?thesis by auto
    next
      case False
      then have "(case map_of m rid of None \<Rightarrow> {} | Some (r, pids) \<Rightarrow> set pids) = {q. \<exists>s. (q, s) \<in> set (ps @ [(pid, r)]) \<and> get s ''recordId'' = rid}"
        using assms(2) unfolding sight_inv_def by auto
      with False show ?thesis by simp
    qed
  qed
qed

lemma sight_fold:
  "\<forall>r\<in>set rs. \<exists>x. verifyPlacementRecord p now False r = Inr x \<Longrightarrow> sight_inv ps m \<Longrightarrow>
     sight_inv (ps @ map (Pair pid) rs) (fold (sight p now pid) rs m)"
proof (induction rs arbitrary: ps m)
  case (Cons r rs)
  then obtain x where "verifyPlacementRecord p now False r = Inr x" by auto
  from Cons.IH[OF _ sight_step[OF this Cons.prems(2), of pid]] Cons.prems(1) show ?case by simp
qed simp

definition found_by :: "platform \<Rightarrow> jsval \<Rightarrow> int \<Rightarrow> directory \<Rightarrow> jsval list" where
  "found_by p cid now d = (case find_placements p cid now d of Inr rs \<Rightarrow> rs | Inl _ \<Rightarrow> [])"

lemma found_verified: "find_placements p cid now d = Inr rs \<Longrightarrow> r \<in> set rs \<Longrightarrow> \<exists>x. verifyPlacementRecord p now False r = Inr x"
proof -
  assume "find_placements p cid now d = Inr rs" "r \<in> set rs"
  then obtain k c where "offered p now c (dp_revocations d) (k, r)" by (auto simp: find_placements_def res_simps)
  then show ?thesis by (cases "verifyPlacementRecord p now False r") (auto simp: offered_def)
qed

lemma found_by_verified: "r \<in> set (found_by p cid now d) \<Longrightarrow> \<exists>x. verifyPlacementRecord p now False r = Inr x"
  using found_verified[of p cid now d _ r] by (cases "find_placements p cid now d") (auto simp: found_by_def)

lemma collect_inv:
  "collect_sightings p cid now ds m = Inr m' \<Longrightarrow> sight_inv ps m \<Longrightarrow>
     sight_inv (ps @ concat (map (\<lambda>d. map (Pair (peerId d)) (found_by p cid now d)) ds)) m'"
proof (induction ds arbitrary: ps m)
  case (Cons d ds)
  from Cons.prems(1) obtain rs where rs: "find_placements p cid now d = Inr rs"
    and c: "collect_sightings p cid now ds (fold (sight p now (peerId d)) rs m) = Inr m'" by (auto simp: res_simps)
  have "sight_inv (ps @ map (Pair (peerId d)) rs) (fold (sight p now (peerId d)) rs m)"
    using sight_fold[OF _ Cons.prems(2)] found_verified[OF rs] by blast
  from Cons.IH[OF c this] show ?case by (simp add: found_by_def rs)
qed simp

text \<open>The identifiers of the given directories that list a record.\<close>

definition listing :: "platform \<Rightarrow> jsval \<Rightarrow> int \<Rightarrow> directory list \<Rightarrow> jsval \<Rightarrow> string set" where
  "listing p cid now ds rid = {peerId d | d r. d \<in> set ds \<and> r \<in> set (found_by p cid now d) \<and> get r ''recordId'' = rid}"

lemma js_sort_ascii_sorted: "distinct xs \<Longrightarrow> sorted (js_sort cmp_ascii xs)"
  using sorted_js_sort[OF consistent_cmp_ascii, of xs] by simp

text \<open>
  C34. The resolver counts directories exactly. With a resolver made by its constructor, a lookup that
  returns lists a record identifier if and only if at least \<^verbatim>\<open>minDirectoryAgreement\<close> of the
  responsible directories list a record with it; each identifier is listed once, with exactly those
  directories, sorted, and their number, and with a record that verifies at that instant. The
  responsible directories are as many different ones as the replication factor allows.
\<close>

theorem placement_agreement_exact:
  assumes fr: "resolver_new peers agreement trust factor = Inr fr"
    and ix: "placementResponsiblePeers p cid peers factor = Inr ix" and es: "findRecords p cid now fr = Inr es"
  defines "ds \<equiv> map (nth peers) ix"
  shows "(\<forall>rid. (\<exists>(r, n, pids)\<in>set es. get r ''recordId'' = rid) \<longleftrightarrow> int_of agreement \<le> int (card (listing p cid now ds rid))) \<and>
    (\<forall>(r, n, pids)\<in>set es. set pids = listing p cid now ds (get r ''recordId'') \<and> n = card (set pids) \<and> sorted pids \<and> distinct pids \<and>
       (\<exists>x. verifyPlacementRecord p now False r = Inr x)) \<and>
    distinct (map (\<lambda>(r, n, pids). get r ''recordId'') es) \<and>
    distinct ix \<and> set ix \<subseteq> {..<length peers} \<and> int (length ix) = min (int_of factor) (int (length peers))"
proof -
  have fields: "fr_peers fr = peers" "replicationFactor fr = factor" "minDirectoryAgreement fr = nat (int_of agreement)" "1 \<le> int_of agreement"
    using fr by (auto simp: resolver_new_def int_of_def split: if_splits elim!: is_integer_obtain)
  from es ix fields obtain m where m: "collect_sightings p cid now ds [] = Inr m"
    and out: "es = map (\<lambda>(rid, r, pids). (r, length pids, js_sort cmp_ascii pids)) (filter (\<lambda>(rid, r, pids). length pids \<ge> nat (int_of agreement)) m)"
    by (auto simp: findRecords_def res_simps ds_def)
  let ?ps = "concat (map (\<lambda>d. map (Pair (peerId d)) (found_by p cid now d)) ds)"
  have inv: "sight_inv ?ps m" using collect_inv[OF m, of "[]"] by (simp add: sight_inv_def)
  have names: "listing p cid now ds rid = (case map_of m rid of None \<Rightarrow> {} | Some (r, pids) \<Rightarrow> set pids)" for rid
    using inv unfolding sight_inv_def listing_def by (auto simp: image_iff)
  have entry: "get r ''recordId'' = rid \<and> distinct pids \<and> r \<in> snd ` set ?ps \<and> listing p cid now ds rid = set pids" if "(rid, r, pids) \<in> set m" for rid r pids
  proof -
    have "map_of m rid = Some (r, pids)" using that inv by (simp add: sight_inv_def)
    then show ?thesis using inv names[of rid] by (simp add: sight_inv_def)
  qed
  have "\<exists>x. verifyPlacementRecord p now False r = Inr x" if "r \<in> snd ` set ?ps" for r
    using that found_by_verified by auto
  then have 2: "\<forall>(r, n, pids)\<in>set es. set pids = listing p cid now ds (get r ''recordId'') \<and> n = card (set pids) \<and> sorted pids \<and> distinct pids \<and>
       (\<exists>x. verifyPlacementRecord p now False r = Inr x)"
    unfolding out using entry by (auto simp: js_sort_ascii_sorted distinct_card)
  have "(\<exists>(r, n, pids)\<in>set es. get r ''recordId'' = rid) \<longleftrightarrow> int_of agreement \<le> int (card (listing p cid now ds rid))" for rid
  proof
    assume "\<exists>(r, n, pids)\<in>set es. get r ''recordId'' = rid"
    then obtain r pids where rp: "(rid, r, pids) \<in> set m" "nat (int_of agreement) \<le> length pids" unfolding out using entry by auto
    then show "int_of agreement \<le> int (card (listing p cid now ds rid))" using entry[OF rp(1)] by (simp add: distinct_card)
  next
    assume a: "int_of agreement \<le> int (card (listing p cid now ds rid))"
    then have "listing p cid now ds rid \<noteq> {}" using fields(4) by auto
    then obtain r pids where "map_of m rid = Some (r, pids)" unfolding names by (auto split: option.splits)
    then have rp: "(rid, r, pids) \<in> set m" by (rule map_of_SomeD)
    with entry[OF rp] a show "\<exists>(r, n, pids)\<in>set es. get r ''recordId'' = rid" unfolding out by (force simp: distinct_card)
  qed
  moreover have "map (\<lambda>(r, n, pids). get r ''recordId'') es = map fst (filter (\<lambda>(rid, r, pids). length pids \<ge> nat (int_of agreement)) m)"
    unfolding out using entry by (auto simp: comp_def)
  then have "distinct (map (\<lambda>(r, n, pids). get r ''recordId'') es)" using inv by (simp add: sight_inv_def distinct_map_filter)
  moreover have "distinct ix \<and> set ix \<subseteq> {..<length peers} \<and> int (length ix) = min (int_of factor) (int (length peers))"
    using ix by (auto simp: placementResponsiblePeers_def res_simps int_of_def dest!: in_set_takeD elim!: is_integer_obtain)
  ultimately show ?thesis using 2 by blast
qed

theorem placement_agreement_exact_witness:
  "\<exists>es. findRecords sample_platform (JStr ''truyn:ctx:a'') 1
      \<lparr>fr_peers = [sample_directory [(sample_slot, sample_placement 2)] [(sample_slot, sample_revocation (JNum 1))]],
        minDirectoryAgreement = 1, trustResolver = None, replicationFactor = JNum 3\<rparr> = Inr es \<and>
    map (\<lambda>(r, n, pids). n) es = [1] \<and> listing sample_platform (JStr ''truyn:ctx:a'') 1
      [sample_directory [(sample_slot, sample_placement 2)] [(sample_slot, sample_revocation (JNum 1))]] (get (sample_placement 2) ''recordId'') = {''d''}"
proof -
  let ?d = "sample_directory [(sample_slot, sample_placement 2)] [(sample_slot, sample_revocation (JNum 1))]"
    and ?fr = "\<lambda>d. \<lparr>fr_peers = [d], minDirectoryAgreement = 1, trustResolver = None, replicationFactor = JNum 3\<rparr>" and ?es = "[(sample_placement 2, 1, [''d''])]"
  note v = sample_revocation_facts[of "JNum 1", simplified] and r = sample_placement_facts[of 2, simplified]
  have f: "find_placements sample_platform (JStr ''truyn:ctx:a'') 1 ?d = Inr [sample_placement 2]"
    using sample_found[of ?d 2 "sample_revocation (JNum 1)"] unfolding v(3) by simp
  have ix: "placementResponsiblePeers sample_platform (JStr ''truyn:ctx:a'') [?d] (JNum 3) = Inr [0]"
    by (simp add: placementResponsiblePeers_def normalizeRootCid_def ctx_root_def js_sort_def)
  have es: "findRecords sample_platform (JStr ''truyn:ctx:a'') 1 (?fr ?d) = Inr ?es"
    using ix f r(1) by (simp add: findRecords_def sight_def js_sort_def)
  have fr: "resolver_new [?d] (JNum 1) None (JNum 3) = Inr (?fr ?d)" by (simp add: resolver_new_def int_of_def)
  have "set [''d''] = listing sample_platform (JStr ''truyn:ctx:a'') 1 (map (nth [?d]) [0]) (get (sample_placement 2) ''recordId'')"
    using placement_agreement_exact[OF fr ix es] by simp
  with es show ?thesis by (intro exI[of _ ?es]) simp
qed

end
