(* ===== verification/A2a_Tasks.thy ===== *)
theory A2a_Tasks
  imports Claims
begin

text \<open>
  The task store of the A2A facade, \<^verbatim>\<open>adapters/a2a/task-store.js\<close>: tasks and their states, the markers
  that refuse a repeated message identifier, the assignment of verified TRUYN events to tasks, the
  ordering of partial results, eviction and expiry. Shown over every sequence of calls: the store
  stays within its bounds, a message identifier is accepted once per lifetime of its marker, the
  partials a client reads are numbered without gaps, only the assigned provider's verified
  events complete a task, and a finished task stays as it is.

  The times a call reads from the clock and the identifiers it draws are its arguments. How a result
  becomes A2A artifacts (\<^verbatim>\<open>adapters/a2a/mapping.js\<close>) is a pair of functions every definition that uses them
  takes; the theorems hold for any.
\<close>

section \<open>Tasks and the store\<close>

definition st_submitted :: string where "st_submitted = ''TASK_STATE_SUBMITTED''"
definition st_working :: string where "st_working = ''TASK_STATE_WORKING''"
definition st_completed :: string where "st_completed = ''TASK_STATE_COMPLETED''"
definition st_failed :: string where "st_failed = ''TASK_STATE_FAILED''"
definition st_rejected :: string where "st_rejected = ''TASK_STATE_REJECTED''"
definition st_canceled :: string where "st_canceled = ''TASK_STATE_CANCELED''"

definition TERMINAL :: "string list" where
  "TERMINAL = [st_completed, st_failed, st_rejected, st_canceled]"

text \<open>A status with no message has \<^verbatim>\<open>undefined\<close> there.\<close>

record task_status =
  state :: string
  timestamp :: string
  status_message :: jsval

record a2a_task =
  task_id :: string
  contextId :: jsval
  ownerKey :: jsval
  skillId :: jsval
  capability :: jsval
  status :: task_status
  artifacts :: "jsval list"
  history :: "jsval list"
  createdAt :: string
  lastModified :: string
  truynRequestId :: jsval
  providerNodeId :: jsval
  providerTrust :: jsval
  streamArtifactId :: jsval
  streamEvents :: "jsval list"
  nextStreamSequence :: nat

text \<open>
  \<^verbatim>\<open>this.tasks\<close> files every task under its own identifier: it is the list of its values in insertion
  order. \<^verbatim>\<open>byMessageCorrelation\<close> maps a key to the task it marks and when the marker expires.
\<close>

record a2a_store =
  maxTasks :: nat
  maxReplayMarkers :: nat
  taskTtlMs :: int
  tasks :: "a2a_task list"
  byTruynRequestId :: "(jsval, string) jsmap"
  byMessageCorrelation :: "(string, string \<times> int) jsmap"
  messageCorrelationByTaskId :: "(string, string) jsmap"

definition task_store_new :: "jsval \<Rightarrow> jsval \<Rightarrow> jsval \<Rightarrow> a2a_store result" where
  "task_store_new maxT maxR ttl =
     (if \<not> is_integer maxT \<or> num_of maxT < 1 then Inl (Err ''A2A maxTasks must be a positive integer'')
      else if \<not> is_integer ttl \<or> num_of ttl < 1 then Inl (Err ''A2A taskTtlMs must be a positive integer'')
      else let capacity = (if maxR = JNull then JNum (max 1024 (num_of maxT * 4)) else maxR) in
      if \<not> is_safe_integer capacity \<or> num_of capacity < 1 then Inl (Err ''A2A maxReplayMarkers must be a positive safe integer'')
      else Inr \<lparr>maxTasks = nat (int_of maxT), maxReplayMarkers = nat (int_of capacity), taskTtlMs = int_of ttl,
        tasks = [], byTruynRequestId = [], byMessageCorrelation = [], messageCorrelationByTaskId = []\<rparr>)"

definition find_task :: "a2a_store \<Rightarrow> string \<Rightarrow> a2a_task option" where
  "find_task s k = find (\<lambda>t. task_id t = k) (tasks s)"

text \<open>A change of a task object in place, and \<^verbatim>\<open>this.tasks.set\<close>.\<close>

definition put_task :: "a2a_task \<Rightarrow> a2a_store \<Rightarrow> a2a_store" where
  "put_task t s = s\<lparr>tasks := map (\<lambda>u. if task_id u = task_id t then t else u) (tasks s)\<rparr>"

definition set_task :: "a2a_task \<Rightarrow> a2a_store \<Rightarrow> a2a_store" where
  "set_task t s = (if find_task s (task_id t) = None then s\<lparr>tasks := tasks s @ [t]\<rparr> else put_task t s)"

definition isTerminal :: "a2a_task \<Rightarrow> bool" where
  "isTerminal t \<longleftrightarrow> state (status t) \<in> set TERMINAL"

text \<open>A \<^verbatim>\<open>Map\<close> with request identifiers as keys: objects are never the same key.\<close>

definition request_task :: "a2a_store \<Rightarrow> jsval \<Rightarrow> string option" where
  "request_task s r = map_option snd (find (\<lambda>(k, _). strict_eq k r) (byTruynRequestId s))"

definition messageCorrelationKey :: "platform \<Rightarrow> jsval \<Rightarrow> jsval \<Rightarrow> string option" where
  "messageCorrelationKey p owner msg =
     (let mid = oget msg ''messageId'' in
      if is_string mid \<and> str_of mid \<noteq> [] then json_text p (JArr [owner, mid]) else None)"

definition status_object :: "task_status \<Rightarrow> jsval" where
  "status_object st = JObj ([(''state'', JStr (state st)), (''timestamp'', JStr (timestamp st))] @
     (if status_message st = JUndef then [] else [(''message'', status_message st)]))"

definition statusUpdateEvent :: "a2a_task \<Rightarrow> string \<Rightarrow> jsval" where
  "statusUpdateEvent t source = JObj [(''statusUpdate'', JObj [(''taskId'', JStr (task_id t)), (''contextId'', contextId t),
     (''status'', status_object (status t)), (''metadata'', JObj [(''io.truyn/source'', JStr source)])])]"

definition agent_message :: "string \<Rightarrow> string \<Rightarrow> entries \<Rightarrow> jsval" where
  "agent_message mid txt extra = JObj ([(''messageId'', JStr mid), (''role'', JStr ''ROLE_AGENT''),
     (''parts'', JArr [JObj [(''text'', JStr txt), (''mediaType'', JStr ''text/plain'')]])] @ extra)"

text \<open>A change of status with its time, and the event that reports it.\<close>

definition set_status :: "string \<Rightarrow> string \<Rightarrow> jsval \<Rightarrow> a2a_task \<Rightarrow> a2a_task" where
  "set_status x iso_time m t = t\<lparr>status := \<lparr>state = x, timestamp = iso_time, status_message = m\<rparr>\<rparr>"

definition push_event :: "string \<Rightarrow> a2a_task \<Rightarrow> a2a_task" where
  "push_event source t = t\<lparr>streamEvents := streamEvents t @ [statusUpdateEvent t source]\<rparr>"

definition failPartial :: "platform \<Rightarrow> string \<Rightarrow> string \<Rightarrow> string \<Rightarrow> int \<Rightarrow> a2a_task \<Rightarrow> a2a_task" where
  "failPartial p mid code txt now t =
     push_event ''partial'' ((set_status st_failed (date_iso p now)
       (agent_message mid txt [(''metadata'', JObj [(''io.truyn/errorCode'', JStr code)])]) t)\<lparr>lastModified := date_iso p now\<rparr>)"

section \<open>Markers, deletion and pruning\<close>

definition touchReplayMarker :: "string \<Rightarrow> int \<Rightarrow> a2a_store \<Rightarrow> a2a_store" where
  "touchReplayMarker tid now s =
     (case jmap_get (messageCorrelationByTaskId s) tid of None \<Rightarrow> s
      | Some k \<Rightarrow> (case jmap_get (byMessageCorrelation s) k of None \<Rightarrow> s
        | Some _ \<Rightarrow> s\<lparr>byMessageCorrelation := jmap_set k (tid, now + taskTtlMs s) (byMessageCorrelation s)\<rparr>))"

definition delete_task :: "string \<Rightarrow> bool \<Rightarrow> a2a_store \<Rightarrow> bool \<times> a2a_store" where
  "delete_task tid forget s =
     (case find_task s tid of None \<Rightarrow> (False, s)
      | Some t \<Rightarrow> (True, s\<lparr>
          tasks := filter (\<lambda>u. task_id u \<noteq> tid) (tasks s),
          byTruynRequestId := (if truthy (truynRequestId t) then jmap_delete (truynRequestId t) (byTruynRequestId s) else byTruynRequestId s),
          byMessageCorrelation := (case jmap_get (messageCorrelationByTaskId s) tid of
             Some k \<Rightarrow> if forget then jmap_delete k (byMessageCorrelation s) else byMessageCorrelation s
           | None \<Rightarrow> byMessageCorrelation s),
          messageCorrelationByTaskId := jmap_delete tid (messageCorrelationByTaskId s)\<rparr>))"

text \<open>\<^verbatim>\<open>Date.parse(task.lastModified || task.createdAt || '') || 0\<close>.\<close>

definition modified_at :: "platform \<Rightarrow> a2a_task \<Rightarrow> int" where
  "modified_at p t = (case date_parse p (if lastModified t \<noteq> [] then lastModified t else createdAt t) of None \<Rightarrow> 0 | Some x \<Rightarrow> x)"

definition expire_task :: "platform \<Rightarrow> int \<Rightarrow> a2a_task \<Rightarrow> a2a_store \<Rightarrow> a2a_store" where
  "expire_task p threshold t s = (if modified_at p t < threshold then snd (delete_task (task_id t) True s) else s)"

definition expire_tasks :: "platform \<Rightarrow> int \<Rightarrow> a2a_store \<Rightarrow> a2a_store" where
  "expire_tasks p threshold s = fold (expire_task p threshold) (tasks s) s"

definition expire_markers :: "int \<Rightarrow> a2a_store \<Rightarrow> a2a_store" where
  "expire_markers now s = s\<lparr>byMessageCorrelation := filter (\<lambda>(k, tid, e). \<not> e < now) (byMessageCorrelation s)\<rparr>"

lemma delete_task_shrinks:
  "find P (tasks s) = Some t \<Longrightarrow> length (tasks (snd (delete_task (task_id t) f s))) < length (tasks s)"
proof -
  assume "find P (tasks s) = Some t"
  then have t: "t \<in> set (tasks s)" by (auto simp: find_Some_iff)
  then have "find_task s (task_id t) \<noteq> None" by (auto simp: find_task_def find_None_iff)
  then have "tasks (snd (delete_task (task_id t) f s)) = filter (\<lambda>u. task_id u \<noteq> task_id t) (tasks s)"
    by (auto simp: delete_task_def split: option.splits)
  moreover have "length (filter (\<lambda>u. task_id u \<noteq> task_id t) (tasks s)) < length (tasks s)"
    using t by (metis (mono_tags, lifting) length_filter_less)
  ultimately show ?thesis by simp
qed

function evict :: "a2a_store \<Rightarrow> unit result \<times> a2a_store" where
  "evict s = (if length (tasks s) < maxTasks s then (Inr (), s)
     else (case find isTerminal (tasks s) of
         None \<Rightarrow> (Inl (Err ''A2A task capacity reached''), s)
       | Some t \<Rightarrow> evict (snd (delete_task (task_id t) False s))))"
  by pat_completeness auto

termination
  by (relation "measure (\<lambda>s. length (tasks s))") (auto simp: delete_task_shrinks)

declare evict.simps [simp del]

definition prune :: "platform \<Rightarrow> int \<Rightarrow> a2a_store \<Rightarrow> unit result \<times> a2a_store" where
  "prune p now s = evict (expire_tasks p (now - taskTtlMs s) (expire_markers now s))"

section \<open>Operations\<close>

definition new_task :: "platform \<Rightarrow> int \<Rightarrow> string \<Rightarrow> string \<Rightarrow> jsval \<Rightarrow> jsval \<Rightarrow> jsval \<Rightarrow> jsval \<Rightarrow> a2a_task" where
  "new_task p now tid cid owner ctx msg skill = \<lparr>task_id = tid, contextId = (if truthy ctx then ctx else JStr cid), ownerKey = owner,
     skillId = get skill ''id'', capability = get skill ''capability'',
     status = \<lparr>state = st_submitted, timestamp = date_iso p now, status_message = JUndef\<rparr>,
     artifacts = [], history = [msg], createdAt = date_iso p now, lastModified = date_iso p now,
     truynRequestId = JNull, providerNodeId = JNull, providerTrust = JNull, streamArtifactId = JNull,
     streamEvents = [], nextStreamSequence = 0\<rparr>"

text \<open>The clock is read once by \<^verbatim>\<open>prune\<close> and again for the new task.\<close>

definition create_task :: "platform \<Rightarrow> int \<Rightarrow> int \<Rightarrow> string \<Rightarrow> string \<Rightarrow> jsval \<Rightarrow> jsval \<Rightarrow> jsval \<Rightarrow> jsval \<Rightarrow> a2a_store \<Rightarrow>
    a2a_task result \<times> a2a_store" where
  "create_task p now now' tid cid owner ctx msg skill s =
     (case prune p now s of (Inl e, s1) \<Rightarrow> (Inl e, s1)
      | (Inr _, s1) \<Rightarrow>
         let key = messageCorrelationKey p owner msg in
         if key \<noteq> None \<and> jmap_get (byMessageCorrelation s1) (the key) \<noteq> None
           then (Inl (Coded ''A2A_MESSAGE_ID_REPLAY'' ''A2A messageId replay detected''), s1)
         else if key \<noteq> None \<and> length (byMessageCorrelation s1) \<ge> maxReplayMarkers s1
           then (Inl (Coded ''A2A_REPLAY_CAPACITY_REACHED'' ''A2A replay marker capacity reached''), s1)
         else let t = new_task p now' tid cid owner ctx msg skill;
           s2 = set_task t s1
         in (Inr t, case key of None \<Rightarrow> s2
              | Some k \<Rightarrow> s2\<lparr>byMessageCorrelation := jmap_set k (tid, now' + taskTtlMs s2) (byMessageCorrelation s2),
                  messageCorrelationByTaskId := jmap_set tid k (messageCorrelationByTaskId s2)\<rparr>))"

definition get_task :: "platform \<Rightarrow> int \<Rightarrow> string \<Rightarrow> a2a_store \<Rightarrow> a2a_task option result \<times> a2a_store" where
  "get_task p now tid s = (case prune p now s of (Inl e, s1) \<Rightarrow> (Inl e, s1) | (Inr _, s1) \<Rightarrow> (Inr (find_task s1 tid), s1))"

definition accessible :: "jsval \<Rightarrow> bool \<Rightarrow> a2a_task \<Rightarrow> bool" where
  "accessible owner allowAnonymous t =
     (if ownerKey t = JNull then allowAnonymous else owner \<noteq> JNull \<and> strict_eq (ownerKey t) owner)"

definition getAccessible :: "platform \<Rightarrow> int \<Rightarrow> string \<Rightarrow> jsval \<Rightarrow> bool \<Rightarrow> a2a_store \<Rightarrow> a2a_task option result \<times> a2a_store" where
  "getAccessible p now tid owner allowAnonymous s =
     (case get_task p now tid s of (Inl e, s1) \<Rightarrow> (Inl e, s1)
      | (Inr None, s1) \<Rightarrow> (Inr None, s1)
      | (Inr (Some t), s1) \<Rightarrow> (Inr (if accessible owner allowAnonymous t then Some t else None), s1))"

definition or_null :: "jsval \<Rightarrow> jsval" where
  "or_null v = (if truthy v then v else JNull)"

definition start_task :: "platform \<Rightarrow> int \<Rightarrow> string \<Rightarrow> jsval \<Rightarrow> jsval \<Rightarrow> jsval \<Rightarrow> a2a_store \<Rightarrow> a2a_task result \<times> a2a_store" where
  "start_task p now tid requestId provider trust s =
     (case find_task s tid of None \<Rightarrow> (Inl (Err ''A2A task not found''), s)
      | Some t \<Rightarrow>
         if \<not> truthy requestId then (Inl (Err ''TRUYN request id is required''), s)
         else let t' = (set_status st_working (date_iso p now) JUndef t)\<lparr>truynRequestId := requestId, providerNodeId := provider,
                    providerTrust := or_null trust, lastModified := date_iso p now\<rparr>;
                  s1 = put_task t' s
           in (Inr t', touchReplayMarker tid now (s1\<lparr>byTruynRequestId := jmap_set requestId tid (byTruynRequestId s1)\<rparr>)))"

definition reject_task :: "platform \<Rightarrow> int \<Rightarrow> string \<Rightarrow> string \<Rightarrow> jsval \<Rightarrow> a2a_store \<Rightarrow> a2a_task option \<times> a2a_store" where
  "reject_task p now mid tid msg s =
     (case find_task s tid of None \<Rightarrow> (None, s)
      | Some t \<Rightarrow>
         let t' = push_event ''dispatch'' ((set_status st_rejected (date_iso p now)
               (agent_message mid (if truthy msg then to_string p msg else ''Task rejected'') []) t)\<lparr>lastModified := date_iso p now\<rparr>)
         in (Some t', touchReplayMarker tid now (put_task t' s)))"

definition cancel_task :: "platform \<Rightarrow> int \<Rightarrow> string \<Rightarrow> string \<Rightarrow> jsval \<Rightarrow> a2a_store \<Rightarrow> a2a_task option \<times> a2a_store" where
  "cancel_task p now mid tid msg s =
     (case find_task s tid of None \<Rightarrow> (None, s)
      | Some t \<Rightarrow>
         if state (status t) = st_canceled then (Some t, s)
         else if isTerminal t then (None, s)
         else let t' = push_event ''revoke'' ((set_status st_canceled (date_iso p now)
               (agent_message mid (to_string p msg) []) t)\<lparr>lastModified := date_iso p now\<rparr>)
           in (Some t', touchReplayMarker tid now (put_task t' s)))"

section \<open>Results and partials\<close>

text \<open>
  \<^verbatim>\<open>artifactsFromTruynResult\<close> and \<^verbatim>\<open>artifactFromTruynResult\<close>: from the output and the options object to
  artifacts, or what they throw.
\<close>

record a2a_mapping =
  artifactsFromTruynResult :: "jsval \<Rightarrow> jsval \<Rightarrow> jsval list result"
  artifactFromTruynResult :: "jsval \<Rightarrow> jsval \<Rightarrow> jsval result"

fun error_code :: "jserror \<Rightarrow> string" where
  "error_code (Coded c m) = c"
| "error_code _ = []"

definition code_or :: "string \<Rightarrow> jserror \<Rightarrow> string" where
  "code_or dflt e = (if error_code e \<noteq> [] then error_code e else dflt)"

definition completed_task :: "platform \<Rightarrow> a2a_mapping \<Rightarrow> int \<Rightarrow> string \<Rightarrow> string \<Rightarrow> jsval \<Rightarrow> jsval \<Rightarrow> a2a_task \<Rightarrow> a2a_task" where
  "completed_task p mp now aid mid output metadata t =
     push_event ''result''
      (if truthy (oget metadata ''failed'')
       then set_status st_failed (date_iso p now) (agent_message mid
              (if truthy (get metadata ''error'') then to_string p (get metadata ''error'') else ''TRUYN provider execution failed'') []) t
       else (case artifactsFromTruynResult mp output (JObj [(''artifactId'', JStr aid), (''requestId'', truynRequestId t),
               (''providerNodeId'', providerNodeId t), (''trust'', providerTrust t), (''metadata'', metadata)]) of
           Inr as \<Rightarrow> set_status st_completed (date_iso p now) JUndef (t\<lparr>artifacts := as\<rparr>)
         | Inl e \<Rightarrow> set_status st_failed (date_iso p now) (agent_message mid ''TRUYN result failed A2A artifact integrity validation''
               [(''metadata'', JObj [(''io.truyn/errorCode'', JStr (code_or ''A2A_ARTIFACT_MAPPING_FAILED'' e))])]) (t\<lparr>artifacts := []\<rparr>)))"

definition completeResult :: "platform \<Rightarrow> a2a_mapping \<Rightarrow> int \<Rightarrow> string \<Rightarrow> string \<Rightarrow> jsval \<Rightarrow> jsval \<Rightarrow> jsval \<Rightarrow> jsval \<Rightarrow>
    a2a_task \<Rightarrow> a2a_store \<Rightarrow> a2a_task option \<times> a2a_store" where
  "completeResult p mp now aid mid output metadata provider trust t s =
     (if isTerminal t then (Some t, s)
      else let t1 = t\<lparr>providerNodeId := (if truthy provider then provider else providerNodeId t),
                 providerTrust := (if truthy trust then trust else providerTrust t), lastModified := date_iso p now\<rparr>;
               t2 = completed_task p mp now aid mid output metadata t1
        in (Some t2, touchReplayMarker (task_id t) now (put_task t2 s)))"

definition or_value :: "jsval \<Rightarrow> jsval \<Rightarrow> jsval" where
  "or_value a b = (if truthy a then a else b)"

definition completeFromTruynEvent :: "platform \<Rightarrow> a2a_mapping \<Rightarrow> int \<Rightarrow> string \<Rightarrow> string \<Rightarrow> jsval \<Rightarrow> a2a_store \<Rightarrow> a2a_task option \<times> a2a_store" where
  "completeFromTruynEvent p mp now aid mid event s =
     (if \<not> truthy event \<or> get event ''kind'' \<noteq> JStr ''RESULT'' \<or> oget (get event ''verification'') ''ok'' \<noteq> JBool True then (None, s)
      else let envelope = get event ''envelope''; payload = oget envelope ''payload'' in
      case request_task s (oget payload ''requestId'') of None \<Rightarrow> (None, s)
      | Some tid \<Rightarrow> (case find_task s tid of None \<Rightarrow> (None, s)
      | Some t \<Rightarrow>
         if truthy (providerNodeId t) \<and> \<not> strict_eq (oget envelope ''from'') (providerNodeId t) then (None, s)
         else completeResult p mp now aid mid (get payload ''output'') (object_or (JObj []) (get payload ''metadata''))
                (or_value (get envelope ''from'') (providerNodeId t)) (or_value (get event ''trust'') (providerTrust t)) t s))"

definition partial_error :: "jsval \<Rightarrow> bool \<Rightarrow> string" where
  "partial_error sequence hasDelta =
     (if \<not> hasDelta then ''A2A_PARTIAL_DELTA_REQUIRED''
      else if \<not> is_safe_integer sequence \<or> num_of sequence < 0 then ''A2A_PARTIAL_SEQUENCE_INVALID''
      else ''A2A_PARTIAL_SEQUENCE_MISMATCH'')"

definition artifact_update :: "a2a_task \<Rightarrow> jsval \<Rightarrow> jsval \<Rightarrow> jsval" where
  "artifact_update t artifact sequence = JObj [(''artifactUpdate'', JObj [(''taskId'', JStr (task_id t)), (''contextId'', contextId t),
     (''artifact'', artifact), (''append'', JBool (num_of sequence > 0)), (''lastChunk'', JBool False),
     (''metadata'', JObj [(''io.truyn/sequence'', sequence)])])]"

definition record_partial :: "platform \<Rightarrow> a2a_mapping \<Rightarrow> int \<Rightarrow> string \<Rightarrow> string \<Rightarrow> jsval \<Rightarrow> jsval \<Rightarrow> a2a_task \<Rightarrow> a2a_task" where
  "record_partial p mp now aid mid event requestId t =
     (let payload = get event ''payload''; sequence = oget payload ''sequence''; hasDelta = has_own payload ''delta'' in
      if \<not> is_safe_integer sequence \<or> num_of sequence < 0 \<or> \<not> hasDelta \<or> sequence \<noteq> JNum (of_nat (nextStreamSequence t))
      then failPartial p mid (partial_error sequence hasDelta) ''TRUYN partial failed A2A stream ordering validation'' now t
      else let t1 = t\<lparr>streamArtifactId := or_value (streamArtifactId t) (JStr aid)\<rparr> in
        (case artifactFromTruynResult mp (get payload ''delta'') (JObj [(''artifactId'', streamArtifactId t1), (''requestId'', requestId),
             (''providerNodeId'', or_value (get event ''from'') (providerNodeId t)), (''trust'', or_value (get event ''trust'') (providerTrust t)),
             (''metadata'', or_null (get payload ''metadata''))]) of
           Inl e \<Rightarrow> failPartial p mid (code_or ''A2A_PARTIAL_MAPPING_FAILED'' e) ''TRUYN partial failed A2A artifact integrity validation'' now t1
         | Inr artifact \<Rightarrow> t1\<lparr>streamEvents := streamEvents t1 @ [artifact_update t1 artifact sequence],
             nextStreamSequence := nextStreamSequence t1 + 1, lastModified := date_iso p now\<rparr>))"

definition recordCompactEvent :: "platform \<Rightarrow> a2a_mapping \<Rightarrow> int \<Rightarrow> string \<Rightarrow> string \<Rightarrow> jsval \<Rightarrow> a2a_store \<Rightarrow> a2a_task option \<times> a2a_store" where
  "recordCompactEvent p mp now aid mid event s =
     (if \<not> truthy event \<or> oget (get event ''verification'') ''ok'' \<noteq> JBool True then (None, s)
      else let requestId = or_value (get event ''requestId'') (oget (get event ''frame'') ''i'') in
      case request_task s requestId of None \<Rightarrow> (None, s)
      | Some tid \<Rightarrow> (case find_task s tid of None \<Rightarrow> (None, s)
      | Some t \<Rightarrow>
         if truthy (providerNodeId t) \<and> truthy (get event ''from'') \<and> \<not> strict_eq (get event ''from'') (providerNodeId t) then (None, s)
         else if isTerminal t then (Some t, s)
         else if get event ''kind'' = JStr ''PARTIAL''
           then let t' = record_partial p mp now aid mid event requestId t in (Some t', touchReplayMarker tid now (put_task t' s))
         else if get event ''kind'' = JStr ''RESULT''
           then completeResult p mp now aid mid (oget (get event ''payload'') ''output'')
                  (object_or (JObj []) (oget (get event ''payload'') ''metadata''))
                  (or_value (get event ''from'') (providerNodeId t)) (or_value (get event ''trust'') (providerTrust t)) t s
         else (None, s)))"

section \<open>Reading\<close>

definition streamEventsSince :: "a2a_task option \<Rightarrow> jsval \<Rightarrow> jsval list \<times> nat" where
  "streamEventsSince t cursor = (case t of None \<Rightarrow> ([], 0)
     | Some t \<Rightarrow> (drop (if is_safe_integer cursor \<and> num_of cursor \<ge> 0 then min (nat (int_of cursor)) (length (streamEvents t)) else 0) (streamEvents t),
         length (streamEvents t)))"

definition boundedHistory :: "jsval list \<Rightarrow> jsval \<Rightarrow> jsval list option" where
  "boundedHistory h n = (if n = JNum 0 then None
     else if \<not> is_integer n \<or> num_of n < 0 then Some h
     else Some (drop (length h - nat (int_of n)) h))"

definition snapshot :: "a2a_task \<Rightarrow> jsval \<Rightarrow> bool \<Rightarrow> jsval" where
  "snapshot t historyLength includeArtifacts = JObj ([(''id'', JStr (task_id t)), (''contextId'', contextId t), (''status'', status_object (status t))] @
     (if includeArtifacts \<and> artifacts t \<noteq> [] then [(''artifacts'', JArr (artifacts t))] else []) @
     (case boundedHistory (history t) historyLength of None \<Rightarrow> [] | Some h \<Rightarrow> if h = [] then [] else [(''history'', JArr h)]))"

section \<open>Sequences of calls\<close>

text \<open>A call with the times it reads and the identifiers it draws.\<close>

datatype a2a_op =
    Create int int string string jsval jsval jsval jsval
  | Access int string jsval bool
  | Start int string jsval jsval jsval
  | Reject int string string jsval
  | Cancel int string string jsval
  | Event int string string jsval
  | Compact int string string jsval
  | Drop string bool

fun a2a_apply :: "platform \<Rightarrow> a2a_mapping \<Rightarrow> a2a_op \<Rightarrow> a2a_store \<Rightarrow> a2a_store" where
  "a2a_apply p mp (Create now now' tid cid owner ctx msg skill) s = snd (create_task p now now' tid cid owner ctx msg skill s)"
| "a2a_apply p mp (Access now tid owner anon) s = snd (getAccessible p now tid owner anon s)"
| "a2a_apply p mp (Start now tid r provider trust) s = snd (start_task p now tid r provider trust s)"
| "a2a_apply p mp (Reject now mid tid msg) s = snd (reject_task p now mid tid msg s)"
| "a2a_apply p mp (Cancel now mid tid msg) s = snd (cancel_task p now mid tid msg s)"
| "a2a_apply p mp (Event now aid mid ev) s = snd (completeFromTruynEvent p mp now aid mid ev s)"
| "a2a_apply p mp (Compact now aid mid ev) s = snd (recordCompactEvent p mp now aid mid ev s)"
| "a2a_apply p mp (Drop tid forget) s = snd (delete_task tid forget s)"

definition a2a_exec :: "platform \<Rightarrow> a2a_mapping \<Rightarrow> a2a_op list \<Rightarrow> a2a_store \<Rightarrow> a2a_store" where
  "a2a_exec p mp ops s = fold (a2a_apply p mp) ops s"

text \<open>The task identifiers a call draws; \<^verbatim>\<open>randomUUID\<close> never repeats one.\<close>

fun op_ids :: "a2a_op \<Rightarrow> string list" where
  "op_ids (Create now now' tid cid owner ctx msg skill) = [tid]"
| "op_ids _ = []"

text \<open>What the program relies on of the clock's texts: they parse back and are not empty.\<close>

definition iso_law :: "platform \<Rightarrow> bool" where
  "iso_law p \<longleftrightarrow> date_law p \<and> (\<forall>t. date_iso p t \<noteq> [])"

section \<open>The invariant of the store\<close>

definition event_sequences :: "jsval list \<Rightarrow> jsval list" where
  "event_sequences evs = map (\<lambda>e. get (get (get e ''artifactUpdate'') ''metadata'') ''io.truyn/sequence'') (filter (\<lambda>e. has_own e ''artifactUpdate'') evs)"

definition stream_ok :: "a2a_task \<Rightarrow> bool" where
  "stream_ok t \<longleftrightarrow> event_sequences (streamEvents t) = map (\<lambda>n. JNum (of_nat n)) [0..<nextStreamSequence t]"

definition marks_ok :: "platform \<Rightarrow> a2a_store \<Rightarrow> bool" where
  "marks_ok p s \<longleftrightarrow> jmap_ok (byMessageCorrelation s) \<and> jmap_ok (messageCorrelationByTaskId s) \<and>
     (\<forall>tid k. map_of (messageCorrelationByTaskId s) tid = Some k \<longrightarrow>
        (\<exists>t. find_task s tid = Some t \<and> map_of (byMessageCorrelation s) k = Some (tid, modified_at p t + taskTtlMs s)))"

definition a2a_ok :: "platform \<Rightarrow> string set \<Rightarrow> a2a_store \<Rightarrow> bool" where
  "a2a_ok p used s \<longleftrightarrow> distinct (map task_id (tasks s)) \<and> task_id ` set (tasks s) \<subseteq> used \<and> (\<forall>t\<in>set (tasks s). stream_ok t) \<and>
     length (tasks s) \<le> maxTasks s \<and> length (byMessageCorrelation s) \<le> maxReplayMarkers s \<and> marks_ok p s"

lemma find_task_mem: "find_task s tid = Some t \<Longrightarrow> t \<in> set (tasks s) \<and> task_id t = tid"
  by (auto simp: find_task_def find_Some_iff)

lemma find_distinct: "distinct (map f xs) \<Longrightarrow> x \<in> set xs \<Longrightarrow> find (\<lambda>u. f u = f x) xs = Some x"
  by (induction xs) (auto simp: rev_image_eqI)

lemma find_task_unique: "distinct (map task_id (tasks s)) \<Longrightarrow> t \<in> set (tasks s) \<Longrightarrow> find_task s (task_id t) = Some t"
  unfolding find_task_def by (rule find_distinct)

lemma marked_task:
  assumes "marks_ok p s" "map_of (messageCorrelationByTaskId s) tid = Some k"
  obtains t where "find_task s tid = Some t" "map_of (byMessageCorrelation s) k = Some (tid, modified_at p t + taskTtlMs s)"
  using assms unfolding marks_ok_def by blast

lemma marks_apart:
  "marks_ok p s \<Longrightarrow> map_of (messageCorrelationByTaskId s) tid = Some k \<Longrightarrow> map_of (messageCorrelationByTaskId s) u = Some k \<Longrightarrow> u = tid"
proof -
  assume m: "marks_ok p s" "map_of (messageCorrelationByTaskId s) tid = Some k" "map_of (messageCorrelationByTaskId s) u = Some k"
  obtain x y where "map_of (byMessageCorrelation s) k = Some (tid, x)" "map_of (byMessageCorrelation s) k = Some (u, y)"
    using marked_task[OF m(1,2)] marked_task[OF m(1,3)] by metis
  then show "u = tid" by simp
qed

lemma a2a_ok_marks: "a2a_ok p used s \<Longrightarrow> marks_ok p s"
  by (simp add: a2a_ok_def)

lemma find_map_put:
  "find (\<lambda>u. task_id u = k) (map (\<lambda>u. if task_id u = task_id t then t else u) ts) =
     (if k = task_id t then (if find (\<lambda>u. task_id u = k) ts = None then None else Some t) else find (\<lambda>u. task_id u = k) ts)"
  by (induction ts) auto

lemma find_put_task:
  "find_task (put_task t s) k = (if k = task_id t then (if find_task s k = None then None else Some t) else find_task s k)"
  by (simp add: find_task_def put_task_def find_map_put)

lemma find_task_other [simp]:
  "find_task (s\<lparr>byTruynRequestId := a\<rparr>) k = find_task s k" "find_task (s\<lparr>byMessageCorrelation := b\<rparr>) k = find_task s k"
  "find_task (s\<lparr>messageCorrelationByTaskId := c\<rparr>) k = find_task s k"
  by (simp_all add: find_task_def)

lemma touch_sel [simp]:
  "tasks (touchReplayMarker tid now s) = tasks s" "maxTasks (touchReplayMarker tid now s) = maxTasks s"
  "maxReplayMarkers (touchReplayMarker tid now s) = maxReplayMarkers s" "taskTtlMs (touchReplayMarker tid now s) = taskTtlMs s"
  "messageCorrelationByTaskId (touchReplayMarker tid now s) = messageCorrelationByTaskId s"
  "byTruynRequestId (touchReplayMarker tid now s) = byTruynRequestId s"
  "find_task (touchReplayMarker tid now s) k = find_task s k"
  by (simp_all add: touchReplayMarker_def split: option.splits)

lemma put_sel [simp]:
  "maxTasks (put_task t s) = maxTasks s" "maxReplayMarkers (put_task t s) = maxReplayMarkers s" "taskTtlMs (put_task t s) = taskTtlMs s"
  "messageCorrelationByTaskId (put_task t s) = messageCorrelationByTaskId s" "byMessageCorrelation (put_task t s) = byMessageCorrelation s"
  "byTruynRequestId (put_task t s) = byTruynRequestId s" "length (tasks (put_task t s)) = length (tasks s)"
  "map task_id (tasks (put_task t s)) = map task_id (tasks s)"
  by (auto simp: put_task_def)

lemma touch_markers:
  "map_of (byMessageCorrelation (touchReplayMarker tid now s)) k =
     (if map_of (messageCorrelationByTaskId s) tid = Some k \<and> map_of (byMessageCorrelation s) k \<noteq> None then Some (tid, now + taskTtlMs s)
      else map_of (byMessageCorrelation s) k)"
  by (auto simp: touchReplayMarker_def split: option.splits)

lemma length_update_present: "map_of m k \<noteq> None \<Longrightarrow> length (AList.update k v m) = length m"
  by (induction m) (auto split: if_splits)

lemma touch_length: "length (byMessageCorrelation (touchReplayMarker tid now s)) = length (byMessageCorrelation s)"
  by (auto simp: touchReplayMarker_def length_update_present split: option.splits)

lemma touch_jmap_ok: "jmap_ok (byMessageCorrelation (touchReplayMarker tid now s)) = jmap_ok (byMessageCorrelation s)"
  by (auto simp: touchReplayMarker_def split: option.splits)

text \<open>A change of a task that is stamped and touches its marker at the same instant keeps the invariant.\<close>

lemma put_touch_ok:
  assumes ok: "a2a_ok p used s" and t: "find_task s tid = Some t" and t': "task_id t' = tid" "modified_at p t' = now" "stream_ok t'"
  shows "a2a_ok p used (touchReplayMarker tid now (put_task t' s))"
proof -
  let ?s = "touchReplayMarker tid now (put_task t' s)"
  have marks: "marks_ok p ?s"
    unfolding marks_ok_def
  proof (intro conjI allI impI)
    show "jmap_ok (byMessageCorrelation ?s)" "jmap_ok (messageCorrelationByTaskId ?s)"
      using ok by (simp_all add: a2a_ok_def marks_ok_def touch_jmap_ok)
    fix u k assume k: "map_of (messageCorrelationByTaskId ?s) u = Some k"
    then have k': "map_of (messageCorrelationByTaskId s) u = Some k" by simp
    with a2a_ok_marks[OF ok] obtain v where v: "find_task s u = Some v" "map_of (byMessageCorrelation s) k = Some (u, modified_at p v + taskTtlMs s)"
      by (rule marked_task)
    show "\<exists>t. find_task ?s u = Some t \<and> map_of (byMessageCorrelation ?s) k = Some (u, modified_at p t + taskTtlMs ?s)"
    proof (cases "u = tid")
      case True
      with k v t t' show ?thesis by (simp add: find_put_task touch_markers)
    next
      case False
      have "map_of (messageCorrelationByTaskId s) tid \<noteq> Some k"
        using marks_apart[OF a2a_ok_marks[OF ok] k'] False by blast
      with False v t'(1) show ?thesis by (simp add: find_put_task touch_markers)
    qed
  qed
  have "set (tasks ?s) \<subseteq> insert t' (set (tasks s))" by (auto simp: put_task_def)
  moreover have "task_id ` set (tasks ?s) = task_id ` set (tasks s)" by (metis image_set put_sel(8) touch_sel(1))
  ultimately show ?thesis using ok marks t'(3) by (auto simp: a2a_ok_def touch_length subset_iff)
qed

lemma a2a_ok_requests: "a2a_ok p used (s\<lparr>byTruynRequestId := m\<rparr>) = a2a_ok p used s"
  by (simp add: a2a_ok_def marks_ok_def)

section \<open>Deletion and pruning keep the invariant\<close>

lemma delete_sel [simp]:
  "maxTasks (snd (delete_task tid f s)) = maxTasks s" "maxReplayMarkers (snd (delete_task tid f s)) = maxReplayMarkers s"
  "taskTtlMs (snd (delete_task tid f s)) = taskTtlMs s"
  "tasks (snd (delete_task tid f s)) = filter (\<lambda>u. task_id u \<noteq> tid) (tasks s)"
  by (auto simp: delete_task_def find_task_def find_None_iff filter_id_conv split: option.splits)

lemma find_filter_other: "find (\<lambda>u. f u = k) (filter (\<lambda>u. f u \<noteq> tid) ts) = (if k = tid then None else find (\<lambda>u. f u = k) ts)"
  by (induction ts) auto

lemma find_delete: "find_task (snd (delete_task tid f s)) k = (if k = tid then None else find_task s k)"
  by (simp add: find_task_def find_filter_other)

lemma delete_unmarked: "find_task s tid = None \<Longrightarrow> delete_task tid f s = (False, s)"
  by (simp add: delete_task_def)

lemma delete_maps:
  assumes "find_task s tid = Some t"
  shows "messageCorrelationByTaskId (snd (delete_task tid f s)) = jmap_delete tid (messageCorrelationByTaskId s)"
    "byMessageCorrelation (snd (delete_task tid f s)) = (case map_of (messageCorrelationByTaskId s) tid of
       Some k \<Rightarrow> if f then jmap_delete k (byMessageCorrelation s) else byMessageCorrelation s | None \<Rightarrow> byMessageCorrelation s)"
  using assms by (simp_all add: delete_task_def)

lemma length_delete_le: "length (AList.delete k m) \<le> length m"
  by (simp add: AList.delete_eq)

lemma delete_marks:
  assumes ok: "marks_ok p s"
  shows "marks_ok p (snd (delete_task tid f s))"
proof (cases "find_task s tid")
  case None
  with ok show ?thesis by (simp add: delete_unmarked)
next
  case (Some t)
  note maps = delete_maps[OF Some, of f]
  show ?thesis unfolding marks_ok_def
  proof (intro conjI allI impI)
    show "jmap_ok (byMessageCorrelation (snd (delete_task tid f s)))" "jmap_ok (messageCorrelationByTaskId (snd (delete_task tid f s)))"
      using ok by (auto simp: maps marks_ok_def split: option.splits)
    fix u k assume "map_of (messageCorrelationByTaskId (snd (delete_task tid f s))) u = Some k"
    then have u: "u \<noteq> tid" "map_of (messageCorrelationByTaskId s) u = Some k" by (auto simp: maps split: if_splits)
    from marked_task[OF ok u(2)] obtain v where v: "find_task s u = Some v" "map_of (byMessageCorrelation s) k = Some (u, modified_at p v + taskTtlMs s)" .
    have "map_of (messageCorrelationByTaskId s) tid \<noteq> Some k" using marks_apart[OF ok u(2)] u(1) by blast
    then have "map_of (byMessageCorrelation (snd (delete_task tid f s))) k = map_of (byMessageCorrelation s) k"
      by (auto simp: maps split: option.splits)
    with u(1) v show "\<exists>t. find_task (snd (delete_task tid f s)) u = Some t \<and>
      map_of (byMessageCorrelation (snd (delete_task tid f s))) k = Some (u, modified_at p t + taskTtlMs (snd (delete_task tid f s)))"
      by (simp add: find_delete)
  qed
qed

lemma delete_markers_length: "length (byMessageCorrelation (snd (delete_task tid f s))) \<le> length (byMessageCorrelation s)"
  by (cases "find_task s tid") (auto simp: delete_unmarked delete_maps length_delete_le split: option.splits)

lemma delete_ok: "a2a_ok p used s \<Longrightarrow> a2a_ok p used (snd (delete_task tid f s))"
  using delete_marks[of p s tid f] delete_markers_length[of tid f s]
  by (auto simp: a2a_ok_def distinct_map inj_on_def intro: order_trans[OF length_filter_le])

lemma evict_ok: "a2a_ok p used s \<Longrightarrow> a2a_ok p used (snd (evict s))"
proof (induction s rule: evict.induct)
  case (1 s)
  then show ?case by (subst evict.simps) (auto simp: delete_ok split: option.splits)
qed

lemma evict_facts:
  "byMessageCorrelation (snd (evict s)) = byMessageCorrelation s \<and> taskTtlMs (snd (evict s)) = taskTtlMs s \<and>
     maxTasks (snd (evict s)) = maxTasks s \<and> maxReplayMarkers (snd (evict s)) = maxReplayMarkers s \<and>
     (\<forall>k t. find_task (snd (evict s)) k = Some t \<longrightarrow> find_task s k = Some t) \<and>
     (fst (evict s) = Inr () \<longrightarrow> length (tasks (snd (evict s))) < maxTasks s)"
proof (induction s rule: evict.induct)
  case (1 s)
  have "byMessageCorrelation (snd (delete_task tid False s)) = byMessageCorrelation s" for tid
    by (cases "find_task s tid") (auto simp: delete_unmarked delete_maps split: option.splits)
  note same = this
  show ?case
  proof (cases "length (tasks s) < maxTasks s")
    case True
    then have "evict s = (Inr (), s)" by (simp add: evict.simps)
    with True show ?thesis by simp
  next
    case False
    show ?thesis
    proof (cases "find isTerminal (tasks s)")
      case None
      with False have "evict s = (Inl (Err ''A2A task capacity reached''), s)" by (simp add: evict.simps)
      then show ?thesis by simp
    next
      case (Some t)
      with False have "evict s = evict (snd (delete_task (task_id t) False s))" by (subst evict.simps) simp
      moreover have "\<forall>k u. find_task (snd (delete_task (task_id t) False s)) k = Some u \<longrightarrow> find_task s k = Some u" by (simp add: find_delete)
      ultimately show ?thesis using "1.IH"[OF False Some] same[of "task_id t"] by auto
    qed
  qed
qed

text \<open>
  Expiry removes the markers first and the tasks after; in between, a marked task either still has its
  marker or has expired as well.
\<close>

definition expiring :: "platform \<Rightarrow> int \<Rightarrow> a2a_store \<Rightarrow> bool" where
  "expiring p now s \<longleftrightarrow> jmap_ok (byMessageCorrelation s) \<and> jmap_ok (messageCorrelationByTaskId s) \<and>
     (\<forall>tid k. map_of (messageCorrelationByTaskId s) tid = Some k \<longrightarrow> (\<exists>t. find_task s tid = Some t \<and>
        (if modified_at p t + taskTtlMs s < now then map_of (byMessageCorrelation s) k = None
         else map_of (byMessageCorrelation s) k = Some (tid, modified_at p t + taskTtlMs s))))"

lemma map_of_filter_val:
  "jmap_ok m \<Longrightarrow> map_of (filter (\<lambda>(k, v). P v) m) k = (case map_of m k of None \<Rightarrow> None | Some v \<Rightarrow> if P v then Some v else None)"
  by (induction m) (auto simp: map_of_eq_None_iff image_iff split: option.splits)

lemma expire_markers_expiring:
  assumes "marks_ok p s"
  shows "expiring p now (expire_markers now s)"
  unfolding expiring_def
proof (intro conjI allI impI)
  have f: "(\<lambda>(k, tid, e). \<not> e < now) = (\<lambda>(k::string, v). \<not> snd (v :: string \<times> int) < now)" by auto
  have ok: "jmap_ok (byMessageCorrelation s)" using assms by (simp add: marks_ok_def)
  show "jmap_ok (byMessageCorrelation (expire_markers now s))" "jmap_ok (messageCorrelationByTaskId (expire_markers now s))"
    using assms by (simp_all add: expire_markers_def marks_ok_def distinct_map_filter)
  fix tid k assume "map_of (messageCorrelationByTaskId (expire_markers now s)) tid = Some k"
  then have "map_of (messageCorrelationByTaskId s) tid = Some k" by (simp add: expire_markers_def)
  from marked_task[OF assms this] obtain t where t: "find_task s tid = Some t" "map_of (byMessageCorrelation s) k = Some (tid, modified_at p t + taskTtlMs s)" .
  show "\<exists>t. find_task (expire_markers now s) tid = Some t \<and> (if modified_at p t + taskTtlMs (expire_markers now s) < now then map_of (byMessageCorrelation (expire_markers now s)) k = None
     else map_of (byMessageCorrelation (expire_markers now s)) k = Some (tid, modified_at p t + taskTtlMs (expire_markers now s)))"
    using t by (intro exI[of _ t]) (simp add: expire_markers_def f map_of_filter_val[OF ok])
qed

lemma expire_task_step:
  assumes "expiring p now s" "find_task s (task_id t) = Some t \<or> find_task s (task_id t) = None"
  shows "expiring p now (expire_task p (now - taskTtlMs s) t s) \<and> byMessageCorrelation (expire_task p (now - taskTtlMs s) t s) = byMessageCorrelation s"
proof (cases "modified_at p t < now - taskTtlMs s \<and> find_task s (task_id t) \<noteq> None")
  case False
  with assms show ?thesis by (auto simp: expire_task_def delete_unmarked)
next
  case True
  with assms(2) have t: "find_task s (task_id t) = Some t" "modified_at p t + taskTtlMs s < now" by auto
  let ?s = "snd (delete_task (task_id t) True s)"
  have "byMessageCorrelation ?s = byMessageCorrelation s"
  proof (cases "map_of (messageCorrelationByTaskId s) (task_id t)")
    case (Some k)
    then have "map_of (byMessageCorrelation s) k = None" using assms(1) t by (force simp: expiring_def)
    then have "jmap_delete k (byMessageCorrelation s) = byMessageCorrelation s"
      by (simp add: AList.delete_eq filter_id_conv map_of_eq_None_iff image_iff case_prod_beta)
    with Some show ?thesis by (simp add: delete_maps[OF t(1)])
  qed (simp add: delete_maps[OF t(1)])
  moreover have "expiring p now ?s"
    unfolding expiring_def calculation delete_maps(1)[OF t(1)] delete_sel
  proof (intro conjI allI impI)
    show "jmap_ok (byMessageCorrelation s)" "jmap_ok (jmap_delete (task_id t) (messageCorrelationByTaskId s))" using assms(1) by (simp_all add: expiring_def)
    fix u k assume "map_of (jmap_delete (task_id t) (messageCorrelationByTaskId s)) u = Some k"
    then have u: "u \<noteq> task_id t" "map_of (messageCorrelationByTaskId s) u = Some k" by (auto split: if_splits)
    then show "\<exists>v. find_task ?s u = Some v \<and> (if modified_at p v + taskTtlMs s < now then map_of (byMessageCorrelation s) k = None
        else map_of (byMessageCorrelation s) k = Some (u, modified_at p v + taskTtlMs s))"
      using assms(1) unfolding expiring_def by (simp only: find_delete if_False)
  qed
  ultimately show ?thesis using True by (simp add: expire_task_def)
qed

lemma expire_task_tasks: "tasks (expire_task p th t s) = (if modified_at p t < th then filter (\<lambda>u. task_id u \<noteq> task_id t) (tasks s) else tasks s)"
  by (simp add: expire_task_def)

lemma expire_task_sel [simp]: "taskTtlMs (expire_task p th t s) = taskTtlMs s" "maxTasks (expire_task p th t s) = maxTasks s"
  "maxReplayMarkers (expire_task p th t s) = maxReplayMarkers s"
  by (simp_all add: expire_task_def)

lemma expire_fold:
  assumes "expiring p now s" "distinct (map task_id (tasks s0))" "set ts \<subseteq> set (tasks s0)" "set (tasks s) \<subseteq> set (tasks s0)" "distinct (map task_id (tasks s))"
  shows "expiring p now (fold (expire_task p (now - taskTtlMs s)) ts s) \<and>
    byMessageCorrelation (fold (expire_task p (now - taskTtlMs s)) ts s) = byMessageCorrelation s \<and>
    taskTtlMs (fold (expire_task p (now - taskTtlMs s)) ts s) = taskTtlMs s \<and> maxTasks (fold (expire_task p (now - taskTtlMs s)) ts s) = maxTasks s \<and>
    maxReplayMarkers (fold (expire_task p (now - taskTtlMs s)) ts s) = maxReplayMarkers s \<and>
    tasks (fold (expire_task p (now - taskTtlMs s)) ts s) =
      filter (\<lambda>u. \<forall>t\<in>set ts. modified_at p t < now - taskTtlMs s \<longrightarrow> task_id u \<noteq> task_id t) (tasks s)"
  using assms
proof (induction ts arbitrary: s)
  case (Cons t ts)
  let ?s = "expire_task p (now - taskTtlMs s) t s"
  have "find_task s (task_id t) = Some t \<or> find_task s (task_id t) = None"
  proof (cases "find_task s (task_id t)")
    case (Some u)
    then have "u \<in> set (tasks s0)" "task_id u = task_id t" using find_task_mem[OF Some] Cons.prems(4) by auto
    then show ?thesis using Cons.prems(2,3) Some by (simp add: distinct_map inj_on_def)
  qed simp
  from expire_task_step[OF Cons.prems(1) this] have 1: "expiring p now ?s" "byMessageCorrelation ?s = byMessageCorrelation s" by blast+
  have "set (tasks ?s) \<subseteq> set (tasks s0)" "distinct (map task_id (tasks ?s))" using Cons.prems(4,5) by (auto simp: expire_task_tasks distinct_map_filter)
  from Cons.IH[OF 1(1) Cons.prems(2) _ this] Cons.prems(3) 1(2) show ?case
    by (auto simp: expire_task_tasks intro!: filter_cong)
qed simp

lemma prune_ok:
  assumes ok: "a2a_ok p used s"
  shows "a2a_ok p used (snd (prune p now s)) \<and>
    byMessageCorrelation (snd (prune p now s)) = filter (\<lambda>(k, tid, e). \<not> e < now) (byMessageCorrelation s) \<and>
    taskTtlMs (snd (prune p now s)) = taskTtlMs s \<and> maxTasks (snd (prune p now s)) = maxTasks s \<and> maxReplayMarkers (snd (prune p now s)) = maxReplayMarkers s \<and>
    (\<forall>k t. find_task (snd (prune p now s)) k = Some t \<longrightarrow> find_task s k = Some t) \<and>
    (fst (prune p now s) = Inr () \<longrightarrow> length (tasks (snd (prune p now s))) < maxTasks s)"
proof -
  let ?m = "expire_markers now s" and ?e = "expire_tasks p (now - taskTtlMs s) (expire_markers now s)"
  have sel: "tasks ?m = tasks s" "taskTtlMs ?m = taskTtlMs s" "maxTasks ?m = maxTasks s" "maxReplayMarkers ?m = maxReplayMarkers s" by (simp_all add: expire_markers_def)
  have d: "distinct (map task_id (tasks ?m))" using ok sel by (simp add: a2a_ok_def)
  note f = expire_fold[OF expire_markers_expiring[OF a2a_ok_marks[OF ok], of now] d order_refl order_refl d, unfolded sel, folded expire_tasks_def[of p _ ?m, unfolded sel]]
  have gone: "\<not> modified_at p u + taskTtlMs s < now" if "u \<in> set (tasks ?e)" for u using that f sel by force
  have sub: "set (tasks ?e) \<subseteq> set (tasks s)" "distinct (map task_id (tasks ?e))" "length (tasks ?e) \<le> length (tasks s)"
    using f d sel by (auto simp: distinct_map_filter)
  have ex: "expiring p now ?e" using f by blast
  have marks: "marks_ok p ?e"
    unfolding marks_ok_def
  proof (intro conjI allI impI)
    show "jmap_ok (byMessageCorrelation ?e)" "jmap_ok (messageCorrelationByTaskId ?e)" using ex unfolding expiring_def by blast+
    fix tid k assume "map_of (messageCorrelationByTaskId ?e) tid = Some k"
    then obtain t where t: "find_task ?e tid = Some t"
      "if modified_at p t + taskTtlMs ?e < now then map_of (byMessageCorrelation ?e) k = None else map_of (byMessageCorrelation ?e) k = Some (tid, modified_at p t + taskTtlMs ?e)"
      using ex unfolding expiring_def by blast
    have "\<not> modified_at p t + taskTtlMs ?e < now" using gone[OF conjunct1[OF find_task_mem[OF t(1)]]] f by argo
    with t show "\<exists>t. find_task ?e tid = Some t \<and> map_of (byMessageCorrelation ?e) k = Some (tid, modified_at p t + taskTtlMs ?e)" by auto
  qed
  have bm: "byMessageCorrelation ?e = filter (\<lambda>(k, tid, e). \<not> e < now) (byMessageCorrelation s)" using f by (simp add: expire_markers_def)
  have "a2a_ok p used ?e"
    unfolding a2a_ok_def
  proof (intro conjI)
    show "length (byMessageCorrelation ?e) \<le> maxReplayMarkers ?e"
      using ok f length_filter_le[of "\<lambda>(k, tid, e). \<not> e < now" "byMessageCorrelation s"] unfolding bm by (simp add: a2a_ok_def)
  next
    have "maxTasks ?e = maxTasks s" using f by blast
    then show "length (tasks ?e) \<le> maxTasks ?e" using sub(3) ok unfolding a2a_ok_def by linarith
  qed (use ok sub marks in \<open>auto simp: a2a_ok_def\<close>)
  moreover have "find_task s k = Some t" if "find_task ?e k = Some t" for k t
    using find_task_mem[OF that] sub(1) ok find_task_unique[of s t] by (auto simp: a2a_ok_def)
  ultimately show ?thesis using evict_ok[of p used ?e] evict_facts[of ?e] f bm unfolding prune_def by auto
qed

section \<open>Every call keeps the invariant\<close>

lemma modified_at_stamp: "iso_law p \<Longrightarrow> lastModified t = date_iso p now \<Longrightarrow> modified_at p t = now"
  by (simp add: modified_at_def iso_law_def date_law_def)

lemma event_sequences_append: "event_sequences (xs @ ys) = event_sequences xs @ event_sequences ys"
  by (simp add: event_sequences_def)

lemma push_event_ok [simp]:
  "stream_ok (push_event src t) = stream_ok t" "task_id (push_event src t) = task_id t" "lastModified (push_event src t) = lastModified t"
  "status (push_event src t) = status t" "nextStreamSequence (push_event src t) = nextStreamSequence t" "artifacts (push_event src t) = artifacts t"
  "streamEvents (push_event src t) = streamEvents t @ [statusUpdateEvent t src]"
  by (simp_all add: push_event_def stream_ok_def event_sequences_append) (simp_all add: event_sequences_def statusUpdateEvent_def)

lemma set_status_sel [simp]:
  "task_id (set_status x i m t) = task_id t" "lastModified (set_status x i m t) = lastModified t" "streamEvents (set_status x i m t) = streamEvents t"
  "nextStreamSequence (set_status x i m t) = nextStreamSequence t" "stream_ok (set_status x i m t) = stream_ok t" "artifacts (set_status x i m t) = artifacts t"
  "state (status (set_status x i m t)) = x"
  by (simp_all add: set_status_def stream_ok_def)

lemma stream_ok_other [simp]:
  "stream_ok (t\<lparr>lastModified := a\<rparr>) = stream_ok t" "stream_ok (t\<lparr>truynRequestId := b\<rparr>) = stream_ok t"
  "stream_ok (t\<lparr>providerNodeId := b\<rparr>) = stream_ok t" "stream_ok (t\<lparr>providerTrust := b\<rparr>) = stream_ok t"
  "stream_ok (t\<lparr>streamArtifactId := b\<rparr>) = stream_ok t" "stream_ok (t\<lparr>artifacts := c\<rparr>) = stream_ok t"
  by (simp_all add: stream_ok_def)

lemma failPartial_sel [simp]:
  "stream_ok (failPartial p mid c x now t) = stream_ok t" "task_id (failPartial p mid c x now t) = task_id t"
  "lastModified (failPartial p mid c x now t) = date_iso p now" "\<exists>e. streamEvents (failPartial p mid c x now t) = streamEvents t @ [e]"
  by (simp_all add: failPartial_def)

lemma completed_sel [simp]:
  "stream_ok (completed_task p mp now aid mid out md t) = stream_ok t" "task_id (completed_task p mp now aid mid out md t) = task_id t"
  "lastModified (completed_task p mp now aid mid out md t) = lastModified t"
  "\<exists>e. streamEvents (completed_task p mp now aid mid out md t) = streamEvents t @ [e]"
  by (simp_all add: completed_task_def split: sum.splits)

lemma artifact_update_sequence: "event_sequences [artifact_update t a sq] = [sq]"
  by (simp add: event_sequences_def artifact_update_def)

lemma record_partial_facts:
  "task_id (record_partial p mp now aid mid ev r t) = task_id t" "lastModified (record_partial p mp now aid mid ev r t) = date_iso p now"
  "stream_ok t \<Longrightarrow> stream_ok (record_partial p mp now aid mid ev r t)" "\<exists>e. streamEvents (record_partial p mp now aid mid ev r t) = streamEvents t @ [e]"
proof -
  let ?t = "t\<lparr>streamArtifactId := or_value (streamArtifactId t) (JStr aid)\<rparr>" and ?sq = "oget (get ev ''payload'') ''sequence''"
  have "(\<exists>x c m. record_partial p mp now aid mid ev r t = failPartial p mid c m now x \<and> (x = t \<or> x = ?t)) \<or>
    (\<exists>a. ?sq = JNum (of_nat (nextStreamSequence t)) \<and> record_partial p mp now aid mid ev r t =
       ?t\<lparr>streamEvents := streamEvents t @ [artifact_update ?t a ?sq], nextStreamSequence := nextStreamSequence t + 1, lastModified := date_iso p now\<rparr>)"
    by (auto simp: record_partial_def Let_def split: sum.splits)
  then show "task_id (record_partial p mp now aid mid ev r t) = task_id t" "lastModified (record_partial p mp now aid mid ev r t) = date_iso p now"
    "stream_ok t \<Longrightarrow> stream_ok (record_partial p mp now aid mid ev r t)" "\<exists>e. streamEvents (record_partial p mp now aid mid ev r t) = streamEvents t @ [e]"
    by (auto simp: stream_ok_def event_sequences_append artifact_update_sequence failPartial_def)
      (auto simp: event_sequences_def statusUpdateEvent_def)
qed

lemma stamped_ok:
  assumes "iso_law p" "a2a_ok p used s" "find_task s tid = Some t" "task_id t' = task_id t" "lastModified t' = date_iso p now" "stream_ok t \<Longrightarrow> stream_ok t'"
  shows "a2a_ok p used (touchReplayMarker tid now (put_task t' s))"
proof (rule put_touch_ok[OF assms(2,3)])
  have t: "t \<in> set (tasks s)" "task_id t = tid" using find_task_mem[OF assms(3)] by auto
  then show "task_id t' = tid" "modified_at p t' = now" "stream_ok t'" using assms by (auto simp: a2a_ok_def modified_at_stamp)
qed

lemma completeResult_ok:
  assumes "iso_law p" "a2a_ok p used s" "find_task s tid = Some t"
  shows "a2a_ok p used (snd (completeResult p mp now aid mid out md pr tr t s))"
proof -
  have t: "task_id t = tid" using find_task_mem[OF assms(3)] by auto
  show ?thesis unfolding completeResult_def Let_def t using assms(2) by (auto intro!: stamped_ok[OF assms])
qed

lemma touch_requests: "touchReplayMarker tid now (s\<lparr>byTruynRequestId := m\<rparr>) = (touchReplayMarker tid now s)\<lparr>byTruynRequestId := m\<rparr>"
  by (auto simp: touchReplayMarker_def split: option.splits)

lemma set_task_new: "find_task s (task_id t) = None \<Longrightarrow> set_task t s = s\<lparr>tasks := tasks s @ [t]\<rparr>"
  by (simp add: set_task_def)

lemma find_append: "find_task (s\<lparr>tasks := tasks s @ [t]\<rparr>) k = (case find_task s k of None \<Rightarrow> if task_id t = k then Some t else None | Some u \<Rightarrow> Some u)"
proof -
  have "find P (xs @ [t]) = (case find P xs of None \<Rightarrow> if P t then Some t else None | Some u \<Rightarrow> Some u)" for P xs
    by (induction xs) auto
  then show ?thesis by (simp add: find_task_def)
qed

lemma length_update_new: "map_of m k = None \<Longrightarrow> length (AList.update k v m) = Suc (length m)"
  by (induction m) (auto split: if_splits)

lemma find_fresh: "a2a_ok p used s \<Longrightarrow> tid \<notin> used \<Longrightarrow> find_task s tid = None"
  by (cases "find_task s tid") (auto simp: a2a_ok_def dest: find_task_mem)

lemma new_task_sel [simp]:
  "task_id (new_task p now tid cid owner ctx msg skill) = tid" "lastModified (new_task p now tid cid owner ctx msg skill) = date_iso p now"
  "streamEvents (new_task p now tid cid owner ctx msg skill) = []" "nextStreamSequence (new_task p now tid cid owner ctx msg skill) = 0"
  by (simp_all add: new_task_def)

text \<open>A successful creation: what it found after pruning, and the task and marker it adds.\<close>

lemma create_cases:
  assumes "create_task p now now' tid cid owner ctx msg skill s = (r, s')"
  obtains (refused) e where "r = Inl e" "s' = snd (prune p now s)"
  | (created) t where "r = Inr t" "task_id t = tid" "lastModified t = date_iso p now'" "streamEvents t = []" "nextStreamSequence t = 0"
      "fst (prune p now s) = Inr ()" "messageCorrelationKey p owner msg = None" "s' = set_task t (snd (prune p now s))"
  | (marked) t k where "r = Inr t" "task_id t = tid" "lastModified t = date_iso p now'" "streamEvents t = []" "nextStreamSequence t = 0"
      "fst (prune p now s) = Inr ()" "messageCorrelationKey p owner msg = Some k" "map_of (byMessageCorrelation (snd (prune p now s))) k = None"
      "length (byMessageCorrelation (snd (prune p now s))) < maxReplayMarkers (snd (prune p now s))"
      "s' = (let s2 = set_task t (snd (prune p now s)) in s2\<lparr>byMessageCorrelation := jmap_set k (tid, now' + taskTtlMs s2) (byMessageCorrelation s2),
          messageCorrelationByTaskId := jmap_set tid k (messageCorrelationByTaskId s2)\<rparr>)"
proof -
  obtain q s1 where pr: "prune p now s = (q, s1)" by fastforce
  show thesis
  proof (cases q)
    case (Inl e)
    with assms pr refused show thesis by (auto simp: create_task_def)
  next
    case (Inr u)
    show thesis
    proof (cases "messageCorrelationKey p owner msg")
      case None
      with Inr assms pr created show thesis by (auto simp: create_task_def Let_def)
    next
      case (Some k)
      show thesis
      proof (cases "map_of (byMessageCorrelation s1) k \<noteq> None \<or> length (byMessageCorrelation s1) \<ge> maxReplayMarkers s1")
        case True
        with Some Inr assms pr refused show thesis by (auto simp: create_task_def Let_def split: if_splits)
      next
        case False
        then have "map_of (byMessageCorrelation s1) k = None" "length (byMessageCorrelation s1) < maxReplayMarkers s1" by (simp_all only: de_Morgan_disj not_not not_le)
        with Some Inr assms pr marked show thesis by (auto simp: create_task_def Let_def)
      qed
    qed
  qed
qed

lemma add_task_ok:
  assumes ok: "a2a_ok p used s" and fresh: "task_id t \<notin> used" and room: "length (tasks s) < maxTasks s" and st: "stream_ok t"
  shows "a2a_ok p (insert (task_id t) used) (set_task t s)"
proof -
  have none: "find_task s (task_id t) = None" using find_fresh[OF ok fresh] .
  let ?s = "s\<lparr>tasks := tasks s @ [t]\<rparr>"
  have "marks_ok p ?s" unfolding marks_ok_def
  proof (intro conjI allI impI)
    show "jmap_ok (byMessageCorrelation ?s)" "jmap_ok (messageCorrelationByTaskId ?s)" using ok by (simp_all add: a2a_ok_def marks_ok_def)
    fix u k assume "map_of (messageCorrelationByTaskId ?s) u = Some k"
    then have "map_of (messageCorrelationByTaskId s) u = Some k" by simp
    from marked_task[OF a2a_ok_marks[OF ok] this] obtain v where
      "find_task s u = Some v" "map_of (byMessageCorrelation s) k = Some (u, modified_at p v + taskTtlMs s)" .
    then show "\<exists>t. find_task ?s u = Some t \<and> map_of (byMessageCorrelation ?s) k = Some (u, modified_at p t + taskTtlMs ?s)" by (simp add: find_append)
  qed
  then show ?thesis unfolding set_task_new[OF none] using ok fresh room st by (auto simp: a2a_ok_def)
qed

lemma add_marker_ok:
  assumes ok: "a2a_ok p used s" and t: "find_task s tid = Some t" "modified_at p t = now"
    and k: "map_of (byMessageCorrelation s) k = None" "length (byMessageCorrelation s) < maxReplayMarkers s"
  shows "a2a_ok p used (s\<lparr>byMessageCorrelation := jmap_set k (tid, now + taskTtlMs s) (byMessageCorrelation s),
          messageCorrelationByTaskId := jmap_set tid k (messageCorrelationByTaskId s)\<rparr>)" (is "a2a_ok p used ?s")
proof -
  have "marks_ok p ?s" unfolding marks_ok_def
  proof (intro conjI allI impI)
    show "jmap_ok (byMessageCorrelation ?s)" "jmap_ok (messageCorrelationByTaskId ?s)" using ok by (simp_all add: a2a_ok_def marks_ok_def)
    fix u j assume u: "map_of (messageCorrelationByTaskId ?s) u = Some j"
    show "\<exists>t. find_task ?s u = Some t \<and> map_of (byMessageCorrelation ?s) j = Some (u, modified_at p t + taskTtlMs ?s)"
    proof (cases "u = tid")
      case True
      with u t show ?thesis by simp
    next
      case False
      with u have "map_of (messageCorrelationByTaskId s) u = Some j" by simp
      from marked_task[OF a2a_ok_marks[OF ok] this] obtain v where
        "find_task s u = Some v" "map_of (byMessageCorrelation s) j = Some (u, modified_at p v + taskTtlMs s)" .
      moreover have "j \<noteq> k" using calculation(2) k(1) by auto
      ultimately show ?thesis by simp
    qed
  qed
  then show ?thesis using ok k by (auto simp: a2a_ok_def length_update_new)
qed

lemma create_ok:
  assumes iso: "iso_law p" and ok: "a2a_ok p used s" and fresh: "tid \<notin> used"
  shows "a2a_ok p (insert tid used) (snd (create_task p now now' tid cid owner ctx msg skill s))"
proof -
  let ?s = "snd (prune p now s)"
  note pr = prune_ok[OF ok, of now]
  have bigger: "a2a_ok p (insert tid used) s" if "a2a_ok p used s" for s using that by (auto simp: a2a_ok_def)
  obtain r s' where c: "create_task p now now' tid cid owner ctx msg skill s = (r, s')" by fastforce
  have add: "a2a_ok p (insert tid used) (set_task t ?s)" if "task_id t = tid" "streamEvents t = []" "nextStreamSequence t = 0" "fst (prune p now s) = Inr ()" for t
    using add_task_ok[of p used ?s t] pr fresh that by (simp add: stream_ok_def event_sequences_def)
  from c show ?thesis
  proof (cases rule: create_cases)
    case refused
    then show ?thesis using c pr bigger by simp
  next
    case (created t)
    then show ?thesis using c add by simp
  next
    case (marked t k)
    have none: "find_task ?s tid = None" using find_fresh pr fresh by blast
    then have sel: "set_task t ?s = ?s\<lparr>tasks := tasks ?s @ [t]\<rparr>" using marked by (simp add: set_task_new)
    have "find_task (set_task t ?s) tid = Some t" unfolding sel find_append using none marked by simp
    from add_marker_ok[OF add this modified_at_stamp[OF iso, of t now'], of k] marked c show ?thesis by (simp add: Let_def sel)
  qed
qed

lemma access_store: "snd (getAccessible p now tid owner anon s) = snd (prune p now s)"
  by (auto simp: getAccessible_def get_task_def split: prod.splits sum.splits option.splits)

lemma partial_ok:
  "iso_law p \<Longrightarrow> a2a_ok p used s \<Longrightarrow> find_task s tid = Some t \<Longrightarrow>
     a2a_ok p used (touchReplayMarker tid now (put_task (record_partial p mp now aid mid ev r t) s))"
  by (erule (2) stamped_ok) (simp_all add: record_partial_facts)

lemma event_ok:
  assumes "iso_law p" "a2a_ok p used s"
  shows "a2a_ok p used (snd (completeFromTruynEvent p mp now aid mid ev s))" "a2a_ok p used (snd (recordCompactEvent p mp now aid mid ev s))"
  using assms completeResult_ok[OF assms] partial_ok[OF assms]
  by (auto simp: completeFromTruynEvent_def recordCompactEvent_def Let_def split: option.splits)

lemma a2a_apply_ok:
  assumes "iso_law p" "a2a_ok p used s" "\<forall>i\<in>set (op_ids op). i \<notin> used"
  shows "a2a_ok p (used \<union> set (op_ids op)) (a2a_apply p mp op s)"
proof (cases op)
  case (Create now now' tid cid owner ctx msg skill)
  then show ?thesis using create_ok[OF assms(1,2)] assms(3) by simp
next
  case (Start now tid r provider trust)
  then show ?thesis using assms stamped_ok[OF assms(1,2)]
    by (auto simp: start_task_def Let_def touch_requests a2a_ok_requests split: option.splits)
next
  case (Reject now mid tid msg)
  then show ?thesis using assms stamped_ok[OF assms(1,2)] by (auto simp: reject_task_def Let_def split: option.splits)
next
  case (Cancel now mid tid msg)
  then show ?thesis using assms stamped_ok[OF assms(1,2)] by (auto simp: cancel_task_def Let_def split: option.splits)
qed (use assms prune_ok[OF assms(2)] event_ok[OF assms(1,2)] delete_ok in \<open>simp_all add: access_store\<close>)

lemma a2a_exec_ok:
  "iso_law p \<Longrightarrow> a2a_ok p used s \<Longrightarrow> distinct (concat (map op_ids ops)) \<Longrightarrow> set (concat (map op_ids ops)) \<inter> used = {} \<Longrightarrow>
     a2a_ok p (used \<union> set (concat (map op_ids ops))) (a2a_exec p mp ops s)"
proof (induction ops arbitrary: s used)
  case (Cons op ops)
  have "a2a_ok p (used \<union> set (op_ids op)) (a2a_apply p mp op s)" by (rule a2a_apply_ok) (use Cons.prems in auto)
  from Cons.IH[OF Cons.prems(1) this] Cons.prems show ?case by (auto simp: a2a_exec_def Un_assoc)
qed (simp add: a2a_exec_def)

lemma task_store_new_ok: "task_store_new maxT maxR ttl = Inr s \<Longrightarrow> a2a_ok p {} s"
  by (auto simp: task_store_new_def a2a_ok_def marks_ok_def Let_def split: if_splits)

text \<open>
  The store keeps its bounds and its indexes agree. After any sequence of calls from a new store,
  with identifiers that never repeat, there are at most \<^verbatim>\<open>maxTasks\<close> tasks with different
  identifiers and at most \<^verbatim>\<open>maxReplayMarkers\<close> markers; every task that has a correlation key is
  in the store, its key marks this task, and the marker expires exactly one lifetime after the
  task's last modification. Assumed of the platform: clock texts parse back and are not empty.
\<close>

theorem a2a_store_invariant:
  assumes "iso_law p" "task_store_new maxT maxR ttl = Inr s" "distinct (concat (map op_ids ops))" "s' = a2a_exec p mp ops s"
  shows "length (tasks s') \<le> maxTasks s' \<and> distinct (map task_id (tasks s')) \<and> length (byMessageCorrelation s') \<le> maxReplayMarkers s' \<and>
    (\<forall>tid k. map_of (messageCorrelationByTaskId s') tid = Some k \<longrightarrow> (\<exists>t\<in>set (tasks s'). task_id t = tid \<and>
       map_of (byMessageCorrelation s') k = Some (tid, modified_at p t + taskTtlMs s')))"
proof -
  have ok: "a2a_ok p (set (concat (map op_ids ops))) s'"
    using a2a_exec_ok[OF assms(1) task_store_new_ok[OF assms(2)] assms(3), of mp] assms(4) by simp
  have "\<exists>t\<in>set (tasks s'). task_id t = tid \<and> map_of (byMessageCorrelation s') k = Some (tid, modified_at p t + taskTtlMs s')"
    if k: "map_of (messageCorrelationByTaskId s') tid = Some k" for tid k
    using marked_task[OF a2a_ok_marks[OF ok] k] find_task_mem by metis
  then show ?thesis using ok by (simp add: a2a_ok_def)
qed

section \<open>A message identifier is accepted once per lifetime\<close>

fun op_times :: "a2a_op \<Rightarrow> int list" where
  "op_times (Create now now' tid cid owner ctx msg skill) = [now, now']"
| "op_times (Access now tid owner anon) = [now]"
| "op_times (Start now tid r provider trust) = [now]"
| "op_times (Reject now mid tid msg) = [now]"
| "op_times (Cancel now mid tid msg) = [now]"
| "op_times (Event now aid mid ev) = [now]"
| "op_times (Compact now aid mid ev) = [now]"
| "op_times (Drop tid forget) = []"

definition marked_until :: "string \<Rightarrow> string \<Rightarrow> int \<Rightarrow> a2a_store \<Rightarrow> bool" where
  "marked_until k tid e s \<longleftrightarrow> (\<exists>x. map_of (byMessageCorrelation s) k = Some (tid, x) \<and> e \<le> x)"

lemma marked_touch:
  assumes "a2a_ok p used s" "marked_until k tid (c + taskTtlMs s) s" "c \<le> now"
  shows "marked_until k tid (c + taskTtlMs s) (touchReplayMarker u now (put_task t s))"
proof (cases "map_of (messageCorrelationByTaskId s) u = Some k")
  case True
  obtain t' where "map_of (byMessageCorrelation s) k = Some (u, modified_at p t' + taskTtlMs s)"
    by (rule marked_task[OF a2a_ok_marks[OF assms(1)] True])
  with assms(2) have "u = tid" by (auto simp: marked_until_def)
  with True assms show ?thesis by (auto simp: marked_until_def touch_markers)
next
  case False
  with assms(2) show ?thesis by (simp add: marked_until_def touch_markers)
qed

lemma marked_delete:
  assumes "a2a_ok p used s" "marked_until k tid e s" "u \<noteq> tid \<or> \<not> f"
  shows "marked_until k tid e (snd (delete_task u f s))"
proof (cases "find_task s u")
  case None
  with assms(2) show ?thesis by (simp add: delete_unmarked)
next
  case (Some t)
  have "map_of (messageCorrelationByTaskId s) u \<noteq> Some k" if "f"
  proof
    assume "map_of (messageCorrelationByTaskId s) u = Some k"
    from marked_task[OF a2a_ok_marks[OF assms(1)] this] obtain t' where "map_of (byMessageCorrelation s) k = Some (u, modified_at p t' + taskTtlMs s)" .
    with assms(2,3) that show False by (auto simp: marked_until_def)
  qed
  with assms(2) show ?thesis by (auto simp: marked_until_def delete_maps[OF Some] split: option.splits)
qed

lemma marked_prune:
  assumes "a2a_ok p used s" "marked_until k tid e s" "now \<le> e"
  shows "marked_until k tid e (snd (prune p now s))"
proof -
  have f: "(\<lambda>(k, tid, e). \<not> e < now) = (\<lambda>(k::string, v). \<not> snd (v :: string \<times> int) < now)" by auto
  have "jmap_ok (byMessageCorrelation s)" using assms(1) by (simp add: a2a_ok_def marks_ok_def)
  from map_of_filter_val[OF this, of "\<lambda>v. \<not> snd v < now"] prune_ok[OF assms(1), of now] assms(2,3) show ?thesis
    by (auto simp: marked_until_def f)
qed

lemma set_task_sel [simp]: "byMessageCorrelation (set_task t s) = byMessageCorrelation s" "taskTtlMs (set_task t s) = taskTtlMs s"
  by (simp_all add: set_task_def)

lemma marked_create:
  assumes "a2a_ok p used s" "marked_until k tid e s" "now \<le> e"
  shows "marked_until k tid e (snd (create_task p now now' u cid owner ctx msg skill s))"
proof -
  note pr = marked_prune[OF assms]
  obtain r s' where c: "create_task p now now' u cid owner ctx msg skill s = (r, s')" by fastforce
  then show ?thesis
    by (cases rule: create_cases) (use pr c in \<open>auto simp: marked_until_def Let_def\<close>)
qed

lemma ttl_fixed: "a2a_ok p used s \<Longrightarrow> taskTtlMs (a2a_apply p mp op s) = taskTtlMs s"
proof (cases op)
  case (Create now now' tid cid owner ctx msg skill)
  assume ok: "a2a_ok p used s"
  obtain r s' where c: "create_task p now now' tid cid owner ctx msg skill s = (r, s')" by fastforce
  then show ?thesis by (cases rule: create_cases) (use c Create prune_ok[OF ok, of now] in \<open>simp_all add: Let_def\<close>)
qed (auto simp: access_store prune_ok start_task_def reject_task_def cancel_task_def completeFromTruynEvent_def recordCompactEvent_def completeResult_def
  Let_def split: option.splits)

lemma marked_apply:
  assumes ok: "a2a_ok p used s" and m: "marked_until k tid (c + taskTtlMs s) s"
    and times: "\<forall>x\<in>set (op_times op). c \<le> x \<and> x \<le> c + taskTtlMs s" and drop: "op \<noteq> Drop tid True"
  shows "marked_until k tid (c + taskTtlMs s) (a2a_apply p mp op s)"
proof (cases op)
  case (Create now now' u cid owner ctx msg skill)
  with times marked_create[OF ok m] show ?thesis by simp
next
  case (Access now u owner anon)
  with times marked_prune[OF ok m] show ?thesis by (simp add: access_store)
next
  case (Drop u f)
  with drop marked_delete[OF ok m] show ?thesis by auto
next
  case (Start now u r provider trust)
  with times m marked_touch[OF ok m] show ?thesis
    by (auto simp: start_task_def Let_def touch_requests split: option.splits) (simp add: marked_until_def)
next
  case (Reject now mid u msg)
  with times m marked_touch[OF ok m] show ?thesis by (auto simp: reject_task_def Let_def split: option.splits)
next
  case (Cancel now mid u msg)
  with times m marked_touch[OF ok m] show ?thesis by (auto simp: cancel_task_def Let_def split: option.splits)
next
  case (Event now aid mid ev)
  with times m marked_touch[OF ok m] show ?thesis by (auto simp: completeFromTruynEvent_def completeResult_def Let_def split: option.splits)
next
  case (Compact now aid mid ev)
  with times m marked_touch[OF ok m] show ?thesis by (auto simp: recordCompactEvent_def completeResult_def Let_def split: option.splits)
qed

lemma marked_exec:
  "iso_law p \<Longrightarrow> a2a_ok p used s \<Longrightarrow> distinct (concat (map op_ids ops)) \<Longrightarrow> set (concat (map op_ids ops)) \<inter> used = {} \<Longrightarrow>
     marked_until k tid (c + taskTtlMs s) s \<Longrightarrow> \<forall>op\<in>set ops. op \<noteq> Drop tid True \<and> (\<forall>x\<in>set (op_times op). c \<le> x \<and> x \<le> c + taskTtlMs s) \<Longrightarrow>
     marked_until k tid (c + taskTtlMs s) (a2a_exec p mp ops s) \<and> taskTtlMs (a2a_exec p mp ops s) = taskTtlMs s"
proof (induction ops arbitrary: s used)
  case (Cons op ops)
  let ?s = "a2a_apply p mp op s"
  have ok: "a2a_ok p (used \<union> set (op_ids op)) ?s" by (rule a2a_apply_ok) (use Cons.prems in auto)
  have ttl: "taskTtlMs ?s = taskTtlMs s" by (rule ttl_fixed[OF Cons.prems(2)])
  have "marked_until k tid (c + taskTtlMs ?s) ?s" unfolding ttl by (rule marked_apply[OF Cons.prems(2,5)]) (use Cons.prems(6) in auto)
  from Cons.IH[OF Cons.prems(1) ok _ _ this] Cons.prems show ?case by (auto simp: a2a_exec_def ttl)
qed (simp add: a2a_exec_def)

lemma exec_ttl:
  "iso_law p \<Longrightarrow> a2a_ok p used s \<Longrightarrow> distinct (concat (map op_ids ops)) \<Longrightarrow> set (concat (map op_ids ops)) \<inter> used = {} \<Longrightarrow>
     taskTtlMs (a2a_exec p mp ops s) = taskTtlMs s"
proof (induction ops arbitrary: s used)
  case (Cons op ops)
  have "a2a_ok p (used \<union> set (op_ids op)) (a2a_apply p mp op s)" by (rule a2a_apply_ok) (use Cons.prems in auto)
  from Cons.IH[OF Cons.prems(1) this] Cons.prems ttl_fixed[OF Cons.prems(2)] show ?case
    by (auto simp: a2a_exec_def Int_Un_distrib Int_Un_distrib2 Int_commute)
qed (simp add: a2a_exec_def)

lemma a2a_exec_append: "a2a_exec p mp (xs @ ys) s = a2a_exec p mp ys (a2a_exec p mp xs s)"
  by (simp add: a2a_exec_def)

lemma create_marks:
  assumes iso: "iso_law p" and ok: "a2a_ok p used s" and fresh: "tid \<notin> used"
    and c: "create_task p now now' tid cid owner ctx msg skill s = (Inr t, s')" and k: "messageCorrelationKey p owner msg = Some k"
  shows "marked_until k tid (now' + taskTtlMs s') s'" "taskTtlMs s' = taskTtlMs s"
  using c by (cases rule: create_cases; use k prune_ok[OF ok, of now] in \<open>simp add: marked_until_def Let_def\<close>)+


section \<open>How a task changes\<close>

text \<open>
  The events a task accepts: verified, of the request the task was started with, and sent by its
  provider (a compact event may come without a sender).
\<close>

definition result_event :: "a2a_store \<Rightarrow> a2a_task \<Rightarrow> jsval \<Rightarrow> bool" where
  "result_event s t ev \<longleftrightarrow> get ev ''kind'' = JStr ''RESULT'' \<and> get (get ev ''verification'') ''ok'' = JBool True \<and>
     request_task s (get (get (get ev ''envelope'') ''payload'') ''requestId'') = Some (task_id t) \<and>
     (truthy (providerNodeId t) \<longrightarrow> get (get ev ''envelope'') ''from'' = providerNodeId t)"

definition compact_event :: "a2a_store \<Rightarrow> a2a_task \<Rightarrow> jsval \<Rightarrow> bool" where
  "compact_event s t ev \<longleftrightarrow> get ev ''kind'' \<in> {JStr ''PARTIAL'', JStr ''RESULT''} \<and> get (get ev ''verification'') ''ok'' = JBool True \<and>
     request_task s (or_value (get ev ''requestId'') (get (get ev ''frame'') ''i'')) = Some (task_id t) \<and>
     (truthy (providerNodeId t) \<and> truthy (get ev ''from'') \<longrightarrow> get ev ''from'' = providerNodeId t)"

definition task_change :: "a2a_op \<Rightarrow> a2a_store \<Rightarrow> a2a_task \<Rightarrow> a2a_task \<Rightarrow> bool" where
  "task_change op s t t' = (task_id t' = task_id t \<and> (case op of
       Start now u r pr tr \<Rightarrow> u = task_id t \<and> streamEvents t' = streamEvents t
     | Reject now mid u msg \<Rightarrow> u = task_id t \<and> (\<exists>e. streamEvents t' = streamEvents t @ [e])
     | Cancel now mid u msg \<Rightarrow> u = task_id t \<and> \<not> isTerminal t \<and> state (status t') = st_canceled \<and> (\<exists>e. streamEvents t' = streamEvents t @ [e])
     | Event now aid mid ev \<Rightarrow> \<not> isTerminal t \<and> result_event s t ev \<and> (\<exists>e. streamEvents t' = streamEvents t @ [e])
     | Compact now aid mid ev \<Rightarrow> \<not> isTerminal t \<and> compact_event s t ev \<and> (\<exists>e. streamEvents t' = streamEvents t @ [e])
     | _ \<Rightarrow> False))"

lemma get_nullish [simp]: "nullish v \<Longrightarrow> get v k = JUndef"
  by (cases v) auto

lemma oget_get [simp]: "oget v k = get v k"
  by (simp add: oget_def)

lemma completeResult_find:
  assumes "find_task s tid = Some t" "find_task (snd (completeResult p mp now aid mid out md pr tr t s)) u = Some t'"
  shows "\<exists>v. find_task s u = Some v \<and> (t' = v \<or> v = t \<and> \<not> isTerminal t \<and> task_id t' = task_id t \<and> (\<exists>e. streamEvents t' = streamEvents t @ [e]))"
proof (cases "isTerminal t")
  case True
  with assms show ?thesis by (simp add: completeResult_def)
next
  case False
  let ?t = "t\<lparr>providerNodeId := (if truthy pr then pr else providerNodeId t), providerTrust := (if truthy tr then tr else providerTrust t), lastModified := date_iso p now\<rparr>"
  have id: "task_id t = tid" using find_task_mem[OF assms(1)] by simp
  have "find_task (put_task (completed_task p mp now aid mid out md ?t) s) u = Some t'"
    using False assms(2) by (simp add: completeResult_def Let_def)
  moreover have "\<exists>e. streamEvents (completed_task p mp now aid mid out md ?t) = streamEvents t @ [e]"
    using completed_sel(4)[of p mp now aid mid out md ?t] by simp
  ultimately show ?thesis using False assms(1) id by (auto simp: find_put_task split: if_splits)
qed

lemma apply_task_change:
  assumes ok: "a2a_ok p used s" and t': "find_task (a2a_apply p mp op s) tid = Some t'" and fresh: "tid \<notin> set (op_ids op)"
  shows "\<exists>t. find_task s tid = Some t \<and> (t' = t \<or> task_change op s t t')"
proof (cases op)
  case (Create now now' u cid owner ctx msg skill)
  obtain r s' where c: "create_task p now now' u cid owner ctx msg skill s = (r, s')" by fastforce
  have keep: "find_task (snd (prune p now s)) tid = Some t \<Longrightarrow> find_task s tid = Some t" for t using prune_ok[OF ok] by blast
  have "find_task (set_task x s1) tid = find_task s1 tid" if "task_id x = u" for x s1
    using that fresh Create by (simp add: set_task_def find_append find_put_task split: option.splits)
  with c have "find_task (snd (prune p now s)) tid = Some t'" by (cases rule: create_cases) (use c t' Create in \<open>auto simp: Let_def\<close>)
  with keep show ?thesis by blast
next
  case (Access now u owner anon)
  with t' prune_ok[OF ok] show ?thesis by (auto simp: access_store)
next
  case (Start now u r provider trust)
  with t' show ?thesis using find_task_mem[of s u]
    by (auto simp: start_task_def Let_def touch_requests find_put_task task_change_def split: option.splits if_splits)
next
  case (Reject now mid u msg)
  with t' show ?thesis using find_task_mem[of s u]
    by (auto simp: reject_task_def Let_def find_put_task task_change_def split: option.splits if_splits)
next
  case (Cancel now mid u msg)
  with t' show ?thesis using find_task_mem[of s u]
    by (auto simp: cancel_task_def Let_def find_put_task task_change_def split: option.splits if_splits)
next
  case (Event now aid mid ev)
  show ?thesis
  proof (cases "a2a_apply p mp op s = s")
    case True
    with t' show ?thesis by auto
  next
    case False
    let ?rq = "get (get (get ev ''envelope'') ''payload'') ''requestId''"
    from False Event obtain u t out md pr tr where u: "request_task s ?rq = Some u" "find_task s u = Some t"
      "a2a_apply p mp op s = snd (completeResult p mp now aid mid out md pr tr t s)" and ev: "get ev ''kind'' = JStr ''RESULT''" "get (get ev ''verification'') ''ok'' = JBool True"
      "truthy (providerNodeId t) \<longrightarrow> strict_eq (get (get ev ''envelope'') ''from'') (providerNodeId t)"
      by (auto simp: completeFromTruynEvent_def Let_def split: if_splits option.splits)
    from ev(3) have "truthy (providerNodeId t) \<longrightarrow> get (get ev ''envelope'') ''from'' = providerNodeId t" using strict_eq_imp_eq by blast
    then have "result_event s t ev" using ev u find_task_mem[OF u(2)] by (simp add: result_event_def)
    with completeResult_find[OF u(2)] t' u(3) Event show ?thesis by (fastforce simp: task_change_def)
  qed
next
  case (Compact now aid mid ev)
  show ?thesis
  proof (cases "a2a_apply p mp op s = s")
    case True
    with t' show ?thesis by auto
  next
    case False
    let ?rq = "or_value (get ev ''requestId'') (get (get ev ''frame'') ''i'')"
    let ?res = "\<lambda>t. completeResult p mp now aid mid (get (get ev ''payload'') ''output'') (object_or (JObj []) (get (get ev ''payload'') ''metadata''))
      (or_value (get ev ''from'') (providerNodeId t)) (or_value (get ev ''trust'') (providerTrust t)) t s"
    have r: "snd (recordCompactEvent p mp now aid mid ev s) \<noteq> s" using False Compact by simp
    then have ok1: "truthy ev" "get (get ev ''verification'') ''ok'' = JBool True" by (auto simp: recordCompactEvent_def split: if_splits)
    from r ok1 obtain u where u1: "request_task s ?rq = Some u" by (cases "request_task s ?rq") (auto simp: recordCompactEvent_def Let_def)
    from r ok1 u1 obtain t where u2: "find_task s u = Some t" by (cases "find_task s u") (auto simp: recordCompactEvent_def Let_def)
    from r ok1 u1 u2 have u3: "\<not> isTerminal t" and ev: "get ev ''kind'' \<in> {JStr ''PARTIAL'', JStr ''RESULT''}"
      "truthy (providerNodeId t) \<and> truthy (get ev ''from'') \<longrightarrow> strict_eq (get ev ''from'') (providerNodeId t)"
      by (auto simp: recordCompactEvent_def Let_def split: if_splits)
    with ok1 u1 u2 have u4: "snd (recordCompactEvent p mp now aid mid ev s) = snd (?res t) \<or>
       snd (recordCompactEvent p mp now aid mid ev s) = touchReplayMarker u now (put_task (record_partial p mp now aid mid ev ?rq t) s)"
      by (auto simp: recordCompactEvent_def Let_def)
    from ev(2) have "truthy (providerNodeId t) \<and> truthy (get ev ''from'') \<longrightarrow> get ev ''from'' = providerNodeId t" using strict_eq_imp_eq by blast
    then have ce: "compact_event s t ev" using ev ok1 u1 find_task_mem[OF u2] by (simp add: compact_event_def)
    from u4 show ?thesis
    proof
      assume "snd (recordCompactEvent p mp now aid mid ev s) = snd (?res t)"
      with completeResult_find[OF u2] t' Compact ce show ?thesis by (fastforce simp: task_change_def)
    next
      assume "snd (recordCompactEvent p mp now aid mid ev s) = touchReplayMarker u now (put_task (record_partial p mp now aid mid ev ?rq t) s)"
      with t' u2 u3 ce Compact record_partial_facts(1,4)[of p mp now aid mid ev ?rq t] find_task_mem[OF u2] show ?thesis
        by (auto simp: find_put_task task_change_def split: if_splits)
    qed
  qed
next
  case (Drop u f)
  with t' show ?thesis by (auto simp: find_delete split: if_splits)
qed

lemma reachable_ok:
  "iso_law p \<Longrightarrow> task_store_new maxT maxR ttl = Inr s0 \<Longrightarrow> distinct (concat (map op_ids (ops @ more_ops))) \<Longrightarrow>
     a2a_ok p (set (concat (map op_ids ops))) (a2a_exec p mp ops s0)"
  using a2a_exec_ok[OF _ task_store_new_ok, of p maxT maxR ttl s0 ops mp] by simp

text \<open>
  C21. Only the assigned provider's verified events move a task on. In any store reached from a new one,
  a call leaves every task that was there as it is or removes it, except: a start or rejection
  of that very task; a cancellation of it while it is not finished; and a verified event of the
  request the task was started with, sent by the task's provider, while it is not finished. An event
  of another request, of another sender or without a positive verification changes nothing.
\<close>

theorem a2a_result_authority:
  assumes "iso_law p" "task_store_new maxT maxR ttl = Inr s0" "distinct (concat (map op_ids (ops @ [op])))"
    and "s = a2a_exec p mp ops s0" "find_task s tid = Some t" "find_task (a2a_apply p mp op s) tid = Some t'" "t' \<noteq> t"
  shows "task_change op s t t'"
proof -
  have ok: "a2a_ok p (set (concat (map op_ids ops))) s" using reachable_ok[OF assms(1,2,3)] assms(4) by simp
  have "tid \<in> set (concat (map op_ids ops))" using ok find_task_mem[OF assms(5)] by (auto simp: a2a_ok_def)
  then have "tid \<notin> set (op_ids op)" using assms(3) by auto
  from apply_task_change[OF ok assms(6) this] assms(5,7) show ?thesis by auto
qed

text \<open>A property of a task that every change keeps is kept by any sequence of calls.\<close>

lemma exec_task_keeps:
  assumes iso: "iso_law p" and ok: "a2a_ok p used s" and ids: "distinct (concat (map op_ids ops))" "set (concat (map op_ids ops)) \<inter> used = {}"
    and t: "find_task s tid = Some t" and t': "find_task (a2a_exec p mp ops s) tid = Some t'" and P: "P t"
    and step: "\<And>op s x y. op \<in> set ops \<Longrightarrow> task_id x = tid \<Longrightarrow> P x \<Longrightarrow> task_change op s x y \<Longrightarrow> P y"
  shows "P t'"
  using ok ids t t' P step
proof (induction ops arbitrary: s used t)
  case (Cons op ops)
  have ok': "a2a_ok p (used \<union> set (op_ids op)) (a2a_apply p mp op s)" by (rule a2a_apply_ok[OF iso Cons.prems(1)]) (use Cons.prems in auto)
  have tid: "tid \<in> used" "task_id t = tid" using Cons.prems(1) find_task_mem[OF Cons.prems(4)] by (auto simp: a2a_ok_def)
  have ids': "set (concat (map op_ids ops)) \<inter> (used \<union> set (op_ids op)) = {}" using Cons.prems(2,3) by auto
  have "find_task (a2a_apply p mp op s) tid \<noteq> None"
  proof
    assume none: "find_task (a2a_apply p mp op s) tid = None"
    have "find_task (a2a_exec p mp ops s) tid = None" if "a2a_ok p u s" "tid \<in> u" "find_task s tid = None" "distinct (concat (map op_ids ops))" "set (concat (map op_ids ops)) \<inter> u = {}" for s u
      using that
    proof (induction ops arbitrary: s u)
      case (Cons o1 os)
      have "a2a_ok p (u \<union> set (op_ids o1)) (a2a_apply p mp o1 s)" by (rule a2a_apply_ok[OF iso Cons.prems(1)]) (use Cons.prems in auto)
      moreover have "find_task (a2a_apply p mp o1 s) tid = None"
        using apply_task_change[OF Cons.prems(1), of mp o1 tid] Cons.prems(2,3,5) by (cases "find_task (a2a_apply p mp o1 s) tid") auto
      ultimately show ?case using Cons.IH[of "u \<union> set (op_ids o1)"] Cons.prems by (auto simp: a2a_exec_def)
    qed (simp add: a2a_exec_def)
    from this[OF ok' _ none _ ids'] Cons.prems(2,5) tid show False by (simp add: a2a_exec_def)
  qed
  then obtain x where x: "find_task (a2a_apply p mp op s) tid = Some x" by blast
  have "tid \<notin> set (op_ids op)" using tid Cons.prems(3) by auto
  from apply_task_change[OF Cons.prems(1) x this] Cons.prems(4,6,7) tid have "P x" by auto
  show ?case
  proof (rule Cons.IH[OF ok' _ ids' x _ \<open>P x\<close>])
    show "distinct (concat (map op_ids ops))" "find_task (a2a_exec p mp ops (a2a_apply p mp op s)) tid = Some t'"
      using Cons.prems(2,5) by (simp_all add: a2a_exec_def)
    fix o1 s x y assume "o1 \<in> set ops" "task_id x = tid" "P x" "task_change o1 s x y"
    then show "P y" by (intro Cons.prems(7)[of o1 x s y]) simp_all
  qed
qed (simp add: a2a_exec_def)

text \<open>
  A finished task stays as it is. Once a task is completed, failed, rejected or canceled, no sequence
  of calls other than a start or a rejection of that very task changes anything in it as long as
  the store holds it: neither late results, partials in any order, repeated cancellations nor
  pruning.
\<close>

theorem a2a_finished_stays:
  assumes "iso_law p" "task_store_new maxT maxR ttl = Inr s0" "distinct (concat (map op_ids (ops @ later)))"
    and "find_task (a2a_exec p mp ops s0) tid = Some t" "isTerminal t" "find_task (a2a_exec p mp (ops @ later) s0) tid = Some t'"
    and quiet: "\<forall>op\<in>set later. (\<forall>now r pr tr. op \<noteq> Start now tid r pr tr) \<and> (\<forall>now mid m. op \<noteq> Reject now mid tid m)"
  shows "t' = t"
proof (rule exec_task_keeps[where P = "\<lambda>x. x = t"])
  show "a2a_ok p (set (concat (map op_ids ops))) (a2a_exec p mp ops s0)" by (rule reachable_ok[OF assms(1-3)])
  show "find_task (a2a_exec p mp later (a2a_exec p mp ops s0)) tid = Some t'" using assms(6) by (simp add: a2a_exec_append)
  show "distinct (concat (map op_ids later))" "set (concat (map op_ids later)) \<inter> set (concat (map op_ids ops)) = {}" using assms(3) by auto
  fix op s x y assume op: "op \<in> set later" "task_id x = tid" "x = t" "task_change op s x y"
  from bspec[OF quiet op(1)] op(2-4) assms(5) show "y = t" by (auto simp: task_change_def split: a2a_op.splits)
qed (use assms in simp_all)

text \<open>
  What a client reads from a stream is in order and complete. In every store reached from a new one,
  the partial results in a task's event list are numbered from zero without gaps or repetitions;
  the event list only grows; and a reader that asks again from the cursor it was given gets exactly
  the events that were added in between, so its reads concatenate to the whole stream.
\<close>

theorem a2a_stream_ordered:
  assumes "iso_law p" "task_store_new maxT maxR ttl = Inr s0" "distinct (concat (map op_ids (ops @ later)))"
    and "find_task (a2a_exec p mp ops s0) tid = Some t" "find_task (a2a_exec p mp (ops @ later) s0) tid = Some t'"
    and read: "streamEventsSince (Some t) (JNum (of_nat c)) = (evs, cur)" "streamEventsSince (Some t') (JNum (of_nat cur)) = (evs', cur')"
    and small: "c \<le> length (streamEvents t)" "length (streamEvents t) \<le> 9007199254740991"
  shows "event_sequences (streamEvents t) = map (\<lambda>n. JNum (of_nat n)) [0..<nextStreamSequence t] \<and>
    evs @ evs' = drop c (streamEvents t') \<and> cur' = length (streamEvents t')"
proof -
  have ok: "a2a_ok p (set (concat (map op_ids ops))) (a2a_exec p mp ops s0)" by (rule reachable_ok[OF assms(1-3)])
  have "\<exists>zs. streamEvents t' = streamEvents t @ zs"
  proof (rule exec_task_keeps[where P = "\<lambda>x. \<exists>zs. streamEvents x = streamEvents t @ zs", OF assms(1) ok])
    show "find_task (a2a_exec p mp later (a2a_exec p mp ops s0)) tid = Some t'" using assms(5) by (simp add: a2a_exec_append)
    show "distinct (concat (map op_ids later))" "set (concat (map op_ids later)) \<inter> set (concat (map op_ids ops)) = {}" using assms(3) by auto
    show "\<exists>zs. streamEvents t = streamEvents t @ zs" by simp
    fix op s x y assume "\<exists>zs. streamEvents x = streamEvents t @ zs" "task_change op s x y"
    then show "\<exists>zs. streamEvents y = streamEvents t @ zs" by (auto simp: task_change_def split: a2a_op.splits)
  qed (use assms in simp_all)
  then obtain zs where zs: "streamEvents t' = streamEvents t @ zs" by blast
  have int: "int_of (JNum (of_nat n)) = int n" for n by (simp add: int_of_def)
  have safe1: "is_safe_integer (JNum (of_nat n))" if "n \<le> 9007199254740991" for n
  proof -
    have "(of_nat n :: rat) \<le> of_nat 9007199254740991" using that by (simp only: of_nat_le_iff)
    then show ?thesis by simp
  qed
  have safe: "is_safe_integer (JNum (of_nat c))" "is_safe_integer (JNum (of_nat (length (streamEvents t))))"
    using small by (intro safe1; linarith)+
  have r: "evs = drop c (streamEvents t)" "cur = length (streamEvents t)" using read(1) safe small by (simp_all add: streamEventsSince_def int min_def)
  have "evs' = zs" "cur' = length (streamEvents t')" using read(2) safe by (auto simp: streamEventsSince_def int r zs min_def)
  moreover have "stream_ok t" using ok find_task_mem[OF assms(4)] by (simp add: a2a_ok_def)
  ultimately show ?thesis using r zs small(1) by (simp add: stream_ok_def)
qed

section \<open>One task from creation to completion\<close>

definition sample_mapping :: a2a_mapping where
  "sample_mapping = \<lparr>artifactsFromTruynResult = (\<lambda>out opts. Inr [out]), artifactFromTruynResult = (\<lambda>out opts. Inr out)\<rparr>"

definition sample_task_store :: a2a_store where
  "sample_task_store = \<lparr>maxTasks = 2, maxReplayMarkers = 1024, taskTtlMs = 10, tasks = [], byTruynRequestId = [], byMessageCorrelation = [],
     messageCorrelationByTaskId = []\<rparr>"

definition sample_create :: a2a_op where
  "sample_create = Create 1 1 ''t'' ''c'' (JStr ''o'') JNull (JObj [(''messageId'', JStr ''m'')]) (JObj [(''id'', JStr ''s'')])"

definition sample_partial :: "rat \<Rightarrow> a2a_op" where
  "sample_partial n = Compact 2 ''a'' ''b'' (JObj [(''kind'', JStr ''PARTIAL''), (''requestId'', JStr ''r''), (''from'', JStr ''P''),
     (''verification'', JObj [(''ok'', JBool True)]), (''payload'', JObj [(''sequence'', JNum n), (''delta'', JStr ''x'')])])"

definition sample_result :: "jsval" where
  "sample_result = JObj [(''kind'', JStr ''RESULT''), (''verification'', JObj [(''ok'', JBool True)]),
     (''envelope'', JObj [(''from'', JStr ''P''), (''payload'', JObj [(''requestId'', JStr ''r''), (''output'', JStr ''y'')])])]"

definition sample_ops :: "a2a_op list" where
  "sample_ops = [sample_create, Start 2 ''t'' (JStr ''r'') (JStr ''P'') JNull, sample_partial 0]"

abbreviation sample_exec :: "a2a_op list \<Rightarrow> a2a_store" where
  "sample_exec ops \<equiv> a2a_exec sample_platform sample_mapping ops sample_task_store"

lemma sample_iso_law: "iso_law sample_platform"
  by (simp add: iso_law_def sample_date_law sample_date_iso_def sample_iso_def)

lemma sample_store_new: "task_store_new (JNum 2) JNull (JNum 10) = Inr sample_task_store"
  by code_simp

lemma sample_progress:
  "map (\<lambda>t. (task_id t, isTerminal t, length (streamEvents t), nextStreamSequence t)) (tasks (sample_exec sample_ops)) = [(''t'', False, 1, 1)]"
  "map (\<lambda>t. (task_id t, isTerminal t, length (streamEvents t), nextStreamSequence t)) (tasks (sample_exec (sample_ops @ [Event 3 ''a'' ''b'' sample_result]))) = [(''t'', True, 2, 1)]"
  by code_simp+

lemma sample_found_task:
  assumes "map (\<lambda>t. (task_id t, isTerminal t, length (streamEvents t), nextStreamSequence t)) (tasks s) = [(''t'', b, n, m)]"
  obtains t where "find_task s ''t'' = Some t" "isTerminal t = b" "length (streamEvents t) = n" "nextStreamSequence t = m" "tasks s = [t]"
  using assms by (auto simp: find_task_def)

lemma sample_after:
  "map (\<lambda>t. (task_id t, isTerminal t, length (streamEvents t), nextStreamSequence t))
     (tasks (sample_exec ((sample_ops @ [Event 3 ''a'' ''b'' sample_result]) @ [sample_partial 1]))) = [(''t'', True, 2, 1)]"
  by code_simp

lemma sample_ids: "distinct (concat (map op_ids ((sample_ops @ [Event 3 ''a'' ''b'' sample_result]) @ [sample_partial 1])))"
  by code_simp

theorem a2a_store_invariant_witness:
  "length (tasks (sample_exec sample_ops)) \<le> maxTasks (sample_exec sample_ops) \<and> distinct (map task_id (tasks (sample_exec sample_ops)))"
  using a2a_store_invariant[OF sample_iso_law sample_store_new _ refl, of sample_ops sample_mapping] sample_ids by simp


theorem a2a_result_authority_witness:
  "\<exists>t t'. find_task (sample_exec sample_ops) ''t'' = Some t \<and> find_task (sample_exec (sample_ops @ [Event 3 ''a'' ''b'' sample_result])) ''t'' = Some t' \<and>
     t' \<noteq> t \<and> result_event (sample_exec sample_ops) t sample_result"
proof -
  obtain t where t: "find_task (sample_exec sample_ops) ''t'' = Some t" "length (streamEvents t) = 1" by (rule sample_found_task[OF sample_progress(1)])
  obtain t' where t': "find_task (sample_exec (sample_ops @ [Event 3 ''a'' ''b'' sample_result])) ''t'' = Some t'" "length (streamEvents t') = 2"
    by (rule sample_found_task[OF sample_progress(2)])
  have step: "find_task (a2a_apply sample_platform sample_mapping (Event 3 ''a'' ''b'' sample_result) (sample_exec sample_ops)) ''t'' = Some t'"
    using t'(1) by (simp add: a2a_exec_append) (simp add: a2a_exec_def)
  have ne: "t' \<noteq> t" using t(2) t'(2) by auto
  have "task_change (Event 3 ''a'' ''b'' sample_result) (sample_exec sample_ops) t t'"
    by (rule a2a_result_authority[OF sample_iso_law sample_store_new _ refl t(1) step ne]) (use sample_ids in simp)
  then show ?thesis using t t' ne by (auto simp: task_change_def)
qed

theorem a2a_finished_stays_witness:
  "\<exists>t. find_task (sample_exec (sample_ops @ [Event 3 ''a'' ''b'' sample_result])) ''t'' = Some t \<and>
     find_task (sample_exec ((sample_ops @ [Event 3 ''a'' ''b'' sample_result]) @ [sample_partial 1])) ''t'' = Some t"
proof -
  obtain t where t: "find_task (sample_exec (sample_ops @ [Event 3 ''a'' ''b'' sample_result])) ''t'' = Some t" "isTerminal t"
    using sample_found_task[OF sample_progress(2)] by blast
  obtain t' where t': "find_task (sample_exec ((sample_ops @ [Event 3 ''a'' ''b'' sample_result]) @ [sample_partial 1])) ''t'' = Some t'"
    by (rule sample_found_task[OF sample_after])
  have "t' = t" by (rule a2a_finished_stays[OF sample_iso_law sample_store_new sample_ids t t']) (simp add: sample_partial_def)
  with t t' show ?thesis by blast
qed

theorem a2a_stream_ordered_witness:
  "\<exists>t. find_task (sample_exec sample_ops) ''t'' = Some t \<and> event_sequences (streamEvents t) = [JNum 0]"
proof -
  let ?r = "Event 3 ''a'' ''b'' sample_result"
  obtain t where t: "find_task (sample_exec sample_ops) ''t'' = Some t" "length (streamEvents t) = 1" "nextStreamSequence t = 1"
    by (rule sample_found_task[OF sample_progress(1)])
  obtain t' where t': "find_task (sample_exec (sample_ops @ [?r])) ''t'' = Some t'" by (rule sample_found_task[OF sample_progress(2)])
  obtain evs cur where r: "streamEventsSince (Some t) (JNum (of_nat 0)) = (evs, cur)" by fastforce
  obtain evs' cur' where r': "streamEventsSince (Some t') (JNum (of_nat cur)) = (evs', cur')" by fastforce
  have "distinct (concat (map op_ids (sample_ops @ [?r])))" using sample_ids by simp
  from a2a_stream_ordered[OF sample_iso_law sample_store_new this t(1) t' r r'] t show ?thesis by simp
qed

end
