(* ===== verification/Trust_Lifecycle.thy ===== *)
theory Trust_Lifecycle
  imports Provenance Placement
begin

text \<open>
  The trust assessment of claims: \<^verbatim>\<open>core/trust/claim-verification.js\<close> (policy, binding to retrieved context,
  the verdict from independent groups, signed trust receipts) and \<^verbatim>\<open>core/trust/lifecycle.js\<close> (lineage
  certificates, revocations, challenges, verifications, disputes, and the assessment that counts
  only fresh, unrevoked, certified attestations). Shown: a verified status rests on enough
  attestations that support the claim and that no shared lineage connects; what the active
  assessment counts is fresh, certified and not revoked by its issuer; revocations by anyone
  else change nothing; what is created verifies.
\<close>

section \<open>Arithmetic of the evidence balance\<close>

text \<open>The double nearest to a rational of modest size, ties to even, and \<^verbatim>\<open>Number(x.toFixed(6))\<close>.\<close>

function double_scale :: "nat \<Rightarrow> rat \<Rightarrow> nat" where
  "double_scale k r = (if r * 2 ^ k \<ge> 2 ^ 52 \<or> k \<ge> 1074 then k else double_scale (Suc k) r)"
  by pat_completeness auto

termination
  by (relation "measure (\<lambda>(k, r). 1074 - k)") auto

declare double_scale.simps [simp del]

definition round_even :: "rat \<Rightarrow> int" where
  "round_even r = (let f = \<lfloor>r\<rfloor>; d = r - of_int f in
     if d < 1 / 2 then f else if d > 1 / 2 then f + 1 else if f mod 2 = 0 then f else f + 1)"

definition double_of :: "rat \<Rightarrow> rat" where
  "double_of r = (if r = 0 then 0 else let k = double_scale 0 \<bar>r\<bar> in sgn r * (of_int (round_even (\<bar>r\<bar> * 2 ^ k)) / 2 ^ k))"

definition to_fixed6 :: "rat \<Rightarrow> rat" where
  "to_fixed6 x = sgn x * double_of (of_int \<lfloor>\<bar>x\<bar> * 1000000 + 1 / 2\<rfloor> / 1000000)"

section \<open>Assessment of a claim\<close>

definition policy_integer :: "jsval \<Rightarrow> string \<Rightarrow> rat \<Rightarrow> rat" where
  "policy_integer policy k dflt = (if is_integer (get policy k) then num_of (get policy k) else dflt)"

text \<open>A missing policy is the empty object; \<^verbatim>\<open>null\<close> is no object to read from.\<close>

definition normalizePolicy :: "jsval \<Rightarrow> jsval result" where
  "normalizePolicy policy =
     (if policy = JNull then Inl (TypeError ''Cannot read properties of null'')
      else let a = policy_integer policy ''minIndependentSupport'' 2; b = policy_integer policy ''maxContradictForVerified'' 0 in
      if a < 1 \<or> a > 32 then Inl (Err ''minIndependentSupport must be 1..32'')
      else if b < 0 \<or> b > 32 then Inl (Err ''maxContradictForVerified must be 0..32'')
      else Inr (JObj [(''version'', JNum 1), (''minIndependentSupport'', JNum a), (''maxContradictForVerified'', JNum b),
        (''requireKnownLineage'', JBool (get policy ''requireKnownLineage'' \<noteq> JBool False))]))"

definition unbound :: "string \<Rightarrow> jsval" where
  "unbound reason = JObj [(''required'', JBool True), (''verified'', JBool False), (''reason'', JStr reason)]"

text \<open>\<^verbatim>\<open>(v || []).map(f)\<close>.\<close>

definition map_items :: "(jsval \<Rightarrow> 'a result) \<Rightarrow> jsval \<Rightarrow> 'a list result" where
  "map_items f v = (if \<not> truthy v then Inr [] else if is_array v then map_result f (elems v) else Inl (TypeError ''map is not a function''))"

definition verifyRetrievalBinding :: "platform \<Rightarrow> jsval \<Rightarrow> jsval \<Rightarrow> jsval result" where
  "verifyRetrievalBinding p claim rp =
     (let basis = get (get claim ''body'') ''basis'' in
      if \<not> truthy basis \<or> get basis ''kind'' \<noteq> JStr ''distributed-context''
        then Inr (JObj [(''required'', JBool False), (''verified'', JNull), (''reason'', JStr ''not_retrieval_bound'')])
      else if \<not> truthy (get rp ''verified'') then Inr (unbound ''retrieval_provenance_unverified'')
      else if \<not> strict_eq (get rp ''rootCid'') (get basis ''rootCid'') then Inr (unbound ''retrieval_root_mismatch'')
      else if \<not> strict_eq (get rp ''queryHash'') (get basis ''queryHash'') then Inr (unbound ''retrieval_query_mismatch'')
      else rbind (digest p rp) (\<lambda>d.
      if JStr d \<noteq> get basis ''provenanceDigest'' then Inr (unbound ''retrieval_provenance_digest_mismatch'')
      else rbind (map_items (canonicalize p) (get basis ''evidenceCommitments'')) (\<lambda>es.
      rbind (map_items (\<lambda>entry. rbind (evidence_commitment entry) (canonicalize p)) (get rp ''selected'')) (\<lambda>as.
      let expected = js_sort cmp_ascii es; actual = js_sort cmp_ascii as in
      rbind (canonicalize p (texts expected)) (\<lambda>x. rbind (canonicalize p (texts actual)) (\<lambda>y.
      if x \<noteq> y then Inr (unbound ''retrieval_selection_commitment_mismatch'')
      else Inr (JObj [(''required'', JBool True), (''verified'', JBool True), (''rootCid'', get basis ''rootCid''), (''queryHash'', get basis ''queryHash''),
        (''provenanceDigest'', get basis ''provenanceDigest''), (''selectedEvidence'', JNum (of_nat (length expected)))])))))))"

fun verify_all :: "platform \<Rightarrow> string \<Rightarrow> jsval list \<Rightarrow> unit result" where
  "verify_all p cid [] = Inr ()"
| "verify_all p cid (a # as) = (case verifyAttestation p cid a of
       Inl r \<Rightarrow> Inl (Err (''invalid attestation: '' @ r)) | Inr _ \<Rightarrow> verify_all p cid as)"

text \<open>The status and its reason, from the retrieval binding, the policy and the counts of groups.\<close>

definition evidence_status :: "jsval \<Rightarrow> jsval \<Rightarrow> jsval \<Rightarrow> nat \<Rightarrow> string \<times> string" where
  "evidence_status retrieval pol ind n =
     (let support = num_of (get ind ''supportGroups''); contradict = num_of (get ind ''contradictGroups''); mixed = num_of (get ind ''mixedGroups'');
          known = num_of (get ind ''independentKnownGroups''); least = num_of (get pol ''minIndependentSupport'') in
      if truthy (get retrieval ''required'') \<and> \<not> truthy (get retrieval ''verified'') then (''retrieval_unverified'', str_of (get retrieval ''reason''))
      else if n = 0 then (''unsupported'', ''no_attestations'')
      else if mixed > 0 \<or> (support > 0 \<and> contradict > 0) then (''disputed'', ''independent_evidence_conflicts'')
      else if contradict \<ge> least \<and> support = 0 then (''contradicted'', ''independent_contradiction_meets_policy'')
      else if support \<ge> least \<and> contradict \<le> num_of (get pol ''maxContradictForVerified'') \<and>
              (\<not> truthy (get pol ''requireKnownLineage'') \<or> known \<ge> least) then (''verified'', ''independent_support_meets_policy'')
      else if num_of (get ind ''unknownLineageGroups'') > 0 \<and> known < least then (''insufficient_independence'', ''lineage_unknown_or_correlated'')
      else (''insufficient_independence'', ''independent_support_below_policy''))"

definition evidence_balance :: "jsval \<Rightarrow> jsval" where
  "evidence_balance ind =
     (let support = num_of (get ind ''supportGroups''); contradict = num_of (get ind ''contradictGroups'');
          decisive = support + contradict + num_of (get ind ''mixedGroups'') in
      if decisive = 0 then JNull else JNum (to_fixed6 (double_of ((support - contradict) / decisive))))"

definition truth_assessment :: "string \<times> string \<Rightarrow> jsval \<Rightarrow> jsval" where
  "truth_assessment st ind = JObj [(''status'', JStr (fst st)), (''reason'', JStr (snd st)), (''evidenceBalance'', evidence_balance ind),
     (''calibratedTruthProbability'', JNull), (''independentKnownGroups'', get ind ''independentKnownGroups''),
     (''supportGroups'', get ind ''supportGroups''), (''contradictGroups'', get ind ''contradictGroups''), (''mixedGroups'', get ind ''mixedGroups''),
     (''uncertainGroups'', get ind ''uncertainGroups''), (''unknownLineageGroups'', get ind ''unknownLineageGroups''),
     (''rawAttestations'', get ind ''rawAttestations'')]"

text \<open>\<open>None\<close> would be an analysis that never ends.\<close>

definition assessClaimEvidence :: "platform \<Rightarrow> jsval \<Rightarrow> jsval \<Rightarrow> jsval \<Rightarrow> jsval \<Rightarrow> jsval result option" where
  "assessClaimEvidence p claim attestations rp policy =
     (case verifyClaim p claim of Inl r \<Rightarrow> Some (Inl (Err (''invalid claim: '' @ r)))
      | Inr _ \<Rightarrow>
        if \<not> is_array attestations then Some (Inl (Err ''attestations must be an array''))
        else (case verify_all p (str_of (get claim ''claimId'')) (elems attestations) of Inl e \<Rightarrow> Some (Inl e)
        | Inr _ \<Rightarrow> (case normalizePolicy policy of Inl e \<Rightarrow> Some (Inl e)
        | Inr pol \<Rightarrow> (case verifyRetrievalBinding p claim rp of Inl e \<Rightarrow> Some (Inl e)
        | Inr retrieval \<Rightarrow> (case buildProvenanceGraph p claim attestations of None \<Rightarrow> None
        | Some (Inl e) \<Rightarrow> Some (Inl e)
        | Some (Inr graph) \<Rightarrow>
            let ind = get graph ''independence'' in
            Some (Inr (JObj [(''protocol'', JStr ''truyn-claim-assessment-v1''), (''version'', JNum 1), (''claimId'', get claim ''claimId''),
              (''retrievalIntegrity'', retrieval), (''truthAssessment'', truth_assessment (evidence_status retrieval pol ind (length (elems attestations))) ind),
              (''policy'', pol), (''provenanceGraphDigest'', get graph ''graphDigest''), (''provenanceGraph'', graph)])))))))"

section \<open>Trust receipts\<close>

definition TRUST_RECEIPT_PROTOCOL :: string where
  "TRUST_RECEIPT_PROTOCOL = ''truyn-trust-receipt-v1''"

definition attestation_commitment :: "platform \<Rightarrow> jsval \<Rightarrow> string result" where
  "attestation_commitment p a = digest p (JObj [(''attestationId'', get a ''attestationId''), (''attesterNodeId'', get a ''attesterNodeId''),
     (''verdict'', get (get a ''body'') ''verdict'')])"

definition receipt_payload :: "platform \<Rightarrow> jsval \<Rightarrow> jsval \<Rightarrow> jsval \<Rightarrow> jsval result" where
  "receipt_payload p claim attestations assessment =
     rbind (claimDigest p claim) (\<lambda>cd.
     rbind (map_result (attestation_commitment p) (elems attestations)) (\<lambda>cs.
     Inr (JObj [(''protocol'', JStr TRUST_RECEIPT_PROTOCOL), (''version'', JNum 1), (''claimId'', get claim ''claimId''), (''claimDigest'', JStr cd),
       (''retrievalIntegrity'', get assessment ''retrievalIntegrity''), (''truthAssessment'', get assessment ''truthAssessment''),
       (''policy'', get assessment ''policy''), (''provenanceGraphDigest'', get assessment ''provenanceGraphDigest''),
       (''attestationCommitments'', texts (js_sort cmp_ascii cs))])))"

definition receipt_id :: "platform \<Rightarrow> jsval \<Rightarrow> jsval \<Rightarrow> string result" where
  "receipt_id p payload verifier = rbind (digest p (JObj [(''payload'', payload), (''verifierNodeId'', verifier)])) (\<lambda>d. Inr (''truyn:trust:'' @ drop 7 d))"

definition receipt_signed :: "jsval \<Rightarrow> jsval \<Rightarrow> jsval \<Rightarrow> jsval \<Rightarrow> entries" where
  "receipt_signed rid payload verifier created =
     [(''receiptId'', rid), (''payload'', payload), (''verifierNodeId'', verifier), (''createdAt'', created)]"

definition sign_receipt :: "platform \<Rightarrow> identity \<Rightarrow> jsval \<Rightarrow> jsval \<Rightarrow> jsval result" where
  "sign_receipt p i payload created =
     rbind (receipt_id p payload (nodeId i)) (\<lambda>rid.
     let signed = receipt_signed (JStr rid) payload (nodeId i) created in
     rbind (signValue p (JObj signed) (privateKeyPem i)) (\<lambda>s.
       Inr (JObj (signed @ [(''publicKey'', publicKeyPem i), (''signature'', JStr s)]))))"

definition createTrustReceipt :: "platform \<Rightarrow> identity \<Rightarrow> jsval \<Rightarrow> jsval \<Rightarrow> jsval \<Rightarrow> jsval \<Rightarrow> jsval \<Rightarrow> jsval result option" where
  "createTrustReceipt p i claim attestations rp policy created =
     (case require_identity p ''trust receipt verifier identity is required'' ''trust receipt verifier identity key mismatch'' i of
        Inl e \<Rightarrow> Some (Inl e)
      | Inr _ \<Rightarrow> (case assessClaimEvidence p claim attestations rp policy of None \<Rightarrow> None
        | Some r \<Rightarrow> Some (rbind r (\<lambda>assessment. rbind (receipt_payload p claim attestations assessment) (\<lambda>payload. sign_receipt p i payload created)))))"

text \<open>An accepted receipt: its identifier and the status it reports.\<close>

definition verifyTrustReceipt :: "platform \<Rightarrow> string \<Rightarrow> jsval \<Rightarrow> (jsval \<times> jsval) verdict" where
  "verifyTrustReceipt p expectedClaimId r =
     (if \<exists>k\<in>set [''receiptId'', ''payload'', ''verifierNodeId'', ''createdAt'', ''publicKey'', ''signature'']. \<not> truthy (oget r k)
        then Inl ''trust_receipt_missing_required_field''
      else let payload = get r ''payload'' in
      if get payload ''protocol'' \<noteq> JStr TRUST_RECEIPT_PROTOCOL \<or> get payload ''version'' \<noteq> JNum 1 then Inl ''trust_receipt_protocol_mismatch''
      else if expectedClaimId \<noteq> [] \<and> get payload ''claimId'' \<noteq> JStr expectedClaimId then Inl ''trust_receipt_claim_mismatch''
      else rbind (caught (nodeIdFromPublicKey p (get r ''publicKey''))) (\<lambda>n.
      if JStr n \<noteq> get r ''verifierNodeId'' then Inl ''trust_receipt_verifier_key_mismatch''
      else rbind (caught (receipt_id p payload (get r ''verifierNodeId''))) (\<lambda>expected.
      if JStr expected \<noteq> get r ''receiptId'' then Inl ''trust_receipt_content_id_mismatch''
      else rbind (caught (verifyValue p (JObj (receipt_signed (get r ''receiptId'') payload (get r ''verifierNodeId'') (get r ''createdAt'')))
             (get r ''signature'') (get r ''publicKey''))) (\<lambda>ok.
           if ok then Inr (get r ''receiptId'', (let st = get (get payload ''truthAssessment'') ''status'' in if truthy st then st else JNull))
           else Inl ''trust_receipt_signature_invalid''))))"

definition trustReceiptDigest :: "platform \<Rightarrow> jsval \<Rightarrow> string result" where
  "trustReceiptDigest p r = digest p r"

section \<open>Signed lifecycle objects\<close>

definition LINEAGE_CERT_PROTOCOL :: string where
  "LINEAGE_CERT_PROTOCOL = ''truyn-lineage-cert-v1''"

definition TRUST_REVOCATION_PROTOCOL :: string where
  "TRUST_REVOCATION_PROTOCOL = ''truyn-trust-revoke-v1''"

definition CHALLENGE_PROTOCOL :: string where
  "CHALLENGE_PROTOCOL = ''truyn-challenge-v1''"

definition VERIFY_PROTOCOL :: string where
  "VERIFY_PROTOCOL = ''truyn-verify-v1''"

definition DISPUTE_PROTOCOL :: string where
  "DISPUTE_PROTOCOL = ''truyn-dispute-v1''"

definition sourceLineageCommitment :: "platform \<Rightarrow> jsval \<Rightarrow> string result" where
  "sourceLineageCommitment p sourceId = digest p (JObj [(''sourceId'', JStr (trim (nfkc p (to_string p sourceId))))])"

definition object_id :: "platform \<Rightarrow> string \<Rightarrow> jsval \<Rightarrow> jsval \<Rightarrow> string result" where
  "object_id p prefix body signer = rbind (digest p (JObj [(''body'', body), (''signerNodeId'', signer)])) (\<lambda>d. Inr (''truyn:'' @ prefix @ '':'' @ drop 7 d))"

definition object_signed :: "string \<Rightarrow> jsval \<Rightarrow> jsval \<Rightarrow> jsval \<Rightarrow> jsval \<Rightarrow> entries" where
  "object_signed atField oid body signer instant = [(''objectId'', oid), (''body'', body), (''signerNodeId'', signer), (atField, instant)]"

definition signObject :: "platform \<Rightarrow> string \<Rightarrow> string \<Rightarrow> identity \<Rightarrow> entries \<Rightarrow> string \<Rightarrow> jsval \<Rightarrow> jsval result" where
  "signObject p prefix protocol i body atField atValue =
     rbind (require_identity p (prefix @ '' identity is required'') (prefix @ '' identity key mismatch'') i) (\<lambda>_.
     let normalized = JObj ([(''protocol'', JStr protocol), (''version'', JNum 1)] @ body) in
     rbind (object_id p prefix normalized (nodeId i)) (\<lambda>oid.
     rbind (normalizeIso p atValue atField) (\<lambda>instant.
     let signed = object_signed atField (JStr oid) normalized (nodeId i) (JStr instant) in
     rbind (signValue p (JObj signed) (privateKeyPem i)) (\<lambda>s.
       Inr (JObj (signed @ [(''publicKey'', publicKeyPem i), (''signature'', JStr s)]))))))"

definition verifyObject :: "platform \<Rightarrow> string \<Rightarrow> string \<Rightarrow> string \<Rightarrow> jsval \<Rightarrow> jsval verdict" where
  "verifyObject p prefix protocol atField v =
     (if \<exists>k\<in>set [''objectId'', ''body'', ''signerNodeId'', atField, ''publicKey'', ''signature'']. \<not> truthy (oget v k)
        then Inl (prefix @ ''_missing_required_field'')
      else let body = get v ''body'' in
      if get body ''protocol'' \<noteq> JStr protocol \<or> get body ''version'' \<noteq> JNum 1 then Inl (prefix @ ''_protocol_mismatch'')
      else rbind (caught (nodeIdFromPublicKey p (get v ''publicKey''))) (\<lambda>n.
      if JStr n \<noteq> get v ''signerNodeId'' then Inl (prefix @ ''_signer_key_mismatch'')
      else rbind (caught (object_id p prefix body (get v ''signerNodeId''))) (\<lambda>expected.
      if JStr expected \<noteq> get v ''objectId'' then Inl (prefix @ ''_content_id_mismatch'')
      else rbind (caught (verifyValue p (JObj (object_signed atField (get v ''objectId'') body (get v ''signerNodeId'') (get v atField)))
             (get v ''signature'') (get v ''publicKey''))) (\<lambda>ok.
           if ok then Inr (get v ''objectId'') else Inl (prefix @ ''_signature_invalid'')))))"

section \<open>Lineage certificates\<close>

definition commitments :: "platform \<Rightarrow> jsval \<Rightarrow> jsval result" where
  "commitments p ids = rbind (map_result (\<lambda>s. sourceLineageCommitment p (JStr s)) (normalizeStringList ids 64)) (\<lambda>cs. Inr (texts cs))"

definition certificate_body :: "platform \<Rightarrow> jsval \<Rightarrow> jsval \<Rightarrow> jsval \<Rightarrow> jsval \<Rightarrow> jsval result" where
  "certificate_body p owner sourceId lineage parents =
     rbind (sourceLineageCommitment p sourceId) (\<lambda>sc.
     rbind (dot lineage ''originIds'') (\<lambda>os. rbind (commitments p os) (\<lambda>oc.
     rbind (dot lineage ''publisherIds'') (\<lambda>ps. rbind (commitments p ps) (\<lambda>pc.
     rbind (dot lineage ''generatorIds'') (\<lambda>gs. rbind (commitments p gs) (\<lambda>gc.
     Inr (JObj [(''protocol'', JStr LINEAGE_CERT_PROTOCOL), (''version'', JNum 1), (''sourceCommitment'', JStr sc), (''ownerNodeId'', owner),
       (''originCommitments'', oc), (''publisherCommitments'', pc), (''generatorCommitments'', gc),
       (''parentCertificateIds'', texts (normalizeStringList parents 64))]))))))))"

definition certificate_signed :: "jsval \<Rightarrow> jsval \<Rightarrow> jsval \<Rightarrow> jsval \<Rightarrow> entries" where
  "certificate_signed cid body issued expires =
     [(''certificateId'', cid), (''body'', body), (''issuedAt'', issued), (''expiresAt'', expires)]"

definition createLineageCertificate :: "platform \<Rightarrow> identity \<Rightarrow> jsval \<Rightarrow> jsval \<Rightarrow> jsval \<Rightarrow> jsval \<Rightarrow> jsval \<Rightarrow> jsval result" where
  "createLineageCertificate p i sourceId lineage parents issuedAt expiresAt =
     rbind (require_identity p ''lineage certificate identity is required'' ''lineage certificate identity key mismatch'' i) (\<lambda>_.
     if \<not> nonblank sourceId then Inl (Err ''lineage sourceId is required'')
     else rbind (normalizeIso p issuedAt ''issuedAt'') (\<lambda>issued.
     rbind (normalizeIso p expiresAt ''expiresAt'') (\<lambda>expires.
     if (case (date_parse p expires, date_parse p issued) of (Some e, Some s) \<Rightarrow> e \<le> s | _ \<Rightarrow> False)
       then Inl (Err ''lineage certificate expiresAt must be after issuedAt'')
     else rbind (certificate_body p (nodeId i) sourceId lineage parents) (\<lambda>body.
     rbind (placement_id p ''truyn:lineage:'' body) (\<lambda>cid.
     let signed = certificate_signed (JStr cid) body (JStr issued) (JStr expires) in
     rbind (signValue p (JObj signed) (privateKeyPem i)) (\<lambda>s.
       Inr (JObj (signed @ [(''publicKey'', publicKeyPem i), (''signature'', JStr s)]))))))))"

definition verifyLineageCertificate :: "platform \<Rightarrow> int \<Rightarrow> bool \<Rightarrow> jsval \<Rightarrow> jsval verdict" where
  "verifyLineageCertificate p now allowExpired c =
     (if \<exists>k\<in>set [''certificateId'', ''body'', ''issuedAt'', ''expiresAt'', ''publicKey'', ''signature'']. \<not> truthy (oget c k)
        then Inl ''lineage_certificate_missing_required_field''
      else let body = get c ''body'' in
      if get body ''protocol'' \<noteq> JStr LINEAGE_CERT_PROTOCOL \<or> get body ''version'' \<noteq> JNum 1 then Inl ''lineage_certificate_protocol_mismatch''
      else rbind (caught (nodeIdFromPublicKey p (get c ''publicKey''))) (\<lambda>n.
      if JStr n \<noteq> get body ''ownerNodeId'' then Inl ''lineage_certificate_owner_key_mismatch''
      else rbind (caught (placement_id p ''truyn:lineage:'' body)) (\<lambda>expected.
      if JStr expected \<noteq> get c ''certificateId'' then Inl ''lineage_certificate_content_id_mismatch''
      else (case (date_value p (get c ''issuedAt''), date_value p (get c ''expiresAt'')) of
        (Some issued, Some expires) \<Rightarrow>
          if expires \<le> issued then Inl ''lineage_certificate_time_invalid''
          else if \<not> allowExpired \<and> now \<ge> expires then Inl ''lineage_certificate_expired''
          else rbind (caught (verifyValue p (JObj (certificate_signed (get c ''certificateId'') body (get c ''issuedAt'') (get c ''expiresAt'')))
                 (get c ''signature'') (get c ''publicKey''))) (\<lambda>ok.
               if ok then Inr (get c ''certificateId'') else Inl ''lineage_certificate_signature_invalid'')
      | _ \<Rightarrow> Inl ''lineage_certificate_time_invalid''))))"

section \<open>Revocations, challenges, verifications and disputes\<close>

definition createTrustRevocation :: "platform \<Rightarrow> identity \<Rightarrow> jsval \<Rightarrow> jsval \<Rightarrow> jsval \<Rightarrow> jsval \<Rightarrow> jsval result" where
  "createTrustRevocation p i targetType targetId reasonDigest revokedAt =
     (if targetType \<notin> set (map JStr [''claim'', ''attestation'', ''lineage-certificate'', ''verification''])
        then Inl (Err ''trust revocation targetType is invalid'')
      else if \<not> nonblank targetId then Inl (Err ''trust revocation targetId is required'')
      else signObject p ''trust-revoke'' TRUST_REVOCATION_PROTOCOL i
        [(''targetType'', targetType), (''targetId'', JStr (trim (str_of targetId))), (''reasonDigest'', trimmed_or_null reasonDigest)] ''revokedAt'' revokedAt)"

definition verifyTrustRevocation :: "platform \<Rightarrow> jsval \<Rightarrow> jsval verdict" where
  "verifyTrustRevocation p r = verifyObject p ''trust-revoke'' TRUST_REVOCATION_PROTOCOL ''revokedAt'' r"

definition createChallenge :: "platform \<Rightarrow> identity \<Rightarrow> jsval \<Rightarrow> jsval \<Rightarrow> jsval \<Rightarrow> jsval \<Rightarrow> jsval \<Rightarrow> jsval result" where
  "createChallenge p i claim methods reason deadlineAt createdAt =
     (case verifyClaim p claim of Inl r \<Rightarrow> Inl (Err (''cannot challenge invalid claim: '' @ r))
      | Inr _ \<Rightarrow>
         rbind (if nullish deadlineAt then Inr JNull else rbind (normalizeIso p deadlineAt ''deadlineAt'') (\<lambda>t. Inr (JStr t))) (\<lambda>deadline.
         signObject p ''challenge'' CHALLENGE_PROTOCOL i
           [(''claimId'', get claim ''claimId''), (''domain'', get (get claim ''body'') ''domain''), (''methods'', texts (normalizeStringList methods 16)),
            (''reason'', JStr (take 512 (trim (nfkc p (if truthy reason then to_string p reason else ''active-verification''))))),
            (''deadlineAt'', deadline)] ''createdAt'' createdAt))"

definition verifyChallenge :: "platform \<Rightarrow> string \<Rightarrow> jsval \<Rightarrow> jsval verdict" where
  "verifyChallenge p expectedClaimId c =
     rbind (verifyObject p ''challenge'' CHALLENGE_PROTOCOL ''createdAt'' c) (\<lambda>oid.
       if expectedClaimId \<noteq> [] \<and> get (get c ''body'') ''claimId'' \<noteq> JStr expectedClaimId then Inl ''challenge_claim_mismatch'' else Inr oid)"

text \<open>A challenge may carry a claim identifier that is no text; it has to be the attestation's all the same.\<close>

definition createVerification :: "platform \<Rightarrow> identity \<Rightarrow> jsval \<Rightarrow> jsval \<Rightarrow> jsval \<Rightarrow> jsval result" where
  "createVerification p i challenge attestation createdAt =
     (case verifyChallenge p [] challenge of Inl r \<Rightarrow> Inl (Err (''cannot verify invalid challenge: '' @ r))
      | Inr _ \<Rightarrow> let cid = get (get challenge ''body'') ''claimId'' in
        (case verifyAttestation p (str_of cid) attestation of
          Inl r \<Rightarrow> Inl (Err (''cannot use invalid attestation: '' @ r))
        | Inr _ \<Rightarrow>
           if truthy cid \<and> \<not> is_string cid \<and> \<not> strict_eq (get (get attestation ''body'') ''claimId'') cid
             then Inl (Err ''cannot use invalid attestation: attestation_claim_mismatch'')
           else if nodeId i \<noteq> get attestation ''attesterNodeId'' then Inl (Err ''verification signer must be the attestation signer'')
           else signObject p ''verify'' VERIFY_PROTOCOL i
             [(''challengeId'', get challenge ''objectId''), (''claimId'', get (get challenge ''body'') ''claimId''),
              (''attestationId'', get attestation ''attestationId''), (''verdict'', get (get attestation ''body'') ''verdict'')] ''createdAt'' createdAt))"

definition verifyVerification :: "platform \<Rightarrow> string \<Rightarrow> jsval \<Rightarrow> jsval verdict" where
  "verifyVerification p expectedChallengeId v =
     rbind (verifyObject p ''verify'' VERIFY_PROTOCOL ''createdAt'' v) (\<lambda>oid.
       if expectedChallengeId \<noteq> [] \<and> get (get v ''body'') ''challengeId'' \<noteq> JStr expectedChallengeId then Inl ''verification_challenge_mismatch'' else Inr oid)"

definition createDispute :: "platform \<Rightarrow> identity \<Rightarrow> jsval \<Rightarrow> jsval \<Rightarrow> jsval \<Rightarrow> jsval \<Rightarrow> jsval \<Rightarrow> jsval result" where
  "createDispute p i claim targets grounds evidence createdAt =
     (case verifyClaim p claim of Inl r \<Rightarrow> Inl (Err (''cannot dispute invalid claim: '' @ r))
      | Inr _ \<Rightarrow>
         if \<not> nonblank grounds then Inl (Err ''dispute groundsDigest is required'')
         else signObject p ''dispute'' DISPUTE_PROTOCOL i
           [(''claimId'', get claim ''claimId''), (''targetAttestationIds'', texts (normalizeStringList targets 64)),
            (''groundsDigest'', JStr (trim (str_of grounds))), (''evidenceCommitments'', texts (normalizeStringList evidence 64))] ''createdAt'' createdAt)"

definition verifyDispute :: "platform \<Rightarrow> string \<Rightarrow> jsval \<Rightarrow> jsval verdict" where
  "verifyDispute p expectedClaimId d =
     rbind (verifyObject p ''dispute'' DISPUTE_PROTOCOL ''createdAt'' d) (\<lambda>oid.
       if expectedClaimId \<noteq> [] \<and> get (get d ''body'') ''claimId'' \<noteq> JStr expectedClaimId then Inl ''dispute_claim_mismatch'' else Inr oid)"

section \<open>The active assessment\<close>

fun accepted :: "'a verdict \<Rightarrow> bool" where
  "accepted (Inr _) = True"
| "accepted (Inl _) = False"

definition validRevocations :: "platform \<Rightarrow> jsval list \<Rightarrow> jsval list" where
  "validRevocations p revs = filter (\<lambda>r. accepted (verifyTrustRevocation p r)) revs"

definition revokedByIssuer :: "platform \<Rightarrow> string \<Rightarrow> jsval \<Rightarrow> jsval \<Rightarrow> jsval list \<Rightarrow> bool" where
  "revokedByIssuer p targetType targetId issuer revs =
     list_ex (\<lambda>r. get (get r ''body'') ''targetType'' = JStr targetType \<and> strict_eq (get (get r ''body'') ''targetId'') targetId \<and>
       strict_eq (get r ''signerNodeId'') issuer) (validRevocations p revs)"

definition active_certificate :: "platform \<Rightarrow> jsval list \<Rightarrow> int \<Rightarrow> jsval \<Rightarrow> bool" where
  "active_certificate p revs now c \<longleftrightarrow> accepted (verifyLineageCertificate p now False c) \<and>
     \<not> revokedByIssuer p ''lineage-certificate'' (get c ''certificateId'') (get (get c ''body'') ''ownerNodeId'') revs"

definition certificateIndex :: "platform \<Rightarrow> jsval list \<Rightarrow> jsval list \<Rightarrow> int \<Rightarrow> (jsval, jsval) jsmap" where
  "certificateIndex p certs revs now =
     fold (\<lambda>c m. if active_certificate p revs now c then jmap_set (get (get c ''body'') ''sourceCommitment'') c m else m) certs []"

text \<open>\<^verbatim>\<open>flatMap\<close> over a member of the certificates: an array is spliced, anything else is an element.\<close>

definition flat_member :: "jsval list \<Rightarrow> string \<Rightarrow> jsval list" where
  "flat_member cs k = concat (map (\<lambda>c. let v = get (get c ''body'') k in if is_array v then elems v else [v]) cs)"

definition source_certificates :: "platform \<Rightarrow> (jsval, jsval) jsmap \<Rightarrow> jsval \<Rightarrow> jsval list result" where
  "source_certificates p certs a =
     rbind (map_result (\<lambda>e. sourceLineageCommitment p (get e ''sourceId'')) (elems (get (get a ''body'') ''evidence''))) (\<lambda>ks.
       Inr (concat (map (\<lambda>k. case jmap_get certs (JStr k) of None \<Rightarrow> [] | Some c \<Rightarrow> [c]) ks)))"

definition certified_in :: "platform \<Rightarrow> jsval list \<Rightarrow> jsval \<Rightarrow> bool result" where
  "certified_in p allowed ids =
     rbind (map_result (\<lambda>s. sourceLineageCommitment p (JStr s)) (normalizeStringList ids 64)) (\<lambda>cs. Inr (list_all (\<lambda>c. JStr c \<in> set allowed) cs))"

definition declared_ids :: "jsval \<Rightarrow> string \<Rightarrow> jsval" where
  "declared_ids a k = (let l = get (get a ''body'') ''lineage'' in if truthy l then get l k else JUndef)"

definition declaredLineageIsCertified :: "platform \<Rightarrow> jsval \<Rightarrow> (jsval, jsval) jsmap \<Rightarrow> bool result" where
  "declaredLineageIsCertified p a certs =
     rbind (source_certificates p certs a) (\<lambda>cs.
     if cs = [] then Inr False
     else rbind (certified_in p (flat_member cs ''originCommitments'') (declared_ids a ''originIds'')) (\<lambda>x.
     rbind (certified_in p (flat_member cs ''publisherCommitments'') (declared_ids a ''publisherIds'')) (\<lambda>y.
     rbind (certified_in p (flat_member cs ''generatorCommitments'') (declared_ids a ''generatorIds'')) (\<lambda>z.
     Inr (x \<and> y \<and> z \<and> (\<exists>k\<in>{''originIds'', ''publisherIds'', ''generatorIds''}. normalizeStringList (declared_ids a k) 64 \<noteq> []))))))"

text \<open>How an attestation is counted.\<close>

datatype att_standing = Ignored | Revoked | Stale | Uncertified | Active

definition standing :: "platform \<Rightarrow> jsval \<Rightarrow> (jsval, jsval) jsmap \<Rightarrow> jsval list \<Rightarrow> int \<Rightarrow> int \<Rightarrow> int \<Rightarrow> jsval \<Rightarrow> att_standing result" where
  "standing p claim certs revs now maxAge maxSkew a =
     (if \<not> accepted (verifyAttestation p (str_of (get claim ''claimId'')) a) then Inr Ignored
      else if revokedByIssuer p ''attestation'' (get a ''attestationId'') (get a ''attesterNodeId'') revs then Inr Revoked
      else (case date_value p (get a ''createdAt'') of None \<Rightarrow> Inr Stale
      | Some created \<Rightarrow>
         if now - created > maxAge \<or> created - now > maxSkew then Inr Stale
         else rbind (declaredLineageIsCertified p a certs) (\<lambda>ok. Inr (if ok then Active else Uncertified))))"

definition set_members :: "entries \<Rightarrow> jsval \<Rightarrow> jsval" where
  "set_members new v = (case v of JObj kvs \<Rightarrow> JObj (fold (\<lambda>(k, x). jmap_set k x) new kvs) | _ \<Rightarrow> JObj new)"

definition count_standing :: "att_standing \<Rightarrow> att_standing list \<Rightarrow> nat" where
  "count_standing x xs = length (filter (\<lambda>y. y = x) xs)"

text \<open>The lifecycle status and the truth assessment it comes with.\<close>

definition lifecycle_outcome :: "jsval \<Rightarrow> nat \<Rightarrow> att_standing list \<Rightarrow> jsval \<times> jsval" where
  "lifecycle_outcome base disputes st =
     (let ta = get base ''truthAssessment''; status = get ta ''status'' in
      if disputes > 0 \<and> status \<noteq> JStr ''retrieval_unverified''
        then (JStr ''disputed'', set_members [(''status'', JStr ''disputed''), (''reason'', JStr ''active_authorized_dispute_present'')] ta)
      else if count_standing Active st = 0 \<and> (count_standing Stale st > 0 \<or> count_standing Uncertified st > 0 \<or> count_standing Revoked st > 0)
        then (JStr ''stale_or_uncertified'', set_members [(''status'', JStr ''stale_or_uncertified''), (''reason'', JStr ''no_fresh_certified_attestations'')] ta)
      else (status, ta))"

definition revoked_assessment :: "jsval \<Rightarrow> nat \<Rightarrow> jsval" where
  "revoked_assessment claim n = JObj [(''protocol'', JStr ''truyn-active-trust-assessment-v1''), (''version'', JNum 1), (''claimId'', get claim ''claimId''),
     (''lifecycleStatus'', JStr ''revoked''), (''activeAttestations'', JNum 0), (''staleAttestations'', JNum 0), (''revokedAttestations'', JNum (of_nat n)),
     (''uncertifiedAttestations'', JNum 0), (''activeDisputes'', JNum 0),
     (''truthAssessment'', JObj [(''status'', JStr ''revoked''), (''reason'', JStr ''claim_revoked''), (''calibratedTruthProbability'', JNull)])]"

definition valid_disputes :: "platform \<Rightarrow> jsval \<Rightarrow> jsval list \<Rightarrow> jsval list \<Rightarrow> jsval list" where
  "valid_disputes p claim disputes authorized =
     filter (\<lambda>d. accepted (verifyDispute p (str_of (get claim ''claimId'')) d) \<and> list_ex (strict_eq (get d ''signerNodeId'')) authorized) disputes"

definition assessActiveTrust :: "platform \<Rightarrow> jsval \<Rightarrow> jsval list \<Rightarrow> jsval list \<Rightarrow> jsval list \<Rightarrow> jsval list \<Rightarrow> jsval list \<Rightarrow>
    jsval \<Rightarrow> jsval \<Rightarrow> int \<Rightarrow> int \<Rightarrow> int \<Rightarrow> jsval result option" where
  "assessActiveTrust p claim as certificates revs disputes authorized rp policy now maxAge maxSkew =
     (case verifyClaim p claim of Inl r \<Rightarrow> Some (Inl (Err (''invalid claim: '' @ r)))
      | Inr _ \<Rightarrow>
        if revokedByIssuer p ''claim'' (get claim ''claimId'') (get claim ''issuedBy'') revs then Some (Inr (revoked_assessment claim (length as)))
        else (case map_result (standing p claim (certificateIndex p certificates revs now) revs now maxAge maxSkew) as of Inl e \<Rightarrow> Some (Inl e)
        | Inr st \<Rightarrow>
          let active = map fst (filter (\<lambda>x. snd x = Active) (zip as st)) in
          (case assessClaimEvidence p claim (JArr active) rp policy of None \<Rightarrow> None
           | Some (Inl e) \<Rightarrow> Some (Inl e)
           | Some (Inr base) \<Rightarrow>
              let n = length (valid_disputes p claim disputes authorized); (status, ta) = lifecycle_outcome base n st in
              Some (Inr (JObj [(''protocol'', JStr ''truyn-active-trust-assessment-v1''), (''version'', JNum 1), (''claimId'', get claim ''claimId''),
                (''lifecycleStatus'', status), (''retrievalIntegrity'', get base ''retrievalIntegrity''), (''truthAssessment'', ta),
                (''activeAttestations'', JNum (of_nat (length active))), (''staleAttestations'', JNum (of_nat (count_standing Stale st))),
                (''revokedAttestations'', JNum (of_nat (count_standing Revoked st))), (''uncertifiedAttestations'', JNum (of_nat (count_standing Uncertified st))),
                (''activeDisputes'', JNum (of_nat n)), (''provenanceGraphDigest'', get base ''provenanceGraphDigest'')])))))"

section \<open>A verified claim has independent support\<close>

lemma graph_independence:
  assumes "buildProvenanceGraph p claim (JArr as) = Some (Inr graph)"
  shows "\<exists>ind. analyzeAttestationIndependence p (JArr as) = Some (Inr ind) \<and> get graph ''independence'' = ind"
  using assms unfolding buildProvenanceGraph_def
  by (auto simp: res_simps Let_def split: sum.splits option.splits)

lemma verdicts_of: "map_result (\<lambda>m. rbind (dot m ''body'') (\<lambda>b. dot b ''verdict'')) ms = Inr vs \<Longrightarrow> vs = map (\<lambda>m. get (get m ''body'') ''verdict'') ms"
  by (induction ms arbitrary: vs) (auto simp: res_simps dot_def split: if_splits)

lemma length_filter_sort: "length (filter P (js_sort cmp xs)) = length (filter P xs)"
  by (metis mset_filter mset_js_sort size_mset)

lemma independence_cases:
  assumes "analyzeAttestationIndependence p (JArr as) = Some (Inr ind)"
  obtains tss rs gs where "map_result (lineageTokens p) as = Inr tss" "group_roots tss = Some rs" "length rs = length as"
    "\<forall>i<length as. \<forall>j<length as. rs ! i = rs ! j \<longleftrightarrow> (i, j) \<in> eqcl (linked tss)"
    "map_result (normalized_group p) (map snd (group_members (zip rs as) [])) = Inr gs"
    "\<And>v k. (k, v) \<in> {(''supportGroups'', ''support''), (''contradictGroups'', ''contradict''), (''mixedGroups'', ''mixed'')} \<Longrightarrow>
       get ind k = JNum (of_nat (length (filter (\<lambda>g. get g ''knownLineage'' = JBool True \<and> get g ''verdict'' = JStr v) gs)))"
proof -
  from assms obtain tss where t: "map_result (lineageTokens p) as = Inr tss"
    by (auto simp: analyzeAttestationIndependence_def split: sum.splits)
  have len: "length tss = length as" using map_result_length[OF t] .
  obtain rs where rs: "group_roots tss = Some rs" "length rs = length tss"
    "\<forall>i<length tss. \<forall>j<length tss. rs ! i = rs ! j \<longleftrightarrow> (i, j) \<in> eqcl (linked tss)" using group_roots_ok by blast
  from assms t rs(1) obtain gs where gs: "map_result (normalized_group p) (map snd (group_members (zip rs as) [])) = Inr gs"
    and ind: "ind = independence p gs (length as)" by (auto simp: analyzeAttestationIndependence_def res_simps)
  show thesis
    by (rule that[OF t rs(1) _ _ gs]) (use rs len in \<open>auto simp: ind independence_def count_verdict_def Let_def length_filter_sort\<close>)
qed

text \<open>Each known group with a verdict has a member that gave it; members of different groups are not linked.\<close>

lemma verdict_representatives:
  assumes gs: "map_result (normalized_group p) (map snd (group_members (zip rs as) [])) = Inr gs" and len: "length rs = length as"
  shows "\<exists>I. I \<subseteq> {..<length as} \<and> card I = length (filter (\<lambda>g. get g ''knownLineage'' = JBool True \<and> get g ''verdict'' = JStr ''support'') gs) \<and>
    (\<forall>i\<in>I. get (get (as ! i) ''body'') ''verdict'' = JStr ''support'') \<and> (\<forall>i\<in>I. \<forall>j\<in>I. i \<noteq> j \<longrightarrow> rs ! i \<noteq> rs ! j)"
proof -
  let ?G = "group_members (zip rs as) []"
  let ?Q = "\<lambda>ms. known_lineage ms \<and> group_verdict (map (\<lambda>m. get (get m ''body'') ''verdict'') ms) = ''support''"
  let ?R = "fst ` set (filter (\<lambda>x. ?Q (snd x)) ?G)"
  have ok: "jmap_ok ?G" by (simp add: group_members_ok)
  have "length (filter (\<lambda>g. get g ''knownLineage'' = JBool True \<and> get g ''verdict'' = JStr ''support'') gs) = length (filter ?Q (map snd ?G))"
    by (rule map_result_filter[OF gs]) (auto simp: normalized_group_def Let_def res_simps dest!: verdicts_of)
  also have "\<dots> = length (filter (\<lambda>x. ?Q (snd x)) ?G)" by (simp add: filter_map comp_def)
  also have "\<dots> = card ?R"
    using distinct_map_filter[OF ok, of "\<lambda>x. ?Q (snd x)"] by (metis (no_types, lifting) distinct_card length_map set_map)
  finally have count: "length (filter (\<lambda>g. get g ''knownLineage'' = JBool True \<and> get g ''verdict'' = JStr ''support'') gs) = card ?R" .
  have "\<exists>i<length as. rs ! i = r \<and> get (get (as ! i) ''body'') ''verdict'' = JStr ''support''" if "r \<in> ?R" for r
  proof -
    from that obtain ms where ms: "(r, ms) \<in> set ?G" "?Q ms" by auto
    then have "map_of ?G r = Some ms" using ok by simp
    then have eq: "ms = map snd (filter (\<lambda>x. fst x = r) (zip rs as))" by (simp add: group_members_get Let_def split: if_splits)
    from ms(2) have "JStr ''support'' \<in> (\<lambda>m. get (get m ''body'') ''verdict'') ` set ms" by (auto simp: group_verdict_def split: if_splits)
    then obtain m where "m \<in> set ms" "get (get m ''body'') ''verdict'' = JStr ''support''" by auto
    then show ?thesis using len unfolding eq by (auto simp: set_zip)
  qed
  then have "\<forall>r\<in>?R. \<exists>i. i < length as \<and> rs ! i = r \<and> get (get (as ! i) ''body'') ''verdict'' = JStr ''support''" by blast
  from bchoice[OF this] obtain f where
    f: "\<forall>r\<in>?R. f r < length as \<and> rs ! f r = r \<and> get (get (as ! f r) ''body'') ''verdict'' = JStr ''support''" by blast
  from f have "inj_on f ?R" by (intro inj_on_inverseI[of _ "\<lambda>i. rs ! i"]) blast
  then have "card (f ` ?R) = card ?R" by (rule card_image)
  moreover from f have "f ` ?R \<subseteq> {..<length as}" by (simp add: image_subset_iff)
  moreover from f have "\<forall>i\<in>f ` ?R. get (get (as ! i) ''body'') ''verdict'' = JStr ''support''" by blast
  moreover from f have "\<forall>i\<in>f ` ?R. \<forall>j\<in>f ` ?R. i \<noteq> j \<longrightarrow> rs ! i \<noteq> rs ! j" by (metis (no_types, lifting) image_iff)
  ultimately show ?thesis unfolding count by blast
qed

lemma verify_all_ok: "verify_all p cid as = Inr () \<Longrightarrow> a \<in> set as \<Longrightarrow> \<exists>x. verifyAttestation p cid a = Inr x"
  by (induction as) (auto split: sum.splits)

text \<open>Attestations that support a claim and that no chain of shared lineage connects.\<close>

definition independent_support :: "platform \<Rightarrow> jsval \<Rightarrow> jsval list \<Rightarrow> nat set \<Rightarrow> bool" where
  "independent_support p claim as I \<longleftrightarrow> I \<subseteq> {..<length as} \<and>
     (\<forall>i\<in>I. (\<exists>x. verifyAttestation p (str_of (get claim ''claimId'')) (as ! i) = Inr x) \<and> get (get (as ! i) ''body'') ''verdict'' = JStr ''support'') \<and>
     (\<exists>tss. map_result (lineageTokens p) as = Inr tss \<and> (\<forall>i\<in>I. \<forall>j\<in>I. i \<noteq> j \<longrightarrow> (i, j) \<notin> eqcl (linked tss)))"

lemma policy_bounds:
  assumes "normalizePolicy policy = Inr pol"
  shows "get pol ''minIndependentSupport'' = JNum (policy_integer policy ''minIndependentSupport'' 2)" "1 \<le> policy_integer policy ''minIndependentSupport'' 2"
  using assms by (auto simp: normalizePolicy_def Let_def split: if_splits)

lemma assess_cases:
  assumes "assessClaimEvidence p claim (JArr as) rp policy = Some (Inr a)"
  obtains pol retrieval graph where "verify_all p (str_of (get claim ''claimId'')) as = Inr ()" "normalizePolicy policy = Inr pol"
    "verifyRetrievalBinding p claim rp = Inr retrieval" "buildProvenanceGraph p claim (JArr as) = Some (Inr graph)"
    "get a ''truthAssessment'' = truth_assessment (evidence_status retrieval pol (get graph ''independence'') (length as)) (get graph ''independence'')"
    "get a ''retrievalIntegrity'' = retrieval" "get a ''policy'' = pol"
  using assms unfolding assessClaimEvidence_def by (auto simp: Let_def split: sum.splits option.splits if_splits)

lemma verified_support:
  assumes a: "assessClaimEvidence p claim (JArr as) rp policy = Some (Inr a)" and v: "get (get a ''truthAssessment'') ''status'' = JStr ''verified''"
  shows "\<exists>I. independent_support p claim as I \<and> of_nat (card I) \<ge> policy_integer policy ''minIndependentSupport'' 2"
proof -
  from a obtain pol retrieval graph where s: "verify_all p (str_of (get claim ''claimId'')) as = Inr ()" "normalizePolicy policy = Inr pol"
    "buildProvenanceGraph p claim (JArr as) = Some (Inr graph)"
    "get a ''truthAssessment'' = truth_assessment (evidence_status retrieval pol (get graph ''independence'') (length as)) (get graph ''independence'')"
    by (rule assess_cases)
  let ?ind = "get graph ''independence''"
  from v s(4) have "fst (evidence_status retrieval pol ?ind (length as)) = ''verified''" by (simp add: truth_assessment_def)
  then have sup: "num_of (get pol ''minIndependentSupport'') \<le> num_of (get ?ind ''supportGroups'')"
    by (auto simp: evidence_status_def Let_def split: if_splits)
  from graph_independence[OF s(3)] have "analyzeAttestationIndependence p (JArr as) = Some (Inr ?ind)" by blast
  then obtain tss rs gs where i: "map_result (lineageTokens p) as = Inr tss" "length rs = length as"
    "\<forall>i<length as. \<forall>j<length as. rs ! i = rs ! j \<longleftrightarrow> (i, j) \<in> eqcl (linked tss)"
    "map_result (normalized_group p) (map snd (group_members (zip rs as) [])) = Inr gs"
    "get ?ind ''supportGroups'' = JNum (of_nat (length (filter (\<lambda>g. get g ''knownLineage'' = JBool True \<and> get g ''verdict'' = JStr ''support'') gs)))"
    by (rule independence_cases) simp
  from verdict_representatives[OF i(4,2)] obtain I where I: "I \<subseteq> {..<length as}" "of_nat (card I) = num_of (get ?ind ''supportGroups'')"
    "\<forall>i\<in>I. get (get (as ! i) ''body'') ''verdict'' = JStr ''support''" "\<forall>i\<in>I. \<forall>j\<in>I. i \<noteq> j \<longrightarrow> rs ! i \<noteq> rs ! j" unfolding i(5) by auto
  have "\<exists>x. verifyAttestation p (str_of (get claim ''claimId'')) (as ! i) = Inr x" if "i \<in> I" for i
    using verify_all_ok[OF s(1)] I(1) that by (meson lessThan_iff nth_mem subsetD)
  moreover have "(i, j) \<notin> eqcl (linked tss)" if "i \<in> I" "j \<in> I" "i \<noteq> j" for i j using I(1,4) i(3) that by (meson lessThan_iff subsetD)
  ultimately have "independent_support p claim as I" using I(1,3) i(1) by (auto simp: independent_support_def)
  with I(2) sup policy_bounds[OF s(2)] show ?thesis by auto
qed

text \<open>
  A claim assessed as verified has enough independent support: at least as many attestations as
  the policy's minimum, each accepted by the verifier for this claim and supporting it, no two of
  them connected by any chain of shared origins, publishers or generators. Duplicated or
  correlated attestations are counted once.
\<close>

theorem trust_verified_independent:
  assumes "assessClaimEvidence p claim (JArr as) rp policy = Some (Inr a)" "get (get a ''truthAssessment'') ''status'' = JStr ''verified''"
  shows "\<exists>I. independent_support p claim as I \<and> of_nat (card I) \<ge> policy_integer policy ''minIndependentSupport'' 2"
  using assms by (rule verified_support)

section \<open>What the active assessment counts\<close>

lemma standing_active:
  assumes "standing p claim certs revs now maxAge maxSkew a = Inr Active"
  shows "\<not> revokedByIssuer p ''attestation'' (get a ''attestationId'') (get a ''attesterNodeId'') revs"
    "\<exists>t. date_value p (get a ''createdAt'') = Some t \<and> now - t \<le> maxAge \<and> t - now \<le> maxSkew"
    "declaredLineageIsCertified p a certs = Inr True"
  using assms by (auto simp: standing_def res_simps split: if_splits option.splits)

lemma active_members:
  assumes st: "map_result f as = Inr st" and a: "a \<in> set (map fst (filter (\<lambda>x. snd x = Active) (zip as st)))"
  shows "a \<in> set as \<and> f a = Inr Active"
proof -
  have len: "length st = length as" using map_result_length[OF st] .
  from a obtain i where "i < length as" "as ! i = a" "st ! i = Active" by (auto simp: set_zip len)
  with map_result_nth[OF st] show ?thesis by force
qed

lemma outcome_verified: "lifecycle_outcome base n st = (JStr ''verified'', ta) \<Longrightarrow> n = 0 \<and> get (get base ''truthAssessment'') ''status'' = JStr ''verified''"
  by (auto simp: lifecycle_outcome_def Let_def split: if_splits)

text \<open>
  C2. An active assessment of a claim as verified is sound: the claim is not revoked by its issuer, no
  authorised party disputes it, and it has the policy's minimum of independent support among
  attestations that are all unrevoked, within the accepted age and clock skew, and whose declared lineage is
  covered by certificates that are valid, unexpired and unrevoked.
\<close>

theorem active_trust_sound:
  assumes r: "assessActiveTrust p claim as certs revs disputes authorized rp policy now maxAge maxSkew = Some (Inr r)"
    and v: "get r ''lifecycleStatus'' = JStr ''verified''"
  shows "\<not> revokedByIssuer p ''claim'' (get claim ''claimId'') (get claim ''issuedBy'') revs \<and> valid_disputes p claim disputes authorized = [] \<and>
    (\<exists>active I. independent_support p claim active I \<and> of_nat (card I) \<ge> policy_integer policy ''minIndependentSupport'' 2 \<and>
      (\<forall>a\<in>set active. a \<in> set as \<and> \<not> revokedByIssuer p ''attestation'' (get a ''attestationId'') (get a ''attesterNodeId'') revs \<and>
        (\<exists>t. date_value p (get a ''createdAt'') = Some t \<and> now - t \<le> maxAge \<and> t - now \<le> maxSkew) \<and>
        declaredLineageIsCertified p a (certificateIndex p certs revs now) = Inr True))"
proof -
  have nr: "\<not> revokedByIssuer p ''claim'' (get claim ''claimId'') (get claim ''issuedBy'') revs"
    using r v by (auto simp: assessActiveTrust_def revoked_assessment_def split: sum.splits)
  with r obtain st base where st: "map_result (standing p claim (certificateIndex p certs revs now) revs now maxAge maxSkew) as = Inr st"
    and base: "assessClaimEvidence p claim (JArr (map fst (filter (\<lambda>x. snd x = Active) (zip as st)))) rp policy = Some (Inr base)"
    and out: "\<exists>ta. lifecycle_outcome base (length (valid_disputes p claim disputes authorized)) st = (get r ''lifecycleStatus'', ta)"
    unfolding assessActiveTrust_def by (auto simp: Let_def split: sum.splits option.splits prod.splits)
  let ?active = "map fst (filter (\<lambda>x. snd x = Active) (zip as st))"
  from out v have o: "valid_disputes p claim disputes authorized = []" "get (get base ''truthAssessment'') ''status'' = JStr ''verified''"
    by (auto dest: outcome_verified)
  from verified_support[OF base o(2)] obtain I where
    "independent_support p claim ?active I" "of_nat (card I) \<ge> policy_integer policy ''minIndependentSupport'' 2" by blast
  moreover have "a \<in> set as \<and> \<not> revokedByIssuer p ''attestation'' (get a ''attestationId'') (get a ''attesterNodeId'') revs \<and>
      (\<exists>t. date_value p (get a ''createdAt'') = Some t \<and> now - t \<le> maxAge \<and> t - now \<le> maxSkew) \<and>
      declaredLineageIsCertified p a (certificateIndex p certs revs now) = Inr True" if "a \<in> set ?active" for a
    using active_members[OF st that] standing_active by meson
  ultimately show ?thesis using nr o(1) by blast
qed

section \<open>Only issuers revoke\<close>

lemma revokedByIssuer_skip:
  assumes "\<not> strict_eq (get v ''signerNodeId'') issuer"
  shows "revokedByIssuer p ty tid issuer (xs @ v # ys) = revokedByIssuer p ty tid issuer (xs @ ys)"
  using assms by (auto simp: revokedByIssuer_def validRevocations_def)

lemma certificateIndex_skip:
  assumes "\<forall>c\<in>set certs. \<not> strict_eq (get v ''signerNodeId'') (get (get c ''body'') ''ownerNodeId'')"
  shows "certificateIndex p certs (xs @ v # ys) now = certificateIndex p certs (xs @ ys) now"
  unfolding certificateIndex_def by (rule fold_cong) (use assms in \<open>auto simp: active_certificate_def revokedByIssuer_skip\<close>)

lemma map_result_cong: "(\<And>x. x \<in> set xs \<Longrightarrow> f x = g x) \<Longrightarrow> map_result f xs = map_result g xs"
  by (induction xs) auto

text \<open>
  Only an issuer can revoke. A revocation signed by anyone but the claim's issuer, an attester of
  one of the attestations or the owner of one of the certificates leaves the active assessment
  exactly as it is, wherever it stands among the revocations and whatever it names as its target.
\<close>

theorem trust_revocation_issuer_only:
  assumes "\<not> strict_eq (get v ''signerNodeId'') (get claim ''issuedBy'')"
    "\<forall>a\<in>set as. \<not> strict_eq (get v ''signerNodeId'') (get a ''attesterNodeId'')"
    "\<forall>c\<in>set certs. \<not> strict_eq (get v ''signerNodeId'') (get (get c ''body'') ''ownerNodeId'')"
  shows "assessActiveTrust p claim as certs (xs @ v # ys) disputes authorized rp policy now maxAge maxSkew =
    assessActiveTrust p claim as certs (xs @ ys) disputes authorized rp policy now maxAge maxSkew"
proof -
  have same: "map_result (standing p claim cs (xs @ v # ys) now maxAge maxSkew) as = map_result (standing p claim cs (xs @ ys) now maxAge maxSkew) as" for cs
    by (rule map_result_cong) (use assms(2) in \<open>simp add: standing_def revokedByIssuer_skip\<close>)
  show ?thesis unfolding assessActiveTrust_def revokedByIssuer_skip[OF assms(1)] certificateIndex_skip[OF assms(3)] same ..
qed

section \<open>What is created verifies\<close>

lemma verifyClaim_id: "verifyClaim p claim = Inr x \<Longrightarrow> JStr (str_of (get claim ''claimId'')) = get claim ''claimId''"
  by (auto simp: verifyClaim_def Let_def rbind_def caught_def split: if_splits sum.splits dest!: sym[of "JStr _"])

lemma status_named: "fst (evidence_status retrieval pol ind n) \<noteq> []"
  by (auto simp: evidence_status_def Let_def)

lemma assessed_status:
  assumes "assessClaimEvidence p claim ats rp policy = Some (Inr a)"
  shows "JStr (str_of (get claim ''claimId'')) = get claim ''claimId''" "truthy (get (get a ''truthAssessment'') ''status'')"
  using assms by (auto simp: assessClaimEvidence_def Let_def verifyClaim_id truth_assessment_def status_named split: sum.splits option.splits if_splits)

lemma sign_receipt_verifies:
  assumes keys: "key_pair p (privateKeyPem i) (publicKeyPem i)" and at: "truthy created"
    and id: "nodeIdFromPublicKey p (publicKeyPem i) = Inr n" "nodeId i = JStr n" "n \<noteq> []" "truthy (publicKeyPem i)"
    and payload: "get (JObj pl) ''protocol'' = JStr TRUST_RECEIPT_PROTOCOL" "get (JObj pl) ''version'' = JNum 1" "get (JObj pl) ''claimId'' = JStr cid"
    and r: "sign_receipt p i (JObj pl) created = Inr r"
  shows "get r ''payload'' = JObj pl \<and>
    (let st = get (get (JObj pl) ''truthAssessment'') ''status'' in truthy st \<longrightarrow> verifyTrustReceipt p cid r = Inr (get r ''receiptId'', st))"
proof -
  from r obtain rid s where rid: "receipt_id p (JObj pl) (nodeId i) = Inr rid"
    and s: "signValue p (JObj (receipt_signed (JStr rid) (JObj pl) (nodeId i) created)) (privateKeyPem i) = Inr s"
    and rr: "r = JObj (receipt_signed (JStr rid) (JObj pl) (nodeId i) created @ [(''publicKey'', publicKeyPem i), (''signature'', JStr s)])"
    by (auto simp: sign_receipt_def res_simps Let_def)
  have get: "get r ''receiptId'' = JStr rid" "get r ''payload'' = JObj pl" "get r ''verifierNodeId'' = nodeId i" "get r ''createdAt'' = created"
    "get r ''publicKey'' = publicKeyPem i" "get r ''signature'' = JStr s" "\<not> nullish r" by (simp_all add: rr receipt_signed_def)
  have "rid \<noteq> []" using rid by (auto simp: receipt_id_def res_simps)
  then have "\<forall>k\<in>set [''receiptId'', ''payload'', ''verifierNodeId'', ''createdAt'', ''publicKey'', ''signature'']. truthy (oget r k)"
    using at id(2,3,4) signed_nonempty(1)[OF keys s] by (simp add: oget_def get)
  then show ?thesis using payload id(1,2) rid signed_nonempty(2)[OF keys s] unfolding verifyTrustReceipt_def
    by (simp add: get caught_def Let_def)
qed

text \<open>
  A trust receipt that was created is accepted for its claim by everyone, and it reports the
  status of the assessment it was made from: no receipt is rejected, and none misreports.
\<close>

theorem trust_receipt_roundtrip:
  assumes "key_pair p (privateKeyPem i) (publicKeyPem i)" "truthy created"
    and r: "createTrustReceipt p i claim ats rp policy created = Some (Inr r)"
  shows "\<exists>a. assessClaimEvidence p claim ats rp policy = Some (Inr a) \<and>
    verifyTrustReceipt p (str_of (get claim ''claimId'')) r = Inr (get r ''receiptId'', get (get a ''truthAssessment'') ''status'')"
proof -
  from r obtain a payload where i: "require_identity p ''trust receipt verifier identity is required'' ''trust receipt verifier identity key mismatch'' i = Inr ()"
    and a: "assessClaimEvidence p claim ats rp policy = Some (Inr a)" and pl: "receipt_payload p claim ats a = Inr payload"
    and s: "sign_receipt p i payload created = Inr r"
    by (auto simp: createTrustReceipt_def res_simps split: sum.splits option.splits)
  obtain n where id: "nodeIdFromPublicKey p (publicKeyPem i) = Inr n" "nodeId i = JStr n" "n \<noteq> []" "truthy (publicKeyPem i)"
    using i by (rule require_identity_ok)
  from pl obtain kvs where payload: "payload = JObj kvs" by (auto simp: receipt_payload_def res_simps)
  with pl have g: "get (JObj kvs) ''protocol'' = JStr TRUST_RECEIPT_PROTOCOL" "get (JObj kvs) ''version'' = JNum 1"
    "get (JObj kvs) ''claimId'' = JStr (str_of (get claim ''claimId''))" "get (JObj kvs) ''truthAssessment'' = get a ''truthAssessment''"
    by (auto simp: receipt_payload_def res_simps assessed_status(1)[OF a])
  with assessed_status(2)[OF a] sign_receipt_verifies[OF assms(1,2) id g(1-3) s[unfolded payload]] a show ?thesis by (auto simp: g(4) Let_def)
qed

lemma signObject_verifies:
  assumes date: "\<forall>t. date_iso p t \<noteq> []" and keys: "key_pair p (privateKeyPem i) (publicKeyPem i)"
    and at: "atField \<notin> set [''objectId'', ''body'', ''signerNodeId'', ''publicKey'', ''signature'']"
    and v: "signObject p prefix protocol i body atField atValue = Inr v"
  shows "verifyObject p prefix protocol atField v = Inr (get v ''objectId'')" "get v ''signerNodeId'' = nodeId i"
    "get v ''body'' = JObj ([(''protocol'', JStr protocol), (''version'', JNum 1)] @ body)"
proof -
  let ?b = "JObj ([(''protocol'', JStr protocol), (''version'', JNum 1)] @ body)"
  from v have "require_identity p (prefix @ '' identity is required'') (prefix @ '' identity key mismatch'') i = Inr ()"
    by (auto simp: signObject_def res_simps)
  then obtain n where id: "nodeIdFromPublicKey p (publicKeyPem i) = Inr n" "nodeId i = JStr n" "n \<noteq> []" "truthy (publicKeyPem i)"
    by (rule require_identity_ok)
  from v obtain oid t s where oid: "object_id p prefix ?b (nodeId i) = Inr oid"
    and s: "signValue p (JObj (object_signed atField (JStr oid) ?b (nodeId i) (JStr (date_iso p t)))) (privateKeyPem i) = Inr s"
    and vv: "v = JObj (object_signed atField (JStr oid) ?b (nodeId i) (JStr (date_iso p t)) @ [(''publicKey'', publicKeyPem i), (''signature'', JStr s)])"
    by (auto simp: signObject_def normalizeIso_def res_simps Let_def split: option.splits)
  have top: "get v ''objectId'' = JStr oid" "get v ''body'' = ?b" "get v ''signerNodeId'' = nodeId i" "get v atField = JStr (date_iso p t)"
    "get v ''publicKey'' = publicKeyPem i" "get v ''signature'' = JStr s" "\<not> nullish v" using at by (auto simp: vv object_signed_def)
  then show "get v ''signerNodeId'' = nodeId i" "get v ''body'' = ?b" by simp_all
  have "oid \<noteq> []" using oid by (auto simp: object_id_def res_simps)
  then have "\<forall>k\<in>set [''objectId'', ''body'', ''signerNodeId'', atField, ''publicKey'', ''signature'']. truthy (oget v k)"
    using date id(2,3,4) signed_nonempty(1)[OF keys s] by (simp add: oget_def top)
  moreover have "get ?b ''protocol'' = JStr protocol" "get ?b ''version'' = JNum 1" by simp_all
  ultimately show "verifyObject p prefix protocol atField v = Inr (get v ''objectId'')"
    using id(1,2) oid signed_nonempty(2)[OF keys s] unfolding verifyObject_def by (simp add: top caught_def Let_def)
qed

lemma trim_solid: "list_all (\<lambda>c. \<not> js_white c) s \<Longrightarrow> trim s = s"
proof -
  have drop: "dropWhile js_white t = t" if "\<forall>c\<in>set t. \<not> js_white c" for t using that by (cases t) auto
  assume "list_all (\<lambda>c. \<not> js_white c) s"
  then show ?thesis by (simp add: trim_def list_all_iff drop)
qed

lemma hex_solid: "is_hex c \<Longrightarrow> \<not> js_white c"
  by (auto simp: is_hex_def is_digit_def js_white_def)

lemma claim_id_solid:
  assumes law: "\<forall>t. list_all is_hex (sha256 p t)" and v: "verifyClaim p claim = Inr x"
  shows "trim (str_of (get claim ''claimId'')) = str_of (get claim ''claimId'')" "get claim ''claimId'' \<noteq> JStr []"
proof -
  from v obtain cid b where cid: "claimContentId p (get claim ''body'') = Inr (cid, b)" "get claim ''claimId'' = JStr cid"
    by (auto simp: verifyClaim_def Let_def split: if_splits sum.splits)
  then obtain t where t: "cid = ''truyn:claim:'' @ sha256 p t" by (auto simp: claimContentId_def digest_def res_simps)
  have "list_all (\<lambda>c. \<not> js_white c) ''truyn:claim:''" by (simp add: js_white_def)
  moreover have "list_all (\<lambda>c. \<not> js_white c) (sha256 p t)" using law by (auto simp: list_all_iff hex_solid)
  ultimately have "list_all (\<lambda>c. \<not> js_white c) cid" unfolding t list_all_append by blast
  then show "trim (str_of (get claim ''claimId'')) = str_of (get claim ''claimId'')" "get claim ''claimId'' \<noteq> JStr []"
    using cid(2) t by (simp_all add: trim_solid)
qed

text \<open>
  An issuer's revocation is final: once the revocation that the issuer of a valid claim creates
  for it is among the revocations, at any position, the active assessment of the claim is
  \<open>revoked\<close>, whatever attestations, certificates, disputes and policy come with it.
\<close>

theorem trust_revocation_effective:
  assumes law: "\<forall>t. list_all is_hex (sha256 p t)" "\<forall>t. date_iso p t \<noteq> []" and keys: "key_pair p (privateKeyPem i) (publicKeyPem i)"
    and claim: "verifyClaim p claim = Inr x" "nodeId i = get claim ''issuedBy''"
    and v: "createTrustRevocation p i (JStr ''claim'') (get claim ''claimId'') why revokedAt = Inr v" and mem: "v \<in> set revs"
  shows "assessActiveTrust p claim as certs revs disputes authorized rp policy now maxAge maxSkew = Some (Inr (revoked_assessment claim (length as))) \<and>
    get (revoked_assessment claim (length as)) ''lifecycleStatus'' = JStr ''revoked''"
proof -
  have id: "JStr (trim (str_of (get claim ''claimId''))) = get claim ''claimId''"
    using claim_id_solid(1)[OF law(1) claim(1)] verifyClaim_id[OF claim(1)] by simp
  from v have s: "signObject p ''trust-revoke'' TRUST_REVOCATION_PROTOCOL i
      [(''targetType'', JStr ''claim''), (''targetId'', get claim ''claimId''), (''reasonDigest'', trimmed_or_null why)] ''revokedAt'' revokedAt = Inr v"
    by (auto simp: createTrustRevocation_def id split: if_splits)
  note f = signObject_verifies[OF law(2) keys _ s]
  obtain n where n: "JStr n = nodeId i" using s by (auto simp: signObject_def require_identity_def res_simps)
  have "strict_eq (get v ''signerNodeId'') (get claim ''issuedBy'') \<and> get (get v ''body'') ''targetType'' = JStr ''claim'' \<and>
    strict_eq (get (get v ''body'') ''targetId'') (get claim ''claimId'') \<and> accepted (verifyTrustRevocation p v)"
    using f n[symmetric] claim(2) strict_eq_prim(1)[of "str_of (get claim ''claimId'')" "get claim ''claimId''", unfolded verifyClaim_id[OF claim(1)]]
    by (auto simp: verifyTrustRevocation_def js_simps)
  then have "revokedByIssuer p ''claim'' (get claim ''claimId'') (get claim ''issuedBy'') revs"
    using mem by (auto simp: revokedByIssuer_def validRevocations_def list_ex_iff)
  with claim(1) show ?thesis by (simp add: assessActiveTrust_def revoked_assessment_def)
qed

section \<open>A claim on a small platform\<close>

text \<open>A platform with a constant digest, on which whole assessments can be followed: the theorems applied to it assume nothing of the digest.\<close>

definition tiny_platform :: platform where
  "tiny_platform = sample_platform\<lparr>sha256 := (\<lambda>s. ''0'')\<rparr>"

definition tiny_identity :: identity where
  "tiny_identity = \<lparr>nodeId = JStr ''truyn:node:0'', publicKeyPem = JStr ''K'', privateKeyPem = JStr ''S''\<rparr>"

definition tiny_claim :: jsval where
  "tiny_claim = JObj (claim_signed (JStr ''truyn:claim:0'') (JObj [(''protocol'', JStr CLAIM_PROTOCOL), (''version'', JNum 1), (''domain'', JStr ''health''),
       (''statement'', JStr ''water boils''), (''subject'', JNull), (''basis'', JNull), (''qualifiers'', JObj [])])
     (JStr ''truyn:node:0'') (JStr ''T0'') @ [(''publicKey'', JStr ''K''), (''signature'', JStr sample_signature)])"

definition tiny_body :: "string \<Rightarrow> entries" where
  "tiny_body origin = [(''protocol'', JStr ATTEST_PROTOCOL), (''version'', JNum 1),
     (''claimId'', JStr ''truyn:claim:0''), (''verdict'', JStr ''support''), (''domain'', JStr ''health''), (''method'', JStr ''review''),
     (''evidence'', JArr [JObj [(''kind'', JStr ''source''), (''sourceId'', JStr ''s''), (''contentDigest'', JStr ''d''), (''parentSourceIds'', JArr [])]]),
     (''lineage'', JObj [(''originIds'', JArr [JStr origin]), (''publisherIds'', JArr []), (''generatorIds'', JArr []), (''parentAttestationIds'', JArr [])]),
     (''rationaleDigest'', JNull)]"

definition tiny_attestation :: "string \<Rightarrow> jsval" where
  "tiny_attestation origin = JObj (attestation_signed (JStr ''truyn:attest:0'') (JObj (tiny_body origin)) (JStr ''truyn:node:0'') (JStr ''T0'') @
     [(''publicKey'', JStr ''K''), (''signature'', JStr sample_signature)])"

definition tiny_certificate :: jsval where
  "tiny_certificate = JObj (certificate_signed (JStr ''truyn:lineage:0'') (JObj
     [(''protocol'', JStr LINEAGE_CERT_PROTOCOL), (''version'', JNum 1), (''sourceCommitment'', JStr ''sha256:0''),
      (''ownerNodeId'', JStr ''truyn:node:0''), (''originCommitments'', JArr [JStr ''sha256:0'']), (''publisherCommitments'', JArr []),
      (''generatorCommitments'', JArr []), (''parentCertificateIds'', JArr [])]) (JStr ''T0'') (JStr ''T9'') @
     [(''publicKey'', JStr ''K''), (''signature'', JStr sample_signature)])"

lemma tiny_platform_sel [simp]:
  "sha256 tiny_platform s = ''0''" "nfkc tiny_platform = nfkc sample_platform" "date_parse tiny_platform = date_parse sample_platform"
  "lcmp tiny_platform = cmp_ascii" "date_iso tiny_platform = date_iso sample_platform"
  by (simp_all add: tiny_platform_def)

lemma tiny_identity_sel [simp]: "nodeId tiny_identity = JStr ''truyn:node:0''" "publicKeyPem tiny_identity = JStr ''K''" "privateKeyPem tiny_identity = JStr ''S''"
  by (simp_all add: tiny_identity_def)

lemma tiny_node [simp]: "nodeIdFromPublicKey tiny_platform (JStr k) = Inr ''truyn:node:0''"
  by (simp add: nodeIdFromPublicKey_def fingerprint_of_def platform_call_def tiny_platform_def)

lemma tiny_identity_ok [simp]: "require_identity tiny_platform x y tiny_identity = Inr ()"
  by (simp add: require_identity_def)

lemma tiny_digest: "assertCanonicalJsonValue v = Inr () \<Longrightarrow> digest tiny_platform v = Inr ''sha256:0''"
  by (auto simp: digest_def canonicalize_total[of v tiny_platform])

lemma tiny_verify: "assertCanonicalJsonValue v = Inr () \<Longrightarrow> verifyValue tiny_platform v (JStr sample_signature) k = Inr True"
  by (auto simp: verifyValue_def platform_call_def canonicalize_total[of v tiny_platform] tiny_platform_def sample_platform_def)

lemma tiny_sign: "assertCanonicalJsonValue v = Inr () \<Longrightarrow> signValue tiny_platform v k = Inr sample_signature"
  by (auto simp: signValue_def platform_call_def canonicalize_total[of v tiny_platform] tiny_platform_def)

lemma sample_signature_nonempty [simp]: "sample_signature \<noteq> []"
  by (simp add: sample_signature_def)

lemma tiny_verifyClaim: "verifyClaim tiny_platform tiny_claim = Inr (JStr ''truyn:claim:0'')"
proof -
  let ?b = "get tiny_claim ''body''"
  have b: "claim_body tiny_platform ?b = Inr ?b" by code_simp
  have c: "assertCanonicalJsonValue ?b = Inr ()" by (simp add: tiny_claim_def claim_signed_def)
  then obtain t where "canonicalize tiny_platform ?b = Inr t" using canonicalize_total by blast
  then show ?thesis using b tiny_digest[OF c]
    by (simp add: verifyClaim_def claimContentId_def oget_def tiny_claim_def claim_signed_def tiny_verify)
qed

lemma tiny_verify_body:
  assumes b: "normalized_attestation_body tiny_platform (JObj (tiny_body origin)) = Inr (JObj (tiny_body origin))"
  shows "verifyAttestation tiny_platform ''truyn:claim:0'' (tiny_attestation origin) = Inr (JStr ''truyn:attest:0'')"
proof -
  have c: "assertCanonicalJsonValue (JObj (tiny_body origin)) = Inr ()"
    "assertCanonicalJsonValue (JObj (tiny_body origin @ [(''attesterNodeId'', JStr ''truyn:node:0'')])) = Inr ()" by (simp_all add: tiny_body_def)
  then obtain t where t: "canonicalize tiny_platform (JObj (tiny_body origin)) = Inr t" using canonicalize_total by blast
  have g: "get (tiny_attestation origin) ''body'' = JObj (tiny_body origin)" "jmap_get (tiny_body origin) ''claimId'' = Some (JStr ''truyn:claim:0'')"
    "jmap_get (tiny_body origin) ''verdict'' = Some (JStr ''support'')" "get (tiny_attestation origin) ''attestationId'' = JStr ''truyn:attest:0''"
    "get (tiny_attestation origin) ''attesterNodeId'' = JStr ''truyn:node:0''" "get (tiny_attestation origin) ''createdAt'' = JStr ''T0''"
    "get (tiny_attestation origin) ''publicKey'' = JStr ''K''" "get (tiny_attestation origin) ''signature'' = JStr sample_signature" "\<not> nullish (tiny_attestation origin)"
    by (simp_all add: tiny_attestation_def attestation_signed_def tiny_body_def)
  have "assertCanonicalJsonValue (JObj (attestation_signed (JStr ''truyn:attest:0'') (JObj (tiny_body origin)) (JStr ''truyn:node:0'') (JStr ''T0''))) = Inr ()"
    by (simp add: attestation_signed_def tiny_body_def)
  note s = tiny_verify[OF this]
  show ?thesis using b t s tiny_digest[OF c(2)] by (simp add: verifyAttestation_def attestation_id_def oget_def g ATTEST_VERDICTS_def Let_def)
qed

lemma tiny_verifyAttestation:
  "verifyAttestation tiny_platform ''truyn:claim:0'' (tiny_attestation ''o'') = Inr (JStr ''truyn:attest:0'')"
  "verifyAttestation tiny_platform ''truyn:claim:0'' (tiny_attestation ''q'') = Inr (JStr ''truyn:attest:0'')"
  by (rule tiny_verify_body, code_simp)+

lemma tiny_certificate_valid: "verifyLineageCertificate tiny_platform 1 False tiny_certificate = Inr (JStr ''truyn:lineage:0'')"
proof -
  have d: "sample_date_parse ''T0'' = Some 0" "sample_date_parse ''T9'' = Some 9" by code_simp+
  show ?thesis by (simp add: verifyLineageCertificate_def oget_def tiny_certificate_def certificate_signed_def tiny_verify placement_id_def tiny_digest caught_def d Let_def LINEAGE_CERT_PROTOCOL_def)
qed

lemma tiny_certificateIndex: "certificateIndex tiny_platform [tiny_certificate] [] 1 = [(JStr ''sha256:0'', tiny_certificate)]"
  by (simp add: certificateIndex_def active_certificate_def tiny_certificate_valid revokedByIssuer_def validRevocations_def)
    (simp add: tiny_certificate_def certificate_signed_def)

lemma tiny_standing:
  "standing tiny_platform tiny_claim [(JStr ''sha256:0'', tiny_certificate)] [] 1 5 5 (tiny_attestation ''o'') = Inr Active"
  "standing tiny_platform tiny_claim [(JStr ''sha256:0'', tiny_certificate)] [] 1 5 5 (tiny_attestation ''q'') = Inr Active"
proof -
  have d: "sample_date_parse ''T0'' = Some 0" by code_simp
  have c: "get tiny_claim ''claimId'' = JStr ''truyn:claim:0''" by (simp add: tiny_claim_def claim_signed_def)
  have l: "sourceLineageCommitment tiny_platform v = Inr ''sha256:0''" for v by (simp add: sourceLineageCommitment_def tiny_digest)
  have n: "normalizeStringList (JArr [JStr ''o'']) 64 = [''o'']" "normalizeStringList (JArr [JStr ''q'']) 64 = [''q'']" "normalizeStringList (JArr []) 64 = []" by code_simp+
  have g: "get (tiny_attestation x) ''body'' = JObj (tiny_body x)" "get (tiny_attestation x) ''createdAt'' = JStr ''T0''" for x
    by (simp_all add: tiny_attestation_def attestation_signed_def)
  have "declaredLineageIsCertified tiny_platform (tiny_attestation x) [(JStr ''sha256:0'', tiny_certificate)] = Inr True" if "x \<in> {''o'', ''q''}" for x
    using that by (auto simp: declaredLineageIsCertified_def source_certificates_def g tiny_body_def l n certified_in_def declared_ids_def flat_member_def
      tiny_certificate_def certificate_signed_def)
  then show "standing tiny_platform tiny_claim [(JStr ''sha256:0'', tiny_certificate)] [] 1 5 5 (tiny_attestation ''o'') = Inr Active"
    "standing tiny_platform tiny_claim [(JStr ''sha256:0'', tiny_certificate)] [] 1 5 5 (tiny_attestation ''q'') = Inr Active"
    by (simp_all add: standing_def c tiny_verifyAttestation revokedByIssuer_def validRevocations_def g d)
qed

lemma tiny_group:
  assumes "x \<in> {''o'', ''q''}"
  shows "normalized_group tiny_platform [tiny_attestation x] = Inr (JObj [(''groupId'', JStr ''sha256:0''), (''knownLineage'', JBool True),
    (''verdict'', JStr ''support''), (''memberCount'', JNum 1), (''attesterCount'', JNum 1), (''originCount'', JNum 1), (''publisherCount'', JNum 0),
    (''generatorCount'', JNum 0), (''attestationIds'', JArr [JStr ''truyn:attest:0''])])"
  using assms by (auto simp: normalized_group_def dot_def tiny_attestation_def attestation_signed_def tiny_body_def member_ids_def lineage_of_def text_sort_def js_sort_def
    tiny_digest group_verdict_def known_lineage_def unique_def oget_def Let_def)

lemma tiny_independence:
  "\<exists>ind. analyzeAttestationIndependence tiny_platform (JArr [tiny_attestation ''o'', tiny_attestation ''q'']) = Some (Inr ind) \<and>
    assertCanonicalJsonValue ind = Inr () \<and> get ind ''supportGroups'' = JNum 2 \<and> get ind ''contradictGroups'' = JNum 0 \<and> get ind ''mixedGroups'' = JNum 0 \<and>
    get ind ''independentKnownGroups'' = JNum 2"
proof -
  let ?as = "[tiny_attestation ''o'', tiny_attestation ''q'']"
  have t: "lineageTokens tiny_platform (tiny_attestation ''o'') = Inr [''origin:o'']" "lineageTokens tiny_platform (tiny_attestation ''q'') = Inr [''origin:q'']"
    by code_simp+
  have r: "group_roots [[''origin:o''], [''origin:q'']] = Some [0, 1]" by code_simp
  show ?thesis using tiny_group[of "''o''"] tiny_group[of "''q''"] r
    by (simp add: analyzeAttestationIndependence_def t r independence_def count_verdict_def js_sort_def Let_def)
qed

lemma assert_sorted [simp]: "assert_items xs = Inr () \<Longrightarrow> assert_items (js_sort cmp xs) = Inr ()"
  by (simp add: assert_items_iff)

lemma tiny_graph:
  "\<exists>g. buildProvenanceGraph tiny_platform tiny_claim (JArr [tiny_attestation ''o'', tiny_attestation ''q'']) = Some (Inr g) \<and>
    (\<exists>ind. analyzeAttestationIndependence tiny_platform (JArr [tiny_attestation ''o'', tiny_attestation ''q'']) = Some (Inr ind) \<and> get g ''independence'' = ind)"
proof -
  obtain ind where i: "analyzeAttestationIndependence tiny_platform (JArr [tiny_attestation ''o'', tiny_attestation ''q'']) = Some (Inr ind)"
    "assertCanonicalJsonValue ind = Inr ()" using tiny_independence by blast
  have c: "get tiny_claim ''claimId'' = JStr ''truyn:claim:0''" by (simp add: tiny_claim_def claim_signed_def)
  have d: "digest tiny_platform (get tiny_claim ''body'') = Inr ''sha256:0''" by (rule tiny_digest) (simp add: tiny_claim_def claim_signed_def)
  have g: "get (tiny_attestation x) ''body'' = JObj (tiny_body x)" "get (tiny_attestation x) ''attestationId'' = JStr ''truyn:attest:0''"
    "get (tiny_attestation x) ''attesterNodeId'' = JStr ''truyn:node:0''" for x by (simp_all add: tiny_attestation_def attestation_signed_def)
  have b: "jmap_get (tiny_body x) ''verdict'' = Some (JStr ''support'')" "jmap_get (tiny_body x) ''evidence'' =
      Some (JArr [JObj [(''kind'', JStr ''source''), (''sourceId'', JStr ''s''), (''contentDigest'', JStr ''d''), (''parentSourceIds'', JArr [])]])"
    "jmap_get (tiny_body x) ''lineage'' = Some (JObj [(''originIds'', JArr [JStr x]), (''publisherIds'', JArr []), (''generatorIds'', JArr []), (''parentAttestationIds'', JArr [])])"
    for x by (simp_all add: tiny_body_def)
  have d2: "digest tiny_platform (JObj (tiny_body x)) = Inr ''sha256:0''" for x by (rule tiny_digest) (simp add: tiny_body_def)
  show ?thesis unfolding buildProvenanceGraph_def tiny_verifyClaim d
    by (simp add: i add_attestation_def c tiny_verifyAttestation g d2 Let_def add_evidence_def source_node_id_def tiny_digest add_source_def add_edge_def
      oget_def verdict_edge_def graph_edge_def b)
qed

lemma tiny_assessment:
  "\<exists>a. assessClaimEvidence tiny_platform tiny_claim (JArr [tiny_attestation ''o'', tiny_attestation ''q'']) JUndef (JObj []) = Some (Inr a) \<and>
     get (get a ''truthAssessment'') ''status'' = JStr ''verified''"
proof -
  have c: "get tiny_claim ''claimId'' = JStr ''truyn:claim:0''" "get (get tiny_claim ''body'') ''basis'' = JNull" by (simp_all add: tiny_claim_def claim_signed_def)
  have p: "normalizePolicy (JObj []) = Inr (JObj [(''version'', JNum 1), (''minIndependentSupport'', JNum 2), (''maxContradictForVerified'', JNum 0), (''requireKnownLineage'', JBool True)])"
    by (simp add: normalizePolicy_def policy_integer_def Let_def)
  obtain g ind where g: "buildProvenanceGraph tiny_platform tiny_claim (JArr [tiny_attestation ''o'', tiny_attestation ''q'']) = Some (Inr g)"
    "analyzeAttestationIndependence tiny_platform (JArr [tiny_attestation ''o'', tiny_attestation ''q'']) = Some (Inr ind)" "get g ''independence'' = ind" using tiny_graph by blast
  with tiny_independence have "get ind ''supportGroups'' = JNum 2" "get ind ''contradictGroups'' = JNum 0" "get ind ''mixedGroups'' = JNum 0"
    "get ind ''independentKnownGroups'' = JNum 2" by auto
  then show ?thesis
    by (simp add: assessClaimEvidence_def tiny_verifyClaim c tiny_verifyAttestation p verifyRetrievalBinding_def g truth_assessment_def evidence_status_def Let_def)
qed

theorem trust_verified_independent_witness:
  "\<exists>I. independent_support tiny_platform tiny_claim [tiny_attestation ''o'', tiny_attestation ''q''] I \<and> 2 \<le> card I"
proof -
  obtain a where a: "assessClaimEvidence tiny_platform tiny_claim (JArr [tiny_attestation ''o'', tiny_attestation ''q'']) JUndef (JObj []) = Some (Inr a)"
    "get (get a ''truthAssessment'') ''status'' = JStr ''verified''" using tiny_assessment by blast
  show ?thesis using trust_verified_independent[OF a] by (simp add: policy_integer_def)
qed

lemma tiny_active:
  "\<exists>r. assessActiveTrust tiny_platform tiny_claim [tiny_attestation ''o'', tiny_attestation ''q''] [tiny_certificate] [] [] [] JUndef (JObj []) 1 5 5 = Some (Inr r) \<and>
     get r ''lifecycleStatus'' = JStr ''verified''"
proof -
  obtain a where "assessClaimEvidence tiny_platform tiny_claim (JArr [tiny_attestation ''o'', tiny_attestation ''q'']) JUndef (JObj []) = Some (Inr a)"
    "get (get a ''truthAssessment'') ''status'' = JStr ''verified''" using tiny_assessment by blast
  then show ?thesis
    by (simp add: assessActiveTrust_def tiny_verifyClaim revokedByIssuer_def validRevocations_def tiny_certificateIndex tiny_standing
      lifecycle_outcome_def valid_disputes_def count_standing_def Let_def)
qed

theorem active_trust_sound_witness:
  "\<exists>active I. independent_support tiny_platform tiny_claim active I \<and> 2 \<le> card I \<and>
     (\<forall>a\<in>set active. declaredLineageIsCertified tiny_platform a (certificateIndex tiny_platform [tiny_certificate] [] 1) = Inr True)"
proof -
  obtain r where r: "assessActiveTrust tiny_platform tiny_claim [tiny_attestation ''o'', tiny_attestation ''q''] [tiny_certificate] [] [] [] JUndef (JObj []) 1 5 5 = Some (Inr r)"
    "get r ''lifecycleStatus'' = JStr ''verified''" using tiny_active by blast
  from active_trust_sound[OF r] show ?thesis by (auto simp: policy_integer_def)
qed

theorem trust_revocation_issuer_only_witness:
  "let v = JObj [(''signerNodeId'', JStr ''stranger'')] in
     \<exists>r. assessActiveTrust tiny_platform tiny_claim [tiny_attestation ''o'', tiny_attestation ''q''] [tiny_certificate] [v] [] [] JUndef (JObj []) 1 5 5 = Some (Inr r) \<and>
       get r ''lifecycleStatus'' = JStr ''verified''"
proof -
  let ?v = "JObj [(''signerNodeId'', JStr ''stranger'')]"
  have "assessActiveTrust tiny_platform tiny_claim [tiny_attestation ''o'', tiny_attestation ''q''] [tiny_certificate] ([] @ ?v # []) [] [] JUndef (JObj []) 1 5 5 =
    assessActiveTrust tiny_platform tiny_claim [tiny_attestation ''o'', tiny_attestation ''q''] [tiny_certificate] ([] @ []) [] [] JUndef (JObj []) 1 5 5"
    by (rule trust_revocation_issuer_only)
      (simp_all add: tiny_claim_def claim_signed_def tiny_attestation_def attestation_signed_def tiny_certificate_def certificate_signed_def)
  with tiny_active show ?thesis by (simp add: Let_def)
qed

lemma tiny_key_pair: "key_pair tiny_platform sk pk"
  using sample_key_pair[of sk pk] by (simp add: key_pair_def tiny_platform_def)

lemma tiny_assessment_empty:
  "\<exists>a. assessClaimEvidence tiny_platform tiny_claim (JArr []) JUndef (JObj []) = Some (Inr a) \<and>
     (\<forall>k\<in>{''retrievalIntegrity'', ''truthAssessment'', ''policy'', ''provenanceGraphDigest''}. assertCanonicalJsonValue (get a k) = Inr ())"
proof -
  have c: "get tiny_claim ''claimId'' = JStr ''truyn:claim:0''" "get (get tiny_claim ''body'') ''basis'' = JNull" by (simp_all add: tiny_claim_def claim_signed_def)
  have d: "digest tiny_platform (get tiny_claim ''body'') = Inr ''sha256:0''" by (rule tiny_digest) (simp add: tiny_claim_def claim_signed_def)
  have p: "normalizePolicy (JObj []) = Inr (JObj [(''version'', JNum 1), (''minIndependentSupport'', JNum 2), (''maxContradictForVerified'', JNum 0), (''requireKnownLineage'', JBool True)])"
    by (simp add: normalizePolicy_def policy_integer_def Let_def)
  have r: "group_roots [] = Some []" by code_simp
  have i: "analyzeAttestationIndependence tiny_platform (JArr []) = Some (Inr (independence tiny_platform [] 0))"
    by (simp add: analyzeAttestationIndependence_def r)
  show ?thesis unfolding assessClaimEvidence_def buildProvenanceGraph_def tiny_verifyClaim d
    by (simp add: c p verifyRetrievalBinding_def i independence_def count_verdict_def js_sort_def tiny_digest truth_assessment_def evidence_status_def
      evidence_balance_def Let_def)
qed

theorem trust_receipt_roundtrip_witness:
  "\<exists>r s. createTrustReceipt tiny_platform tiny_identity tiny_claim (JArr []) JUndef (JObj []) (JStr ''t'') = Some (Inr r) \<and>
     verifyTrustReceipt tiny_platform ''truyn:claim:0'' r = Inr (get r ''receiptId'', s)"
proof -
  obtain a where a: "assessClaimEvidence tiny_platform tiny_claim (JArr []) JUndef (JObj []) = Some (Inr a)"
    "\<forall>k\<in>{''retrievalIntegrity'', ''truthAssessment'', ''policy'', ''provenanceGraphDigest''}. assertCanonicalJsonValue (get a k) = Inr ()"
    using tiny_assessment_empty by blast
  have cd: "claimDigest tiny_platform tiny_claim = Inr ''sha256:0''" unfolding claimDigest_def by (rule tiny_digest) (simp add: tiny_claim_def claim_signed_def oget_def)
  have c: "get tiny_claim ''claimId'' = JStr ''truyn:claim:0''" by (simp add: tiny_claim_def claim_signed_def)
  obtain r where r: "createTrustReceipt tiny_platform tiny_identity tiny_claim (JArr []) JUndef (JObj []) (JStr ''t'') = Some (Inr r)"
    using a by (simp add: createTrustReceipt_def receipt_payload_def cd c sign_receipt_def receipt_id_def tiny_digest receipt_signed_def tiny_sign
      js_sort_def TRUST_RECEIPT_PROTOCOL_def Let_def)
  show ?thesis using trust_receipt_roundtrip[OF tiny_key_pair _ r] r by (auto simp: c)
qed

theorem trust_revocation_effective_witness:
  "\<exists>v. createTrustRevocation tiny_platform tiny_identity (JStr ''claim'') (JStr ''truyn:claim:0'') JNull (JStr ''T0'') = Inr v \<and>
     assessActiveTrust tiny_platform tiny_claim [tiny_attestation ''o''] [] [v] [] [] JUndef (JObj []) 1 5 5 = Some (Inr (revoked_assessment tiny_claim 1))"
proof -
  have c: "get tiny_claim ''claimId'' = JStr ''truyn:claim:0''" "nodeId tiny_identity = get tiny_claim ''issuedBy''"
    by (simp_all add: tiny_claim_def claim_signed_def)
  have t: "normalizeIso tiny_platform (JStr ''T0'') ''revokedAt'' = Inr ''T0''" "trim ''truyn:claim:0'' = ''truyn:claim:0''" by code_simp+
  obtain v where v: "createTrustRevocation tiny_platform tiny_identity (JStr ''claim'') (get tiny_claim ''claimId'') JNull (JStr ''T0'') = Inr v"
    by (simp add: createTrustRevocation_def c(1) nonblank_def t trimmed_or_null_def signObject_def object_id_def tiny_digest tiny_sign
      object_signed_def TRUST_REVOCATION_PROTOCOL_def Let_def)
  have hex: "\<forall>t. list_all is_hex (sha256 tiny_platform t)" by (simp add: is_hex_def is_digit_def)
  have iso: "\<forall>t. date_iso tiny_platform t \<noteq> []" by (simp add: sample_date_iso_def sample_iso_def)
  have "assessActiveTrust tiny_platform tiny_claim [tiny_attestation ''o''] [] [v] [] [] JUndef (JObj []) 1 5 5 =
    Some (Inr (revoked_assessment tiny_claim (length [tiny_attestation ''o''])))"
    using trust_revocation_effective[OF hex iso tiny_key_pair tiny_verifyClaim c(2) v, of "[v]" "[tiny_attestation ''o'']"] by auto
  with v show ?thesis by (auto simp: c(1))
qed

end
