(* ===== verification/Peer_Sessions.thy ===== *)
theory Peer_Sessions
  imports Negotiation Placement
begin

text \<open>
  Authenticated peer sessions (\<^verbatim>\<open>network/sessions/authenticated-session.js\<close>): the signed HELLO and ACCEPT
  with their version negotiation, the session identifier and the replay cache. Shown: a handshake of
  two honest ends completes and both hold the same agreement; an ACCEPT is bound to one HELLO and
  to the highest generation both ends signed for; how long the replay cache refuses a repeated
  HELLO, exactly.
\<close>

section \<open>The replay cache\<close>

text \<open>The limit is a count (10000 unless configured); the entries are in insertion order.\<close>

record replay_cache =
  rc_maxEntries :: nat
  rc_entries :: "string list"

definition replay_add :: "string \<Rightarrow> replay_cache \<Rightarrow> replay_cache" where
  "replay_add v c = (let es = (if v \<in> set (rc_entries c) then rc_entries c else rc_entries c @ [v]) in
     c\<lparr>rc_entries := drop (length es - rc_maxEntries c) es\<rparr>)"

section \<open>HELLO\<close>

definition PEER_SESSION_PROTOCOL :: string where
  "PEER_SESSION_PROTOCOL = ''truyn-peer-session-v1''"

definition DEFAULT_MAX_SKEW_MS :: int where
  "DEFAULT_MAX_SKEW_MS = 30000"

definition unsignedHello :: "jsval \<Rightarrow> jsval" where
  "unsignedHello hello = without [''signature''] hello"

definition validateTimestamp :: "platform \<Rightarrow> jsval \<Rightarrow> int \<Rightarrow> int \<Rightarrow> bool" where
  "validateTimestamp p v now maxSkewMs = (case date_parse p (to_string p v) of None \<Rightarrow> False | Some t \<Rightarrow> \<bar>now - t\<bar> \<le> maxSkewMs)"

definition advertised :: "jsval \<Rightarrow> string \<Rightarrow> jsval result" where
  "advertised vs name = (if \<not> is_array vs \<or> list_ex (\<lambda>v. \<not> nonblank v) (elems vs) then Inl (Err (''invalid '' @ name))
     else Inr (JArr (map JStr (js_sort cmp_ascii (unique (map str_of (elems vs)))))))"

text \<open>A refusal: a reason, or an object with the code \<^verbatim>\<open>version_mismatch\<close>.\<close>

datatype session_refusal = Reason string | Version negotiation

fun refusal_reason :: "session_refusal \<Rightarrow> string" where
  "refusal_reason (Reason s) = s"
| "refusal_reason (Version (Refused s)) = s"
| "refusal_reason (Version (Lacking _ _)) = ''required_semantic_unavailable''"
| "refusal_reason (Version (Agreed _ _)) = []"

text \<open>What an end supports and requires; the three are arrays of its configuration.\<close>

record session_side =
  ss_protocols :: "jsval list"
  ss_semantics :: "jsval list"
  ss_required :: "jsval list"

definition bad_advertisement :: "jsval \<Rightarrow> bool" where
  "bad_advertisement v \<longleftrightarrow> \<not> is_array v \<or> list_ex (\<lambda>x. \<not> nonblank x) (elems v)"

definition or_default :: "jsval \<Rightarrow> jsval list \<Rightarrow> jsval" where
  "or_default v dflt = (if nullish v then JArr dflt else v)"

definition side :: "jsval \<Rightarrow> jsval \<Rightarrow> offer_side" where
  "side ps ss = \<lparr>protocols = ps, semantics = ss, semanticsByProtocol = JUndef\<rparr>"

definition decideSessionProtocol :: "platform \<Rightarrow> session_side \<Rightarrow> jsval \<Rightarrow> negotiation" where
  "decideSessionProtocol p l hello =
     (if \<exists>k\<in>set [''protocols'', ''semantics'', ''requiredSemantics'']. get hello k \<noteq> JUndef \<and> bad_advertisement (get hello k)
        then Refused ''invalid_advertisement''
      else negotiateProtocol p (side (JArr (ss_protocols l)) (JArr (ss_semantics l)))
        (side (or_default (get hello ''protocols'') [JStr PROTOCOL]) (or_default (get hello ''semantics'') []))
        (JArr (unique (elems (or_default (get hello ''requiredSemantics'') []) @ ss_required l))))"

definition optional_member :: "string \<Rightarrow> jsval \<Rightarrow> entries result" where
  "optional_member name v = (if v = JUndef then Inr [] else rbind (advertised v name) (\<lambda>x. Inr [(name, x)]))"

definition hello_body :: "identity \<Rightarrow> jsval \<Rightarrow> jsval list \<Rightarrow> jsval \<Rightarrow> jsval \<Rightarrow> jsval \<Rightarrow> jsval \<Rightarrow> jsval \<Rightarrow> entries result" where
  "hello_body i transport endpoints ps ss req issuedAt nonce =
     rbind (optional_member ''protocols'' ps) (\<lambda>a. rbind (optional_member ''semantics'' ss) (\<lambda>b.
     rbind (optional_member ''requiredSemantics'' req) (\<lambda>c.
     Inr ([(''protocol'', JStr PEER_SESSION_PROTOCOL), (''kind'', JStr ''HELLO''), (''nodeId'', nodeId i), (''transport'', transport),
       (''endpoints'', JArr (map JStr (js_sort cmp_ascii (unique (map (trim \<circ> str_of) (filter nonblank endpoints)))))),
       (''nonce'', nonce), (''issuedAt'', issuedAt)] @ a @ b @ c))))"

definition sign_body :: "platform \<Rightarrow> identity \<Rightarrow> entries \<Rightarrow> jsval result" where
  "sign_body p i body = rbind (signValue p (JObj body) (privateKeyPem i)) (\<lambda>s.
     Inr (JObj (body @ [(''publicKey'', publicKeyPem i), (''signature'', JStr s)])))"

definition createSessionHello ::
  "platform \<Rightarrow> identity \<Rightarrow> jsval \<Rightarrow> jsval list \<Rightarrow> jsval \<Rightarrow> jsval \<Rightarrow> jsval \<Rightarrow> jsval \<Rightarrow> jsval \<Rightarrow> jsval result" where
  "createSessionHello p i transport endpoints ps ss req issuedAt nonce =
     rbind (require_identity p ''peer identity is required'' ''peer identity key mismatch'' i) (\<lambda>_.
     rbind (hello_body i transport endpoints ps ss req issuedAt nonce) (sign_body p i))"

definition sessionHandshakeBinding :: "platform \<Rightarrow> jsval \<Rightarrow> string result" where
  "sessionHandshakeBinding p hello =
     (if \<not> truthy hello \<or> get hello ''protocol'' \<noteq> JStr PEER_SESSION_PROTOCOL \<or> get hello ''kind'' \<noteq> JStr ''HELLO'' \<or>
         \<not> truthy (get hello ''nodeId'') \<or> \<not> truthy (get hello ''nonce'') then Inl (Err ''session hello is required for handshake binding'')
      else rbind (hash_value p (unsignedHello hello)) (\<lambda>d. Inr (''quic:hello:'' @ d)))"

definition replay_key :: "platform \<Rightarrow> jsval \<Rightarrow> string" where
  "replay_key p hello = to_string p (get hello ''nodeId'') @ '':'' @ to_string p (get hello ''nonce'')"

text \<open>The checks before the replay cache is asked.\<close>

definition hello_checks :: "platform \<Rightarrow> int \<Rightarrow> int \<Rightarrow> jsval \<Rightarrow> unit verdict" where
  "hello_checks p now maxSkewMs hello =
     (if \<not> truthy hello \<or> get hello ''protocol'' \<noteq> JStr PEER_SESSION_PROTOCOL \<or> get hello ''kind'' \<noteq> JStr ''HELLO'' then Inl ''session_hello_protocol''
      else if \<exists>k\<in>set [''nodeId'', ''publicKey'', ''signature'', ''nonce'', ''issuedAt'']. \<not> truthy (get hello k) then Inl ''session_hello_missing''
      else rbind (caught (nodeIdFromPublicKey p (get hello ''publicKey''))) (\<lambda>n.
      if JStr n \<noteq> get hello ''nodeId'' then Inl ''session_hello_key_mismatch''
      else if \<not> validateTimestamp p (get hello ''issuedAt'') now maxSkewMs then Inl ''session_hello_stale''
      else rbind (caught (verifyValue p (without [''publicKey'', ''signature''] hello) (get hello ''signature'') (get hello ''publicKey''))) (\<lambda>ok.
      if ok then Inr () else Inl ''session_hello_signature'')))"

text \<open>An accepted HELLO: its agreement; the cache, where there is one, has its key from then on.\<close>

definition verifySessionHello ::
  "platform \<Rightarrow> session_side \<Rightarrow> int \<Rightarrow> int \<Rightarrow> jsval \<Rightarrow> replay_cache option \<Rightarrow> (session_refusal + negotiation) \<times> replay_cache option" where
  "verifySessionHello p l now maxSkewMs hello cache =
     (case hello_checks p now maxSkewMs hello of Inl r \<Rightarrow> (Inl (Reason r), cache)
      | Inr _ \<Rightarrow>
         if (case cache of None \<Rightarrow> False | Some c \<Rightarrow> replay_key p hello \<in> set (rc_entries c)) then (Inl (Reason ''session_hello_replay''), cache)
         else (case decideSessionProtocol p l hello of
             Agreed s xs \<Rightarrow> (Inr (Agreed s xs), map_option (replay_add (replay_key p hello)) cache)
           | refused \<Rightarrow> (Inl (Version refused), cache)))"

section \<open>ACCEPT\<close>

definition accept_body :: "platform \<Rightarrow> identity \<Rightarrow> session_side \<Rightarrow> jsval \<Rightarrow> jsval \<Rightarrow> jsval \<Rightarrow> jsval \<Rightarrow> string \<Rightarrow> string list \<Rightarrow> entries result" where
  "accept_body p i l hello binding issuedAt nonce agreed sems =
     rbind (hash_value p (unsignedHello hello)) (\<lambda>d.
     rbind (advertised (JArr (ss_protocols l)) ''localProtocols'') (\<lambda>ps. rbind (advertised (JArr (ss_semantics l)) ''localSemantics'') (\<lambda>ss.
     Inr [(''protocol'', JStr PEER_SESSION_PROTOCOL), (''kind'', JStr ''ACCEPT''), (''nodeId'', nodeId i), (''peerNodeId'', get hello ''nodeId''),
       (''helloDigest'', JStr d), (''helloNonce'', get hello ''nonce''), (''nonce'', nonce), (''transport'', get hello ''transport''),
       (''transportBinding'', binding), (''issuedAt'', issuedAt), (''supportedProtocols'', ps), (''supportedSemantics'', ss),
       (''negotiatedProtocol'', JStr agreed), (''negotiatedSemantics'', JArr (map JStr sems))])))"

definition createSessionAccept ::
  "platform \<Rightarrow> identity \<Rightarrow> session_side \<Rightarrow> int \<Rightarrow> jsval \<Rightarrow> jsval \<Rightarrow> jsval \<Rightarrow> jsval \<Rightarrow> jsval result" where
  "createSessionAccept p i l now hello binding issuedAt nonce =
     rbind (require_identity p ''peer identity is required'' ''peer identity key mismatch'' i) (\<lambda>_.
     (case fst (verifySessionHello p l now DEFAULT_MAX_SKEW_MS hello None) of
        Inl r \<Rightarrow> Inl (Err (''invalid session hello: '' @ refusal_reason r))
      | Inr (Agreed s xs) \<Rightarrow>
          if \<not> truthy binding \<or> \<not> is_string binding then Inl (Err ''transportBinding is required'')
          else rbind (accept_body p i l hello binding issuedAt nonce s xs) (sign_body p i)
      | Inr _ \<Rightarrow> Inl (Err [])))"

definition accept_checks :: "platform \<Rightarrow> int \<Rightarrow> int \<Rightarrow> jsval \<Rightarrow> jsval \<Rightarrow> jsval \<Rightarrow> unit verdict" where
  "accept_checks p now maxSkewMs expected accept hello =
     (if \<not> truthy accept \<or> get accept ''protocol'' \<noteq> JStr PEER_SESSION_PROTOCOL \<or> get accept ''kind'' \<noteq> JStr ''ACCEPT'' then Inl ''session_accept_protocol''
      else if \<exists>k\<in>set [''nodeId'', ''peerNodeId'', ''publicKey'', ''signature'']. \<not> truthy (get accept k) then Inl ''session_accept_missing''
      else rbind (caught (nodeIdFromPublicKey p (get accept ''publicKey''))) (\<lambda>n.
      if JStr n \<noteq> get accept ''nodeId'' then Inl ''session_accept_key_mismatch''
      else rbind (caught (dot hello ''nodeId'')) (\<lambda>hn.
      if \<not> strict_eq (get accept ''peerNodeId'') hn \<or> \<not> strict_eq (get accept ''helloNonce'') (get hello ''nonce'') then Inl ''session_accept_hello_mismatch''
      else rbind (caught (hash_value p (unsignedHello hello))) (\<lambda>d.
      if get accept ''helloDigest'' \<noteq> JStr d then Inl ''session_accept_digest_mismatch''
      else if truthy expected \<and> \<not> strict_eq (get accept ''transportBinding'') expected then Inl ''session_accept_transport_binding''
      else if \<not> validateTimestamp p (get accept ''issuedAt'') now maxSkewMs then Inl ''session_accept_stale''
      else rbind (caught (verifyValue p (without [''publicKey'', ''signature''] accept) (get accept ''signature'') (get accept ''publicKey''))) (\<lambda>ok.
      if ok then Inr () else Inl ''session_accept_signature'')))))"

definition generation_name :: "jsval \<Rightarrow> bool" where
  "generation_name v \<longleftrightarrow> is_string v \<and> take 6 (str_of v) = ''TRUYN/'' \<and> drop 6 (str_of v) \<noteq> [] \<and> list_all is_digit (drop 6 (str_of v))"

text \<open>\<^verbatim>\<open>v?.length ?? 0\<close> of an array or a text.\<close>

fun js_length :: "jsval \<Rightarrow> nat" where
  "js_length (JArr xs) = length xs"
| "js_length (JStr s) = length s"
| "js_length _ = 0"

text \<open>The semantics of an ACCEPT are texts here, so their JSON texts agree exactly when they do.\<close>

definition accept_negotiation :: "platform \<Rightarrow> session_side \<Rightarrow> jsval \<Rightarrow> jsval \<Rightarrow> negotiation" where
  "accept_negotiation p l accept hello =
     (if (\<exists>k\<in>set [''supportedProtocols'', ''supportedSemantics'', ''negotiatedSemantics'']. has_own accept k \<and> bad_advertisement (get accept k)) \<or>
         (has_own accept ''negotiatedProtocol'' \<and> \<not> generation_name (get accept ''negotiatedProtocol'')) then Refused ''invalid_advertisement''
      else (case negotiateProtocol p (side (JArr (ss_protocols l)) (JArr (ss_semantics l)))
               (side (or_default (get accept ''supportedProtocols'') [JStr PROTOCOL]) (or_default (get accept ''supportedSemantics'') []))
               (or_default (get hello ''requiredSemantics'') []) of
          Agreed s xs \<Rightarrow>
            if get accept ''negotiatedProtocol'' = JUndef
            then (if s \<noteq> PROTOCOL \<or> xs \<noteq> [] \<or> js_length (get hello ''requiredSemantics'') > 0 \<or>
                    (\<exists>k\<in>set [''supportedProtocols'', ''supportedSemantics'', ''negotiatedSemantics'']. has_own accept k)
                  then Refused ''missing_negotiation'' else Agreed s xs)
            else if get accept ''negotiatedProtocol'' \<noteq> JStr s \<or> get accept ''negotiatedSemantics'' \<noteq> JArr (map JStr xs)
            then Refused ''negotiation_mismatch'' else Agreed s xs
        | refused \<Rightarrow> refused))"

definition verifySessionAccept ::
  "platform \<Rightarrow> session_side \<Rightarrow> int \<Rightarrow> int \<Rightarrow> jsval \<Rightarrow> jsval \<Rightarrow> jsval \<Rightarrow> session_refusal + (jsval \<times> negotiation)" where
  "verifySessionAccept p l now maxSkewMs expected accept hello =
     (case accept_checks p now maxSkewMs expected accept hello of Inl r \<Rightarrow> Inl (Reason r)
      | Inr _ \<Rightarrow> (case accept_negotiation p l accept hello of
          Agreed s xs \<Rightarrow> Inr (get accept ''nodeId'', Agreed s xs)
        | refused \<Rightarrow> Inl (Version refused)))"

definition sessionId :: "platform \<Rightarrow> jsval \<Rightarrow> jsval \<Rightarrow> string result" where
  "sessionId p hello accept =
     rbind (hash_value p (JObj [(''helloNodeId'', get hello ''nodeId''), (''acceptNodeId'', get accept ''nodeId''), (''helloNonce'', get hello ''nonce''),
       (''acceptNonce'', get accept ''nonce''), (''transportBinding'', get accept ''transportBinding'')])) (\<lambda>d. Inr (''truyn:session:'' @ d))"

section \<open>How long a HELLO is refused\<close>

text \<open>A sequence of verifications on one cache, with the number of those that accepted.\<close>

fun hello_run :: "platform \<Rightarrow> session_side \<Rightarrow> int \<Rightarrow> (int \<times> jsval) list \<Rightarrow> replay_cache \<Rightarrow> nat \<times> replay_cache" where
  "hello_run p l skew [] c = (0, c)"
| "hello_run p l skew ((now, h) # qs) c = (case verifySessionHello p l now skew h (Some c) of
      (Inr _, Some c') \<Rightarrow> (let (n, c2) = hello_run p l skew qs c' in (Suc n, c2))
    | _ \<Rightarrow> hello_run p l skew qs c)"

lemma verifySessionHello_cases:
  assumes "verifySessionHello p l now skew h (Some c) = (r, c')"
  shows "(\<exists>a. r = Inr a \<and> replay_key p h \<notin> set (rc_entries c) \<and> c' = Some (replay_add (replay_key p h) c)) \<or> (\<exists>e. r = Inl e \<and> c' = Some c)"
  using assms by (auto simp: verifySessionHello_def split: sum.splits if_splits negotiation.splits)

lemma replay_add_fresh:
  "v \<notin> set (rc_entries c) \<Longrightarrow> rc_entries (replay_add v c) = drop (Suc (length (rc_entries c)) - rc_maxEntries c) (rc_entries c @ [v])"
  "rc_maxEntries (replay_add v c) = rc_maxEntries c"
  by (simp_all add: replay_add_def Let_def)

lemma replay_add_keeps:
  assumes "v \<notin> set (rc_entries c)" "rc_entries c = pre @ k # post" "Suc (length post) < rc_maxEntries c"
  shows "\<exists>pre'. rc_entries (replay_add v c) = pre' @ k # post @ [v]"
proof -
  let ?d = "Suc (length (rc_entries c)) - rc_maxEntries c"
  have "?d \<le> length pre" using assms(2,3) by simp
  then have "rc_entries (replay_add v c) = drop ?d pre @ k # post @ [v]" by (simp add: replay_add_fresh(1)[OF assms(1)] assms(2))
  then show ?thesis by blast
qed

lemma replay_add_evicts:
  assumes "v \<notin> set (rc_entries c)" "rc_entries c = pre @ k # post" "Suc (length post) = rc_maxEntries c"
  shows "rc_entries (replay_add v c) = post @ [v]"
  using assms(3) by (simp add: replay_add_fresh(1)[OF assms(1)] assms(2))

lemma replay_add_distinct: "distinct (rc_entries c) \<Longrightarrow> distinct (rc_entries (replay_add v c))"
  by (auto simp: replay_add_def Let_def intro!: distinct_drop)

lemma hello_run_keeps:
  assumes "hello_run p l skew qs c = (n, c2)" "rc_entries c = pre @ k # post" "length post + n < rc_maxEntries c"
  shows "k \<in> set (rc_entries c2)"
  using assms
proof (induction qs arbitrary: c n pre post)
  case (Cons q qs)
  obtain now h where q: "q = (now, h)" by (cases q)
  obtain r c' where v: "verifySessionHello p l now skew h (Some c) = (r, c')" by (cases "verifySessionHello p l now skew h (Some c)")
  from verifySessionHello_cases[OF v] show ?case
  proof (elim disjE exE conjE)
    fix a assume r: "r = Inr a" and new: "replay_key p h \<notin> set (rc_entries c)" and c': "c' = Some (replay_add (replay_key p h) c)"
    from Cons.prems(1) obtain m where m: "hello_run p l skew qs (replay_add (replay_key p h) c) = (m, c2)" "n = Suc m"
      by (auto simp: q v r c' split: prod.splits)
    with Cons.prems(3) have "Suc (length post) < rc_maxEntries c" by simp
    from replay_add_keeps[OF new Cons.prems(2) this] obtain pre' where
      "rc_entries (replay_add (replay_key p h) c) = pre' @ k # post @ [replay_key p h]" by blast
    from Cons.IH[OF m(1) this] Cons.prems(3) m(2) show ?thesis by (simp add: replay_add_fresh(2))
  next
    fix e assume "r = Inl e" "c' = Some c"
    with Cons.prems(1) have "hello_run p l skew qs c = (n, c2)" by (simp add: q v)
    from Cons.IH[OF this Cons.prems(2,3)] show ?thesis .
  qed
qed simp

lemma hello_run_none: "hello_run p l skew qs c = (0, c2) \<Longrightarrow> c2 = c"
proof (induction qs arbitrary: c)
  case (Cons q qs)
  obtain now h where q: "q = (now, h)" by (cases q)
  obtain r c' where v: "verifySessionHello p l now skew h (Some c) = (r, c')" by (cases "verifySessionHello p l now skew h (Some c)")
  from Cons verifySessionHello_cases[OF v] show ?case by (auto simp: q v split: prod.splits)
qed simp

lemma hello_run_evicts:
  assumes "hello_run p l skew qs c = (n, c2)" "distinct (rc_entries c)" "rc_entries c = pre @ k # post" "length post + n = rc_maxEntries c" "0 < n"
  shows "k \<notin> set (rc_entries c2)"
  using assms
proof (induction qs arbitrary: c n pre post)
  case (Cons q qs)
  obtain now h where q: "q = (now, h)" by (cases q)
  obtain r c' where v: "verifySessionHello p l now skew h (Some c) = (r, c')" by (cases "verifySessionHello p l now skew h (Some c)")
  from verifySessionHello_cases[OF v] show ?case
  proof (elim disjE exE conjE)
    fix a assume r: "r = Inr a" and new: "replay_key p h \<notin> set (rc_entries c)" and c': "c' = Some (replay_add (replay_key p h) c)"
    let ?c = "replay_add (replay_key p h) c"
    from Cons.prems(1) obtain m where m: "hello_run p l skew qs ?c = (m, c2)" "n = Suc m"
      by (auto simp: q v r c' split: prod.splits)
    have d: "distinct (rc_entries ?c)" by (rule replay_add_distinct[OF Cons.prems(2)])
    show ?thesis
    proof (cases "m = 0")
      case True
      with m have "c2 = ?c" using hello_run_none by blast
      moreover have "rc_entries ?c = post @ [replay_key p h]"
        by (rule replay_add_evicts[OF new Cons.prems(3)]) (use Cons.prems(4) m(2) True in simp)
      moreover have "k \<notin> set post" "k \<noteq> replay_key p h" using Cons.prems(2,3) new by auto
      ultimately show ?thesis by simp
    next
      case False
      with Cons.prems(4) m(2) have "Suc (length post) < rc_maxEntries c" by simp
      from replay_add_keeps[OF new Cons.prems(3) this] obtain pre' where "rc_entries ?c = pre' @ k # post @ [replay_key p h]" by blast
      from Cons.IH[OF m(1) d this] Cons.prems(4) m(2) False show ?thesis by (simp add: replay_add_fresh(2))
    qed
  next
    fix e assume "r = Inl e" "c' = Some c"
    with Cons.prems(1) have "hello_run p l skew qs c = (n, c2)" by (simp add: q v)
    from Cons.IH[OF this Cons.prems(2-5)] show ?thesis .
  qed
qed simp

text \<open>
  C37. The replay cache refuses a HELLO exactly while fewer than \<^verbatim>\<open>maxEntries\<close> others were accepted after it.
  Take a HELLO that was accepted, then any verifications of any HELLOs at any times, and the same
  HELLO again, still within the clock skew: if fewer were accepted in between it is refused as a
  replay, and when exactly \<^verbatim>\<open>maxEntries\<close> were accepted it is accepted a second time.
\<close>

theorem session_replay_exact:
  assumes c: "distinct (rc_entries c)" "0 < rc_maxEntries c"
    and h: "verifySessionHello p l now skew h (Some c) = (Inr a, Some c1)"
    and run: "hello_run p l skew qs c1 = (n, c2)" and valid: "hello_checks p now' skew h = Inr ()"
  shows "(n < rc_maxEntries c \<longrightarrow> verifySessionHello p l now' skew h (Some c2) = (Inl (Reason ''session_hello_replay''), Some c2)) \<and>
    (n = rc_maxEntries c \<longrightarrow> (\<exists>c3. verifySessionHello p l now' skew h (Some c2) = (Inr a, Some c3)))"
proof -
  let ?k = "replay_key p h"
  from verifySessionHello_cases[OF h] have new: "?k \<notin> set (rc_entries c)" and c1: "c1 = replay_add ?k c" by auto
  have d: "distinct (rc_entries c1)" "rc_maxEntries c1 = rc_maxEntries c" unfolding c1 by (simp_all add: replay_add_distinct[OF c(1)] replay_add_fresh)
  have "\<exists>pre. rc_entries c1 = pre @ ?k # []"
    using c(2) by (simp add: c1 replay_add_fresh(1)[OF new] Suc_diff_le)
  then obtain pre where e: "rc_entries c1 = pre @ ?k # []" by blast
  from h have dec: "\<exists>s xs. decideSessionProtocol p l h = Agreed s xs \<and> a = Agreed s xs"
    by (cases "decideSessionProtocol p l h") (auto simp: verifySessionHello_def split: sum.splits if_splits)
  have "n < rc_maxEntries c \<Longrightarrow> ?k \<in> set (rc_entries c2)" using hello_run_keeps[OF run e] d(2) by simp
  moreover have "n = rc_maxEntries c \<Longrightarrow> ?k \<notin> set (rc_entries c2)" using hello_run_evicts[OF run d(1) e] d(2) c(2) by simp
  ultimately show ?thesis using valid dec by (auto simp: verifySessionHello_def)
qed

section \<open>What an ACCEPT is bound to\<close>

lemma accept_checks_ok:
  assumes "accept_checks p now skew e accept hello = Inr ()"
  obtains n t where "nodeIdFromPublicKey p (get accept ''publicKey'') = Inr n" "get accept ''nodeId'' = JStr n"
    "strict_eq (get accept ''peerNodeId'') (get hello ''nodeId'')" "strict_eq (get accept ''helloNonce'') (get hello ''nonce'')"
    "canonicalize p (unsignedHello hello) = Inr t" "get accept ''helloDigest'' = JStr (sha256 p t)"
    "truthy e \<longrightarrow> strict_eq (get accept ''transportBinding'') e"
    "verifyValue p (without [''publicKey'', ''signature''] accept) (get accept ''signature'') (get accept ''publicKey'') = Inr True"
  using assms unfolding accept_checks_def
  by (auto simp: res_simps caught_def hash_value_def dot_def split: sum.splits if_splits)

lemma accept_negotiation_ok:
  assumes "accept_negotiation p l accept hello = Agreed s xs"
  shows "negotiateProtocol p (side (JArr (ss_protocols l)) (JArr (ss_semantics l)))
      (side (or_default (get accept ''supportedProtocols'') [JStr PROTOCOL]) (or_default (get accept ''supportedSemantics'') []))
      (or_default (get hello ''requiredSemantics'') []) = Agreed s xs"
  using assms unfolding accept_negotiation_def
  by (auto split: if_splits negotiation.splits)


section \<open>A handshake completes\<close>

lemma uniqueStrings_set: "set (uniqueStrings v) = (trim \<circ> str_of) ` {x \<in> set (elems v). nonblank x}"
  by (auto simp: uniqueStrings_def)

lemma advertised_ok:
  assumes "advertised v name = Inr w"
  shows "\<not> bad_advertisement w" "set (uniqueStrings w) = set (uniqueStrings v)" "w \<noteq> JUndef" "\<not> nullish w"
proof -
  from assms have v: "\<forall>x\<in>set (elems v). nonblank x" and w: "w = JArr (map JStr (js_sort cmp_ascii (unique (map str_of (elems v)))))"
    by (auto simp: advertised_def list_ex_iff split: if_splits)
  have txt_eq: "JStr (str_of x) = x" if "nonblank x" for x using that by (cases x) (auto simp: nonblank_def)
  then have el: "set (elems w) = set (elems v)" using v by (force simp: w)
  with v show "\<not> bad_advertisement w" by (simp add: bad_advertisement_def list_ex_iff) (simp add: w)
  from el show "set (uniqueStrings w) = set (uniqueStrings v)" by (simp add: uniqueStrings_set)
  show "w \<noteq> JUndef" "\<not> nullish w" by (simp_all add: w)
qed

lemma negotiate_again:
  assumes n: "negotiateProtocol p l r req = Agreed s xs"
    and flat: "semanticsByProtocol l = JUndef" "semanticsByProtocol r = JUndef" "semanticsByProtocol l' = JUndef" "semanticsByProtocol r' = JUndef"
    and same: "set (uniqueStrings (protocols l')) = set (uniqueStrings (protocols l))" "set (uniqueStrings (protocols r')) = set (uniqueStrings (protocols r))"
      "set (uniqueStrings (semantics l')) = set (uniqueStrings (semantics l))" "set (uniqueStrings (semantics r')) = set (uniqueStrings (semantics r))"
    and req: "set (uniqueStrings req') \<subseteq> set (uniqueStrings req)"
  shows "negotiateProtocol p l' r' req' = Agreed s xs"
proof -
  let ?c = "common_protocols p (uniqueStrings (protocols l)) (uniqueStrings (protocols r))"
    and ?c' = "common_protocols p (uniqueStrings (protocols l')) (uniqueStrings (protocols r'))"
  from n obtain ss where c: "?c = s # ss" by (auto simp: negotiateProtocol_def Let_def split: list.splits if_splits)
  have "set ?c' = set ?c" by (simp add: common_protocols_set same)
  with c obtain s' ss' where c': "?c' = s' # ss'" by (cases ?c') auto
  note m = common_protocols_max[OF uniqueStrings_distinct c] and m' = common_protocols_max[OF uniqueStrings_distinct c', unfolded same]
  from m m' have "protocolGeneration s' = protocolGeneration s" by (intro antisym) blast+
  with m' have "s' = s" using protocolGeneration_inj by blast
  moreover have "js_sort cmp_ascii (filter (\<lambda>x. x \<in> set (uniqueStrings (semantics r'))) (uniqueStrings (semantics l'))) =
      js_sort cmp_ascii (filter (\<lambda>x. x \<in> set (uniqueStrings (semantics r))) (uniqueStrings (semantics l)))"
    by (rule js_sort_ascii_unique) (auto simp: same)
  ultimately show ?thesis using n c c' req unfolding negotiateProtocol_def Let_def flat
    by (auto simp: filter_empty_conv same split: if_splits)
qed

lemma without_signed: "''publicKey'' \<notin> fst ` set b \<Longrightarrow> ''signature'' \<notin> fst ` set b \<Longrightarrow>
    without [''publicKey'', ''signature''] (JObj (b @ [(''publicKey'', k), (''signature'', s)])) = JObj b"
  by (force simp: filter_id_conv)

lemma sign_body_ok:
  assumes "sign_body p i b = Inr v" "key_pair p (privateKeyPem i) (publicKeyPem i)" "''publicKey'' \<notin> fst ` set b" "''signature'' \<notin> fst ` set b"
  shows "verifyValue p (without [''publicKey'', ''signature''] v) (get v ''signature'') (get v ''publicKey'') = Inr True"
    "truthy (get v ''signature'')" "get v ''publicKey'' = publicKeyPem i" "truthy v"
    "\<forall>k. k \<notin> {''publicKey'', ''signature''} \<longrightarrow> get v k = get (JObj b) k" "\<forall>k. has_own v k \<longrightarrow> k \<in> {''publicKey'', ''signature''} \<or> has_own (JObj b) k"
proof -
  from assms(1) obtain s where s: "signValue p (JObj b) (privateKeyPem i) = Inr s" and v: "v = JObj (b @ [(''publicKey'', publicKeyPem i), (''signature'', JStr s)])"
    by (auto simp: sign_body_def res_simps)
  have fresh: "map_of b ''publicKey'' = None" "map_of b ''signature'' = None" using assms(3,4) by (simp_all add: map_of_eq_None_iff)
  have g: "get v ''signature'' = JStr s" "get v ''publicKey'' = publicKeyPem i" by (simp_all add: v fresh map_add_def)
  then show "get v ''publicKey'' = publicKeyPem i" "truthy (get v ''signature'')" "truthy v"
    using signed_nonempty(1)[OF assms(2) s] by (simp_all add: v)
  show "verifyValue p (without [''publicKey'', ''signature''] v) (get v ''signature'') (get v ''publicKey'') = Inr True"
    using signed_nonempty(2)[OF assms(2) s] unfolding g unfolding v without_signed[OF assms(3,4)] .
  show "\<forall>k. k \<notin> {''publicKey'', ''signature''} \<longrightarrow> get v k = get (JObj b) k" by (auto simp: v map_add_def split: option.splits)
  show "\<forall>k. has_own v k \<longrightarrow> k \<in> {''publicKey'', ''signature''} \<or> has_own (JObj b) k" by (auto simp: v)
qed

text \<open>The HELLO offers what its sender supports.\<close>

definition hello_offers :: "session_side \<Rightarrow> jsval \<Rightarrow> bool" where
  "hello_offers l hello \<longleftrightarrow> set (uniqueStrings (or_default (get hello ''protocols'') [JStr PROTOCOL])) = set (uniqueStrings (JArr (ss_protocols l))) \<and>
     set (uniqueStrings (or_default (get hello ''semantics'') [])) = set (uniqueStrings (JArr (ss_semantics l)))"

lemma created_hello:
  assumes h: "createSessionHello p i transport endpoints (JArr (ss_protocols l)) (JArr (ss_semantics l)) (JArr (ss_required l)) issuedAt nonce = Inr hello"
  shows "hello_offers l hello" "get hello ''nonce'' = nonce" "\<not> nullish hello"
proof -
  from h obtain ps ss rs s where "advertised (JArr (ss_protocols l)) ''protocols'' = Inr ps" "advertised (JArr (ss_semantics l)) ''semantics'' = Inr ss"
    and g: "get hello ''protocols'' = ps" "get hello ''semantics'' = ss" "get hello ''nonce'' = nonce" "\<not> nullish hello"
    by (auto simp: createSessionHello_def hello_body_def optional_member_def sign_body_def res_simps)
  then show "hello_offers l hello" "get hello ''nonce'' = nonce" "\<not> nullish hello"
    using advertised_ok by (simp_all add: hello_offers_def or_default_def)
qed

lemma uniqueStrings_solid: "x \<in> set (uniqueStrings v) \<Longrightarrow> trim x \<noteq> []"
  unfolding uniqueStrings_set by (elim imageE) (auto simp: nonblank_def split: jsval.splits)

lemma agreed_texts:
  assumes "negotiateProtocol p l r req = Agreed s xs"
  shows "\<not> bad_advertisement (JArr (map JStr xs))" "generation_name (JStr s)"
proof -
  have "set xs \<subseteq> set (uniqueStrings (if semanticsByProtocol l \<noteq> JUndef \<or> semanticsByProtocol r \<noteq> JUndef then get (semanticsByProtocol l) s else semantics l))"
    using negotiation_agreement[OF assms] by (auto simp: Let_def)
  then have "\<forall>x\<in>set xs. trim x \<noteq> []" using uniqueStrings_solid by blast
  then show "\<not> bad_advertisement (JArr (map JStr xs))" by (auto simp: bad_advertisement_def list_ex_iff nonblank_def)
  show "generation_name (JStr s)"
    using negotiation_agreement[OF assms] by (auto simp: generation_name_def protocolGeneration_def simp del: drop_eq_Nil split: if_splits)
qed

lemma decide_agreed:
  assumes "decideSessionProtocol p r hello = Agreed s xs" "hello_offers l hello"
    and w: "set (uniqueStrings ps) = set (uniqueStrings (JArr (ss_protocols r)))" "set (uniqueStrings ss) = set (uniqueStrings (JArr (ss_semantics r)))"
  shows "negotiateProtocol p (side (JArr (ss_protocols l)) (JArr (ss_semantics l))) (side ps ss) (or_default (get hello ''requiredSemantics'') []) = Agreed s xs"
proof -
  let ?req = "JArr (unique (elems (or_default (get hello ''requiredSemantics'') []) @ ss_required r))"
  have n: "negotiateProtocol p (side (JArr (ss_protocols r)) (JArr (ss_semantics r)))
      (side (or_default (get hello ''protocols'') [JStr PROTOCOL]) (or_default (get hello ''semantics'') [])) ?req = Agreed s xs"
    using assms(1) by (auto simp: decideSessionProtocol_def split: if_splits)
  show ?thesis
    by (rule negotiate_again[OF n[unfolded negotiation_symmetric[of p "side (JArr (ss_protocols r)) _"]]])
      (use assms(2) w in \<open>auto simp: side_def hello_offers_def uniqueStrings_set\<close>)
qed

lemma handshake_agrees:
  assumes keys: "key_pair p (privateKeyPem j) (publicKeyPem j)" and nonce: "is_string nonce"
    and h: "createSessionHello p i transport endpoints (JArr (ss_protocols l)) (JArr (ss_semantics l)) (JArr (ss_required l)) issuedAt nonce = Inr hello"
    and a: "createSessionAccept p j r now hello binding issuedAt' nonce' = Inr accept"
    and t: "validateTimestamp p issuedAt' now' skew" and e: "\<not> truthy expected \<or> expected = binding"
  shows "\<exists>agreed. fst (verifySessionHello p r now DEFAULT_MAX_SKEW_MS hello None) = Inr agreed \<and>
    verifySessionAccept p l now' skew expected accept hello = Inr (nodeId j, agreed)"
proof -
  note hello = created_hello[OF h]
  from a have "require_identity p ''peer identity is required'' ''peer identity key mismatch'' j = Inr ()" by (auto simp: createSessionAccept_def res_simps)
  then obtain n where n: "nodeIdFromPublicKey p (publicKeyPem j) = Inr n" "nodeId j = JStr n" "n \<noteq> []" "truthy (publicKeyPem j)" by (rule require_identity_ok)
  from a obtain s xs b where v: "fst (verifySessionHello p r now DEFAULT_MAX_SKEW_MS hello None) = Inr (Agreed s xs)" and bind: "truthy binding" "is_string binding"
    and b: "accept_body p j r hello binding issuedAt' nonce' s xs = Inr b" and sg: "sign_body p j b = Inr accept"
    by (auto simp: createSessionAccept_def res_simps split: sum.splits negotiation.splits if_splits)
  from v have dec: "decideSessionProtocol p r hello = Agreed s xs" and chk: "hello_checks p now DEFAULT_MAX_SKEW_MS hello = Inr ()"
    by (auto simp: verifySessionHello_def split: sum.splits negotiation.splits if_splits)
  from b obtain d ps ss where d: "hash_value p (unsignedHello hello) = Inr d"
    and ps: "advertised (JArr (ss_protocols r)) ''localProtocols'' = Inr ps" and ss: "advertised (JArr (ss_semantics r)) ''localSemantics'' = Inr ss"
    and bb: "b = [(''protocol'', JStr PEER_SESSION_PROTOCOL), (''kind'', JStr ''ACCEPT''), (''nodeId'', nodeId j), (''peerNodeId'', get hello ''nodeId''),
       (''helloDigest'', JStr d), (''helloNonce'', get hello ''nonce''), (''nonce'', nonce'), (''transport'', get hello ''transport''),
       (''transportBinding'', binding), (''issuedAt'', issuedAt'), (''supportedProtocols'', ps), (''supportedSemantics'', ss),
       (''negotiatedProtocol'', JStr s), (''negotiatedSemantics'', JArr (map JStr xs))]"
    by (auto simp: accept_body_def res_simps)
  have fresh: "''publicKey'' \<notin> fst ` set b" "''signature'' \<notin> fst ` set b" by (simp_all add: bb)
  note sb = sign_body_ok[OF sg keys fresh]
  have g: "get accept k = get (JObj b) k" if "k \<notin> {''publicKey'', ''signature''}" for k using sb(5) that by blast
  from chk obtain m where m: "get hello ''nodeId'' = JStr m" "m \<noteq> []"
    by (auto simp: hello_checks_def res_simps caught_def dest!: sym[of "JStr _"] split: if_splits sum.splits)
  obtain k where k: "nonce = JStr k" using nonce by (cases nonce) auto
  have "accept_checks p now' skew expected accept hello = Inr ()"
    using sb(1-4) n e t d m k hello bind unfolding accept_checks_def
    by (cases binding) (auto simp: g bb caught_def dot_def)
  moreover have "accept_negotiation p l accept hello = Agreed s xs"
    using decide_agreed[OF dec hello(1) advertised_ok(2)[OF ps] advertised_ok(2)[OF ss]] advertised_ok[OF ps] advertised_ok[OF ss] agreed_texts
    unfolding accept_negotiation_def by (auto simp: g bb or_default_def)
  ultimately show ?thesis using v n(2) by (auto simp: verifySessionAccept_def g bb)
qed

text \<open>
  A handshake of two honest ends completes. When the responder makes an ACCEPT for a HELLO that the
  initiator created from what it supports and requires, the initiator accepts it, at any time
  within the clock skew and for the binding it was made for, as coming from the responder; and
  both hold the same agreement: generation and semantics. A responder that requires more than
  the initiator knows of does not break this.
\<close>

theorem session_handshake_agrees:
  assumes keys: "key_pair p (privateKeyPem j) (publicKeyPem j)" and nonce: "is_string nonce"
    and h: "createSessionHello p i transport endpoints (JArr (ss_protocols l)) (JArr (ss_semantics l)) (JArr (ss_required l)) issuedAt nonce = Inr hello"
    and a: "createSessionAccept p j r now hello binding issuedAt' nonce' = Inr accept"
    and t: "validateTimestamp p issuedAt' now' skew" and e: "\<not> truthy expected \<or> expected = binding"
  shows "\<exists>agreed. fst (verifySessionHello p r now DEFAULT_MAX_SKEW_MS hello None) = Inr agreed \<and>
    verifySessionAccept p l now' skew expected accept hello = Inr (nodeId j, agreed)"
  using assms by (rule handshake_agrees)

section \<open>A handshake on the sample platform\<close>

definition sample_end :: session_side where
  "sample_end = \<lparr>ss_protocols = [JStr ''TRUYN/1''], ss_semantics = [JStr ''needs''], ss_required = []\<rparr>"

lemma holder_sel: "nodeId sample_holder = JStr ''truyn:node:4b''" "publicKeyPem sample_holder = JStr ''K''" "privateKeyPem sample_holder = JStr ''S''"
  by (simp_all add: sample_holder_def)

lemma sample_hello:
  "\<exists>hello. createSessionHello sample_platform sample_holder (JStr ''quic'') [] (JArr (ss_protocols sample_end)) (JArr (ss_semantics sample_end))
     (JArr (ss_required sample_end)) (JStr sample_iso) (JStr ''n'') = Inr hello \<and> hello_checks sample_platform sample_now 0 hello = Inr () \<and>
     hello_checks sample_platform sample_now DEFAULT_MAX_SKEW_MS hello = Inr () \<and>
     decideSessionProtocol sample_platform sample_end hello = Agreed ''TRUYN/1'' [''needs''] \<and> get hello ''transport'' = JStr ''quic'' \<and>
     get hello ''nodeId'' = JStr ''truyn:node:4b'' \<and> get hello ''nonce'' = JStr ''n'' \<and> assertCanonicalJsonValue (unsignedHello hello) = Inr ()"
proof -
  let ?b = "[(''protocol'', JStr PEER_SESSION_PROTOCOL), (''kind'', JStr ''HELLO''), (''nodeId'', JStr ''truyn:node:4b''), (''transport'', JStr ''quic''),
    (''endpoints'', JArr []), (''nonce'', JStr ''n''), (''issuedAt'', JStr sample_iso), (''protocols'', JArr [JStr ''TRUYN/1'']), (''semantics'', JArr [JStr ''needs'']),
    (''requiredSemantics'', JArr [])]"
  have b: "hello_body sample_holder (JStr ''quic'') [] (JArr (ss_protocols sample_end)) (JArr (ss_semantics sample_end)) (JArr (ss_required sample_end))
      (JStr sample_iso) (JStr ''n'') = Inr ?b" by code_simp
  have node: "nodeIdFromPublicKey sample_platform (JStr ''K'') = Inr ''truyn:node:4b''" by code_simp
  have canon: "assertCanonicalJsonValue (JObj ?b) = Inr ()" by (simp add: PEER_SESSION_PROTOCOL_def sample_iso_def)
  let ?h = "JObj (?b @ [(''publicKey'', JStr ''K''), (''signature'', JStr sample_signature)])"
  have h: "createSessionHello sample_platform sample_holder (JStr ''quic'') [] (JArr (ss_protocols sample_end)) (JArr (ss_semantics sample_end))
      (JArr (ss_required sample_end)) (JStr sample_iso) (JStr ''n'') = Inr ?h"
    using sample_signValue[OF canon] by (simp add: createSessionHello_def b sign_body_def require_identity_def holder_sel node)
  have t: "validateTimestamp sample_platform (JStr sample_iso) sample_now 0" "validateTimestamp sample_platform (JStr sample_iso) sample_now DEFAULT_MAX_SKEW_MS"
    by (simp_all add: validateTimestamp_def sample_date_parse_def DEFAULT_MAX_SKEW_MS_def)
  have "without [''publicKey'', ''signature''] ?h = JObj ?b" by (rule without_signed) simp_all
  then have "hello_checks sample_platform sample_now skew ?h = Inr ()" if "validateTimestamp sample_platform (JStr sample_iso) sample_now skew" for skew
    unfolding hello_checks_def using that node sample_verifyValue[OF canon] by (simp add: caught_def sample_iso_def sample_signature_def)
  moreover have "decideSessionProtocol sample_platform sample_end ?h = Agreed ''TRUYN/1'' [''needs'']" by code_simp
  moreover have "assertCanonicalJsonValue (unsignedHello ?h) = Inr ()" by (simp add: unsignedHello_def PEER_SESSION_PROTOCOL_def sample_iso_def)
  ultimately show ?thesis using h t by (intro exI[of _ ?h]) simp
qed

lemma sample_accept:
  "\<exists>hello accept. createSessionHello sample_platform sample_holder (JStr ''quic'') [] (JArr (ss_protocols sample_end)) (JArr (ss_semantics sample_end))
     (JArr (ss_required sample_end)) (JStr sample_iso) (JStr ''n'') = Inr hello \<and> hello_checks sample_platform sample_now 0 hello = Inr () \<and>
     decideSessionProtocol sample_platform sample_end hello = Agreed ''TRUYN/1'' [''needs''] \<and>
     createSessionAccept sample_platform sample_holder sample_end sample_now hello (JStr ''q'') (JStr sample_iso) (JStr ''m'') = Inr accept"
proof -
  obtain hello where h: "createSessionHello sample_platform sample_holder (JStr ''quic'') [] (JArr (ss_protocols sample_end)) (JArr (ss_semantics sample_end))
     (JArr (ss_required sample_end)) (JStr sample_iso) (JStr ''n'') = Inr hello" "hello_checks sample_platform sample_now 0 hello = Inr ()"
     "hello_checks sample_platform sample_now DEFAULT_MAX_SKEW_MS hello = Inr ()" "decideSessionProtocol sample_platform sample_end hello = Agreed ''TRUYN/1'' [''needs'']"
     "get hello ''transport'' = JStr ''quic''" "get hello ''nodeId'' = JStr ''truyn:node:4b''" "get hello ''nonce'' = JStr ''n''"
     "assertCanonicalJsonValue (unsignedHello hello) = Inr ()" using sample_hello by blast
  have node: "nodeIdFromPublicKey sample_platform (JStr ''K'') = Inr ''truyn:node:4b''" by code_simp
  obtain t where t: "canonicalize sample_platform (unsignedHello hello) = Inr t" using h(8) canonicalize_total by blast
  have adv: "advertised (JArr (ss_protocols sample_end)) ''localProtocols'' = Inr (JArr [JStr ''TRUYN/1''])"
    "advertised (JArr (ss_semantics sample_end)) ''localSemantics'' = Inr (JArr [JStr ''needs''])" by code_simp+
  have "\<exists>accept. createSessionAccept sample_platform sample_holder sample_end sample_now hello (JStr ''q'') (JStr sample_iso) (JStr ''m'') = Inr accept"
    using h by (simp add: createSessionAccept_def require_identity_def holder_sel node verifySessionHello_def accept_body_def hash_value_def t adv sign_body_def
      sample_signValue PEER_SESSION_PROTOCOL_def sample_iso_def)
  with h show ?thesis by blast
qed

theorem session_handshake_agrees_witness:
  "\<exists>hello accept agreed. createSessionAccept sample_platform sample_holder sample_end sample_now hello (JStr ''q'') (JStr sample_iso) (JStr ''m'') = Inr accept \<and>
     verifySessionAccept sample_platform sample_end sample_now 0 (JStr ''q'') accept hello = Inr (JStr ''truyn:node:4b'', agreed)"
proof -
  obtain hello accept where h: "createSessionHello sample_platform sample_holder (JStr ''quic'') [] (JArr (ss_protocols sample_end)) (JArr (ss_semantics sample_end))
     (JArr (ss_required sample_end)) (JStr sample_iso) (JStr ''n'') = Inr hello"
    and a: "createSessionAccept sample_platform sample_holder sample_end sample_now hello (JStr ''q'') (JStr sample_iso) (JStr ''m'') = Inr accept"
    using sample_accept by blast
  have t: "validateTimestamp sample_platform (JStr sample_iso) sample_now 0" by (simp add: validateTimestamp_def sample_date_parse_def)
  from session_handshake_agrees[OF sample_key_pair _ h a t, of "JStr ''q''"] a show ?thesis by (auto simp: holder_sel)
qed

lemma sample_accepted:
  "\<exists>hello accept s xs. verifySessionAccept sample_platform sample_end sample_now 0 (JStr ''q'') accept hello = Inr (JStr ''truyn:node:4b'', Agreed s xs)"
proof -
  obtain hello accept where h: "createSessionHello sample_platform sample_holder (JStr ''quic'') [] (JArr (ss_protocols sample_end)) (JArr (ss_semantics sample_end))
     (JArr (ss_required sample_end)) (JStr sample_iso) (JStr ''n'') = Inr hello"
    and a: "createSessionAccept sample_platform sample_holder sample_end sample_now hello (JStr ''q'') (JStr sample_iso) (JStr ''m'') = Inr accept"
    using sample_accept by blast
  have t: "validateTimestamp sample_platform (JStr sample_iso) sample_now 0" by (simp add: validateTimestamp_def sample_date_parse_def)
  from handshake_agrees[OF sample_key_pair _ h a t, of "JStr ''q''"] obtain g where
    g: "verifySessionAccept sample_platform sample_end sample_now 0 (JStr ''q'') accept hello = Inr (JStr ''truyn:node:4b'', g)" by (auto simp: holder_sel)
  then have "\<exists>s xs. g = Agreed s xs"
    by (cases "accept_checks sample_platform sample_now 0 (JStr ''q'') accept hello"; cases "accept_negotiation sample_platform sample_end accept hello")
      (auto simp: verifySessionAccept_def dest: sym)
  with g show ?thesis by blast
qed


theorem session_replay_exact_witness:
  "\<exists>h c2. hello_run sample_platform sample_end 0 [] c2 = (0, c2) \<and>
     verifySessionHello sample_platform sample_end sample_now 0 h (Some c2) = (Inl (Reason ''session_hello_replay''), Some c2)"
proof -
  obtain h where h: "hello_checks sample_platform sample_now 0 h = Inr ()" "decideSessionProtocol sample_platform sample_end h = Agreed ''TRUYN/1'' [''needs'']"
    using sample_accept by blast
  let ?c = "\<lparr>rc_maxEntries = 2, rc_entries = []\<rparr>"
  have v: "verifySessionHello sample_platform sample_end sample_now 0 h (Some ?c) = (Inr (Agreed ''TRUYN/1'' [''needs'']), Some (replay_add (replay_key sample_platform h) ?c))"
    using h by (simp add: verifySessionHello_def)
  from session_replay_exact[OF _ _ v _ h(1), of "[]" 0 "replay_add (replay_key sample_platform h) ?c"] show ?thesis by auto
qed

end
