(* ===== verification/Rate_Governor.thy ===== *)
theory Rate_Governor
  imports Protocol
begin

text \<open>
  The provider rate governor (\<^verbatim>\<open>adapters/providers/common/provider-rate-governor.js\<close>): parsing of retry
  headers, token buckets, admission delays and the retry loop of \<^verbatim>\<open>run\<close>, cut at its awaits and
  interleaved with any number of other calls on the same state. Shown: a call makes at most
  \<^verbatim>\<open>maxRetries + 1\<close> attempts, waits at most \<^verbatim>\<open>maxWaitMs\<close> and ends after a bounded number of steps;
  without a shared coordinator no attempt starts while its key cools down; with one it can.

  Arithmetic on numbers that need not be integers goes through \<open>fl\<close>, the rounding of doubles; the
  clock has whole milliseconds. Configured limits are large enough for \<^verbatim>\<open>perMinute / 60000\<close> not to
  underflow to zero.
\<close>

section \<open>Retry headers\<close>

text \<open>A \<^verbatim>\<open>Headers\<close> object answers \<^verbatim>\<open>get\<close> itself; of a plain object the first name that matches counts.\<close>

datatype headers = NoHeaders | HeadersObject "string \<Rightarrow> jsval" | PlainHeaders entries

fun headerValue :: "headers \<Rightarrow> string \<Rightarrow> jsval" where
  "headerValue NoHeaders name = JNull"
| "headerValue (HeadersObject f) name = f name"
| "headerValue (PlainHeaders kvs) name = (case filter (\<lambda>(k, v). to_lower k = name) kvs of [] \<Rightarrow> JNull | (k, v) # _ \<Rightarrow> if k = [] then JNull else v)"

text \<open>\<^verbatim>\<open>\d+(\.\d+)?\<close> from the start of a text: the number and what follows.\<close>

definition decimal_prefix :: "string \<Rightarrow> (rat \<times> string) option" where
  "decimal_prefix s = (let ds = takeWhile is_digit s; r = dropWhile is_digit s in
     if ds = [] then None
     else case r of
         c # r' \<Rightarrow> (let fs = takeWhile is_digit r' in
           if c = CHR ''.'' \<and> fs \<noteq> [] then Some (of_nat (text_nat ds) + of_nat (text_nat fs) / 10 ^ length fs, dropWhile is_digit r')
           else Some (of_nat (text_nat ds), r))
       | [] \<Rightarrow> Some (of_nat (text_nat ds), []))"

definition unit_prefix :: "string \<Rightarrow> (rat \<times> string) option" where
  "unit_prefix s = (if take 2 s = ''ms'' then Some (1, drop 2 s)
     else case s of [] \<Rightarrow> None
       | c # r \<Rightarrow> if c = CHR ''s'' then Some (1000, r) else if c = CHR ''m'' then Some (60000, r) else if c = CHR ''h'' then Some (3600000, r) else None)"

lemma decimal_prefix_shorter: "decimal_prefix s = Some (n, r) \<Longrightarrow> length r < length s"
proof -
  assume d: "decimal_prefix s = Some (n, r)"
  have s: "length s = length (takeWhile is_digit s) + length (dropWhile is_digit s)" by (metis length_append takeWhile_dropWhile_id)
  from d have "takeWhile is_digit s \<noteq> []" by (auto simp: decimal_prefix_def Let_def split: if_splits)
  moreover from d have "length r \<le> length (dropWhile is_digit s)"
    by (auto simp: decimal_prefix_def Let_def split: if_splits list.splits dest!: arg_cong[of _ _ length] intro: le_SucI length_dropWhile_le)
  ultimately show "length r < length s" using s by (cases "takeWhile is_digit s") auto
qed

lemma unit_prefix_shorter: "unit_prefix s = Some (n, r) \<Longrightarrow> length r \<le> length s"
  by (auto simp: unit_prefix_def split: if_splits list.splits)

text \<open>\<^verbatim>\<open>matchAll\<close> of amounts with units: each match starts after the last; the text before it is skipped.\<close>

function duration_parts :: "string \<Rightarrow> (rat \<times> rat) list" where
  "duration_parts [] = []"
| "duration_parts (c # cs) = (case decimal_prefix (c # cs) of None \<Rightarrow> duration_parts cs
     | Some (n, r) \<Rightarrow> (case unit_prefix r of None \<Rightarrow> duration_parts cs | Some (u, r') \<Rightarrow> (n, u) # duration_parts r'))"
  by pat_completeness auto

termination
  by (relation "measure length") (auto dest!: decimal_prefix_shorter unit_prefix_shorter)

definition parseDurationMs :: "(rat \<Rightarrow> rat) \<Rightarrow> platform \<Rightarrow> jsval \<Rightarrow> int option" where
  "parseDurationMs fl p raw =
     (if nullish raw then None
      else let t = to_lower (trim (to_string p raw)) in
        if t = [] then None
        else case decimal_prefix t of
            Some (n, []) \<Rightarrow> Some \<lceil>fl (fl n * 1000)\<rceil>
          | _ \<Rightarrow> (case duration_parts t of [] \<Rightarrow> None
              | ps \<Rightarrow> Some \<lceil>foldl (\<lambda>total (n, u). fl (total + fl (fl n * u))) 0 ps\<rceil>))"

text \<open>\<^verbatim>\<open>raw == null || String(raw).trim() === '' ? NaN : Number(raw)\<close>, when it is finite.\<close>

definition header_number :: "platform \<Rightarrow> jsval \<Rightarrow> rat option" where
  "header_number p raw = (if nullish raw \<or> trim (to_string p raw) = [] then None
     else case to_number p raw of JNum r \<Rightarrow> Some r | _ \<Rightarrow> None)"

definition reset_times :: "(rat \<Rightarrow> rat) \<Rightarrow> platform \<Rightarrow> headers \<Rightarrow> int list" where
  "reset_times fl p hs = List.map_filter (\<lambda>name. parseDurationMs fl p (headerValue hs name)) [''x-ratelimit-reset-requests'', ''x-ratelimit-reset-tokens'']"

definition max_of :: "int list \<Rightarrow> int option" where
  "max_of xs = (if xs = [] then None else Some (fold max (tl xs) (hd xs)))"

definition retryAfterMsFromHeaders :: "(rat \<Rightarrow> rat) \<Rightarrow> platform \<Rightarrow> headers \<Rightarrow> int \<Rightarrow> int option" where
  "retryAfterMsFromHeaders fl p hs now =
     (let ms = header_number p (headerValue hs ''retry-after-ms''); retryAfter = headerValue hs ''retry-after'' in
      if ms \<noteq> None \<and> the ms \<ge> 0 then Some \<lceil>the ms\<rceil>
      else if \<not> nullish retryAfter \<and> parseDurationMs fl p retryAfter \<noteq> None then parseDurationMs fl p retryAfter
      else if \<not> nullish retryAfter \<and> date_parse p (to_string p retryAfter) \<noteq> None
        then Some (max 0 (the (date_parse p (to_string p retryAfter)) - now))
      else max_of (reset_times fl p hs))"

section \<open>Token buckets\<close>

record bucket =
  bk_capacity :: rat
  bk_ratePerMs :: rat
  bk_tokens :: rat
  bk_updatedAt :: int

definition bucket_new :: "(rat \<Rightarrow> rat) \<Rightarrow> rat \<Rightarrow> int \<Rightarrow> bucket" where
  "bucket_new fl perMinute now = \<lparr>bk_capacity = perMinute, bk_ratePerMs = fl (perMinute / 60000), bk_tokens = perMinute, bk_updatedAt = now\<rparr>"

definition refill :: "(rat \<Rightarrow> rat) \<Rightarrow> int \<Rightarrow> bucket \<Rightarrow> bucket" where
  "refill fl now b = b\<lparr>bk_tokens := min (bk_capacity b) (fl (bk_tokens b + fl (of_int (now - bk_updatedAt b) * bk_ratePerMs b))), bk_updatedAt := now\<rparr>"

definition waitFor :: "(rat \<Rightarrow> rat) \<Rightarrow> rat \<Rightarrow> int \<Rightarrow> bucket \<Rightarrow> int \<times> bucket" where
  "waitFor fl amount now b = (let b' = refill fl now b; need = min amount (bk_capacity b') in
     (if bk_tokens b' \<ge> need then 0 else \<lceil>fl (fl (need - bk_tokens b') / bk_ratePerMs b')\<rceil>, b'))"

definition bucket_take :: "(rat \<Rightarrow> rat) \<Rightarrow> rat \<Rightarrow> int \<Rightarrow> bucket \<Rightarrow> bucket" where
  "bucket_take fl amount now b = (let b' = refill fl now b in b'\<lparr>bk_tokens := fl (bk_tokens b' - amount)\<rparr>)"

section \<open>Configuration\<close>

record governor_config =
  gc_rpm :: "rat option"
  gc_tpm :: "rat option"
  gc_maxRetries :: nat
  gc_maxWaitMs :: int
  gc_minRetryDelayMs :: int
  gc_fallbackRetryDelayMs :: int
  gc_maxFallbackRetryDelayMs :: int
  gc_jitterRatio :: rat
  gc_headerReserveRatio :: rat
  gc_admission :: bool
  gc_onThrottle :: bool

text \<open>The doubles 0.1 and 0.05.\<close>

definition tenth :: rat where
  "tenth = 3602879701896397 / 36028797018963968"

definition twentieth :: rat where
  "twentieth = 3602879701896397 / 72057594037927936"

definition DEFAULTS :: entries where
  "DEFAULTS = [(''rpm'', JNull), (''tpm'', JNull), (''maxRetries'', JNum 4), (''maxWaitMs'', JNum 45000), (''minRetryDelayMs'', JNum 50),
     (''fallbackRetryDelayMs'', JNum 1000), (''maxFallbackRetryDelayMs'', JNum 20000), (''jitterRatio'', JNum tenth), (''headerReserveRatio'', JNum twentieth)]"

definition config_value :: "jsval \<Rightarrow> string \<Rightarrow> jsval" where
  "config_value options k = (if has_own options k then get options k else get (JObj DEFAULTS) k)"

definition positiveNumberOrNull :: "jsval \<Rightarrow> string \<Rightarrow> rat option result" where
  "positiveNumberOrNull v name = (if nullish v then Inr None
     else if \<not> is_finite_num v \<or> num_of v \<le> 0 then Inl (Err (name @ '' must be a positive number or null'')) else Inr (Some (num_of v)))"

definition nonNegativeInteger :: "jsval \<Rightarrow> string \<Rightarrow> int \<Rightarrow> int result" where
  "nonNegativeInteger v name most = (if \<not> is_safe_integer v \<or> num_of v < 0 \<or> num_of v > of_int most
     then Inl (Err (name @ '' must be an integer 0..'' @ int_text most)) else Inr (int_of v))"

text \<open>A ratio may also be a value that converts to a number, as the comparisons convert it.\<close>

definition ratio :: "platform \<Rightarrow> jsval \<Rightarrow> (rat \<Rightarrow> bool) \<Rightarrow> string \<Rightarrow> rat result" where
  "ratio p v ok why = (case to_number p v of JNum r \<Rightarrow> if 0 \<le> r \<and> ok r then Inr r else Inl (Err why) | _ \<Rightarrow> Inl (Err why))"

definition optional_function :: "jsval \<Rightarrow> string \<Rightarrow> bool result" where
  "optional_function v name = (if nullish v then Inr False else if is_function v then Inr True else Inl (Err (name @ '' must be a function'')))"

definition createProviderRateGovernor :: "platform \<Rightarrow> jsval \<Rightarrow> governor_config result" where
  "createProviderRateGovernor p options =
     (let cv = config_value options in
      rbind (positiveNumberOrNull (cv ''rpm'') ''rpm'') (\<lambda>rpm.
      rbind (positiveNumberOrNull (cv ''tpm'') ''tpm'') (\<lambda>tpm.
      rbind (nonNegativeInteger (cv ''maxRetries'') ''maxRetries'' 16) (\<lambda>retries.
      rbind (nonNegativeInteger (cv ''maxWaitMs'') ''maxWaitMs'' 600000) (\<lambda>wait.
      rbind (ratio p (cv ''jitterRatio'') (\<lambda>r. r \<le> tenth) ''jitterRatio must be 0..0.1'') (\<lambda>jr.
      rbind (ratio p (cv ''headerReserveRatio'') (\<lambda>r. r < 1) ''headerReserveRatio must be 0..1'') (\<lambda>hr.
      rbind (nonNegativeInteger (cv ''minRetryDelayMs'') ''minRetryDelayMs'' 600000) (\<lambda>least.
      rbind (nonNegativeInteger (cv ''fallbackRetryDelayMs'') ''fallbackRetryDelayMs'' 600000) (\<lambda>fallback.
      rbind (nonNegativeInteger (cv ''maxFallbackRetryDelayMs'') ''maxFallbackRetryDelayMs'' 600000) (\<lambda>most.
      rbind (optional_function (cv ''admission'') ''admission'') (\<lambda>adm.
      rbind (optional_function (cv ''onThrottle'') ''onThrottle'') (\<lambda>thr.
      Inr \<lparr>gc_rpm = rpm, gc_tpm = tpm, gc_maxRetries = nat retries, gc_maxWaitMs = wait, gc_minRetryDelayMs = least, gc_fallbackRetryDelayMs = fallback,
        gc_maxFallbackRetryDelayMs = most, gc_jitterRatio = jr, gc_headerReserveRatio = hr, gc_admission = adm, gc_onThrottle = thr\<rparr>))))))))))))"

text \<open>From the environment of a worker: off unless switched on, and only the limits that are set.\<close>

definition env_number :: "platform \<Rightarrow> jsval \<Rightarrow> string \<Rightarrow> string \<Rightarrow> entries" where
  "env_number p env name opt = (let v = get env name in if nullish v \<or> v = JStr [] then [] else [(opt, to_number p v)])"

definition providerRateGovernorFromEnv :: "platform \<Rightarrow> jsval \<Rightarrow> governor_config option result" where
  "providerRateGovernorFromEnv p env =
     (if to_lower (if truthy (get env ''TRUYN_PROVIDER_GOVERNOR'') then to_string p (get env ''TRUYN_PROVIDER_GOVERNOR'') else []) \<notin> {''1'', ''true'', ''yes'', ''on''} then Inr None
      else rbind (createProviderRateGovernor p (JObj (env_number p env ''TRUYN_PROVIDER_RPM'' ''rpm'' @ env_number p env ''TRUYN_PROVIDER_TPM'' ''tpm'' @
        env_number p env ''TRUYN_PROVIDER_MAX_RETRIES'' ''maxRetries'' @ env_number p env ''TRUYN_PROVIDER_MAX_WAIT_MS'' ''maxWaitMs''))) (\<lambda>c. Inr (Some c)))"

section \<open>The state of a key\<close>

record key_state =
  ks_cooldownUntil :: int
  ks_rpm :: "bucket option"
  ks_tpm :: "bucket option"
  ks_headerTokens :: "rat option"
  ks_headerRequests :: "rat option"
  ks_headerResetAt :: int

definition key_new :: "(rat \<Rightarrow> rat) \<Rightarrow> governor_config \<Rightarrow> int \<Rightarrow> key_state" where
  "key_new fl c t = \<lparr>ks_cooldownUntil = 0, ks_rpm = map_option (\<lambda>r. bucket_new fl r t) (gc_rpm c), ks_tpm = map_option (\<lambda>r. bucket_new fl r t) (gc_tpm c),
     ks_headerTokens = None, ks_headerRequests = None, ks_headerResetAt = 0\<rparr>"

definition jitter :: "(rat \<Rightarrow> rat) \<Rightarrow> governor_config \<Rightarrow> rat \<Rightarrow> int \<Rightarrow> int" where
  "jitter fl c random ms = \<lceil>fl (of_int ms * fl (1 + fl (gc_jitterRatio c * random)))\<rceil>"

text \<open>The wait before a request may be sent; asking refills the buckets.\<close>

definition bucket_wait :: "(rat \<Rightarrow> rat) \<Rightarrow> rat \<Rightarrow> int \<Rightarrow> bucket option \<Rightarrow> int \<times> bucket option" where
  "bucket_wait fl amount t b = (case b of None \<Rightarrow> (0, None) | Some b \<Rightarrow> (let (w, b') = waitFor fl amount t b in (w, Some b')))"

definition header_wait :: "(rat \<Rightarrow> rat) \<Rightarrow> governor_config \<Rightarrow> rat \<Rightarrow> int \<Rightarrow> key_state \<Rightarrow> int" where
  "header_wait fl c tokens t s =
     (let reserve = (case gc_tpm c of None \<Rightarrow> 0 | Some tpm \<Rightarrow> fl (tpm * gc_headerReserveRatio c)) in
      if ks_headerResetAt s > t \<and>
         ((case ks_headerTokens s of None \<Rightarrow> False | Some n \<Rightarrow> fl (n - reserve) < tokens) \<or>
          (case ks_headerRequests s of None \<Rightarrow> False | Some n \<Rightarrow> n < 1))
      then ks_headerResetAt s - t else 0)"

definition admissionDelay :: "(rat \<Rightarrow> rat) \<Rightarrow> governor_config \<Rightarrow> rat \<Rightarrow> int \<Rightarrow> key_state \<Rightarrow> int \<times> key_state" where
  "admissionDelay fl c tokens t s =
     (let (w1, rpm) = bucket_wait fl 1 t (ks_rpm s); (w2, tpm) = bucket_wait fl tokens t (ks_tpm s);
          s' = s\<lparr>ks_rpm := rpm, ks_tpm := tpm\<rparr> in
      (max (max (max 0 (ks_cooldownUntil s - t)) (max w1 w2)) (header_wait fl c tokens t s'), s'))"

text \<open>An out-of-order response never raises a budget that is still active.\<close>

definition lower_budget :: "bool \<Rightarrow> rat option \<Rightarrow> rat option \<Rightarrow> rat option" where
  "lower_budget active old new = (case new of None \<Rightarrow> old
     | Some n \<Rightarrow> (case old of Some m \<Rightarrow> if active then Some (min m n) else Some n | None \<Rightarrow> Some n))"

definition observeHeaders :: "(rat \<Rightarrow> rat) \<Rightarrow> platform \<Rightarrow> headers \<Rightarrow> int \<Rightarrow> key_state \<Rightarrow> key_state" where
  "observeHeaders fl p hs t s =
     (let tokens = header_number p (headerValue hs ''x-ratelimit-remaining-tokens'');
          requests = header_number p (headerValue hs ''x-ratelimit-remaining-requests'');
          active = ks_headerResetAt s > t in
      if tokens = None \<and> requests = None then s
      else s\<lparr>ks_headerTokens := lower_budget active (ks_headerTokens s) tokens, ks_headerRequests := lower_budget active (ks_headerRequests s) requests,
        ks_headerResetAt := t + (case max_of (reset_times fl p hs) of None \<Rightarrow> 1000 | Some m \<Rightarrow> m)\<rparr>)"

text \<open>What an attempt takes from the buckets and the budget the headers told of.\<close>

definition take_budget :: "(rat \<Rightarrow> rat) \<Rightarrow> rat \<Rightarrow> int \<Rightarrow> key_state \<Rightarrow> key_state" where
  "take_budget fl tokens t s =
     (let s1 = s\<lparr>ks_rpm := map_option (bucket_take fl 1 t) (ks_rpm s), ks_tpm := map_option (bucket_take fl tokens t) (ks_tpm s)\<rparr> in
      if ks_headerResetAt s1 > t
      then s1\<lparr>ks_headerTokens := map_option (\<lambda>n. fl (n - tokens)) (ks_headerTokens s1), ks_headerRequests := map_option (\<lambda>n. fl (n - 1)) (ks_headerRequests s1)\<rparr>
      else s1)"

section \<open>The retry loop\<close>

text \<open>What ends a call with an error: the classified error with its hint, a cancellation, a bad answer of the coordinator, or what was thrown.\<close>

datatype gov_error = RateLimited rat nat | Cancelled | InvalidSharedWait | Thrown jserror

text \<open>Where a call is, at an await or between two; a call is at \<open>Looping\<close> when it enters the loop or continues it.\<close>

datatype gov_pc =
    Looping
  | Sleeping int int
  | Admitting int
  | Attempting
  | Draining headers
  | Notifying int
  | Returned
  | Failed gov_error

record gov_run =
  gr_key :: string
  gr_tokens :: rat
  gr_pc :: gov_pc
  gr_attempts :: nat
  gr_throttled :: nat
  gr_admissionWaitMs :: rat
  gr_retryWaitMs :: rat
  gr_lastRetryAfterMs :: "int option"

record gov_totals =
  gt_calls :: nat
  gt_attempts :: nat
  gt_throttled :: nat
  gt_rejected :: nat
  gt_admissionWaitMs :: rat
  gt_retryWaitMs :: rat

text \<open>A call acts on itself, the state of its key and the totals. Waits are whole milliseconds, so their sums are exact; a coordinator that answers fractions of one is outside the model.\<close>

type_synonym gov_local = "gov_run \<times> key_state \<times> gov_totals"

definition waited_ms :: "gov_run \<Rightarrow> rat" where
  "waited_ms r = gr_admissionWaitMs r + gr_retryWaitMs r"

definition start_attempt :: "(rat \<Rightarrow> rat) \<Rightarrow> int \<Rightarrow> gov_local \<Rightarrow> gov_local" where
  "start_attempt fl t = (\<lambda>(r, s, T). (r\<lparr>gr_attempts := gr_attempts r + 1, gr_pc := Attempting\<rparr>, take_budget fl (gr_tokens r) t s, T\<lparr>gt_attempts := gt_attempts T + 1\<rparr>))"

definition loop_top :: "(rat \<Rightarrow> rat) \<Rightarrow> governor_config \<Rightarrow> int \<Rightarrow> int \<Rightarrow> bool \<Rightarrow> gov_local \<Rightarrow> gov_local" where
  "loop_top fl c t t' aborted = (\<lambda>(r, s, T).
     if aborted then (r\<lparr>gr_pc := Failed Cancelled\<rparr>, s, T)
     else let (wait, s1) = admissionDelay fl c (gr_tokens r) t s in
       if wait > 0
       then (if waited_ms r + of_int wait > of_int (gc_maxWaitMs c)
             then (r\<lparr>gr_pc := Failed (RateLimited (of_int wait) (gr_attempts r))\<rparr>, s1, T\<lparr>gt_rejected := gt_rejected T + 1\<rparr>)
             else (r\<lparr>gr_pc := Sleeping wait t'\<rparr>, s1, T))
       else if gc_admission c then (r\<lparr>gr_pc := Admitting t'\<rparr>, s1, T)
       else start_attempt fl t' (r, s1, T))"

definition wake :: "int \<Rightarrow> int \<Rightarrow> int \<Rightarrow> gov_local \<Rightarrow> gov_local" where
  "wake wait before t = (\<lambda>(r, s, T). let waited = of_int (max wait (t - before)) in
     ((if gr_attempts r = 0 then r\<lparr>gr_admissionWaitMs := gr_admissionWaitMs r + waited\<rparr> else r\<lparr>gr_retryWaitMs := gr_retryWaitMs r + waited\<rparr>)\<lparr>gr_pc := Looping\<rparr>, s, T))"

definition admitted :: "(rat \<Rightarrow> rat) \<Rightarrow> governor_config \<Rightarrow> int \<Rightarrow> int \<Rightarrow> bool \<Rightarrow> jserror + jsval \<Rightarrow> gov_local \<Rightarrow> gov_local" where
  "admitted fl c started t aborted answer = (\<lambda>(r, s, T).
     case answer of
       Inl e \<Rightarrow> (r\<lparr>gr_admissionWaitMs := gr_admissionWaitMs r + of_int (max 0 (t - started)), gr_pc := Failed (Thrown e)\<rparr>, s, T)
     | Inr v \<Rightarrow> (case dot v ''waitMs'' of Inl e \<Rightarrow> (r\<lparr>gr_pc := Failed (Thrown e)\<rparr>, s, T)
        | Inr w0 \<Rightarrow> let w = (if w0 = JUndef then JNum 0 else w0) in
            if \<not> is_finite_num w \<or> num_of w < 0 then (r\<lparr>gr_pc := Failed InvalidSharedWait\<rparr>, s, T)
            else let r1 = r\<lparr>gr_admissionWaitMs := gr_admissionWaitMs r + num_of w\<rparr> in
              if waited_ms r1 > of_int (gc_maxWaitMs c) then (r1\<lparr>gr_pc := Failed (RateLimited (num_of w) (gr_attempts r))\<rparr>, s, T)
              else if aborted then (r1\<lparr>gr_pc := Failed Cancelled\<rparr>, s, T)
              else start_attempt fl t (r1, s, T)))"

definition responded :: "(rat \<Rightarrow> rat) \<Rightarrow> platform \<Rightarrow> int \<Rightarrow> jserror + (jsval \<times> headers) \<Rightarrow> gov_local \<Rightarrow> gov_local" where
  "responded fl p t answer = (\<lambda>(r, s, T).
     case answer of
       Inl e \<Rightarrow> (r\<lparr>gr_pc := Failed (Thrown e)\<rparr>, s, T)
     | Inr (status, hs) \<Rightarrow>
        let s1 = observeHeaders fl p hs t s in
        if status \<noteq> JNum 429
        then (r\<lparr>gr_pc := Returned\<rparr>, s1, T\<lparr>gt_admissionWaitMs := gt_admissionWaitMs T + gr_admissionWaitMs r, gt_retryWaitMs := gt_retryWaitMs T + gr_retryWaitMs r\<rparr>)
        else (r\<lparr>gr_throttled := gr_throttled r + 1, gr_pc := Draining hs\<rparr>, s1, T\<lparr>gt_throttled := gt_throttled T + 1\<rparr>))"

definition after_throttle :: "governor_config \<Rightarrow> int \<Rightarrow> gov_local \<Rightarrow> gov_local" where
  "after_throttle c retryAfter = (\<lambda>(r, s, T).
     if gr_throttled r > gc_maxRetries c \<or> waited_ms r + of_int retryAfter > of_int (gc_maxWaitMs c)
     then (r\<lparr>gr_pc := Failed (RateLimited (of_int retryAfter) (gr_attempts r))\<rparr>, s, T\<lparr>gt_rejected := gt_rejected T + 1,
       gt_admissionWaitMs := gt_admissionWaitMs T + gr_admissionWaitMs r, gt_retryWaitMs := gt_retryWaitMs T + gr_retryWaitMs r\<rparr>)
     else (r\<lparr>gr_pc := Looping\<rparr>, s, T))"

definition retry_delay :: "(rat \<Rightarrow> rat) \<Rightarrow> platform \<Rightarrow> governor_config \<Rightarrow> nat \<Rightarrow> headers \<Rightarrow> int \<Rightarrow> rat \<Rightarrow> int" where
  "retry_delay fl p c throttled hs now random =
     jitter fl c random (case retryAfterMsFromHeaders fl p hs now of Some h \<Rightarrow> h
       | None \<Rightarrow> max (gc_minRetryDelayMs c) (min (gc_maxFallbackRetryDelayMs c) (gc_fallbackRetryDelayMs c * 2 ^ (throttled - 1))))"

definition drained :: "(rat \<Rightarrow> rat) \<Rightarrow> platform \<Rightarrow> governor_config \<Rightarrow> headers \<Rightarrow> int \<Rightarrow> int \<Rightarrow> rat \<Rightarrow> gov_local \<Rightarrow> gov_local" where
  "drained fl p c hs t t' random = (\<lambda>(r, s, T).
     let ra = retry_delay fl p c (gr_throttled r) hs t random;
         r1 = r\<lparr>gr_lastRetryAfterMs := Some ra\<rparr>;
         s1 = s\<lparr>ks_cooldownUntil := max (ks_cooldownUntil s) (t' + ra)\<rparr> in
     if gc_onThrottle c then (r1\<lparr>gr_pc := Notifying ra\<rparr>, s1, T) else after_throttle c ra (r1, s1, T))"

definition notified :: "governor_config \<Rightarrow> int \<Rightarrow> jserror + unit \<Rightarrow> gov_local \<Rightarrow> gov_local" where
  "notified c ra answer = (\<lambda>(r, s, T). case answer of Inl e \<Rightarrow> (r\<lparr>gr_pc := Failed (Thrown e)\<rparr>, s, T) | Inr _ \<Rightarrow> after_throttle c ra (r, s, T))"

section \<open>Calls side by side\<close>

text \<open>
  What can happen next to a call: it runs the head of the loop (the clock is read twice), its sleep
  ends or is aborted, the coordinator answers, the provider answers, the body of a refusal is
  cancelled, the throttle callback answers.
\<close>

datatype gov_act =
    Top int int bool
  | Wake int
  | WakeAbort
  | Admitted int int bool "jserror + jsval"
  | Responded int "jserror + (jsval \<times> headers)"
  | Drained int int rat
  | Notified "jserror + unit"

record governor =
  gv_keys :: "(string, key_state) jsmap"
  gv_runs :: "nat \<Rightarrow> gov_run option"
  gv_totals :: gov_totals

definition governor_new :: governor where
  "governor_new = \<lparr>gv_keys = [], gv_runs = (\<lambda>_. None), gv_totals = \<lparr>gt_calls = 0, gt_attempts = 0, gt_throttled = 0, gt_rejected = 0,
     gt_admissionWaitMs = 0, gt_retryWaitMs = 0\<rparr>\<rparr>"

text \<open>The tokens a call asks for; an estimate that is infinite is outside the model.\<close>

definition requested_tokens :: "platform \<Rightarrow> jsval \<Rightarrow> rat" where
  "requested_tokens p v = (case to_number p v of JNum n \<Rightarrow> if n = 0 then 1 else max 1 (of_int \<lceil>n\<rceil>) | _ \<Rightarrow> 1)"

definition stateFor :: "(rat \<Rightarrow> rat) \<Rightarrow> governor_config \<Rightarrow> string \<Rightarrow> int \<Rightarrow> (string, key_state) jsmap \<Rightarrow> (string, key_state) jsmap" where
  "stateFor fl c key t m = (if jmap_get m key = None then jmap_set key (key_new fl c t) m else m)"

definition gov_run_start :: "(rat \<Rightarrow> rat) \<Rightarrow> platform \<Rightarrow> governor_config \<Rightarrow> nat \<Rightarrow> jsval \<Rightarrow> jsval \<Rightarrow> int \<Rightarrow> governor \<Rightarrow> governor" where
  "gov_run_start fl p c i key estimated t g = g\<lparr>gv_keys := stateFor fl c (to_string p key) t (gv_keys g),
     gv_runs := (gv_runs g)(i \<mapsto> \<lparr>gr_key = to_string p key, gr_tokens = requested_tokens p estimated, gr_pc = Looping, gr_attempts = 0, gr_throttled = 0,
       gr_admissionWaitMs = 0, gr_retryWaitMs = 0, gr_lastRetryAfterMs = None\<rparr>),
     gv_totals := (gv_totals g)\<lparr>gt_calls := gt_calls (gv_totals g) + 1\<rparr>\<rparr>"

text \<open>What a call does at an act; \<open>None\<close> when it is not waiting for it.\<close>

fun run_act :: "(rat \<Rightarrow> rat) \<Rightarrow> platform \<Rightarrow> governor_config \<Rightarrow> gov_act \<Rightarrow> gov_pc \<Rightarrow> (gov_local \<Rightarrow> gov_local) option" where
  "run_act fl p c (Top t t' ab) Looping = Some (loop_top fl c t t' ab)"
| "run_act fl p c (Wake t) (Sleeping w b) = Some (wake w b t)"
| "run_act fl p c WakeAbort (Sleeping w b) = Some (\<lambda>(r, s, T). (r\<lparr>gr_pc := Failed Cancelled\<rparr>, s, T))"
| "run_act fl p c (Admitted t t' ab x) (Admitting b) = Some (admitted fl c b (case x of Inl _ \<Rightarrow> t | Inr _ \<Rightarrow> t') ab x)"
| "run_act fl p c (Responded t x) Attempting = Some (responded fl p t x)"
| "run_act fl p c (Drained t t' q) (Draining hs) = Some (drained fl p c hs t t' q)"
| "run_act fl p c (Notified x) (Notifying ra) = Some (notified c ra x)"
| "run_act fl p c _ _ = None"

text \<open>The state of a call's key, and what the call does at an act it waits for.\<close>

definition key_state_of :: "gov_run \<Rightarrow> governor \<Rightarrow> key_state" where
  "key_state_of r g = the (jmap_get (gv_keys g) (gr_key r))"

definition act_step :: "(rat \<Rightarrow> rat) \<Rightarrow> platform \<Rightarrow> governor_config \<Rightarrow> nat \<Rightarrow> gov_act \<Rightarrow> governor \<Rightarrow> governor option" where
  "act_step fl p c i a g = (case gv_runs g i of None \<Rightarrow> None
     | Some r \<Rightarrow> (case run_act fl p c a (gr_pc r) of None \<Rightarrow> None
        | Some f \<Rightarrow> (let (r', s', T') = f (r, key_state_of r g, gv_totals g) in
            Some (g\<lparr>gv_keys := jmap_set (gr_key r) s' (gv_keys g), gv_runs := (gv_runs g)(i \<mapsto> r'), gv_totals := T'\<rparr>))))"

inductive gov_step :: "(rat \<Rightarrow> rat) \<Rightarrow> platform \<Rightarrow> governor_config \<Rightarrow> governor \<Rightarrow> governor \<Rightarrow> bool" for fl p c where
  gov_start: "gv_runs g i = None \<Longrightarrow> gov_step fl p c g (gov_run_start fl p c i key est t g)"
| gov_act: "act_step fl p c i a g = Some g' \<Longrightarrow> gov_step fl p c g g'"

definition cooldownRemainingMs :: "string \<Rightarrow> int \<Rightarrow> governor \<Rightarrow> int" where
  "cooldownRemainingMs key now g = (case jmap_get (gv_keys g) key of None \<Rightarrow> 0 | Some s \<Rightarrow> max 0 (ks_cooldownUntil s - now))"

section \<open>Bounds of a call\<close>

definition gov_finished :: "gov_pc \<Rightarrow> bool" where
  "gov_finished pc \<longleftrightarrow> (case pc of Returned \<Rightarrow> True | Failed _ \<Rightarrow> True | _ \<Rightarrow> False)"

text \<open>Attempts and refusals go together, and a call that sleeps keeps within its budget.\<close>

definition run_ok :: "governor_config \<Rightarrow> gov_run \<Rightarrow> bool" where
  "run_ok c r \<longleftrightarrow> 0 \<le> gr_admissionWaitMs r \<and> 0 \<le> gr_retryWaitMs r \<and> gr_attempts r \<le> gc_maxRetries c + 1 \<and>
     (case gr_pc r of
        Looping \<Rightarrow> gr_throttled r = gr_attempts r \<and> gr_attempts r \<le> gc_maxRetries c
      | Sleeping w b \<Rightarrow> gr_throttled r = gr_attempts r \<and> gr_attempts r \<le> gc_maxRetries c \<and> 0 < w \<and> waited_ms r + of_int w \<le> of_int (gc_maxWaitMs c)
      | Admitting b \<Rightarrow> gr_throttled r = gr_attempts r \<and> gr_attempts r \<le> gc_maxRetries c
      | Attempting \<Rightarrow> gr_throttled r + 1 = gr_attempts r
      | Draining hs \<Rightarrow> gr_throttled r = gr_attempts r
      | Notifying ra \<Rightarrow> gr_throttled r = gr_attempts r
      | _ \<Rightarrow> True)"

lemma after_throttle_ok: "run_ok c r \<Longrightarrow> gr_throttled r = gr_attempts r \<Longrightarrow> run_ok c (fst (after_throttle c ra (r, s, T)))"
  by (auto simp: after_throttle_def run_ok_def split: gov_pc.splits)

lemma run_act_ok:
  assumes "run_act fl p c a (gr_pc r) = Some f" "run_ok c r"
  shows "run_ok c (fst (f (r, s, T)))"
proof (cases a)
  case (Top t t' ab)
  with assms show ?thesis
    by (cases "gr_pc r") (auto simp: run_ok_def loop_top_def start_attempt_def waited_ms_def Let_def split: prod.splits)
next
  case (Wake t)
  with assms show ?thesis by (cases "gr_pc r") (auto simp: run_ok_def wake_def waited_ms_def Let_def)
next
  case WakeAbort
  with assms show ?thesis by (cases "gr_pc r") (auto simp: run_ok_def)
next
  case (Admitted t t' ab x)
  with assms show ?thesis
    by (cases "gr_pc r") (auto simp: run_ok_def admitted_def start_attempt_def Let_def split: sum.splits)
next
  case (Responded t x)
  with assms show ?thesis by (cases "gr_pc r") (auto simp: run_ok_def responded_def Let_def split: sum.splits prod.splits)
next
  case (Drained t t' q)
  with assms show ?thesis
    by (cases "gr_pc r") (auto simp: drained_def Let_def intro!: after_throttle_ok, auto simp: run_ok_def)
next
  case (Notified x)
  with assms show ?thesis
    by (cases "gr_pc r") (auto simp: notified_def split: sum.splits intro!: after_throttle_ok, auto simp: run_ok_def)
qed

lemma act_step_run:
  assumes "act_step fl p c i a g = Some g'"
  obtains r f r' s' T' where "gv_runs g i = Some r" "run_act fl p c a (gr_pc r) = Some f" "f (r, key_state_of r g, gv_totals g) = (r', s', T')"
    "g' = g\<lparr>gv_keys := jmap_set (gr_key r) s' (gv_keys g), gv_runs := (gv_runs g)(i \<mapsto> r'), gv_totals := T'\<rparr>"
  using assms by (auto simp: act_step_def Let_def split: option.splits prod.splits)

lemma gov_reachable_ok:
  assumes "(gov_step fl p c)\<^sup>*\<^sup>* governor_new g" "gv_runs g i = Some r"
  shows "run_ok c r"
  using assms
proof (induction arbitrary: i r rule: rtranclp_induct)
  case base
  then show ?case by (simp add: governor_new_def)
next
  case (step g g')
  from step(2) show ?case
  proof cases
    case (gov_start j key est t)
    then show ?thesis using step.IH step.prems by (auto simp: gov_run_start_def run_ok_def split: if_splits)
  next
    case (gov_act j a)
    then obtain r0 f r' s' T' where x: "gv_runs g j = Some r0" "run_act fl p c a (gr_pc r0) = Some f" "f (r0, key_state_of r0 g, gv_totals g) = (r', s', T')"
      "g' = g\<lparr>gv_keys := jmap_set (gr_key r0) s' (gv_keys g), gv_runs := (gv_runs g)(j \<mapsto> r'), gv_totals := T'\<rparr>" by (rule act_step_run)
    from run_act_ok[OF x(2) step.IH[OF x(1)], of "key_state_of r0 g" "gv_totals g"] step.IH step.prems show ?thesis
      by (auto simp: x(3,4) split: if_splits)
  qed
qed


section \<open>A call ends\<close>

text \<open>What is left of the budget in whole milliseconds, and a bound on the acts a call can still do.\<close>

definition budget_left :: "governor_config \<Rightarrow> gov_run \<Rightarrow> nat" where
  "budget_left c r = nat (gc_maxWaitMs c - \<lfloor>waited_ms r\<rfloor>)"

definition gov_rank :: "governor_config \<Rightarrow> gov_run \<Rightarrow> nat" where
  "gov_rank c r = (case gr_pc r of
       Looping \<Rightarrow> 2 * budget_left c r + 6 * (gc_maxRetries c + 1 - gr_throttled r) + 2
     | Sleeping w b \<Rightarrow> 2 * budget_left c r + 6 * (gc_maxRetries c + 1 - gr_throttled r) + 1
     | Admitting b \<Rightarrow> 2 * budget_left c r + 6 * (gc_maxRetries c + 1 - gr_throttled r) + 1
     | Attempting \<Rightarrow> 2 * budget_left c r + 6 * (gc_maxRetries c + 1 - gr_throttled r)
     | Draining hs \<Rightarrow> 2 * budget_left c r + 6 * (gc_maxRetries c + 1 - gr_throttled r) + 5
     | Notifying ra \<Rightarrow> 2 * budget_left c r + 6 * (gc_maxRetries c + 1 - gr_throttled r) + 4
     | _ \<Rightarrow> 0)"

lemma budget_left_mono: "waited_ms r \<le> waited_ms r' \<Longrightarrow> budget_left c r' \<le> budget_left c r"
  by (simp add: budget_left_def nat_mono floor_mono)

lemma budget_left_sleep:
  assumes "0 < w" "waited_ms r + of_int w \<le> of_int (gc_maxWaitMs c)" "waited_ms r + of_int w \<le> waited_ms r'"
  shows "budget_left c r' < budget_left c r"
proof -
  have "\<lfloor>waited_ms r\<rfloor> + w \<le> \<lfloor>waited_ms r'\<rfloor>" using floor_mono[OF assms(3)] by simp
  moreover have "\<lfloor>waited_ms r\<rfloor> + w \<le> gc_maxWaitMs c" using floor_mono[OF assms(2)] by simp
  ultimately show ?thesis using assms(1) by (simp add: budget_left_def)
qed

lemma after_throttle_rank:
  "gov_rank c (fst (after_throttle c ra (r, s, T))) \<le> 2 * budget_left c r + 6 * (gc_maxRetries c + 1 - gr_throttled r) + 2"
  by (simp add: after_throttle_def gov_rank_def budget_left_def waited_ms_def)

lemma wake_rank:
  assumes "run_ok c r" "gr_pc r = Sleeping w b"
  shows "gov_rank c (fst (wake w b t (r, s, T))) < gov_rank c r"
proof -
  let ?r = "fst (wake w b t (r, s, T))"
  have "waited_ms r + of_int w \<le> waited_ms ?r" by (simp add: wake_def waited_ms_def Let_def)
  with assms have "budget_left c ?r < budget_left c r" by (intro budget_left_sleep) (auto simp: run_ok_def)
  moreover have "gr_pc ?r = Looping" "gr_throttled ?r = gr_throttled r" by (simp_all add: wake_def Let_def)
  ultimately show ?thesis by (simp add: gov_rank_def assms(2))
qed

lemma admitted_rank:
  assumes "gr_pc r = Admitting b"
  shows "gov_rank c (fst (admitted fl c b t ab x (r, s, T))) < gov_rank c r"
proof -
  have mono: "budget_left c (r\<lparr>gr_admissionWaitMs := gr_admissionWaitMs r + w, gr_attempts := n, gr_pc := q\<rparr>) \<le> budget_left c r" if "0 \<le> w" for w n q
    by (rule budget_left_mono) (simp add: waited_ms_def that)
  have same: "budget_left c (r\<lparr>gr_attempts := n, gr_pc := q\<rparr>) = budget_left c r" for n q by (simp add: budget_left_def waited_ms_def)
  show ?thesis
    using mono by (auto simp: admitted_def start_attempt_def gov_rank_def assms Let_def less_Suc_eq_le same split: sum.splits)
qed

lemma run_act_rank:
  assumes act: "run_act fl p c a (gr_pc r) = Some f" and ok: "run_ok c r"
  shows "gov_rank c (fst (f (r, s, T))) < gov_rank c r"
proof (cases a)
  case (Top t t' ab)
  with act show ?thesis
    by (cases "gr_pc r") (auto simp: loop_top_def start_attempt_def gov_rank_def budget_left_def waited_ms_def Let_def split: prod.splits)
next
  case (Wake t)
  with act wake_rank[OF ok] show ?thesis by (cases "gr_pc r") auto
next
  case WakeAbort
  with act show ?thesis by (cases "gr_pc r") (auto simp: gov_rank_def)
next
  case (Admitted t t' ab x)
  with act admitted_rank show ?thesis by (cases "gr_pc r") auto
next
  case (Responded t x)
  with act ok show ?thesis
    by (cases "gr_pc r") (auto simp: responded_def gov_rank_def budget_left_def waited_ms_def run_ok_def Let_def split: sum.splits prod.splits)
next
  case (Drained t t' q)
  with act obtain hs where hs: "gr_pc r = Draining hs" "f = drained fl p c hs t t' q" by (cases "gr_pc r") auto
  let ?ra = "retry_delay fl p c (gr_throttled r) hs t q"
  have same: "budget_left c (r\<lparr>gr_lastRetryAfterMs := Some ?ra\<rparr>) = budget_left c r"
    "budget_left c (r\<lparr>gr_lastRetryAfterMs := Some ?ra, gr_pc := Notifying ?ra\<rparr>) = budget_left c r" by (simp_all add: budget_left_def waited_ms_def)
  have rank: "gov_rank c r = 2 * budget_left c r + 6 * (gc_maxRetries c + 1 - gr_throttled r) + 5" by (simp add: gov_rank_def hs(1))
  show ?thesis
  proof (cases "gc_onThrottle c")
    case True
    then show ?thesis unfolding rank by (simp add: hs(2) drained_def Let_def same(2) gov_rank_def)
  next
    case False
    then have "gov_rank c (fst (f (r, s, T))) \<le> 2 * budget_left c r + 6 * (gc_maxRetries c + 1 - gr_throttled r) + 2"
      using after_throttle_rank[of c ?ra "r\<lparr>gr_lastRetryAfterMs := Some ?ra\<rparr>"] by (simp add: hs(2) drained_def Let_def same(1))
    then show ?thesis unfolding rank by simp
  qed
next
  case (Notified x)
  with act obtain ra where ra: "gr_pc r = Notifying ra" "f = notified c ra x" by (cases "gr_pc r") auto
  have rank: "gov_rank c r = 2 * budget_left c r + 6 * (gc_maxRetries c + 1 - gr_throttled r) + 4" by (simp add: gov_rank_def ra(1))
  show ?thesis
  proof (cases x)
    case (Inl e)
    then show ?thesis unfolding rank by (simp add: ra(2) notified_def gov_rank_def)
  next
    case (Inr u)
    then show ?thesis unfolding rank using after_throttle_rank[of c ra r s T] by (simp add: ra(2) notified_def)
  qed
qed

text \<open>A schedule of starts and acts; an act a call does not wait for has no effect.\<close>

datatype gov_event = Start nat jsval jsval int | Act nat gov_act

fun gov_exec :: "(rat \<Rightarrow> rat) \<Rightarrow> platform \<Rightarrow> governor_config \<Rightarrow> gov_event \<Rightarrow> governor \<Rightarrow> governor" where
  "gov_exec fl p c (Start i key est t) g = (if gv_runs g i = None then gov_run_start fl p c i key est t g else g)"
| "gov_exec fl p c (Act i a) g = (case act_step fl p c i a g of None \<Rightarrow> g | Some g' \<Rightarrow> g')"

definition effective :: "(rat \<Rightarrow> rat) \<Rightarrow> platform \<Rightarrow> governor_config \<Rightarrow> nat \<Rightarrow> gov_event \<Rightarrow> governor \<Rightarrow> bool" where
  "effective fl p c i e g = (case e of Start _ _ _ _ \<Rightarrow> False | Act j a \<Rightarrow> j = i \<and> act_step fl p c j a g \<noteq> None)"

text \<open>How often a call moves on a schedule.\<close>

fun moves :: "(rat \<Rightarrow> rat) \<Rightarrow> platform \<Rightarrow> governor_config \<Rightarrow> nat \<Rightarrow> gov_event list \<Rightarrow> governor \<Rightarrow> nat" where
  "moves fl p c i [] g = 0"
| "moves fl p c i (e # es) g = (if effective fl p c i e g then 1 else 0) + moves fl p c i es (gov_exec fl p c e g)"

definition rank_of :: "governor_config \<Rightarrow> nat \<Rightarrow> governor \<Rightarrow> nat" where
  "rank_of c i g = (case gv_runs g i of None \<Rightarrow> 2 * nat (gc_maxWaitMs c) + 6 * (gc_maxRetries c + 1) + 2 | Some r \<Rightarrow> gov_rank c r)"

lemma gov_exec_step: "gov_exec fl p c e g = g \<or> gov_step fl p c g (gov_exec fl p c e g)"
  by (cases e) (auto intro: gov_start gov_act split: option.splits)

lemma gov_exec_rank:
  assumes ok: "\<forall>r. gv_runs g i = Some r \<longrightarrow> run_ok c r"
  shows "(if effective fl p c i e g then 1 else 0) + rank_of c i (gov_exec fl p c e g) \<le> rank_of c i g"
proof (cases e)
  case (Start j key est t)
  then show ?thesis by (auto simp: effective_def rank_of_def gov_run_start_def gov_rank_def budget_left_def waited_ms_def)
next
  case (Act j a)
  show ?thesis
  proof (cases "act_step fl p c j a g")
    case None
    then show ?thesis by (simp add: Act effective_def)
  next
    case (Some g')
    then obtain r f r' s' T' where x: "gv_runs g j = Some r" "run_act fl p c a (gr_pc r) = Some f" "f (r, key_state_of r g, gv_totals g) = (r', s', T')"
      "g' = g\<lparr>gv_keys := jmap_set (gr_key r) s' (gv_keys g), gv_runs := (gv_runs g)(j \<mapsto> r'), gv_totals := T'\<rparr>" by (rule act_step_run)
    show ?thesis
    proof (cases "j = i")
      case True
      from run_act_rank[OF x(2), of "key_state_of r g" "gv_totals g"] ok x(1,3) True have "gov_rank c r' < gov_rank c r" by simp
      then show ?thesis using True x(1) Some by (simp add: Act effective_def rank_of_def x(4))
    next
      case False
      then show ?thesis using Some by (simp add: Act effective_def rank_of_def x(4))
    qed
  qed
qed

lemma moves_bounded:
  assumes "(gov_step fl p c)\<^sup>*\<^sup>* governor_new g"
  shows "moves fl p c i es g \<le> rank_of c i g"
  using assms
proof (induction es arbitrary: g)
  case (Cons e es)
  have "(gov_step fl p c)\<^sup>*\<^sup>* governor_new (gov_exec fl p c e g)"
    using Cons.prems gov_exec_step[of fl p c e g] by (metis rtranclp.rtrancl_into_rtrancl)
  from Cons.IH[OF this] gov_exec_rank[of g i c fl p e] gov_reachable_ok[OF Cons.prems] show ?case by fastforce
qed simp

text \<open>
  Every call ends. On every schedule, whatever the clock, the provider, the coordinator and the
  other calls do, a call moves at most \<^verbatim>\<open>2 * maxWaitMs + 6 * (maxRetries + 1) + 2\<close> times: the loop of
  \<^verbatim>\<open>run\<close> cannot go round for ever on waits or on refusals.
\<close>

lemma governor_call_ends:
  "moves fl p c i es governor_new \<le> 2 * nat (gc_maxWaitMs c) + 6 * (gc_maxRetries c + 1) + 2"
  using moves_bounded[of fl p c governor_new i es] by (simp add: rank_of_def governor_new_def)

section \<open>Nobody asks a key that cools down\<close>

text \<open>What the theorem relies on of the rounding of doubles: it is monotone and keeps whole numbers of up to 53 bits.\<close>

definition rounding :: "(rat \<Rightarrow> rat) \<Rightarrow> bool" where
  "rounding fl \<longleftrightarrow> mono fl \<and> (\<forall>n. \<bar>n\<bar> \<le> 2 ^ 53 \<longrightarrow> fl (of_int n) = of_int n)"

lemma jitter_ge:
  assumes fl: "rounding fl" and "0 \<le> ms" "ms \<le> 2 ^ 53" "0 \<le> gc_jitterRatio c" "0 \<le> random"
  shows "ms \<le> jitter fl c random ms"
proof -
  have mono: "x \<le> y \<Longrightarrow> fl x \<le> fl y" for x y using fl by (simp add: rounding_def mono_def)
  have whole: "fl (of_int n) = of_int n" if "\<bar>n\<bar> \<le> 2 ^ 53" for n using fl that by (simp add: rounding_def)
  have "0 \<le> fl (gc_jitterRatio c * random)" using mono[of 0 "gc_jitterRatio c * random"] whole[of 0] assms(4,5) by simp
  then have "1 \<le> fl (1 + fl (gc_jitterRatio c * random))" using mono[of 1 "1 + fl (gc_jitterRatio c * random)"] whole[of 1] by simp
  then have "of_int ms \<le> of_int ms * fl (1 + fl (gc_jitterRatio c * random))" using assms(2) by (simp add: mult_le_cancel_left1)
  from mono[OF this] whole[of ms] assms(2,3) have "of_int ms \<le> fl (of_int ms * fl (1 + fl (gc_jitterRatio c * random)))" by simp
  then show ?thesis unfolding jitter_def by (simp add: le_ceiling_iff)
qed

definition cooldown_of :: "string \<Rightarrow> governor \<Rightarrow> int" where
  "cooldown_of k g = (case jmap_get (gv_keys g) k of None \<Rightarrow> 0 | Some s \<Rightarrow> ks_cooldownUntil s)"

lemma admissionDelay_state: "ks_cooldownUntil (snd (admissionDelay fl c n t s)) = ks_cooldownUntil s"
  by (simp add: admissionDelay_def Let_def split: prod.splits)

lemma take_budget_state: "ks_cooldownUntil (take_budget fl n t s) = ks_cooldownUntil s"
  by (simp add: take_budget_def Let_def)

lemma observeHeaders_state: "ks_cooldownUntil (observeHeaders fl p hs t s) = ks_cooldownUntil s"
  by (simp add: observeHeaders_def Let_def)

lemma after_throttle_state: "fst (snd (after_throttle c ra (r, s, T))) = s" "gr_key (fst (after_throttle c ra (r, s, T))) = gr_key r"
  by (simp_all add: after_throttle_def)

lemmas cooldown_kept = admissionDelay_state take_budget_state observeHeaders_state after_throttle_state

lemma run_act_cooldown:
  assumes "run_act fl p c a (gr_pc r) = Some f"
  shows "ks_cooldownUntil s \<le> ks_cooldownUntil (fst (snd (f (r, s, T))))" "gr_key (fst (f (r, s, T))) = gr_key r"
proof -
  have top: "ks_cooldownUntil (fst (snd (loop_top fl c t t' ab (r, s, T)))) = ks_cooldownUntil s \<and> gr_key (fst (loop_top fl c t t' ab (r, s, T))) = gr_key r" for t t' ab
    using admissionDelay_state[of fl c "gr_tokens r" t s]
    by (auto simp: loop_top_def start_attempt_def take_budget_state Let_def split: prod.splits)
  have drain: "ks_cooldownUntil s \<le> ks_cooldownUntil (fst (snd (drained fl p c hs t t' q (r, s, T)))) \<and> gr_key (fst (drained fl p c hs t t' q (r, s, T))) = gr_key r" for hs t t' q
    by (simp add: drained_def Let_def after_throttle_state)
  have "ks_cooldownUntil s \<le> ks_cooldownUntil (fst (snd (f (r, s, T)))) \<and> gr_key (fst (f (r, s, T))) = gr_key r"
    using assms top drain
    by (cases a; cases "gr_pc r")
      (auto simp: wake_def admitted_def start_attempt_def responded_def notified_def cooldown_kept Let_def split: sum.splits prod.splits)
  then show "ks_cooldownUntil s \<le> ks_cooldownUntil (fst (snd (f (r, s, T))))" "gr_key (fst (f (r, s, T))) = gr_key r" by simp_all
qed

definition keys_ok :: "governor \<Rightarrow> bool" where
  "keys_ok g \<longleftrightarrow> (\<forall>i r. gv_runs g i = Some r \<longrightarrow> jmap_get (gv_keys g) (gr_key r) \<noteq> None)"

lemma act_step_cooldown:
  assumes a: "act_step fl p c i a g = Some g'" and ok: "keys_ok g"
  shows "keys_ok g'" "cooldown_of k g \<le> cooldown_of k g'"
proof -
  from a obtain r f r' s' T' where x: "gv_runs g i = Some r" "run_act fl p c a (gr_pc r) = Some f" "f (r, key_state_of r g, gv_totals g) = (r', s', T')"
    "g' = g\<lparr>gv_keys := jmap_set (gr_key r) s' (gv_keys g), gv_runs := (gv_runs g)(i \<mapsto> r'), gv_totals := T'\<rparr>" by (rule act_step_run)
  note m = run_act_cooldown[OF x(2), of "key_state_of r g" "gv_totals g", unfolded x(3)]
  from ok x(1) have some: "jmap_get (gv_keys g) (gr_key r) = Some (key_state_of r g)" by (auto simp: keys_ok_def key_state_of_def)
  show "keys_ok g'" using ok m(2) by (auto simp: keys_ok_def x(4))
  show "cooldown_of k g \<le> cooldown_of k g'" using m(1) some by (auto simp: cooldown_of_def x(4))
qed

lemma gov_exec_cooldown:
  assumes "keys_ok g"
  shows "keys_ok (gov_exec fl p c e g)" "cooldown_of k g \<le> cooldown_of k (gov_exec fl p c e g)"
proof -
  have "keys_ok (gov_exec fl p c e g) \<and> cooldown_of k g \<le> cooldown_of k (gov_exec fl p c e g)"
  proof (cases e)
    case (Start i key est t)
    then show ?thesis using assms by (auto simp: keys_ok_def cooldown_of_def gov_run_start_def stateFor_def key_new_def split: option.splits)
  next
    case (Act i a)
    then show ?thesis using assms act_step_cooldown(1) act_step_cooldown(2)[where k = k] by (auto split: option.splits)
  qed
  then show "keys_ok (gov_exec fl p c e g)" "cooldown_of k g \<le> cooldown_of k (gov_exec fl p c e g)" by simp_all
qed

abbreviation gov_execs :: "(rat \<Rightarrow> rat) \<Rightarrow> platform \<Rightarrow> governor_config \<Rightarrow> gov_event list \<Rightarrow> governor \<Rightarrow> governor" where
  "gov_execs fl p c es g \<equiv> fold (gov_exec fl p c) es g"

lemma gov_execs_cooldown: "keys_ok g \<Longrightarrow> keys_ok (gov_execs fl p c es g) \<and> cooldown_of k g \<le> cooldown_of k (gov_execs fl p c es g)"
proof (induction es arbitrary: g)
  case (Cons e es)
  then have "keys_ok (gov_exec fl p c e g)" "cooldown_of k g \<le> cooldown_of k (gov_exec fl p c e g)" using gov_exec_cooldown by blast+
  with Cons.IH[of "gov_exec fl p c e g"] show ?case by (simp add: order_trans)
qed simp

lemma keys_ok_new: "keys_ok governor_new"
  by (simp add: keys_ok_def governor_new_def)

lemma top_attempts_after_cooldown:
  assumes "\<not> gc_admission c" "act_step fl p c i (Top t t' ab) g = Some g'" "gv_runs g i = Some r" "gv_runs g' i = Some r'" "gr_pc r' = Attempting" "keys_ok g"
  shows "cooldown_of (gr_key r) g \<le> t"
proof -
  from assms(2,3) have "gr_pc r = Looping" by (cases "gr_pc r") (auto simp: act_step_def split: option.splits)
  from assms(2,3) this assms(1,4,5) have "fst (admissionDelay fl c (gr_tokens r) t (key_state_of r g)) \<le> 0"
    by (auto simp: act_step_def loop_top_def Let_def split: prod.splits if_splits)
  then have "ks_cooldownUntil (key_state_of r g) \<le> t" by (auto simp: admissionDelay_def Let_def split: prod.splits)
  moreover obtain s where "jmap_get (gv_keys g) (gr_key r) = Some s" using assms(3,6) by (auto simp: keys_ok_def)
  ultimately show ?thesis by (simp add: key_state_of_def cooldown_of_def)
qed


section \<open>The shared coordinator and the cooldown\<close>

definition sample_governor :: "bool \<Rightarrow> governor_config" where
  "sample_governor shared = \<lparr>gc_rpm = None, gc_tpm = None, gc_maxRetries = 4, gc_maxWaitMs = 45000, gc_minRetryDelayMs = 50, gc_fallbackRetryDelayMs = 1000,
     gc_maxFallbackRetryDelayMs = 20000, gc_jitterRatio = 0, gc_headerReserveRatio = 0, gc_admission = shared, gc_onThrottle = False\<rparr>"

definition refusal_headers :: headers where
  "refusal_headers = PlainHeaders [(''Retry-After'', JStr ''5'')]"

text \<open>Where a call stands, read without comparing header objects.\<close>

definition attempts_now :: "gov_run option \<Rightarrow> bool" where
  "attempts_now r = (case r of Some r \<Rightarrow> (case gr_pc r of Attempting \<Rightarrow> True | _ \<Rightarrow> False) | None \<Rightarrow> False)"

definition drains_now :: "gov_run option \<Rightarrow> entries option" where
  "drains_now r = (case r of Some r \<Rightarrow> (case gr_pc r of Draining (PlainHeaders es) \<Rightarrow> Some es | _ \<Rightarrow> None) | None \<Rightarrow> None)"

lemma attempts_now_iff: "attempts_now r \<longleftrightarrow> (\<exists>x. r = Some x \<and> gr_pc x = Attempting)"
  by (auto simp: attempts_now_def split: option.splits gov_pc.splits)

lemma drains_now_iff: "drains_now r = Some es \<longleftrightarrow> (\<exists>x. r = Some x \<and> gr_pc x = Draining (PlainHeaders es))"
  by (auto simp: drains_now_def split: option.splits gov_pc.splits headers.splits)

text \<open>Two calls; the second is refused while the first waits for the coordinator.\<close>

definition race_events :: "gov_event list" where
  "race_events = [Start 1 (JStr ''k'') (JNum 1) 0, Start 2 (JStr ''k'') (JNum 1) 0, Act 1 (Top 0 0 False), Act 2 (Top 0 0 False),
     Act 2 (Admitted 0 0 False (Inr (JObj []))), Act 2 (Responded 0 (Inr (JNum 429, refusal_headers))), Act 2 (Drained 0 0 0)]"

lemma race_state:
  "cooldown_of ''k'' (gov_execs (\<lambda>x. x) sample_platform (sample_governor True) race_events governor_new) = 5000"
  "attempts_now (gv_runs (gov_exec (\<lambda>x. x) sample_platform (sample_governor True) (Act 1 (Admitted 1 1 False (Inr (JObj []))))
     (gov_execs (\<lambda>x. x) sample_platform (sample_governor True) race_events governor_new)) 1)"
  by code_simp+

text \<open>
  C40. With a shared coordinator the cooldown has a gap. It is looked at before the coordinator is asked
  and not again after its answer: there is a schedule on which a call starts an attempt at time 1
  on a key that cools down until time 5000, because another call was refused in the meantime.
\<close>

theorem governor_admission_race:
  "\<exists>c es i a t g r. gc_admission c \<and> g = gov_execs (\<lambda>x. x) sample_platform c es governor_new \<and>
     gv_runs (gov_exec (\<lambda>x. x) sample_platform c (Act i (Admitted t t False a)) g) i = Some r \<and> gr_pc r = Attempting \<and>
     t < cooldown_of (gr_key r) g"
proof -
  let ?g = "gov_execs (\<lambda>x. x) sample_platform (sample_governor True) race_events governor_new"
  obtain r where r: "gv_runs (gov_exec (\<lambda>x. x) sample_platform (sample_governor True) (Act 1 (Admitted 1 1 False (Inr (JObj [])))) ?g) 1 = Some r" "gr_pc r = Attempting"
    using race_state(2) by (auto simp: attempts_now_iff)
  have "map_option gr_key (gv_runs (gov_exec (\<lambda>x. x) sample_platform (sample_governor True) (Act 1 (Admitted 1 1 False (Inr (JObj [])))) ?g) 1) = Some ''k''" by code_simp
  with r have "gr_key r = ''k''" by simp
  moreover have "gc_admission (sample_governor True)" by (simp add: sample_governor_def)
  ultimately show ?thesis using r race_state(1) by (metis zero_less_numeral one_less_numeral_iff semiring_norm(76))
qed

lemma rounding_exact: "rounding (\<lambda>x. x)"
  by (simp add: rounding_def mono_def)

lemma gov_execs_reach: "(gov_step fl p c)\<^sup>*\<^sup>* g0 g \<Longrightarrow> (gov_step fl p c)\<^sup>*\<^sup>* g0 (gov_execs fl p c es g)"
proof (induction es arbitrary: g)
  case (Cons e es)
  have "(gov_step fl p c)\<^sup>*\<^sup>* g0 (gov_exec fl p c e g)"
    using Cons.prems gov_exec_step[of fl p c e g] by (metis rtranclp.rtrancl_into_rtrancl)
  from Cons.IH[OF this] show ?case by simp
qed simp


definition refused_events :: "gov_event list" where
  "refused_events = [Start 1 (JStr ''k'') (JNum 1) 0, Act 1 (Top 0 0 False), Act 1 (Responded 0 (Inr (JNum 429, refusal_headers)))]"


section \<open>What a configuration can be\<close>

definition config_ok :: "governor_config \<Rightarrow> bool" where
  "config_ok c \<longleftrightarrow> (\<forall>r \<in> set_option (gc_rpm c) \<union> set_option (gc_tpm c). 0 < r) \<and> gc_maxRetries c \<le> 16 \<and>
     0 \<le> gc_maxWaitMs c \<and> gc_maxWaitMs c \<le> 600000 \<and> 0 \<le> gc_jitterRatio c \<and> gc_jitterRatio c \<le> tenth \<and>
     0 \<le> gc_headerReserveRatio c \<and> gc_headerReserveRatio c < 1 \<and>
     (\<forall>d \<in> {gc_minRetryDelayMs c, gc_fallbackRetryDelayMs c, gc_maxFallbackRetryDelayMs c}. 0 \<le> d \<and> d \<le> 600000)"

lemma nonNegativeInteger_range: "nonNegativeInteger v name most = Inr n \<Longrightarrow> 0 \<le> n \<and> n \<le> most"
  by (auto simp: nonNegativeInteger_def int_of_def floor_le_iff split: if_splits)

lemma positiveNumberOrNull_range: "positiveNumberOrNull v name = Inr (Some r) \<Longrightarrow> 0 < r"
  by (auto simp: positiveNumberOrNull_def split: if_splits)

lemma ratio_range: "ratio p v ok why = Inr r \<Longrightarrow> 0 \<le> r \<and> ok r"
  by (auto simp: ratio_def split: jsval.splits if_splits)

lemma created_config_ok:
  assumes "createProviderRateGovernor p options = Inr c"
  shows "config_ok c"
proof -
  let ?cv = "config_value options"
  from assms obtain rpm tpm retries wait jr hr least fallback most adm thr where
    ok: "positiveNumberOrNull (?cv ''rpm'') ''rpm'' = Inr rpm" "positiveNumberOrNull (?cv ''tpm'') ''tpm'' = Inr tpm"
      "nonNegativeInteger (?cv ''maxRetries'') ''maxRetries'' 16 = Inr retries" "nonNegativeInteger (?cv ''maxWaitMs'') ''maxWaitMs'' 600000 = Inr wait"
      "ratio p (?cv ''jitterRatio'') (\<lambda>r. r \<le> tenth) ''jitterRatio must be 0..0.1'' = Inr jr"
      "ratio p (?cv ''headerReserveRatio'') (\<lambda>r. r < 1) ''headerReserveRatio must be 0..1'' = Inr hr"
      "nonNegativeInteger (?cv ''minRetryDelayMs'') ''minRetryDelayMs'' 600000 = Inr least"
      "nonNegativeInteger (?cv ''fallbackRetryDelayMs'') ''fallbackRetryDelayMs'' 600000 = Inr fallback"
      "nonNegativeInteger (?cv ''maxFallbackRetryDelayMs'') ''maxFallbackRetryDelayMs'' 600000 = Inr most" and
    c: "c = \<lparr>gc_rpm = rpm, gc_tpm = tpm, gc_maxRetries = nat retries, gc_maxWaitMs = wait, gc_minRetryDelayMs = least, gc_fallbackRetryDelayMs = fallback,
        gc_maxFallbackRetryDelayMs = most, gc_jitterRatio = jr, gc_headerReserveRatio = hr, gc_admission = adm, gc_onThrottle = thr\<rparr>"
    unfolding createProviderRateGovernor_def Let_def by (auto simp: rbind_eq_Inr)
  show ?thesis
    using ok(1,2) nonNegativeInteger_range[OF ok(3)] nonNegativeInteger_range[OF ok(4)] ratio_range[OF ok(5)] ratio_range[OF ok(6)]
      nonNegativeInteger_range[OF ok(7)] nonNegativeInteger_range[OF ok(8)] nonNegativeInteger_range[OF ok(9)]
    by (auto simp: config_ok_def c nat_le_iff dest!: positiveNumberOrNull_range)
qed

text \<open>
  A governor that could be created has limits in their documented ranges, and under them every
  call of it, among any others and whatever the clock, the coordinator and the provider do, ends
  within a fixed number of steps.
\<close>

theorem governor_created_ends:
  assumes "createProviderRateGovernor p options = Inr c"
  shows "config_ok c \<and> moves fl p c i es governor_new \<le> 1200104"
proof -
  from created_config_ok[OF assms] have "config_ok c" .
  moreover from this have "gc_maxRetries c \<le> 16" "nat (gc_maxWaitMs c) \<le> 600000" by (auto simp: config_ok_def)
  ultimately show ?thesis using governor_call_ends[of fl p c i es] by simp
qed

theorem governor_created_ends_witness:
  "\<exists>c. createProviderRateGovernor sample_platform (JObj []) = Inr c \<and> moves (\<lambda>x. x) sample_platform c 1 race_events governor_new \<le> 1200104"
proof -
  have "(case createProviderRateGovernor sample_platform (JObj []) of Inr c \<Rightarrow> True | Inl _ \<Rightarrow> False)" by code_simp
  then obtain c where "createProviderRateGovernor sample_platform (JObj []) = Inr c" by (auto split: sum.splits)
  with governor_created_ends[OF this] show ?thesis by blast
qed

end
