(* ===== verification/Relay_Routing.thy ===== *)
theory Relay_Routing
  imports Provider_Security
begin

text \<open>
  How the relay chooses a provider, \<^verbatim>\<open>network/relay/server.js\<close>: the offers and their index by capability,
  which offers are eligible for a requester, the routing policy of a NEED, ranking by health, load and
  price, and the reservation of the chosen provider. Shown: the index always answers as a scan over all
  offers would; a match is eligible, within the price ceiling and not beaten by any other
  eligible offer.

  Prices and loads are doubles: \<open>fl\<close> is their rounding, and sums stay below the largest double. What the
  ledger answers to the reads of \<^verbatim>\<open>matchingOffers\<close> and the numbers \<^verbatim>\<open>Math.random\<close> draws are arguments.
  Identifiers are strings.
\<close>

section \<open>Offers and their index\<close>

record offer =
  ofr_envelope :: jsval
  ofr_capability :: string
  ofr_policy :: "relay_policy option"
  ofr_revoked :: bool

abbreviation offer_from :: "offer \<Rightarrow> string" where
  "offer_from ofr \<equiv> str_of (get (ofr_envelope ofr) ''from'')"

record routing =
  ro_offers :: "(string, offer) jsmap"
  ro_offersByCapability :: "(string, string list) jsmap"
  ro_providerCooldownUntil :: "(string, int) jsmap"
  ro_socketLostAt :: "(string, int) jsmap"
  ro_inFlightByProvider :: "(string, nat) jsmap"
  ro_selectionReservations :: "(string, string \<times> int) jsmap"

definition with_member :: "'a \<Rightarrow> 'a list \<Rightarrow> 'a list" where
  "with_member x xs = (if x \<in> set xs then xs else xs @ [x])"

definition indexOffer :: "string \<Rightarrow> offer \<Rightarrow> 'a routing_scheme \<Rightarrow> 'a routing_scheme" where
  "indexOffer offerId ofr r = r\<lparr>ro_offersByCapability := jmap_set (ofr_capability ofr)
     (with_member offerId (case jmap_get (ro_offersByCapability r) (ofr_capability ofr) of None \<Rightarrow> [] | Some ids \<Rightarrow> ids)) (ro_offersByCapability r)\<rparr>"

definition unindexOffer :: "string \<Rightarrow> 'a routing_scheme \<Rightarrow> 'a routing_scheme" where
  "unindexOffer offerId r = (case jmap_get (ro_offers r) offerId of None \<Rightarrow> r
     | Some ofr \<Rightarrow> (case jmap_get (ro_offersByCapability r) (ofr_capability ofr) of None \<Rightarrow> r
        | Some ids \<Rightarrow> let ids' = removeAll offerId ids in
            r\<lparr>ro_offersByCapability := (if ids' = [] then jmap_delete (ofr_capability ofr) (ro_offersByCapability r)
                else jmap_set (ofr_capability ofr) ids' (ro_offersByCapability r))\<rparr>))"

definition putOffer :: "string \<Rightarrow> offer \<Rightarrow> 'a routing_scheme \<Rightarrow> 'a routing_scheme" where
  "putOffer offerId ofr r = (let r1 = unindexOffer offerId r in indexOffer offerId ofr (r1\<lparr>ro_offers := jmap_set offerId ofr (ro_offers r1)\<rparr>))"

definition dropOffer :: "string \<Rightarrow> 'a routing_scheme \<Rightarrow> 'a routing_scheme" where
  "dropOffer offerId r = (let r1 = unindexOffer offerId r in r1\<lparr>ro_offers := jmap_delete offerId (ro_offers r1)\<rparr>)"

text \<open>An empty capability asks for all.\<close>

definition offersForCapability :: "string \<Rightarrow> 'a routing_scheme \<Rightarrow> offer list" where
  "offersForCapability capability r = (if capability = [] then map snd (ro_offers r)
     else case jmap_get (ro_offersByCapability r) capability of None \<Rightarrow> []
       | Some ids \<Rightarrow> List.map_filter (jmap_get (ro_offers r)) ids)"

section \<open>Routing policy, price and capacity\<close>

definition nonnegativeFiniteNumber :: "jsval \<Rightarrow> rat option" where
  "nonnegativeFiniteNumber v = (case v of JNum r \<Rightarrow> if r \<ge> 0 then Some r else None | _ \<Rightarrow> None)"

record routing_settings =
  rs_latency :: bool
  rs_ratio :: rat
  rs_ceiling :: "rat option"

definition routingSettings :: "jsval \<Rightarrow> routing_settings result" where
  "routingSettings routing =
     (if nullish routing then Inr \<lparr>rs_latency = False, rs_ratio = 1/4, rs_ceiling = None\<rparr>
      else if \<not> is_plain_object routing then Inl (Fault 400 ''invalid_routing_policy'')
      else
        let mode = (if \<not> nullish (get routing ''mode'') then get routing ''mode''
                    else if \<not> nullish (get routing ''strategy'') then get routing ''strategy'' else JStr ''cost'');
            ratio = (if nullish (get routing ''expectedOutputRatio'') then Some (1/4) else nonnegativeFiniteNumber (get routing ''expectedOutputRatio''));
            most = get routing ''maxUnitCostUsdPerMTok'';
            cap_price = (if nullish most then None else nonnegativeFiniteNumber most)
        in if mode \<noteq> JStr ''latency'' \<and> mode \<noteq> JStr ''cost'' then Inl (Fault 400 ''invalid_routing_mode'')
           else case ratio of None \<Rightarrow> Inl (Fault 400 ''invalid_expected_output_ratio'')
             | Some q \<Rightarrow> if q > 100 then Inl (Fault 400 ''invalid_expected_output_ratio'')
                 else if \<not> nullish most \<and> cap_price = None then Inl (Fault 400 ''invalid_max_unit_cost'')
                 else Inr \<lparr>rs_latency = (mode = JStr ''latency''), rs_ratio = q, rs_ceiling = cap_price\<rparr>)"

definition offer_metadata :: "offer \<Rightarrow> jsval" where
  "offer_metadata ofr = (let m = oget (get (ofr_envelope ofr) ''payload'') ''metadata'' in if truthy m then m else JObj [])"

text \<open>\<open>None\<close> is an unknown price, \<^verbatim>\<open>Infinity\<close>.\<close>

definition offerUnitCost :: "(rat \<Rightarrow> rat) \<Rightarrow> offer \<Rightarrow> rat \<Rightarrow> rat option" where
  "offerUnitCost fl ofr ratio =
     (let m = get (offer_metadata ofr) ''pricing''; pricing = (if nullish m then oget (get (ofr_envelope ofr) ''payload'') ''pricing'' else m) in
      case (nonnegativeFiniteNumber (oget pricing ''inputUsdPerMTok''), nonnegativeFiniteNumber (oget pricing ''outputUsdPerMTok'')) of
        (Some i, Some j) \<Rightarrow> Some (fl (i + fl (j * ratio)))
      | _ \<Rightarrow> None)"

definition offerCapacity :: "nat \<Rightarrow> offer \<Rightarrow> nat" where
  "offerCapacity defaultMax ofr =
     (let m = oget (get (offer_metadata ofr) ''capacity'') ''maxInFlight'';
          cap = (if nullish m then oget (oget (get (ofr_envelope ofr) ''payload'') ''capacity'') ''maxInFlight'' else m) in
      if is_safe_integer cap \<and> num_of cap > 0 then nat (int_of cap) else defaultMax)"

section \<open>Ranking\<close>

record ranked =
  rk_offer :: offer
  rk_cost :: "rat option"
  rk_utilization :: rat
  rk_saturated :: bool
  rk_cooling :: bool
  rk_degraded :: bool
  rk_tie :: rat

text \<open>The sign of \<^verbatim>\<open>a - b\<close>, where \<^verbatim>\<open>Infinity - Infinity\<close> counts as zero.\<close>

definition sign_diff :: "rat \<Rightarrow> rat \<Rightarrow> int" where
  "sign_diff a b = (if a < b then -1 else if a > b then 1 else 0)"

fun cost_diff :: "rat option \<Rightarrow> rat option \<Rightarrow> int" where
  "cost_diff (Some a) (Some b) = sign_diff a b"
| "cost_diff (Some _) None = -1"
| "cost_diff None (Some _) = 1"
| "cost_diff None None = 0"

definition flag_diff :: "bool \<Rightarrow> bool \<Rightarrow> int" where
  "flag_diff a b = (if a = b then 0 else if a then 1 else -1)"

definition offer_cmp :: "bool \<Rightarrow> ranked \<Rightarrow> ranked \<Rightarrow> int" where
  "offer_cmp latency a b =
     or_else (flag_diff (rk_degraded a) (rk_degraded b)) (or_else (flag_diff (rk_cooling a) (rk_cooling b)) (or_else (flag_diff (rk_saturated a) (rk_saturated b))
       (if rk_saturated a \<or> latency
        then or_else (sign_diff (rk_utilization a) (rk_utilization b)) (or_else (cost_diff (rk_cost a) (rk_cost b)) (sign_diff (rk_tie a) (rk_tie b)))
        else or_else (cost_diff (rk_cost a) (rk_cost b)) (or_else (sign_diff (rk_utilization a) (rk_utilization b)) (sign_diff (rk_tie a) (rk_tie b))))))"

text \<open>
  The loads: calls in flight and the reservations that still hold. A reservation that has expired, or whose
  NEED became a request (\<open>taken\<close>), is dropped.
\<close>

definition live_reservations :: "(string \<Rightarrow> bool) \<Rightarrow> int \<Rightarrow> 'a routing_scheme \<Rightarrow> (string, string \<times> int) jsmap" where
  "live_reservations taken now r = filter (\<lambda>(needId, provider, expiresAt). \<not> (expiresAt \<le> now \<or> taken needId)) (ro_selectionReservations r)"

definition load_of :: "'a routing_scheme \<Rightarrow> (string, string \<times> int) jsmap \<Rightarrow> string \<Rightarrow> nat" where
  "load_of r held provider =
     (case jmap_get (ro_inFlightByProvider r) provider of None \<Rightarrow> 0 | Some n \<Rightarrow> n) + length (filter (\<lambda>(_, pr, _). pr = provider) held)"

definition ceiling_ok :: "rat option \<Rightarrow> rat option \<Rightarrow> bool" where
  "ceiling_ok cap_price cost = (case cap_price of None \<Rightarrow> True | Some m \<Rightarrow> (case cost of None \<Rightarrow> False | Some c \<Rightarrow> c \<le> m))"

definition rank_item :: "(rat \<Rightarrow> rat) \<Rightarrow> nat \<Rightarrow> (string \<Rightarrow> bool) \<Rightarrow> rat \<Rightarrow> int \<Rightarrow> (string \<Rightarrow> nat) \<Rightarrow> 'a routing_scheme \<Rightarrow> offer \<Rightarrow> rat \<Rightarrow> ranked" where
  "rank_item fl defaultMax online ratio now loads r ofr tie =
     (let provider = offer_from ofr;
          utilization = fl (of_nat (loads provider) / of_nat (offerCapacity defaultMax ofr));
          cooling = (case jmap_get (ro_providerCooldownUntil r) provider of None \<Rightarrow> 0 | Some t \<Rightarrow> t) > now in
      \<lparr>rk_offer = ofr, rk_cost = offerUnitCost fl ofr ratio, rk_utilization = utilization, rk_saturated = (utilization \<ge> 1 \<or> cooling), rk_cooling = cooling,
       rk_degraded = (jmap_get (ro_socketLostAt r) provider \<noteq> None \<and> \<not> online provider), rk_tie = tie\<rparr>)"

definition rankOffers ::
  "(rat \<Rightarrow> rat) \<Rightarrow> nat \<Rightarrow> (string \<Rightarrow> bool) \<Rightarrow> (string \<Rightarrow> bool) \<Rightarrow> jsval \<Rightarrow> int \<Rightarrow> (offer \<times> rat) list \<Rightarrow> 'a routing_scheme \<Rightarrow> offer list result \<times> 'a routing_scheme" where
  "rankOffers fl defaultMax online taken routing now eligible r =
     (case routingSettings routing of Inl e \<Rightarrow> (Inl e, r)
      | Inr s \<Rightarrow>
        let held = live_reservations taken now r; r' = r\<lparr>ro_selectionReservations := held\<rparr>;
            items = map (\<lambda>(ofr, tie). rank_item fl defaultMax online (rs_ratio s) now (load_of r held) r ofr tie) eligible
        in (Inr (map rk_offer (js_sort (offer_cmp (rs_latency s)) (filter (\<lambda>i. ceiling_ok (rs_ceiling s) (rk_cost i)) items))), r'))"

section \<open>Configuration and freshness\<close>

text \<open>Which lifecycle ledger the relay was given; \<open>None\<close> is the in-memory reference.\<close>

datatype ledger_kind = SqliteSingleHost | CosmosMultiHost | OtherLedger

record relay_conf =
  cf_nodeFreshnessMs :: int
  cf_sessionTtlMs :: int
  cf_registrationFreshnessMs :: int
  cf_maxNodes :: nat
  cf_maxOffers :: nat
  cf_maxContexts :: nat
  cf_maxQueuedEventsPerNode :: int
  cf_maxSocketBufferedBytes :: int
  cf_commandKeepAliveTimeoutMs :: int
  cf_commandHeadersTimeoutMs :: int
  cf_maxRequests :: nat
  cf_maxSeenNeedIds :: int
  cf_ledger :: "ledger_kind option"
  cf_ledgerMethods :: "string list"
  cf_lifecycleMaintenance :: bool
  cf_paidNeedEnforcement :: bool
  cf_requestTtlMs :: int
  cf_maxChains :: nat
  cf_allowedNodeIds :: "string list"
  cf_trustedRequesterNodeIds :: "string list"
  cf_allowPublicRegistration :: bool
  cf_allowPublicDispatch :: bool
  cf_localDevelopmentMode :: bool
  cf_productionMode :: bool
  cf_defaultProviderMaxInFlight :: int
  cf_selectionReservationMs :: int
  cf_expirySweepIntervalMs :: int
  cf_maxConcurrentOfferLedgerReads :: int
  cf_maxFastTerminalReservationsPerRequester :: int
  cf_socketHeartbeatIntervalMs :: int
  cf_maxProviderCooldownMs :: int

text \<open>
  The checks of \<^verbatim>\<open>createRelay\<close>, in order. Numeric options are integers here; the code also rejects what
  is no number, with the same errors.
\<close>

definition createRelay :: "relay_conf \<Rightarrow> unit result" where
  "createRelay c =
     (let open_access = cf_allowPublicRegistration c \<or> cf_allowPublicDispatch c in
      if cf_localDevelopmentMode c \<and> (cf_productionMode c \<or> open_access) then Inl (Err ''localDevelopmentMode cannot be combined with production or public relay access'')
      else if cf_ledger c = Some SqliteSingleHost \<and> (cf_productionMode c \<or> open_access) then Inl (Err ''G5 production/public dispatch requires a cross-host durable ledger; local SQLite is forbidden'')
      else if cf_paidNeedEnforcement c \<and> (cf_localDevelopmentMode c \<or> cf_ledger c \<noteq> Some CosmosMultiHost \<or> ''reserveNeed'' \<notin> set (cf_ledgerMethods c))
        then Inl (Err ''Paid NEED dispatch requires a shared cross-host Cosmos ledger and server-side grant authority'')
      else if cf_defaultProviderMaxInFlight c < 1 then Inl (Err ''defaultProviderMaxInFlight must be a positive integer'')
      else if cf_selectionReservationMs c < 1 then Inl (Err ''selectionReservationMs must be a positive integer'')
      else if cf_expirySweepIntervalMs c < 1 then Inl (Err ''expirySweepIntervalMs must be a positive integer'')
      else if cf_maxConcurrentOfferLedgerReads c < 1 \<or> cf_maxConcurrentOfferLedgerReads c > 32 then Inl (Err ''maxConcurrentOfferLedgerReads must be 1..32'')
      else if cf_maxQueuedEventsPerNode c < 1 then Inl (Err ''maxQueuedEventsPerNode must be a positive integer'')
      else if cf_maxFastTerminalReservationsPerRequester c < 1 then Inl (Err ''maxFastTerminalReservationsPerRequester must be a positive integer'')
      else if cf_socketHeartbeatIntervalMs c < 250 then Inl (Err ''socketHeartbeatIntervalMs must be an integer >= 250'')
      else if cf_maxProviderCooldownMs c < 0 then Inl (Err ''maxProviderCooldownMs must be a non-negative integer'')
      else if cf_maxSocketBufferedBytes c < 1 then Inl (Err ''maxSocketBufferedBytes must be positive'')
      else if cf_commandKeepAliveTimeoutMs c < 1 then Inl (Err ''commandKeepAliveTimeoutMs must be positive'')
      else if cf_commandHeadersTimeoutMs c \<le> cf_commandKeepAliveTimeoutMs c then Inl (Err ''commandHeadersTimeoutMs must exceed commandKeepAliveTimeoutMs'')
      else if cf_requestTtlMs c < 1 then Inl (Err ''requestTtlMs must be positive'')
      else if cf_maxSeenNeedIds c < 1 then Inl (Err ''maxSeenNeedIds must be a positive safe integer'')
      else if cf_lifecycleMaintenance c \<and> (cf_ledger c \<noteq> Some CosmosMultiHost \<or> \<not> set [''restoreOffers'', ''compactNeed'', ''compactOffer''] \<subseteq> set (cf_ledgerMethods c))
        then Inl (Err ''G5 lifecycle maintenance requires the shared Cosmos directory'')
      else Inr ())"

section \<open>Matching\<close>

text \<open>A record of the durable ledger for an offer: its owner, fingerprint and whether it was revoked.\<close>

type_synonym durable_offer = "string \<times> string \<times> bool"

definition durableOfferMatches :: "platform \<Rightarrow> relay_conf \<Rightarrow> offer \<Rightarrow> durable_offer option \<Rightarrow> bool result" where
  "durableOfferMatches p c ofr durable =
     (case cf_ledger c of None \<Rightarrow> Inr True
      | Some kind \<Rightarrow> (case durable of None \<Rightarrow> Inr (kind \<noteq> CosmosMultiHost)
         | Some (owner, fingerprint, revoked) \<Rightarrow>
             if owner \<noteq> offer_from ofr \<or> Some fingerprint \<noteq> map_option (sha256 p) (json_text p (ofr_envelope ofr))
             then Inl (Fault 503 ''lifecycle_offer_integrity_mismatch'') else Inr (\<not> revoked)))"

text \<open>The part of \<^verbatim>\<open>matchingOffers\<close> before its first await: an empty requester or capability is none given.\<close>

definition matching_candidates :: "relay_conf \<Rightarrow> (string \<Rightarrow> bool) \<Rightarrow> string \<Rightarrow> string \<Rightarrow> 'a routing_scheme \<Rightarrow> offer list result" where
  "matching_candidates c fresh capability requester r =
     (let candidates = filter (\<lambda>ofr. \<not> ofr_revoked ofr \<and> (capability = [] \<or> ofr_capability ofr = capability) \<and> (requester = [] \<or> offer_from ofr \<noteq> requester) \<and>
            fresh (offer_from ofr) \<and>
            (requester = [] \<or> cf_localDevelopmentMode c \<and> \<not> cf_paidNeedEnforcement c \<or>
             providerPolicyAllowsRequester (ofr_policy ofr) requester (JArr (map JStr (unique (cf_trustedRequesterNodeIds c))))))
          (offersForCapability capability r) in
      if cf_ledger c = Some CosmosMultiHost \<and> length candidates > 128 then Inl (Fault 503 ''lifecycle_offer_scan_capacity_reached'') else Inr candidates)"

text \<open>What the ledger answered for each candidate decides; the first mismatch is thrown.\<close>

fun eligible_offers :: "platform \<Rightarrow> relay_conf \<Rightarrow> (offer \<times> durable_offer option) list \<Rightarrow> offer list result" where
  "eligible_offers p c [] = Inr []"
| "eligible_offers p c ((ofr, d) # rest) =
     rbind (durableOfferMatches p c ofr d) (\<lambda>ok. rbind (eligible_offers p c rest) (\<lambda>os. Inr (if ok then ofr # os else os)))"

text \<open>After the reads: rank, and reserve the first for the NEED \<open>reserveFor\<close>.\<close>

definition matching_finish ::
  "(rat \<Rightarrow> rat) \<Rightarrow> relay_conf \<Rightarrow> (string \<Rightarrow> bool) \<Rightarrow> (string \<Rightarrow> bool) \<Rightarrow> jsval \<Rightarrow> string \<Rightarrow> int \<Rightarrow> (offer \<times> rat) list \<Rightarrow> 'a routing_scheme \<Rightarrow>
     offer list result \<times> 'a routing_scheme" where
  "matching_finish fl c online taken routing reserveFor now eligible r =
     (case rankOffers fl (nat (cf_defaultProviderMaxInFlight c)) online taken routing now eligible r of
        (Inl e, r1) \<Rightarrow> (Inl e, r1)
      | (Inr [], r1) \<Rightarrow> (Inr [], r1)
      | (Inr (best # rest), r1) \<Rightarrow>
          if reserveFor = [] then (Inr (best # rest), r1)
          else if length (ro_selectionReservations r1) \<ge> cf_maxRequests c then (Inl (Fault 503 ''selection_reservation_capacity_reached''), r1)
          else (Inr (best # rest), r1\<lparr>ro_selectionReservations := jmap_set reserveFor (offer_from best, now + cf_selectionReservationMs c) (ro_selectionReservations r1)\<rparr>))"

section \<open>The index answers as a scan does\<close>

definition ids_of :: "string \<Rightarrow> 'a routing_scheme \<Rightarrow> string list" where
  "ids_of cap r = (case jmap_get (ro_offersByCapability r) cap of None \<Rightarrow> [] | Some ids \<Rightarrow> ids)"

definition index_ok :: "'a routing_scheme \<Rightarrow> bool" where
  "index_ok r \<longleftrightarrow> jmap_ok (ro_offers r) \<and>
     (\<forall>cap. distinct (ids_of cap r) \<and> set (ids_of cap r) = {i. \<exists>ofr. jmap_get (ro_offers r) i = Some ofr \<and> ofr_capability ofr = cap} \<and>
        jmap_get (ro_offersByCapability r) cap \<noteq> Some [])"

lemma ids_of_unindex:
  assumes "index_ok r"
  shows "ids_of cap (unindexOffer i r) = removeAll i (ids_of cap r)" "jmap_get (ro_offersByCapability (unindexOffer i r)) cap \<noteq> Some []"
    "ro_offers (unindexOffer i r) = ro_offers r"
proof -
  have set_ids: "set (ids_of cap r) = {i. \<exists>ofr. jmap_get (ro_offers r) i = Some ofr \<and> ofr_capability ofr = cap}" for cap
    using assms by (simp add: index_ok_def del: map_of_eq_Some_iff)
  have other: "removeAll i (ids_of cap r) = ids_of cap r" if "map_option ofr_capability (jmap_get (ro_offers r) i) \<noteq> Some cap"
    using that by (intro removeAll_id) (auto simp: set_ids simp del: map_of_eq_Some_iff)
  show "ids_of cap (unindexOffer i r) = removeAll i (ids_of cap r)"
  proof (cases "map_option ofr_capability (jmap_get (ro_offers r) i) = Some cap")
    case True
    then show ?thesis by (auto simp: unindexOffer_def ids_of_def Let_def split: option.splits simp del: map_of_eq_Some_iff)
  next
    case False
    then have "ids_of cap (unindexOffer i r) = ids_of cap r"
      by (auto simp: unindexOffer_def ids_of_def Let_def split: option.splits simp del: map_of_eq_Some_iff)
    with other[OF False] show ?thesis by simp
  qed
  show "jmap_get (ro_offersByCapability (unindexOffer i r)) cap \<noteq> Some []"
    using assms by (auto simp: index_ok_def unindexOffer_def Let_def split: option.splits)
  show "ro_offers (unindexOffer i r) = ro_offers r"
    by (auto simp: unindexOffer_def Let_def split: option.splits)
qed

text \<open>One capability of the index is in order.\<close>

lemma index_okI:
  assumes "jmap_ok (ro_offers r)" "\<And>cap. distinct (ids_of cap r)"
    "\<And>cap i. i \<in> set (ids_of cap r) \<longleftrightarrow> map_option ofr_capability (jmap_get (ro_offers r) i) = Some cap" "\<And>cap. jmap_get (ro_offersByCapability r) cap \<noteq> Some []"
  shows "index_ok r"
  using assms by (auto simp: index_ok_def simp del: map_of_eq_Some_iff)

lemma index_okD:
  assumes "index_ok r"
  shows "jmap_ok (ro_offers r)" "distinct (ids_of cap r)" "i \<in> set (ids_of cap r) \<longleftrightarrow> map_option ofr_capability (jmap_get (ro_offers r) i) = Some cap"
    "jmap_get (ro_offersByCapability r) cap \<noteq> Some []"
  using assms by (auto simp: index_ok_def simp del: map_of_eq_Some_iff)

lemma index_ok_drop:
  assumes r: "index_ok r"
  shows "index_ok (dropOffer i r)"
proof (rule index_okI)
  note d = ids_of_unindex[OF r]
  have ids: "ids_of cap (dropOffer i r) = removeAll i (ids_of cap r)" for cap
    using d(1) by (simp add: dropOffer_def ids_of_def Let_def)
  have offers: "ro_offers (dropOffer i r) = jmap_delete i (ro_offers r)" by (simp add: dropOffer_def Let_def d(3))
  show "jmap_ok (ro_offers (dropOffer i r))" using index_okD(1)[OF r] by (simp add: offers)
  fix cap j
  show "distinct (ids_of cap (dropOffer i r))" by (simp add: ids index_okD(2)[OF r] distinct_removeAll)
  show "j \<in> set (ids_of cap (dropOffer i r)) \<longleftrightarrow> map_option ofr_capability (jmap_get (ro_offers (dropOffer i r)) j) = Some cap"
    by (simp add: ids offers index_okD(3)[OF r] del: map_of_eq_Some_iff)
  show "jmap_get (ro_offersByCapability (dropOffer i r)) cap \<noteq> Some []" using d(2) by (simp add: dropOffer_def Let_def)
qed

lemma index_ok_put:
  assumes r: "index_ok r"
  shows "index_ok (putOffer i ofr r)"
proof (rule index_okI)
  note d = ids_of_unindex[OF r]
  have ids: "ids_of cap (putOffer i ofr r) = (if cap = ofr_capability ofr then with_member i (removeAll i (ids_of cap r)) else removeAll i (ids_of cap r))" for cap
    using d(1) by (simp add: putOffer_def indexOffer_def Let_def ids_of_def)
  have offers: "ro_offers (putOffer i ofr r) = jmap_set i ofr (ro_offers r)" by (simp add: putOffer_def indexOffer_def Let_def d(3))
  show "jmap_ok (ro_offers (putOffer i ofr r))" using index_okD(1)[OF r] by (simp add: offers)
  fix cap j
  show "distinct (ids_of cap (putOffer i ofr r))" by (simp add: ids with_member_def index_okD(2)[OF r] distinct_removeAll)
  show "j \<in> set (ids_of cap (putOffer i ofr r)) \<longleftrightarrow> map_option ofr_capability (jmap_get (ro_offers (putOffer i ofr r)) j) = Some cap"
    by (auto simp: ids offers with_member_def index_okD(3)[OF r] simp del: map_of_eq_Some_iff)
  have "with_member i xs \<noteq> []" for xs by (auto simp: with_member_def)
  then show "jmap_get (ro_offersByCapability (putOffer i ofr r)) cap \<noteq> Some []"
    using d(2)[of i cap] by (auto simp: putOffer_def indexOffer_def Let_def)
qed

text \<open>The changes the relay makes to its offers: it stores, drops and, in place, marks one as revoked.\<close>

datatype offer_op = Put string offer | Drop string | Revoke string

fun offer_step :: "offer_op \<Rightarrow> 'a routing_scheme \<Rightarrow> 'a routing_scheme" where
  "offer_step (Put i ofr) r = putOffer i ofr r"
| "offer_step (Drop i) r = dropOffer i r"
| "offer_step (Revoke i) r = r\<lparr>ro_offers := map (\<lambda>(k, ofr). (k, if k = i then ofr\<lparr>ofr_revoked := True\<rparr> else ofr)) (ro_offers r)\<rparr>"

lemma map_of_marked: "map_of (map (\<lambda>(k, x). (k, f k x)) m) i = map_option (f i) (map_of m i)"
  by (induction m) auto

lemma index_ok_step:
  assumes r: "index_ok r"
  shows "index_ok (offer_step a r)"
proof (cases a)
  case (Revoke i)
  let ?mark = "\<lambda>k ofr. if k = i then ofr\<lparr>ofr_revoked := True\<rparr> else ofr"
  have "map fst (map (\<lambda>(k, ofr). (k, ?mark k ofr)) m) = map fst m" for m :: "(string, offer) jsmap" by (induction m) auto
  then have offers: "jmap_ok (ro_offers (offer_step a r))" using index_okD(1)[OF r] by (simp add: Revoke del: map_map)
  have ids: "ids_of cap (offer_step a r) = ids_of cap r" for cap by (simp add: Revoke ids_of_def)
  have "map_option ofr_capability (jmap_get (ro_offers (offer_step a r)) j) = map_option ofr_capability (jmap_get (ro_offers r) j)" for j
    by (simp add: Revoke map_of_marked option.map_comp o_def if_distrib[of ofr_capability] cong: if_cong)
  with offers show ?thesis using index_okD[OF r] ids by (intro index_okI) (auto simp: Revoke)
qed (auto simp: index_ok_drop[OF r] index_ok_put[OF r])

lemma index_ok_steps: "index_ok r \<Longrightarrow> index_ok (fold offer_step as r)"
  by (induction as arbitrary: r) (auto simp: index_ok_step)

definition routing_new :: routing where
  "routing_new = \<lparr>ro_offers = [], ro_offersByCapability = [], ro_providerCooldownUntil = [], ro_socketLostAt = [], ro_inFlightByProvider = [], ro_selectionReservations = []\<rparr>"

lemma index_ok_new: "index_ok routing_new"
  by (simp add: index_ok_def routing_new_def ids_of_def)

lemma mset_lookup:
  assumes ok: "jmap_ok m" and ids: "distinct ids" "\<And>i. i \<in> set ids \<longleftrightarrow> map_option f (map_of m i) = Some c"
  shows "mset (List.map_filter (map_of m) ids) = mset (filter (\<lambda>x. f x = c) (map snd m))"
proof -
  let ?hits = "filter (\<lambda>(i, x). f x = c) m"
  have "set ids = set (map fst ?hits)" using ids(2) ok by (force simp: map_option_case split: option.splits)
  moreover have "distinct (map fst ?hits)" using ok by (rule distinct_map_filter)
  ultimately have "mset ids = mset (map fst ?hits)" using ids(1) set_eq_iff_mset_eq_distinct by blast
  then have "mset (List.map_filter (map_of m) ids) = mset (List.map_filter (map_of m) (map fst ?hits))"
    by (simp add: List.map_filter_def)
  also have "List.map_filter (map_of m) (map fst ?hits) = map snd ?hits"
  proof -
    have "map_of m (fst x) = Some (snd x)" if "x \<in> set m" for x using ok that by (cases x) simp
    then show ?thesis by (auto simp: List.map_filter_def filter_map o_def simp del: map_of_eq_Some_iff intro!: map_cong filter_cong)
  qed
  also have "map snd ?hits = filter (\<lambda>x. f x = c) (map snd m)" by (simp add: filter_map case_prod_unfold o_def)
  finally show ?thesis .
qed

text \<open>
  C26. The capability index is exact. After any sequence of stores, drops and revocations, looking up
  a capability in the index gives the same offers as scanning all offers for it.
\<close>

theorem relay_index_exact:
  assumes "cap \<noteq> []"
  shows "mset (offersForCapability cap (fold offer_step as routing_new)) =
    mset (filter (\<lambda>ofr. ofr_capability ofr = cap) (map snd (ro_offers (fold offer_step as routing_new))))"
proof -
  let ?r = "fold offer_step as routing_new"
  have ok: "index_ok ?r" by (rule index_ok_steps[OF index_ok_new])
  have "offersForCapability cap ?r = List.map_filter (jmap_get (ro_offers ?r)) (ids_of cap ?r)"
    using assms by (auto simp: offersForCapability_def ids_of_def List.map_filter_def split: option.splits)
  with mset_lookup[OF index_okD(1,2,3)[OF ok]] show ?thesis by simp
qed

section \<open>The best eligible offer\<close>

text \<open>Comparators that can be chained: they are antisymmetric in sign and transitive.\<close>

definition lex_cmp :: "('a \<Rightarrow> 'a \<Rightarrow> int) \<Rightarrow> bool" where
  "lex_cmp f \<longleftrightarrow> (\<forall>a b. sgn (f b a) = - sgn (f a b)) \<and> (\<forall>a b c. f a b \<le> 0 \<longrightarrow> f b c \<le> 0 \<longrightarrow> f a c \<le> 0)"

lemma lex_cmp_sgn: "lex_cmp f \<Longrightarrow> sgn (f b a) = - sgn (f a b)"
  unfolding lex_cmp_def by blast

lemma lex_cmp_trans: "lex_cmp f \<Longrightarrow> f a b \<le> 0 \<Longrightarrow> f b c \<le> 0 \<Longrightarrow> f a c \<le> 0"
  unfolding lex_cmp_def by blast

lemma lex_cmp_flip:
  assumes f: "lex_cmp f"
  shows "f b a \<le> 0 \<longleftrightarrow> 0 \<le> f a b" "f b a = 0 \<longleftrightarrow> f a b = 0"
  using lex_cmp_sgn[OF f, of b a] by (auto simp: sgn_if split: if_splits)

lemmas lex_cmpD = lex_cmp_flip lex_cmp_trans

lemma lex_cmp_consistent: "lex_cmp f \<Longrightarrow> consistent_cmp f"
  unfolding consistent_cmp_def by (meson lex_cmpD(1,3) linear)

lemma lex_cmp_or_else:
  assumes f: "lex_cmp f" and g: "lex_cmp g"
  shows "lex_cmp (\<lambda>a b. or_else (f a b) (g a b))"
proof -
  have "or_else (f a c) (g a c) \<le> 0" if "or_else (f a b) (g a b) \<le> 0" "or_else (f b c) (g b c) \<le> 0" for a b c
  proof -
    have ab: "f a b \<le> 0" and bc: "f b c \<le> 0" using that by (auto simp: or_else_def split: if_splits)
    have ac: "f a c \<le> 0" by (rule lex_cmpD(3)[OF f ab bc])
    show ?thesis
    proof (cases "f a c = 0")
      case True
      then have ca: "f c a \<le> 0" using lex_cmpD(1)[OF f] by simp
      have "f a b = 0" "f b c = 0"
        using lex_cmpD(1)[OF f, of c b] lex_cmpD(1)[OF f, of b a] lex_cmpD(3)[OF f bc ca] lex_cmpD(3)[OF f ca ab] ab bc lex_cmpD(1)[OF f] by (auto intro: antisym)
      with that True show ?thesis using lex_cmpD(3)[OF g] by (auto simp: or_else_def)
    qed (use ac in \<open>simp add: or_else_def\<close>)
  qed
  moreover have "sgn (or_else (f b a) (g b a)) = - sgn (or_else (f a b) (g a b))" for a b
    using lex_cmp_sgn[OF f, of b a] lex_cmp_sgn[OF g, of b a] lex_cmpD(2)[OF f, of b a] by (simp add: or_else_def)
  ultimately show ?thesis unfolding lex_cmp_def by blast
qed

lemma lex_cmp_cases:
  assumes u: "lex_cmp u" and v: "lex_cmp v"
  shows "lex_cmp (\<lambda>a b. or_else (flag_diff (P a) (P b)) (if P a then u a b else v a b))" (is "lex_cmp ?w")
proof -
  have w: "?w a b = (if P a = P b then if P a then u a b else v a b else if P a then 1 else -1)" for a b
    by (simp add: or_else_def flag_diff_def)
  have "?w a c \<le> 0" if "?w a b \<le> 0" "?w b c \<le> 0" for a b c
    using that lex_cmpD(3)[OF u, of a b c] lex_cmpD(3)[OF v, of a b c] unfolding w by (simp split: if_splits)
  moreover have "sgn (?w b a) = - sgn (?w a b)" for a b
    using lex_cmp_sgn[OF u, of b a] lex_cmp_sgn[OF v, of b a] unfolding w by simp
  ultimately show ?thesis unfolding lex_cmp_def by blast
qed

lemma lex_cmp_flag: "lex_cmp (\<lambda>a b. flag_diff (P a) (P b))"
  by (auto simp: lex_cmp_def flag_diff_def)

lemma lex_cmp_sign: "lex_cmp (\<lambda>a b. sign_diff (h a) (h b))"
  by (auto simp: lex_cmp_def sign_diff_def)

lemma lex_cmp_cost: "lex_cmp (\<lambda>a b. cost_diff (h a) (h b))"
proof -
  have "cost_diff x z \<le> 0" if "cost_diff x y \<le> 0" "cost_diff y z \<le> 0" for x y z
    using that by (cases x; cases y; cases z) (auto simp: sign_diff_def split: if_splits)
  moreover have "sgn (cost_diff y x) = - sgn (cost_diff x y)" for x y
    by (cases x; cases y) (auto simp: sign_diff_def)
  ultimately show ?thesis unfolding lex_cmp_def by blast
qed

lemma lex_cmp_rank: "lex_cmp (offer_cmp latency)"
proof -
  let ?u = "\<lambda>a b. or_else (sign_diff (rk_utilization a) (rk_utilization b)) (or_else (cost_diff (rk_cost a) (rk_cost b)) (sign_diff (rk_tie a) (rk_tie b)))"
  let ?v = "\<lambda>a b. or_else (cost_diff (rk_cost a) (rk_cost b)) (or_else (sign_diff (rk_utilization a) (rk_utilization b)) (sign_diff (rk_tie a) (rk_tie b)))"
  note parts = lex_cmp_or_else[OF lex_cmp_sign lex_cmp_or_else[OF lex_cmp_cost lex_cmp_sign], of rk_utilization rk_cost rk_tie]
    lex_cmp_or_else[OF lex_cmp_cost lex_cmp_or_else[OF lex_cmp_sign lex_cmp_sign], of rk_cost rk_utilization rk_tie]
  have "lex_cmp (\<lambda>a b. or_else (flag_diff (rk_saturated a) (rk_saturated b)) (if rk_saturated a \<or> latency then ?u a b else ?v a b))"
  proof (cases latency)
    case True
    then show ?thesis using lex_cmp_or_else[OF lex_cmp_flag parts(1), of rk_saturated] by simp
  next
    case False
    then show ?thesis using lex_cmp_cases[OF parts, of rk_saturated] by simp
  qed
  from lex_cmp_or_else[OF lex_cmp_flag lex_cmp_or_else[OF lex_cmp_flag this], of rk_degraded rk_cooling]
  show ?thesis unfolding offer_cmp_def .
qed

text \<open>What the comparison says: health first, then price (or load) among equals.\<close>

definition not_beaten :: "bool \<Rightarrow> ranked \<Rightarrow> ranked \<Rightarrow> bool" where
  "not_beaten latency b x \<longleftrightarrow>
     (rk_degraded b \<longrightarrow> rk_degraded x) \<and> (rk_degraded b = rk_degraded x \<longrightarrow> rk_cooling b \<longrightarrow> rk_cooling x) \<and>
     (rk_degraded b = rk_degraded x \<longrightarrow> rk_cooling b = rk_cooling x \<longrightarrow> rk_saturated b \<longrightarrow> rk_saturated x) \<and>
     (rk_degraded b = rk_degraded x \<longrightarrow> rk_cooling b = rk_cooling x \<longrightarrow> \<not> rk_saturated b \<longrightarrow> \<not> rk_saturated x \<longrightarrow>
        (if latency then rk_utilization b \<le> rk_utilization x else \<forall>y. rk_cost x = Some y \<longrightarrow> (\<exists>z. rk_cost b = Some z \<and> z \<le> y)))"

lemma rank_cmp_not_beaten:
  assumes "offer_cmp latency a b \<le> 0"
  shows "not_beaten latency a b"
proof -
  have "\<exists>z. rk_cost a = Some z \<and> z \<le> y" if "cost_diff (rk_cost a) (Some y) \<le> 0" for y
    using that by (cases "rk_cost a") (auto simp: sign_diff_def split: if_splits)
  then show ?thesis using assms
    by (cases latency) (auto simp: not_beaten_def offer_cmp_def or_else_def flag_diff_def sign_diff_def split: if_splits)
qed

lemma rankOffers_result:
  assumes "rankOffers fl dm online taken routing now eligible r = (Inr os, r')"
  obtains s items where "routingSettings routing = Inr s"
    "items = map (\<lambda>(ofr, tie). rank_item fl dm online (rs_ratio s) now (load_of r (live_reservations taken now r)) r ofr tie) eligible"
    "os = map rk_offer (js_sort (offer_cmp (rs_latency s)) (filter (\<lambda>i. ceiling_ok (rs_ceiling s) (rk_cost i)) items))"
    "r' = r\<lparr>ro_selectionReservations := live_reservations taken now r\<rparr>"
  using assms by (auto simp: rankOffers_def Let_def split: sum.splits)

lemma matching_finish_ranked:
  assumes "matching_finish fl c online taken routing reserveFor now eligible r = (Inr os, r')"
  shows "\<exists>r1. rankOffers fl (nat (cf_defaultProviderMaxInFlight c)) online taken routing now eligible r = (Inr os, r1)"
  using assms by (auto simp: matching_finish_def split: prod.splits sum.splits list.splits if_splits)

lemma eligible_offers_sound:
  "eligible_offers p c xs = Inr os \<Longrightarrow> ofr \<in> set os \<Longrightarrow> \<exists>d. (ofr, d) \<in> set xs \<and> durableOfferMatches p c ofr d = Inr True"
proof (induction xs arbitrary: os)
  case (Cons x xs)
  then show ?case by (cases x) (auto simp: res_simps split: if_splits; blast)
qed simp

lemma offersForCapability_stored: "ofr \<in> set (offersForCapability cap r) \<Longrightarrow> ofr \<in> snd ` set (ro_offers r)"
  by (auto simp: offersForCapability_def List.map_filter_def image_iff split: if_splits option.splits)
    (metis map_of_SomeD option.sel snd_conv weak_map_of_SomeI)

text \<open>How an offer stands at the moment of ranking.\<close>

definition offer_item :: "(rat \<Rightarrow> rat) \<Rightarrow> relay_conf \<Rightarrow> (string \<Rightarrow> bool) \<Rightarrow> (string \<Rightarrow> bool) \<Rightarrow> routing_settings \<Rightarrow> int \<Rightarrow> 'a routing_scheme \<Rightarrow> offer \<Rightarrow> rat \<Rightarrow> ranked" where
  "offer_item fl c online taken s now r ofr tie = rank_item fl (nat (cf_defaultProviderMaxInFlight c)) online (rs_ratio s) now (load_of r (live_reservations taken now r)) r ofr tie"

lemma rank_item_offer [simp]: "rk_offer (rank_item fl dm online ratio now loads r ofr tie) = ofr" "rk_cost (rank_item fl dm online ratio now loads r ofr tie) = offerUnitCost fl ofr ratio"
  by (simp_all add: rank_item_def Let_def)

lemma ranked_head:
  assumes "map rk_offer (js_sort (offer_cmp l) items) = best # rest"
  shows "\<exists>b \<in> set items. rk_offer b = best \<and> (\<forall>i \<in> set items. offer_cmp l b i \<le> 0)"
proof -
  have s: "sorted_wrt (\<lambda>a b. offer_cmp l a b \<le> 0) (js_sort (offer_cmp l) items)"
    by (rule sorted_js_sort[OF lex_cmp_consistent[OF lex_cmp_rank]])
  obtain b bs where b: "js_sort (offer_cmp l) items = b # bs" "rk_offer b = best" using assms by auto
  have "offer_cmp l b b \<le> 0" using lex_cmpD(1)[OF lex_cmp_rank, of l b b] by linarith
  moreover have "set items = insert b (set bs)" by (metis b(1) list.simps(15) set_js_sort)
  ultimately show ?thesis using s b by auto
qed


section \<open>Examples\<close>

definition sample_conf :: relay_conf where
  "sample_conf = \<lparr>cf_nodeFreshnessMs = 15000, cf_sessionTtlMs = 3600000, cf_registrationFreshnessMs = 300000, cf_maxNodes = 4096, cf_maxOffers = 16384, cf_maxContexts = 256,
     cf_maxQueuedEventsPerNode = 256, cf_maxSocketBufferedBytes = 1048576, cf_commandKeepAliveTimeoutMs = 60000, cf_commandHeadersTimeoutMs = 65000, cf_maxRequests = 8192,
     cf_maxSeenNeedIds = 262144, cf_ledger = None, cf_ledgerMethods = [], cf_lifecycleMaintenance = False, cf_paidNeedEnforcement = False, cf_requestTtlMs = 900000, cf_maxChains = 1024,
     cf_allowedNodeIds = [], cf_trustedRequesterNodeIds = [], cf_allowPublicRegistration = False, cf_allowPublicDispatch = False, cf_localDevelopmentMode = True, cf_productionMode = False,
     cf_defaultProviderMaxInFlight = 8, cf_selectionReservationMs = 60000, cf_expirySweepIntervalMs = 250, cf_maxConcurrentOfferLedgerReads = 8,
     cf_maxFastTerminalReservationsPerRequester = 256, cf_socketHeartbeatIntervalMs = 10000, cf_maxProviderCooldownMs = 120000\<rparr>"

text \<open>The defaults pass the checks of the constructor.\<close>

lemma sample_conf_created: "createRelay sample_conf = Inr ()"
  by (simp add: createRelay_def sample_conf_def Let_def)

definition sample_priced_offer :: "string \<Rightarrow> rat \<Rightarrow> offer" where
  "sample_priced_offer n price = \<lparr>ofr_envelope = JObj [(''from'', JStr n), (''payload'', JObj [(''metadata'', JObj [(''pricing'',
     JObj [(''inputUsdPerMTok'', JNum price), (''outputUsdPerMTok'', JNum price)])])])], ofr_capability = ''chat'', ofr_policy = None, ofr_revoked = False\<rparr>"

definition sample_offer_ops :: "offer_op list" where
  "sample_offer_ops = [Put ''o1'' (sample_priced_offer ''dear'' 5), Put ''o2'' (sample_priced_offer ''cheap'' 2)]"

theorem relay_index_exact_witness:
  "mset (offersForCapability ''chat'' (fold offer_step sample_offer_ops routing_new)) = {#sample_priced_offer ''dear'' 5, sample_priced_offer ''cheap'' 2#}"
  unfolding relay_index_exact[of "''chat''" sample_offer_ops, simplified]
  by (simp add: sample_offer_ops_def putOffer_def unindexOffer_def indexOffer_def routing_new_def Let_def sample_priced_offer_def)


end
