(* ===== verification/Relay_State.thy ===== *)
theory Relay_State
  imports Relay_Routing Lifecycle_Ledger Negotiation
begin

text \<open>
  The state of the relay, \<^verbatim>\<open>network/relay/server.js\<close>, and the operations its handlers share: nodes and sessions,
  the event queues with their sockets and long polls, reservations for terminal events, requests and
  the counts of calls in flight, admission of NEED identifiers.

  The relay is modelled with no ledger and with the SQLite ledger of \<open>Lifecycle_Ledger\<close>; what only the Cosmos
  ledger switches on (recovery of unknown requests, maintenance, paid admission) is left out, as are
  chains. A request is a mutable object that handlers keep across their awaits, so requests live in a store
  and the map holds addresses. Times are the instants their texts stand for. What is handed to a node over
  a socket or a poll is appended to a log; an event is its JSON value without the advisory trust score.
\<close>

section \<open>State\<close>

record relay_node =
  nd_publicKey :: jsval
  nd_sessionToken :: string
  nd_lastSeenAt :: int

datatype req_mode = Fast | Legacy

record request =
  rq_needId :: string
  rq_requester :: string
  rq_provider :: string
  rq_capability :: string
  rq_mode :: req_mode
  rq_status :: need_status
  rq_createdAt :: int
  rq_lastPartialAt :: "int option"
  rq_nextPartial :: nat
  rq_lastPartialDigest :: "string option"
  rq_terminalReserved :: bool

record relay = routing +
  re_nodes :: "(string, relay_node) jsmap"
  re_sessions :: "(string, string \<times> int) jsmap"
  re_usedRegistrationIds :: "(string, int) jsmap"
  re_events :: "(string, jsval list) jsmap"
  re_fastEvents :: "(string, jsval list) jsmap"
  re_fastTerminalEvents :: "(string, jsval list) jsmap"
  re_fastTerminalReservations :: "(string, nat) jsmap"
  re_fastWaiters :: "string list"
  re_legacyWaiters :: "string list"
  re_resultWaiters :: "string list"
  re_providerSockets :: "(string, nat) jsmap"
  re_openSockets :: "nat list"
  re_requests :: "(string, nat) jsmap"
  re_heap :: "request list"
  re_seenNeedIds :: "string list"
  re_pendingOfferReservations :: nat
  re_stats :: "(string, nat) jsmap"
  re_ledger :: "ledger option"
  re_delivered :: "(string \<times> jsval) list"

definition relay_new :: "ledger option \<Rightarrow> relay" where
  "relay_new l = \<lparr>ro_offers = [], ro_offersByCapability = [], ro_providerCooldownUntil = [], ro_socketLostAt = [], ro_inFlightByProvider = [], ro_selectionReservations = [],
     re_nodes = [], re_sessions = [], re_usedRegistrationIds = [], re_events = [], re_fastEvents = [], re_fastTerminalEvents = [], re_fastTerminalReservations = [],
     re_fastWaiters = [], re_legacyWaiters = [], re_resultWaiters = [], re_providerSockets = [], re_openSockets = [], re_requests = [], re_heap = [], re_seenNeedIds = [],
     re_pendingOfferReservations = 0, re_stats = [], re_ledger = l, re_delivered = []\<rparr>"

definition nat_at :: "(string, nat) jsmap \<Rightarrow> string \<Rightarrow> nat" where
  "nat_at m k = (case jmap_get m k of None \<Rightarrow> 0 | Some n \<Rightarrow> n)"

definition list_at :: "(string, 'v list) jsmap \<Rightarrow> string \<Rightarrow> 'v list" where
  "list_at m k = (case jmap_get m k of None \<Rightarrow> [] | Some xs \<Rightarrow> xs)"

section \<open>Nodes and sessions\<close>

definition touch :: "int \<Rightarrow> string \<Rightarrow> relay \<Rightarrow> relay" where
  "touch now n r = (case jmap_get (re_nodes r) n of None \<Rightarrow> r | Some nd \<Rightarrow> r\<lparr>re_nodes := jmap_set n (nd\<lparr>nd_lastSeenAt := now\<rparr>) (re_nodes r)\<rparr>)"

definition nodeSeenAtMs :: "string \<Rightarrow> relay \<Rightarrow> int" where
  "nodeSeenAtMs n r = (case jmap_get (re_nodes r) n of None \<Rightarrow> 0 | Some nd \<Rightarrow> nd_lastSeenAt nd)"

definition connectedSocket :: "string \<Rightarrow> relay \<Rightarrow> bool" where
  "connectedSocket n r = (case jmap_get (re_providerSockets r) n of None \<Rightarrow> False | Some s \<Rightarrow> s \<in> set (re_openSockets r))"

definition isNodeFresh :: "relay_conf \<Rightarrow> int \<Rightarrow> relay \<Rightarrow> string \<Rightarrow> bool" where
  "isNodeFresh c now r n = (connectedSocket n r \<or> nodeSeenAtMs n r > 0 \<and> now - nodeSeenAtMs n r \<le> cf_nodeFreshnessMs c)"

text \<open>A bearer token names a node while its session has not expired and is the node's current one.\<close>

definition authenticatedNodeId :: "string option \<Rightarrow> int \<Rightarrow> relay \<Rightarrow> string option \<times> relay" where
  "authenticatedNodeId token now r = (case token of None \<Rightarrow> (None, r)
     | Some t \<Rightarrow> if t = [] then (None, r) else (case jmap_get (re_sessions r) t of None \<Rightarrow> (None, r)
        | Some (n, expiresAt) \<Rightarrow> if now \<ge> expiresAt then (None, r\<lparr>re_sessions := jmap_delete t (re_sessions r)\<rparr>)
            else (case jmap_get (re_nodes r) n of None \<Rightarrow> (None, r)
               | Some nd \<Rightarrow> if nd_sessionToken nd \<noteq> t then (None, r) else (Some n, r))))"

definition nodeSessionActive :: "string \<Rightarrow> int \<Rightarrow> relay \<Rightarrow> bool" where
  "nodeSessionActive n now r = (case jmap_get (re_nodes r) n of None \<Rightarrow> False
     | Some nd \<Rightarrow> nd_sessionToken nd \<noteq> [] \<and> (case jmap_get (re_sessions r) (nd_sessionToken nd) of None \<Rightarrow> False | Some (m, expiresAt) \<Rightarrow> m = n \<and> now < expiresAt))"

definition requesterCanDispatch :: "relay_conf \<Rightarrow> int \<Rightarrow> relay \<Rightarrow> string \<Rightarrow> bool" where
  "requesterCanDispatch c now r n = (n \<noteq> [] \<and> (cf_localDevelopmentMode c \<or> n \<in> set (cf_trustedRequesterNodeIds c) \<or> cf_allowPublicDispatch c \<and> nodeSessionActive n now r))"

definition nodeCanRegister :: "relay_conf \<Rightarrow> string \<Rightarrow> bool" where
  "nodeCanRegister c n = (n \<noteq> [] \<and> (cf_localDevelopmentMode c \<or> cf_allowPublicRegistration c \<or> n \<in> set (cf_allowedNodeIds c) \<union> set (cf_trustedRequesterNodeIds c)))"

definition cleanupRegistrationReplayCache :: "int \<Rightarrow> relay \<Rightarrow> relay" where
  "cleanupRegistrationReplayCache now r = r\<lparr>re_usedRegistrationIds := filter (\<lambda>(i, expiry). \<not> expiry \<le> now) (re_usedRegistrationIds r)\<rparr>"

definition registrationIsFresh :: "platform \<Rightarrow> relay_conf \<Rightarrow> jsval \<Rightarrow> int \<Rightarrow> bool" where
  "registrationIsFresh p c envelope now = (case date_parse p (str_of (oget envelope ''createdAt'')) of None \<Rightarrow> False
     | Some createdAt \<Rightarrow> createdAt \<le> now + 30000 \<and> now - createdAt \<le> cf_registrationFreshnessMs c)"

section \<open>Event queues\<close>

text \<open>What a write to an open socket comes to: sent, refused because its buffer is full, or broken.\<close>

datatype socket_state = Ready | Backlogged | Broken

datatype sent = Delivered | SocketFull | NotSent

definition deliver :: "string \<Rightarrow> jsval \<Rightarrow> relay \<Rightarrow> relay" where
  "deliver n ev r = r\<lparr>re_delivered := re_delivered r @ [(n, ev)]\<rparr>"

definition sendSocketEvent :: "string \<Rightarrow> jsval \<Rightarrow> bool \<Rightarrow> int \<Rightarrow> socket_state \<Rightarrow> relay \<Rightarrow> sent \<times> relay" where
  "sendSocketEvent n ev requireCapacity now sock r =
     (if \<not> connectedSocket n r \<or> sock = Broken then (NotSent, r)
      else if requireCapacity \<and> sock = Backlogged then (SocketFull, r)
      else (Delivered, touch now n (deliver n ev r)))"

definition boundedQueue :: "relay_conf \<Rightarrow> string \<Rightarrow> jsval \<Rightarrow> (string, jsval list) jsmap \<Rightarrow> (string, jsval list) jsmap" where
  "boundedQueue c n ev m = (let q = list_at m n @ [ev] in jmap_set n (drop (length q - nat (cf_maxQueuedEventsPerNode c)) q) m)"

definition deliverLegacyWaiter :: "string \<Rightarrow> jsval \<Rightarrow> int \<Rightarrow> relay \<Rightarrow> bool \<times> relay" where
  "deliverLegacyWaiter n ev now r = (if n \<notin> set (re_legacyWaiters r) then (False, r)
     else (True, touch now n (deliver n ev (r\<lparr>re_legacyWaiters := removeAll n (re_legacyWaiters r)\<rparr>))))"

definition deliverFastWaiter :: "string \<Rightarrow> jsval \<Rightarrow> int \<Rightarrow> relay \<Rightarrow> bool \<times> relay" where
  "deliverFastWaiter n ev now r = (if n \<notin> set (re_fastWaiters r) then (False, r)
     else (True, touch now n (deliver n ev (r\<lparr>re_fastWaiters := removeAll n (re_fastWaiters r)\<rparr>))))"

definition queue_legacy :: "relay_conf \<Rightarrow> string \<Rightarrow> jsval \<Rightarrow> int \<Rightarrow> socket_state \<Rightarrow> relay \<Rightarrow> relay" where
  "queue_legacy c n ev now sock r =
     (let (s, r1) = sendSocketEvent n ev True now sock r in
      if s = Delivered then r1
      else let (ok, r2) = deliverLegacyWaiter n ev now r1 in if ok then r2 else r2\<lparr>re_events := boundedQueue c n ev (re_events r2)\<rparr>)"

definition queueCritical :: "relay_conf \<Rightarrow> string \<Rightarrow> jsval \<Rightarrow> int \<Rightarrow> socket_state \<Rightarrow> relay \<Rightarrow> bool \<times> relay" where
  "queueCritical c n ev now sock r =
     (let (s, r1) = sendSocketEvent n ev True now sock r in
      if s = Delivered then (True, r1) else if s = SocketFull then (False, r1)
      else let (ok, r2) = deliverLegacyWaiter n ev now r1; q = list_at (re_events r2) n in
        if ok then (True, r2)
        else if length q \<ge> nat (cf_maxQueuedEventsPerNode c) then (False, r2)
        else (True, r2\<lparr>re_events := jmap_set n (q @ [ev]) (re_events r2)\<rparr>))"

text \<open>True unless the event was refused for want of room.\<close>

definition queueFast :: "relay_conf \<Rightarrow> string \<Rightarrow> jsval \<Rightarrow> bool \<Rightarrow> int \<Rightarrow> socket_state \<Rightarrow> relay \<Rightarrow> bool \<times> relay" where
  "queueFast c n ev requireCapacity now sock r =
     (let (s, r1) = sendSocketEvent n ev requireCapacity now sock r in
      if s = Delivered then (True, r1) else if s = SocketFull then (False, r1)
      else let (ok, r2) = deliverFastWaiter n ev now r1 in
        if ok then (True, r2)
        else if requireCapacity \<and> length (list_at (re_fastEvents r2) n) \<ge> nat (cf_maxQueuedEventsPerNode c) then (False, r2)
        else (True, r2\<lparr>re_fastEvents := boundedQueue c n ev (re_fastEvents r2)\<rparr>))"

text \<open>A full socket is given up and ended; its close event finds it gone from the map.\<close>

definition queueFastTerminal :: "relay_conf \<Rightarrow> string \<Rightarrow> jsval \<Rightarrow> int \<Rightarrow> socket_state \<Rightarrow> relay \<Rightarrow> bool \<times> relay" where
  "queueFastTerminal c n ev now sock r =
     (let (s, r1) = sendSocketEvent n ev True now sock r in
      if s = Delivered then (True, r1)
      else let r2 = (if s = SocketFull then r1\<lparr>re_providerSockets := jmap_delete n (re_providerSockets r1)\<rparr> else r1);
               (ok, r3) = deliverFastWaiter n ev now r2; q = list_at (re_fastTerminalEvents r3) n in
        if ok then (True, r3)
        else if length q \<ge> nat (cf_maxFastTerminalReservationsPerRequester c) then (False, r3)
        else (True, r3\<lparr>re_fastTerminalEvents := jmap_set n (q @ [ev]) (re_fastTerminalEvents r3)\<rparr>))"

section \<open>Reservations for terminal events\<close>

definition reserveFastTerminal :: "relay_conf \<Rightarrow> string \<Rightarrow> relay \<Rightarrow> bool \<times> relay" where
  "reserveFastTerminal c n r =
     (let queued = length (list_at (re_fastTerminalEvents r) n); reserved = nat_at (re_fastTerminalReservations r) n in
      if queued + reserved \<ge> nat (cf_maxFastTerminalReservationsPerRequester c) then (False, r)
      else (True, r\<lparr>re_fastTerminalReservations := jmap_set n (reserved + 1) (re_fastTerminalReservations r)\<rparr>))"

definition drop_reservation :: "string \<Rightarrow> relay \<Rightarrow> relay" where
  "drop_reservation n r = (let current = nat_at (re_fastTerminalReservations r) n in
     r\<lparr>re_fastTerminalReservations := (if current \<le> 1 then jmap_delete n (re_fastTerminalReservations r)
        else jmap_set n (current - 1) (re_fastTerminalReservations r))\<rparr>)"

definition releaseFastTerminal :: "nat \<Rightarrow> relay \<Rightarrow> relay" where
  "releaseFastTerminal a r = (let q = re_heap r ! a in if \<not> rq_terminalReserved q then r
     else drop_reservation (rq_requester q) (r\<lparr>re_heap := (re_heap r)[a := q\<lparr>rq_terminalReserved := False\<rparr>]\<rparr>))"

section \<open>Requests\<close>

text \<open>\<^verbatim>\<open>markMatchedRequest\<close> of a new object; \<open>None\<close> is the refusal of a duplicate.\<close>

definition markMatchedRequest :: "request \<Rightarrow> relay \<Rightarrow> relay option" where
  "markMatchedRequest q r = (if jmap_get (re_requests r) (rq_needId q) \<noteq> None then None
     else Some (r\<lparr>re_heap := re_heap r @ [q], re_requests := jmap_set (rq_needId q) (length (re_heap r)) (re_requests r),
       ro_inFlightByProvider := jmap_set (rq_provider q) (nat_at (ro_inFlightByProvider r) (rq_provider q) + 1) (ro_inFlightByProvider r),
       ro_selectionReservations := jmap_delete (rq_needId q) (ro_selectionReservations r)\<rparr>))"

definition relay_isTerminal :: "need_status \<Rightarrow> bool" where
  "relay_isTerminal s = (s \<noteq> Matched)"

definition markRequestStatus :: "nat \<Rightarrow> need_status \<Rightarrow> relay \<Rightarrow> relay" where
  "markRequestStatus a status r =
     (let q = re_heap r ! a; provider_count = nat_at (ro_inFlightByProvider r) (rq_provider q);
          r1 = (if rq_status q = Matched \<and> relay_isTerminal status
                then r\<lparr>ro_inFlightByProvider := (if provider_count \<le> 1 then jmap_delete (rq_provider q) (ro_inFlightByProvider r)
                        else jmap_set (rq_provider q) (provider_count - 1) (ro_inFlightByProvider r))\<rparr>
                else r) in
      r1\<lparr>re_heap := (re_heap r1)[a := q\<lparr>rq_status := status\<rparr>]\<rparr>)"

text \<open>Entries that are terminal go, oldest first, until there is room; without room it throws.\<close>

fun prune_entries :: "(nat \<Rightarrow> bool) \<Rightarrow> nat \<Rightarrow> (string, nat) jsmap \<Rightarrow> nat \<Rightarrow> (string, nat) jsmap" where
  "prune_entries ended maxSize [] n = []"
| "prune_entries ended maxSize ((k, a) # rest) n =
     (if ended a then (if n - 1 < maxSize then rest else prune_entries ended maxSize rest (n - 1))
      else if n < maxSize then (k, a) # rest else (k, a) # prune_entries ended maxSize rest n)"

definition pruneCompleted :: "relay_conf \<Rightarrow> relay \<Rightarrow> unit result \<times> relay" where
  "pruneCompleted c r =
     (if length (re_requests r) < cf_maxRequests c then (Inr (), r)
      else let m = prune_entries (\<lambda>a. rq_status (re_heap r ! a) \<noteq> Matched) (cf_maxRequests c) (re_requests r) (length (re_requests r)); r1 = r\<lparr>re_requests := m\<rparr> in
        if length m \<ge> cf_maxRequests c then (Inl (Fault 503 ''relay_capacity_reached''), r1) else (Inr (), r1))"

definition finishResultWaiter :: "string \<Rightarrow> relay \<Rightarrow> bool \<times> relay" where
  "finishResultWaiter i r = (if i \<notin> set (re_resultWaiters r) then (False, r) else (True, r\<lparr>re_resultWaiters := removeAll i (re_resultWaiters r)\<rparr>))"

definition terminalRequestError :: "need_status \<Rightarrow> string option" where
  "terminalRequestError s = (case s of NCancelled \<Rightarrow> Some ''request_cancelled'' | NCompleted \<Rightarrow> Some ''request_already_completed''
     | NFailed \<Rightarrow> Some ''request_failed'' | Matched \<Rightarrow> None)"

text \<open>The provider's own report of how long it is busy.\<close>

definition noteProviderCooldown :: "relay_conf \<Rightarrow> string \<Rightarrow> jsval \<Rightarrow> int \<Rightarrow> relay \<Rightarrow> relay" where
  "noteProviderCooldown c n payload now r =
     (case oget (oget (oget payload ''metadata'') ''capacity'') ''cooldownMs'' of
        JNum raw \<Rightarrow> if raw \<le> 0 then r
          else let until = now + min (cf_maxProviderCooldownMs c) \<lfloor>raw\<rfloor> in
            if until > (case jmap_get (ro_providerCooldownUntil r) n of None \<Rightarrow> 0 | Some t \<Rightarrow> t)
            then r\<lparr>ro_providerCooldownUntil := jmap_set n until (ro_providerCooldownUntil r)\<rparr> else r
      | _ \<Rightarrow> r)"

text \<open>
  The admission of a NEED identifier up to its await: the checks here, then the reservation in the ledger
  or, without one, in memory. What the ledger answered is known when the handler resumes.
\<close>

definition admitDirectNeedId :: "platform \<Rightarrow> relay_conf \<Rightarrow> jsval option \<Rightarrow> int \<Rightarrow> string \<Rightarrow> string \<Rightarrow> string \<Rightarrow> string \<Rightarrow> string \<Rightarrow> req_mode \<Rightarrow> delivery \<Rightarrow> relay \<Rightarrow> unit result \<times> relay" where
  "admitDirectNeedId p c envelope now i requester provider fingerprint capability mode delivery r =
     (if jmap_get (re_requests r) i \<noteq> None \<or> re_ledger r = None \<and> i \<in> set (re_seenNeedIds r) then (Inl (Fault 409 ''duplicate_request''), r)
      else if re_ledger r = None \<and> int (length (re_seenNeedIds r)) \<ge> cf_maxSeenNeedIds c then (Inl (Fault 503 ''need_idempotency_capacity_reached''), r)
      else case (case envelope of None \<Rightarrow> Inr () | Some e \<Rightarrow> assertNeedAdmissionWindow p e (JNum (of_int now))) of Inl e \<Rightarrow> (Inl e, r)
        | Inr _ \<Rightarrow> (case re_ledger r of
            Some l \<Rightarrow> (let (res, l') = reserveNeed p (date_iso p now) i requester provider fingerprint capability
                          (if mode = Fast then ''fast'' else ''legacy'') (Some delivery) l in
                        (rbind res (\<lambda>_. Inr ()), r\<lparr>re_ledger := Some l'\<rparr>))
          | None \<Rightarrow> (Inr (), r\<lparr>re_seenNeedIds := re_seenNeedIds r @ [i]\<rparr>)))"

text \<open>A call of \<^verbatim>\<open>transitionNeed\<close>; without a ledger there is nothing to refuse.\<close>

definition ledger_transition :: "platform \<Rightarrow> int \<Rightarrow> string \<Rightarrow> string \<Rightarrow> string \<Rightarrow> need_status \<Rightarrow> delivery option \<Rightarrow> relay \<Rightarrow> bool result \<times> relay" where
  "ledger_transition p now i requester provider target delivery r = (case re_ledger r of None \<Rightarrow> (Inr True, r)
     | Some l \<Rightarrow> (let (res, l') = transitionNeed p (date_iso p now) i requester provider (Some target) delivery l in
         (rbind res (\<lambda>(changed, _). Inr changed), r\<lparr>re_ledger := Some l'\<rparr>)))"

definition ledger_need :: "string \<Rightarrow> relay \<Rightarrow> need_row option" where
  "ledger_need i r = (case re_ledger r of None \<Rightarrow> None | Some l \<Rightarrow> getNeed i l)"

definition ledger_offer :: "string \<Rightarrow> relay \<Rightarrow> durable_offer option" where
  "ledger_offer i r = (case re_ledger r of None \<Rightarrow> None
     | Some l \<Rightarrow> map_option (\<lambda>row. (of_owner row, of_fingerprint row, of_revoked row)) (getOffer i l))"

definition fast_expired :: "relay_conf \<Rightarrow> nat \<Rightarrow> int \<Rightarrow> relay \<Rightarrow> bool" where
  "fast_expired c a now r = (let q = re_heap r ! a; activity = (case rq_lastPartialAt q of Some t \<Rightarrow> t | None \<Rightarrow> rq_createdAt q) in
     rq_mode q = Fast \<and> rq_status q = Matched \<and> \<not> now - activity < cf_requestTtlMs c)"

text \<open>\<^verbatim>\<open>expireFastRequest\<close> after its ledger call succeeded.\<close>

definition expire_finish :: "nat \<Rightarrow> relay \<Rightarrow> relay" where
  "expire_finish a r = snd (finishResultWaiter (rq_needId (re_heap r ! a)) (releaseFastTerminal a (markRequestStatus a NFailed r)))"

end
