(* ===== verification/Relay_Requests.thy ===== *)
theory Relay_Requests
  imports Relay_State
begin

text \<open>
  The handlers of the relay, \<^verbatim>\<open>network/relay/server.js\<close>: registration, offers, NEEDs, partial results, results,
  cancellation, status and polls, each cut at its awaits into segments that run without interruption. A
  request's head and body arrive together, and one segment reads the ledger once. \<open>relay_step\<close> interleaves
  the segments of all handlers, and what other processes of the host do to the ledger. What is shown of it
  is in \<open>Relay_Runs\<close>.
\<close>

section \<open>Tasks\<close>

record need_args =
  na_mode :: req_mode
  na_id :: string
  na_requester :: string
  na_frame :: jsval
  na_payload :: jsval
  na_wait :: bool

text \<open>
  Where a handler waits, with what it carries over: the answer of the ledger call it made, and the
  addresses of the request objects it holds. \<open>Finished\<close> has the HTTP status and the error code.
\<close>

datatype task =
    NeedLooked need_args "need_row option"
  | NeedReading need_args string "offer list" "(offer \<times> durable_offer option) list"
  | NeedMatched need_args string "offer list"
  | NeedSweeping need_args string offer
  | NeedAdmitted need_args string string "unit result"
  | Expiring nat "bool result" task
  | ResultChecked nat string jsval jsval
  | Completing nat string jsval "bool result" bool
  | Completed nat string jsval bool
  | PartialChecked nat string jsval jsval
  | PartialAccepted nat jsval nat string "(unit + string option) result"
  | CancelChecked nat jsval
  | Cancelling nat jsval "bool result"
  | StatusLooked nat "need_row option"
  | StatusChecked nat
  | OfferLooked jsval string "durable_offer option"
  | OfferReserving jsval string "relay_policy" "unit result"
  | OfferRevoking string string "unit result"
  | Finished int string

fun fails :: "jserror \<Rightarrow> task" where
  "fails (Fault s e) = Finished s e"
| "fails _ = Finished 500 ''internal_error''"

text \<open>
  The verifiers of \<open>Protocol\<close> a handler calls: \<^verbatim>\<open>verifyEnvelope\<close>, and \<^verbatim>\<open>verifyCompactFrame\<close> with a frame, its
  payload and the key of the node.
\<close>

type_synonym envelope_verifier = "string list \<Rightarrow> jsval \<Rightarrow> unit verdict"
type_synonym frame_verifier = "string list \<Rightarrow> jsval \<Rightarrow> jsval \<Rightarrow> jsval \<Rightarrow> string verdict result"

section \<open>NEED\<close>

definition need_begin :: "need_args \<Rightarrow> relay \<Rightarrow> task \<times> relay" where
  "need_begin n r = (if jmap_get (re_requests r) (na_id n) \<noteq> None \<or> na_id n \<in> set (re_seenNeedIds r) then (Finished 409 ''duplicate_request'', r)
     else (NeedLooked n (ledger_need (na_id n) r), r))"

definition fast_need :: "frame_verifier \<Rightarrow> relay_conf \<Rightarrow> string option \<Rightarrow> jsval \<Rightarrow> jsval \<Rightarrow> bool \<Rightarrow> int \<Rightarrow> relay \<Rightarrow> task \<times> relay" where
  "fast_need vf c token frame payload wait now r =
     (case authenticatedNodeId token now r of (None, r1) \<Rightarrow> (Finished 401 ''unauthorized'', r1)
      | (Some n, r1) \<Rightarrow>
         if \<not> requesterCanDispatch c now r1 n then (Finished 403 ''provider_access_denied'', r1)
         else (case jmap_get (re_nodes r1) n of None \<Rightarrow> (Finished 500 ''internal_error'', r1)
           | Some nd \<Rightarrow> (case vf [''NEED''] frame payload (nd_publicKey nd) of
               Inl e \<Rightarrow> (fails e, r1) | Inr (Inl reason) \<Rightarrow> (Finished 400 reason, r1)
             | Inr (Inr _) \<Rightarrow> need_begin \<lparr>na_mode = Fast, na_id = str_of (get frame ''i''), na_requester = n, na_frame = frame, na_payload = payload, na_wait = wait\<rparr> r1)))"

definition authenticateEnvelope :: "string option \<Rightarrow> jsval \<Rightarrow> int \<Rightarrow> relay \<Rightarrow> bool \<times> relay" where
  "authenticateEnvelope token envelope now r = (case authenticatedNodeId token now r of (None, r1) \<Rightarrow> (False, r1) | (Some n, r1) \<Rightarrow> (get envelope ''from'' = JStr n, r1))"

text \<open>The head of every handler that takes an envelope: it verifies, and the session is its sender's.\<close>

definition with_envelope :: "envelope_verifier \<Rightarrow> string list \<Rightarrow> string option \<Rightarrow> jsval \<Rightarrow> int \<Rightarrow> relay \<Rightarrow> (string \<Rightarrow> relay \<Rightarrow> task \<times> relay) \<Rightarrow> task \<times> relay" where
  "with_envelope ve types token envelope now r k =
     (case ve types envelope of Inl reason \<Rightarrow> (Finished 400 reason, r)
      | Inr _ \<Rightarrow> (case authenticateEnvelope token envelope now r of (ok, r1) \<Rightarrow>
          if ok then k (str_of (get envelope ''from'')) r1 else (Finished 401 ''unauthorized'', r1)))"

definition legacy_need :: "envelope_verifier \<Rightarrow> relay_conf \<Rightarrow> string option \<Rightarrow> jsval \<Rightarrow> int \<Rightarrow> relay \<Rightarrow> task \<times> relay" where
  "legacy_need ve c token envelope now r = with_envelope ve [''NEED''] token envelope now r (\<lambda>n r1.
     if \<not> requesterCanDispatch c now r1 n then (Finished 403 ''provider_access_denied'', r1)
     else need_begin \<lparr>na_mode = Legacy, na_id = str_of (get envelope ''id''), na_requester = n, na_frame = envelope, na_payload = get envelope ''payload'', na_wait = False\<rparr> r1)"

text \<open>\<^verbatim>\<open>payload?.capability?.name || payload?.capability\<close>, when it is a string that is not empty.\<close>

definition named_capability :: "jsval \<Rightarrow> string option" where
  "named_capability payload = (let cap = oget payload ''capability''; v = (if truthy (oget cap ''name'') then oget cap ''name'' else cap) in
     case v of JStr s \<Rightarrow> if s = [] then None else Some s | _ \<Rightarrow> None)"

definition taken :: "relay \<Rightarrow> string \<Rightarrow> bool" where
  "taken r i = (jmap_get (re_requests r) i \<noteq> None)"

definition match_done :: "platform \<Rightarrow> (rat \<Rightarrow> rat) \<Rightarrow> relay_conf \<Rightarrow> need_args \<Rightarrow> string \<Rightarrow> (offer \<times> durable_offer option) list \<Rightarrow> int \<Rightarrow> rat list \<Rightarrow> relay \<Rightarrow> task \<times> relay" where
  "match_done p fl c n cap read now ties r =
     (case eligible_offers p c read of Inl e \<Rightarrow> (fails e, r)
      | Inr eligible \<Rightarrow> (case matching_finish fl c (\<lambda>m. connectedSocket m r) (taken r) (oget (oget (na_payload n) ''policy'') ''routing'') (na_id n) now
            (zip eligible (ties @ replicate (length eligible) 0)) r of
          (Inl e, r1) \<Rightarrow> (fails e, r1) | (Inr os, r1) \<Rightarrow> (NeedMatched n cap os, r1)))"

definition read_batch :: "relay_conf \<Rightarrow> need_args \<Rightarrow> string \<Rightarrow> offer list \<Rightarrow> (offer \<times> durable_offer option) list \<Rightarrow> relay \<Rightarrow> task" where
  "read_batch c n cap candidates read r =
     (let k = nat (cf_maxConcurrentOfferLedgerReads c); batch = take k candidates in
      NeedReading n cap (drop k candidates) (read @ map (\<lambda>ofr. (ofr, ledger_offer (str_of (get (ofr_envelope ofr) ''id'')) r)) batch))"

definition need_looked :: "platform \<Rightarrow> (rat \<Rightarrow> rat) \<Rightarrow> relay_conf \<Rightarrow> need_args \<Rightarrow> need_row option \<Rightarrow> int \<Rightarrow> rat list \<Rightarrow> relay \<Rightarrow> task \<times> relay" where
  "need_looked p fl c n durable now ties r =
     (if durable \<noteq> None then (Finished 409 ''duplicate_request'', r)
      else case (if na_mode n = Legacy then assertNeedAdmissionWindow p (na_frame n) (JNum (of_int now)) else Inr ()) of Inl e \<Rightarrow> (fails e, r)
      | Inr _ \<Rightarrow> (case named_capability (na_payload n) of None \<Rightarrow> (Finished 400 ''invalid_capability'', r)
        | Some cap \<Rightarrow> (case matching_candidates c (isNodeFresh c now r) cap (na_requester n) r of
            Inl e \<Rightarrow> (fails e, r)
          | Inr candidates \<Rightarrow> if candidates = [] then match_done p fl c n cap [] now ties r else (read_batch c n cap candidates [] r, r))))"

definition need_event :: "need_args \<Rightarrow> jsval" where
  "need_event n = (if na_mode n = Fast then JObj [(''kind'', JStr ''NEED''), (''frame'', na_frame n), (''payload'', na_payload n), (''from'', JStr (na_requester n))]
     else JObj [(''kind'', JStr ''NEED''), (''envelope'', na_frame n)])"

definition need_fingerprint :: "platform \<Rightarrow> need_args \<Rightarrow> string" where
  "need_fingerprint p n = (case json_text p (if na_mode n = Fast then JArr [na_frame n, na_payload n] else na_frame n) of None \<Rightarrow> [] | Some t \<Rightarrow> sha256 p t)"

definition need_admit :: "platform \<Rightarrow> relay_conf \<Rightarrow> need_args \<Rightarrow> string \<Rightarrow> offer \<Rightarrow> int \<Rightarrow> relay \<Rightarrow> task \<times> relay" where
  "need_admit p c n cap match now r =
     (let (res, r1) = admitDirectNeedId p c (if na_mode n = Legacy then Some (na_frame n) else None) now (na_id n) (na_requester n) (offer_from match) (need_fingerprint p n) cap (na_mode n)
            \<lparr>dl_recipient = offer_from match, dl_kind = ''NEED'', dl_event = need_event n\<rparr> r in
      (NeedAdmitted n cap (offer_from match) res, r1))"

definition unselect :: "string \<Rightarrow> relay \<Rightarrow> relay" where
  "unselect i r = r\<lparr>ro_selectionReservations := jmap_delete i (ro_selectionReservations r)\<rparr>"

definition need_matched :: "platform \<Rightarrow> relay_conf \<Rightarrow> need_args \<Rightarrow> string \<Rightarrow> offer list \<Rightarrow> int \<Rightarrow> relay \<Rightarrow> task \<times> relay" where
  "need_matched p c n cap os now r =
     (case os of [] \<Rightarrow> (Finished 404 ''no_matching_provider'', r)
      | match # _ \<Rightarrow> if na_mode n = Fast then (NeedSweeping n cap match, r)
          else (case pruneCompleted c r of (Inl e, r1) \<Rightarrow> (fails e, r1) | (Inr _, r1) \<Rightarrow> need_admit p c n cap match now r1))"

definition need_swept :: "platform \<Rightarrow> relay_conf \<Rightarrow> need_args \<Rightarrow> string \<Rightarrow> offer \<Rightarrow> int \<Rightarrow> relay \<Rightarrow> task \<times> relay" where
  "need_swept p c n cap match now r =
     (case reserveFastTerminal c (na_requester n) r of
        (False, r1) \<Rightarrow> (Finished 429 ''terminal_backpressure'', unselect (na_id n) r1)
      | (True, r1) \<Rightarrow> (case pruneCompleted c r1 of
          (Inl e, r2) \<Rightarrow> (fails e, unselect (na_id n) (drop_reservation (na_requester n) r2))
        | (Inr _, r2) \<Rightarrow> need_admit p c n cap match now r2))"

definition need_request :: "need_args \<Rightarrow> string \<Rightarrow> string \<Rightarrow> int \<Rightarrow> request" where
  "need_request n cap provider now = \<lparr>rq_needId = na_id n, rq_requester = na_requester n, rq_provider = provider, rq_capability = cap, rq_mode = na_mode n, rq_status = Matched,
     rq_createdAt = now, rq_lastPartialAt = None, rq_nextPartial = 0, rq_lastPartialDigest = None, rq_terminalReserved = (na_mode n = Fast)\<rparr>"

definition need_admitted :: "relay_conf \<Rightarrow> need_args \<Rightarrow> string \<Rightarrow> string \<Rightarrow> unit result \<Rightarrow> int \<Rightarrow> socket_state \<Rightarrow> relay \<Rightarrow> task \<times> relay" where
  "need_admitted c n cap provider res now sock r =
     (case res of
        Inl e \<Rightarrow> (fails e, unselect (na_id n) (if na_mode n = Fast then drop_reservation (na_requester n) r else r))
      | Inr _ \<Rightarrow> (case markMatchedRequest (need_request n cap provider now) r of
          None \<Rightarrow> (Finished 409 ''duplicate_request'', r)
        | Some r1 \<Rightarrow>
            if na_mode n = Fast
            then let r2 = touch now (na_requester n) r1; r3 = (if na_wait n then r2\<lparr>re_resultWaiters := with_member (na_id n) (re_resultWaiters r2)\<rparr> else r2) in
              (Finished 200 [], snd (queueFast c provider (need_event n) False now sock r3))
            else (Finished 200 [], touch now (na_requester n) (queue_legacy c provider (need_event n) now sock r1))))"

section \<open>Expiry\<close>

text \<open>
  \<^verbatim>\<open>await expireFastRequest(request)\<close> before \<open>k\<close>: without a ledger the request fails at once, with one
  after the ledger took the transition.
\<close>

definition expire_then :: "platform \<Rightarrow> relay_conf \<Rightarrow> nat \<Rightarrow> int \<Rightarrow> task \<Rightarrow> relay \<Rightarrow> task \<times> relay" where
  "expire_then p c a now k r =
     (if \<not> fast_expired c a now r then (k, r)
      else if re_ledger r = None then (k, expire_finish a r)
      else let q = re_heap r ! a; (res, r1) = ledger_transition p now (rq_needId q) [] (rq_provider q) NFailed None r in (Expiring a res k, r1))"

definition expiry_done :: "nat \<Rightarrow> bool result \<Rightarrow> task \<Rightarrow> relay \<Rightarrow> task \<times> relay" where
  "expiry_done a res k r = (case res of Inl _ \<Rightarrow> (k, r) | Inr _ \<Rightarrow> (k, expire_finish a r))"

section \<open>RESULT\<close>

text \<open>A request the relay does not hold: what the ledger knows of it.\<close>

definition unknown_request :: "string \<Rightarrow> need_row option \<Rightarrow> task" where
  "unknown_request provider durable = (case durable of None \<Rightarrow> Finished 404 ''request_not_found''
     | Some row \<Rightarrow> if nr_provider row \<noteq> provider then Finished 403 ''provider_mismatch''
         else if nr_status row \<noteq> Matched then Finished 409 (closed_reason (nr_status row))
         else Finished 503 ''request_recovery_required'')"

text \<open>The head of the handlers for partial results and results of the fast path.\<close>

definition process_frame :: "frame_verifier \<Rightarrow> string \<Rightarrow> string \<Rightarrow> jsval \<Rightarrow> jsval \<Rightarrow> int \<Rightarrow> relay \<Rightarrow> (nat \<Rightarrow> task \<times> relay) \<Rightarrow> task \<times> relay" where
  "process_frame vf type n frame payload now r k =
     (case jmap_get (re_nodes r) n of None \<Rightarrow> (Finished 401 ''unauthorized'', r)
      | Some nd \<Rightarrow> if \<not> nodeSessionActive n now r then (Finished 401 ''unauthorized'', r)
          else (case vf [type] frame payload (nd_publicKey nd) of
             Inl e \<Rightarrow> (fails e, r) | Inr (Inl reason) \<Rightarrow> (Finished 400 reason, r)
           | Inr (Inr _) \<Rightarrow> (case jmap_get (re_requests r) (str_of (get frame ''i'')) of
               None \<Rightarrow> (unknown_request n (ledger_need (str_of (get frame ''i'')) r), r)
             | Some a \<Rightarrow> if rq_provider (re_heap r ! a) \<noteq> n then (Finished 403 ''provider_mismatch'', r) else k a)))"

definition processFastResult :: "frame_verifier \<Rightarrow> platform \<Rightarrow> relay_conf \<Rightarrow> string \<Rightarrow> jsval \<Rightarrow> jsval \<Rightarrow> int \<Rightarrow> relay \<Rightarrow> task \<times> relay" where
  "processFastResult vf p c n frame payload now r = process_frame vf ''RESULT'' n frame payload now r (\<lambda>a. expire_then p c a now (ResultChecked a n frame payload) r)"

text \<open>The routes of the fast path authenticate the token first.\<close>

definition with_token :: "string option \<Rightarrow> int \<Rightarrow> relay \<Rightarrow> (string \<Rightarrow> relay \<Rightarrow> task \<times> relay) \<Rightarrow> task \<times> relay" where
  "with_token token now r k = (case authenticatedNodeId token now r of (None, r1) \<Rightarrow> (Finished 401 ''unauthorized'', r1) | (Some n, r1) \<Rightarrow> k n r1)"

definition fast_result_event :: "string \<Rightarrow> jsval \<Rightarrow> jsval \<Rightarrow> jsval" where
  "fast_result_event n frame payload = JObj [(''kind'', JStr ''RESULT''), (''frame'', frame), (''payload'', payload), (''from'', JStr n)]"

text \<open>\<^verbatim>\<open>completeRequest\<close> up to its await.\<close>

definition complete_call :: "platform \<Rightarrow> nat \<Rightarrow> string \<Rightarrow> jsval \<Rightarrow> bool \<Rightarrow> int \<Rightarrow> relay \<Rightarrow> task \<times> relay" where
  "complete_call p a n event fast now r =
     (let q = re_heap r ! a; (res, r1) = ledger_transition p now (rq_needId q) [] n NCompleted (Some \<lparr>dl_recipient = rq_requester q, dl_kind = ''RESULT'', dl_event = event\<rparr>) r in
      (Completing a n event res fast, r1))"

definition result_checked :: "platform \<Rightarrow> relay_conf \<Rightarrow> nat \<Rightarrow> string \<Rightarrow> jsval \<Rightarrow> jsval \<Rightarrow> int \<Rightarrow> relay \<Rightarrow> task \<times> relay" where
  "result_checked p c a n frame payload now r =
     (case terminalRequestError (rq_status (re_heap r ! a)) of Some e \<Rightarrow> (Finished 409 e, r)
      | None \<Rightarrow> complete_call p a n (fast_result_event n frame payload) True now (noteProviderCooldown c n payload now r))"

definition legacy_result :: "envelope_verifier \<Rightarrow> platform \<Rightarrow> relay_conf \<Rightarrow> string option \<Rightarrow> jsval \<Rightarrow> int \<Rightarrow> relay \<Rightarrow> task \<times> relay" where
  "legacy_result ve p c token envelope now r = with_envelope ve [''RESULT''] token envelope now r (\<lambda>n r1.
     let i = str_of (oget (get envelope ''payload'') ''requestId'') in
     case jmap_get (re_requests r1) i of None \<Rightarrow> (unknown_request n (ledger_need i r1), r1)
     | Some a \<Rightarrow> if rq_provider (re_heap r1 ! a) \<noteq> n then (Finished 403 ''provider_mismatch'', r1)
         else (case terminalRequestError (rq_status (re_heap r1 ! a)) of Some e \<Rightarrow> (Finished 409 e, r1)
           | None \<Rightarrow> complete_call p a n (JObj [(''kind'', JStr ''RESULT''), (''envelope'', envelope)]) False now r1))"

definition completing :: "nat \<Rightarrow> string \<Rightarrow> jsval \<Rightarrow> bool result \<Rightarrow> bool \<Rightarrow> int \<Rightarrow> relay \<Rightarrow> task \<times> relay" where
  "completing a n event res fast now r =
     (case res of Inl e \<Rightarrow> (fails e, r)
      | Inr _ \<Rightarrow> let r1 = markRequestStatus a NCompleted r in
          (Completed a n event fast, touch now n (r1\<lparr>re_stats := jmap_set n (nat_at (re_stats r1) n + 1) (re_stats r1)\<rparr>)))"

definition result_done :: "relay_conf \<Rightarrow> nat \<Rightarrow> jsval \<Rightarrow> bool \<Rightarrow> int \<Rightarrow> socket_state \<Rightarrow> relay \<Rightarrow> task \<times> relay" where
  "result_done c a event fast now sock r =
     (let requester = rq_requester (re_heap r ! a) in
      if \<not> fast then (Finished 200 [], queue_legacy c requester event now sock r)
      else let r1 = releaseFastTerminal a r;
               (waited, r2) = (if rq_nextPartial (re_heap r1 ! a) = 0 then finishResultWaiter (rq_needId (re_heap r1 ! a)) r1 else (False, r1)) in
        if waited then (Finished 200 [], deliver requester event r2)
        else (case queueFastTerminal c requester event now sock r2 of (ok, r3) \<Rightarrow>
          (if ok then Finished 200 [] else Finished 503 ''terminal_capacity_invariant'', r3)))"

section \<open>PARTIAL\<close>

definition processFastPartial :: "frame_verifier \<Rightarrow> platform \<Rightarrow> relay_conf \<Rightarrow> string \<Rightarrow> jsval \<Rightarrow> jsval \<Rightarrow> int \<Rightarrow> relay \<Rightarrow> task \<times> relay" where
  "processFastPartial vf p c n frame payload now r = process_frame vf ''PARTIAL'' n frame payload now r (\<lambda>a. expire_then p c a now (PartialChecked a n frame payload) r)"

text \<open>The digest that tells a repeated partial from another; only its equality matters.\<close>

definition partialDigest :: "platform \<Rightarrow> jsval \<Rightarrow> jsval \<Rightarrow> string" where
  "partialDigest p frame payload = (case json_text p (JArr [frame, payload]) of None \<Rightarrow> [] | Some t \<Rightarrow> sha256 p t)"

definition ledger_partial :: "platform \<Rightarrow> int \<Rightarrow> string \<Rightarrow> string \<Rightarrow> jsval \<Rightarrow> string \<Rightarrow> delivery option \<Rightarrow> relay \<Rightarrow> (unit + string option) result \<times> relay" where
  "ledger_partial p now i provider sequence dig delivery r = (case re_ledger r of None \<Rightarrow> (Inr (Inr None), r)
     | Some l \<Rightarrow> (let (res, l') = acceptPartial p (date_iso p now) i provider sequence dig delivery l in (res, r\<lparr>re_ledger := Some l'\<rparr>)))"

definition partial_event :: "string \<Rightarrow> jsval \<Rightarrow> jsval \<Rightarrow> string \<Rightarrow> jsval" where
  "partial_event n frame payload i = JObj [(''kind'', JStr ''PARTIAL''), (''frame'', frame), (''payload'', payload), (''from'', JStr n), (''requestId'', JStr i), (''sequence'', oget payload ''sequence'')]"

definition partial_checked :: "platform \<Rightarrow> nat \<Rightarrow> string \<Rightarrow> jsval \<Rightarrow> jsval \<Rightarrow> int \<Rightarrow> relay \<Rightarrow> task \<times> relay" where
  "partial_checked p a n frame payload now r =
     (let q = re_heap r ! a; i = rq_needId q; sequence = oget payload ''sequence''; expected = rq_nextPartial q; dig = partialDigest p frame payload in
      case terminalRequestError (rq_status q) of Some e \<Rightarrow> (Finished 409 e, r)
      | None \<Rightarrow>
         if rq_mode q \<noteq> Fast then (Finished 409 ''partial_requires_fast_need'', r)
         else if \<not> is_integer sequence \<or> num_of sequence < 0 then (Finished 400 ''invalid_partial_sequence'', r)
         else if expected > 0 \<and> int_of sequence = int expected - 1
         then (if rq_lastPartialDigest q = Some dig
               then (case ledger_partial p now i n sequence dig None r of (Inl e, r1) \<Rightarrow> (fails e, r1) | (Inr _, r1) \<Rightarrow> (Finished 200 ''idempotent'', r1))
               else (Finished 409 ''partial_sequence_mismatch'', r))
         else if int_of sequence \<noteq> int expected then (Finished 409 ''partial_sequence_mismatch'', r)
         else let ev = partial_event n frame payload i; (res, r1) = ledger_partial p now i n sequence dig (Some \<lparr>dl_recipient = rq_requester q, dl_kind = ''PARTIAL'', dl_event = ev\<rparr>) r in
           (PartialAccepted a ev expected dig res, r1))"

definition partial_accepted :: "relay_conf \<Rightarrow> nat \<Rightarrow> jsval \<Rightarrow> nat \<Rightarrow> string \<Rightarrow> (unit + string option) result \<Rightarrow> int \<Rightarrow> socket_state \<Rightarrow> relay \<Rightarrow> task \<times> relay" where
  "partial_accepted c a ev expected dig res now sock r =
     (case res of Inl e \<Rightarrow> (fails e, r) | Inr (Inl _) \<Rightarrow> (Finished 200 ''idempotent'', r)
      | Inr (Inr _) \<Rightarrow>
        (let (ok, r1) = queueFast c (rq_requester (re_heap r ! a)) ev True now sock r in
         if \<not> ok \<and> re_ledger r1 = None then (Finished 429 ''partial_backpressure'', r1)
         else let q = re_heap r1 ! a; r2 = (if rq_nextPartial q = 0 then snd (finishResultWaiter (rq_needId q) r1) else r1) in
           (Finished 200 [], touch now (rq_provider q) (r2\<lparr>re_heap := (re_heap r2)[a := q\<lparr>rq_nextPartial := expected + 1, rq_lastPartialDigest := Some dig, rq_lastPartialAt := Some now\<rparr>]\<rparr>))))"

section \<open>REVOKE\<close>

definition revoke_event :: "jsval \<Rightarrow> string \<Rightarrow> jsval" where
  "revoke_event envelope i = JObj [(''kind'', JStr ''REVOKE''), (''targetKind'', JStr ''need''), (''targetId'', JStr i), (''envelope'', envelope), (''from'', get envelope ''from'')]"

definition queueCancellation :: "relay_conf \<Rightarrow> nat \<Rightarrow> jsval \<Rightarrow> int \<Rightarrow> socket_state \<Rightarrow> relay \<Rightarrow> bool \<times> relay" where
  "queueCancellation c a ev now sock r = (let q = re_heap r ! a in
     if rq_mode q = Fast then queueFast c (rq_provider q) ev True now sock r else queueCritical c (rq_provider q) ev now sock r)"

text \<open>An offer is the target: its owner revokes it, in the ledger first.\<close>

definition revoke_offer_begin :: "string \<Rightarrow> string \<Rightarrow> relay \<Rightarrow> task \<times> relay" where
  "revoke_offer_begin n i r =
     (let call = (case re_ledger r of None \<Rightarrow> (Inr (), r) | Some l \<Rightarrow> (let (res, l') = revokeOffer i n l in (rbind res (\<lambda>_. Inr ()), r\<lparr>re_ledger := Some l'\<rparr>))) in
      case jmap_get (ro_offers r) i of
        None \<Rightarrow> (case ledger_offer i r of None \<Rightarrow> (Finished 404 ''target_not_found'', r)
          | Some (owner, fingerprint, revoked) \<Rightarrow> if owner \<noteq> n then (Finished 403 ''not_target_owner'', r)
              else (case call of (Inl e, r1) \<Rightarrow> (fails e, r1) | (Inr _, r1) \<Rightarrow> (Finished 200 [], r1)))
      | Some ofr \<Rightarrow> if offer_from ofr \<noteq> n then (Finished 403 ''not_target_owner'', r) else (OfferRevoking n i (fst call), snd call))"

definition mark_revoked :: "string \<Rightarrow> string \<Rightarrow> relay \<Rightarrow> relay" where
  "mark_revoked n i r = (case jmap_get (ro_offers r) i of None \<Rightarrow> r
     | Some ofr \<Rightarrow> if offer_from ofr = n then offer_step (Revoke i) r else r)"

definition offer_revoking :: "string \<Rightarrow> string \<Rightarrow> unit result \<Rightarrow> int \<Rightarrow> relay \<Rightarrow> task \<times> relay" where
  "offer_revoking n i res now r = (case res of Inl e \<Rightarrow> (fails e, r) | Inr _ \<Rightarrow> (Finished 200 [], touch now n (mark_revoked n i r)))"

text \<open>A NEED is the target: its requester cancels it, here or, when this relay does not hold it, in the ledger.\<close>

definition revoke_need_begin :: "platform \<Rightarrow> relay_conf \<Rightarrow> string \<Rightarrow> string \<Rightarrow> jsval \<Rightarrow> int \<Rightarrow> relay \<Rightarrow> task \<times> relay" where
  "revoke_need_begin p c n i envelope now r =
     (case jmap_get (re_requests r) i of Some a \<Rightarrow> expire_then p c a now (CancelChecked a envelope) r
      | None \<Rightarrow> (case ledger_need i r of None \<Rightarrow> (Finished 404 ''target_not_found'', r)
         | Some row \<Rightarrow> if nr_requester row \<noteq> n then (Finished 403 ''not_request_owner'', r)
             else (case ledger_transition p now i n [] NCancelled (Some \<lparr>dl_recipient = nr_provider row, dl_kind = ''REVOKE'', dl_event = revoke_event envelope i\<rparr>) r of
               (Inl e, r2) \<Rightarrow> (fails e, r2) | (Inr _, r2) \<Rightarrow> (Finished 200 [], r2))))"

text \<open>Which of the two a REVOKE is about, or why it is refused (the branch of the Cosmos ledger apart).\<close>

definition revoke_target :: "jsval \<Rightarrow> string \<Rightarrow> relay \<Rightarrow> task + bool" where
  "revoke_target payload i r =
     (let k = oget payload ''targetKind''; kind = (if truthy k then k else JStr ''auto''); reason = oget payload ''reason'';
          held = (jmap_get (re_requests r) i \<noteq> None); durable = (ledger_need i r \<noteq> None);
          known_offer = (jmap_get (ro_offers r) i \<noteq> None \<or> ledger_offer i r \<noteq> None) in
      if \<not> is_string (oget payload ''targetId'') \<or> i = [] then Inl (Finished 400 ''invalid_target_id'')
      else if kind \<notin> {JStr ''auto'', JStr ''need'', JStr ''offer''} then Inl (Finished 400 ''invalid_target_kind'')
      else if \<not> nullish reason \<and> (\<not> is_string reason \<or> length (str_of reason) > 256) then Inl (Finished 400 ''invalid_cancel_reason'')
      else if kind = JStr ''auto'' \<and> (held \<or> i \<in> set (re_seenNeedIds r) \<or> durable) \<and> known_offer then Inl (Finished 409 ''ambiguous_revoke_target'')
      else Inr (kind = JStr ''need'' \<or> kind = JStr ''auto'' \<and> (held \<or> durable)))"

definition revoke_begin :: "envelope_verifier \<Rightarrow> platform \<Rightarrow> relay_conf \<Rightarrow> string option \<Rightarrow> jsval \<Rightarrow> int \<Rightarrow> relay \<Rightarrow> task \<times> relay" where
  "revoke_begin ve p c token envelope now r = with_envelope ve [''REVOKE''] token envelope now r (\<lambda>n r1.
     let payload = get envelope ''payload''; i = str_of (oget payload ''targetId'') in
     case revoke_target payload i r1 of Inl t \<Rightarrow> (t, r1)
     | Inr is_need \<Rightarrow> if is_need then revoke_need_begin p c n i envelope now r1 else revoke_offer_begin n i r1)"

definition cancel_checked :: "platform \<Rightarrow> relay_conf \<Rightarrow> nat \<Rightarrow> jsval \<Rightarrow> int \<Rightarrow> socket_state \<Rightarrow> relay \<Rightarrow> task \<times> relay" where
  "cancel_checked p c a envelope now sock r =
     (let q = re_heap r ! a; n = str_of (get envelope ''from''); ev = revoke_event envelope (rq_needId q) in
      if rq_requester q \<noteq> n then (Finished 403 ''not_request_owner'', r)
      else case rq_status q of
        NCompleted \<Rightarrow> (Finished 409 ''request_already_completed'', r)
      | NFailed \<Rightarrow> (Finished 409 ''request_failed'', r)
      | NCancelled \<Rightarrow> (let (ok, r1) = queueCancellation c a ev now sock r in (if ok then Finished 200 ''idempotent'' else Finished 429 ''cancellation_backpressure'', touch now n r1))
      | Matched \<Rightarrow> (let (res, r1) = ledger_transition p now (rq_needId q) n [] NCancelled (Some \<lparr>dl_recipient = rq_provider q, dl_kind = ''REVOKE'', dl_event = ev\<rparr>) r in (Cancelling a envelope res, r1)))"

definition cancelling :: "relay_conf \<Rightarrow> nat \<Rightarrow> jsval \<Rightarrow> bool result \<Rightarrow> int \<Rightarrow> socket_state \<Rightarrow> relay \<Rightarrow> task \<times> relay" where
  "cancelling c a envelope res now sock r =
     (case res of Inl e \<Rightarrow> (fails e, r)
      | Inr _ \<Rightarrow>
        (let i = rq_needId (re_heap r ! a); r1 = releaseFastTerminal a (markRequestStatus a NCancelled r); r2 = snd (finishResultWaiter i r1);
             (ok, r3) = queueCancellation c a (revoke_event envelope i) now sock r2 in
         (if ok then Finished 200 [] else Finished 429 ''cancellation_backpressure'', touch now (str_of (get envelope ''from'')) r3)))"

section \<open>Status\<close>

definition status_begin :: "string option \<Rightarrow> string \<Rightarrow> int \<Rightarrow> relay \<Rightarrow> task \<times> relay" where
  "status_begin token i now r = with_token token now r (\<lambda>n r1.
     case jmap_get (re_requests r1) i of
       Some a \<Rightarrow> if rq_requester (re_heap r1 ! a) \<noteq> n then (Finished 403 ''not_request_owner'', r1) else (StatusLooked a (ledger_need i r1), r1)
     | None \<Rightarrow> (case ledger_need i r1 of None \<Rightarrow> (Finished 404 ''request_not_found'', r1)
         | Some row \<Rightarrow> (if nr_requester row \<noteq> n then Finished 403 ''not_request_owner'' else if nr_mode row \<noteq> ''fast'' then Finished 409 ''request_status_requires_fast_need'' else Finished 200 [], r1)))"

definition status_looked :: "platform \<Rightarrow> relay_conf \<Rightarrow> nat \<Rightarrow> need_row option \<Rightarrow> int \<Rightarrow> relay \<Rightarrow> task \<times> relay" where
  "status_looked p c a durable now r =
     (let r1 = (case durable of None \<Rightarrow> r | Some row \<Rightarrow> if nr_status row \<noteq> Matched then markRequestStatus a (nr_status row) r else r) in
      if rq_mode (re_heap r1 ! a) \<noteq> Fast then (Finished 409 ''request_status_requires_fast_need'', r1) else expire_then p c a now (StatusChecked a) r1)"

section \<open>Registration and offers\<close>

text \<open>What an IDENTITY advertises, and whether the relay and it agree on a generation.\<close>

definition advert_field :: "jsval \<Rightarrow> string \<Rightarrow> jsval \<Rightarrow> jsval" where
  "advert_field payload k other = (if has_own payload k then get payload k else other)"

definition text_list :: "jsval \<Rightarrow> bool" where
  "text_list v = (is_array v \<and> (\<forall>x\<in>set (elems v). nonblank x))"

definition generation_text :: "jsval \<Rightarrow> bool" where
  "generation_text v = (let s = str_of v in take 6 s = ''TRUYN/'' \<and> drop 6 s \<noteq> [] \<and> list_all is_digit (drop 6 s))"

definition register_agrees :: "platform \<Rightarrow> jsval \<Rightarrow> task option" where
  "register_agrees p payload =
     (let declared = advert_field payload ''protocols'' (JArr [JStr PROTOCOL]); sem = advert_field payload ''semantics'' (JArr []);
          required = advert_field payload ''requiredSemantics'' (JArr []) in
      if \<not> (text_list declared \<and> text_list sem \<and> text_list required) then Some (Finished 409 ''version_mismatch'')
      else case negotiateProtocol p \<lparr>protocols = JArr [JStr PROTOCOL], semantics = JArr [], semanticsByProtocol = JUndef\<rparr>
          \<lparr>protocols = JArr (filter generation_text (elems declared)), semantics = sem, semanticsByProtocol = JUndef\<rparr> required of
        Agreed _ _ \<Rightarrow> None | _ \<Rightarrow> Some (Finished 409 ''version_mismatch''))"

text \<open>The new session replaces the node's old one and its socket; a relay that is full refuses new nodes.\<close>

definition install_node :: "relay_conf \<Rightarrow> jsval \<Rightarrow> string \<Rightarrow> int \<Rightarrow> relay \<Rightarrow> relay" where
  "install_node c envelope token now r =
     (let n = str_of (get envelope ''from'');
          sessions = (case jmap_get (re_nodes r) n of None \<Rightarrow> re_sessions r
            | Some nd \<Rightarrow> if nd_sessionToken nd = [] then re_sessions r else jmap_delete (nd_sessionToken nd) (re_sessions r));
          keep = (\<lambda>m. jmap_set n (list_at m n) m) in
      r\<lparr>re_providerSockets := jmap_delete n (re_providerSockets r),
        re_nodes := jmap_set n \<lparr>nd_publicKey = get envelope ''publicKey'', nd_sessionToken = token, nd_lastSeenAt = now\<rparr> (re_nodes r),
        re_sessions := jmap_set token (n, now + cf_sessionTtlMs c) sessions,
        re_events := keep (re_events r), re_fastEvents := keep (re_fastEvents r), re_fastTerminalEvents := keep (re_fastTerminalEvents r),
        re_stats := jmap_set n (nat_at (re_stats r) n) (re_stats r)\<rparr>)"

definition register :: "envelope_verifier \<Rightarrow> platform \<Rightarrow> relay_conf \<Rightarrow> jsval \<Rightarrow> string \<Rightarrow> int \<Rightarrow> relay \<Rightarrow> task \<times> relay" where
  "register ve p c envelope token now r =
     (let n = str_of (get envelope ''from''); i = str_of (get envelope ''id'') in
      case ve [''IDENTITY''] envelope of Inl reason \<Rightarrow> (Finished 400 reason, r)
      | Inr _ \<Rightarrow> (case register_agrees p (get envelope ''payload'') of Some t \<Rightarrow> (t, r)
        | None \<Rightarrow> if \<not> nodeCanRegister c n then (Finished 403 ''registration_denied'', r)
            else let r1 = cleanupRegistrationReplayCache now r in
              if \<not> registrationIsFresh p c envelope now then (Finished 400 ''stale_registration'', r1)
              else if jmap_get (re_usedRegistrationIds r1) i \<noteq> None then (Finished 409 ''registration_replay'', r1)
              else let r2 = r1\<lparr>re_usedRegistrationIds := jmap_set i (now + cf_registrationFreshnessMs c + 30000) (re_usedRegistrationIds r1)\<rparr> in
                if jmap_get (re_nodes r2) n = None \<and> length (re_nodes r2) \<ge> cf_maxNodes c then (Finished 503 ''node_capacity_reached'', r2)
                else (Finished 200 [], install_node c envelope token now r2)))"

definition offer_begin :: "envelope_verifier \<Rightarrow> string option \<Rightarrow> jsval \<Rightarrow> int \<Rightarrow> relay \<Rightarrow> task \<times> relay" where
  "offer_begin ve token envelope now r = with_envelope ve [''OFFER''] token envelope now r (\<lambda>n r1.
     case named_capability (get envelope ''payload'') of None \<Rightarrow> (Finished 400 ''invalid_capability'', r1)
     | Some cap \<Rightarrow> let i = str_of (get envelope ''id'') in
         if jmap_get (ro_offers r1) i \<noteq> None then (Finished 409 ''duplicate_offer'', r1) else (OfferLooked envelope cap (ledger_offer i r1), r1))"

definition offer_looked :: "platform \<Rightarrow> relay_config \<Rightarrow> relay_conf \<Rightarrow> jsval \<Rightarrow> string \<Rightarrow> durable_offer option \<Rightarrow> relay \<Rightarrow> task \<times> relay" where
  "offer_looked p authorities c envelope cap durable r =
     (if durable \<noteq> None then (Finished 409 ''duplicate_offer'', r)
      else if length (ro_offers r) + re_pendingOfferReservations r \<ge> cf_maxOffers c then (Finished 503 ''offer_capacity_reached'', r)
      else case providerPolicyFromOffer p authorities envelope of Inl e \<Rightarrow> (fails e, r)
      | Inr policy \<Rightarrow>
        let fp = (case json_text p envelope of None \<Rightarrow> [] | Some t \<Rightarrow> sha256 p t);
            (res, r1) = (case re_ledger r of None \<Rightarrow> (Inr (), r)
              | Some l \<Rightarrow> (let (x, l') = reserveOffer (str_of (get envelope ''id'')) (str_of (get envelope ''from'')) fp l in (rbind x (\<lambda>_. Inr ()), r\<lparr>re_ledger := Some l'\<rparr>))) in
        (OfferReserving envelope cap policy res, r1\<lparr>re_pendingOfferReservations := re_pendingOfferReservations r1 + 1\<rparr>))"

definition offer_reserving :: "jsval \<Rightarrow> string \<Rightarrow> relay_policy \<Rightarrow> unit result \<Rightarrow> int \<Rightarrow> relay \<Rightarrow> task \<times> relay" where
  "offer_reserving envelope cap policy res now r =
     (let r1 = r\<lparr>re_pendingOfferReservations := re_pendingOfferReservations r - 1\<rparr> in
      case res of Inl e \<Rightarrow> (fails e, r1)
      | Inr _ \<Rightarrow> (Finished 200 [], touch now (str_of (get envelope ''from''))
          (putOffer (str_of (get envelope ''id'')) \<lparr>ofr_envelope = envelope, ofr_capability = cap, ofr_policy = Some policy, ofr_revoked = False\<rparr> r1)))"

section \<open>Polls, sockets and the heartbeat\<close>

definition hand_over :: "string \<Rightarrow> jsval list \<Rightarrow> relay \<Rightarrow> relay" where
  "hand_over n evs r = r\<lparr>re_delivered := re_delivered r @ map (Pair n) evs\<rparr>"

definition poll_fast :: "string option \<Rightarrow> string \<Rightarrow> bool \<Rightarrow> int \<Rightarrow> relay \<Rightarrow> task \<times> relay" where
  "poll_fast token n wait now r =
     (case authenticatedNodeId token now r of (who, r1) \<Rightarrow>
      if n = [] \<or> who \<noteq> Some n then (Finished 401 ''unauthorized'', r1)
      else let r2 = touch now n r1; evs = list_at (re_fastEvents r2) n @ list_at (re_fastTerminalEvents r2) n in
        if evs \<noteq> [] then (Finished 200 [], hand_over n evs (r2\<lparr>re_fastEvents := jmap_set n [] (re_fastEvents r2), re_fastTerminalEvents := jmap_set n [] (re_fastTerminalEvents r2)\<rparr>))
        else (Finished 200 [], if wait then r2\<lparr>re_fastWaiters := with_member n (re_fastWaiters r2)\<rparr> else r2))"

definition poll_legacy :: "string option \<Rightarrow> string \<Rightarrow> bool \<Rightarrow> int \<Rightarrow> relay \<Rightarrow> task \<times> relay" where
  "poll_legacy token n wait now r =
     (case authenticatedNodeId token now r of (who, r1) \<Rightarrow>
      if n = [] \<or> who \<noteq> Some n then (Finished 401 ''unauthorized'', r1)
      else let evs = list_at (re_events r1) n in
        if evs \<noteq> [] then (Finished 200 [], touch now n (hand_over n evs (r1\<lparr>re_events := jmap_set n [] (re_events r1)\<rparr>)))
        else (Finished 200 [], if wait then r1\<lparr>re_legacyWaiters := with_member n (re_legacyWaiters r1)\<rparr> else touch now n r1))"

text \<open>A new socket takes over the node and what is queued, oldest first, as long as its buffer has room for \<open>k\<close> events.\<close>

definition socket_open :: "string option \<Rightarrow> string \<Rightarrow> nat \<Rightarrow> nat \<Rightarrow> int \<Rightarrow> relay \<Rightarrow> task \<times> relay" where
  "socket_open token n sid k now r =
     (case authenticatedNodeId token now r of (who, r1) \<Rightarrow>
      if n = [] \<or> who \<noteq> Some n \<or> jmap_get (re_nodes r1) n = None then (Finished 401 ''unauthorized'', r1)
      else let r2 = touch now n (r1\<lparr>re_providerSockets := jmap_set n sid (re_providerSockets r1), re_openSockets := sid # re_openSockets r1, ro_socketLostAt := jmap_delete n (ro_socketLostAt r1)\<rparr>);
               q1 = list_at (re_events r2) n; q2 = list_at (re_fastEvents r2) n; q3 = list_at (re_fastTerminalEvents r2) n;
               k2 = k - length q1; k3 = k2 - length q2;
               r3 = hand_over n (take k (q1 @ q2 @ q3)) (r2\<lparr>re_events := jmap_set n (drop k q1) (re_events r2), re_fastEvents := jmap_set n (drop k2 q2) (re_fastEvents r2),
                 re_fastTerminalEvents := jmap_set n (drop k3 q3) (re_fastTerminalEvents r2)\<rparr>) in
        (Finished 200 [], if length (q1 @ q2 @ q3) > k then r3\<lparr>re_providerSockets := jmap_delete n (re_providerSockets r3)\<rparr> else r3))"

definition socket_close :: "string \<Rightarrow> nat \<Rightarrow> int \<Rightarrow> relay \<Rightarrow> relay" where
  "socket_close n sid now r = (let r1 = r\<lparr>re_openSockets := removeAll sid (re_openSockets r)\<rparr> in
     if jmap_get (re_providerSockets r1) n = Some sid
     then r1\<lparr>re_providerSockets := jmap_delete n (re_providerSockets r1), ro_socketLostAt := jmap_set n now (ro_socketLostAt r1)\<rparr> else r1)"

text \<open>Sockets that closed or lost their session go; those that missed a ping (\<open>dead\<close>) count as lost; old marks are dropped.\<close>

definition heartbeat :: "relay_conf \<Rightarrow> string list \<Rightarrow> int \<Rightarrow> relay \<Rightarrow> relay" where
  "heartbeat c dead now r =
     (let gone = (\<lambda>n. \<not> connectedSocket n r \<or> \<not> nodeSessionActive n now r);
          lost = filter (\<lambda>n. \<not> gone n \<and> n \<in> set dead) (map fst (re_providerSockets r));
          r1 = r\<lparr>re_providerSockets := filter (\<lambda>(n, s). \<not> gone n \<and> n \<notin> set dead) (re_providerSockets r),
                 ro_socketLostAt := fold (\<lambda>n. jmap_set n now) lost (ro_socketLostAt r)\<rparr> in
      r1\<lparr>ro_providerCooldownUntil := filter (\<lambda>(n, until). \<not> until \<le> now) (ro_providerCooldownUntil r1),
         ro_socketLostAt := filter (\<lambda>(n, t). \<not> (jmap_get (re_nodes r1) n = None \<or> now - t > cf_registrationFreshnessMs c)) (ro_socketLostAt r1)\<rparr>)"

section \<open>The running relay\<close>

text \<open>What arrives: requests with their token, sockets, timers that end a wait, sweeps and heartbeats.\<close>

datatype arrival =
    FastNeed "string option" jsval jsval bool
  | LegacyNeed "string option" jsval
  | FastPartial "string option" jsval jsval
  | FastResult "string option" jsval jsval
  | SocketResult string jsval jsval
  | LegacyResult "string option" jsval
  | RevokeMessage "string option" jsval
  | StatusQuery "string option" string
  | Registration jsval string
  | OfferMessage "string option" jsval
  | PollFast "string option" string bool
  | PollLegacy "string option" string bool
  | SocketOpen "string option" string nat nat
  | SocketClose string nat
  | WaitOver string string
  | Sweep nat
  | Heartbeat "string list"

record relay_env =
  ev_platform :: platform
  ev_verifyEnvelope :: envelope_verifier
  ev_verifyCompactFrame :: frame_verifier
  ev_round :: "rat \<Rightarrow> rat"
  ev_authorities :: relay_config
  ev_conf :: relay_conf

text \<open>The relay as it is put together, on a platform whose \<^verbatim>\<open>Buffer.from\<close> is \<open>buf\<close>.\<close>

definition relay_on :: "platform \<Rightarrow> (jsval \<Rightarrow> nat list result) \<Rightarrow> (rat \<Rightarrow> rat) \<Rightarrow> relay_config \<Rightarrow> relay_conf \<Rightarrow> relay_env" where
  "relay_on p buf fl authorities c = \<lparr>ev_platform = p, ev_verifyEnvelope = verifyEnvelope p, ev_verifyCompactFrame = verifyCompactFrame p buf, ev_round = fl,
     ev_authorities = authorities, ev_conf = c\<rparr>"

fun arrive :: "relay_env \<Rightarrow> arrival \<Rightarrow> int \<Rightarrow> relay \<Rightarrow> task \<times> relay" where
  "arrive e (FastNeed token frame payload wait) now r = fast_need (ev_verifyCompactFrame e) (ev_conf e) token frame payload wait now r"
| "arrive e (LegacyNeed token envelope) now r = legacy_need (ev_verifyEnvelope e) (ev_conf e) token envelope now r"
| "arrive e (FastPartial token frame payload) now r = with_token token now r (\<lambda>n. processFastPartial (ev_verifyCompactFrame e) (ev_platform e) (ev_conf e) n frame payload now)"
| "arrive e (FastResult token frame payload) now r = with_token token now r (\<lambda>n. processFastResult (ev_verifyCompactFrame e) (ev_platform e) (ev_conf e) n frame payload now)"
| "arrive e (SocketResult n frame payload) now r = (if \<not> nodeSessionActive n now r then (Finished 401 ''session_expired'', r)
     else processFastResult (ev_verifyCompactFrame e) (ev_platform e) (ev_conf e) n frame payload now (touch now n r))"
| "arrive e (LegacyResult token envelope) now r = legacy_result (ev_verifyEnvelope e) (ev_platform e) (ev_conf e) token envelope now r"
| "arrive e (RevokeMessage token envelope) now r = revoke_begin (ev_verifyEnvelope e) (ev_platform e) (ev_conf e) token envelope now r"
| "arrive e (StatusQuery token i) now r = status_begin token i now r"
| "arrive e (Registration envelope token) now r = register (ev_verifyEnvelope e) (ev_platform e) (ev_conf e) envelope token now r"
| "arrive e (OfferMessage token envelope) now r = offer_begin (ev_verifyEnvelope e) token envelope now r"
| "arrive e (PollFast token n wait) now r = poll_fast token n wait now r"
| "arrive e (PollLegacy token n wait) now r = poll_legacy token n wait now r"
| "arrive e (SocketOpen token n sid k) now r = socket_open token n sid k now r"
| "arrive e (SocketClose n sid) now r = (Finished 200 [], socket_close n sid now r)"
| "arrive e (WaitOver n i) now r = (Finished 200 [], r\<lparr>re_fastWaiters := removeAll n (re_fastWaiters r), re_legacyWaiters := removeAll n (re_legacyWaiters r), re_resultWaiters := removeAll i (re_resultWaiters r)\<rparr>)"
| "arrive e (Sweep a) now r = (if a < length (re_heap r) then expire_then (ev_platform e) (ev_conf e) a now (Finished 200 []) r else (Finished 200 [], r))"
| "arrive e (Heartbeat dead) now r = (Finished 200 [], heartbeat (ev_conf e) dead now r)"

fun resume :: "relay_env \<Rightarrow> task \<Rightarrow> int \<Rightarrow> socket_state \<Rightarrow> rat list \<Rightarrow> relay \<Rightarrow> (task \<times> relay) option" where
  "resume e (NeedLooked n d) now sock ties r = Some (need_looked (ev_platform e) (ev_round e) (ev_conf e) n d now ties r)"
| "resume e (NeedReading n cap rest read) now sock ties r = Some (if rest = [] then match_done (ev_platform e) (ev_round e) (ev_conf e) n cap read now ties r else (read_batch (ev_conf e) n cap rest read r, r))"
| "resume e (NeedMatched n cap os) now sock ties r = Some (need_matched (ev_platform e) (ev_conf e) n cap os now r)"
| "resume e (NeedSweeping n cap match) now sock ties r = Some (need_swept (ev_platform e) (ev_conf e) n cap match now r)"
| "resume e (NeedAdmitted n cap provider res) now sock ties r = Some (need_admitted (ev_conf e) n cap provider res now sock r)"
| "resume e (Expiring a res k) now sock ties r = Some (expiry_done a res k r)"
| "resume e (ResultChecked a n frame payload) now sock ties r = Some (result_checked (ev_platform e) (ev_conf e) a n frame payload now r)"
| "resume e (Completing a n event res fast) now sock ties r = Some (completing a n event res fast now r)"
| "resume e (Completed a n event fast) now sock ties r = Some (result_done (ev_conf e) a event fast now sock r)"
| "resume e (PartialChecked a n frame payload) now sock ties r = Some (partial_checked (ev_platform e) a n frame payload now r)"
| "resume e (PartialAccepted a ev k dig res) now sock ties r = Some (partial_accepted (ev_conf e) a ev k dig res now sock r)"
| "resume e (CancelChecked a envelope) now sock ties r = Some (cancel_checked (ev_platform e) (ev_conf e) a envelope now sock r)"
| "resume e (Cancelling a envelope res) now sock ties r = Some (cancelling (ev_conf e) a envelope res now sock r)"
| "resume e (StatusLooked a d) now sock ties r = Some (status_looked (ev_platform e) (ev_conf e) a d now r)"
| "resume e (StatusChecked a) now sock ties r = Some (Finished 200 [], touch now (rq_requester (re_heap r ! a)) r)"
| "resume e (OfferLooked envelope cap d) now sock ties r = Some (offer_looked (ev_platform e) (ev_authorities e) (ev_conf e) envelope cap d r)"
| "resume e (OfferReserving envelope cap policy res) now sock ties r = Some (offer_reserving envelope cap policy res now r)"
| "resume e (OfferRevoking n i res) now sock ties r = Some (offer_revoking n i res now r)"
| "resume e (Finished s x) now sock ties r = None"

record relay_system =
  sy_relay :: relay
  sy_tasks :: "task list"

text \<open>
  An event of a run: something arrives, a waiting task goes on, or another process of the host uses the
  ledger file. A task that has finished, or does not exist, does not go on.
\<close>

datatype relay_event = Arrive arrival int | Resume nat int socket_state "rat list"

fun relay_exec :: "relay_env \<Rightarrow> relay_event \<Rightarrow> relay_system \<Rightarrow> relay_system" where
  "relay_exec e (Arrive a now) s = (case arrive e a now (sy_relay s) of (t, r) \<Rightarrow> \<lparr>sy_relay = r, sy_tasks = sy_tasks s @ [t]\<rparr>)"
| "relay_exec e (Resume i now sock ties) s = (if i < length (sy_tasks s)
     then (case resume e (sy_tasks s ! i) now sock ties (sy_relay s) of None \<Rightarrow> s | Some (t, r) \<Rightarrow> \<lparr>sy_relay = r, sy_tasks = (sy_tasks s)[i := t]\<rparr>)
     else s)"

inductive relay_step :: "relay_env \<Rightarrow> relay_system \<Rightarrow> relay_system \<Rightarrow> bool" for e where
  run_event: "relay_step e s (relay_exec e x s)"
| other_process: "re_ledger (sy_relay s) = Some l \<Longrightarrow> ledger_step (ev_platform e) l l' \<Longrightarrow> relay_step e s (s\<lparr>sy_relay := (sy_relay s)\<lparr>re_ledger := Some l'\<rparr>\<rparr>)"

end
