(* ===== verification/Relay_Runs.thy ===== *)
theory Relay_Runs
  imports Relay_Requests
begin

text \<open>
  What the relay of \<open>Relay_Requests\<close> does over every interleaving of its handlers: the counts of calls in
  flight are exact; with the ledger a result is accepted at most once per NEED; without it two results
  that arrive together are both accepted; a fast result for a legacy NEED takes room that was promised to
  another.
\<close>

section \<open>What a segment does to the requests\<close>

text \<open>
  The part of the state the requests are about: who provides each and how it stands, the map, and the
  counts. A segment changes it and the ledger only by the primitive actions below.
\<close>

definition rq_core :: "request \<Rightarrow> string \<times> string \<times> need_status" where
  "rq_core q = (rq_needId q, rq_provider q, rq_status q)"

definition core :: "relay \<Rightarrow> (string \<times> string \<times> need_status) list \<times> (string, nat) jsmap \<times> (string, nat) jsmap" where
  "core r = (map rq_core (re_heap r), re_requests r, ro_inFlightByProvider r)"

inductive relay_prim :: "platform \<Rightarrow> relay \<Rightarrow> relay \<Rightarrow> bool" for p where
  quiet: "core r' = core r \<Longrightarrow> re_ledger r' = re_ledger r \<Longrightarrow> relay_prim p r r'"
| status: "a < length (re_heap r) \<Longrightarrow> relay_isTerminal x \<Longrightarrow> relay_prim p r (markRequestStatus a x r)"
| matched: "markMatchedRequest q r = Some r' \<Longrightarrow> rq_status q = Matched \<Longrightarrow> relay_prim p r r'"
| pruned: "relay_prim p r (snd (pruneCompleted c r))"
| ledger_call: "re_ledger r = Some l \<Longrightarrow> ledger_step p l l' \<Longrightarrow> relay_prim p r (r\<lparr>re_ledger := Some l'\<rparr>)"

abbreviation evolves :: "platform \<Rightarrow> relay \<Rightarrow> relay \<Rightarrow> bool" where
  "evolves p \<equiv> (relay_prim p)\<^sup>*\<^sup>*"

named_theorems evolve \<open>what helpers and handlers do to the requests\<close>

lemma evolves_refl [evolve]: "evolves p r r"
  by simp

lemma evolves_quiet: "evolves p r r0 \<Longrightarrow> core r' = core r0 \<Longrightarrow> re_ledger r' = re_ledger r0 \<Longrightarrow> evolves p r r'"
  by (meson quiet rtranclp.rtrancl_into_rtrancl)

lemma evolves_fields [evolve]:
  assumes "evolves p r r0"
  shows "evolves p r (r0\<lparr>re_resultWaiters := w\<rparr>)" "evolves p r (r0\<lparr>re_sessions := ss\<rparr>)" "evolves p r (r0\<lparr>ro_selectionReservations := m\<rparr>)"
    "evolves p r (r0\<lparr>re_stats := st\<rparr>)" "evolves p r (r0\<lparr>re_pendingOfferReservations := k\<rparr>)" "evolves p r (r0\<lparr>re_usedRegistrationIds := u\<rparr>)"
    "evolves p r (r0\<lparr>re_fastWaiters := w\<rparr>)" "evolves p r (r0\<lparr>re_legacyWaiters := w\<rparr>)" "evolves p r (r0\<lparr>re_providerSockets := so\<rparr>)"
    "evolves p r (r0\<lparr>re_openSockets := op\<rparr>)" "evolves p r (r0\<lparr>ro_socketLostAt := lo\<rparr>)" "evolves p r (r0\<lparr>ro_providerCooldownUntil := co\<rparr>)"
    "evolves p r (r0\<lparr>re_events := es\<rparr>)" "evolves p r (r0\<lparr>re_fastEvents := es\<rparr>)" "evolves p r (r0\<lparr>re_fastTerminalEvents := es\<rparr>)"
    "evolves p r (r0\<lparr>re_seenNeedIds := se\<rparr>)" "evolves p r (r0\<lparr>re_delivered := de\<rparr>)" "evolves p r (r0\<lparr>re_nodes := ns\<rparr>)"
    "evolves p r (r0\<lparr>re_fastTerminalReservations := rs\<rparr>)" "evolves p r (r0\<lparr>ro_offers := os\<rparr>)" "evolves p r (r0\<lparr>ro_offersByCapability := oc\<rparr>)"
  by (auto intro!: evolves_quiet[OF assms] simp: core_def)

lemma evolves_touch [evolve]: "evolves p r r0 \<Longrightarrow> evolves p r (touch now n r0)"
  by (auto simp: touch_def intro!: evolve split: option.splits)

lemma evolves_deliver [evolve]: "evolves p r r0 \<Longrightarrow> evolves p r (deliver n ev r0)" "evolves p r r0 \<Longrightarrow> evolves p r (hand_over n evs r0)"
  by (auto simp: deliver_def hand_over_def intro!: evolve)

lemma evolves_socket [evolve]: "evolves p r r0 \<Longrightarrow> evolves p r (snd (sendSocketEvent n ev b now s r0))"
  by (auto simp: sendSocketEvent_def intro!: evolve)

lemma evolves_waiters [evolve]:
  "evolves p r r0 \<Longrightarrow> evolves p r (snd (deliverLegacyWaiter n ev now r0))" "evolves p r r0 \<Longrightarrow> evolves p r (snd (deliverFastWaiter n ev now r0))"
  "evolves p r r0 \<Longrightarrow> evolves p r (snd (finishResultWaiter i r0))"
  by (auto simp: deliverLegacyWaiter_def deliverFastWaiter_def finishResultWaiter_def intro!: evolve)

lemma evolves_queues [evolve]:
  assumes "evolves p r r0"
  shows "evolves p r (queue_legacy c n ev now s r0)" "evolves p r (snd (queueCritical c n ev now s r0))" "evolves p r (snd (queueFast c n ev b now s r0))"
    "evolves p r (snd (queueFastTerminal c n ev now s r0))"
  using assms by (auto simp: queue_legacy_def queueCritical_def queueFast_def queueFastTerminal_def Let_def split_beta intro!: evolve)

lemma evolves_reservations [evolve]:
  assumes "evolves p r r0"
  shows "evolves p r (snd (reserveFastTerminal c n r0))" "evolves p r (drop_reservation n r0)" "evolves p r (unselect i r0)"
  using assms by (auto simp: reserveFastTerminal_def drop_reservation_def unselect_def Let_def intro!: evolve)

lemma core_heap_update:
  assumes "rq_core q' = rq_core (re_heap r ! a)"
  shows "core (r\<lparr>re_heap := (re_heap r)[a := q']\<rparr>) = core r"
proof -
  have "(map rq_core h)[a := rq_core (h ! a)] = map rq_core h" for h by (metis list_update_id map_update)
  with assms show ?thesis by (simp add: core_def map_update)
qed

lemma evolves_release [evolve]: "evolves p r r0 \<Longrightarrow> evolves p r (releaseFastTerminal a r0)"
  unfolding releaseFastTerminal_def Let_def
  by (auto intro!: evolves_reservations(2) evolves_quiet[of p r r0] core_heap_update simp: rq_core_def)

lemma evolves_cooldown [evolve]: "evolves p r r0 \<Longrightarrow> evolves p r (noteProviderCooldown c n payload now r0)"
  by (auto simp: noteProviderCooldown_def Let_def intro!: evolve split: jsval.splits)

lemma evolves_status [evolve]: "evolves p r r0 \<Longrightarrow> a < length (re_heap r0) \<Longrightarrow> relay_isTerminal x \<Longrightarrow> evolves p r (markRequestStatus a x r0)"
  by (meson relay_prim.status rtranclp.rtrancl_into_rtrancl)

lemma evolves_pruned [evolve]: "evolves p r r0 \<Longrightarrow> evolves p r (snd (pruneCompleted c r0))"
  by (meson relay_prim.pruned rtranclp.rtrancl_into_rtrancl)

lemma evolves_matched: "evolves p r r0 \<Longrightarrow> markMatchedRequest q r0 = Some r' \<Longrightarrow> rq_status q = Matched \<Longrightarrow> evolves p r r'"
  by (meson relay_prim.matched rtranclp.rtrancl_into_rtrancl)

lemma evolves_ledger: "evolves p r r0 \<Longrightarrow> re_ledger r0 = Some l \<Longrightarrow> ledger_step p l l' \<Longrightarrow> evolves p r (r0\<lparr>re_ledger := Some l'\<rparr>)"
  by (erule rtranclp.rtrancl_into_rtrancl) (rule relay_prim.ledger_call)

lemma evolves_ledger_calls [evolve]:
  assumes "evolves p r r0"
  shows "evolves p r (snd (ledger_transition p now i rq pr x d r0))" "evolves p r (snd (ledger_partial p now i pr sq dg d r0))"
  using assms by (auto simp: ledger_transition_def ledger_partial_def split_beta Let_def intro!: evolves_ledger ledger_step.intros evolve split: option.splits)

lemma evolves_admit [evolve]: "evolves p r r0 \<Longrightarrow> evolves p r (snd (admitDirectNeedId p c env now i rq pr fp cap m d r0))"
  by (auto simp: admitDirectNeedId_def split_beta Let_def intro!: evolves_ledger ledger_step.intros evolve split: option.splits sum.splits)

lemma heap_length [simp]:
  "length (re_heap (touch now n r)) = length (re_heap r)" "length (re_heap (deliver n ev r)) = length (re_heap r)"
  "length (re_heap (markRequestStatus a x r)) = length (re_heap r)" "length (re_heap (releaseFastTerminal a r)) = length (re_heap r)"
  by (auto simp: touch_def deliver_def markRequestStatus_def releaseFastTerminal_def drop_reservation_def Let_def split: option.splits)

lemma evolves_auth [evolve]: "evolves p r r0 \<Longrightarrow> evolves p r (snd (authenticatedNodeId token now r0))"
  by (auto simp: authenticatedNodeId_def intro!: evolve split: option.splits)

lemma evolves_routing:
  assumes "evolves p r r0"
  shows "evolves p r (snd (matching_finish fl c on tk ro i now el r0))"
proof -
  have "core (snd (matching_finish fl c on tk ro i now el r0)) = core r0 \<and> re_ledger (snd (matching_finish fl c on tk ro i now el r0)) = re_ledger r0"
    by (auto simp: matching_finish_def rankOffers_def core_def Let_def split: prod.splits sum.splits list.splits if_splits)
  then show ?thesis using evolves_quiet[OF assms] by blast
qed

lemma evolves_expire_finish [evolve]: "evolves p r r0 \<Longrightarrow> a < length (re_heap r0) \<Longrightarrow> evolves p r (expire_finish a r0)"
  by (auto simp: expire_finish_def relay_isTerminal_def intro!: evolve)

lemma evolves_expire [evolve]: "evolves p r r0 \<Longrightarrow> a < length (re_heap r0) \<Longrightarrow> evolves p r (snd (expire_then p c a now k r0))"
  by (auto simp: expire_then_def split_beta Let_def intro!: evolve)

lemma evolves_envelope: "(\<And>n r1. evolves p r r1 \<Longrightarrow> evolves p r (snd (k n r1))) \<Longrightarrow> evolves p r r0 \<Longrightarrow> evolves p r (snd (with_envelope ve ts token env now r0 k))"
  by (auto simp: with_envelope_def authenticateEnvelope_def split_beta intro!: evolve split: sum.splits option.splits prod.splits)
    (metis evolves_auth snd_conv)+

lemma evolves_token: "(\<And>n r1. evolves p r r1 \<Longrightarrow> evolves p r (snd (k n r1))) \<Longrightarrow> evolves p r r0 \<Longrightarrow> evolves p r (snd (with_token token now r0 k))"
  by (auto simp: with_token_def split: prod.splits option.splits) (metis evolves_auth snd_conv)+

lemma evolves_need [evolve]:
  assumes "evolves p r r0"
  shows "evolves p r (snd (need_begin n r0))" "evolves p r (snd (fast_need vf c token frame payload w now r0))" "evolves p r (snd (legacy_need ve c token env now r0))"
    "evolves p r (snd (match_done p fl c n cap rd now ties r0))" "evolves p r (snd (need_looked p fl c n d now ties r0))" "evolves p r (snd (need_admit p c n cap m now r0))"
    "evolves p r (snd (need_matched p c n cap os now r0))" "evolves p r (snd (need_swept p c n cap m now r0))" "evolves p r (snd (need_admitted c n cap pr res now sock r0))"
proof -
  show b: "evolves p r (snd (need_begin n r0))" using assms by (simp add: need_begin_def)
  show "evolves p r (snd (fast_need vf c token frame payload w now r0))"
    using evolves_auth[OF assms, of token now]
    by (auto simp: fast_need_def need_begin_def split: prod.splits option.splits sum.splits)
  show "evolves p r (snd (legacy_need ve c token env now r0))"
    unfolding legacy_need_def by (rule evolves_envelope[OF _ assms]) (simp add: need_begin_def)
  have m: "evolves p r (snd (match_done p fl c n cap rd now ties r0))" for rd cap
    by (auto simp: match_done_def case_prod_beta intro!: evolves_routing assms split: sum.splits)
  show "evolves p r (snd (match_done p fl c n cap rd now ties r0))" by (rule m)
  show "evolves p r (snd (need_looked p fl c n d now ties r0))"
    using assms m by (auto simp: need_looked_def split: sum.splits option.splits)
  have a: "evolves p r (snd (need_admit p c n cap m now r1))" if "evolves p r r1" for r1 m
    using that by (auto simp: need_admit_def split_beta intro!: evolve)
  show "evolves p r (snd (need_admit p c n cap m now r0))" using a assms by blast
  show "evolves p r (snd (need_matched p c n cap os now r0))"
    using assms a evolves_pruned[OF assms, of c] by (auto simp: need_matched_def split: list.splits prod.splits sum.splits)
  show "evolves p r (snd (need_swept p c n cap m now r0))"
    using a evolves_reservations(1)[OF assms, of c "na_requester n"] evolves_pruned[OF evolves_reservations(1)[OF assms], of c c "na_requester n"]
    by (auto simp: need_swept_def intro!: evolve split: prod.splits sum.splits bool.splits)
  show "evolves p r (snd (need_admitted c n cap pr res now sock r0))"
    using assms evolves_matched[OF assms]
    by (auto simp: need_admitted_def need_request_def Let_def intro!: evolve split: sum.splits option.splits)
qed

lemma evolves_frame: "(\<And>a. jmap_get (re_requests r0) (str_of (get frame ''i'')) = Some a \<Longrightarrow> evolves p r (snd (k a))) \<Longrightarrow> evolves p r r0 \<Longrightarrow>
    evolves p r (snd (process_frame vf ty n frame payload now r0 k))"
  by (auto simp: process_frame_def split: option.splits sum.splits)

text \<open>Every address in the map and in a task is one of a request; no task waits for an expiry on its way to complete.\<close>

definition map_ok :: "relay \<Rightarrow> bool" where
  "map_ok r \<longleftrightarrow> (\<forall>(i, a) \<in> set (re_requests r). a < length (re_heap r))"

lemma map_okD: "map_ok r \<Longrightarrow> jmap_get (re_requests r) i = Some a \<Longrightarrow> a < length (re_heap r)"
  by (auto simp: map_ok_def dest!: map_of_SomeD)

fun is_completing :: "task \<Rightarrow> bool" where
  "is_completing (Completing a n ev res fast) = True"
| "is_completing _ = False"

fun address_ok :: "nat \<Rightarrow> task \<Rightarrow> bool" where
  "address_ok k (Expiring a res t) = (a < k \<and> address_ok k t \<and> \<not> is_completing t)"
| "address_ok k (ResultChecked a n f y) = (a < k)"
| "address_ok k (Completing a n ev res fast) = (a < k)"
| "address_ok k (Completed a n ev fast) = (a < k)"
| "address_ok k (PartialChecked a n f y) = (a < k)"
| "address_ok k (PartialAccepted a ev x dig res) = (a < k)"
| "address_ok k (CancelChecked a env) = (a < k)"
| "address_ok k (Cancelling a env res) = (a < k)"
| "address_ok k (StatusLooked a d) = (a < k)"
| "address_ok k (StatusChecked a) = (a < k)"
| "address_ok k _ = True"

lemma evolves_results [evolve]:
  assumes r0: "evolves p r r0" and a: "a < length (re_heap r0)"
  shows "evolves p r (snd (complete_call p a n ev fast now r0))" "evolves p r (snd (result_checked p c a n frame payload now r0))"
    "evolves p r (snd (completing a n ev res fast now r0))" "evolves p r (snd (result_done c a ev fast now sock r0))"
    "evolves p r (snd (partial_checked p a n frame payload now r0))" "evolves p r (snd (cancel_checked p c a env now sock r0))"
    "evolves p r (snd (cancelling c a env res now sock r0))" "evolves p r (snd (status_looked p c a d now r0))" "evolves p r (snd (expiry_done a res t r0))"
proof -
  show cc: "evolves p r (snd (complete_call p a n ev fast now r0))" using r0 by (auto simp: complete_call_def split_beta Let_def intro!: evolve)
  show "evolves p r (snd (result_checked p c a n frame payload now r0))"
    using r0 by (auto simp: result_checked_def complete_call_def split_beta Let_def intro!: evolve split: option.splits)
  show "evolves p r (snd (completing a n ev res fast now r0))"
    using r0 a by (auto simp: completing_def relay_isTerminal_def Let_def intro!: evolve split: sum.splits)
  show "evolves p r (snd (result_done c a ev fast now sock r0))"
    using r0 by (auto simp: result_done_def case_prod_beta Let_def intro!: evolve)
  show "evolves p r (snd (partial_checked p a n frame payload now r0))"
    using r0 by (auto simp: partial_checked_def case_prod_beta Let_def intro!: evolve split: option.splits sum.splits)
  have q: "evolves p r (snd (queueCancellation c a x now sock r1))" if "evolves p r r1" for x r1
    using that by (auto simp: queueCancellation_def Let_def intro!: evolve)
  show "evolves p r (snd (cancel_checked p c a env now sock r0))"
    using r0 by (auto simp: cancel_checked_def case_prod_beta Let_def intro!: evolve q split: need_status.splits)
  show "evolves p r (snd (cancelling c a env res now sock r0))"
    using r0 a by (auto simp: cancelling_def case_prod_beta Let_def relay_isTerminal_def intro!: evolve q split: sum.splits)
  show "evolves p r (snd (status_looked p c a d now r0))"
    using r0 a by (auto simp: status_looked_def Let_def relay_isTerminal_def intro!: evolve split: option.splits)
  show "evolves p r (snd (expiry_done a res t r0))"
    using r0 a by (auto simp: expiry_done_def intro!: evolve split: sum.splits)
qed

lemma queueFast_heap: "re_heap (snd (queueFast c n ev b now s r)) = re_heap r" "re_heap (snd (finishResultWaiter i r)) = re_heap r"
  by (auto simp: queueFast_def sendSocketEvent_def deliverFastWaiter_def touch_def deliver_def finishResultWaiter_def Let_def split: option.splits)

lemma evolves_partial_accepted [evolve]:
  assumes "evolves p r r0"
  shows "evolves p r (snd (partial_accepted c a ev k dig res now sock r0))"
proof -
  have upd: "evolves p r (r1\<lparr>re_heap := h[a := q]\<rparr>)" if "evolves p r r1" "re_heap r1 = h" "rq_core q = rq_core (h ! a)" for r1 h q
    using evolves_quiet[OF that(1) core_heap_update[of q r1 a]] that(2,3) by simp
  show ?thesis using assms
    by (auto simp: partial_accepted_def case_prod_beta Let_def queueFast_heap rq_core_def intro!: upd evolves_touch evolves_waiters evolves_queues split: sum.splits)
qed

lemma evolves_offers [evolve]:
  assumes "evolves p r r0"
  shows "evolves p r (snd (offer_begin ve token env now r0))" "evolves p r (snd (offer_looked p au c env cap d r0))" "evolves p r (snd (offer_reserving env cap pol res now r0))"
    "evolves p r (snd (revoke_offer_begin n i r0))" "evolves p r (snd (offer_revoking n i res now r0))"
proof -
  show "evolves p r (snd (offer_begin ve token env now r0))"
    unfolding offer_begin_def by (rule evolves_envelope[OF _ assms]) (auto simp: Let_def split: option.splits)
  show "evolves p r (snd (offer_looked p au c env cap d r0))"
    using assms by (auto simp: offer_looked_def case_prod_beta Let_def intro!: evolve evolves_ledger ledger_step.intros split: option.splits sum.splits)
  have put: "evolves p r (putOffer i x r1)" if "evolves p r r1" for i x r1
    using that by (auto simp: putOffer_def indexOffer_def unindexOffer_def Let_def intro!: evolve split: option.splits)
  show "evolves p r (snd (offer_reserving env cap pol res now r0))"
    using assms by (auto simp: offer_reserving_def Let_def intro!: evolve put split: sum.splits)
  show "evolves p r (snd (revoke_offer_begin n i r0))"
    using assms by (auto simp: revoke_offer_begin_def case_prod_beta Let_def intro!: evolve evolves_ledger ledger_step.intros split: option.splits sum.splits)
  show "evolves p r (snd (offer_revoking n i res now r0))"
    using assms by (auto simp: offer_revoking_def mark_revoked_def intro!: evolve split: sum.splits option.splits)
qed

lemma auth_map_ok: "map_ok r \<Longrightarrow> map_ok (snd (authenticatedNodeId token now r))"
  by (auto simp: authenticatedNodeId_def map_ok_def split: option.splits)

lemma evolves_envelope_ok:
  assumes r0: "map_ok r" and k: "\<And>n r1. evolves p r r1 \<Longrightarrow> map_ok r1 \<Longrightarrow> evolves p r (snd (k n r1))"
  shows "evolves p r (snd (with_envelope ve ts token env now r k))"
proof -
  obtain who r1 where a: "authenticatedNodeId token now r = (who, r1)" by force
  have "evolves p r r1" "map_ok r1" using evolves_auth[of p r r token now] auth_map_ok[OF r0, of token now] by (simp_all add: a)
  then show ?thesis using k by (auto simp: with_envelope_def authenticateEnvelope_def a split: sum.splits option.splits)
qed

lemma evolves_revoke:
  assumes r0: "map_ok r"
  shows "evolves p r (snd (revoke_begin ve p c token env now r))"
  unfolding revoke_begin_def
proof (rule evolves_envelope_ok[OF r0])
  fix n r1 assume r1: "evolves p r r1" "map_ok r1"
  have "evolves p r (snd (revoke_need_begin p c n i env now r1))" for i
    using r1(1) map_okD[OF r1(2)] unfolding revoke_need_begin_def
    by (auto simp: case_prod_beta intro!: evolves_ledger_calls evolves_expire split: option.splits sum.splits)
  then show "evolves p r (snd (let payload = get env ''payload''; i = str_of (oget payload ''targetId'') in
     case revoke_target payload i r1 of Inl t \<Rightarrow> (t, r1)
     | Inr is_need \<Rightarrow> if is_need then revoke_need_begin p c n i env now r1 else revoke_offer_begin n i r1))"
    using r1(1) evolves_offers(4)[OF r1(1)] by (auto simp: Let_def split: sum.splits)
qed

lemma evolves_arrive:
  assumes r0: "map_ok r"
  shows "evolves (ev_platform e) r (snd (arrive e x now r))"
proof (cases x)
  case (FastResult token frame payload)
  show ?thesis using auth_map_ok[OF r0, of token now] evolves_auth[of _ r r token now]
    by (auto simp: FastResult with_token_def processFastResult_def intro!: evolves_frame evolve dest: map_okD split: prod.splits option.splits)
next
  case (FastPartial token frame payload)
  show ?thesis using auth_map_ok[OF r0, of token now] evolves_auth[of _ r r token now]
    by (auto simp: FastPartial with_token_def processFastPartial_def intro!: evolves_frame evolve dest: map_okD split: prod.splits option.splits)
next
  case (SocketResult n frame payload)
  have "re_requests (touch now n r) = re_requests r" by (simp add: touch_def split: option.splits)
  then show ?thesis using map_okD[OF r0]
    by (auto simp: SocketResult processFastResult_def intro!: evolves_frame evolve)
next
  case (LegacyResult token env)
  show ?thesis unfolding LegacyResult arrive.simps legacy_result_def
    using map_okD[OF auth_map_ok[OF r0, of token now]]
    by (auto simp: with_envelope_def authenticateEnvelope_def Let_def case_prod_beta intro!: evolve split: sum.splits option.splits)
next
  case (RevokeMessage token env)
  show ?thesis unfolding RevokeMessage arrive.simps by (rule evolves_revoke[OF r0])
next
  case (StatusQuery token i)
  show ?thesis unfolding StatusQuery arrive.simps status_begin_def
    by (rule evolves_token) (auto split: option.splits)
qed (auto simp: poll_fast_def poll_legacy_def socket_open_def socket_close_def heartbeat_def register_def install_node_def cleanupRegistrationReplayCache_def Let_def case_prod_beta
      intro!: evolve split: sum.splits option.splits)

lemma evolves_resume:
  assumes "address_ok (length (re_heap r)) t" "resume e t now sock ties r = Some (t', r')"
  shows "evolves (ev_platform e) r r'"
proof -
  have "resume e t now sock ties r \<noteq> None \<Longrightarrow> evolves (ev_platform e) r (snd (the (resume e t now sock ties r)))"
    using assms(1) by (cases t) (auto intro!: evolve)
  with assms(2) show ?thesis by simp
qed

section \<open>The counts are exact\<close>

definition in_flight :: "relay \<Rightarrow> string \<Rightarrow> nat" where
  "in_flight r pr = length (filter (\<lambda>q. rq_status q = Matched \<and> rq_provider q = pr) (re_heap r))"

definition requests_ok :: "relay \<Rightarrow> bool" where
  "requests_ok r \<longleftrightarrow> jmap_ok (re_requests r) \<and> (\<forall>(i, a) \<in> set (re_requests r). a < length (re_heap r) \<and> rq_needId (re_heap r ! a) = i) \<and>
     (\<forall>a < length (re_heap r). rq_status (re_heap r ! a) = Matched \<longrightarrow> (rq_needId (re_heap r ! a), a) \<in> set (re_requests r)) \<and>
     (\<forall>pr. nat_at (ro_inFlightByProvider r) pr = in_flight r pr)"

lemma requests_ok_map: "requests_ok r \<Longrightarrow> map_ok r"
  by (auto simp: requests_ok_def map_ok_def)

lemma length_filter_update:
  "i < length xs \<Longrightarrow> length (filter P (xs[i := x])) + (if P (xs ! i) then 1 else 0) = length (filter P xs) + (if P x then 1 else 0)"
proof (induction xs arbitrary: i)
  case (Cons y ys)
  then show ?case by (cases i) auto
qed simp

lemma core_eqD:
  assumes "core r' = core r"
  shows "length (re_heap r') = length (re_heap r)" "re_requests r' = re_requests r" "ro_inFlightByProvider r' = ro_inFlightByProvider r"
    "a < length (re_heap r) \<Longrightarrow> rq_core (re_heap r' ! a) = rq_core (re_heap r ! a)" "in_flight r' pr = in_flight r pr"
proof -
  have m: "map rq_core (re_heap r') = map rq_core (re_heap r)" using assms by (simp add: core_def)
  then show l: "length (re_heap r') = length (re_heap r)" by (metis length_map)
  show "re_requests r' = re_requests r" "ro_inFlightByProvider r' = ro_inFlightByProvider r" using assms by (simp_all add: core_def)
  show "rq_core (re_heap r' ! a) = rq_core (re_heap r ! a)" if "a < length (re_heap r)" using m l that by (metis nth_map)
  have f: "in_flight x pr = length (filter (\<lambda>(i, n, s). s = Matched \<and> n = pr) (map rq_core (re_heap x)))" for x
    by (simp add: in_flight_def filter_map o_def rq_core_def)
  show "in_flight r' pr = in_flight r pr" by (simp add: f m)
qed

lemma requests_ok_quiet:
  assumes "requests_ok r" "core r' = core r"
  shows "requests_ok r'"
proof -
  note c = core_eqD[OF assms(2)]
  have "rq_needId (re_heap r' ! a) = rq_needId (re_heap r ! a) \<and> rq_status (re_heap r' ! a) = rq_status (re_heap r ! a)" if "a < length (re_heap r)" for a
    using c(4)[OF that] by (simp add: rq_core_def)
  then show ?thesis using assms(1) by (auto simp: requests_ok_def c(1,2,3,5))
qed

lemma nat_at_set [simp]: "nat_at (jmap_set k v m) j = (if j = k then v else nat_at m j)" "nat_at (jmap_delete k m) j = (if j = k then 0 else nat_at m j)"
  by (simp_all add: nat_at_def)

lemma requests_ok_status:
  assumes ok: "requests_ok r" and a: "a < length (re_heap r)" and x: "relay_isTerminal x"
  shows "requests_ok (markRequestStatus a x r)"
proof -
  let ?q = "re_heap r ! a" and ?r = "markRequestStatus a x r"
  have heap: "re_heap ?r = (re_heap r)[a := ?q\<lparr>rq_status := x\<rparr>]" "re_requests ?r = re_requests r"
    by (auto simp: markRequestStatus_def Let_def)
  have fl: "nat_at (ro_inFlightByProvider ?r) pr = nat_at (ro_inFlightByProvider r) pr - (if rq_status ?q = Matched \<and> pr = rq_provider ?q then 1 else 0)" for pr
    using x by (auto simp: markRequestStatus_def Let_def)
  have cnt: "in_flight ?r pr + (if rq_status ?q = Matched \<and> rq_provider ?q = pr then 1 else 0) = in_flight r pr" for pr
    using length_filter_update[OF a, of "\<lambda>q. rq_status q = Matched \<and> rq_provider q = pr" "?q\<lparr>rq_status := x\<rparr>"] x
    by (simp add: in_flight_def heap relay_isTerminal_def)
  have fl': "nat_at (ro_inFlightByProvider ?r) pr = in_flight ?r pr" for pr
  proof -
    have "nat_at (ro_inFlightByProvider r) pr = in_flight r pr" using ok by (simp add: requests_ok_def)
    with fl[of pr] cnt[of pr] show ?thesis by (auto split: if_splits)
  qed
  have "rq_needId (re_heap ?r ! b) = rq_needId (re_heap r ! b)" if "b < length (re_heap r)" for b
    using that by (cases "b = a") (auto simp: heap)
  moreover have "rq_status (re_heap ?r ! b) = Matched \<Longrightarrow> rq_status (re_heap r ! b) = Matched" if "b < length (re_heap r)" for b
    using that x by (cases "b = a") (auto simp: heap relay_isTerminal_def)
  ultimately show ?thesis using ok fl' by (auto simp: requests_ok_def heap)
qed

lemma requests_ok_matched:
  assumes ok: "requests_ok r" and m: "markMatchedRequest q r = Some r'" "rq_status q = Matched"
  shows "requests_ok r'"
proof -
  from m(1) have new: "rq_needId q \<notin> fst ` set (re_requests r)" and
    r': "re_heap r' = re_heap r @ [q]" "re_requests r' = re_requests r @ [(rq_needId q, length (re_heap r))]"
      "ro_inFlightByProvider r' = jmap_set (rq_provider q) (nat_at (ro_inFlightByProvider r) (rq_provider q) + 1) (ro_inFlightByProvider r)"
    by (auto simp: markMatchedRequest_def map_of_eq_None_iff update_new split: if_splits)
  have "in_flight r' pr = in_flight r pr + (if rq_provider q = pr then 1 else 0)" for pr using m(2) by (simp add: in_flight_def r')
  then have fl: "nat_at (ro_inFlightByProvider r') pr = in_flight r' pr" for pr using ok by (auto simp: requests_ok_def r')
  have "jmap_ok (re_requests r')" using ok new by (auto simp: requests_ok_def r')
  moreover have "\<forall>(i, a) \<in> set (re_requests r'). a < length (re_heap r') \<and> rq_needId (re_heap r' ! a) = i"
    using ok by (auto simp: requests_ok_def r' nth_append)
  moreover have "\<forall>a < length (re_heap r'). rq_status (re_heap r' ! a) = Matched \<longrightarrow> (rq_needId (re_heap r' ! a), a) \<in> set (re_requests r')"
    using ok by (auto simp: requests_ok_def r' nth_append less_Suc_eq)
  ultimately show ?thesis unfolding requests_ok_def using fl by blast
qed

lemma prune_entries_sub:
  "set (prune_entries f m es n) \<subseteq> set es" "distinct (map fst es) \<Longrightarrow> distinct (map fst (prune_entries f m es n))"
  "(k, a) \<in> set es \<Longrightarrow> \<not> f a \<Longrightarrow> (k, a) \<in> set (prune_entries f m es n)"
proof -
  have s: "set (prune_entries f m es n) \<subseteq> set es" for f m es n by (induction f m es n rule: prune_entries.induct) auto
  show "set (prune_entries f m es n) \<subseteq> set es" by (rule s)
  show "distinct (map fst es) \<Longrightarrow> distinct (map fst (prune_entries f m es n))"
  proof (induction f m es n rule: prune_entries.induct)
    case (2 f m k a rest n)
    have "k \<notin> fst ` set (prune_entries f m rest x)" if "k \<notin> fst ` set rest" for x using s[of f m rest x] that by blast
    with 2 show ?case by auto
  qed simp
  show "(k, a) \<in> set es \<Longrightarrow> \<not> f a \<Longrightarrow> (k, a) \<in> set (prune_entries f m es n)" by (induction f m es n rule: prune_entries.induct) auto
qed

lemma requests_ok_pruned:
  assumes ok: "requests_ok r"
  shows "requests_ok (snd (pruneCompleted c r))"
proof -
  obtain m where m: "snd (pruneCompleted c r) = r\<lparr>re_requests := m\<rparr>" "set m \<subseteq> set (re_requests r)" "distinct (map fst m)"
    "\<And>k a. (k, a) \<in> set (re_requests r) \<Longrightarrow> rq_status (re_heap r ! a) = Matched \<Longrightarrow> (k, a) \<in> set m"
  proof (cases "length (re_requests r) < cf_maxRequests c")
    case True
    then show ?thesis using that[of "re_requests r"] ok by (simp add: pruneCompleted_def requests_ok_def)
  next
    case False
    let ?m = "prune_entries (\<lambda>a. rq_status (re_heap r ! a) \<noteq> Matched) (cf_maxRequests c) (re_requests r) (length (re_requests r))"
    have "distinct (map fst (re_requests r))" using ok by (simp add: requests_ok_def)
    from that[of ?m, OF _ prune_entries_sub(1) prune_entries_sub(2)[OF this] prune_entries_sub(3)] False show ?thesis
      by (auto simp: pruneCompleted_def Let_def)
  qed
  then show ?thesis using ok by (auto simp: requests_ok_def in_flight_def)
qed

lemma requests_ok_prim: "relay_prim p r r' \<Longrightarrow> requests_ok r \<Longrightarrow> requests_ok r'"
proof (induction rule: relay_prim.induct)
  case (ledger_call r l l')
  show ?case by (rule requests_ok_quiet[OF ledger_call.prems]) (simp add: core_def)
qed (auto intro: requests_ok_quiet requests_ok_status requests_ok_matched requests_ok_pruned)

lemma requests_ok_evolves: "evolves p r r' \<Longrightarrow> requests_ok r \<Longrightarrow> requests_ok r'"
  by (induction rule: rtranclp_induct) (auto intro: requests_ok_prim)

text \<open>The store only grows, so addresses stay good; identifiers of requests never change.\<close>

lemma prim_heap: "relay_prim p r r' \<Longrightarrow> length (re_heap r) \<le> length (re_heap r') \<and> (\<forall>a < length (re_heap r). rq_needId (re_heap r' ! a) = rq_needId (re_heap r ! a))"
proof (induction rule: relay_prim.induct)
  case (quiet r' r)
  then show ?case using core_eqD(1,4)[OF quiet(1)] by (auto simp: rq_core_def)
next
  case (status a r x)
  have "re_heap (markRequestStatus a x r) = (re_heap r)[a := (re_heap r ! a)\<lparr>rq_status := x\<rparr>]" by (auto simp: markRequestStatus_def Let_def)
  moreover have "rq_needId ((re_heap r)[a := (re_heap r ! a)\<lparr>rq_status := x\<rparr>] ! b) = rq_needId (re_heap r ! b)" if "b < length (re_heap r)" for b
    using that by (cases "b = a") auto
  ultimately show ?case by simp
next
  case (matched q r r')
  then show ?case by (auto simp: markMatchedRequest_def nth_append split: if_splits)
next
  case (pruned r c)
  have "re_heap (snd (pruneCompleted c r)) = re_heap r" by (auto simp: pruneCompleted_def Let_def)
  then show ?case by simp
qed simp

lemma evolves_heap: "evolves p r r' \<Longrightarrow> length (re_heap r) \<le> length (re_heap r') \<and> (\<forall>a < length (re_heap r). rq_needId (re_heap r' ! a) = rq_needId (re_heap r ! a))"
proof (induction rule: rtranclp_induct)
  case (step r1 r2)
  then show ?case using prim_heap[OF step(2)] by (auto intro: le_trans)
qed simp

lemma address_ok_mono: "address_ok k t \<Longrightarrow> k \<le> k' \<Longrightarrow> address_ok k' t"
  by (induction k t rule: address_ok.induct) auto

lemma address_fails [simp]: "address_ok k (fails e)"
  by (cases e) auto

lemma address_expire: "a < k \<Longrightarrow> address_ok k t \<Longrightarrow> \<not> is_completing t \<Longrightarrow> address_ok k (fst (expire_then p c a now t r))"
  by (auto simp: expire_then_def Let_def case_prod_beta)

lemma address_unknown [simp]: "address_ok k (unknown_request n d)"
  by (auto simp: unknown_request_def split: option.splits)

lemma address_need [simp]:
  "address_ok k (fst (need_begin n r))" "address_ok k (fst (match_done p fl c n cap rd now ties r))" "address_ok k (fst (need_admit p c n cap m now r))"
  "address_ok k (read_batch c n cap cs rd r)" "address_ok k (fst (need_matched p c n cap os now r))" "address_ok k (fst (need_swept p c n cap m now r))"
  "address_ok k (fst (need_admitted c n cap pr res now sock r))" "address_ok k (fst (need_looked p fl c n d now ties r))"
proof -
  show 1: "address_ok k (fst (need_admit p c n cap m now r))" for m r by (simp add: need_admit_def case_prod_beta)
  show 2: "address_ok k (fst (match_done p fl c n cap rd now ties r))" for cap rd by (auto simp: match_done_def case_prod_beta split: sum.splits)
  show "address_ok k (read_batch c n cap cs rd r)" by (simp add: read_batch_def Let_def)
  then show "address_ok k (fst (need_looked p fl c n d now ties r))"
    using 2 by (auto simp: need_looked_def read_batch_def Let_def split: sum.splits option.splits)
  show "address_ok k (fst (need_begin n r))" by (simp add: need_begin_def)
  show "address_ok k (fst (need_matched p c n cap os now r))" using 1 by (auto simp: need_matched_def case_prod_beta split: list.splits sum.splits)
  show "address_ok k (fst (need_swept p c n cap m now r))" using 1 by (auto simp: need_swept_def case_prod_beta split: sum.splits bool.splits)
  show "address_ok k (fst (need_admitted c n cap pr res now sock r))" by (auto simp: need_admitted_def Let_def split: sum.splits option.splits)
qed

lemma address_offers [simp]:
  "address_ok k (fst (offer_looked p au c env cap d r))" "address_ok k (fst (offer_reserving env cap pol res now r))" "address_ok k (fst (revoke_offer_begin n i r))"
  "address_ok k (fst (offer_revoking n i res now r))"
  by (auto simp: offer_looked_def offer_reserving_def revoke_offer_begin_def offer_revoking_def case_prod_beta Let_def split: sum.splits option.splits)

lemma auth_requests [simp]: "re_requests (snd (authenticatedNodeId token now r)) = re_requests r" "re_heap (snd (authenticatedNodeId token now r)) = re_heap r"
  by (auto simp: authenticatedNodeId_def split: option.splits)

lemma address_frame:
  assumes "map_ok r" "\<And>a. a < length (re_heap r) \<Longrightarrow> address_ok (length (re_heap r)) (fst (k a))"
  shows "address_ok (length (re_heap r)) (fst (process_frame vf ty n frame payload now r k))"
  using assms map_okD[OF assms(1)] by (auto simp: process_frame_def split: option.splits sum.splits)

lemma address_envelope:
  assumes "map_ok r" "\<And>n r1. re_heap r1 = re_heap r \<Longrightarrow> map_ok r1 \<Longrightarrow> address_ok (length (re_heap r)) (fst (k n r1))"
  shows "address_ok (length (re_heap r)) (fst (with_envelope ve ts token env now r k))"
proof -
  obtain who r1 where a: "authenticatedNodeId token now r = (who, r1)" by force
  have "re_heap r1 = re_heap r" "map_ok r1" using auth_requests(2)[of token now r] auth_map_ok[OF assms(1), of token now] by (simp_all add: a)
  then show ?thesis using assms(2) by (auto simp: with_envelope_def authenticateEnvelope_def a split: sum.splits option.splits)
qed

lemma address_token:
  assumes "map_ok r" "\<And>n r1. re_heap r1 = re_heap r \<Longrightarrow> map_ok r1 \<Longrightarrow> address_ok (length (re_heap r)) (fst (k n r1))"
  shows "address_ok (length (re_heap r)) (fst (with_token token now r k))"
proof -
  obtain who r1 where a: "authenticatedNodeId token now r = (who, r1)" by force
  have "re_heap r1 = re_heap r" "map_ok r1" using auth_requests(2)[of token now r] auth_map_ok[OF assms(1), of token now] by (simp_all add: a)
  then show ?thesis using assms(2) by (auto simp: with_token_def a split: option.splits)
qed

lemma touch_heap [simp]: "re_heap (touch now n r) = re_heap r" "re_requests (touch now n r) = re_requests r"
  by (auto simp: touch_def split: option.splits)

lemma address_arrive:
  assumes ok: "map_ok r"
  shows "address_ok (length (re_heap r)) (fst (arrive e x now r))"
proof (cases x)
  case (FastNeed token frame payload w)
  then show ?thesis by (auto simp: fast_need_def case_prod_beta split: sum.splits option.splits)
next
  case (LegacyNeed token env)
  show ?thesis unfolding LegacyNeed arrive.simps legacy_need_def by (rule address_envelope[OF ok]) auto
next
  case (FastPartial token frame payload)
  show ?thesis unfolding FastPartial arrive.simps processFastPartial_def
    by (rule address_token[OF ok], drule sym, simp only:, rule address_frame) (simp_all add: address_expire)
next
  case (FastResult token frame payload)
  show ?thesis unfolding FastResult arrive.simps processFastResult_def
    by (rule address_token[OF ok], drule sym, simp only:, rule address_frame) (simp_all add: address_expire)
next
  case (SocketResult n frame payload)
  have "map_ok (touch now n r)" using ok by (simp add: map_ok_def)
  from address_frame[OF this, of "\<lambda>a. expire_then (ev_platform e) (ev_conf e) a now (ResultChecked a n frame payload) (touch now n r)"]
  show ?thesis by (auto simp: SocketResult processFastResult_def address_expire)
next
  case (LegacyResult token env)
  show ?thesis unfolding LegacyResult arrive.simps legacy_result_def
  proof (rule address_envelope[OF ok])
    fix n r1 assume r1: "re_heap r1 = re_heap r" "map_ok r1"
    show "address_ok (length (re_heap r)) (fst (let i = str_of (oget (get env ''payload'') ''requestId'') in
     case jmap_get (re_requests r1) i of None \<Rightarrow> (unknown_request n (ledger_need i r1), r1)
     | Some a \<Rightarrow> if rq_provider (re_heap r1 ! a) \<noteq> n then (Finished 403 ''provider_mismatch'', r1)
         else (case terminalRequestError (rq_status (re_heap r1 ! a)) of Some e \<Rightarrow> (Finished 409 e, r1)
           | None \<Rightarrow> complete_call (ev_platform e) a n (JObj [(''kind'', JStr ''RESULT''), (''envelope'', env)]) False now r1)))"
      using map_okD[OF r1(2)] r1(1) by (auto simp: Let_def complete_call_def case_prod_beta split: option.splits)
  qed
next
  case (RevokeMessage token env)
  show ?thesis unfolding RevokeMessage arrive.simps revoke_begin_def
  proof (rule address_envelope[OF ok])
    fix n r1 assume r1: "re_heap r1 = re_heap r" "map_ok r1"
    have t: "address_ok k t" if "revoke_target y i r1 = Inl t" for k t y i using that by (auto simp: revoke_target_def Let_def split: if_splits)
    have "address_ok (length (re_heap r)) (fst (revoke_need_begin p c n i env now r1))" for p c i
      using map_okD[OF r1(2)] r1(1) by (auto simp: revoke_need_begin_def case_prod_beta address_expire split: option.splits sum.splits)
    then show "address_ok (length (re_heap r)) (fst (let payload = get env ''payload''; i = str_of (oget payload ''targetId'') in
       case revoke_target payload i r1 of Inl t \<Rightarrow> (t, r1)
       | Inr is_need \<Rightarrow> if is_need then revoke_need_begin (ev_platform e) (ev_conf e) n i env now r1 else revoke_offer_begin n i r1))"
      using t by (auto simp: Let_def split: sum.splits)
  qed
next
  case (StatusQuery token i)
  show ?thesis unfolding StatusQuery arrive.simps status_begin_def
    by (rule address_token[OF ok]) (auto split: option.splits dest: map_okD)
next
  case (OfferMessage token env)
  show ?thesis unfolding OfferMessage arrive.simps offer_begin_def by (rule address_envelope[OF ok]) (auto simp: Let_def split: option.splits)
qed (auto simp: poll_fast_def poll_legacy_def socket_open_def register_def register_agrees_def Let_def case_prod_beta address_expire split: sum.splits option.splits if_splits negotiation.splits)

lemma address_resume:
  assumes "address_ok (length (re_heap r)) t" "resume e t now sock ties r = Some (t', r')"
  shows "address_ok (length (re_heap r)) t'"
proof -
  have "resume e t now sock ties r \<noteq> None \<Longrightarrow> address_ok (length (re_heap r)) (fst (the (resume e t now sock ties r)))"
    using assms(1)
    by (cases t) (auto simp: expiry_done_def result_checked_def complete_call_def completing_def result_done_def partial_checked_def partial_accepted_def cancel_checked_def cancelling_def
      status_looked_def case_prod_beta Let_def address_expire split: sum.splits option.splits need_status.splits)
  with assms(2) show ?thesis by simp
qed

definition system_ok :: "relay_system \<Rightarrow> bool" where
  "system_ok s \<longleftrightarrow> requests_ok (sy_relay s) \<and> (\<forall>t \<in> set (sy_tasks s). address_ok (length (re_heap (sy_relay s))) t)"

definition system_new :: "ledger option \<Rightarrow> relay_system" where
  "system_new l = \<lparr>sy_relay = relay_new l, sy_tasks = []\<rparr>"

lemma system_ok_new: "system_ok (system_new l)"
  by (simp add: system_ok_def system_new_def requests_ok_def relay_new_def in_flight_def nat_at_def)

lemma exec_evolves:
  assumes "system_ok s"
  shows "evolves (ev_platform e) (sy_relay s) (sy_relay (relay_exec e x s))"
proof (cases x)
  case (Arrive a now)
  show ?thesis using evolves_arrive[of "sy_relay s" e a now] requests_ok_map assms by (simp add: Arrive case_prod_beta system_ok_def)
next
  case (Resume i now sock ties)
  show ?thesis
  proof (cases "i < length (sy_tasks s)")
    case True
    then have "address_ok (length (re_heap (sy_relay s))) (sy_tasks s ! i)" using assms by (simp add: system_ok_def)
    with True show ?thesis using evolves_resume by (auto simp: Resume split: option.splits prod.splits)
  qed (simp add: Resume)
qed

lemma system_ok_exec:
  assumes ok: "system_ok s"
  shows "system_ok (relay_exec e x s)"
proof -
  let ?s = "relay_exec e x s"
  note ev = exec_evolves[OF ok, of e x]
  have grow: "length (re_heap (sy_relay s)) \<le> length (re_heap (sy_relay ?s))" using evolves_heap[OF ev] by simp
  have "address_ok (length (re_heap (sy_relay s))) t" if "t \<in> set (sy_tasks ?s)" for t
  proof (cases x)
    case (Arrive a now)
    then show ?thesis using that ok address_arrive[OF requests_ok_map, of "sy_relay s" e a now] by (auto simp: system_ok_def case_prod_beta)
  next
    case (Resume i now sock ties)
    then show ?thesis using that ok address_resume[of "sy_relay s" "sy_tasks s ! i" e now sock ties] set_update_subset_insert[of "sy_tasks s" i]
      by (auto simp: system_ok_def split: if_splits option.splits prod.splits)
  qed
  with requests_ok_evolves[OF ev] ok grow address_ok_mono show ?thesis unfolding system_ok_def by blast
qed

lemma system_ok_step: "relay_step e s s' \<Longrightarrow> system_ok s \<Longrightarrow> system_ok s'"
proof (induction rule: relay_step.induct)
  case (other_process s l l')
  have c: "core ((sy_relay s)\<lparr>re_ledger := Some l'\<rparr>) = core (sy_relay s)" by (simp add: core_def)
  from other_process show ?case using requests_ok_quiet[OF _ c] by (simp add: system_ok_def)
qed (rule system_ok_exec)

lemma system_ok_steps: "(relay_step e)\<^sup>*\<^sup>* (system_new l) s \<Longrightarrow> system_ok s"
  by (induction rule: rtranclp_induct) (auto intro: system_ok_step system_ok_new)

lemma in_flight_map:
  assumes ok: "requests_ok r"
  shows "in_flight r pr = length (filter (\<lambda>(i, a). rq_status (re_heap r ! a) = Matched \<and> rq_provider (re_heap r ! a) = pr) (re_requests r))"
proof -
  let ?P = "\<lambda>q. rq_status q = Matched \<and> rq_provider q = pr"
  let ?es = "filter (\<lambda>(i, a). ?P (re_heap r ! a)) (re_requests r)"
  have heap: "\<forall>(i, a) \<in> set (re_requests r). a < length (re_heap r) \<and> rq_needId (re_heap r ! a) = i"
    "\<forall>a < length (re_heap r). rq_status (re_heap r ! a) = Matched \<longrightarrow> (rq_needId (re_heap r ! a), a) \<in> set (re_requests r)"
    using ok unfolding requests_ok_def by blast+
  have "distinct (re_requests r)" using ok unfolding requests_ok_def by (simp add: distinct_map)
  then have "length ?es = card (set ?es)" by (intro distinct_card[symmetric] distinct_filter)
  also have "\<dots> = card (snd ` set ?es)" proof (intro card_image[symmetric] inj_onI)
    fix u v assume "u \<in> set ?es" "v \<in> set ?es" "snd u = snd v"
    moreover have "fst w = rq_needId (re_heap r ! snd w)" if "w \<in> set ?es" for w using heap(1) that by (cases w) auto
    ultimately have "fst u = fst v" by simp
    with \<open>snd u = snd v\<close> show "u = v" by (simp add: prod_eq_iff)
  qed
  also have "snd ` set ?es = {a. a < length (re_heap r) \<and> ?P (re_heap r ! a)}" (is "_ = ?A")
  proof
    show "snd ` set ?es \<subseteq> ?A" using heap(1) by auto
    have "a \<in> snd ` set ?es" if "a \<in> ?A" for a
      using that heap(2) by (intro image_eqI[of _ _ "(rq_needId (re_heap r ! a), a)"]) simp_all
    then show "?A \<subseteq> snd ` set ?es" by blast
  qed
  also have "card \<dots> = in_flight r pr" by (simp add: in_flight_def length_filter_conv_card)
  finally show ?thesis by simp
qed

text \<open>
  C17. The relay never follows a dangling reference. In every state it can reach, each entry of the map
  of requests leads to the request object with this identifier, every request that is still open is in the
  map, and the request object a waiting handler holds exists, also after pruning, expiry and
  cancellation by other handlers.
\<close>

theorem relay_references_valid:
  assumes "(relay_step e)\<^sup>*\<^sup>* (system_new l) s"
  shows "(\<forall>(i, a) \<in> set (re_requests (sy_relay s)). a < length (re_heap (sy_relay s)) \<and> rq_needId (re_heap (sy_relay s) ! a) = i) \<and>
    (\<forall>a < length (re_heap (sy_relay s)). rq_status (re_heap (sy_relay s) ! a) = Matched \<longrightarrow> (rq_needId (re_heap (sy_relay s) ! a), a) \<in> set (re_requests (sy_relay s))) \<and>
    (\<forall>t \<in> set (sy_tasks s). address_ok (length (re_heap (sy_relay s))) t)"
  using system_ok_steps[OF assms] by (simp add: system_ok_def requests_ok_def)

text \<open>
  C9. The counts of calls in flight are exact. In every state the relay can reach, with and without a
  ledger, under any interleaving of handlers and whatever other processes do to the ledger, the
  count it routes by equals, for each provider, the number of requests it holds that are matched with
  this provider and not finished.
\<close>

theorem relay_in_flight_exact:
  assumes "(relay_step e)\<^sup>*\<^sup>* (system_new l) s"
  shows "nat_at (ro_inFlightByProvider (sy_relay s)) pr =
    length (filter (\<lambda>(i, a). rq_status (re_heap (sy_relay s) ! a) = Matched \<and> rq_provider (re_heap (sy_relay s) ! a) = pr) (re_requests (sy_relay s)))"
proof -
  have ok: "requests_ok (sy_relay s)" using system_ok_steps[OF assms] by (simp add: system_ok_def)
  then show ?thesis using in_flight_map[OF ok] by (simp add: requests_ok_def)
qed

section \<open>One result per NEED\<close>

text \<open>The NEEDs whose result an event accepts: a handler goes on after the ledger, if there is one, took the result.\<close>

definition taken_results :: "relay_event \<Rightarrow> relay_system \<Rightarrow> string list" where
  "taken_results x s = (case x of Resume i now sock ties \<Rightarrow>
      if i < length (sy_tasks s) then (case sy_tasks s ! i of Completing a n ev (Inr _) fast \<Rightarrow> [rq_needId (re_heap (sy_relay s) ! a)] | _ \<Rightarrow> []) else []
    | Arrive _ _ \<Rightarrow> [])"

inductive relay_run :: "relay_env \<Rightarrow> ledger option \<Rightarrow> string list \<Rightarrow> relay_system \<Rightarrow> bool" for e l where
  run_nil: "relay_run e l [] (system_new l)"
| run_more: "relay_run e l acc s \<Longrightarrow> relay_run e l (acc @ taken_results x s) (relay_exec e x s)"
| run_other: "relay_run e l acc s \<Longrightarrow> re_ledger (sy_relay s) = Some d \<Longrightarrow> ledger_step (ev_platform e) d d' \<Longrightarrow>
    relay_run e l acc (s\<lparr>sy_relay := (sy_relay s)\<lparr>re_ledger := Some d'\<rparr>\<rparr>)"

fun completes :: "relay \<Rightarrow> string \<Rightarrow> task \<Rightarrow> bool" where
  "completes r i (Completing a n ev (Inr _) fast) = (rq_needId (re_heap r ! a) = i)"
| "completes r i _ = False"

definition ledger_completed :: "string \<Rightarrow> relay \<Rightarrow> nat" where
  "ledger_completed i r = (case ledger_need i r of Some row \<Rightarrow> if nr_status row = NCompleted then 1 else 0 | None \<Rightarrow> 0)"

text \<open>Each completion is one the ledger took: counted with the results accepted so far there is at most one.\<close>

definition once_ok :: "string list \<Rightarrow> relay_system \<Rightarrow> bool" where
  "once_ok acc s \<longleftrightarrow> system_ok s \<and> re_ledger (sy_relay s) \<noteq> None \<and>
     (\<forall>i. count_list acc i + length (filter (completes (sy_relay s) i) (sy_tasks s)) \<le> ledger_completed i (sy_relay s))"

lemma ledger_completed_grows:
  assumes "re_ledger r = Some l" "re_ledger r' = Some l'" "ledger_grows l l'"
  shows "ledger_completed i r \<le> ledger_completed i r'"
proof (cases "jmap_get (lg_needs l) i")
  case (Some row)
  then obtain row' where "jmap_get (lg_needs l') i = Some row'" "need_follows row row'" using assms(3) unfolding ledger_grows_def grows_def by blast
  with Some assms(1,2) show ?thesis by (auto simp: ledger_completed_def ledger_need_def getNeed_def need_follows_def)
qed (use assms in \<open>simp add: ledger_completed_def ledger_need_def getNeed_def\<close>)

lemma prim_ledger: "relay_prim p r r' \<Longrightarrow> re_ledger r = Some l \<Longrightarrow> \<exists>l'. re_ledger r' = Some l' \<and> ledger_grows l l'"
proof (induction rule: relay_prim.induct)
  case (status a r x)
  have "re_ledger (markRequestStatus a x r) = re_ledger r" by (auto simp: markRequestStatus_def Let_def)
  with status show ?case by auto
next
  case (matched q r r')
  then show ?case by (auto simp: markMatchedRequest_def split: if_splits)
next
  case (pruned r c)
  then show ?case by (auto simp: pruneCompleted_def Let_def)
qed (auto dest: ledger_step_grows)

lemma evolves_ledger_grows: "evolves p r r' \<Longrightarrow> re_ledger r = Some l \<Longrightarrow> \<exists>l'. re_ledger r' = Some l' \<and> ledger_grows l l'"
  by (induction rule: rtranclp_induct) (auto, metis ledger_grows_trans prim_ledger)

lemma transition_completes:
  assumes "ledger_transition p now i [] n NCompleted d r = (Inr x, r')" "re_ledger r = Some l"
  shows "ledger_completed i r = 0 \<and> ledger_completed i r' = 1"
  using assms
  by (auto simp: ledger_transition_def transitionNeed_def transaction_def ledger_completed_def ledger_need_def getNeed_def Let_def case_prod_beta res_simps
      dest!: persistOutbox_needs split: option.splits sum.splits if_splits prod.splits)

lemma transition_heap [simp]: "re_heap (snd (ledger_transition p now i rq pr x d r)) = re_heap r"
  by (auto simp: ledger_transition_def case_prod_beta Let_def split: option.splits)

text \<open>A task that waits for its result to be taken comes only from the call that completes it.\<close>

definition from_call :: "platform \<Rightarrow> relay \<Rightarrow> task \<times> relay \<Rightarrow> bool" where
  "from_call p r y \<longleftrightarrow> (\<forall>i. \<not> completes (snd y) i (fst y)) \<or> (\<exists>a n ev fast now r1. y = complete_call p a n ev fast now r1 \<and> re_ledger r1 = re_ledger r)"

lemma from_call_once:
  assumes "from_call p r y" "re_ledger r = Some l" "completes (snd y) i (fst y)"
  shows "ledger_completed i r = 0 \<and> ledger_completed i (snd y) = 1"
proof -
  from assms(1,3) obtain a n ev fast now r1 where y: "y = complete_call p a n ev fast now r1" and r1: "re_ledger r1 = re_ledger r" by (auto simp: from_call_def)
  let ?t = "ledger_transition p now (rq_needId (re_heap r1 ! a)) [] n NCompleted (Some \<lparr>dl_recipient = rq_requester (re_heap r1 ! a), dl_kind = ''RESULT'', dl_event = ev\<rparr>) r1"
  have yt: "y = (Completing a n ev (fst ?t) fast, snd ?t)" by (simp add: y complete_call_def Let_def case_prod_beta)
  with assms(3) obtain x where x: "fst ?t = Inr x" and i: "rq_needId (re_heap r1 ! a) = i" by (cases "fst ?t") auto
  from transition_completes[of p now "rq_needId (re_heap r1 ! a)" n _ r1 x "snd ?t" l] x r1 assms(2)
  have "ledger_completed i r1 = 0 \<and> ledger_completed i (snd ?t) = 1" by (metis i prod.collapse)
  moreover have "ledger_completed i r1 = ledger_completed i r" by (simp add: ledger_completed_def ledger_need_def r1)
  ultimately show ?thesis by (simp add: yt)
qed

lemma from_call_plain: "(\<And>i. \<not> completes (snd y) i (fst y)) \<Longrightarrow> from_call p r y"
  by (simp add: from_call_def)

lemma completes_fails [simp]: "\<not> completes r i (fails e)" "\<not> completes r i (unknown_request n d)"
  by (cases e) (auto simp: unknown_request_def split: option.splits)

lemma completes_expire: "(\<And>r. \<not> completes r i t) \<Longrightarrow> \<not> completes x i (fst (expire_then p c a now t r))"
  by (auto simp: expire_then_def Let_def case_prod_beta)

lemma completes_need [simp]:
  "\<not> completes x i (fst (need_begin n r))" "\<not> completes x i (fst (match_done p fl c n cap rd now ties r))" "\<not> completes x i (fst (need_admit p c n cap m now r))"
  "\<not> completes x i (read_batch c n cap cs rd r)" "\<not> completes x i (fst (need_matched p c n cap os now r))" "\<not> completes x i (fst (need_swept p c n cap m now r))"
  "\<not> completes x i (fst (need_admitted c n cap pr res now sock r))" "\<not> completes x i (fst (need_looked p fl c n d now ties r))"
proof -
  show 1: "\<not> completes x i (fst (need_admit p c n cap m now r))" for m r by (simp add: need_admit_def case_prod_beta)
  show 2: "\<not> completes x i (fst (match_done p fl c n cap rd now ties r))" for cap rd by (auto simp: match_done_def case_prod_beta split: sum.splits)
  show "\<not> completes x i (read_batch c n cap cs rd r)" by (simp add: read_batch_def Let_def)
  then show "\<not> completes x i (fst (need_looked p fl c n d now ties r))"
    using 2 by (auto simp: need_looked_def read_batch_def Let_def split: sum.splits option.splits)
  show "\<not> completes x i (fst (need_begin n r))" by (simp add: need_begin_def)
  show "\<not> completes x i (fst (need_matched p c n cap os now r))" using 1 by (auto simp: need_matched_def case_prod_beta split: list.splits sum.splits)
  show "\<not> completes x i (fst (need_swept p c n cap m now r))" using 1 by (auto simp: need_swept_def case_prod_beta split: sum.splits bool.splits)
  show "\<not> completes x i (fst (need_admitted c n cap pr res now sock r))" by (auto simp: need_admitted_def Let_def split: sum.splits option.splits)
qed

lemma completes_offers [simp]:
  "\<not> completes x j (fst (offer_looked p au c env cap d r))" "\<not> completes x j (fst (offer_reserving env cap pol res now r))" "\<not> completes x j (fst (revoke_offer_begin n i r))"
  "\<not> completes x j (fst (offer_revoking n i res now r))"
  by (auto simp: offer_looked_def offer_reserving_def revoke_offer_begin_def offer_revoking_def case_prod_beta Let_def split: sum.splits option.splits)

lemma completes_frame: "(\<And>a. \<not> completes x i (fst (k a))) \<Longrightarrow> \<not> completes x i (fst (process_frame vf ty n frame payload now r k))"
  by (auto simp: process_frame_def split: option.splits sum.splits)

lemma completes_envelope: "(\<And>n r1. \<not> completes x i (fst (k n r1))) \<Longrightarrow> \<not> completes x i (fst (with_envelope ve ts token env now r k))"
  by (auto simp: with_envelope_def case_prod_beta split: sum.splits)

lemma completes_token: "(\<And>n r1. \<not> completes x i (fst (k n r1))) \<Longrightarrow> \<not> completes x i (fst (with_token token now r k))"
  by (auto simp: with_token_def split: prod.splits option.splits)

lemma ledger_quiet [simp]: "re_ledger (snd (authenticatedNodeId token now r)) = re_ledger r" "re_ledger (noteProviderCooldown c n y now r) = re_ledger r"
  by (auto simp: authenticatedNodeId_def noteProviderCooldown_def Let_def split: option.splits jsval.splits)

lemma completes_rest [simp]:
  "\<not> completes x i (fst (poll_fast token n w now r))" "\<not> completes x i (fst (poll_legacy token n w now r))" "\<not> completes x i (fst (socket_open token n sid k now r))"
  "\<not> completes x i (fst (register ve p c env token' now r))"
  by (simp_all add: poll_fast_def poll_legacy_def socket_open_def register_def register_agrees_def Let_def case_prod_beta split: sum.split option.split negotiation.split)

lemma from_call_complete: "re_ledger r1 = re_ledger r \<Longrightarrow> from_call p r (complete_call p a n ev fast now r1)"
  unfolding from_call_def by blast

lemma arrive_from_call: "from_call (ev_platform e) r (arrive e x now r)"
proof (cases x)
  case (FastNeed token frame payload w)
  show ?thesis by (rule from_call_plain) (auto simp: FastNeed fast_need_def case_prod_beta split: sum.splits option.splits)
next
  case (LegacyNeed token env)
  show ?thesis unfolding LegacyNeed arrive.simps legacy_need_def by (intro from_call_plain completes_envelope) simp
next
  case (FastPartial token frame payload)
  show ?thesis unfolding FastPartial arrive.simps processFastPartial_def by (intro from_call_plain completes_token completes_frame completes_expire) simp
next
  case (FastResult token frame payload)
  show ?thesis unfolding FastResult arrive.simps processFastResult_def by (intro from_call_plain completes_token completes_frame completes_expire) simp
next
  case (SocketResult n frame payload)
  show ?thesis unfolding SocketResult arrive.simps processFastResult_def by (rule from_call_plain) (simp add: completes_frame completes_expire)
next
  case (LegacyResult token env)
  obtain who r1 where a: "authenticatedNodeId token now r = (who, r1)" by force
  have "re_ledger r1 = re_ledger r" using ledger_quiet(1)[of token now r] by (simp add: a)
  then show ?thesis unfolding LegacyResult arrive.simps legacy_result_def from_call_def
    by (auto simp: with_envelope_def authenticateEnvelope_def a Let_def split: sum.splits option.splits)
next
  case (RevokeMessage token env)
  have t: "\<not> completes y i t" if "revoke_target z j r1 = Inl t" for y i z j r1 t using that by (auto simp: revoke_target_def Let_def split: if_splits)
  have "\<not> completes y i (fst (revoke_need_begin p c n j env now r1))" for y i p c n j r1
    by (auto simp: revoke_need_begin_def case_prod_beta completes_expire split: option.splits sum.splits)
  with t show ?thesis unfolding RevokeMessage arrive.simps revoke_begin_def
    by (intro from_call_plain completes_envelope) (auto simp: Let_def split: sum.splits)
next
  case (StatusQuery token i)
  show ?thesis unfolding StatusQuery arrive.simps status_begin_def by (intro from_call_plain completes_token) (auto split: option.splits)
next
  case (OfferMessage token env)
  show ?thesis unfolding OfferMessage arrive.simps offer_begin_def by (intro from_call_plain completes_envelope) (auto simp: Let_def split: option.splits)
qed (simp_all add: from_call_plain completes_expire)

lemma resume_from_call:
  assumes "address_ok k t" "resume e t now sock ties r = Some y"
  shows "from_call (ev_platform e) r y"
proof -
  have plain: "\<not> completes x i t'" if "\<not> is_completing t'" for x i t' using that by (cases t') auto
  have "resume e t now sock ties r \<noteq> None \<Longrightarrow> from_call (ev_platform e) r (the (resume e t now sock ties r))"
  proof (cases t)
    case (ResultChecked a n frame payload)
    then show ?thesis using from_call_complete[OF ledger_quiet(2)] by (simp add: result_checked_def from_call_plain split: option.split)
  qed (use assms(1) in \<open>auto intro!: from_call_plain simp: plain expiry_done_def completing_def result_done_def partial_checked_def partial_accepted_def cancel_checked_def cancelling_def
      status_looked_def case_prod_beta Let_def completes_expire split: sum.splits option.splits need_status.splits\<close>)
  with assms(2) show ?thesis by simp
qed

lemma completes_stable:
  assumes "evolves p r r'" "address_ok (length (re_heap r)) t"
  shows "completes r' i t = completes r i t"
  using evolves_heap[OF assms(1)] assms(2) by (cases "(r, i, t)" rule: completes.cases) auto

lemma completions_stable:
  assumes "evolves p r r'" "\<forall>t \<in> set ts. address_ok (length (re_heap r)) t"
  shows "filter (completes r' i) ts = filter (completes r i) ts"
  using completes_stable[OF assms(1)] assms(2) by (auto intro!: filter_cong)

lemma once_exec:
  assumes once: "once_ok acc s"
  shows "once_ok (acc @ taken_results x s) (relay_exec e x s)"
proof -
  let ?r = "sy_relay s" and ?s = "relay_exec e x s"
  have ok: "system_ok s" and cnt: "\<And>i. count_list acc i + length (filter (completes ?r i) (sy_tasks s)) \<le> ledger_completed i ?r"
    using once by (auto simp: once_ok_def)
  from once obtain l where l: "re_ledger ?r = Some l" by (auto simp: once_ok_def)
  have addr: "\<forall>t \<in> set (sy_tasks s). address_ok (length (re_heap ?r)) t" using ok by (simp add: system_ok_def)
  note ev = exec_evolves[OF ok, of e x]
  obtain l' where l': "re_ledger (sy_relay ?s) = Some l'" "ledger_grows l l'" using evolves_ledger_grows[OF ev l] by blast
  have grow: "ledger_completed i ?r \<le> ledger_completed i (sy_relay ?s)" for i by (rule ledger_completed_grows[OF l l'])
  have old: "length (filter (completes (sy_relay ?s) i) (sy_tasks s)) = length (filter (completes ?r i) (sy_tasks s))" for i
    by (simp add: completions_stable[OF ev addr])
  have "count_list (acc @ taken_results x s) i + length (filter (completes (sy_relay ?s) i) (sy_tasks ?s)) \<le> ledger_completed i (sy_relay ?s)" for i
  proof (cases x)
    case (Arrive a now)
    let ?y = "arrive e a now ?r"
    have s': "sy_relay ?s = snd ?y" "sy_tasks ?s = sy_tasks s @ [fst ?y]" by (simp_all add: Arrive case_prod_beta)
    have acc: "taken_results x s = []" by (simp add: taken_results_def Arrive)
    show ?thesis
    proof (cases "completes (snd ?y) i (fst ?y)")
      case True
      from from_call_once[OF arrive_from_call l True] cnt[of i] old[of i] True show ?thesis unfolding acc s' by simp
    next
      case False
      then show ?thesis using cnt[of i] old[of i] grow[of i] unfolding acc s' by simp
    qed
  next
    case (Resume j now sock ties)
    show ?thesis
    proof (cases "j < length (sy_tasks s) \<and> resume e (sy_tasks s ! j) now sock ties ?r \<noteq> None")
      case False
      then have "?s = s" by (auto simp: Resume split: option.splits)
      moreover have "taken_results x s = []" using False by (auto simp: taken_results_def Resume split: task.splits sum.splits) (metis surj_pair)
      ultimately show ?thesis using cnt[of i] by simp
    next
      case True
      then obtain t' r' where y: "resume e (sy_tasks s ! j) now sock ties ?r = Some (t', r')" and j: "j < length (sy_tasks s)" by auto
      have s': "sy_relay ?s = r'" "sy_tasks ?s = (sy_tasks s)[j := t']" using j y by (simp_all add: Resume)
      have a: "address_ok (length (re_heap ?r)) (sy_tasks s ! j)" using addr j by simp
      have upd: "length (filter (completes r' i) (sy_tasks ?s)) + (if completes ?r i (sy_tasks s ! j) then 1 else 0) =
          length (filter (completes ?r i) (sy_tasks s)) + (if completes r' i t' then 1 else 0)"
        using length_filter_update[OF j, of "completes r' i" t'] old[of i] completes_stable[OF ev a] by (simp add: s')
      have acc: "count_list (taken_results x s) i = (if completes ?r i (sy_tasks s ! j) then 1 else 0)"
        using j by (auto simp: taken_results_def Resume split: task.splits sum.splits)
      show ?thesis
      proof (cases "completes r' i t'")
        case True
        with from_call_once[OF resume_from_call[OF a y] l] have "ledger_completed i ?r = 0" "ledger_completed i r' = 1" by simp_all
        with cnt[of i] upd acc show ?thesis by (simp add: s'(1) split: if_splits)
      next
        case False
        with cnt[of i] upd acc grow[of i] show ?thesis by (simp add: s'(1) split: if_splits)
      qed
    qed
  qed
  then show ?thesis using system_ok_exec[OF ok, of e x] l' by (simp add: once_ok_def)
qed

lemma once_other:
  assumes "once_ok acc s" "re_ledger (sy_relay s) = Some d" "ledger_step p d d'"
  shows "once_ok acc (s\<lparr>sy_relay := (sy_relay s)\<lparr>re_ledger := Some d'\<rparr>\<rparr>)"
proof -
  let ?r = "(sy_relay s)\<lparr>re_ledger := Some d'\<rparr>"
  have "core ?r = core (sy_relay s)" by (simp add: core_def)
  then have ok: "system_ok (s\<lparr>sy_relay := ?r\<rparr>)" using assms(1) requests_ok_quiet by (auto simp: once_ok_def system_ok_def)
  have "completes ?r i t = completes (sy_relay s) i t" for i t by (cases "(?r, i, t)" rule: completes.cases) auto
  then have "completes ?r i = completes (sy_relay s) i" for i by blast
  moreover have "ledger_completed i (sy_relay s) \<le> ledger_completed i ?r" for i
    using ledger_completed_grows[OF assms(2) _ ledger_step_grows[OF assms(3)], of ?r] by simp
  ultimately show ?thesis using assms(1) ok by (auto simp: once_ok_def intro: order_trans)
qed


section \<open>Runs as lists of events\<close>

fun relay_events :: "relay_env \<Rightarrow> relay_event list \<Rightarrow> string list \<times> relay_system \<Rightarrow> string list \<times> relay_system" where
  "relay_events e [] y = y"
| "relay_events e (x # xs) (acc, s) = relay_events e xs (acc @ taken_results x s, relay_exec e x s)"

lemma relay_events_run: "relay_run e l (fst y) (snd y) \<Longrightarrow> relay_run e l (fst (relay_events e xs y)) (snd (relay_events e xs y))"
  by (induction e xs y rule: relay_events.induct) (auto intro: run_more)

lemma relay_events_append: "relay_events e (xs @ ys) y = relay_events e ys (relay_events e xs y)"
  by (induction e xs y rule: relay_events.induct) auto

lemma relay_run_reach: "relay_run e l acc s \<Longrightarrow> (relay_step e)\<^sup>*\<^sup>* (system_new l) s"
proof (induction rule: relay_run.induct)
  case (run_more acc s x)
  from run_more(2) show ?case by (rule rtranclp.rtrancl_into_rtrancl) (rule run_event)
next
  case (run_other acc s d d')
  from run_other(4) show ?case by (rule rtranclp.rtrancl_into_rtrancl) (rule other_process[OF run_other(2,3)])
qed simp

text \<open>
  A platform on which messages are cheap to verify, a requester \<open>A\<close>, a provider \<open>B\<close>, and the messages of one
  NEED. Nothing about cryptography is concluded from it.
\<close>

definition relay_platform :: platform where
  "relay_platform = sample_platform\<lparr>sha256 := (\<lambda>s. s), ed_verify := (\<lambda>k t s. Inr True), date_parse := (\<lambda>t. Some 0), date_iso := (\<lambda>t. ''2026-01-01T00:00:00.000Z'')\<rparr>"

definition relay_sample :: "relay_conf \<Rightarrow> relay_env" where
  "relay_sample c = relay_on relay_platform (\<lambda>v. Inr (replicate 64 0)) (\<lambda>x. x) \<lparr>rc_tenant = None, rc_grant = None\<rparr> c"

definition relay_message :: "string \<Rightarrow> string \<Rightarrow> string \<Rightarrow> entries \<Rightarrow> jsval" where
  "relay_message type key i payload = JObj [(''protocol'', JStr PROTOCOL), (''type'', JStr type), (''id'', JStr i), (''from'', JStr (''truyn:node:'' @ key)),
     (''createdAt'', JStr ''2026-01-01T00:00:00.000Z''), (''payload'', JObj payload), (''publicKey'', JStr key), (''signature'', JStr sample_signature)]"

definition relay_frame :: "string \<Rightarrow> string \<Rightarrow> jsval" where
  "relay_frame code i = JObj [(''t'', JStr code), (''i'', JStr i), (''s'', JStr ''s'')]"

definition chat :: entries where
  "chat = [(''capability'', JStr ''chat'')]"

definition go :: "nat \<Rightarrow> relay_event" where
  "go i = Resume i 1 Ready []"

text \<open>Both nodes register, the provider offers, and a fast NEED is matched.\<close>

definition relay_setup :: "relay_event list" where
  "relay_setup = [Arrive (Registration (relay_message ''IDENTITY'' ''A'' ''a'' []) ''ta'') 1, Arrive (Registration (relay_message ''IDENTITY'' ''B'' ''b'' []) ''tb'') 1,
     Arrive (OfferMessage (Some ''tb'') (relay_message ''OFFER'' ''B'' ''o'' chat)) 1, go 2, go 2]"

definition fast_need_events :: "nat \<Rightarrow> string \<Rightarrow> relay_event list" where
  "fast_need_events j i = Arrive (FastNeed (Some ''ta'') (relay_frame ''N'' i) (JObj chat) False) 1 # replicate 5 (go j)"

definition result_arrival :: "string \<Rightarrow> relay_event" where
  "result_arrival i = Arrive (FastResult (Some ''tb'') (relay_frame ''R'' i) (JObj [(''output'', JStr ''y'')])) 1"

lemma relay_platform_sel [simp]:
  "sha256 relay_platform s = s" "ed_verify relay_platform k t sig = Inr True"
  "spki relay_platform (JStr s) = Inr (''ed25519'', s)"
  by (simp_all add: relay_platform_def)

lemma relay_signature: "signature_text sample_signature"
  by code_simp

lemma relay_timestamp: "isRfc3339Timestamp relay_platform (JStr ''2026-01-01T00:00:00.000Z'')"
  by code_simp

lemma relay_message_verifies:
  assumes "nonblank (JStr key)" "nonblank (JStr i)" "assertCanonicalJsonValue (JObj payload) = Inr ()"
  shows "verifyEnvelope relay_platform [type] (relay_message type key i payload) = Inr ()"
proof -
  have "assertCanonicalJsonValue (unsignedEnvelope (relay_message type key i payload)) = Inr ()"
    using assms(3) by (simp add: relay_message_def unsignedEnvelope_def)
  then obtain t where "canonicalize relay_platform (unsignedEnvelope (relay_message type key i payload)) = Inr t"
    using canonicalize_total by blast
  then have v: "verifyValue relay_platform (unsignedEnvelope (relay_message type key i payload)) sig k = Inr True" for sig k
    by (simp add: verifyValue_def platform_call_def)
  let ?m = "relay_message type key i payload"
  have "get ?m ''protocol'' = JStr PROTOCOL" "get ?m ''type'' = JStr type" "get ?m ''id'' = JStr i" "get ?m ''from'' = JStr (''truyn:node:'' @ key)"
    "get ?m ''createdAt'' = JStr ''2026-01-01T00:00:00.000Z''" "get ?m ''publicKey'' = JStr key" "get ?m ''payload'' = JObj payload"
    "get ?m ''signature'' = JStr sample_signature" "get ?m ''to'' = JUndef" "truthy ?m"
    by (simp_all add: relay_message_def)
  moreover have "nonblank (JStr (''truyn:node:'' @ key))" "nonblank (JStr ''2026-01-01T00:00:00.000Z'')"
    by (simp_all add: nonblank_def trim_def js_white_def)
  moreover have "nodeIdFromPublicKey relay_platform (JStr key) = Inr (''truyn:node:'' @ key)"
    by (simp add: nodeIdFromPublicKey_def fingerprint_of_def platform_call_def)
  moreover note v assms(1,2) relay_signature relay_timestamp signature_text_nonblank[OF relay_signature]
  ultimately show ?thesis by (simp add: verifyEnvelope_def del: append.simps)
qed

lemma relay_frame_verifies:
  assumes "table_get COMPACT_CODE_TYPES code = Own type" "code \<noteq> []" "i \<noteq> []" "truthy payload" "assertCanonicalJsonValue payload = Inr ()" "table_get COMPACT_TYPE_CODES type = Own code"
  shows "verifyCompactFrame relay_platform (\<lambda>v. Inr (replicate 64 0)) [type] (relay_frame code i) payload key = Inr (if truthy key then Inr type else Inl ''missing_required_field'')"
proof -
  have "assertCanonicalJsonValue (JArr [JStr code, JStr i, payload]) = Inr ()" using assms(5) by simp
  then obtain t where "canonicalize relay_platform (JArr [JStr code, JStr i, payload]) = Inr t"
    using canonicalize_total by blast
  then show ?thesis using assms
    by (simp add: verifyCompactFrame_def relay_frame_def compactType_def oget_def compactSigningValue_def verifyValue_def platform_call_def)
qed

text \<open>To evaluate a run: the same relay with the verdicts on these messages put in place of the verifiers.\<close>

definition relay_light :: "relay_conf \<Rightarrow> relay_env" where
  "relay_light c = (relay_sample c)\<lparr>ev_verifyEnvelope := \<lambda>_ _. Inr (),
     ev_verifyCompactFrame := \<lambda>ts f y k. Inr (if truthy k then Inr (hd ts) else Inl ''missing_required_field'')\<rparr>"

definition light :: "relay_event \<Rightarrow> bool" where
  "light x \<longleftrightarrow> (\<forall>c s. relay_exec (relay_sample c) x s = relay_exec (relay_light c) x s)"

lemma relay_light_sel [simp]:
  "ev_platform (relay_light c) = ev_platform (relay_sample c)" "ev_round (relay_light c) = ev_round (relay_sample c)"
  "ev_authorities (relay_light c) = ev_authorities (relay_sample c)" "ev_conf (relay_light c) = ev_conf (relay_sample c)"
  "ev_verifyEnvelope (relay_light c) = (\<lambda>_ _. Inr ())"
  "ev_verifyCompactFrame (relay_light c) = (\<lambda>ts f y k. Inr (if truthy k then Inr (hd ts) else Inl ''missing_required_field''))"
  "ev_verifyEnvelope (relay_sample c) = verifyEnvelope relay_platform"
  "ev_verifyCompactFrame (relay_sample c) = verifyCompactFrame relay_platform (\<lambda>v. Inr (replicate 64 0))"
  by (simp_all add: relay_light_def relay_sample_def relay_on_def)

lemma light_go: "light (go j)"
proof -
  have "resume (relay_light c) t now sock ties r = resume (relay_sample c) t now sock ties r" for c t now sock ties r
    by (cases t) simp_all
  then show ?thesis by (simp add: light_def go_def)
qed

lemma light_registration:
  "nonblank (JStr key) \<Longrightarrow> nonblank (JStr i) \<Longrightarrow> assertCanonicalJsonValue (JObj payload) = Inr () \<Longrightarrow>
   light (Arrive (Registration (relay_message ''IDENTITY'' key i payload) token) now)"
  by (simp add: light_def register_def relay_message_verifies)

lemma light_envelope:
  assumes "nonblank (JStr key)" "nonblank (JStr i)" "assertCanonicalJsonValue (JObj payload) = Inr ()"
  shows "light (Arrive (OfferMessage token (relay_message ''OFFER'' key i payload)) now)"
    "light (Arrive (LegacyNeed token (relay_message ''NEED'' key i payload)) now)"
  by (simp_all add: light_def offer_begin_def legacy_need_def with_envelope_def relay_message_verifies[OF assms])

lemma light_frame:
  assumes "i \<noteq> []" "truthy payload" "assertCanonicalJsonValue payload = Inr ()"
  shows "light (Arrive (FastNeed token (relay_frame ''N'' i) payload wait) now)"
    "light (Arrive (FastResult token (relay_frame ''R'' i) payload) now)"
proof -
  have v: "verifyCompactFrame relay_platform (\<lambda>v. Inr (replicate 64 0)) [''NEED''] (relay_frame ''N'' i) payload =
      (\<lambda>k. Inr (if truthy k then Inr (hd [''NEED'']) else Inl ''missing_required_field''))"
    "verifyCompactFrame relay_platform (\<lambda>v. Inr (replicate 64 0)) [''RESULT''] (relay_frame ''R'' i) payload =
      (\<lambda>k. Inr (if truthy k then Inr (hd [''RESULT'']) else Inl ''missing_required_field''))"
    by (rule ext, simp add: relay_frame_verifies assms table_get_def COMPACT_CODE_TYPES_def COMPACT_TYPE_CODES_def)+
  show "light (Arrive (FastNeed token (relay_frame ''N'' i) payload wait) now)"
    "light (Arrive (FastResult token (relay_frame ''R'' i) payload) now)"
    unfolding light_def relay_exec.simps arrive.simps relay_light_sel fast_need_def processFastResult_def process_frame_def v by simp_all
qed

lemma light_events: "list_all light xs \<Longrightarrow> relay_events (relay_sample c) xs y = relay_events (relay_light c) xs y"
  by (induction "relay_sample c" xs y rule: relay_events.induct) (simp_all add: light_def)

lemma nonblank_name: "nonblank (JStr [CHR ''A''])" "nonblank (JStr ''B'')" "nonblank (JStr ''a'')" "nonblank (JStr ''b'')" "nonblank (JStr ''o'')" "nonblank (JStr ''l'')"
  by (simp_all add: nonblank_def trim_def js_white_def)

lemma light_setup: "list_all light relay_setup"
  by (simp add: relay_setup_def light_registration light_envelope light_go nonblank_name chat_def)

lemma light_need: "i \<noteq> [] \<Longrightarrow> list_all light (fast_need_events j i)"
  by (simp add: fast_need_events_def light_frame light_go chat_def numeral_eq_Suc)

lemma light_result: "i \<noteq> [] \<Longrightarrow> light (result_arrival i)"
  by (simp add: result_arrival_def light_frame)


definition outcome :: "task \<Rightarrow> (int \<times> string) option" where
  "outcome t = (case t of Finished status reason \<Rightarrow> Some (status, reason) | _ \<Rightarrow> None)"

text \<open>A relay without a ledger, to which the provider sends one result twice before the first is taken.\<close>

definition double_run :: "relay_event list" where
  "double_run = relay_setup @ fast_need_events 3 ''n'' @ [result_arrival ''n'', result_arrival ''n'', go 4, go 5, go 4, go 5, go 4, go 5]"

definition legacy_need_events :: "nat \<Rightarrow> string \<Rightarrow> relay_event list" where
  "legacy_need_events j i = Arrive (LegacyNeed (Some ''ta'') (relay_message ''NEED'' ''A'' i chat)) 1 # replicate 5 (go j)"

text \<open>A requester with room for one terminal event has a legacy NEED and a fast one.\<close>

definition narrow_conf :: relay_conf where
  "narrow_conf = sample_conf\<lparr>cf_maxFastTerminalReservationsPerRequester := 1\<rparr>"

definition overflow_run :: "relay_event list" where
  "overflow_run = relay_setup @ legacy_need_events 3 ''l'' @ fast_need_events 4 ''n'' @ [result_arrival ''l'', go 5, go 5, go 5, result_arrival ''n'', go 6, go 6, go 6]"

lemma light_legacy_need: "nonblank (JStr i) \<Longrightarrow> list_all light (legacy_need_events j i)"
  by (simp add: legacy_need_events_def light_envelope light_go chat_def numeral_eq_Suc nonblank_name)

lemma light_runs: "list_all light double_run" "list_all light overflow_run"
  by (simp_all add: double_run_def overflow_run_def light_setup light_need light_result light_go light_legacy_need nonblank_name)

lemma sample_runs:
  "relay_run (relay_sample c) l (fst (relay_events (relay_sample c) xs ([], system_new l))) (snd (relay_events (relay_sample c) xs ([], system_new l)))"
  by (rule relay_events_run) (simp add: run_nil)

lemma double_run_light:
  "case relay_events (relay_light sample_conf) double_run ([], system_new None) of (acc, s) \<Rightarrow> acc = [''n'', ''n''] \<and>
     map rq_needId (re_heap (sy_relay s)) = [''n''] \<and> nat_at (re_stats (sy_relay s)) ''truyn:node:B'' = 2 \<and>
     map (\<lambda>ev. get (get ev ''frame'') ''i'') (list_at (re_fastTerminalEvents (sy_relay s)) ''truyn:node:A'') = [JStr ''n'', JStr ''n'']"
  by code_simp

lemma overflow_run_light:
  "case relay_events (relay_light narrow_conf) overflow_run ([], system_new None) of (acc, s) \<Rightarrow>
     map (\<lambda>q. (rq_needId q, rq_mode q, rq_status q)) (re_heap (sy_relay s)) = [(''l'', Legacy, NCompleted), (''n'', Fast, NCompleted)] \<and>
     map (\<lambda>ev. get (get ev ''frame'') ''i'') (list_at (re_fastTerminalEvents (sy_relay s)) ''truyn:node:A'') = [JStr ''l''] \<and> re_delivered (sy_relay s) = [] \<and>
     outcome (last (sy_tasks s)) = Some (503, ''terminal_capacity_invariant'')"
  by code_simp

lemma narrow_conf_created: "createRelay narrow_conf = Inr ()"
  by (simp add: narrow_conf_def createRelay_def sample_conf_def Let_def)

text \<open>
  C29. Without a ledger one NEED can have its result accepted twice. \<^verbatim>\<open>completeRequest\<close> awaits the ledger's
  transition between the check that the request is open and the mark that it is completed, also when
  there is no ledger. Two results of one provider that arrive together both pass the check: the
  provider is credited with two successful tasks and the requester is sent two RESULT events for one NEED.
\<close>

theorem relay_double_result:
  "\<exists>s. relay_run (relay_sample sample_conf) None [''n'', ''n''] s \<and> map rq_needId (re_heap (sy_relay s)) = [''n''] \<and>
     nat_at (re_stats (sy_relay s)) ''truyn:node:B'' = 2 \<and>
     map (\<lambda>ev. get (get ev ''frame'') ''i'') (list_at (re_fastTerminalEvents (sy_relay s)) ''truyn:node:A'') = [JStr ''n'', JStr ''n'']"
  using double_run_light sample_runs[of sample_conf None double_run] unfolding light_events[OF light_runs(1)]
  by (auto split: prod.splits)

text \<open>
  C30. The room promised to a terminal event can be taken. A RESULT frame is accepted for a NEED that came
  as an envelope, for which no room was reserved; with the bound of one terminal event it fills
  the requester's queue. The RESULT of the fast NEED that held the reservation is then refused with 503
  \<^verbatim>\<open>terminal_capacity_invariant\<close> after its request was marked completed: the requester never gets it.
\<close>

theorem relay_terminal_overflow:
  "\<exists>s. createRelay narrow_conf = Inr () \<and> (relay_step (relay_sample narrow_conf))\<^sup>*\<^sup>* (system_new None) s \<and>
     map (\<lambda>q. (rq_needId q, rq_mode q, rq_status q)) (re_heap (sy_relay s)) = [(''l'', Legacy, NCompleted), (''n'', Fast, NCompleted)] \<and>
     map (\<lambda>ev. get (get ev ''frame'') ''i'') (list_at (re_fastTerminalEvents (sy_relay s)) ''truyn:node:A'') = [JStr ''l''] \<and> re_delivered (sy_relay s) = [] \<and>
     outcome (last (sy_tasks s)) = Some (503, ''terminal_capacity_invariant'')"
  using overflow_run_light relay_run_reach[OF sample_runs[of narrow_conf None overflow_run]] narrow_conf_created unfolding light_events[OF light_runs(2)]
  by (auto split: prod.splits)


theorem relay_references_valid_witness:
  "let s = snd (relay_events (relay_sample sample_conf) double_run ([], system_new None)) in
   list_all (address_ok (length (re_heap (sy_relay s)))) (sy_tasks s)"
  using relay_references_valid[OF relay_run_reach[OF sample_runs[of sample_conf None double_run]]] by (simp add: Let_def list_all_iff)

theorem relay_in_flight_exact_witness:
  "let r = sy_relay (snd (relay_events (relay_sample sample_conf) double_run ([], system_new None))) in
   nat_at (ro_inFlightByProvider r) ''truyn:node:B'' =
     length (filter (\<lambda>(i, a). rq_status (re_heap r ! a) = Matched \<and> rq_provider (re_heap r ! a) = ''truyn:node:B'') (re_requests r))"
  unfolding Let_def by (rule relay_in_flight_exact[OF relay_run_reach[OF sample_runs]])

end
