(* ===== verification/Cosmos_Ledger.thy ===== *)
theory Cosmos_Ledger
  imports Lifecycle_Ledger Protocol Provider_Security
begin

text \<open>
  The ledger that many hosts share, \<^verbatim>\<open>network/relay/cosmos-lifecycle-ledger.js\<close>, and the receipts of paid
  calls kept in it, \<^verbatim>\<open>runtime/g5-durable-response-receipt.js\<close>. A NEED, an OFFER and an effect are one
  document each in a remote container; every change is a conditional write against the version that
  was read. An operation is a program that sends requests and goes on with each answer, so that the
  operations of any number of hosts interleave at every request. The container itself is not modelled:
  what is needed of it is a law, in \<open>Cosmos_Runs\<close>.
\<close>

section \<open>Documents\<close>

text \<open>
  The constant members of a document (\<^verbatim>\<open>schemaVersion\<close>, \<^verbatim>\<open>ttl\<close>, the format version) and the times that no code
  reads again (of a creation, a claim, a compaction) are left out; its \<^verbatim>\<open>kind\<close> is the constructor of its body. The rows are those of the SQLite ledger with the members that are only here.
\<close>

record cosmos_delivery =
  cd_eventId :: string
  cd_recipient :: string
  cd_kind :: string
  cd_event :: jsval
  cd_acknowledgedAt :: "string option"
  cd_compacted :: "(string \<times> string) option"

record need_doc = need_row +
  cn_scope :: string
  cn_policyDigest :: string
  cn_paidAuthorization :: jsval
  cn_deliveries :: "cosmos_delivery list"
  cn_recoveredUsage :: "jsval option"

record offer_doc = offer_row +
  co_directory :: bool
  co_offerJson :: "jsval option"
  co_capability :: string

record effect_doc = effect_row +
  ce_observedTokens :: "jsval option"
  ce_execution :: "(string \<times> string option) option"
  ce_receipt :: "jsval option"
  ce_receiptCapturedAt :: "string option"

record owner_doc =
  cw_owner :: string
  cw_slots :: "(string \<times> string) list"

record capacity_doc =
  cp_recordCapacity :: nat
  cp_scopeDigest :: string
  cp_tickets :: "string list"
  cp_reserved :: nat

datatype cosmos_body = Need_doc need_doc | Offer_doc offer_doc | Effect_doc effect_doc | Owner_doc owner_doc | Capacity_doc capacity_doc

record cosmos_doc =
  dc_key :: string
  dc_logicalId :: string
  dc_version :: int
  dc_body :: cosmos_body

fun doc_kind :: "cosmos_body \<Rightarrow> string" where
  "doc_kind (Need_doc d) = ''need''"
| "doc_kind (Offer_doc d) = ''offer''"
| "doc_kind (Effect_doc d) = ''effect''"
| "doc_kind (Owner_doc d) = ''offer-owner''"
| "doc_kind (Capacity_doc d) = ''capacity''"

section \<open>Configuration\<close>

record cosmos_conf =
  cc_platform :: platform
  cc_base :: string
  cc_bytes :: "cosmos_doc \<Rightarrow> nat"
  cc_maxDocumentBytes :: nat
  cc_maxDeliveriesPerNeed :: nat
  cc_maxCasAttempts :: nat
  cc_recordCapacity :: "nat option"

definition validRecordCapacity :: "jsval \<Rightarrow> bool" where
  "validRecordCapacity v = (is_safe_integer v \<and> num_of v \<ge> 1 \<and> num_of v \<le> 4096)"

definition lifecycleRecordCapacityFromEnv :: "string option \<Rightarrow> nat option result" where
  "lifecycleRecordCapacityFromEnv raw = (case raw of None \<Rightarrow> Inr None
     | Some s \<Rightarrow> if s = [] \<or> hd s = CHR ''0'' \<or> \<not> list_all is_digit s \<or> length s > 4 \<or> \<not> validRecordCapacity (JNum (of_nat (text_nat s)))
         then Inl (Err ''invalid TRUYN_G5_LIFECYCLE_RECORD_CAPACITY'') else Inr (Some (text_nat s)))"

text \<open>\<^verbatim>\<open>/^https:\/\/[a-z0-9.-]+\.documents\.azure\.com(?::443)?\/?$/i\<close>\<close>

definition drop_suffix :: "string \<Rightarrow> string \<Rightarrow> string" where
  "drop_suffix x s = (if length x \<le> length s \<and> drop (length s - length x) s = x then take (length s - length x) s else s)"

definition azure_endpoint :: "string \<Rightarrow> bool" where
  "azure_endpoint endpoint = (let s = drop_suffix '':443'' (drop_suffix ''/'' (to_lower endpoint)); account = drop_suffix ''.documents.azure.com'' (drop 8 s) in
     take 8 s = ''https://'' \<and> account \<noteq> drop 8 s \<and> account \<noteq> [] \<and>
     list_all (\<lambda>c. is_digit c \<or> (CHR ''a'' \<le> c \<and> c \<le> CHR ''z'') \<or> c = CHR ''.'' \<or> c = CHR ''-'') account)"

definition cosmos_name :: "string \<Rightarrow> bool" where
  "cosmos_name s = (s \<noteq> [] \<and> length s \<le> 100 \<and>
     list_all (\<lambda>c. is_digit c \<or> (CHR ''a'' \<le> c \<and> c \<le> CHR ''z'') \<or> (CHR ''A'' \<le> c \<and> c \<le> CHR ''Z'') \<or> c \<in> {CHR ''.'', CHR ''_'', CHR ''-''}) s)"

definition cosmos_base :: "string \<Rightarrow> string \<Rightarrow> string \<Rightarrow> string" where
  "cosmos_base endpoint database container = drop_suffix ''/'' endpoint @ ''/dbs/'' @ database @ ''/colls/'' @ container @ ''/docs''"

text \<open>The numbers are what the caller gave; \<open>JUndef\<close> has been replaced by the default.\<close>

definition createCosmosLifecycleLedger ::
  "platform \<Rightarrow> (cosmos_doc \<Rightarrow> nat) \<Rightarrow> string \<Rightarrow> string \<Rightarrow> string \<Rightarrow> jsval \<Rightarrow> jsval \<Rightarrow> jsval \<Rightarrow> jsval \<Rightarrow> jsval \<Rightarrow> jsval \<Rightarrow> cosmos_conf result" where
  "createCosmosLifecycleLedger p doc_bytes endpoint database container getAccessToken requestTimeoutMs maxDocumentBytes maxDeliveriesPerNeed maxCasAttempts recordCapacity =
     (if \<not> azure_endpoint endpoint then Inl (Err ''Cosmos account HTTPS endpoint required (no emulator/keys)'')
      else if \<not> cosmos_name database \<or> \<not> cosmos_name container then Inl (Err ''Cosmos database/container identifiers required'')
      else if \<not> is_function getAccessToken then Inl (Err ''Microsoft Entra getAccessToken() required'')
      else if \<not> is_safe_integer requestTimeoutMs \<or> num_of requestTimeoutMs < 1 \<or> num_of requestTimeoutMs > 2147483647 then Inl (Err ''invalid requestTimeoutMs'')
      else if \<not> is_safe_integer maxDocumentBytes \<or> num_of maxDocumentBytes < 2048 \<or> num_of maxDocumentBytes > 1800000 then Inl (Err ''invalid maxDocumentBytes'')
      else if \<not> is_safe_integer maxDeliveriesPerNeed \<or> num_of maxDeliveriesPerNeed < 1 \<or> num_of maxDeliveriesPerNeed > 2048 then Inl (Err ''invalid maxDeliveriesPerNeed'')
      else if \<not> is_safe_integer maxCasAttempts \<or> num_of maxCasAttempts < 1 \<or> num_of maxCasAttempts > 20 then Inl (Err ''invalid maxCasAttempts'')
      else if recordCapacity \<noteq> JNull \<and> \<not> validRecordCapacity recordCapacity then Inl (Err ''invalid recordCapacity'')
      else Inr \<lparr>cc_platform = p, cc_base = cosmos_base endpoint database container, cc_bytes = doc_bytes, cc_maxDocumentBytes = nat (int_of maxDocumentBytes),
        cc_maxDeliveriesPerNeed = nat (int_of maxDeliveriesPerNeed), cc_maxCasAttempts = nat (int_of maxCasAttempts),
        cc_recordCapacity = (if recordCapacity = JNull then None else Some (nat (int_of recordCapacity)))\<rparr>)"

definition nonempty_text :: "string \<Rightarrow> bool" where
  "nonempty_text s = (s \<noteq> [] \<and> length s \<le> 4096)"

definition validNeedId :: "string \<Rightarrow> bool" where
  "validNeedId i = (nonempty_text i \<and> length i \<le> 4070)"

definition partitionId :: "platform \<Rightarrow> string \<Rightarrow> string \<Rightarrow> string" where
  "partitionId p kind i = kind @ ''-'' @ sha256 p i"

definition CAPACITY_ID :: string where
  "CAPACITY_ID = ''g5-container-admission-v1''"

definition capacityKey :: "platform \<Rightarrow> string" where
  "capacityKey p = partitionId p ''capacity'' CAPACITY_ID"

text \<open>The document an operator installs before the limit on records is used.\<close>

definition createLifecycleCapacityDocument :: "platform \<Rightarrow> string \<Rightarrow> string \<Rightarrow> string \<Rightarrow> jsval \<Rightarrow> cosmos_doc result" where
  "createLifecycleCapacityDocument p endpoint database container recordCapacity =
     (if \<not> azure_endpoint endpoint \<or> \<not> cosmos_name database \<or> \<not> cosmos_name container \<or> \<not> validRecordCapacity recordCapacity
      then Inl (Err ''invalid lifecycle capacity configuration'')
      else Inr \<lparr>dc_key = capacityKey p, dc_logicalId = CAPACITY_ID, dc_version = 1, dc_body = Capacity_doc \<lparr>cp_recordCapacity = nat (int_of recordCapacity),
        cp_scopeDigest = sha256 p (cosmos_base endpoint database container), cp_tickets = [], cp_reserved = 0\<rparr>\<rparr>)"

section \<open>Programs that send requests\<close>

text \<open>An answer carries the clock text at its arrival. No answer in time is \<open>NoReply\<close>; what became of the request is then unknown.\<close>

datatype request_msg = Read string | Create_doc cosmos_doc | Replace string cosmos_doc string | Query string string "string option"

datatype content = Document cosmos_doc | Documents "cosmos_doc list" | Unreadable | Other_json

record reply =
  rp_status :: int
  rp_noSession :: bool
  rp_etag :: "string option"
  rp_content :: content
  rp_continuation :: "string option"
  rp_now :: string

datatype answer = NoToken | NoReply | BadSession string | Reply reply

datatype 'a prog = Done 'a | Send request_msg "answer \<Rightarrow> 'a prog"

primrec bind_prog :: "'a prog \<Rightarrow> ('a \<Rightarrow> 'b prog) \<Rightarrow> 'b prog" where
  "bind_prog (Done x) f = f x"
| "bind_prog (Send q k) f = Send q (\<lambda>a. bind_prog (k a) f)"

definition and_then :: "'a result prog \<Rightarrow> ('a \<Rightarrow> 'b result prog) \<Rightarrow> 'b result prog" where
  "and_then m f = bind_prog m (\<lambda>r. case r of Inl e \<Rightarrow> Done (Inl e) | Inr x \<Rightarrow> f x)"

definition on_error :: "'a result prog \<Rightarrow> (jserror \<Rightarrow> 'a result prog) \<Rightarrow> 'a result prog" where
  "on_error m f = bind_prog m (\<lambda>r. case r of Inl e \<Rightarrow> f e | Inr x \<Rightarrow> Done (Inr x))"

abbreviation throw :: "int \<Rightarrow> string \<Rightarrow> 'a result prog" where
  "throw status code \<equiv> Done (Inl (Fault status code))"

fun read_answer :: "answer \<Rightarrow> reply result" where
  "read_answer NoToken = Inl (Fault 503 ''lifecycle_ledger_auth_unavailable'')"
| "read_answer NoReply = Inl unavailable"
| "read_answer (BadSession code) = Inl (Fault 503 code)"
| "read_answer (Reply r) =
     (if rp_status r \<in> {401, 403} then Inl (Fault 503 ''lifecycle_ledger_auth_denied'')
      else if rp_status r \<in> {408, 429, 449, 500, 502, 503, 504} then Inl unavailable
      else if rp_status r \<notin> {200, 201, 204, 404, 409, 412} then Inl (Fault 503 ''lifecycle_ledger_protocol_error'')
      else if rp_status r = 404 \<and> rp_noSession r then Inl (Fault 503 ''lifecycle_session_unavailable'')
      else if rp_status r \<noteq> 404 \<and> rp_status r \<noteq> 204 \<and> rp_content r = Unreadable \<and> rp_status r < 400 then Inl (Fault 503 ''lifecycle_ledger_invalid_response'')
      else Inr r)"

fun request_doc :: "request_msg \<Rightarrow> cosmos_doc option" where
  "request_doc (Create_doc d) = Some d"
| "request_doc (Replace k d e) = Some d"
| "request_doc _ = None"

definition utf8_length :: "string \<Rightarrow> nat" where
  "utf8_length s = sum_list (map (\<lambda>c. if (of_char c :: nat) < 128 then 1 else 2) s)"

text \<open>
  A host remembers one session token per physical partition range, in the order the ranges were first
  seen, and sends them with every request. A token that cannot be kept or sent ends the request; what
  became of it at the container is then not known either.
\<close>

definition compoundQuerySession :: "(string \<times> string) list \<Rightarrow> string option result" where
  "compoundQuerySession tokens = (let token = join '','' (map snd tokens) in
     if utf8_length token > 8192 then Inl (Fault 503 ''lifecycle_session_token_capacity_reached'') else Inr (if token = [] then None else Some token))"

definition session_range :: "string \<Rightarrow> string" where
  "session_range part = (let region = takeWhile (\<lambda>x. x \<noteq> CHR '':'') part in if CHR '':'' \<in> set part \<and> region \<noteq> [] then region else ''opaque-test-range'')"

primrec put_session :: "string \<Rightarrow> string \<Rightarrow> (string \<times> string) list \<Rightarrow> (string \<times> string) list" where
  "put_session region part [] = [(region, part)]"
| "put_session region part (x # xs) = (if fst x = region then (region, part) # xs else x # put_session region part xs)"

primrec remember_parts :: "string list \<Rightarrow> (string \<times> string) list \<Rightarrow> (string \<times> string) list \<times> unit result" where
  "remember_parts [] tokens = (tokens, Inr ())"
| "remember_parts (entry # entries) tokens = (let part = trim entry; region = session_range part in
     if part = [] \<or> length part > 4096 \<or> length region > 64 \<or>
        \<not> list_all (\<lambda>c. is_digit c \<or> (CHR ''a'' \<le> c \<and> c \<le> CHR ''z'') \<or> (CHR ''A'' \<le> c \<and> c \<le> CHR ''Z'') \<or> c = CHR ''_'' \<or> c = CHR ''-'') region
     then (tokens, Inl (Fault 503 ''lifecycle_session_token_invalid'')) else remember_parts entries (put_session region part tokens))"

definition rememberSessionTokens :: "string \<Rightarrow> (string \<times> string) list \<Rightarrow> (string \<times> string) list \<times> unit result" where
  "rememberSessionTokens header tokens = (if header = [] then (tokens, Inr ()) else remember_parts (split_on CHR '','' header) tokens)"

definition cosmos_api :: "cosmos_conf \<Rightarrow> request_msg \<Rightarrow> reply result prog" where
  "cosmos_api c q = (if (case request_doc q of None \<Rightarrow> False | Some d \<Rightarrow> cc_bytes c d > cc_maxDocumentBytes c)
     then throw 503 ''lifecycle_document_capacity_reached'' else Send q (\<lambda>a. Done (read_answer a)))"

text \<open>The reply to a write has the document as it was written, or no body.\<close>

definition written :: "cosmos_doc \<Rightarrow> reply \<Rightarrow> cosmos_doc" where
  "written d r = (case rp_content r of Document d' \<Rightarrow> d' | _ \<Rightarrow> d)"

definition cosmos_get :: "cosmos_conf \<Rightarrow> string \<Rightarrow> string \<Rightarrow> (cosmos_doc \<times> string \<times> string) option result prog" where
  "cosmos_get c kind i =
     (if \<not> (if kind = ''need'' then validNeedId i else nonempty_text i) then throw 400 ''invalid_lifecycle_id''
      else and_then (cosmos_api c (Read (partitionId (cc_platform c) kind i))) (\<lambda>r.
        if rp_status r = 404 then Done (Inr None)
        else (case (rp_content r, rp_etag r) of
            (Document d, Some e) \<Rightarrow> if rp_status r \<noteq> 200 \<or> doc_kind (dc_body d) \<noteq> kind \<or> dc_logicalId d \<noteq> i \<or> e = []
               then throw 503 ''lifecycle_ledger_invalid_response'' else Done (Inr (Some (d, e, rp_now r)))
          | _ \<Rightarrow> throw 503 ''lifecycle_ledger_invalid_response'')))"

text \<open>Room is kept for the time each pending delivery gets when it is acknowledged.\<close>

definition pending_count :: "cosmos_doc \<Rightarrow> nat" where
  "pending_count d = (case dc_body d of Need_doc n \<Rightarrow> length (filter (\<lambda>x. cd_acknowledgedAt x = None) (cn_deliveries n)) | _ \<Rightarrow> 0)"

definition packed :: "cosmos_conf \<Rightarrow> cosmos_doc \<Rightarrow> unit result" where
  "packed c d = (if cc_bytes c d + pending_count d * 24 + 128 > cc_maxDocumentBytes c then Inl (Fault 503 ''lifecycle_document_capacity_reached'') else Inr ())"

text \<open>What is to become of a document; \<open>None\<close> leaves it.\<close>

type_synonym doc_update = "string \<Rightarrow> cosmos_doc \<Rightarrow> cosmos_body option result"

type_synonym 'b update = "string \<Rightarrow> 'b \<Rightarrow> 'b option result"

primrec mutate_loop :: "cosmos_conf \<Rightarrow> string \<Rightarrow> string \<Rightarrow> doc_update \<Rightarrow> nat \<Rightarrow> (bool \<times> cosmos_doc) result prog" where
  "mutate_loop c kind i f 0 = throw 503 ''lifecycle_cas_contention''"
| "mutate_loop c kind i f (Suc n) = and_then (cosmos_get c kind i) (\<lambda>current. case current of
     None \<Rightarrow> throw 404 ''lifecycle_not_found''
   | Some (d, etag, now) \<Rightarrow> (case f now d of
       Inl e \<Rightarrow> Done (Inl e)
     | Inr None \<Rightarrow> Done (Inr (False, d))
     | Inr (Some b) \<Rightarrow> (let new = d\<lparr>dc_version := dc_version d + 1, dc_body := b\<rparr> in
         case packed c new of Inl e \<Rightarrow> Done (Inl e)
         | Inr _ \<Rightarrow> and_then (cosmos_api c (Replace (partitionId (cc_platform c) kind i) new etag)) (\<lambda>r.
             if rp_status r = 412 then mutate_loop c kind i f n
             else if rp_status r \<noteq> 200 then Done (Inl unavailable) else Done (Inr (True, written new r))))))"

definition cosmos_mutate :: "cosmos_conf \<Rightarrow> string \<Rightarrow> string \<Rightarrow> doc_update \<Rightarrow> (bool \<times> cosmos_doc) result prog" where
  "cosmos_mutate c kind i f = mutate_loop c kind i f (cc_maxCasAttempts c)"

text \<open>The updates of one kind of document; the others cannot be read under its kind.\<close>

definition wrong_kind :: "'a result" where
  "wrong_kind = Inl (Fault 503 ''lifecycle_ledger_invalid_response'')"

definition on_need :: "need_doc update \<Rightarrow> doc_update" where
  "on_need f now row = (case dc_body row of Need_doc d \<Rightarrow> rbind (f now d) (\<lambda>x. Inr (map_option Need_doc x)) | _ \<Rightarrow> wrong_kind)"

definition on_offer :: "offer_doc update \<Rightarrow> doc_update" where
  "on_offer f now row = (case dc_body row of Offer_doc d \<Rightarrow> rbind (f now d) (\<lambda>x. Inr (map_option Offer_doc x)) | _ \<Rightarrow> wrong_kind)"

definition on_effect :: "effect_doc update \<Rightarrow> doc_update" where
  "on_effect f now row = (case dc_body row of Effect_doc d \<Rightarrow> rbind (f now d) (\<lambda>x. Inr (map_option Effect_doc x)) | _ \<Rightarrow> wrong_kind)"

definition on_owner :: "owner_doc update \<Rightarrow> doc_update" where
  "on_owner f now row = (case dc_body row of Owner_doc d \<Rightarrow> rbind (f now d) (\<lambda>x. Inr (map_option Owner_doc x)) | _ \<Rightarrow> wrong_kind)"

section \<open>The limit on records\<close>

definition ticket_text :: "string \<Rightarrow> bool" where
  "ticket_text k = (\<exists>kind \<in> {''need'', ''offer'', ''effect'', ''offer-owner''}. take (length kind + 1) k = kind @ ''-'' \<and>
     length (drop (length kind + 1) k) = 64 \<and> list_all is_hex (drop (length kind + 1) k))"

definition capacity_valid :: "cosmos_conf \<Rightarrow> nat \<Rightarrow> capacity_doc \<Rightarrow> bool" where
  "capacity_valid c limit d = (cp_scopeDigest d = sha256 (cc_platform c) (cc_base c) \<and> cp_recordCapacity d = limit \<and> length (cp_tickets d) \<le> limit \<and>
     cp_reserved d = length (cp_tickets d) \<and> distinct (cp_tickets d) \<and> list_all ticket_text (cp_tickets d))"

definition validateCapacity :: "cosmos_conf \<Rightarrow> nat \<Rightarrow> cosmos_doc \<Rightarrow> capacity_doc result" where
  "validateCapacity c limit row = (case dc_body row of
       Capacity_doc d \<Rightarrow> if dc_key row \<noteq> capacityKey (cc_platform c) \<or> dc_logicalId row \<noteq> CAPACITY_ID \<or> dc_version row < 1 \<or> dc_version row \<ge> 9007199254740991 \<or>
            \<not> capacity_valid c limit d then Inl (Fault 503 ''lifecycle_capacity_contract_invalid'') else Inr d
     | _ \<Rightarrow> Inl (Fault 503 ''lifecycle_capacity_contract_invalid''))"

definition take_ticket :: "cosmos_conf \<Rightarrow> nat \<Rightarrow> string \<Rightarrow> doc_update" where
  "take_ticket c limit ticket now row = rbind (validateCapacity c limit row) (\<lambda>d.
     if ticket \<in> set (cp_tickets d) then Inr None
     else if cp_reserved d \<ge> limit then Inl (Fault 503 ''lifecycle_global_capacity_reached'')
     else Inr (Some (Capacity_doc (d\<lparr>cp_tickets := cp_tickets d @ [ticket], cp_reserved := length (cp_tickets d) + 1\<rparr>))))"

definition reserveCreationCapacity :: "cosmos_conf \<Rightarrow> string \<Rightarrow> string \<Rightarrow> unit result prog" where
  "reserveCreationCapacity c kind i = (case cc_recordCapacity c of None \<Rightarrow> Done (Inr ())
     | Some limit \<Rightarrow> (let ticket = partitionId (cc_platform c) kind i in
         and_then (on_error (cosmos_mutate c ''capacity'' CAPACITY_ID (take_ticket c limit ticket))
             (\<lambda>e. case e of Fault s code \<Rightarrow> if s = 404 then throw 503 ''lifecycle_capacity_not_initialized'' else Done (Inl e) | _ \<Rightarrow> Done (Inl e)))
           (\<lambda>(changed, row). case validateCapacity c limit row of
               Inl e \<Rightarrow> Done (Inl e)
             | Inr saved \<Rightarrow> if ticket \<notin> set (cp_tickets saved) then throw 503 ''lifecycle_capacity_commit_unverified'' else Done (Inr ()))))"

text \<open>The result is the number of tickets taken, or nothing where no limit is set.\<close>

definition cosmos_verifyCapacityContract :: "cosmos_conf \<Rightarrow> nat option result prog" where
  "cosmos_verifyCapacityContract c = (case cc_recordCapacity c of None \<Rightarrow> Done (Inr None)
     | Some limit \<Rightarrow> and_then (cosmos_get c ''capacity'' CAPACITY_ID) (\<lambda>found. case found of
         None \<Rightarrow> throw 503 ''lifecycle_capacity_not_initialized''
       | Some (row, _, _) \<Rightarrow> (case validateCapacity c limit row of Inl e \<Rightarrow> Done (Inl e) | Inr saved \<Rightarrow> Done (Inr (Some (cp_reserved saved))))))"

definition cosmos_create :: "cosmos_conf \<Rightarrow> string \<Rightarrow> cosmos_body \<Rightarrow> cosmos_doc result prog" where
  "cosmos_create c i b =
     (let kind = doc_kind b; d = \<lparr>dc_key = partitionId (cc_platform c) kind i, dc_logicalId = i, dc_version = 1, dc_body = b\<rparr> in
      case packed c d of Inl e \<Rightarrow> Done (Inl e)
      | Inr _ \<Rightarrow> and_then (reserveCreationCapacity c kind i) (\<lambda>_. and_then (cosmos_api c (Create_doc d)) (\<lambda>r.
          if rp_status r = 409 then throw 409 (if kind = ''need'' then ''duplicate_request'' else if kind = ''offer'' then ''duplicate_offer'' else ''duplicate_effect'')
          else if rp_status r \<noteq> 201 \<and> rp_status r \<noteq> 200 then Done (Inl unavailable) else Done (Inr (written d r)))))"

section \<open>Deliveries\<close>

definition deliveryFor :: "platform \<Rightarrow> string \<Rightarrow> delivery \<Rightarrow> cosmos_delivery result" where
  "deliveryFor p i d =
     (if dl_kind d \<notin> {''NEED'', ''RESULT'', ''REVOKE'', ''PARTIAL''} \<or> \<not> nonempty_text (dl_recipient d) \<or> \<not> truthy (dl_event d) \<or>
         get (dl_event d) ''kind'' \<noteq> JStr (dl_kind d) then Inl (Fault 400 ''invalid_lifecycle_delivery'')
      else (case json_text p (dl_event d) of None \<Rightarrow> Inl (TypeError ''Cannot read properties of undefined'')
        | Some body \<Rightarrow> if length body > 128000 then Inl (Fault 413 ''lifecycle_delivery_too_large'')
            else Inr \<lparr>cd_eventId = event_id p (dl_kind d) i (dl_event d), cd_recipient = dl_recipient d, cd_kind = dl_kind d, cd_event = dl_event d,
              cd_acknowledgedAt = None, cd_compacted = None\<rparr>))"

definition appendDelivery :: "cosmos_conf \<Rightarrow> string \<Rightarrow> delivery option \<Rightarrow> string \<Rightarrow> string \<Rightarrow> need_doc \<Rightarrow> need_doc result" where
  "appendDelivery c i delivery expectedKind recipient n = (case delivery of None \<Rightarrow> Inr n
     | Some d \<Rightarrow> if dl_kind d \<noteq> expectedKind \<or> dl_recipient d \<noteq> recipient then Inl (Fault 400 ''invalid_lifecycle_delivery'')
         else if length (cn_deliveries n) \<ge> cc_maxDeliveriesPerNeed c then Inl (Fault 503 ''lifecycle_outbox_capacity_reached'')
         else rbind (deliveryFor (cc_platform c) i d) (\<lambda>item.
           if cd_eventId item \<in> set (map cd_eventId (cn_deliveries n)) then Inl (Fault 409 ''delivery_already_recorded'')
           else Inr (n\<lparr>cn_deliveries := cn_deliveries n @ [item]\<rparr>)))"

section \<open>NEEDs\<close>

text \<open>An empty \<open>requester\<close> or \<open>provider\<close> is one that was not given.\<close>

definition authorize_need :: "string \<Rightarrow> string \<Rightarrow> need_doc \<Rightarrow> unit result" where
  "authorize_need requester provider n =
     (if requester \<noteq> [] \<and> nr_requester n \<noteq> requester then Inl (Fault 403 ''not_request_owner'')
      else if provider \<noteq> [] \<and> nr_provider n \<noteq> provider then Inl (Fault 403 ''provider_mismatch'') else Inr ())"

definition paid_authorization_ok :: "jsval \<Rightarrow> string \<Rightarrow> string \<Rightarrow> string \<Rightarrow> bool" where
  "paid_authorization_ok a requester provider capability = (get a ''contract'' = JStr ''truyn.paid.need/1'' \<and> get a ''status'' = JStr ''authorized'' \<and>
     get a ''requesterNodeId'' = JStr requester \<and> get a ''providerNodeId'' = JStr provider \<and> get a ''capability'' = JStr capability \<and>
     get a ''payerNodeId'' = JStr provider \<and> get a ''billingResponsibility'' = JStr ''provider-owner'' \<and>
     is_safe_integer (get a ''authorityRevision'') \<and> num_of (get a ''authorityRevision'') \<ge> 0)"

record need_reservation =
  rv_id :: string
  rv_requester :: string
  rv_provider :: string
  rv_fingerprint :: string
  rv_capability :: string
  rv_mode :: string
  rv_scope :: string
  rv_policyDigest :: string
  rv_delivery :: "delivery option"
  rv_paidAuthorization :: jsval

definition new_need :: "string \<Rightarrow> need_reservation \<Rightarrow> need_doc" where
  "new_need now v = \<lparr>nr_requester = rv_requester v, nr_provider = rv_provider v, nr_fingerprint = rv_fingerprint v, nr_capability = rv_capability v, nr_mode = rv_mode v,
     nr_status = Matched, nr_created_at = now, nr_terminal_at = None, nr_partial_sequence = 0, nr_partial_digest = None, cn_scope = rv_scope v, cn_policyDigest = rv_policyDigest v,
     cn_paidAuthorization = rv_paidAuthorization v, cn_deliveries = [], cn_recoveredUsage = None\<rparr>"

definition cosmos_reserveNeed :: "cosmos_conf \<Rightarrow> string \<Rightarrow> need_reservation \<Rightarrow> cosmos_doc result prog" where
  "cosmos_reserveNeed c now v =
     (if \<not> validNeedId (rv_id v) \<or> \<not> list_all nonempty_text [rv_requester v, rv_provider v, rv_fingerprint v, rv_capability v, rv_mode v, rv_scope v, rv_policyDigest v]
      then throw 400 ''invalid_lifecycle_reservation''
      else if rv_paidAuthorization v \<noteq> JNull \<and> \<not> paid_authorization_ok (rv_paidAuthorization v) (rv_requester v) (rv_provider v) (rv_capability v)
      then throw 403 ''paid_need_authorization_invalid''
      else (case appendDelivery c (rv_id v) (rv_delivery v) ''NEED'' (rv_provider v) (new_need now v) of
          Inl e \<Rightarrow> Done (Inl e) | Inr n \<Rightarrow> cosmos_create c (rv_id v) (Need_doc n)))"

definition end_need :: "cosmos_conf \<Rightarrow> string \<Rightarrow> string \<Rightarrow> string \<Rightarrow> need_status \<Rightarrow> delivery option \<Rightarrow> need_doc update" where
  "end_need c i requester provider target delivery now n = rbind (authorize_need requester provider n) (\<lambda>_.
     if nr_status n \<noteq> Matched then (if target = NCancelled \<and> nr_status n = NCancelled then Inr None else Inl (Fault 409 (closed_reason (nr_status n))))
     else if target = NFailed \<and> delivery \<noteq> None then Inl (Fault 400 ''invalid_lifecycle_delivery'')
     else rbind (if target = NCompleted then appendDelivery c i delivery ''RESULT'' (nr_requester n) n
                 else if target = NCancelled then appendDelivery c i delivery ''REVOKE'' (nr_provider n) n else Inr n)
            (\<lambda>n'. Inr (Some (n'\<lparr>nr_status := target, nr_terminal_at := Some now\<rparr>))))"

definition cosmos_transitionNeed :: "cosmos_conf \<Rightarrow> string \<Rightarrow> string \<Rightarrow> string \<Rightarrow> need_status option \<Rightarrow> delivery option \<Rightarrow> (bool \<times> cosmos_doc) result prog" where
  "cosmos_transitionNeed c i requester provider target delivery = (case target of
       None \<Rightarrow> throw 400 ''invalid_lifecycle_transition''
     | Some t \<Rightarrow> if t = Matched then throw 400 ''invalid_lifecycle_transition''
         else cosmos_mutate c ''need'' i (on_need (end_need c i requester provider t delivery)))"

definition take_partial :: "cosmos_conf \<Rightarrow> string \<Rightarrow> string \<Rightarrow> jsval \<Rightarrow> string \<Rightarrow> delivery option \<Rightarrow> need_doc update" where
  "take_partial c i provider sequence dig delivery now n = rbind (authorize_need [] provider n) (\<lambda>_.
     if nr_status n \<noteq> Matched then Inl (Fault 409 (closed_reason (nr_status n)))
     else if int_of sequence = nr_partial_sequence n - 1 \<and> nr_partial_digest n = Some dig then Inr None
     else if int_of sequence \<noteq> nr_partial_sequence n then Inl (Fault 409 ''partial_sequence_mismatch'')
     else (case delivery of None \<Rightarrow> Inl (Fault 400 ''partial_delivery_required'')
       | Some d \<Rightarrow> if oget (dl_event d) ''sequence'' \<noteq> sequence \<or> oget (dl_event d) ''requestId'' \<noteq> JStr i then Inl (Fault 400 ''invalid_partial_delivery'')
           else rbind (appendDelivery c i delivery ''PARTIAL'' (nr_requester n) n) (\<lambda>n'.
             Inr (Some (n'\<lparr>nr_partial_sequence := nr_partial_sequence n + 1, nr_partial_digest := Some dig\<rparr>)))))"

text \<open>The result is the flag of an idempotent repeat; the previous digest is only of use to a roll back, which this ledger refuses.\<close>

definition cosmos_acceptPartial :: "cosmos_conf \<Rightarrow> string \<Rightarrow> string \<Rightarrow> jsval \<Rightarrow> string \<Rightarrow> delivery option \<Rightarrow> bool result prog" where
  "cosmos_acceptPartial c i provider sequence dig delivery =
     (if \<not> nonempty_text provider then throw 400 ''invalid_partial_provider''
      else if \<not> is_safe_integer sequence \<or> num_of sequence < 0 \<or> \<not> nonempty_text dig then throw 400 ''invalid_partial_sequence''
      else and_then (cosmos_mutate c ''need'' i (on_need (take_partial c i provider sequence dig delivery))) (\<lambda>(changed, row). Done (Inr (\<not> changed))))"

fun ack_first :: "string \<Rightarrow> string \<Rightarrow> cosmos_delivery list \<Rightarrow> cosmos_delivery list" where
  "ack_first now i [] = []"
| "ack_first now i (e # es) = (if cd_eventId e = i then e\<lparr>cd_acknowledgedAt := Some now\<rparr> # es else e # ack_first now i es)"

definition mark_acknowledged :: "string \<Rightarrow> string \<Rightarrow> need_doc update" where
  "mark_acknowledged eventId recipient now n = (case find (\<lambda>x. cd_eventId x = eventId) (cn_deliveries n) of
       None \<Rightarrow> Inl (Fault 404 ''delivery_not_found'')
     | Some e \<Rightarrow> if cd_recipient e \<noteq> recipient then Inl (Fault 404 ''delivery_not_found'')
         else if cd_acknowledgedAt e \<noteq> None then Inr None
         else Inr (Some (n\<lparr>cn_deliveries := ack_first now eventId (cn_deliveries n)\<rparr>)))"

text \<open>The request an event identifier is of: \<^verbatim>\<open>need:\<close>, \<^verbatim>\<open>result:\<close>, \<^verbatim>\<open>revoke:\<close> and the identifier, or \<^verbatim>\<open>partial:\<close>, the identifier and a number.\<close>

definition event_request :: "string \<Rightarrow> string option" where
  "event_request s = (let prefix = takeWhile (\<lambda>x. x \<noteq> CHR '':'') s; tail = tl (dropWhile (\<lambda>x. x \<noteq> CHR '':'') s) in
     if CHR '':'' \<notin> set s \<or> prefix \<notin> {''need'', ''result'', ''revoke'', ''partial''} then None
     else if prefix = ''partial''
     then (let number = rev (takeWhile (\<lambda>x. x \<noteq> CHR '':'') (rev tail)); i = take (length tail - length number - 1) tail in
       if CHR '':'' \<notin> set tail \<or> number = [] \<or> \<not> list_all is_digit number \<or> (hd number = CHR ''0'' \<and> number \<noteq> ''0'') \<or> \<not> nonempty_text i then None else Some i)
     else if nonempty_text tail then Some tail else None)"

definition cosmos_acknowledgeDelivery :: "cosmos_conf \<Rightarrow> string \<Rightarrow> string \<Rightarrow> bool result prog" where
  "cosmos_acknowledgeDelivery c eventId recipient =
     (if \<not> nonempty_text eventId \<or> \<not> nonempty_text recipient then throw 400 ''invalid_delivery_ack''
      else (case event_request eventId of None \<Rightarrow> throw 400 ''invalid_delivery_ack''
        | Some i \<Rightarrow> and_then (cosmos_mutate c ''need'' i (on_need (mark_acknowledged eventId recipient))) (\<lambda>(changed, row). Done (Inr (\<not> changed)))))"

text \<open>Compaction replaces the payload of acknowledged partial results by its digest.\<close>

definition compact_delivery :: "platform \<Rightarrow> string \<Rightarrow> cosmos_delivery \<Rightarrow> (bool \<times> cosmos_delivery) result" where
  "compact_delivery p now e = (case cd_acknowledgedAt e of
       None \<Rightarrow> Inr (False, e)
     | Some t \<Rightarrow> if cd_kind e \<noteq> ''PARTIAL'' \<or> cd_event e = JNull then Inr (False, e)
         else if date_parse p t = None \<or> \<not> truthy (cd_event e) then Inl (Fault 503 ''lifecycle_ledger_invalid_response'')
         else Inr (True, e\<lparr>cd_event := JNull, cd_compacted := Some (case json_text p (cd_event e) of None \<Rightarrow> [] | Some body \<Rightarrow> sha256 p body, now)\<rparr>))"

fun compact_deliveries :: "platform \<Rightarrow> string \<Rightarrow> cosmos_delivery list \<Rightarrow> (bool \<times> cosmos_delivery list) result" where
  "compact_deliveries p now [] = Inr (False, [])"
| "compact_deliveries p now (e # es) = rbind (compact_delivery p now e) (\<lambda>(changed, e').
     rbind (compact_deliveries p now es) (\<lambda>(more, es'). Inr (changed \<or> more, e' # es')))"

definition compact_need :: "platform \<Rightarrow> string \<Rightarrow> need_doc update" where
  "compact_need p requester now n = rbind (authorize_need requester [] n) (\<lambda>_.
     if nr_status n = Matched then Inl (Fault 409 ''lifecycle_compaction_requires_terminal'')
     else rbind (compact_deliveries p now (cn_deliveries n)) (\<lambda>(changed, ds). Inr (if changed then Some (n\<lparr>cn_deliveries := ds\<rparr>) else None)))"

definition cosmos_compactNeed :: "cosmos_conf \<Rightarrow> string \<Rightarrow> string \<Rightarrow> bool result prog" where
  "cosmos_compactNeed c i requester =
     (if \<not> validNeedId i \<or> \<not> nonempty_text requester then throw 400 ''invalid_lifecycle_compaction''
      else and_then (cosmos_mutate c ''need'' i (on_need (compact_need (cc_platform c) requester))) (\<lambda>(changed, row). Done (Inr changed)))"

section \<open>OFFERs and the index of their owners\<close>

definition signedOffer :: "platform \<Rightarrow> jsval \<Rightarrow> string \<Rightarrow> string \<Rightarrow> string \<Rightarrow> (jsval \<times> string) result" where
  "signedOffer p envelope i owner fingerprint = (case json_text p envelope of None \<Rightarrow> Inl (Fault 413 ''lifecycle_offer_too_large'')
     | Some t \<Rightarrow> if utf8_length t > 128000 then Inl (Fault 413 ''lifecycle_offer_too_large'')
         else (let cap = oget (oget envelope ''payload'') ''capability''; name = oget cap ''name''; capability = (if truthy name then name else cap) in
           if verifyEnvelope p [''OFFER''] envelope \<noteq> Inr () \<or> get envelope ''id'' \<noteq> JStr i \<or> get envelope ''from'' \<noteq> JStr owner \<or> sha256 p t \<noteq> fingerprint \<or>
              \<not> is_string capability \<or> \<not> nonempty_text (str_of capability) then Inl (Fault 409 ''lifecycle_offer_integrity_mismatch'')
           else Inr (envelope, str_of capability)))"

text \<open>The directory keeps the text of the envelope, here the value it parses to.\<close>

definition restoreSignedOffer :: "platform \<Rightarrow> string \<Rightarrow> string \<Rightarrow> offer_doc \<Rightarrow> jsval result" where
  "restoreSignedOffer p i owner d =
     (if of_owner d \<noteq> owner \<or> \<not> co_directory d then Inl (Fault 503 ''lifecycle_offer_directory_invalid'')
      else (case co_offerJson d of None \<Rightarrow> Inl (Fault 503 ''lifecycle_offer_directory_invalid'')
        | Some envelope \<Rightarrow> rbind (signedOffer p envelope i owner (of_fingerprint d)) (\<lambda>(e, capability).
            if capability \<noteq> co_capability d then Inl (Fault 503 ''lifecycle_offer_directory_invalid'') else Inr envelope)))"

definition owner_valid :: "string \<Rightarrow> owner_doc \<Rightarrow> bool" where
  "owner_valid owner d = (cw_owner d = owner \<and> length (cw_slots d) \<le> 128 \<and> list_all (\<lambda>(i, fp). nonempty_text i \<and> nonempty_text fp) (cw_slots d) \<and> distinct (map fst (cw_slots d)))"

definition claim_slot :: "string \<Rightarrow> string \<Rightarrow> string \<Rightarrow> owner_doc update" where
  "claim_slot i owner fingerprint now d =
     (if \<not> owner_valid owner d then Inl (Fault 503 ''lifecycle_offer_owner_index_invalid'')
      else (case map_of (cw_slots d) i of
          Some fp \<Rightarrow> if fp \<noteq> fingerprint then Inl (Fault 409 ''lifecycle_offer_integrity_mismatch'') else Inr None
        | None \<Rightarrow> if length (cw_slots d) \<ge> 128 then Inl (Fault 503 ''lifecycle_offer_owner_capacity_reached'')
            else Inr (Some (d\<lparr>cw_slots := cw_slots d @ [(i, fingerprint)]\<rparr>))))"

definition release_slot :: "string \<Rightarrow> string \<Rightarrow> string \<Rightarrow> owner_doc update" where
  "release_slot i owner fingerprint now d =
     (if \<not> owner_valid owner d then Inl (Fault 503 ''lifecycle_offer_owner_index_invalid'')
      else (case map_of (cw_slots d) i of None \<Rightarrow> Inr None
        | Some fp \<Rightarrow> if fp \<noteq> fingerprint then Inl (Fault 503 ''lifecycle_offer_owner_index_invalid'')
            else Inr (Some (d\<lparr>cw_slots := filter (\<lambda>(k, f). k \<noteq> i) (cw_slots d)\<rparr>))))"

definition claimOfferSlot :: "cosmos_conf \<Rightarrow> string \<Rightarrow> string \<Rightarrow> string \<Rightarrow> unit result prog" where
  "claimOfferSlot c i owner fingerprint = and_then (cosmos_get c ''offer-owner'' owner) (\<lambda>index.
     and_then (case index of Some _ \<Rightarrow> Done (Inr ())
       | None \<Rightarrow> on_error (and_then (cosmos_create c owner (Owner_doc \<lparr>cw_owner = owner, cw_slots = []\<rparr>)) (\<lambda>_. Done (Inr ())))
           (\<lambda>e. case e of Fault s code \<Rightarrow> if s = 409 then Done (Inr ()) else Done (Inl e) | _ \<Rightarrow> Done (Inl e)))
     (\<lambda>_. and_then (cosmos_mutate c ''offer-owner'' owner (on_owner (claim_slot i owner fingerprint))) (\<lambda>_. Done (Inr ()))))"

definition releaseRevokedOfferSlot :: "cosmos_conf \<Rightarrow> string \<Rightarrow> offer_doc \<Rightarrow> unit result prog" where
  "releaseRevokedOfferSlot c i d = (if \<not> co_directory d then Done (Inr ())
     else and_then (cosmos_mutate c ''offer-owner'' (of_owner d) (on_owner (release_slot i (of_owner d) (of_fingerprint d)))) (\<lambda>_. Done (Inr ())))"

definition releaseOfferClaim :: "cosmos_conf \<Rightarrow> string \<Rightarrow> string \<Rightarrow> string \<Rightarrow> unit result prog" where
  "releaseOfferClaim c i owner fingerprint = and_then (cosmos_get c ''offer-owner'' owner) (\<lambda>index. case index of None \<Rightarrow> Done (Inr ())
     | Some _ \<Rightarrow> and_then (cosmos_mutate c ''offer-owner'' owner (on_owner (release_slot i owner fingerprint))) (\<lambda>_. Done (Inr ())))"

definition create_offer :: "cosmos_conf \<Rightarrow> string \<Rightarrow> string \<Rightarrow> string \<Rightarrow> bool \<Rightarrow> offer_doc \<Rightarrow> cosmos_doc result prog" where
  "create_offer c i owner fingerprint recoverable d = on_error (cosmos_create c i (Offer_doc d)) (\<lambda>e.
     if recoverable \<and> e = Fault 409 ''duplicate_offer''
     then and_then (cosmos_get c ''offer'' i) (\<lambda>existing. case existing of
         Some (row, _, _) \<Rightarrow> (case dc_body row of
           Offer_doc x \<Rightarrow> if of_owner x \<noteq> owner \<or> of_fingerprint x \<noteq> fingerprint then and_then (releaseOfferClaim c i owner fingerprint) (\<lambda>_. Done (Inl e)) else Done (Inl e)
         | _ \<Rightarrow> Done (Inl e))
       | None \<Rightarrow> Done (Inl e))
     else Done (Inl e))"

definition cosmos_reserveOffer :: "cosmos_conf \<Rightarrow> string \<Rightarrow> string \<Rightarrow> string \<Rightarrow> jsval option \<Rightarrow> cosmos_doc result prog" where
  "cosmos_reserveOffer c i owner fingerprint envelope =
     (if \<not> list_all nonempty_text [i, owner, fingerprint] then throw 400 ''invalid_offer_reservation''
      else (case envelope of
          None \<Rightarrow> create_offer c i owner fingerprint False
            \<lparr>of_owner = owner, of_fingerprint = fingerprint, of_revoked = False, co_directory = False, co_offerJson = None, co_capability = []\<rparr>
        | Some env \<Rightarrow> (case signedOffer (cc_platform c) env i owner fingerprint of Inl e \<Rightarrow> Done (Inl e)
          | Inr (json, capability) \<Rightarrow>
            (let d = \<lparr>of_owner = owner, of_fingerprint = fingerprint, of_revoked = False, co_directory = True, co_offerJson = Some json, co_capability = capability\<rparr> in
             case packed c \<lparr>dc_key = partitionId (cc_platform c) ''offer'' i, dc_logicalId = i, dc_version = 1, dc_body = Offer_doc d\<rparr> of Inl e \<Rightarrow> Done (Inl e)
             | Inr _ \<Rightarrow> and_then (cosmos_get c ''offer'' i) (\<lambda>found.
                 if found \<noteq> None then throw 409 ''duplicate_offer''
                 else and_then (claimOfferSlot c i owner fingerprint) (\<lambda>_. create_offer c i owner fingerprint True d))))))"

definition mark_offer_revoked :: "string \<Rightarrow> offer_doc update" where
  "mark_offer_revoked owner now d =
     (if of_owner d \<noteq> owner then Inl (Fault 403 ''not_target_owner'') else if of_revoked d then Inr None else Inr (Some (d\<lparr>of_revoked := True\<rparr>)))"

definition cosmos_revokeOffer :: "cosmos_conf \<Rightarrow> string \<Rightarrow> string \<Rightarrow> (bool \<times> cosmos_doc) result prog" where
  "cosmos_revokeOffer c i owner = and_then (cosmos_mutate c ''offer'' i (on_offer (mark_offer_revoked owner))) (\<lambda>(changed, row).
     and_then (case dc_body row of Offer_doc d \<Rightarrow> releaseRevokedOfferSlot c (dc_logicalId row) d | _ \<Rightarrow> Done (Inr ())) (\<lambda>_. Done (Inr (changed, row))))"

definition compact_offer :: "platform \<Rightarrow> string \<Rightarrow> string \<Rightarrow> offer_doc update" where
  "compact_offer p i owner now d =
     (if of_owner d \<noteq> owner then Inl (Fault 403 ''not_target_owner'')
      else if \<not> of_revoked d then Inl (Fault 409 ''lifecycle_compaction_requires_revocation'')
      else if co_offerJson d = None then Inr None
      else rbind (restoreSignedOffer p i owner d) (\<lambda>_. Inr (Some (d\<lparr>co_offerJson := None\<rparr>))))"

definition cosmos_compactOffer :: "cosmos_conf \<Rightarrow> string \<Rightarrow> string \<Rightarrow> bool result prog" where
  "cosmos_compactOffer c i owner =
     (if \<not> nonempty_text i \<or> \<not> nonempty_text owner then throw 400 ''invalid_lifecycle_compaction''
      else and_then (cosmos_mutate c ''offer'' i (on_offer (compact_offer (cc_platform c) i owner))) (\<lambda>(changed, row). Done (Inr changed)))"

text \<open>A hint of the directory query counts only after a conditional write has confirmed that the offer stands.\<close>

definition fence_offer :: "platform \<Rightarrow> string \<Rightarrow> string \<Rightarrow> offer_doc update" where
  "fence_offer p i owner now d =
     (if of_owner d \<noteq> owner then Inl (Fault 403 ''not_target_owner'') else if of_revoked d then Inr None
      else rbind (restoreSignedOffer p i owner d) (\<lambda>_. Inr (Some d)))"

primrec restore_hints :: "cosmos_conf \<Rightarrow> string \<Rightarrow> nat \<Rightarrow> string list \<Rightarrow> jsval list \<Rightarrow> cosmos_doc list \<Rightarrow> (string list \<times> jsval list) result prog" where
  "restore_hints c owner limit seen out [] = Done (Inr (seen, out))"
| "restore_hints c owner limit seen out (h # hs) = (case dc_body h of
     Offer_doc x \<Rightarrow>
       if of_owner x \<noteq> owner \<or> \<not> nonempty_text (dc_logicalId h) then throw 503 ''lifecycle_offer_directory_invalid''
       else if dc_logicalId h \<in> set seen then restore_hints c owner limit seen out hs
       else if length seen \<ge> 128 then throw 503 ''lifecycle_offer_scan_capacity_reached''
       else and_then (cosmos_mutate c ''offer'' (dc_logicalId h) (on_offer (fence_offer (cc_platform c) (dc_logicalId h) owner))) (\<lambda>(changed, row).
         case dc_body row of
           Offer_doc d \<Rightarrow> if of_revoked d then restore_hints c owner limit (seen @ [dc_logicalId h]) out hs
             else if length out \<ge> limit then throw 503 ''lifecycle_offer_scan_capacity_reached''
             else (case restoreSignedOffer (cc_platform c) (dc_logicalId row) owner d of Inl e \<Rightarrow> Done (Inl e)
               | Inr env \<Rightarrow> restore_hints c owner limit (seen @ [dc_logicalId h]) (out @ [env]) hs)
         | _ \<Rightarrow> throw 503 ''lifecycle_offer_directory_invalid'')
   | _ \<Rightarrow> throw 503 ''lifecycle_offer_directory_invalid'')"

primrec restore_pages :: "cosmos_conf \<Rightarrow> string \<Rightarrow> nat \<Rightarrow> nat \<Rightarrow> string list \<Rightarrow> string list \<Rightarrow> jsval list \<Rightarrow> string option \<Rightarrow> jsval list result prog" where
  "restore_pages c owner limit 0 cursors seen out continuation = throw 503 ''lifecycle_offer_scan_capacity_reached''"
| "restore_pages c owner limit (Suc n) cursors seen out continuation = and_then (cosmos_api c (Query ''offers'' owner continuation)) (\<lambda>r.
     case rp_content r of
       Documents ds \<Rightarrow> if rp_status r \<noteq> 200 \<or> length ds > 100 then throw 503 ''lifecycle_offer_directory_invalid''
         else and_then (restore_hints c owner limit seen out ds) (\<lambda>(seen', out'). case rp_continuation r of
           None \<Rightarrow> Done (Inr out')
         | Some t \<Rightarrow> if t = [] then Done (Inr out')
             else if length t > 8192 \<or> t \<in> set cursors then throw 503 ''lifecycle_offer_directory_cursor_invalid''
             else restore_pages c owner limit n (t # cursors) seen' out' (Some t))
     | _ \<Rightarrow> throw 503 ''lifecycle_offer_directory_invalid'')"

definition cosmos_restoreOffers :: "cosmos_conf \<Rightarrow> string \<Rightarrow> jsval \<Rightarrow> jsval list result prog" where
  "cosmos_restoreOffers c owner limit =
     (if \<not> nonempty_text owner \<or> \<not> is_safe_integer limit \<or> num_of limit < 1 \<or> num_of limit > 128 then throw 400 ''invalid_offer_directory_query''
      else restore_pages c owner (nat (int_of limit)) 50 [] [] [] None)"

section \<open>Effects and their receipts\<close>

definition cosmos_beginEffect :: "cosmos_conf \<Rightarrow> string \<Rightarrow> string \<Rightarrow> string \<Rightarrow> string \<Rightarrow> string \<Rightarrow> (bool \<times> effect_doc option) result prog" where
  "cosmos_beginEffect c now i requester provider fingerprint =
     (if \<not> list_all nonempty_text [i, requester, provider, fingerprint] then throw 400 ''invalid_effect_intent''
      else on_error (and_then (cosmos_create c i (Effect_doc \<lparr>ef_provider = provider, ef_requester = requester, ef_fingerprint = fingerprint, ef_status = EStarted,
             ef_created_at = now, ef_finished_at = None, ce_observedTokens = None, ce_execution = None, ce_receipt = None, ce_receiptCapturedAt = None\<rparr>))
             (\<lambda>_. Done (Inr (True, None))))
        (\<lambda>e. case e of Fault s code \<Rightarrow> if s \<noteq> 409 then Done (Inl e)
             else and_then (cosmos_get c ''effect'' i) (\<lambda>existing. case existing of None \<Rightarrow> Done (Inl unavailable)
               | Some (row, _, _) \<Rightarrow> (case dc_body row of
                   Effect_doc d \<Rightarrow> if ef_requester d \<noteq> requester \<or> ef_provider d \<noteq> provider \<or> ef_fingerprint d \<noteq> fingerprint
                     then throw 409 ''effect_identity_conflict'' else Done (Inr (False, Some d))
                 | _ \<Rightarrow> Done (Inl unavailable)))
           | _ \<Rightarrow> Done (Inl e)))"

definition end_effect :: "string \<Rightarrow> effect_status \<Rightarrow> jsval \<Rightarrow> effect_doc update" where
  "end_effect provider outcome observedTokens now d =
     (if ef_provider d \<noteq> provider then Inl (Fault 403 ''provider_mismatch'')
      else if ef_status d \<noteq> EStarted then Inr None
      else Inr (Some (d\<lparr>ef_status := outcome, ef_finished_at := Some now, ce_observedTokens := (if observedTokens = JNull then ce_observedTokens d else Some observedTokens)\<rparr>)))"

definition cosmos_finishEffect :: "cosmos_conf \<Rightarrow> string \<Rightarrow> string \<Rightarrow> effect_status option \<Rightarrow> jsval \<Rightarrow> (bool \<times> cosmos_doc) result prog" where
  "cosmos_finishEffect c i provider outcome observedTokens = (case outcome of
       None \<Rightarrow> throw 400 ''invalid_effect_outcome''
     | Some s \<Rightarrow> if s = EStarted then throw 400 ''invalid_effect_outcome''
         else if observedTokens \<noteq> JNull \<and> (\<not> is_safe_integer observedTokens \<or> num_of observedTokens < 0 \<or> s \<noteq> ECompleted) then throw 400 ''invalid_effect_meter''
         else cosmos_mutate c ''effect'' i (on_effect (end_effect provider s observedTokens)))"

definition hex_digest :: "jsval \<Rightarrow> bool" where
  "hex_digest v = (is_string v \<and> length (str_of v) = 64 \<and> list_all is_hex (str_of v))"

definition response_id :: "jsval \<Rightarrow> bool" where
  "response_id v = (let s = str_of v in is_string v \<and> take 5 s = ''resp_'' \<and> drop 5 s \<noteq> [] \<and> length (drop 5 s) \<le> 200 \<and>
     list_all (\<lambda>x. is_digit x \<or> (CHR ''a'' \<le> x \<and> x \<le> CHR ''z'') \<or> (CHR ''A'' \<le> x \<and> x \<le> CHR ''Z'') \<or> x = CHR ''_'' \<or> x = CHR ''-'') (drop 5 s))"

definition token_count :: "jsval \<Rightarrow> bool" where
  "token_count v = (is_safe_integer v \<and> num_of v \<ge> 0)"

definition usage_ok :: "jsval \<Rightarrow> bool" where
  "usage_ok u = (truthy u \<and> list_all (\<lambda>k. token_count (get u k)) [''input_tokens'', ''output_tokens'', ''total_tokens''] \<and>
     is_safe_integer (JNum (num_of (get u ''input_tokens'') + num_of (get u ''output_tokens''))) \<and>
     num_of (get u ''input_tokens'') + num_of (get u ''output_tokens'') = num_of (get u ''total_tokens''))"

text \<open>\<^verbatim>\<open>receipt(value)\<close>: only bounded identifiers, usage and digests are kept.\<close>

definition normal_receipt :: "jsval \<Rightarrow> jsval result" where
  "normal_receipt v = (let u = oget v ''usage''; model = oget v ''model'' in
     if oget v ''provider'' \<noteq> JStr ''azure-openai'' \<or> \<not> response_id (oget v ''responseId'') \<or> \<not> is_string model \<or> \<not> nonempty_text (str_of model) \<or> length (str_of model) > 256 \<or>
        \<not> hex_digest (oget v ''scopeDigest'') \<or> \<not> hex_digest (oget v ''outputDigest'') \<or> \<not> usage_ok u then Inl (Fault 409 ''effect_receipt_unverified'')
     else Inr (JObj [(''version'', JNum 1), (''provider'', JStr ''azure-openai''), (''responseId'', get v ''responseId''), (''model'', model),
       (''scopeDigest'', get v ''scopeDigest''), (''outputDigest'', get v ''outputDigest''),
       (''usage'', JObj [(''input_tokens'', get u ''input_tokens''), (''output_tokens'', get u ''output_tokens''), (''total_tokens'', get u ''total_tokens'')])]))"

definition sameReceipt :: "jsval \<Rightarrow> jsval \<Rightarrow> bool result" where
  "sameReceipt a b = rbind (normal_receipt a) (\<lambda>x. rbind (normal_receipt b) (\<lambda>y. Inr (x = y)))"

record binding =
  bd_id :: string
  bd_provider :: string
  bd_requester :: string
  bd_fingerprint :: string

text \<open>Its own loop of conditional writes: five attempts, more room kept, and what was committed is compared with what was sent.\<close>

definition receipt_committed :: "cosmos_doc \<Rightarrow> cosmos_doc \<Rightarrow> bool result" where
  "receipt_committed new d = (case (dc_body new, dc_body d) of
       (Effect_doc n, Effect_doc x) \<Rightarrow>
         if dc_key d \<noteq> dc_key new \<or> dc_version d \<noteq> dc_version new \<or> ef_provider x \<noteq> ef_provider n \<or> ef_requester x \<noteq> ef_requester n \<or>
            ef_fingerprint x \<noteq> ef_fingerprint n \<or> ef_status x \<noteq> ef_status n \<or> ce_execution x \<noteq> ce_execution n then Inr False
         else (case ce_receipt n of None \<Rightarrow> Inr True | Some r \<Rightarrow> sameReceipt (case ce_receipt x of Some y \<Rightarrow> y | None \<Rightarrow> JUndef) r)
     | _ \<Rightarrow> Inr False)"

primrec receipt_loop :: "cosmos_conf \<Rightarrow> binding \<Rightarrow> effect_doc update \<Rightarrow> nat \<Rightarrow> (bool \<times> cosmos_doc) result prog" where
  "receipt_loop c b f 0 = throw 503 ''effect_receipt_cas_contention''"
| "receipt_loop c b f (Suc n) = and_then (cosmos_get c ''effect'' (bd_id b)) (\<lambda>current. case current of
     None \<Rightarrow> throw 409 ''effect_intent_required''
   | Some (d, etag, now) \<Rightarrow> (case dc_body d of
       Effect_doc x \<Rightarrow>
         if ef_provider x \<noteq> bd_provider b \<or> ef_requester x \<noteq> bd_requester b \<or> ef_fingerprint x \<noteq> bd_fingerprint b then throw 409 ''effect_identity_conflict''
         else if dc_key d \<noteq> partitionId (cc_platform c) ''effect'' (bd_id b) \<or> \<not> nonempty_text etag \<or> dc_version d < 1 \<or> dc_version d \<ge> 9007199254740991
           then throw 503 ''effect_receipt_record_invalid''
         else (case f now x of
             Inl e \<Rightarrow> Done (Inl e)
           | Inr None \<Rightarrow> Done (Inr (False, d))
           | Inr (Some y) \<Rightarrow> (let new = d\<lparr>dc_version := dc_version d + 1, dc_body := Effect_doc y\<rparr> in
               if cc_bytes c new + 256 > 850000 then throw 503 ''lifecycle_document_capacity_reached''
               else Send (Replace (dc_key d) new etag) (\<lambda>a. case a of
                   NoToken \<Rightarrow> throw 503 ''lifecycle_ledger_auth_unavailable''
                 | NoReply \<Rightarrow> throw 503 ''effect_receipt_store_unavailable''
                 | BadSession code \<Rightarrow> throw 503 code
                 | Reply r \<Rightarrow> if rp_status r = 412 then receipt_loop c b f n
                     else if rp_status r \<noteq> 200 then throw 503 ''effect_receipt_store_unavailable''
                     else (case rp_content r of
                         Document d' \<Rightarrow> (case receipt_committed new d' of Inr True \<Rightarrow> Done (Inr (True, new))
                           | Inr False \<Rightarrow> throw 503 ''effect_receipt_store_unverified'' | Inl e \<Rightarrow> Done (Inl e))
                       | Unreadable \<Rightarrow> throw 503 ''effect_receipt_store_unavailable''
                       | _ \<Rightarrow> throw 503 ''effect_receipt_store_unverified''))))
     | _ \<Rightarrow> throw 503 ''effect_receipt_record_invalid''))"

definition receipt_mutate :: "cosmos_conf \<Rightarrow> binding \<Rightarrow> effect_doc update \<Rightarrow> (bool \<times> cosmos_doc) result prog" where
  "receipt_mutate c b f = (if \<not> list_all nonempty_text [bd_id b, bd_provider b, bd_requester b, bd_fingerprint b] then throw 400 ''invalid_effect_receipt_binding''
     else receipt_loop c b f 5)"

text \<open>Who claims an effect may make its paid call. The token is drawn at random; the room looked for is that of the document with the old body.\<close>

definition claim_execution :: "(effect_doc \<Rightarrow> nat) \<Rightarrow> string \<Rightarrow> string option \<Rightarrow> effect_doc update" where
  "claim_execution room token scope now d =
     (if ef_status d \<noteq> EStarted \<or> ce_execution d \<noteq> None \<or> ce_receipt d \<noteq> None then Inl (Fault 409 ''effect_execution_already_claimed'')
      else if room d + 4096 > 850000 then Inl (Fault 503 ''lifecycle_document_capacity_reached'')
      else Inr (Some (d\<lparr>ce_execution := Some (token, scope)\<rparr>)))"

definition claimReceiptExecution :: "cosmos_conf \<Rightarrow> (effect_doc \<Rightarrow> nat) \<Rightarrow> binding \<Rightarrow> string \<Rightarrow> string option \<Rightarrow> string result prog" where
  "claimReceiptExecution c room b token scope =
     (if (case scope of None \<Rightarrow> False | Some s \<Rightarrow> \<not> hex_digest (JStr s)) then throw 400 ''g5_correlation_binding_invalid''
      else and_then (receipt_mutate c b (claim_execution room token scope)) (\<lambda>(changed, row). case dc_body row of
          Effect_doc d \<Rightarrow> (case ce_execution d of Some (t, s) \<Rightarrow> Done (Inr t) | None \<Rightarrow> Done (Inl (TypeError ''Cannot read properties of undefined'')))
        | _ \<Rightarrow> throw 503 ''effect_receipt_record_invalid''))"

definition capture_receipt :: "string \<Rightarrow> jsval \<Rightarrow> effect_doc update" where
  "capture_receipt token normalized now d = (case ce_execution d of
       None \<Rightarrow> Inl (Fault 409 ''effect_execution_token_mismatch'')
     | Some (t, scope) \<Rightarrow>
         if t \<noteq> token then Inl (Fault 409 ''effect_execution_token_mismatch'')
         else if (case scope of None \<Rightarrow> False | Some s \<Rightarrow> JStr s \<noteq> get normalized ''scopeDigest'') then Inl (Fault 409 ''effect_receipt_scope_mismatch'')
         else if ef_status d = EFailed then Inl (Fault 409 ''effect_receipt_terminal_conflict'')
         else (case ce_receipt d of
             Some r \<Rightarrow> rbind (sameReceipt r normalized) (\<lambda>same. if same then Inr None else Inl (Fault 409 ''effect_receipt_conflict''))
           | None \<Rightarrow> Inr (Some (d\<lparr>ce_receipt := Some normalized, ce_receiptCapturedAt := Some now\<rparr>))))"

definition captureEffectReceipt :: "cosmos_conf \<Rightarrow> binding \<Rightarrow> string \<Rightarrow> jsval \<Rightarrow> (bool \<times> cosmos_doc) result prog" where
  "captureEffectReceipt c b token value = (case normal_receipt value of Inl e \<Rightarrow> Done (Inl e)
     | Inr normalized \<Rightarrow> if \<not> nonempty_text token then throw 400 ''effect_execution_token_required'' else receipt_mutate c b (capture_receipt token normalized))"

section \<open>The recovered result of a paid call\<close>

text \<open>
  One write commits the signed RESULT and the usage record. The checks against the effect's receipt come
  first; what they compute goes into the record.
\<close>

definition canonical_digest :: "platform \<Rightarrow> jsval \<Rightarrow> string result" where
  "canonical_digest p v = rbind (canonicalize p v) (\<lambda>t. Inr (sha256 p t))"

definition recovered_request_ok :: "platform \<Rightarrow> jsval \<Rightarrow> string \<Rightarrow> delivery \<Rightarrow> string \<Rightarrow> bool" where
  "recovered_request_ok p need provider d receiptDigest = (let signed = oget (dl_event d) ''envelope'' in
     truthy need \<and> get need ''type'' = JStr ''NEED'' \<and> \<not> truthy (get need ''compact'') \<and> \<not> truthy (get need ''chain'') \<and> verifyEnvelope p [''NEED''] need = Inr () \<and>
     nonempty_text provider \<and> hex_digest (JStr receiptDigest) \<and>
     dl_kind d = ''RESULT'' \<and> JStr (dl_recipient d) = get need ''from'' \<and> get (dl_event d) ''kind'' = JStr ''RESULT'' \<and> oget signed ''type'' = JStr ''RESULT'' \<and>
     verifyEnvelope p [''RESULT''] signed = Inr () \<and> get signed ''from'' = JStr provider \<and> get signed ''to'' = get need ''from'' \<and>
     oget (get signed ''payload'') ''requestId'' = get need ''id'' \<and> is_string (get (get signed ''payload'') ''output''))"

definition effect_fingerprint :: "platform \<Rightarrow> jsval \<Rightarrow> string" where
  "effect_fingerprint p need = (case json_text p (JArr [get need ''id'', get need ''from'', get need ''payload'']) of None \<Rightarrow> [] | Some t \<Rightarrow> sha256 p t)"

definition recovered_effect_ok :: "platform \<Rightarrow> jsval \<Rightarrow> string \<Rightarrow> effect_doc \<Rightarrow> bool" where
  "recovered_effect_ok p need provider e = (JStr (ef_requester e) = get need ''from'' \<and> ef_provider e = provider \<and> ef_fingerprint e = effect_fingerprint p need \<and> ef_status e \<noteq> EFailed)"

definition recovered_receipt_ok :: "platform \<Rightarrow> jsval \<Rightarrow> string \<Rightarrow> string \<Rightarrow> bool result" where
  "recovered_receipt_ok p r output receiptDigest =
     (if oget r ''version'' \<noteq> JNum 1 \<or> get r ''provider'' \<noteq> JStr ''azure-openai'' \<or> \<not> response_id (get r ''responseId'') \<or> \<not> is_string (get r ''model'') \<or>
         \<not> nonempty_text (str_of (get r ''model'')) \<or> length (str_of (get r ''model'')) > 256 \<or> \<not> hex_digest (get r ''scopeDigest'') \<or>
         get r ''outputDigest'' \<noteq> JStr (sha256 p output) \<or> \<not> usage_ok (get r ''usage'') then Inr False
      else rbind (canonical_digest p r) (\<lambda>h. Inr (h = receiptDigest)))"

definition recovered_metadata :: "jsval \<Rightarrow> string \<Rightarrow> jsval" where
  "recovered_metadata u receiptDigest = JObj [(''provider'', JStr ''azure-openai''), (''usage'', u), (''receiptDigest'', JStr receiptDigest), (''recovered'', JBool True),
     (''usageAccounting'', JStr ''operational-only''), (''providerInvoiceVerified'', JBool False), (''accountingSettled'', JBool False)]"

definition usage_record :: "platform \<Rightarrow> jsval \<Rightarrow> string \<Rightarrow> string \<Rightarrow> jsval \<Rightarrow> jsval \<Rightarrow> jsval result" where
  "usage_record p need provider receiptDigest u event = rbind (canonical_digest p event) (\<lambda>resultDigest.
     Inr (JObj [(''schema'', JStr ''truyn.g5.recovered-usage/v1''), (''requestId'', get need ''id''), (''requester'', get need ''from''), (''provider'', JStr provider),
       (''effectFingerprint'', JStr (effect_fingerprint p need)), (''receiptDigest'', JStr receiptDigest), (''inputTokens'', get u ''input_tokens''),
       (''outputTokens'', get u ''output_tokens''), (''totalTokens'', get u ''total_tokens''), (''resultDigest'', JStr resultDigest), (''vendorChargeVerified'', JBool False)]))"

definition same_canonical :: "platform \<Rightarrow> jsval \<Rightarrow> jsval \<Rightarrow> bool result" where
  "same_canonical p a b = rbind (canonicalize p a) (\<lambda>x. rbind (canonicalize p b) (\<lambda>y. Inr (x = y)))"

definition need_event_envelope :: "need_doc \<Rightarrow> jsval" where
  "need_event_envelope n = (case find (\<lambda>d. cd_kind d = ''NEED'') (cn_deliveries n) of None \<Rightarrow> JUndef | Some d \<Rightarrow> oget (cd_event d) ''envelope'')"

definition result_deliveries :: "need_doc \<Rightarrow> cosmos_delivery list" where
  "result_deliveries n = filter (\<lambda>d. cd_kind d = ''RESULT'') (cn_deliveries n)"

definition result_queued :: "need_doc \<Rightarrow> bool" where
  "result_queued n = (case find (\<lambda>d. cd_kind d = ''RESULT'') (cn_deliveries n) of None \<Rightarrow> True | Some d \<Rightarrow> cd_acknowledgedAt d = None)"

definition bound_to_need :: "platform \<Rightarrow> jsval \<Rightarrow> string \<Rightarrow> need_doc \<Rightarrow> bool result" where
  "bound_to_need p need provider n = (let original = need_event_envelope n in
     if nr_mode n \<noteq> ''legacy'' \<or> JStr (nr_requester n) \<noteq> get need ''from'' \<or> nr_provider n \<noteq> provider \<or> JStr (cn_scope n) \<noteq> get need ''from'' \<or> \<not> truthy original \<or>
        Some (nr_fingerprint n) \<noteq> map_option (sha256 p) (json_text p original) then Inr False
     else same_canonical p original need)"

definition recovered_same :: "platform \<Rightarrow> jsval \<Rightarrow> need_doc \<Rightarrow> bool result" where
  "recovered_same p record n = (case cn_recoveredUsage n of None \<Rightarrow> Inr False
     | Some u \<Rightarrow> rbind (same_canonical p u record) (\<lambda>same. if \<not> same then Inr False
         else (case result_deliveries n of
             [d] \<Rightarrow> rbind (canonical_digest p (cd_event d)) (\<lambda>h. Inr (JStr h = get record ''resultDigest''))
           | _ \<Rightarrow> Inr False)))"

definition recover_need :: "cosmos_conf \<Rightarrow> (string \<Rightarrow> bool) \<Rightarrow> string \<Rightarrow> jsval \<Rightarrow> string \<Rightarrow> delivery \<Rightarrow> jsval \<Rightarrow> need_doc update" where
  "recover_need c aborted i need provider delivery record now n =
     (if aborted now then Inl (Fault 409 ''recovered_result_aborted'')
      else rbind (bound_to_need (cc_platform c) need provider n) (\<lambda>bound.
        if \<not> bound then Inl (Fault 409 ''recovered_need_binding_mismatch'')
        else if nr_status n = NCompleted \<and> cn_recoveredUsage n \<noteq> None
        then rbind (recovered_same (cc_platform c) record n) (\<lambda>same. if same then Inr None else Inl (Fault 409 ''recovered_result_conflict''))
        else if nr_status n \<noteq> Matched then Inl (Fault 409 (closed_reason (nr_status n)))
        else if cn_recoveredUsage n \<noteq> None then Inl (Fault 409 ''recovered_result_conflict'')
        else rbind (appendDelivery c i (Some delivery) ''RESULT'' (nr_requester n) n) (\<lambda>n'.
          Inr (Some (n'\<lparr>cn_recoveredUsage := Some record, nr_status := NCompleted, nr_terminal_at := Some now\<rparr>)))))"

definition commitRecoveredResult :: "cosmos_conf \<Rightarrow> (string \<Rightarrow> bool) \<Rightarrow> jsval \<Rightarrow> string \<Rightarrow> delivery \<Rightarrow> string \<Rightarrow> (bool \<times> jsval \<times> bool) result prog" where
  "commitRecoveredResult c aborted need provider delivery receiptDigest =
     (let p = cc_platform c; i = str_of (get need ''id''); signed = oget (dl_event delivery) ''envelope''; payload = get signed ''payload'' in
      if \<not> recovered_request_ok p need provider delivery receiptDigest then throw 400 ''invalid_recovered_result''
      else and_then (cosmos_get c ''effect'' i) (\<lambda>found. case found of None \<Rightarrow> throw 409 ''effect_identity_conflict''
        | Some (row, _, _) \<Rightarrow> (case dc_body row of
            Effect_doc e \<Rightarrow>
              if \<not> recovered_effect_ok p need provider e then throw 409 ''effect_identity_conflict''
              else (case ce_receipt e of None \<Rightarrow> throw 409 ''effect_receipt_unverified''
                | Some r \<Rightarrow> (case recovered_receipt_ok p r (str_of (get payload ''output'')) receiptDigest of
                    Inl x \<Rightarrow> Done (Inl x) | Inr False \<Rightarrow> throw 409 ''effect_receipt_unverified''
                  | Inr True \<Rightarrow>
                    if get signed ''id'' \<noteq> JStr (''g5-recovered-'' @ sha256 p i) \<or> Some (get signed ''createdAt'') \<noteq> map_option JStr (ce_receiptCapturedAt e)
                    then throw 409 ''invalid_recovered_usage_metadata''
                    else (case same_canonical p (get payload ''metadata'') (recovered_metadata (get r ''usage'') receiptDigest) of
                        Inl x \<Rightarrow> Done (Inl x) | Inr False \<Rightarrow> throw 409 ''invalid_recovered_usage_metadata''
                      | Inr True \<Rightarrow> (case usage_record p need provider receiptDigest (get r ''usage'') (dl_event delivery) of Inl x \<Rightarrow> Done (Inl x)
                          | Inr record \<Rightarrow> and_then (cosmos_mutate c ''need'' i (on_need (recover_need c aborted i need provider delivery record))) (\<lambda>(changed, row').
                              case dc_body row' of
                                Need_doc n \<Rightarrow> (case recovered_same p record n of Inl x \<Rightarrow> Done (Inl x)
                                  | Inr same \<Rightarrow> if nr_status n \<noteq> NCompleted \<or> \<not> same then throw 503 ''recovered_result_commit_unverified''
                                      else Done (Inr (\<not> changed, (case cn_recoveredUsage n of Some u \<Rightarrow> u | None \<Rightarrow> JUndef), result_queued n)))
                              | _ \<Rightarrow> throw 503 ''recovered_result_commit_unverified'')))))
          | _ \<Rightarrow> throw 409 ''effect_identity_conflict'')))"

section \<open>What a recipient has not acknowledged\<close>

definition pending_of :: "string \<Rightarrow> string \<Rightarrow> need_doc \<Rightarrow> (string \<times> string \<times> string \<times> jsval) list" where
  "pending_of recipient i n = map (\<lambda>d. (cd_eventId d, cd_kind d, i, cd_event d))
     (filter (\<lambda>d. cd_recipient d = recipient \<and> cd_acknowledgedAt d = None \<and> (cd_kind d \<noteq> ''NEED'' \<or> nr_status n = Matched)) (cn_deliveries n))"

text \<open>A document that is none of the kind asked for is refused when it is reached; the batch may have been full before.\<close>

primrec pending_prefix :: "string \<Rightarrow> nat \<Rightarrow> (string \<times> string \<times> string \<times> jsval) list \<Rightarrow> cosmos_doc list \<Rightarrow> (string \<times> string \<times> string \<times> jsval) list result" where
  "pending_prefix recipient limit out [] = Inr out"
| "pending_prefix recipient limit out (d # ds) = (if length out \<ge> limit then Inr (take limit out) else case dc_body d of
     Need_doc n \<Rightarrow> pending_prefix recipient limit (out @ pending_of recipient (dc_logicalId d) n) ds
   | _ \<Rightarrow> Inl (Fault 503 ''lifecycle_outbox_query_invalid''))"

primrec pending_pages :: "cosmos_conf \<Rightarrow> string \<Rightarrow> nat \<Rightarrow> nat \<Rightarrow> (string \<times> string \<times> string \<times> jsval) list \<Rightarrow> string option \<Rightarrow> (string \<times> string \<times> string \<times> jsval) list result prog" where
  "pending_pages c recipient limit 0 out continuation = throw 503 ''lifecycle_outbox_scan_capacity_reached''"
| "pending_pages c recipient limit (Suc k) out continuation = and_then (cosmos_api c (Query ''deliveries'' recipient continuation)) (\<lambda>r. case rp_content r of
     Documents ds \<Rightarrow> if rp_status r \<noteq> 200 then throw 503 ''lifecycle_outbox_query_invalid''
       else (case pending_prefix recipient limit out ds of Inl e \<Rightarrow> Done (Inl e)
         | Inr out' \<Rightarrow> if length out' \<ge> limit then Done (Inr (take limit out'))
             else (case rp_continuation r of None \<Rightarrow> Done (Inr out') | Some t \<Rightarrow> if t = [] then Done (Inr out') else pending_pages c recipient limit k out' (Some t)))
   | _ \<Rightarrow> throw 503 ''lifecycle_outbox_query_invalid'')"

definition cosmos_pendingDeliveries :: "cosmos_conf \<Rightarrow> string \<Rightarrow> jsval \<Rightarrow> (string \<times> string \<times> string \<times> jsval) list result prog" where
  "cosmos_pendingDeliveries c recipient limit =
     (if \<not> nonempty_text recipient \<or> \<not> is_safe_integer limit \<or> num_of limit < 1 \<or> num_of limit > 100 then throw 400 ''invalid_delivery_query''
      else pending_pages c recipient (nat (int_of limit)) 50 [] None)"

text \<open>Taking back a frame another host may have handed out is refused.\<close>

definition cosmos_rollbackPartial :: "'a result prog" where
  "cosmos_rollbackPartial = throw 503 ''distributed_partial_rollback_not_safe''"

section \<open>The calls of a host\<close>

text \<open>One call of the ledger with its arguments; the clock text read before the first request is one of them.\<close>

datatype cosmos_op =
    Op_reserveNeed string need_reservation
  | Op_transitionNeed string string string "need_status option" "delivery option"
  | Op_acceptPartial string string jsval string "delivery option"
  | Op_acknowledge string string
  | Op_compactNeed string string
  | Op_reserveOffer string string string "jsval option"
  | Op_revokeOffer string string
  | Op_compactOffer string string
  | Op_restoreOffers string jsval
  | Op_beginEffect string string string string string
  | Op_finishEffect string string "effect_status option" jsval
  | Op_claimExecution "effect_doc \<Rightarrow> nat" binding string "string option"
  | Op_captureReceipt binding string jsval
  | Op_commitRecovered "string \<Rightarrow> bool" jsval string delivery string
  | Op_pendingDeliveries string jsval
  | Op_lookup string string
  | Op_verifyCapacity
  | Op_rollbackPartial

datatype cosmos_out =
    Out_doc cosmos_doc | Out_changed bool cosmos_doc | Out_flag bool | Out_effect bool "effect_doc option" | Out_claimed string
  | Out_recovered bool jsval bool | Out_offers "jsval list" | Out_pending "(string \<times> string \<times> string \<times> jsval) list" | Out_found "cosmos_doc option" | Out_capacity "nat option"

definition out_of :: "('a \<Rightarrow> cosmos_out) \<Rightarrow> 'a result prog \<Rightarrow> cosmos_out result prog" where
  "out_of f m = and_then m (\<lambda>x. Done (Inr (f x)))"

fun run_op :: "cosmos_conf \<Rightarrow> cosmos_op \<Rightarrow> cosmos_out result prog" where
  "run_op c (Op_reserveNeed now v) = out_of Out_doc (cosmos_reserveNeed c now v)"
| "run_op c (Op_transitionNeed i rq pr t d) = out_of (\<lambda>(ch, row). Out_changed ch row) (cosmos_transitionNeed c i rq pr t d)"
| "run_op c (Op_acceptPartial i pr sq dig d) = out_of Out_flag (cosmos_acceptPartial c i pr sq dig d)"
| "run_op c (Op_acknowledge ev r) = out_of Out_flag (cosmos_acknowledgeDelivery c ev r)"
| "run_op c (Op_compactNeed i rq) = out_of Out_flag (cosmos_compactNeed c i rq)"
| "run_op c (Op_reserveOffer i ow fp env) = out_of Out_doc (cosmos_reserveOffer c i ow fp env)"
| "run_op c (Op_revokeOffer i ow) = out_of (\<lambda>(ch, row). Out_changed ch row) (cosmos_revokeOffer c i ow)"
| "run_op c (Op_compactOffer i ow) = out_of Out_flag (cosmos_compactOffer c i ow)"
| "run_op c (Op_restoreOffers ow limit) = out_of Out_offers (cosmos_restoreOffers c ow limit)"
| "run_op c (Op_beginEffect now i rq pr fp) = out_of (\<lambda>(acquired, ex). Out_effect acquired ex) (cosmos_beginEffect c now i rq pr fp)"
| "run_op c (Op_finishEffect i pr oc tk) = out_of (\<lambda>(ch, row). Out_changed ch row) (cosmos_finishEffect c i pr oc tk)"
| "run_op c (Op_claimExecution room b token scope) = out_of Out_claimed (claimReceiptExecution c room b token scope)"
| "run_op c (Op_captureReceipt b token value) = out_of (\<lambda>(ch, row). Out_changed ch row) (captureEffectReceipt c b token value)"
| "run_op c (Op_commitRecovered ab nd pr dl dig) = out_of (\<lambda>(idem, u, queued). Out_recovered idem u queued) (commitRecoveredResult c ab nd pr dl dig)"
| "run_op c (Op_pendingDeliveries r limit) = out_of Out_pending (cosmos_pendingDeliveries c r limit)"
| "run_op c (Op_lookup kind i) = out_of (\<lambda>x. Out_found (map_option fst x)) (cosmos_get c kind i)"
| "run_op c Op_verifyCapacity = out_of Out_capacity (cosmos_verifyCapacityContract c)"
| "run_op c Op_rollbackPartial = cosmos_rollbackPartial"

end
