(* ===== verification/Cosmos_Runs.thy ===== *)
theory Cosmos_Runs
  imports Cosmos_Ledger
begin

text \<open>
  The shared ledger under any number of hosts. \<open>container_law\<close> is what the remote container documents:
  a conditional write succeeds only against the version it names, a creation only where there is no
  document, a read answers with some version the document has or had, and an answer may be lost. From it
  follows, over every interleaving of requests: the versions of a document keep the history contract of
  the SQLite ledger; a NEED is ended once, an effect is acquired once and its paid call claimed once, by
  one of all hosts; no more documents exist than the limit on records.
\<close>

section \<open>What the versions of a document keep\<close>

definition delivery_follows :: "cosmos_delivery \<Rightarrow> cosmos_delivery \<Rightarrow> bool" where
  "delivery_follows d d' \<longleftrightarrow> cd_eventId d' = cd_eventId d \<and> cd_recipient d' = cd_recipient d \<and> cd_kind d' = cd_kind d \<and>
     (cd_acknowledgedAt d \<noteq> None \<longrightarrow> cd_acknowledgedAt d' = cd_acknowledgedAt d) \<and>
     (cd_event d' = cd_event d \<or> cd_kind d = ''PARTIAL'' \<and> cd_acknowledgedAt d' \<noteq> None)"

definition deliveries_follow :: "cosmos_delivery list \<Rightarrow> cosmos_delivery list \<Rightarrow> bool" where
  "deliveries_follow ds ds' \<longleftrightarrow> list_all2 delivery_follows ds (take (length ds) ds')"

definition need_doc_follows :: "need_doc \<Rightarrow> need_doc \<Rightarrow> bool" where
  "need_doc_follows n n' \<longleftrightarrow> need_follows (need_row.truncate n) (need_row.truncate n') \<and> cn_scope n' = cn_scope n \<and> cn_policyDigest n' = cn_policyDigest n \<and>
     cn_paidAuthorization n' = cn_paidAuthorization n \<and> deliveries_follow (cn_deliveries n) (cn_deliveries n') \<and>
     nr_partial_sequence n \<le> nr_partial_sequence n' \<and> (cn_recoveredUsage n \<noteq> None \<longrightarrow> cn_recoveredUsage n' = cn_recoveredUsage n)"

definition offer_doc_follows :: "offer_doc \<Rightarrow> offer_doc \<Rightarrow> bool" where
  "offer_doc_follows d d' \<longleftrightarrow> offer_follows (offer_row.truncate d) (offer_row.truncate d') \<and> co_directory d' = co_directory d \<and> co_capability d' = co_capability d \<and>
     (co_offerJson d' = co_offerJson d \<or> of_revoked d' \<and> co_offerJson d' = None)"

definition effect_doc_follows :: "effect_doc \<Rightarrow> effect_doc \<Rightarrow> bool" where
  "effect_doc_follows d d' \<longleftrightarrow> effect_follows (effect_row.truncate d) (effect_row.truncate d') \<and>
     (ce_execution d \<noteq> None \<longrightarrow> ce_execution d' = ce_execution d) \<and> (ce_receipt d \<noteq> None \<longrightarrow> ce_receipt d' = ce_receipt d)"

fun body_follows :: "cosmos_body \<Rightarrow> cosmos_body \<Rightarrow> bool" where
  "body_follows (Need_doc n) (Need_doc n') = need_doc_follows n n'"
| "body_follows (Offer_doc d) (Offer_doc d') = offer_doc_follows d d'"
| "body_follows (Effect_doc d) (Effect_doc d') = effect_doc_follows d d'"
| "body_follows (Owner_doc d) (Owner_doc d') = (cw_owner d' = cw_owner d)"
| "body_follows (Capacity_doc d) (Capacity_doc d') = (cp_recordCapacity d' = cp_recordCapacity d \<and> cp_scopeDigest d' = cp_scopeDigest d \<and>
     set (cp_tickets d) \<subseteq> set (cp_tickets d') \<and> (length (cp_tickets d) \<le> cp_recordCapacity d \<longrightarrow> length (cp_tickets d') \<le> cp_recordCapacity d'))"
| "body_follows _ _ = False"

definition doc_follows :: "cosmos_doc \<Rightarrow> cosmos_doc \<Rightarrow> bool" where
  "doc_follows v w \<longleftrightarrow> dc_key w = dc_key v \<and> dc_logicalId w = dc_logicalId v \<and> dc_version v < dc_version w \<and> body_follows (dc_body v) (dc_body w)"

lemma delivery_follows_refl [simp]: "delivery_follows d d"
  by (simp add: delivery_follows_def)

lemma deliveries_follow_append [simp]: "deliveries_follow ds (ds @ xs)"
  by (simp add: deliveries_follow_def list_all2_refl)

lemma deliveries_follow_refl [simp]: "deliveries_follow ds ds"
  using deliveries_follow_append[of ds "[]"] by simp

lemma delivery_follows_trans: "delivery_follows a b \<Longrightarrow> delivery_follows b c \<Longrightarrow> delivery_follows a c"
  unfolding delivery_follows_def by metis

lemma deliveries_follow_trans:
  assumes "deliveries_follow a b" "deliveries_follow b c"
  shows "deliveries_follow a c"
proof -
  have len: "length a \<le> length b" using assms(1) by (auto simp: deliveries_follow_def dest!: list_all2_lengthD)
  have "list_all2 delivery_follows (take (length a) b) (take (length a) (take (length b) c))"
    using assms(2) unfolding deliveries_follow_def by (rule list_all2_takeI)
  then have "list_all2 delivery_follows (take (length a) b) (take (length a) c)" using len by (simp add: min_absorb1)
  with assms(1) show ?thesis unfolding deliveries_follow_def
    by - (rule list_all2_trans[where ?P1.0 = delivery_follows and ?P2.0 = delivery_follows, rotated], auto intro: delivery_follows_trans)
qed

lemma need_follows_trans: "need_follows a b \<Longrightarrow> need_follows b c \<Longrightarrow> need_follows a c"
  by (auto simp: need_follows_def)

lemma need_doc_follows_trans: "need_doc_follows a b \<Longrightarrow> need_doc_follows b c \<Longrightarrow> need_doc_follows a c"
  unfolding need_doc_follows_def by (auto intro: need_follows_trans deliveries_follow_trans)

lemma offer_doc_follows_trans: "offer_doc_follows a b \<Longrightarrow> offer_doc_follows b c \<Longrightarrow> offer_doc_follows a c"
  by (auto simp: offer_doc_follows_def offer_follows_def offer_row.truncate_def)

lemma effect_doc_follows_trans: "effect_doc_follows a b \<Longrightarrow> effect_doc_follows b c \<Longrightarrow> effect_doc_follows a c"
  unfolding effect_doc_follows_def effect_follows_def by auto

lemma body_follows_trans: "body_follows a b \<Longrightarrow> body_follows b c \<Longrightarrow> body_follows a c"
  by (cases a; cases b; cases c) (auto intro: need_doc_follows_trans offer_doc_follows_trans effect_doc_follows_trans)

lemma body_follows_kind: "body_follows a b \<Longrightarrow> doc_kind b = doc_kind a"
  by (cases a; cases b) auto

lemma transp_doc_follows: "transp doc_follows"
  by (rule transpI) (auto simp: doc_follows_def intro: body_follows_trans)

section \<open>Every update keeps them\<close>

definition keeps :: "doc_update \<Rightarrow> bool" where
  "keeps f \<longleftrightarrow> (\<forall>now v b. f now v = Inr (Some b) \<longrightarrow> body_follows (dc_body v) b)"

lemma rbind_InrE:
  assumes "rbind m f = Inr y"
  obtains x where "m = Inr x" "f x = Inr y"
  using assms by (auto simp: rbind_eq_Inr)

lemma rbind_Inr_Some: "rbind m (\<lambda>x. Inr (map_option F x)) = Inr (Some b) \<longleftrightarrow> (\<exists>y. m = Inr (Some y) \<and> b = F y)"
  by (auto simp: rbind_eq_Inr)

lemma keeps_on [intro]:
  "(\<And>now n n'. f now n = Inr (Some n') \<Longrightarrow> need_doc_follows n n') \<Longrightarrow> keeps (on_need f)"
  "(\<And>now d d'. g now d = Inr (Some d') \<Longrightarrow> offer_doc_follows d d') \<Longrightarrow> keeps (on_offer g)"
  "(\<And>now d d'. h now d = Inr (Some d') \<Longrightarrow> effect_doc_follows d d') \<Longrightarrow> keeps (on_effect h)"
  "(\<And>now d d'. k now d = Inr (Some d') \<Longrightarrow> cw_owner d' = cw_owner d) \<Longrightarrow> keeps (on_owner k)"
  by (auto simp: keeps_def on_need_def on_offer_def on_effect_def on_owner_def wrong_kind_def rbind_Inr_Some split: cosmos_body.splits)

lemma appendDelivery_follows:
  assumes "appendDelivery c i delivery kind recipient n = Inr n'"
  shows "need_row.truncate n' = need_row.truncate n \<and> cn_scope n' = cn_scope n \<and> cn_policyDigest n' = cn_policyDigest n \<and> cn_paidAuthorization n' = cn_paidAuthorization n \<and>
    cn_recoveredUsage n' = cn_recoveredUsage n \<and> deliveries_follow (cn_deliveries n) (cn_deliveries n')"
  using assms by (auto simp: appendDelivery_def need_row.truncate_def rbind_eq_Inr split: option.splits if_splits)

lemma truncate_sel: "need_row.truncate n' = need_row.truncate n \<Longrightarrow> nr_requester n' = nr_requester n \<and> nr_provider n' = nr_provider n \<and> nr_fingerprint n' = nr_fingerprint n \<and>
    nr_capability n' = nr_capability n \<and> nr_mode n' = nr_mode n \<and> nr_status n' = nr_status n \<and> nr_created_at n' = nr_created_at n \<and> nr_terminal_at n' = nr_terminal_at n \<and>
    nr_partial_sequence n' = nr_partial_sequence n \<and> nr_partial_digest n' = nr_partial_digest n"
  by (simp add: need_row.truncate_def)

text \<open>What a change that is neither an end nor a partial result leaves alone.\<close>

definition same_need :: "need_doc \<Rightarrow> need_doc \<Rightarrow> bool" where
  "same_need n n' \<longleftrightarrow> need_row.truncate n' = need_row.truncate n \<and> cn_scope n' = cn_scope n \<and> cn_policyDigest n' = cn_policyDigest n \<and>
     cn_paidAuthorization n' = cn_paidAuthorization n \<and> cn_recoveredUsage n' = cn_recoveredUsage n \<and> deliveries_follow (cn_deliveries n) (cn_deliveries n')"

lemma same_need_refl [simp]: "same_need n n"
  by (simp add: same_need_def)

lemma same_need_follows: "same_need n n' \<Longrightarrow> need_doc_follows n n'"
  by (auto simp: same_need_def need_doc_follows_def dest: truncate_sel)

lemma appendDelivery_same: "appendDelivery c i delivery kind recipient n = Inr n' \<Longrightarrow> same_need n n'"
  using appendDelivery_follows by (simp add: same_need_def)

lemma truncate_fields [simp]:
  "nr_requester (need_row.truncate n) = nr_requester n" "nr_provider (need_row.truncate n) = nr_provider n" "nr_fingerprint (need_row.truncate n) = nr_fingerprint n"
  "nr_capability (need_row.truncate n) = nr_capability n" "nr_mode (need_row.truncate n) = nr_mode n" "nr_status (need_row.truncate n) = nr_status n"
  "nr_created_at (need_row.truncate n) = nr_created_at n"
  by (simp_all add: need_row.truncate_def)

lemma same_need_end:
  assumes "same_need n m" "nr_status n = Matched"
  shows "need_doc_follows n (m\<lparr>nr_status := target, nr_terminal_at := t\<rparr>)"
proof -
  from assms(1) have "need_row.truncate m = need_row.truncate n" by (simp add: same_need_def)
  from truncate_sel[OF this] assms show ?thesis by (simp add: same_need_def need_doc_follows_def need_follows_def)
qed

lemma end_need_follows:
  assumes "end_need c i requester provider target delivery now n = Inr (Some n')"
  shows "nr_status n = Matched \<and> nr_status n' = target \<and> need_doc_follows n n'"
proof -
  let ?m = "if target = NCompleted then appendDelivery c i delivery ''RESULT'' (nr_requester n) n
      else if target = NCancelled then appendDelivery c i delivery ''REVOKE'' (nr_provider n) n else Inr n"
  have open_need: "nr_status n = Matched" using assms unfolding end_need_def rbind_eq_Inr by (simp split: if_splits)
  with assms have "rbind ?m (\<lambda>n'. Inr (Some (n'\<lparr>nr_status := target, nr_terminal_at := Some now\<rparr>))) = Inr (Some n')"
    unfolding end_need_def by (cases "authorize_need requester provider n") (simp_all split: if_splits)
  then obtain m where m: "?m = Inr m" "Inr (Some (m\<lparr>nr_status := target, nr_terminal_at := Some now\<rparr>)) = (Inr (Some n') :: need_doc option result)"
    by (rule rbind_InrE)
  from m(2) have "n' = m\<lparr>nr_status := target, nr_terminal_at := Some now\<rparr>" by (simp only: sum.inject option.inject)
  moreover from m(1) have "same_need n m" by (metis appendDelivery_same same_need_refl sum.inject(2))
  moreover note open_need
  ultimately show ?thesis using same_need_end by simp
qed


lemma take_partial_follows:
  assumes "take_partial c i provider sequence dig delivery now n = Inr (Some n')"
  shows "need_doc_follows n n'"
proof -
  have open_need: "nr_status n = Matched" using assms unfolding take_partial_def rbind_eq_Inr by (simp split: if_splits)
  have "\<exists>m. same_need n m \<and> n' = m\<lparr>nr_partial_sequence := nr_partial_sequence n + 1, nr_partial_digest := Some dig\<rparr>"
    using assms unfolding take_partial_def by (auto dest: appendDelivery_same elim!: rbind_InrE split: if_splits option.splits)
  then obtain m where m: "same_need n m" "n' = m\<lparr>nr_partial_sequence := nr_partial_sequence n + 1, nr_partial_digest := Some dig\<rparr>" by blast
  from m(1) have "need_row.truncate m = need_row.truncate n" by (simp add: same_need_def)
  from truncate_sel[OF this] m open_need show ?thesis by (simp add: same_need_def need_doc_follows_def need_follows_def)
qed

lemma ack_first_follows:
  assumes "find (\<lambda>x. cd_eventId x = i) ds = Some e" "cd_acknowledgedAt e = None"
  shows "list_all2 delivery_follows ds (ack_first now i ds)"
  using assms by (induction ds) (auto simp: delivery_follows_def list_all2_refl)

lemma list_all2_deliveries: "list_all2 delivery_follows ds ds' \<Longrightarrow> deliveries_follow ds ds'"
  by (simp add: deliveries_follow_def list_all2_lengthD)

lemma mark_acknowledged_same:
  assumes "mark_acknowledged i r now n = Inr (Some n')"
  shows "same_need n n'"
proof -
  obtain e where "find (\<lambda>x. cd_eventId x = i) (cn_deliveries n) = Some e" "cd_acknowledgedAt e = None" "n' = n\<lparr>cn_deliveries := ack_first now i (cn_deliveries n)\<rparr>"
    using assms by (auto simp: mark_acknowledged_def split: option.splits if_splits)
  then show ?thesis using ack_first_follows list_all2_deliveries by (simp add: same_need_def need_row.truncate_def)
qed

lemma compact_deliveries_follows: "compact_deliveries p now ds = Inr (ch, ds') \<Longrightarrow> list_all2 delivery_follows ds ds'"
proof (induction ds arbitrary: ch ds')
  case (Cons e es)
  from Cons.prems obtain x e' y es' where "compact_delivery p now e = Inr (x, e')" "compact_deliveries p now es = Inr (y, es')" "ds' = e' # es'"
    by (auto elim!: rbind_InrE)
  moreover from this(1) have "delivery_follows e e'"
    by (auto simp: compact_delivery_def delivery_follows_def split: option.splits if_splits)
  ultimately show ?case using Cons.IH by simp
qed simp

lemma compact_need_same: "compact_need p requester now n = Inr (Some n') \<Longrightarrow> same_need n n'"
  by (auto simp: compact_need_def rbind_eq_Inr same_need_def need_row.truncate_def list_all2_deliveries dest!: compact_deliveries_follows split: if_splits)

lemma recover_need_follows:
  assumes "recover_need c aborted i need provider delivery record now n = Inr (Some n')"
  shows "nr_status n = Matched \<and> nr_status n' = NCompleted \<and> need_doc_follows n n'"
proof -
  obtain bound where b: "bound_to_need (cc_platform c) need provider n = Inr bound"
    using assms unfolding recover_need_def by (simp split: if_splits) (auto elim: rbind_InrE)
  have st: "nr_status n = Matched" "cn_recoveredUsage n = None"
    using assms unfolding recover_need_def b by (auto simp: rbind_eq_Inr split: if_splits)
  have "\<exists>m. same_need n m \<and> n' = m\<lparr>cn_recoveredUsage := Some record, nr_status := NCompleted, nr_terminal_at := Some now\<rparr>"
    using assms st unfolding recover_need_def b by (auto simp: rbind_eq_Inr dest: appendDelivery_same split: if_splits)
  then obtain m where m: "same_need n m" "n' = m\<lparr>cn_recoveredUsage := Some record, nr_status := NCompleted, nr_terminal_at := Some now\<rparr>" by blast
  from m(1) have "need_row.truncate m = need_row.truncate n" by (simp add: same_need_def)
  from truncate_sel[OF this] m st show ?thesis by (simp add: same_need_def need_doc_follows_def need_follows_def)
qed

lemma claim_execution_follows:
  "claim_execution room token scope now d = Inr (Some d') \<Longrightarrow> ce_execution d = None \<and> ce_execution d' \<noteq> None \<and> effect_doc_follows d d'"
  by (cases "ce_execution d") (auto simp: claim_execution_def effect_doc_follows_def effect_follows_def effect_row.truncate_def split: if_splits)

lemma capture_receipt_follows: "capture_receipt token r now d = Inr (Some d') \<Longrightarrow> effect_doc_follows d d'"
  by (auto simp: capture_receipt_def effect_doc_follows_def effect_follows_def effect_row.truncate_def elim!: rbind_InrE split: if_splits option.splits)

lemma end_effect_follows: "end_effect provider outcome tokens now d = Inr (Some d') \<Longrightarrow> effect_doc_follows d d'"
  by (auto simp: end_effect_def effect_doc_follows_def effect_follows_def effect_row.truncate_def split: if_splits)

lemma offer_updates_follow:
  "mark_offer_revoked owner now d = Inr (Some d') \<Longrightarrow> offer_doc_follows d d'"
  "compact_offer p i owner now d = Inr (Some d') \<Longrightarrow> offer_doc_follows d d'"
  "fence_offer p i owner now d = Inr (Some d') \<Longrightarrow> offer_doc_follows d d'"
  by (auto simp: mark_offer_revoked_def compact_offer_def fence_offer_def offer_doc_follows_def offer_follows_def offer_row.truncate_def elim!: rbind_InrE split: if_splits)

lemma owner_updates_follow:
  "claim_slot i owner fp now d = Inr (Some d') \<Longrightarrow> cw_owner d' = cw_owner d"
  "release_slot i owner fp now d = Inr (Some d') \<Longrightarrow> cw_owner d' = cw_owner d"
  by (auto simp: claim_slot_def release_slot_def split: if_splits option.splits)

lemma validateCapacity_Inr: "validateCapacity c limit row = Inr d \<Longrightarrow> dc_body row = Capacity_doc d \<and> capacity_valid c limit d"
  by (auto simp: validateCapacity_def split: cosmos_body.splits if_splits)

lemma keeps_capacity [intro]: "keeps (take_ticket c limit t)"
  unfolding keeps_def
proof (intro allI impI)
  fix now v b assume "take_ticket c limit t now v = Inr (Some b)"
  then obtain d where d: "validateCapacity c limit v = Inr d" "cp_reserved d < limit"
    "b = Capacity_doc (d\<lparr>cp_tickets := cp_tickets d @ [t], cp_reserved := length (cp_tickets d) + 1\<rparr>)"
    unfolding take_ticket_def by (auto elim!: rbind_InrE split: if_splits)
  then show "body_follows (dc_body v) b" using validateCapacity_Inr[OF d(1)] by (auto simp: capacity_valid_def)
qed

lemma keeps_updates [intro]:
  "keeps (on_need (end_need c i rq pr t d))" "keeps (on_need (take_partial c i pr sq dig d))" "keeps (on_need (mark_acknowledged ev r))"
  "keeps (on_need (compact_need p rq))" "keeps (on_need (recover_need c ab i nd pr dl rec))"
  "keeps (on_offer (mark_offer_revoked ow))" "keeps (on_offer (compact_offer p i ow))" "keeps (on_offer (fence_offer p i ow))"
  "keeps (on_owner (claim_slot i ow fp))" "keeps (on_owner (release_slot i ow fp))" "keeps (on_effect (end_effect pr oc tk))"
  by (blast intro: keeps_on end_need_follows[THEN conjunct2, THEN conjunct2] take_partial_follows same_need_follows mark_acknowledged_same compact_need_same
      recover_need_follows[THEN conjunct2, THEN conjunct2] offer_updates_follow owner_updates_follow end_effect_follows)+

section \<open>What a host knows, and what it may send\<close>

text \<open>
  From its answers a host learns that a document had a version under an etag, that its own write replaced
  the version of an etag, or that its own creation succeeded.
\<close>

datatype fact = Saw string string cosmos_doc | Wrote string string cosmos_doc | Created string cosmos_doc

text \<open>The reply to a write that succeeded has no other document than the one sent.\<close>

fun sane :: "request_msg \<Rightarrow> answer \<Rightarrow> bool" where
  "sane (Create_doc d) (Reply r) = (rp_status r \<in> {200, 201} \<longrightarrow> written d r = d)"
| "sane (Replace k d e) (Reply r) = (rp_status r = 200 \<longrightarrow> written d r = d)"
| "sane _ _ = True"

fun learn :: "fact set \<Rightarrow> request_msg \<Rightarrow> answer \<Rightarrow> fact set" where
  "learn K (Read k) (Reply r) = (case (rp_content r, rp_etag r) of
     (Document d, Some e) \<Rightarrow> if rp_status r = 200 then insert (Saw k e d) K else K | _ \<Rightarrow> K)"
| "learn K (Create_doc d) (Reply r) = (if rp_status r \<in> {200, 201} then insert (Created (dc_key d) d) K else K)"
| "learn K (Replace k d e) (Reply r) = (if rp_status r = 200 then insert (Wrote k e d) K else K)"
| "learn K _ _ = K"

fun initial_body :: "cosmos_body \<Rightarrow> bool" where
  "initial_body (Need_doc n) = (nr_status n = Matched)"
| "initial_body (Offer_doc d) = (\<not> of_revoked d)"
| "initial_body (Effect_doc d) = (ef_status d = EStarted \<and> ce_execution d = None \<and> ce_receipt d = None)"
| "initial_body (Owner_doc d) = True"
| "initial_body (Capacity_doc d) = False"

text \<open>With a limit on records the ticket of a new document was seen, or put, in the register.\<close>

definition has_ticket :: "cosmos_conf \<Rightarrow> fact set \<Rightarrow> string \<Rightarrow> bool" where
  "has_ticket c K k \<longleftrightarrow> cc_recordCapacity c = None \<or>
     (\<exists>e d x. (Saw (capacityKey (cc_platform c)) e d \<in> K \<or> Wrote (capacityKey (cc_platform c)) e d \<in> K) \<and> dc_body d = Capacity_doc x \<and> k \<in> set (cp_tickets x))"

fun may_send :: "cosmos_conf \<Rightarrow> fact set \<Rightarrow> request_msg \<Rightarrow> bool" where
  "may_send c K (Create_doc d) \<longleftrightarrow> dc_version d = 1 \<and> initial_body (dc_body d) \<and> has_ticket c K (dc_key d)"
| "may_send c K (Replace k d e) \<longleftrightarrow> (\<exists>v. Saw k e v \<in> K \<and> doc_follows v d)"
| "may_send c K _ = True"

primrec upholds :: "cosmos_conf \<Rightarrow> (fact set \<Rightarrow> 'a \<Rightarrow> bool) \<Rightarrow> fact set \<Rightarrow> 'a prog \<Rightarrow> bool" where
  "upholds c Q K (Done x) = Q K x"
| "upholds c Q K (Send q k) = (may_send c K q \<and> (\<forall>a. sane q a \<longrightarrow> upholds c Q (learn K q a) (k a)))"

lemma learn_mono: "K \<subseteq> learn K q a"
  by (cases "(K, q, a)" rule: learn.cases) (auto split: content.splits option.splits)

lemma upholds_weaken: "upholds c P K m \<Longrightarrow> (\<And>K' x. K \<subseteq> K' \<Longrightarrow> P K' x \<Longrightarrow> Q K' x) \<Longrightarrow> upholds c Q K m"
proof (induction m arbitrary: K)
  case (Send q k)
  from Send.prems(1) have may: "may_send c K q" and P: "sane q a \<Longrightarrow> upholds c P (learn K q a) (k a)" for a by auto
  have "upholds c Q (learn K q a) (k a)" if "sane q a" for a
  proof (rule Send.IH[OF rangeI P[OF that]])
    fix K' x assume "learn K q a \<subseteq> K'" "P K' x"
    then show "Q K' x" using Send.prems(2)[of K' x] learn_mono[of K q a] by simp
  qed
  then show ?case using may by simp
qed simp

lemma upholds_bind: "upholds c P K m \<Longrightarrow> (\<And>K' x. K \<subseteq> K' \<Longrightarrow> P K' x \<Longrightarrow> upholds c Q K' (f x)) \<Longrightarrow> upholds c Q K (bind_prog m f)"
proof (induction m arbitrary: K)
  case (Send q k)
  from Send.prems(1) have may: "may_send c K q" and P: "sane q a \<Longrightarrow> upholds c P (learn K q a) (k a)" for a by auto
  have "upholds c Q (learn K q a) (bind_prog (k a) f)" if "sane q a" for a
  proof (rule Send.IH[OF rangeI P[OF that]])
    fix K' x assume "learn K q a \<subseteq> K'" "P K' x"
    then show "upholds c Q K' (f x)" using Send.prems(2)[of K' x] learn_mono[of K q a] by simp
  qed
  then show ?case using may by simp
qed simp

definition on_ok :: "(fact set \<Rightarrow> 'a \<Rightarrow> bool) \<Rightarrow> fact set \<Rightarrow> 'a result \<Rightarrow> bool" where
  "on_ok P K r \<longleftrightarrow> (case r of Inl e \<Rightarrow> True | Inr x \<Rightarrow> P K x)"

lemma on_ok_simps [simp]: "on_ok P K (Inl e)" "on_ok P K (Inr x) = P K x"
  by (simp_all add: on_ok_def)

lemma upholds_then:
  assumes "upholds c (on_ok P) K m" "\<And>K' x. K \<subseteq> K' \<Longrightarrow> P K' x \<Longrightarrow> upholds c (on_ok Q) K' (f x)"
  shows "upholds c (on_ok Q) K (and_then m f)"
  unfolding and_then_def
proof (rule upholds_bind[OF assms(1)])
  fix K' r assume "K \<subseteq> K'" "on_ok P K' r"
  then show "upholds c (on_ok Q) K' (case r of Inl e \<Rightarrow> Done (Inl e) | Inr x \<Rightarrow> f x)" using assms(2) by (cases r) auto
qed

lemma upholds_on_error:
  assumes "upholds c (on_ok Q) K m" "\<And>K' e. K \<subseteq> K' \<Longrightarrow> upholds c (on_ok Q) K' (f e)"
  shows "upholds c (on_ok Q) K (on_error m f)"
  unfolding on_error_def
proof (rule upholds_bind[OF assms(1)])
  fix K' r assume "K \<subseteq> K'" "on_ok Q K' r"
  then show "upholds c (on_ok Q) K' (case r of Inl e \<Rightarrow> f e | Inr x \<Rightarrow> Done (Inr x))" using assms(2) by (cases r) auto
qed

section \<open>Every program only sends what it may\<close>

lemma upholds_if: "(b \<Longrightarrow> upholds c Q K x) \<Longrightarrow> (\<not> b \<Longrightarrow> upholds c Q K y) \<Longrightarrow> upholds c Q K (if b then x else y)"
  by simp

lemma upholds_then_True: "upholds c (on_ok P) K m \<Longrightarrow> (\<And>K' x. K \<subseteq> K' \<Longrightarrow> P K' x \<Longrightarrow> upholds c (on_ok (\<lambda>_ _. True)) K' (f x)) \<Longrightarrow> upholds c (on_ok (\<lambda>_ _. True)) K (and_then m f)"
  by (rule upholds_then)

lemma upholds_api:
  assumes "may_send c K q"
  shows "upholds c (on_ok (\<lambda>K' r. \<exists>a. a = Reply r \<and> sane q a \<and> K' = learn K q a)) K (cosmos_api c q)"
proof -
  have "on_ok (\<lambda>K' r. \<exists>a. a = Reply r \<and> sane q a \<and> K' = learn K q a) (learn K q a) (read_answer a)" if "sane q a" for a
    using that by (cases a) (auto simp: on_ok_def)
  then show ?thesis using assms by (auto simp: cosmos_api_def)
qed

lemma upholds_get:
  "upholds c (on_ok (\<lambda>K r. case r of None \<Rightarrow> True | Some (d, e, now) \<Rightarrow> Saw (partitionId (cc_platform c) kind i) e d \<in> K \<and> doc_kind (dc_body d) = kind \<and> dc_logicalId d = i)) K (cosmos_get c kind i)"
proof -
  let ?k = "partitionId (cc_platform c) kind i"
  have api: "upholds c (on_ok (\<lambda>K' r. \<exists>a. a = Reply r \<and> sane (Read ?k) a \<and> K' = learn K (Read ?k) a)) K (cosmos_api c (Read ?k))"
    by (rule upholds_api) simp
  show ?thesis unfolding cosmos_get_def
  proof (rule upholds_if, simp)
    let ?body = "\<lambda>r. if rp_status r = 404 then Done (Inr None) else (case (rp_content r, rp_etag r) of
            (Document d, Some e) \<Rightarrow> if rp_status r \<noteq> 200 \<or> doc_kind (dc_body d) \<noteq> kind \<or> dc_logicalId d \<noteq> i \<or> e = []
               then throw 503 ''lifecycle_ledger_invalid_response'' else Done (Inr (Some (d, e, rp_now r)))
          | _ \<Rightarrow> throw 503 ''lifecycle_ledger_invalid_response'')"
    show "upholds c (on_ok (\<lambda>K r. case r of None \<Rightarrow> True | Some (d, e, now) \<Rightarrow> Saw ?k e d \<in> K \<and> doc_kind (dc_body d) = kind \<and> dc_logicalId d = i)) K (and_then (cosmos_api c (Read ?k)) ?body)"
      by (rule upholds_then[OF api]) (auto split: content.splits option.splits)
  qed
qed

definition mutated :: "string \<Rightarrow> doc_update \<Rightarrow> fact set \<Rightarrow> bool \<times> cosmos_doc \<Rightarrow> bool" where
  "mutated key f K y \<longleftrightarrow> (case y of (ch, row) \<Rightarrow>
     if ch then \<exists>e v now b. Saw key e v \<in> K \<and> f now v = Inr (Some b) \<and> row = v\<lparr>dc_version := dc_version v + 1, dc_body := b\<rparr> \<and> Wrote key e row \<in> K
     else \<exists>e now. Saw key e row \<in> K \<and> f now row = Inr None)"

lemma mutated_simps [simp]:
  "mutated key f K (True, row) \<longleftrightarrow> (\<exists>e v now b. Saw key e v \<in> K \<and> f now v = Inr (Some b) \<and>
     row = v\<lparr>dc_version := dc_version v + 1, dc_body := b\<rparr> \<and> Wrote key e row \<in> K)"
  "mutated key f K (False, row) \<longleftrightarrow> (\<exists>e now. Saw key e row \<in> K \<and> f now row = Inr None)"
  by (simp_all add: mutated_def)

lemma keeps_doc: "keeps f \<Longrightarrow> f now v = Inr (Some b) \<Longrightarrow> doc_follows v (v\<lparr>dc_version := dc_version v + 1, dc_body := b\<rparr>)"
  by (auto simp: keeps_def doc_follows_def)

lemma upholds_loop:
  assumes "keeps f"
  shows "upholds c (on_ok (mutated (partitionId (cc_platform c) kind i) f)) K (mutate_loop c kind i f n)"
proof (induction n arbitrary: K)
  case (Suc n)
  let ?k = "partitionId (cc_platform c) kind i"
  show ?case unfolding mutate_loop.simps
  proof (rule upholds_then[OF upholds_get])
    fix K' and x :: "(cosmos_doc \<times> string \<times> string) option"
    assume x: "case x of None \<Rightarrow> True | Some (d, e, now) \<Rightarrow> Saw ?k e d \<in> K' \<and> doc_kind (dc_body d) = kind \<and> dc_logicalId d = i"
    show "upholds c (on_ok (mutated ?k f)) K' (case x of None \<Rightarrow> throw 404 ''lifecycle_not_found'' | Some (d, etag, now) \<Rightarrow> (case f now d of
         Inl e \<Rightarrow> Done (Inl e) | Inr None \<Rightarrow> Done (Inr (False, d))
       | Inr (Some b) \<Rightarrow> (let new = d\<lparr>dc_version := dc_version d + 1, dc_body := b\<rparr> in case packed c new of Inl e \<Rightarrow> Done (Inl e)
         | Inr _ \<Rightarrow> and_then (cosmos_api c (Replace ?k new etag)) (\<lambda>r. if rp_status r = 412 then mutate_loop c kind i f n
             else if rp_status r \<noteq> 200 then Done (Inl unavailable) else Done (Inr (True, written new r))))))"
    proof (cases "\<exists>d e now b. x = Some (d, e, now) \<and> f now d = Inr (Some b)")
      case False
      then show ?thesis using x by (auto split: option.splits sum.splits)
    next
      case True
      then obtain d e now b where d: "x = Some (d, e, now)" "f now d = Inr (Some b)" by blast
      let ?new = "d\<lparr>dc_version := dc_version d + 1, dc_body := b\<rparr>"
      have saw: "Saw ?k e d \<in> K'" using x d by simp
      have may: "may_send c K' (Replace ?k ?new e)" using saw keeps_doc[of f, OF assms d(2)] by auto
      have "upholds c (on_ok (mutated ?k f)) K' (and_then (cosmos_api c (Replace ?k ?new e)) (\<lambda>r. if rp_status r = 412 then mutate_loop c kind i f n
             else if rp_status r \<noteq> 200 then Done (Inl unavailable) else Done (Inr (True, written ?new r))))"
      proof (rule upholds_then[OF upholds_api[OF may]])
        fix K'' r assume "\<exists>a. a = Reply r \<and> sane (Replace ?k ?new e) a \<and> K'' = learn K' (Replace ?k ?new e) a"
        then have r: "rp_status r = 200 \<longrightarrow> written ?new r = ?new" "K'' = learn K' (Replace ?k ?new e) (Reply r)" by auto
        have "mutated ?k f K'' (True, written ?new r)" if "rp_status r = 200"
          using that r saw d(2) by auto
        then show "upholds c (on_ok (mutated ?k f)) K'' (if rp_status r = 412 then mutate_loop c kind i f n
             else if rp_status r \<noteq> 200 then Done (Inl unavailable) else Done (Inr (True, written ?new r)))" using Suc.IH by simp
      qed
      then show ?thesis using d by (auto simp: Let_def split: sum.splits)
    qed
  qed
qed simp

lemma upholds_mutate: "keeps f \<Longrightarrow> upholds c (on_ok (mutated (partitionId (cc_platform c) kind i) f)) K (cosmos_mutate c kind i f)"
  unfolding cosmos_mutate_def by (rule upholds_loop)

lemma upholds_mutate_True [intro]: "keeps f \<Longrightarrow> upholds c (on_ok (\<lambda>_ _. True)) K (cosmos_mutate c kind i f)"
  by (rule upholds_weaken[OF upholds_mutate]) (auto simp: on_ok_def split: sum.splits)

lemma upholds_reserve: "upholds c (on_ok (\<lambda>K _. has_ticket c K (partitionId (cc_platform c) kind i))) K (reserveCreationCapacity c kind i)"
proof (cases "cc_recordCapacity c")
  case None
  then show ?thesis by (simp add: reserveCreationCapacity_def has_ticket_def)
next
  case (Some limit)
  let ?t = "partitionId (cc_platform c) kind i" let ?f = "take_ticket c limit ?t"
  have m: "upholds c (on_ok (mutated (capacityKey (cc_platform c)) ?f)) K' (cosmos_mutate c ''capacity'' CAPACITY_ID ?f)" for K'
    unfolding capacityKey_def by (rule upholds_mutate) blast
  show ?thesis unfolding reserveCreationCapacity_def Some option.case Let_def
  proof (rule upholds_then[OF upholds_on_error[OF m]])
    fix K' e
    show "upholds c (on_ok (mutated (capacityKey (cc_platform c)) ?f)) K' (case e of Fault s code \<Rightarrow> if s = 404 then throw 503 ''lifecycle_capacity_not_initialized'' else Done (Inl e) | _ \<Rightarrow> Done (Inl e))"
      by (cases e) auto
  next
    fix K' x assume x: "mutated (capacityKey (cc_platform c)) ?f K' x"
    obtain ch row where y: "x = (ch, row)" by (cases x)
    have "\<exists>e. Saw (capacityKey (cc_platform c)) e row \<in> K' \<or> Wrote (capacityKey (cc_platform c)) e row \<in> K'" using x unfolding y by (cases ch) auto
    then have "has_ticket c K' ?t" if "validateCapacity c limit row = Inr s" "?t \<in> set (cp_tickets s)" for s
      using that(2) validateCapacity_Inr[OF that(1)] by (auto simp: has_ticket_def)
    then show "upholds c (on_ok (\<lambda>K _. has_ticket c K ?t)) K' (case x of (changed, row) \<Rightarrow> case validateCapacity c limit row of
               Inl e \<Rightarrow> Done (Inl e)
             | Inr saved \<Rightarrow> if ?t \<notin> set (cp_tickets saved) then throw 503 ''lifecycle_capacity_commit_unverified'' else Done (Inr ()))"
      unfolding y by (simp split: sum.splits)
  qed
qed

lemma upholds_create:
  assumes "initial_body b"
  shows "upholds c (on_ok (\<lambda>K row. dc_body row = b \<and> Created (partitionId (cc_platform c) (doc_kind b) i) row \<in> K)) K (cosmos_create c i b)"
proof -
  let ?d = "\<lparr>dc_key = partitionId (cc_platform c) (doc_kind b) i, dc_logicalId = i, dc_version = 1, dc_body = b\<rparr>"
  let ?Q = "on_ok (\<lambda>K row. dc_body row = b \<and> Created (partitionId (cc_platform c) (doc_kind b) i) row \<in> K)"
  have "upholds c ?Q K (and_then (reserveCreationCapacity c (doc_kind b) i) (\<lambda>_. and_then (cosmos_api c (Create_doc ?d)) (\<lambda>r.
      if rp_status r = 409 then throw 409 (if doc_kind b = ''need'' then ''duplicate_request'' else if doc_kind b = ''offer'' then ''duplicate_offer'' else ''duplicate_effect'')
      else if rp_status r \<noteq> 201 \<and> rp_status r \<noteq> 200 then Done (Inl unavailable) else Done (Inr (written ?d r)))))"
  proof (rule upholds_then[OF upholds_reserve])
    fix K' assume "has_ticket c K' (partitionId (cc_platform c) (doc_kind b) i)"
    then have may: "may_send c K' (Create_doc ?d)" using assms by simp
    show "upholds c ?Q K' (and_then (cosmos_api c (Create_doc ?d)) (\<lambda>r.
      if rp_status r = 409 then throw 409 (if doc_kind b = ''need'' then ''duplicate_request'' else if doc_kind b = ''offer'' then ''duplicate_offer'' else ''duplicate_effect'')
      else if rp_status r \<noteq> 201 \<and> rp_status r \<noteq> 200 then Done (Inl unavailable) else Done (Inr (written ?d r))))"
      by (rule upholds_then[OF upholds_api[OF may]]) auto
  qed
  then show ?thesis unfolding cosmos_create_def Let_def by (cases "packed c ?d") (simp_all only: sum.case upholds.simps on_ok_simps)
qed

lemma upholds_out: "upholds c (on_ok P) K m \<Longrightarrow> (\<And>K' x. P K' x \<Longrightarrow> Q K' (f x)) \<Longrightarrow> upholds c (on_ok Q) K (out_of f m)"
  unfolding out_of_def by (rule upholds_then[where P = P]) simp_all

lemma upholds_True: "upholds c (on_ok Q) K m \<Longrightarrow> upholds c (on_ok (\<lambda>_ _. True)) K m"
  by (rule upholds_weaken) (auto simp: on_ok_def split: sum.splits)

lemma upholds_error_or: "upholds c (on_ok Q) K (case r of Inl e \<Rightarrow> Done (Inl e) | Inr x \<Rightarrow> f x)" if "\<And>x. r = Inr x \<Longrightarrow> upholds c (on_ok Q) K (f x)"
  using that by (cases r) auto

text \<open>The fact behind a decisive answer: the host itself replaced a version of which \<open>A\<close> holds by one of which \<open>B\<close> holds.\<close>

definition flips :: "string \<Rightarrow> (cosmos_doc \<Rightarrow> bool) \<Rightarrow> (cosmos_doc \<Rightarrow> bool) \<Rightarrow> fact set \<Rightarrow> bool" where
  "flips k A B K \<longleftrightarrow> (\<exists>e v w. Saw k e v \<in> K \<and> Wrote k e w \<in> K \<and> A v \<and> B w)"

definition need_open :: "cosmos_doc \<Rightarrow> bool" where
  "need_open d \<longleftrightarrow> (\<exists>n. dc_body d = Need_doc n \<and> nr_status n = Matched)"

definition need_closed :: "cosmos_doc \<Rightarrow> bool" where
  "need_closed d \<longleftrightarrow> (\<exists>n. dc_body d = Need_doc n \<and> nr_status n \<noteq> Matched)"

definition unclaimed :: "cosmos_doc \<Rightarrow> bool" where
  "unclaimed d \<longleftrightarrow> (\<exists>x. dc_body d = Effect_doc x \<and> ce_execution x = None)"

definition claimed :: "cosmos_doc \<Rightarrow> bool" where
  "claimed d \<longleftrightarrow> (\<exists>x. dc_body d = Effect_doc x \<and> ce_execution x \<noteq> None)"

lemma flips_mutated:
  assumes "mutated k f K (True, row)" "\<And>v now b. f now v = Inr (Some b) \<Longrightarrow> A v \<and> B (v\<lparr>dc_version := dc_version v + 1, dc_body := b\<rparr>)"
  shows "flips k A B K"
proof -
  from assms(1) obtain e v now b where "Saw k e v \<in> K" "f now v = Inr (Some b)" "row = v\<lparr>dc_version := dc_version v + 1, dc_body := b\<rparr>" "Wrote k e row \<in> K" by auto
  with assms(2)[OF this(2)] show ?thesis unfolding flips_def by blast
qed

lemma on_need_flips:
  assumes "on_need f now v = Inr (Some b)" "\<And>n n'. f now n = Inr (Some n') \<Longrightarrow> nr_status n = Matched \<and> nr_status n' \<noteq> Matched"
  shows "need_open v \<and> need_closed (v\<lparr>dc_version := x, dc_body := b\<rparr>)"
  using assms by (auto simp: on_need_def wrong_kind_def rbind_Inr_Some need_open_def need_closed_def split: cosmos_body.splits)

lemma upholds_transition:
  "upholds c (on_ok (\<lambda>K (ch, row). ch \<longrightarrow> flips (partitionId (cc_platform c) ''need'' i) need_open need_closed K)) K (cosmos_transitionNeed c i rq pr target d)"
proof (cases "\<exists>t. target = Some t \<and> t \<noteq> Matched")
  case False
  then show ?thesis by (auto simp: cosmos_transitionNeed_def split: option.splits)
next
  case True
  then obtain t where t: "target = Some t" "t \<noteq> Matched" by blast
  let ?f = "on_need (end_need c i rq pr t d)" let ?k = "partitionId (cc_platform c) ''need'' i"
  have "upholds c (on_ok (\<lambda>K (ch, row). ch \<longrightarrow> flips ?k need_open need_closed K)) K (cosmos_mutate c ''need'' i ?f)"
  proof (rule upholds_weaken[OF upholds_mutate[of ?f c "''need''" i K]], blast)
    fix K' r assume m: "on_ok (mutated ?k ?f) K' r"
    have "flips ?k need_open need_closed K'" if "r = Inr (True, row)" for row
      by (rule flips_mutated[of ?k ?f K' row]) (use m that on_need_flips end_need_follows t(2) in \<open>auto simp del: mutated_simps\<close>)
    then show "on_ok (\<lambda>K (ch, row). ch \<longrightarrow> flips ?k need_open need_closed K) K' r"
      by (auto simp: on_ok_def split: sum.splits)
  qed
  then show ?thesis using t by (simp add: cosmos_transitionNeed_def)
qed

lemma upholds_receipt_loop:
  assumes f: "\<And>now d d'. f now d = Inr (Some d') \<Longrightarrow> effect_doc_follows d d'"
  shows "upholds c (on_ok (mutated (partitionId (cc_platform c) ''effect'' (bd_id b)) (on_effect f))) K (receipt_loop c b f n)"
proof (induction n arbitrary: K)
  case (Suc n)
  let ?k = "partitionId (cc_platform c) ''effect'' (bd_id b)" let ?Q = "on_ok (mutated ?k (on_effect f))"
  show ?case unfolding receipt_loop.simps
  proof (rule upholds_then[OF upholds_get], goal_cases)
    case (1 K' o')
    show ?case
    proof (cases "\<exists>d e now x y. o' = Some (d, e, now) \<and> dc_body d = Effect_doc x \<and> dc_key d = ?k \<and> f now x = Inr (Some y)")
      case False
      have "?Q K' (Inr (False, d))" if "o' = Some (d, e, now)" "dc_body d = Effect_doc x" "f now x = Inr None" for d e now x
        using that 1 by (auto simp: on_effect_def intro: exI[of _ now])
      with False show ?thesis by (auto split: option.splits sum.splits cosmos_body.splits)
    next
      case True
      then obtain d e now x y where d: "o' = Some (d, e, now)" "dc_body d = Effect_doc x" "dc_key d = ?k" "f now x = Inr (Some y)" by blast
      let ?new = "d\<lparr>dc_version := dc_version d + 1, dc_body := Effect_doc y\<rparr>"
      have saw: "Saw ?k e d \<in> K'" using 1 d by simp
      have may: "may_send c K' (Replace ?k ?new e)" using saw d f[OF d(4)] by (auto simp: doc_follows_def intro!: exI[of _ d])
      have won: "mutated ?k (on_effect f) (learn K' (Replace ?k ?new e) (Reply r)) (True, ?new)" if "rp_status r = 200" for r
        unfolding mutated_simps using saw d that by (intro exI[of _ e] exI[of _ d] exI[of _ now] exI[of _ "Effect_doc y"]) (simp add: on_effect_def)
      show ?thesis using may won Suc.IH d by (auto simp: Let_def simp del: mutated_simps learn.simps may_send.simps split: answer.splits content.splits sum.splits bool.splits)
    qed
  qed
qed simp

lemma upholds_receipt_mutate:
  "(\<And>now d d'. f now d = Inr (Some d') \<Longrightarrow> effect_doc_follows d d') \<Longrightarrow>
   upholds c (on_ok (mutated (partitionId (cc_platform c) ''effect'' (bd_id b)) (on_effect f))) K (receipt_mutate c b f)"
  unfolding receipt_mutate_def by (rule upholds_if) (simp, rule upholds_receipt_loop)

lemma upholds_claim:
  "upholds c (on_ok (\<lambda>K _. flips (partitionId (cc_platform c) ''effect'' (bd_id b)) unclaimed claimed K)) K (claimReceiptExecution c room b token scope)"
  unfolding claimReceiptExecution_def
proof (rule upholds_if, simp)
  let ?k = "partitionId (cc_platform c) ''effect'' (bd_id b)" let ?f = "claim_execution room token scope"
  show "upholds c (on_ok (\<lambda>K _. flips ?k unclaimed claimed K)) K (and_then (receipt_mutate c b ?f) (\<lambda>(changed, row). case dc_body row of
          Effect_doc d \<Rightarrow> (case ce_execution d of Some (t, s) \<Rightarrow> Done (Inr t) | None \<Rightarrow> Done (Inl (TypeError ''Cannot read properties of undefined'')))
        | _ \<Rightarrow> throw 503 ''effect_receipt_record_invalid''))"
  proof (rule upholds_then[OF upholds_receipt_mutate])
    show "effect_doc_follows d d'" if "?f now d = Inr (Some d')" for now d d' using claim_execution_follows[OF that] by blast
  next
    fix K' y assume m: "mutated ?k (on_effect ?f) K' y"
    obtain ch row where y: "y = (ch, row)" by (cases y)
    have "?f now d \<noteq> Inr None" for now d by (simp add: claim_execution_def)
    then have "\<not> mutated ?k (on_effect ?f) K' (False, row)" by (auto simp: on_effect_def wrong_kind_def elim!: rbind_InrE split: cosmos_body.splits)
    with m y have "mutated ?k (on_effect ?f) K' (True, row)" by (cases ch) auto
    then have "flips ?k unclaimed claimed K'"
    proof (rule flips_mutated)
      fix v :: cosmos_doc and now b' assume "on_effect ?f now v = Inr (Some b')"
      then show "unclaimed v \<and> claimed (v\<lparr>dc_version := dc_version v + 1, dc_body := b'\<rparr>)"
        by (auto simp: on_effect_def wrong_kind_def rbind_Inr_Some unclaimed_def claimed_def dest!: claim_execution_follows split: cosmos_body.splits)
    qed
    then show "upholds c (on_ok (\<lambda>K _. flips ?k unclaimed claimed K)) K' (case y of (changed, row) \<Rightarrow> case dc_body row of
          Effect_doc d \<Rightarrow> (case ce_execution d of Some (t, s) \<Rightarrow> Done (Inr t) | None \<Rightarrow> Done (Inl (TypeError ''Cannot read properties of undefined'')))
        | _ \<Rightarrow> throw 503 ''effect_receipt_record_invalid'')" unfolding y by (auto split: cosmos_body.splits option.splits)
  qed
qed

definition made :: "string \<Rightarrow> fact set \<Rightarrow> bool" where
  "made k K \<longleftrightarrow> (\<exists>d. Created k d \<in> K)"

lemma upholds_begin:
  "upholds c (on_ok (\<lambda>K (acquired, ex). acquired \<longrightarrow> made (partitionId (cc_platform c) ''effect'' i) K)) K (cosmos_beginEffect c now i rq pr fp)"
  unfolding cosmos_beginEffect_def
proof (rule upholds_if, simp, rule upholds_on_error, rule upholds_then[OF upholds_create], simp, goal_cases)
  case (1 K' x)
  then show ?case by (auto simp: made_def)
next
  case (2 K' e)
  show ?case
  proof (cases e)
    case (Fault s code)
    show ?thesis unfolding Fault jserror.case
      by (rule upholds_if, simp, rule upholds_then[OF upholds_get]) (auto split: option.splits cosmos_body.splits)
  qed simp_all
qed

lemma upholds_claim_slot [intro]: "upholds c (on_ok (\<lambda>_ _. True)) K (claimOfferSlot c i ow fp)"
  unfolding claimOfferSlot_def
proof (rule upholds_then[OF upholds_get], rule upholds_then[where P = "\<lambda>_ _. True"], goal_cases)
  case (1 K' index)
  show ?case
  proof (cases index)
    case None
    show ?thesis unfolding None option.case
    proof (rule upholds_on_error, rule upholds_then[OF upholds_create], simp, simp, goal_cases)
      case (1 K'' e)
      show ?case by (cases e) auto
    qed
  qed simp
next
  case (2 K' index K'' u)
  show ?case by (rule upholds_then[OF upholds_mutate_True]) auto
qed

lemma upholds_release [intro]:
  "upholds c (on_ok (\<lambda>_ _. True)) K (releaseRevokedOfferSlot c i d)" "upholds c (on_ok (\<lambda>_ _. True)) K (releaseOfferClaim c i ow fp)"
proof -
  have m: "upholds c (on_ok (\<lambda>_ _. True)) K (and_then (cosmos_mutate c ''offer-owner'' ow (on_owner (release_slot i ow fp))) (\<lambda>_. Done (Inr ())))" for K ow fp
    by (rule upholds_then[OF upholds_mutate_True]) auto
  show "upholds c (on_ok (\<lambda>_ _. True)) K (releaseRevokedOfferSlot c i d)" using m by (simp add: releaseRevokedOfferSlot_def)
  show "upholds c (on_ok (\<lambda>_ _. True)) K (releaseOfferClaim c i ow fp)" unfolding releaseOfferClaim_def
    by (rule upholds_then[OF upholds_get]) (use m in \<open>auto split: option.splits\<close>)
qed

lemma upholds_create_offer [intro]:
  assumes "\<not> of_revoked d"
  shows "upholds c (on_ok (\<lambda>_ _. True)) K (create_offer c i ow fp recoverable d)"
  unfolding create_offer_def
proof (rule upholds_on_error)
  show "upholds c (on_ok (\<lambda>_ _. True)) K (cosmos_create c i (Offer_doc d))" by (rule upholds_True[OF upholds_create]) (simp add: assms)
next
  fix K' e
  have r: "upholds c (on_ok (\<lambda>_ _. True)) K'' (and_then (releaseOfferClaim c i ow fp) (\<lambda>_. Done (Inl e)))" for K''
    by (rule upholds_then[where P = "\<lambda>_ _. True"]) auto
  show "upholds c (on_ok (\<lambda>_ _. True)) K' (if recoverable \<and> e = Fault 409 ''duplicate_offer''
     then and_then (cosmos_get c ''offer'' i) (\<lambda>existing. case existing of
         Some (row, _, _) \<Rightarrow> (case dc_body row of
           Offer_doc x \<Rightarrow> if of_owner x \<noteq> ow \<or> of_fingerprint x \<noteq> fp then and_then (releaseOfferClaim c i ow fp) (\<lambda>_. Done (Inl e)) else Done (Inl e)
         | _ \<Rightarrow> Done (Inl e))
       | None \<Rightarrow> Done (Inl e))
     else Done (Inl e))"
    by (rule upholds_if, rule upholds_then[OF upholds_get]) (use r in \<open>auto split: option.splits cosmos_body.splits\<close>)
qed

lemma upholds_reserveOffer [intro]: "upholds c (on_ok (\<lambda>_ _. True)) K (cosmos_reserveOffer c i ow fp env)"
proof -
  have "upholds c (on_ok (\<lambda>_ _. True)) K' (and_then (cosmos_get c ''offer'' i) (\<lambda>found. if found \<noteq> None then throw 409 ''duplicate_offer''
      else and_then (claimOfferSlot c i ow fp) (\<lambda>_. create_offer c i ow fp True d)))" if "\<not> of_revoked d" for K' d
  proof (rule upholds_then[OF upholds_get], rule upholds_if, simp)
    show "upholds c (on_ok (\<lambda>_ _. True)) K'' (and_then (claimOfferSlot c i ow fp) (\<lambda>_. create_offer c i ow fp True d))" for K''
      by (rule upholds_then[where P = "\<lambda>_ _. True"]) (use that in auto)
  qed
  then show ?thesis unfolding cosmos_reserveOffer_def Let_def
    by (intro upholds_if) (auto split: option.splits sum.splits intro!: upholds_create_offer)
qed

lemma upholds_restore_hints [intro]: "upholds c (on_ok (\<lambda>_ _. True)) K (restore_hints c ow limit seen out hs)"
proof (induction hs arbitrary: K seen out)
  case (Cons h hs)
  show ?case
  proof (cases "dc_body h")
    case (Offer_doc x)
    show ?thesis unfolding restore_hints.simps Offer_doc cosmos_body.case
    proof (intro upholds_if, simp, rule Cons.IH, simp, rule upholds_then[OF upholds_mutate], blast, goal_cases)
      case (1 K' y)
      show ?case using Cons.IH by (cases y) (auto split: cosmos_body.splits sum.splits)
    qed
  qed simp_all
qed simp

lemma upholds_query: "upholds c (on_ok (\<lambda>_ _. True)) K (cosmos_api c (Query x r t))"
  by (rule upholds_True[OF upholds_api]) simp

lemma upholds_restore_pages: "upholds c (on_ok (\<lambda>_ _. True)) K (restore_pages c ow limit n cursors seen out t)"
proof (induction n arbitrary: K cursors seen out t)
  case (Suc n)
  show ?case unfolding restore_pages.simps
  proof (rule upholds_then[OF upholds_query], goal_cases)
    case (1 K' r)
    have "upholds c (on_ok (\<lambda>_ _. True)) K' (and_then (restore_hints c ow limit seen out ds) (\<lambda>(seen', out'). case rp_continuation r of
           None \<Rightarrow> Done (Inr out')
         | Some t \<Rightarrow> if t = [] then Done (Inr out')
             else if length t > 8192 \<or> t \<in> set cursors then throw 503 ''lifecycle_offer_directory_cursor_invalid''
             else restore_pages c ow limit n (t # cursors) seen' out' (Some t)))" for ds
      by (rule upholds_then[OF upholds_restore_hints]) (use Suc.IH in \<open>auto split: option.splits prod.splits\<close>)
    then show ?case by (auto split: content.splits)
  qed
qed simp

lemma upholds_pending_pages: "upholds c (on_ok (\<lambda>_ _. True)) K (pending_pages c r limit n out t)"
proof (induction n arbitrary: K out t)
  case (Suc n)
  show ?case unfolding pending_pages.simps
    by (rule upholds_then[OF upholds_query]) (use Suc.IH in \<open>auto split: content.splits sum.splits option.splits\<close>)
qed simp

lemma upholds_recovered:
  "upholds c (on_ok (\<lambda>K (idem, u, queued). \<not> idem \<longrightarrow> flips (partitionId (cc_platform c) ''need'' (str_of (get need ''id''))) need_open need_closed K)) K
     (commitRecoveredResult c aborted need pr dl dig)"
proof -
  let ?i = "str_of (get need ''id'')" let ?k = "partitionId (cc_platform c) ''need'' ?i"
  let ?Q = "on_ok (\<lambda>K (idem :: bool, u :: jsval, queued :: bool). \<not> idem \<longrightarrow> flips ?k need_open need_closed K)"
  have fin: "upholds c ?Q K' (and_then (cosmos_mutate c ''need'' ?i (on_need (recover_need c aborted ?i need pr dl rcd))) (\<lambda>(changed, row').
      case dc_body row' of
        Need_doc n \<Rightarrow> (case recovered_same (cc_platform c) rcd n of Inl x \<Rightarrow> Done (Inl x)
          | Inr same \<Rightarrow> if nr_status n \<noteq> NCompleted \<or> \<not> same then throw 503 ''recovered_result_commit_unverified'' 
            else Done (Inr (\<not> changed, (case cn_recoveredUsage n of Some u \<Rightarrow> u | None \<Rightarrow> JUndef), result_queued n)))
      | _ \<Rightarrow> throw 503 ''recovered_result_commit_unverified''))" for K' rcd
  proof (rule upholds_then[OF upholds_mutate], blast, goal_cases)
    case (1 K'' y)
    obtain ch row where y: "y = (ch, row)" by (cases y)
    have "flips ?k need_open need_closed K''" if ch
      by (rule flips_mutated[of ?k "on_need (recover_need c aborted ?i need pr dl rcd)" K'' row])
        (use 1 y that on_need_flips recover_need_follows in \<open>auto simp del: mutated_simps\<close>)
    then show ?case unfolding y by (auto split: cosmos_body.splits sum.splits)
  qed
  show ?thesis unfolding commitRecoveredResult_def Let_def
  proof (rule upholds_if, simp, rule upholds_then[OF upholds_get], goal_cases)
    case (1 K' found)
    show ?case using fin by (auto split: option.splits cosmos_body.splits sum.splits bool.splits simp del: upholds.simps(2))
  qed
qed

text \<open>What a host may conclude from the answer of a call.\<close>

definition decisive :: "cosmos_conf \<Rightarrow> cosmos_op \<Rightarrow> fact set \<Rightarrow> cosmos_out \<Rightarrow> bool" where
  "decisive c op K r \<longleftrightarrow> (case op of
     Op_transitionNeed i rq pr t d \<Rightarrow> (\<forall>row. r = Out_changed True row \<longrightarrow> flips (partitionId (cc_platform c) ''need'' i) need_open need_closed K)
   | Op_commitRecovered ab nd pr dl dig \<Rightarrow>
       (\<forall>u queued. r = Out_recovered False u queued \<longrightarrow> flips (partitionId (cc_platform c) ''need'' (str_of (get nd ''id''))) need_open need_closed K)
   | Op_beginEffect now i rq pr fp \<Rightarrow> (\<forall>ex. r = Out_effect True ex \<longrightarrow> made (partitionId (cc_platform c) ''effect'' i) K)
   | Op_claimExecution room b token scope \<Rightarrow> flips (partitionId (cc_platform c) ''effect'' (bd_id b)) unclaimed claimed K
   | _ \<Rightarrow> True)"

lemma upholds_run_op: "upholds c (on_ok (decisive c op)) K (run_op c op)"
proof (cases op)
  case (Op_reserveNeed now v)
  have "upholds c (on_ok (\<lambda>_ _. True)) K (cosmos_reserveNeed c now v)" unfolding cosmos_reserveNeed_def
    by (intro upholds_if upholds_error_or) (auto simp: new_need_def dest!: appendDelivery_follows truncate_sel intro!: upholds_True[OF upholds_create])
  then show ?thesis unfolding Op_reserveNeed run_op.simps by (rule upholds_out) (simp add: decisive_def)
next
  case (Op_transitionNeed i rq pr t d)
  show ?thesis unfolding Op_transitionNeed run_op.simps by (rule upholds_out[OF upholds_transition]) (auto simp: decisive_def)
next
  case (Op_acceptPartial i pr sq dig d)
  show ?thesis unfolding Op_acceptPartial run_op.simps cosmos_acceptPartial_def
    by (rule upholds_out[where P = "\<lambda>_ _. True"], intro upholds_if) (auto simp: decisive_def intro!: upholds_then[OF upholds_mutate_True])
next
  case (Op_acknowledge ev r)
  show ?thesis unfolding Op_acknowledge run_op.simps cosmos_acknowledgeDelivery_def
    by (rule upholds_out[where P = "\<lambda>_ _. True"], intro upholds_if) (auto simp: decisive_def split: option.splits intro!: upholds_then[OF upholds_mutate_True])
next
  case (Op_compactNeed i rq)
  show ?thesis unfolding Op_compactNeed run_op.simps cosmos_compactNeed_def
    by (rule upholds_out[where P = "\<lambda>_ _. True"], intro upholds_if) (auto simp: decisive_def intro!: upholds_then[OF upholds_mutate_True])
next
  case (Op_reserveOffer i ow fp env)
  show ?thesis unfolding Op_reserveOffer run_op.simps by (rule upholds_out[OF upholds_reserveOffer]) (simp add: decisive_def)
next
  case (Op_revokeOffer i ow)
  have "upholds c (on_ok (\<lambda>_ _. True)) K' (case dc_body row of Offer_doc d \<Rightarrow> releaseRevokedOfferSlot c (dc_logicalId row) d | _ \<Rightarrow> Done (Inr ()))" for K' row
    using upholds_release(1) by (auto split: cosmos_body.splits)
  then have "upholds c (on_ok (\<lambda>_ _. True)) K (cosmos_revokeOffer c i ow)" unfolding cosmos_revokeOffer_def
    by (intro upholds_then[OF upholds_mutate_True]) (auto intro!: upholds_then[where P = "\<lambda>_ _. True"])
  then show ?thesis unfolding Op_revokeOffer run_op.simps by (rule upholds_out) (auto simp: decisive_def)
next
  case (Op_compactOffer i ow)
  show ?thesis unfolding Op_compactOffer run_op.simps cosmos_compactOffer_def
    by (rule upholds_out[where P = "\<lambda>_ _. True"], intro upholds_if) (auto simp: decisive_def intro!: upholds_then[OF upholds_mutate_True])
next
  case (Op_restoreOffers ow limit)
  show ?thesis unfolding Op_restoreOffers run_op.simps cosmos_restoreOffers_def
    by (rule upholds_out[where P = "\<lambda>_ _. True"], intro upholds_if) (auto simp: decisive_def intro!: upholds_restore_pages)
next
  case (Op_beginEffect now i rq pr fp)
  show ?thesis unfolding Op_beginEffect run_op.simps by (rule upholds_out[OF upholds_begin]) (auto simp: decisive_def)
next
  case (Op_finishEffect i pr oc tk)
  have "upholds c (on_ok (\<lambda>_ _. True)) K (cosmos_finishEffect c i pr oc tk)" unfolding cosmos_finishEffect_def
    by (auto split: option.splits intro!: upholds_if)
  then show ?thesis unfolding Op_finishEffect run_op.simps by (rule upholds_out) (auto simp: decisive_def)
next
  case (Op_claimExecution room b token scope)
  show ?thesis unfolding Op_claimExecution run_op.simps by (rule upholds_out[OF upholds_claim]) (simp add: decisive_def)
next
  case (Op_captureReceipt b token v)
  have "upholds c (on_ok (\<lambda>_ _. True)) K (captureEffectReceipt c b token v)" unfolding captureEffectReceipt_def
    by (intro upholds_error_or upholds_if) (auto intro: upholds_True[OF upholds_receipt_mutate] capture_receipt_follows)
  then show ?thesis unfolding Op_captureReceipt run_op.simps by (rule upholds_out) (auto simp: decisive_def)
next
  case (Op_commitRecovered ab nd pr dl dig)
  show ?thesis unfolding Op_commitRecovered run_op.simps by (rule upholds_out[OF upholds_recovered]) (auto simp: decisive_def)
next
  case (Op_pendingDeliveries r limit)
  show ?thesis unfolding Op_pendingDeliveries run_op.simps cosmos_pendingDeliveries_def
    by (rule upholds_out[where P = "\<lambda>_ _. True"], intro upholds_if) (auto simp: decisive_def intro!: upholds_pending_pages)
next
  case (Op_lookup kind i)
  show ?thesis unfolding Op_lookup run_op.simps by (rule upholds_out[OF upholds_True[OF upholds_get]]) (simp add: decisive_def)
next
  case Op_verifyCapacity
  have "upholds c (on_ok (\<lambda>_ _. True)) K (cosmos_verifyCapacityContract c)" unfolding cosmos_verifyCapacityContract_def
    by (auto split: option.splits sum.splits intro!: upholds_then[OF upholds_get])
  then show ?thesis unfolding Op_verifyCapacity run_op.simps by (rule upholds_out) (simp add: decisive_def)
next
  case Op_rollbackPartial
  show ?thesis unfolding Op_rollbackPartial run_op.simps by (simp add: cosmos_rollbackPartial_def)
qed

end
