(* ===== verification/Cosmos_Hosts.thy ===== *)
theory Cosmos_Hosts
  imports Cosmos_Runs Sample_Platform "HOL-Library.Sublist"
begin

text \<open>
  The hosts and the container together. A state has the versions of every document, the writes whose
  answer was lost and which may still arrive, and the calls with what is left of their programs. What is
  proved holds for every container that keeps \<open>container_law\<close> and for every order of requests.
\<close>

section \<open>The container and the calls\<close>

type_synonym versions = "string \<Rightarrow> (string \<times> cosmos_doc) list"

definition applies :: "versions \<Rightarrow> request_msg \<Rightarrow> versions \<Rightarrow> bool" where
  "applies h q h' \<longleftrightarrow> (case q of
     Create_doc d \<Rightarrow> h (dc_key d) = [] \<and> (\<exists>e. h' = h(dc_key d := [(e, d)]))
   | Replace k d e \<Rightarrow> h k \<noteq> [] \<and> fst (last (h k)) = e \<and> (\<exists>e'. e' \<notin> fst ` set (h k) \<and> h' = h(k := h k @ [(e', d)]))
   | _ \<Rightarrow> False)"

definition write_accepted :: "request_msg \<Rightarrow> answer \<Rightarrow> bool" where
  "write_accepted q a \<longleftrightarrow> (case a of Reply r \<Rightarrow> (case q of Create_doc d \<Rightarrow> rp_status r \<in> {200, 201} | Replace k d e \<Rightarrow> rp_status r = 200 | _ \<Rightarrow> False) | _ \<Rightarrow> False)"

definition reports :: "versions \<Rightarrow> request_msg \<Rightarrow> answer \<Rightarrow> bool" where
  "reports h q a \<longleftrightarrow> (\<forall>k r d e. q = Read k \<and> a = Reply r \<and> rp_status r = 200 \<and> rp_content r = Document d \<and> rp_etag r = Some e \<longrightarrow> (e, d) \<in> set (h k))"

text \<open>
  What the container documents: a write is done entirely or not at all; a creation is done only where
  there is no document, a replacement only against the etag of the last version, which it replaces under
  a new etag; a success is answered only when the write was done, and with the document written; a read
  answers with a version the document has or had. A write may be done and its success not be told.
\<close>

definition container_law :: "(versions \<Rightarrow> request_msg \<Rightarrow> versions \<Rightarrow> answer \<Rightarrow> bool) \<Rightarrow> bool" where
  "container_law svc \<longleftrightarrow> (\<forall>h q h' a. svc h q h' a \<longrightarrow> sane q a \<and> reports h q a \<and> (applies h q h' \<or> h' = h \<and> \<not> write_accepted q a))"

record cosmos_state =
  ct_versions :: versions
  ct_flying :: "request_msg list"
  ct_calls :: "(cosmos_op \<times> cosmos_out result prog) list"

text \<open>A host that has crashed is one whose call takes no further step.\<close>

inductive cosmos_step :: "cosmos_conf \<Rightarrow> (versions \<Rightarrow> request_msg \<Rightarrow> versions \<Rightarrow> answer \<Rightarrow> bool) \<Rightarrow> cosmos_state \<Rightarrow> cosmos_state \<Rightarrow> bool" for c svc where
  call: "cosmos_step c svc s (s\<lparr>ct_calls := ct_calls s @ [(op, run_op c op)]\<rparr>)"
| answered: "i < length (ct_calls s) \<Longrightarrow> ct_calls s ! i = (op, Send q k) \<Longrightarrow> svc (ct_versions s) q h' a \<Longrightarrow>
    cosmos_step c svc s (s\<lparr>ct_versions := h', ct_calls := (ct_calls s)[i := (op, k a)]\<rparr>)"
| lost: "i < length (ct_calls s) \<Longrightarrow> ct_calls s ! i = (op, Send q k) \<Longrightarrow>
    cosmos_step c svc s (s\<lparr>ct_flying := q # ct_flying s, ct_calls := (ct_calls s)[i := (op, k NoReply)]\<rparr>)"
| late: "ct_flying s = xs @ q # ys \<Longrightarrow> svc (ct_versions s) q h' a \<Longrightarrow>
    cosmos_step c svc s (s\<lparr>ct_versions := h', ct_flying := xs @ ys\<rparr>)"

text \<open>Before the first call a document has at most the version an operator has put there.\<close>

definition cosmos_start :: "versions \<Rightarrow> cosmos_state" where
  "cosmos_start h = \<lparr>ct_versions = h, ct_flying = [], ct_calls = []\<rparr>"

definition cosmos_reachable :: "cosmos_conf \<Rightarrow> (versions \<Rightarrow> request_msg \<Rightarrow> versions \<Rightarrow> answer \<Rightarrow> bool) \<Rightarrow> versions \<Rightarrow> cosmos_state \<Rightarrow> bool" where
  "cosmos_reachable c svc h s \<longleftrightarrow> (\<forall>k. length (h k) \<le> 1) \<and> (cosmos_step c svc)\<^sup>*\<^sup>* (cosmos_start h) s"

section \<open>Facts are true of the versions\<close>

definition chained :: "versions \<Rightarrow> bool" where
  "chained h \<longleftrightarrow> (\<forall>k. sorted_wrt (\<lambda>x y. doc_follows (snd x) (snd y)) (h k) \<and> distinct (map fst (h k)))"

definition replaced :: "versions \<Rightarrow> string \<Rightarrow> string \<Rightarrow> cosmos_doc \<Rightarrow> bool" where
  "replaced h k e d \<longleftrightarrow> (\<exists>n. Suc n < length (h k) \<and> fst (h k ! n) = e \<and> snd (h k ! Suc n) = d)"

fun true_fact :: "versions \<Rightarrow> fact \<Rightarrow> bool" where
  "true_fact h (Saw k e d) = ((e, d) \<in> set (h k))"
| "true_fact h (Wrote k e d) = replaced h k e d"
| "true_fact h (Created k d) = (h k \<noteq> [] \<and> snd (hd (h k)) = d)"

definition versions_grow :: "versions \<Rightarrow> versions \<Rightarrow> bool" where
  "versions_grow h h' \<longleftrightarrow> (\<forall>k. prefix (h k) (h' k))"

lemma versions_grow_refl [simp]: "versions_grow h h"
  by (simp add: versions_grow_def)

lemma applies_versions_grow: "applies h q h' \<Longrightarrow> versions_grow h h'"
  by (auto simp: applies_def versions_grow_def split: request_msg.splits)

lemma true_fact_grows: "true_fact h f \<Longrightarrow> versions_grow h h' \<Longrightarrow> true_fact h' f"
proof (cases f)
  case (Saw k e d)
  then show "true_fact h f \<Longrightarrow> versions_grow h h' \<Longrightarrow> true_fact h' f" unfolding versions_grow_def using set_mono_prefix[of "h k" "h' k"] by auto
next
  case (Wrote k e d)
  assume t: "true_fact h f" and g: "versions_grow h h'"
  obtain ys where ys: "h' k = h k @ ys" using g unfolding versions_grow_def prefix_def by blast
  from t obtain n where "Suc n < length (h k)" "fst (h k ! n) = e" "snd (h k ! Suc n) = d" unfolding Wrote true_fact.simps replaced_def by blast
  then show "true_fact h' f" unfolding Wrote true_fact.simps replaced_def ys by (intro exI[of _ n]) (simp add: nth_append)
next
  case (Created k d)
  assume t: "true_fact h f" and g: "versions_grow h h'"
  obtain ys where ys: "h' k = h k @ ys" using g unfolding versions_grow_def prefix_def by blast
  show "true_fact h' f" using t unfolding Created by (simp add: ys)
qed

definition all_true :: "versions \<Rightarrow> fact set \<Rightarrow> bool" where
  "all_true h K \<longleftrightarrow> (\<forall>f\<in>K. true_fact h f)"

lemma all_true_grows: "all_true h K \<Longrightarrow> versions_grow h h' \<Longrightarrow> all_true h' K"
  by (auto simp: all_true_def intro: true_fact_grows)

lemma chained_last:
  assumes "chained h" "(e, v) \<in> set (h k)" "fst (last (h k)) = e"
  shows "last (h k) = (e, v)"
proof -
  have "h k \<noteq> []" using assms(2) by auto
  then have "last (h k) \<in> set (h k)" by simp
  moreover have "inj_on fst (set (h k))" using assms(1) by (simp add: chained_def distinct_map)
  ultimately show ?thesis using assms(2,3) by (metis fst_conv inj_onD)
qed

lemma applies_chained:
  assumes "chained h" "all_true h K" "may_send c K q" "applies h q h'"
  shows "chained h'"
proof (cases q)
  case (Replace k d e)
  from assms(4) obtain e' where h': "h k \<noteq> []" "fst (last (h k)) = e" "e' \<notin> fst ` set (h k)" "h' = h(k := h k @ [(e', d)])"
    unfolding Replace applies_def by auto
  from assms(3) obtain v where v: "Saw k e v \<in> K" "doc_follows v d" unfolding Replace by auto
  then have "(e, v) \<in> set (h k)" using assms(2) by (auto simp: all_true_def)
  with chained_last[OF assms(1) _ h'(2)] have last: "last (h k) = (e, v)" by blast
  have "doc_follows (snd x) d" if "x \<in> set (h k)" for x
  proof (cases "x = last (h k)")
    case False
    have "h k = butlast (h k) @ [last (h k)]" using h'(1) by simp
    then have "sorted_wrt (\<lambda>x y. doc_follows (snd x) (snd y)) (butlast (h k) @ [last (h k)])" using assms(1) by (simp add: chained_def)
    moreover have "x \<in> set (butlast (h k))" using that False h'(1) by (metis append_butlast_last_id in_set_butlastD rotate1.simps(2) set_ConsD set_rotate1)
    ultimately have "doc_follows (snd x) v" by (simp add: sorted_wrt_append last)
    then show ?thesis using v(2) transp_doc_follows by (blast dest: transpD)
  qed (use last v(2) in simp)
  then show ?thesis using assms(1) h'(3,4) by (simp add: chained_def sorted_wrt_append)
next
  case (Create_doc d)
  then show ?thesis using assms(1,4) by (auto simp: applies_def chained_def)
qed (use assms(4) in \<open>simp_all add: applies_def\<close>)

lemma learn_true:
  assumes "chained h" "all_true h K" "reports h q a" "applies h q h' \<or> h' = h \<and> \<not> write_accepted q a"
  shows "all_true h' (learn K q a)"
proof -
  have g: "versions_grow h h'" using assms(4) applies_versions_grow by auto
  have K: "all_true h' K" using all_true_grows[OF assms(2) g] .
  show ?thesis
  proof (cases a)
    case (Reply r)
    show ?thesis
    proof (cases q)
      case (Read k)
      have "true_fact h' (Saw k e d)" if "rp_content r = Document d" "rp_etag r = Some e" "rp_status r = 200" for d e
        by (rule true_fact_grows[OF _ g]) (use assms(3) that in \<open>simp add: reports_def Read Reply\<close>)
      then show ?thesis using K by (auto simp: Read Reply all_true_def split: content.splits option.splits)
    next
      case (Create_doc d)
      then show ?thesis using K assms(4) by (auto simp: Reply all_true_def write_accepted_def applies_def)
    next
      case (Replace k d e)
      have "replaced h' k e d" if "rp_status r = 200"
      proof -
        from that assms(4) obtain e' where h': "h k \<noteq> []" "fst (last (h k)) = e" "h' = h(k := h k @ [(e', d)])"
          unfolding Replace Reply applies_def write_accepted_def by auto
        then show ?thesis unfolding replaced_def
          by (intro exI[of _ "length (h k) - 1"]) (simp add: nth_append last_conv_nth)
      qed
      then show ?thesis using K by (simp add: Replace Reply all_true_def)
    qed (use K Reply in simp)
  qed (use K in \<open>cases q; simp\<close>)+
qed

section \<open>One host at most has a fact of its own\<close>

definition apart :: "fact set \<Rightarrow> fact set \<Rightarrow> bool" where
  "apart K L \<longleftrightarrow> (\<forall>k e d d'. \<not> (Wrote k e d \<in> K \<and> Wrote k e d' \<in> L)) \<and> (\<forall>k d d'. \<not> (Created k d \<in> K \<and> Created k d' \<in> L))"

lemma apart_sym: "apart K L \<Longrightarrow> apart L K"
  unfolding apart_def by blast

lemma apart_empty [simp]: "apart K {}" "apart {} K"
  by (simp_all add: apart_def)

lemma replaced_not_last:
  assumes "chained h" "replaced h k e d" "h k \<noteq> []"
  shows "fst (last (h k)) \<noteq> e"
proof -
  from assms(2) obtain n where n: "Suc n < length (h k)" "fst (h k ! n) = e" unfolding replaced_def by blast
  have "distinct (map fst (h k))" using assms(1) by (simp add: chained_def)
  then have "map fst (h k) ! n \<noteq> map fst (h k) ! (length (h k) - 1)" using n by (subst nth_eq_iff_index_eq) auto
  then show ?thesis using n assms(3) by (simp add: last_conv_nth)
qed

lemma learn_apart:
  assumes "chained h" "all_true h L" "apart K L" "applies h q h' \<or> h' = h \<and> \<not> write_accepted q a"
  shows "apart (learn K q a) L"
proof (cases "write_accepted q a")
  case False
  then have "learn K q a \<subseteq> K \<union> {f. \<exists>k e d. f = Saw k e d}"
    by (cases "(K, q, a)" rule: learn.cases) (auto simp: write_accepted_def split: content.splits option.splits)
  then show ?thesis using assms(3) unfolding apart_def by blast
next
  case True
  then obtain r where a: "a = Reply r" by (auto simp: write_accepted_def split: answer.splits)
  from True assms(4) have ap: "applies h q h'" by blast
  show ?thesis
  proof (cases q)
    case (Create_doc d)
    have "Created (dc_key d) x \<notin> L" for x using ap assms(2) by (auto simp: Create_doc applies_def all_true_def)
    then show ?thesis using assms(3) by (auto simp: a Create_doc apart_def)
  next
    case (Replace k d e)
    have "Wrote k e x \<notin> L" for x using ap assms(1,2) replaced_not_last[of h k e x] by (auto simp: Replace applies_def all_true_def)
    then show ?thesis using assms(3) by (auto simp: a Replace apart_def)
  qed (use True in \<open>simp_all add: a write_accepted_def\<close>)
qed

section \<open>The invariant of the whole system\<close>

definition kept :: "cosmos_conf \<Rightarrow> (versions \<Rightarrow> bool) \<Rightarrow> bool" where
  "kept c I \<longleftrightarrow> (\<forall>h K q h'. I h \<and> chained h \<and> all_true h K \<and> may_send c K q \<and> applies h q h' \<longrightarrow> I h')"

definition call_known :: "cosmos_conf \<Rightarrow> versions \<Rightarrow> cosmos_op \<times> cosmos_out result prog \<Rightarrow> fact set \<Rightarrow> bool" where
  "call_known c h x K \<longleftrightarrow> upholds c (on_ok (decisive c (fst x))) K (snd x) \<and> all_true h K"

definition all_known :: "cosmos_conf \<Rightarrow> (versions \<Rightarrow> bool) \<Rightarrow> cosmos_state \<Rightarrow> fact set list \<Rightarrow> bool" where
  "all_known c I s Ks \<longleftrightarrow> I (ct_versions s) \<and> chained (ct_versions s) \<and> list_all2 (call_known c (ct_versions s)) (ct_calls s) Ks \<and>
     (\<forall>i<length Ks. \<forall>j<length Ks. i \<noteq> j \<longrightarrow> apart (Ks ! i) (Ks ! j)) \<and> (\<forall>q\<in>set (ct_flying s). \<exists>K. all_true (ct_versions s) K \<and> may_send c K q)"

lemma calls_grow:
  assumes "list_all2 (call_known c h) cs Ks" "versions_grow h h'"
  shows "list_all2 (call_known c h') cs Ks"
  using assms(1) by (rule list_all2_mono) (use assms(2) in \<open>auto simp: call_known_def intro: all_true_grows\<close>)

lemma all_known_step:
  assumes law: "container_law svc" and I: "kept c I" and step: "cosmos_step c svc s s'" and known: "all_known c I s Ks"
  shows "\<exists>Ks'. all_known c I s' Ks'"
  using step
proof cases
  case (call op)
  have "call_known c (ct_versions s) (op, run_op c op) {}" using upholds_run_op by (simp add: call_known_def all_true_def)
  then have "all_known c I s' (Ks @ [{}])" using known unfolding call
    by (auto simp: all_known_def list_all2_appendI nth_append less_Suc_eq)
  then show ?thesis ..
next
  case (answered i op q k h' a)
  let ?h = "ct_versions s" let ?K = "Ks ! i" let ?L = "learn ?K q a"
  have len: "length Ks = length (ct_calls s)" and i: "i < length Ks" using known answered(2) by (auto simp: all_known_def list_all2_lengthD)
  have ck: "call_known c ?h (op, Send q k) ?K" using known answered(2,3) by (auto simp: all_known_def dest: list_all2_nthD)
  from law answered(4) have svc: "sane q a" "reports ?h q a" "applies ?h q h' \<or> h' = ?h \<and> \<not> write_accepted q a" unfolding container_law_def by blast+
  have ch: "chained ?h" and K: "all_true ?h ?K" and may: "may_send c ?K q" and up: "upholds c (on_ok (decisive c op)) ?L (k a)"
    using known ck svc(1) by (auto simp: all_known_def call_known_def)
  have g: "versions_grow ?h h'" using svc(3) applies_versions_grow by auto
  have h': "I h'" "chained h'" using svc(3) known I applies_chained[OF ch K may] K may ch unfolding all_known_def kept_def by blast+
  have "call_known c h' (op, k a) ?L" using up learn_true[OF ch K svc(2,3)] by (simp add: call_known_def)
  then have calls: "list_all2 (call_known c h') ((ct_calls s)[i := (op, k a)]) (Ks[i := ?L])"
    using known calls_grow[OF _ g] by (auto simp: all_known_def intro: list_all2_update_cong)
  have ap: "apart ?L (Ks ! j)" if "j < length Ks" "j \<noteq> i" for j
  proof (rule learn_apart[OF ch _ _ svc(3)])
    show "all_true ?h (Ks ! j)" using known that(1) len by (auto simp: all_known_def call_known_def dest: list_all2_nthD)
    show "apart ?K (Ks ! j)" using known that i by (auto simp: all_known_def)
  qed
  have "all_known c I s' (Ks[i := ?L])" unfolding all_known_def answered(1)
  proof (intro conjI allI impI ballI)
    fix x y assume x: "x < length (Ks[i := ?L])" "y < length (Ks[i := ?L])" "x \<noteq> y"
    then show "apart (Ks[i := ?L] ! x) (Ks[i := ?L] ! y)" using known ap[of x] ap[of y] apart_sym i by (cases "x = i"; cases "y = i") (auto simp: all_known_def)
  next
    fix q' assume "q' \<in> set (ct_flying (s\<lparr>ct_versions := h', ct_calls := (ct_calls s)[i := (op, k a)]\<rparr>))"
    then show "\<exists>K. all_true (ct_versions (s\<lparr>ct_versions := h', ct_calls := (ct_calls s)[i := (op, k a)]\<rparr>)) K \<and> may_send c K q'"
      using known all_true_grows[OF _ g] by (fastforce simp: all_known_def)
  qed (use h' calls in simp_all)
  then show ?thesis ..
next
  case (lost i op q k)
  have ck: "call_known c (ct_versions s) (op, Send q k) (Ks ! i)" using known lost(2,3) by (auto simp: all_known_def dest: list_all2_nthD)
  have sn: "sane q NoReply" "learn K q NoReply = K" for K by (cases q; simp)+
  have may: "may_send c (Ks ! i) q" "all_true (ct_versions s) (Ks ! i)" and "call_known c (ct_versions s) (op, k NoReply) (Ks ! i)"
    using ck sn by (auto simp: call_known_def) (metis sn)
  then have "list_all2 (call_known c (ct_versions s)) ((ct_calls s)[i := (op, k NoReply)]) (Ks[i := Ks ! i])"
    using known by (auto simp only: all_known_def intro: list_all2_update_cong)
  then have "all_known c I s' Ks" using known may unfolding lost(1) all_known_def by auto
  then show ?thesis ..
next
  case (late xs q ys h' a)
  let ?h = "ct_versions s"
  from law late(3) have svc: "applies ?h q h' \<or> h' = ?h" unfolding container_law_def by blast
  have "q \<in> set (ct_flying s)" using late(2) by simp
  then obtain K where K: "all_true ?h K" "may_send c K q" using known unfolding all_known_def by blast
  have ch: "chained ?h" using known by (simp add: all_known_def)
  have g: "versions_grow ?h h'" using svc applies_versions_grow by auto
  have h': "I h'" "chained h'" using svc known I applies_chained[OF ch K] K ch unfolding all_known_def kept_def by blast+
  have "\<exists>K. all_true h' K \<and> may_send c K q'" if "q' \<in> set (xs @ ys)" for q'
    using known that all_true_grows[OF _ g] unfolding all_known_def late(2) by (metis Un_iff list.set_intros(2) set_append)
  moreover have "list_all2 (call_known c h') (ct_calls s) Ks" using known calls_grow[OF _ g] by (simp add: all_known_def)
  ultimately have "all_known c I s' Ks" using known h' unfolding all_known_def late(1) by simp
  then show ?thesis ..
qed

lemma reachable_known:
  assumes law: "container_law svc" and I: "kept c I" and reach: "cosmos_reachable c svc h s" and init: "I h"
  shows "\<exists>Ks. all_known c I s Ks"
proof -
  from reach have rtc: "(cosmos_step c svc)\<^sup>*\<^sup>* (cosmos_start h) s" and len: "\<And>k. length (h k) \<le> 1" by (auto simp: cosmos_reachable_def)
  have "\<exists>x. h k = [] \<or> h k = [x]" for k using len[of k] by (cases "h k") auto
  then have "chained h" unfolding chained_def by (metis distinct.simps list.simps(8,9) distinct_singleton sorted_wrt.simps(1) sorted_wrt1)
  then have "all_known c I (cosmos_start h) []" using init by (simp add: all_known_def cosmos_start_def)
  with rtc show ?thesis by induction (use all_known_step[OF law I] in blast)+
qed

section \<open>What holds over every order of requests\<close>

lemma kept_True [simp]: "kept c (\<lambda>_. True)"
  by (simp add: kept_def)

lemma known_versions:
  assumes "container_law svc" "cosmos_reachable c svc h s" "i < j" "j < length (ct_versions s k)"
  shows "doc_follows (snd (ct_versions s k ! i)) (snd (ct_versions s k ! j))"
  using reachable_known[OF assms(1) kept_True assms(2) TrueI] assms(3,4)
  by (auto simp: all_known_def chained_def dest!: spec[of _ k] intro: sorted_wrt_nth_less)

lemma flip_position:
  assumes "chained h" "all_true h K" "flips k A B K"
  obtains n where "Suc n < length (h k)" "A (snd (h k ! n))" "B (snd (h k ! Suc n))" "\<exists>w. Wrote k (fst (h k ! n)) w \<in> K"
proof -
  from assms(3) obtain e v w where f: "Saw k e v \<in> K" "Wrote k e w \<in> K" "A v" "B w" unfolding flips_def by blast
  from f(1,2) assms(2) have "(e, v) \<in> set (h k)" "replaced h k e w" by (auto simp: all_true_def)
  then obtain m n where m: "m < length (h k)" "h k ! m = (e, v)" and n: "Suc n < length (h k)" "fst (h k ! n) = e" "snd (h k ! Suc n) = w"
    unfolding replaced_def in_set_conv_nth by blast
  have "distinct (map fst (h k))" using assms(1) by (simp add: chained_def)
  then have "m = n" using m n by (metis Suc_lessD fst_conv length_map nth_eq_iff_index_eq nth_map)
  then show thesis using that[of n] m n f by auto
qed

lemma flip_once:
  assumes known: "all_known c I s Ks" and ij: "i < length Ks" "j < length Ks" "flips k A B (Ks ! i)" "flips k A B (Ks ! j)"
    and stays: "\<And>v w. doc_follows v w \<Longrightarrow> B v \<Longrightarrow> B w" and ab: "\<And>v. A v \<Longrightarrow> \<not> B v"
  shows "i = j"
proof (rule ccontr)
  assume "i \<noteq> j"
  let ?h = "ct_versions s"
  have ch: "chained ?h" and true: "\<And>x. x < length Ks \<Longrightarrow> all_true ?h (Ks ! x)"
    using known by (auto simp: all_known_def call_known_def list_all2_conv_all_nth)
  obtain m where m: "Suc m < length (?h k)" "A (snd (?h k ! m))" "B (snd (?h k ! Suc m))" "\<exists>w. Wrote k (fst (?h k ! m)) w \<in> Ks ! i"
    using flip_position[OF ch true[OF ij(1)] ij(3)] .
  obtain n where n: "Suc n < length (?h k)" "A (snd (?h k ! n))" "B (snd (?h k ! Suc n))" "\<exists>w. Wrote k (fst (?h k ! n)) w \<in> Ks ! j"
    using flip_position[OF ch true[OF ij(2)] ij(4)] .
  have later: "\<not> x < y" if "Suc y < length (?h k)" "B (snd (?h k ! Suc x))" "A (snd (?h k ! y))" for x y
  proof
    assume "x < y"
    show False
    proof (cases "Suc x = y")
      case False
      then have "doc_follows (snd (?h k ! Suc x)) (snd (?h k ! y))" using \<open>x < y\<close> that(1) ch
        by (auto simp: chained_def dest!: spec[of _ k] intro!: sorted_wrt_nth_less[of "\<lambda>x y. doc_follows (snd x) (snd y)"])
      then show False using that(2,3) stays ab by blast
    qed (use that ab in auto)
  qed
  have "m = n" using later[of n m] later[of m n] m n by (meson linorder_neqE_nat)
  moreover have "apart (Ks ! i) (Ks ! j)" using known ij \<open>i \<noteq> j\<close> by (auto simp: all_known_def)
  ultimately show False using m(4) n(4) unfolding apart_def by blast
qed

lemma need_closed_stays: "doc_follows v w \<Longrightarrow> need_closed v \<Longrightarrow> need_closed w"
  by (cases "dc_body v"; cases "dc_body w") (auto simp: doc_follows_def need_closed_def need_doc_follows_def need_follows_def dest: truncate_sel)

lemma claimed_stays: "doc_follows v w \<Longrightarrow> claimed v \<Longrightarrow> claimed w"
  by (cases "dc_body v"; cases "dc_body w") (auto simp: doc_follows_def claimed_def effect_doc_follows_def)

text \<open>The answers by which a host knows that it, and no other, has ended a NEED, acquired an effect, or claimed its paid call.\<close>

definition need_ended :: "cosmos_op \<times> cosmos_out result prog \<Rightarrow> string option" where
  "need_ended x = (case x of
     (Op_transitionNeed i rq pr t d, Done (Inr (Out_changed True row))) \<Rightarrow> Some i
   | (Op_commitRecovered ab nd pr dl dig, Done (Inr (Out_recovered False u queued))) \<Rightarrow> Some (str_of (get nd ''id''))
   | _ \<Rightarrow> None)"

definition effect_acquired :: "cosmos_op \<times> cosmos_out result prog \<Rightarrow> string option" where
  "effect_acquired x = (case x of (Op_beginEffect now i rq pr fp, Done (Inr (Out_effect True ex))) \<Rightarrow> Some i | _ \<Rightarrow> None)"

definition call_claimed :: "cosmos_op \<times> cosmos_out result prog \<Rightarrow> string option" where
  "call_claimed x = (case x of (Op_claimExecution room b token scope, Done (Inr r)) \<Rightarrow> Some (bd_id b) | _ \<Rightarrow> None)"

lemma decided:
  assumes "all_known c I s Ks" "i < length (ct_calls s)"
  shows "i < length Ks" "upholds c (on_ok (decisive c (fst (ct_calls s ! i)))) (Ks ! i) (snd (ct_calls s ! i))" "all_true (ct_versions s) (Ks ! i)"
  using assms by (auto simp: all_known_def call_known_def dest: list_all2_lengthD list_all2_nthD)

lemma decided_ended:
  assumes "upholds c (on_ok (decisive c (fst x))) K (snd x)" "need_ended x = Some n"
  shows "flips (partitionId (cc_platform c) ''need'' n) need_open need_closed K"
  using assms unfolding need_ended_def
  by (auto simp: decisive_def split: prod.splits cosmos_op.splits prog.splits sum.splits cosmos_out.splits bool.splits)

lemma decided_claimed:
  assumes "upholds c (on_ok (decisive c (fst x))) K (snd x)" "call_claimed x = Some n"
  shows "flips (partitionId (cc_platform c) ''effect'' n) unclaimed claimed K"
  using assms unfolding call_claimed_def
  by (auto simp: decisive_def split: prod.splits cosmos_op.splits prog.splits sum.splits)

lemma decided_acquired:
  assumes "upholds c (on_ok (decisive c (fst x))) K (snd x)" "effect_acquired x = Some n"
  shows "made (partitionId (cc_platform c) ''effect'' n) K"
  using assms unfolding effect_acquired_def
  by (auto simp: decisive_def split: prod.splits cosmos_op.splits prog.splits sum.splits cosmos_out.splits bool.splits)

lemma ended_once:
  assumes "all_known c I s Ks" "i < length (ct_calls s)" "j < length (ct_calls s)" "need_ended (ct_calls s ! i) = Some n" "need_ended (ct_calls s ! j) = Some n"
  shows "i = j"
  by (rule flip_once[OF assms(1) decided(1)[OF assms(1,2)] decided(1)[OF assms(1,3)]
      decided_ended[OF decided(2)[OF assms(1,2)] assms(4)] decided_ended[OF decided(2)[OF assms(1,3)] assms(5)]])
    (blast intro: need_closed_stays, auto simp: need_open_def need_closed_def)

lemma claimed_once:
  assumes "all_known c I s Ks" "i < length (ct_calls s)" "j < length (ct_calls s)" "call_claimed (ct_calls s ! i) = Some n" "call_claimed (ct_calls s ! j) = Some n"
  shows "i = j"
  by (rule flip_once[OF assms(1) decided(1)[OF assms(1,2)] decided(1)[OF assms(1,3)]
      decided_claimed[OF decided(2)[OF assms(1,2)] assms(4)] decided_claimed[OF decided(2)[OF assms(1,3)] assms(5)]])
    (blast intro: claimed_stays, auto simp: unclaimed_def claimed_def)

lemma acquired_once:
  assumes "all_known c I s Ks" "i < length (ct_calls s)" "j < length (ct_calls s)" "effect_acquired (ct_calls s ! i) = Some n" "effect_acquired (ct_calls s ! j) = Some n"
  shows "i = j"
proof -
  have "made (partitionId (cc_platform c) ''effect'' n) (Ks ! i)" "made (partitionId (cc_platform c) ''effect'' n) (Ks ! j)"
    using assms decided_acquired decided by blast+
  then have "\<not> apart (Ks ! i) (Ks ! j)" unfolding apart_def made_def by blast
  then show ?thesis using assms(1) decided(1)[OF assms(1,2)] decided(1)[OF assms(1,3)] by (auto simp: all_known_def)
qed

section \<open>The limit on records\<close>

definition register_admits :: "cosmos_conf \<Rightarrow> nat \<Rightarrow> versions \<Rightarrow> bool" where
  "register_admits c limit h \<longleftrightarrow> (\<exists>x. h (capacityKey (cc_platform c)) \<noteq> [] \<and> dc_body (snd (last (h (capacityKey (cc_platform c))))) = Capacity_doc x \<and>
     cp_recordCapacity x = limit \<and> length (cp_tickets x) \<le> limit \<and> {k. h k \<noteq> []} - {capacityKey (cc_platform c)} \<subseteq> set (cp_tickets x))"

lemma last_contains_tickets:
  assumes "chained h" "(e, d) \<in> set (h k)" "dc_body d = Capacity_doc y" "dc_body (snd (last (h k))) = Capacity_doc x"
  shows "set (cp_tickets y) \<subseteq> set (cp_tickets x)"
proof (cases "(e, d) = last (h k)")
  case False
  have "h k \<noteq> []" using assms(2) by auto
  then have split: "h k = butlast (h k) @ [last (h k)]" by simp
  then have "sorted_wrt (\<lambda>x y. doc_follows (snd x) (snd y)) (butlast (h k) @ [last (h k)])" using assms(1) by (simp add: chained_def)
  moreover have "(e, d) \<in> set (butlast (h k))" using assms(2) False split by (metis Un_iff empty_iff insert_iff list.set set_append)
  ultimately have "doc_follows d (snd (last (h k)))" by (fastforce simp: sorted_wrt_append)
  then show ?thesis using assms(3,4) by (simp add: doc_follows_def)
next
  case True
  then have "snd (last (h k)) = d" by (metis snd_conv)
  then show ?thesis using assms(3,4) by simp
qed

lemma ticket_admitted:
  assumes "cc_recordCapacity c = Some limit" "chained h" "all_true h K" "has_ticket c K k" "dc_body (snd (last (h (capacityKey (cc_platform c))))) = Capacity_doc x"
  shows "k \<in> set (cp_tickets x)"
proof -
  let ?k = "capacityKey (cc_platform c)"
  obtain e d y where y: "Saw ?k e d \<in> K \<or> Wrote ?k e d \<in> K" "dc_body d = Capacity_doc y" "k \<in> set (cp_tickets y)"
    using assms(1,4) by (auto simp: has_ticket_def)
  have "\<exists>e'. (e', d) \<in> set (h ?k)"
  proof (cases "Saw ?k e d \<in> K")
    case True
    then show ?thesis using assms(3) by (fastforce simp: all_true_def)
  next
    case False
    then have "replaced h ?k e d" using y(1) assms(3) by (auto simp: all_true_def)
    then show ?thesis unfolding replaced_def by (metis nth_mem prod.collapse)
  qed
  then show ?thesis using last_contains_tickets[OF assms(2) _ y(2) assms(5)] y(3) by blast
qed

lemma register_admits_kept: "cc_recordCapacity c = Some limit \<Longrightarrow> kept c (register_admits c limit)"
  unfolding kept_def
proof (intro allI impI, elim conjE)
  fix h K q h'
  let ?k = "capacityKey (cc_platform c)"
  assume c: "cc_recordCapacity c = Some limit" and ad: "register_admits c limit h" and ch: "chained h" and K: "all_true h K" and may: "may_send c K q" and ap: "applies h q h'"
  from ad obtain x where x: "h ?k \<noteq> []" "dc_body (snd (last (h ?k))) = Capacity_doc x" "cp_recordCapacity x = limit" "length (cp_tickets x) \<le> limit"
    "{k. h k \<noteq> []} - {?k} \<subseteq> set (cp_tickets x)" unfolding register_admits_def by blast
  show "register_admits c limit h'"
  proof (cases q)
    case (Create_doc d)
    have "dc_key d \<in> set (cp_tickets x)" using ticket_admitted[OF c ch K _ x(2)] may unfolding Create_doc by simp
    moreover have "dc_key d \<noteq> ?k" using ap x(1) by (auto simp: Create_doc applies_def)
    moreover from ap obtain e where "h' = h(dc_key d := [(e, d)])" by (auto simp: Create_doc applies_def)
    ultimately show ?thesis using x unfolding register_admits_def by (intro exI[of _ x]) (auto split: if_splits)
  next
    case (Replace k d e)
    from ap obtain e' where h': "h k \<noteq> []" "fst (last (h k)) = e" "h' = h(k := h k @ [(e', d)])" by (auto simp: Replace applies_def)
    show ?thesis
    proof (cases "k = ?k")
      case False
      then show ?thesis using x h' unfolding register_admits_def by (intro exI[of _ x]) (auto split: if_splits)
    next
      case True
      from may obtain v where v: "Saw k e v \<in> K" "doc_follows v d" unfolding Replace by auto
      then have "last (h k) = (e, v)" using chained_last[OF ch _ h'(2)] K by (auto simp: all_true_def)
      then have "body_follows (Capacity_doc x) (dc_body d)" using v(2) x(2) True by (simp add: doc_follows_def)
      then obtain y where "dc_body d = Capacity_doc y" "cp_recordCapacity y = limit" "set (cp_tickets x) \<subseteq> set (cp_tickets y)" "length (cp_tickets y) \<le> limit"
        using x(3,4) by (cases "dc_body d") auto
      then show ?thesis using x h' True unfolding register_admits_def by (intro exI[of _ y]) (auto split: if_splits)
    qed
  qed (use ap in \<open>simp_all add: applies_def\<close>)
qed

section \<open>Every call comes to an end\<close>

text \<open>Whatever is answered, the program sends at most so many requests.\<close>

primrec ends_within :: "'a prog \<Rightarrow> nat \<Rightarrow> bool" where
  "ends_within (Done x) n = True"
| "ends_within (Send q k) n = (case n of 0 \<Rightarrow> False | Suc m \<Rightarrow> (\<forall>a. ends_within (k a) m))"

lemma ends_mono: "ends_within m n \<Longrightarrow> n \<le> n' \<Longrightarrow> ends_within m n'"
proof (induction m arbitrary: n n')
  case (Send q k)
  from Send.prems(1) obtain m where m: "n = Suc m" "\<And>a. ends_within (k a) m" by (cases n) simp_all
  from m(1) Send.prems(2) obtain m' where m': "n' = Suc m'" "m \<le> m'" by (cases n') simp_all
  have "ends_within (k a) m'" for a by (rule Send.IH[OF rangeI m(2) m'(2)])
  then show ?case by (simp add: m'(1))
qed simp

lemma ends_bind: "ends_within m n \<Longrightarrow> (\<And>x. ends_within (f x) n') \<Longrightarrow> ends_within (bind_prog m f) (n + n')"
proof (induction m arbitrary: n)
  case (Done x)
  then show ?case using ends_mono[of "f x" n' "n + n'"] by simp
next
  case (Send q k)
  then show ?case by (cases n) auto
qed

lemma ends_then: "ends_within m n \<Longrightarrow> (\<And>x. ends_within (f x) n') \<Longrightarrow> n + n' \<le> b \<Longrightarrow> ends_within (and_then m f) b"
  unfolding and_then_def by (rule ends_mono[OF ends_bind]) (auto split: sum.splits)

lemma ends_on_error: "ends_within m n \<Longrightarrow> (\<And>x. ends_within (f x) n') \<Longrightarrow> n + n' \<le> b \<Longrightarrow> ends_within (on_error m f) b"
  unfolding on_error_def by (rule ends_mono[OF ends_bind]) (auto split: sum.splits)

lemma ends_if: "ends_within x n \<Longrightarrow> ends_within y n \<Longrightarrow> ends_within (if b then x else y) n"
  by simp

lemma ends_api: "ends_within (cosmos_api c q) (Suc n)"
  by (simp add: cosmos_api_def)

lemma ends_get: "ends_within (cosmos_get c kind i) (Suc n)"
  unfolding cosmos_get_def
  by (intro ends_if ends_then[OF ends_api[of c _ 0], of _ n]) (auto split: content.splits option.splits)

lemma ends_loop: "ends_within (mutate_loop c kind i f n) (2 * n)"
proof (induction n)
  case (Suc n)
  show ?case unfolding mutate_loop.simps
  proof (rule ends_then[OF ends_get[of _ _ _ 0], where n' = "2 * n + 1"])
    fix x :: "(cosmos_doc \<times> string \<times> string) option"
    have "ends_within (and_then (cosmos_api c q) (\<lambda>r. if rp_status r = 412 then mutate_loop c kind i f n
             else if rp_status r \<noteq> 200 then Done (Inl unavailable) else Done (Inr (True, g r)))) (2 * n + 1)" for q g
      by (rule ends_then[OF ends_api[of c q 0], where n' = "2 * n"]) (use Suc in auto)
    then show "ends_within (case x of None \<Rightarrow> throw 404 ''lifecycle_not_found'' | Some (d, etag, now) \<Rightarrow> (case f now d of
         Inl e \<Rightarrow> Done (Inl e) | Inr None \<Rightarrow> Done (Inr (False, d))
       | Inr (Some b) \<Rightarrow> (let new = d\<lparr>dc_version := dc_version d + 1, dc_body := b\<rparr> in case packed c new of Inl e \<Rightarrow> Done (Inl e)
         | Inr _ \<Rightarrow> and_then (cosmos_api c (Replace (partitionId (cc_platform c) kind i) new etag)) (\<lambda>r. if rp_status r = 412 then mutate_loop c kind i f n
             else if rp_status r \<noteq> 200 then Done (Inl unavailable) else Done (Inr (True, written new r)))))) (2 * n + 1)"
      by (auto simp: Let_def split: option.splits sum.splits)
  qed simp
qed simp

lemma ends_mutate: "ends_within (cosmos_mutate c kind i f) (2 * cc_maxCasAttempts c)"
  unfolding cosmos_mutate_def by (rule ends_loop)

lemma ends_receipt_loop: "ends_within (receipt_loop c b f n) (2 * n)"
proof (induction n)
  case (Suc n)
  show ?case unfolding receipt_loop.simps
    by (rule ends_then[OF ends_get[of _ _ _ 0], where n' = "2 * n + 1"])
      (use Suc in \<open>auto simp: Let_def split: option.splits cosmos_body.splits sum.splits answer.splits content.splits bool.splits\<close>)
qed simp

lemma ends_receipt: "ends_within (receipt_mutate c b f) 10"
  unfolding receipt_mutate_def using ends_receipt_loop[of c b f 5] by simp

lemma ends_reserve: "ends_within (reserveCreationCapacity c kind i) (2 * cc_maxCasAttempts c)"
proof (cases "cc_recordCapacity c")
  case (Some limit)
  show ?thesis unfolding reserveCreationCapacity_def Some option.case Let_def
    by (rule ends_then[OF ends_on_error[OF ends_mutate, where n' = 0], where n' = 0]) (auto split: jserror.splits sum.splits)
qed (simp add: reserveCreationCapacity_def)

lemma ends_create: "ends_within (cosmos_create c i b) (2 * cc_maxCasAttempts c + 1)"
proof -
  let ?d = "\<lparr>dc_key = partitionId (cc_platform c) (doc_kind b) i, dc_logicalId = i, dc_version = 1, dc_body = b\<rparr>"
  have "ends_within (and_then (reserveCreationCapacity c (doc_kind b) i) (\<lambda>_. and_then (cosmos_api c (Create_doc ?d)) (\<lambda>r.
      if rp_status r = 409 then throw 409 (if doc_kind b = ''need'' then ''duplicate_request'' else if doc_kind b = ''offer'' then ''duplicate_offer'' else ''duplicate_effect'')
      else if rp_status r \<noteq> 201 \<and> rp_status r \<noteq> 200 then Done (Inl unavailable) else Done (Inr (written ?d r))))) (2 * cc_maxCasAttempts c + 1)"
    by (rule ends_then[OF ends_reserve, where n' = 1], rule ends_then[OF ends_api[of _ _ 0], where n' = 0]) auto
  then show ?thesis unfolding cosmos_create_def Let_def by (cases "packed c ?d") (simp_all only: sum.case ends_within.simps)
qed

lemma ends_claim_slot: "ends_within (claimOfferSlot c i ow fp) (4 * cc_maxCasAttempts c + 2)"
  unfolding claimOfferSlot_def
proof (rule ends_then[OF ends_get[of _ _ _ 0], where n' = "4 * cc_maxCasAttempts c + 1"],
    rule ends_then[where n = "2 * cc_maxCasAttempts c + 1" and n' = "2 * cc_maxCasAttempts c"])
  show "ends_within (case index of Some _ \<Rightarrow> Done (Inr ())
       | None \<Rightarrow> on_error (and_then (cosmos_create c ow (Owner_doc \<lparr>cw_owner = ow, cw_slots = []\<rparr>)) (\<lambda>_. Done (Inr ())))
           (\<lambda>e. case e of Fault s code \<Rightarrow> if s = 409 then Done (Inr ()) else Done (Inl e) | _ \<Rightarrow> Done (Inl e))) (2 * cc_maxCasAttempts c + 1)"
    for index :: "(cosmos_doc \<times> string \<times> string) option"
    by (auto split: option.splits jserror.splits intro!: ends_on_error[where n' = 0] ends_then[OF ends_create, where n' = 0])
  show "ends_within (and_then (cosmos_mutate c ''offer-owner'' ow (on_owner (claim_slot i ow fp))) (\<lambda>_. Done (Inr ()))) (2 * cc_maxCasAttempts c)"
    by (rule ends_then[OF ends_mutate, where n' = 0]) auto
qed auto

lemma ends_release: "ends_within (releaseOfferClaim c i ow fp) (2 * cc_maxCasAttempts c + 1)" "ends_within (releaseRevokedOfferSlot c i d) (2 * cc_maxCasAttempts c)"
proof -
  have m: "ends_within (and_then (cosmos_mutate c ''offer-owner'' ow (on_owner (release_slot i ow fp))) (\<lambda>_. Done (Inr ()))) (2 * cc_maxCasAttempts c)" for ow fp
    by (rule ends_then[OF ends_mutate, where n' = 0]) auto
  show "ends_within (releaseRevokedOfferSlot c i d) (2 * cc_maxCasAttempts c)" unfolding releaseRevokedOfferSlot_def using m by simp
  show "ends_within (releaseOfferClaim c i ow fp) (2 * cc_maxCasAttempts c + 1)" unfolding releaseOfferClaim_def
    by (rule ends_then[OF ends_get[of _ _ _ 0], where n' = "2 * cc_maxCasAttempts c"]) (use m in \<open>auto split: option.splits\<close>)
qed

lemma ends_create_offer: "ends_within (create_offer c i ow fp recoverable d) (4 * cc_maxCasAttempts c + 3)"
  unfolding create_offer_def
proof (rule ends_on_error[OF ends_create, where n' = "2 * cc_maxCasAttempts c + 2"], rule ends_if,
    rule ends_then[OF ends_get[of _ _ _ 0], where n' = "2 * cc_maxCasAttempts c + 1"])
  fix e :: jserror and existing :: "(cosmos_doc \<times> string \<times> string) option"
  have r: "ends_within (and_then (releaseOfferClaim c i ow fp) (\<lambda>_. Done (Inl e))) (2 * cc_maxCasAttempts c + 1)"
    by (rule ends_then[OF ends_release(1), where n' = 0]) auto
  show "ends_within (case existing of
         Some (row, _, _) \<Rightarrow> (case dc_body row of
           Offer_doc x \<Rightarrow> if of_owner x \<noteq> ow \<or> of_fingerprint x \<noteq> fp then and_then (releaseOfferClaim c i ow fp) (\<lambda>_. Done (Inl e)) else Done (Inl e)
         | _ \<Rightarrow> Done (Inl e))
       | None \<Rightarrow> Done (Inl e)) (2 * cc_maxCasAttempts c + 1)" using r by (auto split: option.splits cosmos_body.splits)
qed auto

lemma ends_reserve_offer: "ends_within (cosmos_reserveOffer c i ow fp env) (8 * cc_maxCasAttempts c + 6)"
proof -
  have "ends_within (and_then (claimOfferSlot c i ow fp) (\<lambda>_. create_offer c i ow fp True d)) (8 * cc_maxCasAttempts c + 5)" for d
    by (rule ends_then[OF ends_claim_slot ends_create_offer]) simp
  then have "ends_within (and_then (cosmos_get c ''offer'' i) (\<lambda>found. if found \<noteq> None then throw 409 ''duplicate_offer''
      else and_then (claimOfferSlot c i ow fp) (\<lambda>_. create_offer c i ow fp True d))) (8 * cc_maxCasAttempts c + 6)" for d
    by (intro ends_then[OF ends_get[of _ _ _ 0], where n' = "8 * cc_maxCasAttempts c + 5"]) auto
  then show ?thesis unfolding cosmos_reserveOffer_def Let_def
    by (intro ends_if) (auto split: option.splits sum.splits intro: ends_mono[OF ends_create_offer])
qed

lemma ends_hints: "ends_within (restore_hints c ow limit seen out hs) (2 * cc_maxCasAttempts c * length hs)"
proof (induction hs arbitrary: seen out)
  case (Cons h hs)
  let ?n = "2 * cc_maxCasAttempts c"
  have IH: "ends_within (restore_hints c ow limit seen' out' hs) (?n * length (h # hs))" for seen' out' by (rule ends_mono[OF Cons.IH]) simp
  show ?case
  proof (cases "dc_body h")
    case (Offer_doc x)
    show ?thesis unfolding restore_hints.simps Offer_doc cosmos_body.case
    proof (intro ends_if IH ends_then[OF ends_mutate, where n' = "?n * length hs"], simp, simp, goal_cases)
      case (1 y)
      show ?case using Cons.IH by (cases y) (auto split: cosmos_body.splits sum.splits)
    qed simp
  qed simp_all
qed simp

lemma ends_pages: "ends_within (restore_pages c ow limit n cursors seen out t) (n * (1 + 200 * cc_maxCasAttempts c))"
proof (induction n arbitrary: cursors seen out t)
  case (Suc n)
  let ?b = "n * (1 + 200 * cc_maxCasAttempts c)"
  have "ends_within (and_then (restore_hints c ow limit seen out ds) (\<lambda>(seen', out'). case rp_continuation (r :: reply) of
           None \<Rightarrow> Done (Inr out')
         | Some t \<Rightarrow> if t = [] then Done (Inr out')
             else if length t > 8192 \<or> t \<in> set cursors then throw 503 ''lifecycle_offer_directory_cursor_invalid''
             else restore_pages c ow limit n (t # cursors) seen' out' (Some t))) (200 * cc_maxCasAttempts c + ?b)" if "\<not> length ds > 100" for ds r
    by (rule ends_then[OF ends_mono[OF ends_hints, of _ _ "200 * cc_maxCasAttempts c"], where n' = ?b]) (use that Suc in \<open>auto split: option.splits\<close>)
  then show ?case unfolding restore_pages.simps
    by (intro ends_then[OF ends_api[of _ _ 0], where n' = "200 * cc_maxCasAttempts c + ?b"]) (simp_all split: content.splits)
qed simp

lemma ends_pending: "ends_within (pending_pages c r limit n out t) n"
proof (induction n arbitrary: out t)
  case (Suc n)
  show ?case unfolding pending_pages.simps
    by (rule ends_then[OF ends_api[of _ _ 0], where n' = n]) (use Suc in \<open>auto split: content.splits sum.splits option.splits\<close>)
qed simp

section \<open>A container in memory\<close>

text \<open>It shows that the law can be kept, and runs the examples: every answer is of the last version, and arrives.\<close>

definition memory_reply :: "int \<Rightarrow> string option \<Rightarrow> content \<Rightarrow> answer" where
  "memory_reply status e x = Reply \<lparr>rp_status = status, rp_noSession = False, rp_etag = e, rp_content = x, rp_continuation = None, rp_now = ''now''\<rparr>"

fun memory :: "versions \<Rightarrow> request_msg \<Rightarrow> versions \<times> answer" where
  "memory h (Read k) = (h, if h k = [] then memory_reply 404 None Other_json else memory_reply 200 (Some (fst (last (h k)))) (Document (snd (last (h k)))))"
| "memory h (Create_doc d) = (if h (dc_key d) = [] then (h(dc_key d := [(''e'', d)]), memory_reply 201 (Some ''e'') (Document d)) else (h, memory_reply 409 None Other_json))"
| "memory h (Replace k d e) = (if h k \<noteq> [] \<and> fst (last (h k)) = e
     then (h(k := h k @ [(CHR ''e'' # concat (map fst (h k)), d)]), memory_reply 200 None (Document d)) else (h, memory_reply 412 None Other_json))"
| "memory h (Query x r t) = (h, memory_reply 200 None (Documents []))"

definition memory_container :: "versions \<Rightarrow> request_msg \<Rightarrow> versions \<Rightarrow> answer \<Rightarrow> bool" where
  "memory_container h q h' a \<longleftrightarrow> memory h q = (h', a)"

lemma fresh_etag: "CHR ''e'' # concat xs \<notin> set xs"
proof
  have "length x \<le> length (concat xs)" if "x \<in> set xs" for x :: string using that by (induction xs) auto
  moreover assume "CHR ''e'' # concat xs \<in> set xs"
  ultimately show False by fastforce
qed

lemma memory_container_law: "container_law memory_container"
  unfolding container_law_def
proof (intro allI impI)
  fix h q h' a assume "memory_container h q h' a"
  then have m: "memory h q = (h', a)" by (simp add: memory_container_def)
  show "sane q a \<and> reports h q a \<and> (applies h q h' \<or> h' = h \<and> \<not> write_accepted q a)"
  proof (cases q)
    case (Replace k d e)
    have "CHR ''e'' # concat (map fst (h k)) \<notin> fst ` set (h k)" using fresh_etag[of "map fst (h k)"] by simp
    then show ?thesis using m unfolding Replace
      by (auto simp: memory_reply_def reports_def applies_def write_accepted_def written_def split: if_splits)
  qed (use m in \<open>auto simp: memory_reply_def reports_def applies_def write_accepted_def written_def split: if_splits\<close>)
qed

text \<open>An example is a list of moves: a call starts, the request of a call is answered, or is lost on its way there or back.\<close>

datatype move = Start cosmos_op | Answer nat | Lose nat

fun make_move :: "cosmos_conf \<Rightarrow> move \<Rightarrow> cosmos_state \<Rightarrow> cosmos_state" where
  "make_move c (Start op) s = s\<lparr>ct_calls := ct_calls s @ [(op, run_op c op)]\<rparr>"
| "make_move c (Answer i) s = (if i < length (ct_calls s) then (case ct_calls s ! i of
       (op, Send q k) \<Rightarrow> (case memory (ct_versions s) q of (h', a) \<Rightarrow> s\<lparr>ct_versions := h', ct_calls := (ct_calls s)[i := (op, k a)]\<rparr>)
     | (op, Done r) \<Rightarrow> s) else s)"
| "make_move c (Lose i) s = (if i < length (ct_calls s) then (case ct_calls s ! i of
       (op, Send q k) \<Rightarrow> s\<lparr>ct_flying := q # ct_flying s, ct_calls := (ct_calls s)[i := (op, k NoReply)]\<rparr>
     | (op, Done r) \<Rightarrow> s) else s)"

definition play :: "cosmos_conf \<Rightarrow> versions \<Rightarrow> move list \<Rightarrow> cosmos_state" where
  "play c h ms = fold (make_move c) ms (cosmos_start h)"

lemma make_move_step: "make_move c m s = s \<or> cosmos_step c memory_container s (make_move c m s)"
proof (cases m)
  case (Start op)
  show ?thesis unfolding Start make_move.simps using cosmos_step.call by blast
next
  case (Answer i)
  show ?thesis unfolding Answer make_move.simps
    by (auto split: prod.splits prog.splits intro!: cosmos_step.answered simp: memory_container_def)
next
  case (Lose i)
  show ?thesis unfolding Lose make_move.simps by (auto split: prod.splits prog.splits intro!: cosmos_step.lost)
qed

lemma play_reachable: "(\<And>k. length (h k) \<le> 1) \<Longrightarrow> cosmos_reachable c memory_container h (play c h ms)"
proof -
  have "(cosmos_step c memory_container)\<^sup>*\<^sup>* s (fold (make_move c) ms s)" for s
  proof (induction ms arbitrary: s)
    case (Cons m ms)
    have "(cosmos_step c memory_container)\<^sup>*\<^sup>* s (make_move c m s)" using make_move_step[of c m s] by auto
    then show ?case using Cons.IH[of "make_move c m s"] by simp
  qed simp
  then show "(\<And>k. length (h k) \<le> 1) \<Longrightarrow> cosmos_reachable c memory_container h (play c h ms)" by (simp add: cosmos_reachable_def play_def)
qed

definition cosmos_sample :: "nat option \<Rightarrow> cosmos_conf" where
  "cosmos_sample limit = \<lparr>cc_platform = sample_platform\<lparr>sha256 := (\<lambda>s. take 64 (sample_sha256 s @ replicate 64 CHR ''0''))\<rparr>, cc_base = ''base'', cc_bytes = (\<lambda>_. 1000),
     cc_maxDocumentBytes = 850000, cc_maxDeliveriesPerNeed = 64, cc_maxCasAttempts = 3, cc_recordCapacity = limit\<rparr>"

definition sample_reservation :: need_reservation where
  "sample_reservation = \<lparr>rv_id = ''n'', rv_requester = ''r'', rv_provider = ''p'', rv_fingerprint = ''f'', rv_capability = ''c'', rv_mode = ''m'', rv_scope = ''r'',
     rv_policyDigest = ''d'', rv_delivery = None, rv_paidAuthorization = JNull\<rparr>"

text \<open>Two hosts end one NEED; both have read it before either writes.\<close>

definition ending_race :: "move list" where
  "ending_race = [Start (Op_reserveNeed ''t'' sample_reservation), Answer 0, Start (Op_transitionNeed ''n'' ''r'' [] (Some NCancelled) None),
     Start (Op_transitionNeed ''n'' [] ''p'' (Some NCompleted) None), Answer 1, Answer 2, Answer 2, Answer 1, Answer 1]"

definition sample_binding :: binding where
  "sample_binding = \<lparr>bd_id = ''n'', bd_provider = ''p'', bd_requester = ''r'', bd_fingerprint = ''f''\<rparr>"

text \<open>Two hosts begin one effect; both go on to claim its paid call.\<close>

definition effect_race :: "move list" where
  "effect_race = [Start (Op_beginEffect ''t'' ''n'' ''r'' ''p'' ''f''), Start (Op_beginEffect ''t'' ''n'' ''r'' ''p'' ''f''), Answer 1, Answer 0, Answer 0,
     Start (Op_claimExecution (\<lambda>_. 1000) sample_binding ''k'' None), Start (Op_claimExecution (\<lambda>_. 1000) sample_binding ''l'' None), Answer 2, Answer 3, Answer 2, Answer 3, Answer 3]"

text \<open>In an example the rest of a program is left alone until its answer is there.\<close>

lemma send_cong: "q = q' \<Longrightarrow> Send q k = Send q' k"
  by simp

lemmas receipt_loop_numeral = receipt_loop.simps(2)[where n = "pred_numeral w" for w, folded numeral_eq_Suc]

lemmas cosmos_run = receipt_loop_numeral play_def cosmos_start_def cosmos_sample_def and_then_def on_error_def out_of_def cosmos_api_def cosmos_get_def cosmos_mutate_def packed_def
  pending_count_def written_def memory_reply_def nonempty_text_def validNeedId_def reserveCreationCapacity_def cosmos_create_def Let_def numeral_3_eq_3 numeral_2_eq_2
  ending_race_def sample_reservation_def cosmos_reserveNeed_def new_need_def appendDelivery_def cosmos_transitionNeed_def on_need_def end_need_def authorize_need_def
  effect_race_def sample_binding_def cosmos_beginEffect_def claimReceiptExecution_def receipt_mutate_def claim_execution_def receipt_committed_def
  need_ended_def effect_acquired_def call_claimed_def

section \<open>What the hosts may rely on\<close>

text \<open>C6. For every container that keeps its law, any number of hosts, and every order of requests, lost
  answers and late writes: of two versions of a document in the shared ledger the later has the key, the
  identity and the higher version number, and keeps the history contract of the SQLite ledger. A NEED
  that has ended stays as it ended and keeps its parties, a revoked OFFER stays revoked, a finished effect
  keeps its outcome; deliveries stay in order, are never dropped and never lose their acknowledgement; the
  claim and the receipt of a paid call are set once.\<close>

theorem cosmos_history:
  assumes "container_law svc" "cosmos_reachable c svc h s" "i < j" "j < length (ct_versions s k)"
    and "v = snd (ct_versions s k ! i)" "w = snd (ct_versions s k ! j)"
  shows "dc_key w = dc_key v \<and> dc_logicalId w = dc_logicalId v \<and> dc_version v < dc_version w \<and> (case (dc_body v, dc_body w) of
     (Need_doc n, Need_doc n') \<Rightarrow> need_follows (need_row.truncate n) (need_row.truncate n') \<and> deliveries_follow (cn_deliveries n) (cn_deliveries n')
   | (Offer_doc d, Offer_doc d') \<Rightarrow> offer_follows (offer_row.truncate d) (offer_row.truncate d')
   | (Effect_doc d, Effect_doc d') \<Rightarrow> effect_follows (effect_row.truncate d) (effect_row.truncate d') \<and>
       (ce_execution d \<noteq> None \<longrightarrow> ce_execution d' = ce_execution d) \<and> (ce_receipt d \<noteq> None \<longrightarrow> ce_receipt d' = ce_receipt d)
   | (Owner_doc d, Owner_doc d') \<Rightarrow> cw_owner d' = cw_owner d
   | (Capacity_doc d, Capacity_doc d') \<Rightarrow> set (cp_tickets d) \<subseteq> set (cp_tickets d')
   | _ \<Rightarrow> False)"
proof -
  have "doc_follows v w" using known_versions[OF assms(1-4)] assms(5,6) by simp
  then show ?thesis unfolding doc_follows_def
    by (cases "dc_body v"; cases "dc_body w") (auto simp: need_doc_follows_def offer_doc_follows_def effect_doc_follows_def)
qed

theorem cosmos_history_witness:
  "let s = play (cosmos_sample None) (\<lambda>_. []) ending_race; vs = ct_versions s (partitionId (cc_platform (cosmos_sample None)) ''need'' ''n'') in
   length vs = 2 \<and> dc_version (snd (vs ! 0)) < dc_version (snd (vs ! 1))"
proof -
  let ?c = "cosmos_sample None"
  let ?s = "play ?c (\<lambda>_. []) ending_race" and ?k = "partitionId (cc_platform (cosmos_sample None)) ''need'' ''n''"
  have two: "length (ct_versions ?s ?k) = 2" by (simp add: cosmos_run cong: send_cong)
  then have "dc_version (snd (ct_versions ?s ?k ! 0)) < dc_version (snd (ct_versions ?s ?k ! 1))"
    using cosmos_history[OF memory_container_law play_reachable[of "\<lambda>_. []" ?c ending_race] zero_less_one _ refl refl, THEN conjunct2, THEN conjunct2, THEN conjunct1, of ?k]
    by simp
  with two show ?thesis by (simp add: Let_def)
qed

text \<open>C8. A NEED is ended by one call of one host. When two calls, of any hosts, are told that they ended
  the NEED - by a transition, or by the commit of a recovered result - they are the same call, however the
  requests interleave and whichever answers are lost.\<close>

theorem cosmos_need_ended_once:
  assumes "container_law svc" "cosmos_reachable c svc h s" "i < length (ct_calls s)" "j < length (ct_calls s)"
    and "need_ended (ct_calls s ! i) = Some n" "need_ended (ct_calls s ! j) = Some n"
  shows "i = j"
  using reachable_known[OF assms(1) kept_True assms(2)] ended_once assms(3-6) by blast

theorem cosmos_need_ended_once_witness:
  "let s = play (cosmos_sample None) (\<lambda>_. []) ending_race in need_ended (ct_calls s ! 2) = Some ''n'' \<and> need_ended (ct_calls s ! 1) \<noteq> Some ''n''"
proof -
  let ?c = "cosmos_sample None"
  let ?s = "play ?c (\<lambda>_. []) ending_race"
  have won: "length (ct_calls ?s) = 3" "need_ended (ct_calls ?s ! 2) = Some ''n''" by (simp_all add: cosmos_run cong: send_cong)
  then have "need_ended (ct_calls ?s ! 1) \<noteq> Some ''n''"
    using cosmos_need_ended_once[OF memory_container_law play_reachable[of "\<lambda>_. []" ?c ending_race], of 1 2 "''n''"] by auto
  with won show ?thesis by (simp add: Let_def)
qed

text \<open>C3. A paid effect is run by one call of one host: of all calls that begin an effect at most one is told
  that it acquired it, and of all calls that claim its paid call at most one gets the token, with every
  interleaving, every lost answer and every write that arrives late.\<close>

theorem cosmos_effect_run_once:
  assumes "container_law svc" "cosmos_reachable c svc h s" "i < length (ct_calls s)" "j < length (ct_calls s)"
    and "effect_acquired (ct_calls s ! i) = Some n \<and> effect_acquired (ct_calls s ! j) = Some n \<or>
         call_claimed (ct_calls s ! i) = Some n \<and> call_claimed (ct_calls s ! j) = Some n"
  shows "i = j"
  using reachable_known[OF assms(1) kept_True assms(2)] acquired_once claimed_once assms(3-5) by blast

theorem cosmos_effect_run_once_witness:
  "let s = play (cosmos_sample None) (\<lambda>_. []) effect_race in effect_acquired (ct_calls s ! 1) = Some ''n'' \<and> effect_acquired (ct_calls s ! 0) \<noteq> Some ''n'' \<and>
     call_claimed (ct_calls s ! 2) = Some ''n'' \<and> call_claimed (ct_calls s ! 3) \<noteq> Some ''n''"
proof -
  let ?c = "cosmos_sample None"
  let ?s = "play ?c (\<lambda>_. []) effect_race"
  have won: "length (ct_calls ?s) = 4" "effect_acquired (ct_calls ?s ! 1) = Some ''n''" "call_claimed (ct_calls ?s ! 2) = Some ''n''" by (simp_all add: cosmos_run cong: send_cong)
  have "effect_acquired (ct_calls ?s ! 0) \<noteq> Some ''n''"
    using won cosmos_effect_run_once[OF memory_container_law play_reachable[of "\<lambda>_. []" ?c effect_race], of 0 1 "''n''"] by auto
  moreover have "call_claimed (ct_calls ?s ! 3) \<noteq> Some ''n''"
    using won cosmos_effect_run_once[OF memory_container_law play_reachable[of "\<lambda>_. []" ?c effect_race], of 2 3 "''n''"] by auto
  ultimately show ?thesis using won by (simp add: Let_def)
qed

text \<open>C15. The limit on records is kept by all hosts together: from a container that has only the register
  installed by \<open>createLifecycleCapacityDocument\<close>, no order of requests makes more documents than the limit,
  the register apart.\<close>

theorem cosmos_capacity_bound:
  assumes "container_law svc" "cosmos_reachable c svc h s" "cc_recordCapacity c = Some limit"
    and "createLifecycleCapacityDocument (cc_platform c) endpoint database container (JNum (of_nat limit)) = Inr register"
    and "h = (\<lambda>_. [])(capacityKey (cc_platform c) := [(e, register)])"
  shows "finite {k. ct_versions s k \<noteq> []} \<and> card ({k. ct_versions s k \<noteq> []} - {capacityKey (cc_platform c)}) \<le> limit"
proof -
  have "nat (int_of (JNum (of_nat limit))) = limit" using int_of_JNum(1)[of "int limit"] by simp
  then have "register_admits c limit h" using assms(4,5) by (auto simp: register_admits_def createLifecycleCapacityDocument_def split: if_splits)
  then have "register_admits c limit (ct_versions s)"
    using reachable_known[OF assms(1) register_admits_kept[OF assms(3)] assms(2)] by (auto simp: all_known_def)
  then obtain x :: capacity_doc where x: "length (cp_tickets x) \<le> limit" "{k. ct_versions s k \<noteq> []} - {capacityKey (cc_platform c)} \<subseteq> set (cp_tickets x)"
    unfolding register_admits_def by blast
  have "card ({k. ct_versions s k \<noteq> []} - {capacityKey (cc_platform c)}) \<le> card (set (cp_tickets x))" using x(2) by (intro card_mono) auto
  moreover have "finite ({k. ct_versions s k \<noteq> []} - {capacityKey (cc_platform c)})" using x(2) finite_subset by blast
  ultimately show ?thesis using card_length[of "cp_tickets x"] x(1) by auto
qed

theorem cosmos_capacity_bound_witness:
  "\<exists>register. createLifecycleCapacityDocument (cc_platform (cosmos_sample (Some 1))) ''https://a.documents.azure.com'' ''d'' ''c'' (JNum 1) = Inr register \<and>
     (let c = cosmos_sample (Some 1); k = capacityKey (cc_platform c); s = play c ((\<lambda>_. [])(k := [(''e'', register)])) effect_race in
       finite {x. ct_versions s x \<noteq> []} \<and> card ({x. ct_versions s x \<noteq> []} - {k}) \<le> 1)"
proof -
  let ?c = "cosmos_sample (Some 1)"
  let ?k = "capacityKey (cc_platform ?c)"
  have "azure_endpoint ''https://a.documents.azure.com''" "cosmos_name ''d''" "cosmos_name ''c''" "validRecordCapacity (JNum 1)" by code_simp+
  then obtain register where r: "createLifecycleCapacityDocument (cc_platform ?c) ''https://a.documents.azure.com'' ''d'' ''c'' (JNum 1) = Inr register"
    by (simp add: createLifecycleCapacityDocument_def)
  have "cosmos_reachable ?c memory_container ((\<lambda>_. [])(?k := [(''e'', register)])) (play ?c ((\<lambda>_. [])(?k := [(''e'', register)])) effect_race)"
    by (rule play_reachable) simp
  from cosmos_capacity_bound[OF memory_container_law this, of 1 "''https://a.documents.azure.com''" "''d''" "''c''" register "''e''"] r
  show ?thesis by (auto simp: cosmos_sample_def Let_def)
qed

lemma ends_recovered: "ends_within (commitRecoveredResult c aborted need pr dl dig) (2 * cc_maxCasAttempts c + 1)"
proof -
  let ?i = "str_of (get need ''id'')"
  have fin: "ends_within (and_then (cosmos_mutate c ''need'' ?i (on_need (recover_need c aborted ?i need pr dl rcd))) (\<lambda>(changed, row').
      case dc_body row' of
        Need_doc n \<Rightarrow> (case recovered_same (cc_platform c) rcd n of Inl x \<Rightarrow> Done (Inl x)
          | Inr same \<Rightarrow> if nr_status n \<noteq> NCompleted \<or> \<not> same then throw 503 ''recovered_result_commit_unverified'' 
            else Done (Inr (\<not> changed, (case cn_recoveredUsage n of Some u \<Rightarrow> u | None \<Rightarrow> JUndef), result_queued n)))
      | _ \<Rightarrow> throw 503 ''recovered_result_commit_unverified'')) (2 * cc_maxCasAttempts c)" for rcd
    by (rule ends_then[OF ends_mutate, where n' = 0]) (auto split: prod.splits cosmos_body.splits sum.splits)
  show ?thesis unfolding commitRecoveredResult_def Let_def
  proof (rule ends_if, simp, rule ends_then[OF ends_get[of _ _ _ 0], where n' = "2 * cc_maxCasAttempts c"], goal_cases)
    case (1 found)
    show ?case using fin by (auto split: option.splits cosmos_body.splits sum.splits bool.splits)
  qed simp
qed

text \<open>C23. Every call of the shared ledger comes to an end: whatever the container answers, it sends no more
  than 50 requests and 10000 for every attempt at a conditional write the configuration allows.\<close>

theorem cosmos_calls_end: "ends_within (run_op c op) (10000 * cc_maxCasAttempts c + 50)"
proof -
  note out = ends_then[where n' = 0] and mut = ends_mono[OF ends_mutate]
  show ?thesis
  proof (cases op)
    case (Op_reserveOffer i ow fp env)
    show ?thesis unfolding Op_reserveOffer run_op.simps out_of_def by (rule out[OF ends_reserve_offer]) simp_all
  next
    case (Op_revokeOffer i ow)
    have "ends_within (cosmos_revokeOffer c i ow) (4 * cc_maxCasAttempts c)" unfolding cosmos_revokeOffer_def
      by (rule ends_then[OF ends_mutate, where n' = "2 * cc_maxCasAttempts c"]) (auto split: cosmos_body.splits intro!: ends_then[where n' = 0] intro: ends_release(2))
    then show ?thesis unfolding Op_revokeOffer run_op.simps out_of_def by (rule out) (auto split: prod.splits)
  next
    case (Op_restoreOffers ow limit)
    have "ends_within (cosmos_restoreOffers c ow limit) (50 * (1 + 200 * cc_maxCasAttempts c))" unfolding cosmos_restoreOffers_def by (rule ends_if) (simp, rule ends_pages)
    then show ?thesis unfolding Op_restoreOffers run_op.simps out_of_def by (rule out) simp_all
  next
    case (Op_beginEffect now i rq pr fp)
    have "ends_within (cosmos_beginEffect c now i rq pr fp) (2 * cc_maxCasAttempts c + 2)" unfolding cosmos_beginEffect_def
      by (intro ends_if ends_on_error[OF ends_then[OF ends_create, where n' = 0], where n' = 1])
        (auto split: jserror.splits option.splits cosmos_body.splits intro!: ends_then[OF ends_get[of _ _ _ 0], where n' = 0])
    then show ?thesis unfolding Op_beginEffect run_op.simps out_of_def by (rule out) (auto split: prod.splits)
  next
    case (Op_claimExecution room b token scope)
    have "ends_within (claimReceiptExecution c room b token scope) 10" unfolding claimReceiptExecution_def
      by (intro ends_if ends_then[OF ends_receipt, where n' = 0]) (auto split: prod.splits cosmos_body.splits option.splits)
    then show ?thesis unfolding Op_claimExecution run_op.simps out_of_def by (rule out) simp_all
  next
    case (Op_captureReceipt b token v)
    have "ends_within (captureEffectReceipt c b token v) 10" unfolding captureEffectReceipt_def using ends_receipt by (auto split: sum.splits)
    then show ?thesis unfolding Op_captureReceipt run_op.simps out_of_def by (rule out) (auto split: prod.splits)
  next
    case (Op_commitRecovered ab nd pr dl dig)
    show ?thesis unfolding Op_commitRecovered run_op.simps out_of_def by (rule out[OF ends_recovered]) (auto split: prod.splits)
  next
    case (Op_pendingDeliveries r limit)
    have "ends_within (cosmos_pendingDeliveries c r limit) 50" unfolding cosmos_pendingDeliveries_def using ends_pending by simp
    then show ?thesis unfolding Op_pendingDeliveries run_op.simps out_of_def by (rule out) simp_all
  next
    case (Op_lookup kind i)
    show ?thesis unfolding Op_lookup run_op.simps out_of_def by (rule out[OF ends_get[of _ _ _ 0]]) simp_all
  next
    case (Op_reserveNeed now v)
    have "ends_within (cosmos_reserveNeed c now v) (2 * cc_maxCasAttempts c + 1)" unfolding cosmos_reserveNeed_def using ends_create by (auto split: sum.splits)
    then show ?thesis unfolding Op_reserveNeed run_op.simps out_of_def by (rule out) simp_all
  next
    case Op_verifyCapacity
    have "ends_within (cosmos_verifyCapacityContract c) 1" unfolding cosmos_verifyCapacityContract_def
      by (auto split: option.splits sum.splits intro!: ends_then[OF ends_get[of _ _ _ 0], where n' = 0])
    then show ?thesis unfolding Op_verifyCapacity run_op.simps out_of_def by (rule out) simp_all
  qed (auto simp: cosmos_rollbackPartial_def out_of_def cosmos_transitionNeed_def cosmos_acceptPartial_def cosmos_acknowledgeDelivery_def cosmos_compactNeed_def cosmos_compactOffer_def cosmos_finishEffect_def
      split: option.splits prod.splits intro!: out mut[of c])
qed

end
