(* ===== verification/Spec2Isabelle.thy ===== *)
theory Spec2Isabelle
  imports Negotiation Dht_Records Admission_Queue Durable_Inbox Provider_Security Json_Store Transparency_Log Provenance Placement A2a_Tasks Trust_Lifecycle Peer_Sessions Rate_Governor Relay_Runs Cosmos_Hosts
begin

text \<open>
  A verification of the core of TRUYN, a network in which nodes ask for work (NEED), offer it (OFFER)
  and deliver it (PARTIAL, RESULT) in signed messages, over relays or directly, and in which claims
  are attested, revoked and assessed by anyone. The program is JavaScript for Node; the paths below
  are relative to \<^verbatim>\<open>src/\<close>.

  \<^bold>\<open>How the program is put together.\<close> Every message, record, claim and receipt is a JSON value with a
  canonical text; identifiers are digests of that text and signatures are made over it. Nodes agree on
  a protocol generation and open authenticated sessions, find each other in a Kademlia table with
  signed records, and find data through placement directories that gossip. A relay or provider admits
  work through a bounded queue and a replay guard, keeps it in a durable inbox and a lifecycle ledger,
  and decides who may use a provider and who pays. Claims carry attestations with lineage; the
  provenance analysis tells which are independent, the assessment gives a verdict, the trust lifecycle
  revokes and disputes, and a transparency log, replicated between nodes, makes revocations
  public. The A2A facade keeps its tasks in a store fed by verified events. Calls to paid providers
  go through a rate governor.

  \<^bold>\<open>The theories\<close>, in the order they build on each other.

  \<^item> \<open>JS_Prelude\<close>: values of the language, its library as far as the sources call it, errors as values,
    and the record \<open>platform\<close> of what Node computes (digests, signatures, dates, collation).
    \<open>Sample_Platform\<close>: one concrete platform, only for the witnesses.
  \<^item> \<open>Canonical_Json\<close> and \<open>Protocol\<close>: \<^verbatim>\<open>core/protocol/index.js\<close>, \<^verbatim>\<open>core/identity/index.js\<close>. The canonical text
    is independent of member order and determines the value; an accepted envelope is bound to
    the key its sender identifier is the digest of; what is created is accepted. The locale
    \<open>bounded_memo\<close> is the contract of the memos in front of pure functions; it is interpreted
    on the fingerprint cache here and on the two caches of \<open>Kademlia\<close>.
  \<^item> \<open>Negotiation\<close>: \<^verbatim>\<open>core/protocol/negotiation.js\<close>, \<^verbatim>\<open>normalized-errors.js\<close>, \<^verbatim>\<open>need-admission.js\<close>. Both
    ends agree on the same highest common generation; the classifier is closed over its classes.
  \<^item> \<open>Peer_Sessions\<close>: \<^verbatim>\<open>network/sessions/authenticated-session.js\<close>. A handshake of honest ends completes
    with one agreement; an ACCEPT is bound to one HELLO; how long the replay cache refuses a repeat.
  \<^item> \<open>Kademlia\<close> and \<open>Dht_Records\<close>: \<^verbatim>\<open>network/dht/kademlia.js\<close>. The invariant of the routing table, nearest
    peers, the record store, and that the memo of verified signatures lets nothing unsigned through.
  \<^item> \<open>Admission_Queue\<close>, \<open>Durable_Inbox\<close>: \<^verbatim>\<open>network/admission/bounded-queue.js\<close>, \<^verbatim>\<open>load-monitor.js\<close>,
    \<^verbatim>\<open>durable-inbox.js\<close>, cut at their awaits. No task is lost and no waiter stranded; a restart restores
    every accepted entry; recovery leaves none pending.
  \<^item> \<open>Lifecycle_Ledger\<close>: \<^verbatim>\<open>network/relay/durable-lifecycle-ledger.js\<close>. No row is lost, terminal states are
    final, an effect is acquired once. \<open>Need_Replay\<close>: \<^verbatim>\<open>network/admission/need-replay.js\<close>; the locale
    \<open>need_registry\<close> is what the guard needs of a registry, interpreted on the ledger and on the set
    in memory.
  \<^item> \<open>Relay_Routing\<close>, \<open>Relay_State\<close>, \<open>Relay_Requests\<close>, \<open>Relay_Runs\<close>: \<^verbatim>\<open>network/relay/server.js\<close>. The index of
    offers and the ranking that matches a NEED with one; nodes, sessions, queues and requests; the
    handlers of registration, offers, NEEDs, partial results, results, cancellation, status, polls, sockets
    and the heartbeat, cut at their awaits; what holds over every interleaving of them. Request objects
    have addresses (\<open>re_heap\<close>), since waiting handlers share them. The ledger is the one of
    \<open>Lifecycle_Ledger\<close> or none, and other processes of the host use it as they like.
  \<^item> \<open>Cosmos_Ledger\<close>, \<open>Cosmos_Runs\<close>, \<open>Cosmos_Hosts\<close>: \<^verbatim>\<open>network/relay/cosmos-lifecycle-ledger.js\<close> and the receipts of
    paid calls in it, \<^verbatim>\<open>runtime/g5-durable-response-receipt.js\<close>. An operation is a program that sends requests
    to a remote container and goes on with the answers; what a program may send is derived from
    what it has read; hosts, lost answers and late writes interleave at every request. The
    documents keep the history contract of the SQLite ledger, a NEED is ended, an effect acquired and
    a paid call claimed by one call of one host, the limit on records holds for all hosts together,
    every call ends.
  \<^item> \<open>Provider_Security\<close>: six files of \<^verbatim>\<open>core/security/\<close>. What a provider accepts as paid was
    authorised for exactly these parties.
  \<^item> \<open>Json_Store\<close>: \<^verbatim>\<open>core/security/durable-json-store.js\<close> at the granularity of file system calls.
  \<^item> \<open>Transparency_Log\<close>: \<^verbatim>\<open>core/trust/transparency-log.js\<close>, \<^verbatim>\<open>network/replication/transparency-replication.js\<close>.
    Append-only against hostile peers; equal heads mean equal logs; a successful synchronisation
    with an honest replica makes the logs equal.
  \<^item> \<open>Claims\<close>, \<open>Provenance\<close>, \<open>Trust_Lifecycle\<close>: \<^verbatim>\<open>core/claims/index.js\<close>, \<^verbatim>\<open>core/provenance/index.js\<close>,
    \<^verbatim>\<open>core/trust/claim-verification.js\<close>, \<^verbatim>\<open>core/trust/lifecycle.js\<close>. Groups are the classes of shared lineage;
    an active verdict rests on fresh, certified, unrevoked and independent attestations; only
    issuers revoke.
  \<^item> \<open>Placement\<close>: \<^verbatim>\<open>core/network/placement-discovery.js\<close>. Revocations are final in any order of messages,
    gossip converges, the resolver lists exactly what enough directories list.
  \<^item> \<open>A2a_Tasks\<close>: \<^verbatim>\<open>adapters/a2a/task-store.js\<close>. Bounds, replay markers, who can change a task.
  \<^item> \<open>Rate_Governor\<close>: \<^verbatim>\<open>adapters/providers/common/provider-rate-governor.js\<close>. Bounded attempts and waits,
    every call ends, the cooldown of a key.

  \<^bold>\<open>How code becomes definitions.\<close> A value is a \<open>jsval\<close>; an object is the list of its own members in
  enumeration order. A \<^verbatim>\<open>throw\<close> is \<open>Inl\<close> of an error and a verdict with a reason is \<open>Inl\<close> of the reason. A
  class is a record and a method a function from the record to a result and a new record. An
  asynchronous method is cut at each \<^verbatim>\<open>await\<close> into the steps the event loop runs without interruption;
  steps of all calls interleave freely, as an inductive step relation or as a list of events
  that an executable function runs. Clock readings, random identifiers and nonces are arguments of
  the step that reads them, so the theorems hold for every clock. Files are their contents; a crash
  drops what is in memory.

  \<^bold>\<open>What is assumed.\<close> Node is a parameter. A theorem that needs more names it: \<open>digest_law\<close> (the digest is
  injective and hexadecimal), \<open>date_law\<close> (an ISO text parses back), that what the platform signs it
  verifies, that collation is a total order, that the rounding of doubles is monotone and exact on
  integers up to 53 bits. Each such theorem has a witness on a platform where the laws hold.
  Of the remote container \<open>container_law\<close> is assumed: conditional writes, and answers that may be stale or lost.
  Authorities, peers and the artifact mapping of A2A are arbitrary functions.

  \<^bold>\<open>Bounds and fuel.\<close> No definition has fuel: recursions are structural or have a measure. The
  search of the union-find is a partial function, shown to return on every forest the code builds. The
  retry loop of the governor is a step relation; its number of steps is bounded by the
  configured waits and retries. The loops of the shared ledger have the limits the code gives
  them (attempts, pages).

  \<^bold>\<open>What the code does not do.\<close> Eight theorems show schedules or inputs on which the code misses its
  aim: a queue that exceeds its in-flight limit, an inbox that runs a handler twice, a lock takeover that
  loses an update, a failed write that makes the log unreadable, a malformed revocation that blocks
  proper ones, a provider call during a cooldown, a NEED whose result is accepted twice, a result that
  is lost because its reserved room was taken. The replay cache of sessions is exact about how
  many other hellos make it forget one.

  \<^bold>\<open>Not modelled.\<close> Of the relay: the parsing of requests, chains of NEEDs, stored contexts, the
  listing and durable-status routes, node eviction and the recovery of offers. Of the shared ledger: deadlines and
  headers, and the calls to the paid provider between the claim of a call and its receipt. The QUIC
  transports and clients (\<^verbatim>\<open>network/runtime.js\<close>, \<^verbatim>\<open>node/\<close>), which are input and output; context retrieval, which scores
  floating-point vectors of an embedding provider; the MCP, NLWeb and SDK adapters; configuration, secret
  stores, telemetry, the command line, benchmarks. Texts with code units above 255 are outside the
  model of strings except in the surrogate check; cyclic values and sparse arrays have no
  counterpart; fsync and rename are one step.
\<close>

end
